(* ===== verification/Prelude.thy ===== *)
theory Prelude
  imports Main "HOL-Library.Word" "HOL-Library.Signed_Division"
begin

section \<open>Shared prelude\<close>

text \<open>
  The types, collections and generic lemmas the components share: fixed-width words, addresses,
  option-valued computations, and arithmetic modulo a table or ring size.
\<close>

unbundle bit_operations_syntax

type_synonym u8 = "8 word"
type_synonym u32 = "32 word"
type_synonym u64 = "64 word"

text \<open>A C pointer of a 64-bit target; \<open>NULL\<close> is the zero word.\<close>

type_synonym ptr = "64 word"

abbreviation NULL :: ptr where "NULL \<equiv> 0"

named_theorems wm_defs \<open>definitions unfolded by the component proofs\<close>
named_theorems wm_inv \<open>preservation of the component invariants\<close>

subsection \<open>Decimal numbers\<close>

text \<open>What \<^verbatim>\<open>printf\<close> writes for \<^verbatim>\<open>%d\<close> and a natural number.\<close>

fun decimal :: "nat \<Rightarrow> string" where
  "decimal n = (if n < 10 then [char_of (48 + n)] else decimal (n div 10) @ [char_of (48 + n mod 10)])"

declare decimal.simps [simp del]

subsection \<open>Words\<close>

lemma unat_plus_1_less:
  fixes w :: u32
  assumes "unat w < n" and "n < 2 ^ 32"
  shows "unat (w + 1) = Suc (unat w)"
  using assms by (simp add: unat_word_ariths)

lemma unat_minus_1_pos:
  fixes w :: u32
  assumes "0 < unat w"
  shows "unat (w - 1) = unat w - 1"
proof -
  have "1 \<le> w"
    using assms by (simp add: word_le_nat_alt)
  then show ?thesis
    by (simp add: unat_sub)
qed

lemma unat_u32_lt: "unat (w :: u32) < 2 ^ 32"
  by (rule less_le_trans [OF unsigned_less]) simp

lemma unat_u64_lt: "unat (w :: u64) < 2 ^ 64"
  by (rule less_le_trans [OF unsigned_less]) simp

lemma unat_ucast_32_64 [simp]: "unat (ucast (n :: u32) :: u64) = unat n"
  using unat_u32_lt[of n] by (simp add: unsigned_ucast_eq take_bit_nat_eq_self_iff)

subsection \<open>Steps around a ring of positions\<close>

lemma mod_add_wrap:
  fixes a d z :: nat
  assumes "a < z" and "d < z"
  shows "(a + d) mod z = (if z \<le> a + d then a + d - z else a + d)"
  using assms by (simp add: mod_if)

lemma coprime_stride_inj:
  fixes s d z i j :: nat
  assumes cop: "coprime d z" and "i < z" and "j < z"
    and eq: "(s + i * d) mod z = (s + j * d) mod z"
  shows "i = j"
  using assms(2-4)
proof (induction i j rule: linorder_wlog)
  case (le i j)
  then have "z dvd (s + j * d) - (s + i * d)"
    by (metis mod_eq_dvd_iff_nat add_left_mono mult_le_mono1)
  then have "z dvd (j - i) * d"
    by (simp add: diff_mult_distrib)
  then have "z dvd j - i"
    using cop by (simp add: coprime_commute coprime_dvd_mult_left_iff)
  with le show ?case
    by (meson dvd_imp_le diff_le_self le_less_trans less_le_not_le not_less_zero
        zero_less_diff le_neq_implies_less)
next
  case (sym i j)
  then show ?case by simp
qed

lemma coprime_stride_surj:
  fixes s d z a :: nat
  assumes cop: "coprime d z" and "a < z"
  shows "\<exists>i<z. (s + i * d) mod z = a"
proof -
  let ?f = "\<lambda>i. (s + i * d) mod z"
  have "0 < z" using assms(2) by simp
  have "inj_on ?f {..<z}"
  proof (rule inj_onI)
    fix i j assume "i \<in> {..<z}" "j \<in> {..<z}" "?f i = ?f j"
    then show "i = j" using coprime_stride_inj [OF cop, of i j s] by simp
  qed
  moreover have "?f ` {..<z} \<subseteq> {..<z}"
    using \<open>0 < z\<close> by auto
  ultimately have "?f ` {..<z} = {..<z}"
    by (simp add: endo_inj_surj)
  with assms(2) show ?thesis
    by (metis (no_types, lifting) imageE lessThan_iff)
qed

lemma trial_division_coprime:
  fixes z d m :: nat
  assumes trial: "\<And>k. 2 \<le> k \<Longrightarrow> k \<le> m \<Longrightarrow> \<not> k dvd z"
    and bound: "z < (m + 1) * (m + 1)" and "0 < d" and "d < z"
  shows "coprime d z"
proof (rule ccontr)
  assume "\<not> coprime d z"
  define g where "g = gcd d z"
  have "g \<noteq> 1" using \<open>\<not> coprime d z\<close> by (simp add: g_def coprime_iff_gcd_eq_1)
  moreover have "0 < g" using assms(3) by (simp add: g_def)
  ultimately have g2: "2 \<le> g" by linarith
  have "g dvd z" by (simp add: g_def)
  then obtain c where c: "z = g * c" by (rule dvdE)
  have "g \<le> d" using assms(3) by (simp add: g_def gcd_le1_nat)
  then have "g < z" using assms(4) by simp
  with c have c2: "2 \<le> c"
    by (metis One_nat_def less_2_cases less_irrefl mult.right_neutral mult_0_right not_le not_less_zero)
  have "g \<le> m \<or> c \<le> m"
  proof (rule ccontr)
    assume "\<not> (g \<le> m \<or> c \<le> m)"
    then have "(m + 1) * (m + 1) \<le> g * c"
      by (intro mult_le_mono) auto
    with bound c show False by simp
  qed
  with trial [of g] trial [of c] g2 c2 c show False by auto
qed

subsection \<open>Invariants of step relations\<close>

text \<open>What a component promises of its steps: in a good environment every step keeps the invariant.\<close>

locale step_invariant =
  fixes good :: "'e \<Rightarrow> bool" and step :: "'e \<Rightarrow> 's \<Rightarrow> 's \<Rightarrow> bool" and inv :: "'s \<Rightarrow> bool"
  assumes step_keeps: "good e \<Longrightarrow> step e s s' \<Longrightarrow> inv s \<Longrightarrow> inv s'"
begin

lemma steps_keep: "(step e)\<^sup>*\<^sup>* s s' \<Longrightarrow> good e \<Longrightarrow> inv s \<Longrightarrow> inv s'"
  by (induction rule: rtranclp_induct) (auto intro: step_keeps)

end

end
