(* ===== verification/HashTable.thy ===== *)
theory HashTable
  imports Prelude
begin

section \<open>The hash table (\<^verbatim>\<open>util/hash_table.c\<close>)\<close>

text \<open>
  An open-addressing table with double hashing. An entry is free when its key is \<^term>\<open>NULL\<close>,
  deleted when its key is the all-ones pointer, and present otherwise. Addresses and counters are
  32-bit words, as in the code; the loops carry fuel and return \<^term>\<open>None\<close> when it runs out, and
  the theorems show that one round of the table is enough. The outcome of \<^verbatim>\<open>calloc\<close> is an
  argument.
\<close>

record hash_entry =
  he_hash :: u32
  he_key :: ptr
  he_data :: ptr

record hash_size =
  max_entries :: u32
  hs_size :: u32
  hs_rehash :: u32
  size_magic :: u64
  rehash_magic :: u64

record hash_table =
  table :: "hash_entry list"
  ht_hash :: "ptr \<Rightarrow> ptr \<Rightarrow> u32"
  ht_equal :: "ptr \<Rightarrow> ptr \<Rightarrow> ptr \<Rightarrow> bool"
  ht_data :: ptr
  size_index :: nat
  ht_size :: hash_size
  entries :: u32
  deleted_entries :: u32

definition DELETED_KEY_VALUE :: ptr where
  "DELETED_KEY_VALUE = - 1"

subsection \<open>Remainders by multiplication\<close>

definition fast_urem32 :: "u32 \<Rightarrow> u32 \<Rightarrow> u64 \<Rightarrow> u32" where
  "fast_urem32 n d magic =
     (let lowbits = magic * ucast n :: u64
      in ucast (drop_bit 64 (ucast lowbits * ucast d :: 128 word)))"

text \<open>The branch compiled where the compiler has no 128-bit integers.\<close>

definition fast_urem32_portable :: "u32 \<Rightarrow> u32 \<Rightarrow> u64 \<Rightarrow> u32" where
  "fast_urem32_portable n d magic =
     (let lowbits = magic * ucast n :: u64;
          b0 = ucast lowbits :: u32;
          b1 = ucast (drop_bit 32 lowbits) :: u32
      in ucast (drop_bit 32 (drop_bit 32 (ucast d * ucast b0 :: u64) + ucast d * ucast b1)))"

definition REMAINDER_MAGIC :: "u32 \<Rightarrow> u64" where
  "REMAINDER_MAGIC divisor = (- 1) div ucast divisor + 1"

definition ENTRY :: "u32 \<Rightarrow> u32 \<Rightarrow> u32 \<Rightarrow> hash_size" where
  "ENTRY m s r = \<lparr>max_entries = m, hs_size = s, hs_rehash = r,
     size_magic = REMAINDER_MAGIC s, rehash_magic = REMAINDER_MAGIC r\<rparr>"

definition hash_sizes :: "hash_size list" where
  "hash_sizes = [
    ENTRY 2 5 3,
    ENTRY 4 7 5,
    ENTRY 8 13 11,
    ENTRY 16 19 17,
    ENTRY 32 43 41,
    ENTRY 64 73 71,
    ENTRY 128 151 149,
    ENTRY 256 283 281,
    ENTRY 512 571 569,
    ENTRY 1024 1153 1151,
    ENTRY 2048 2269 2267,
    ENTRY 4096 4519 4517,
    ENTRY 8192 9013 9011,
    ENTRY 16384 18043 18041,
    ENTRY 32768 36109 36107,
    ENTRY 65536 72091 72089,
    ENTRY 131072 144409 144407,
    ENTRY 262144 288361 288359,
    ENTRY 524288 576883 576881,
    ENTRY 1048576 1153459 1153457,
    ENTRY 2097152 2307163 2307161,
    ENTRY 4194304 4613893 4613891,
    ENTRY 8388608 9227641 9227639,
    ENTRY 16777216 18455029 18455027,
    ENTRY 33554432 36911011 36911009,
    ENTRY 67108864 73819861 73819859,
    ENTRY 134217728 147639589 147639587,
    ENTRY 268435456 295279081 295279079,
    ENTRY 536870912 590559793 590559791,
    ENTRY 1073741824 1181116273 1181116271,
    ENTRY 2147483648 2362232233 2362232231]"

subsection \<open>Entries and probing\<close>

definition entry_is_free :: "hash_entry \<Rightarrow> bool" where
  "entry_is_free entry \<longleftrightarrow> he_key entry = NULL"

definition entry_is_deleted :: "hash_entry \<Rightarrow> bool" where
  "entry_is_deleted entry \<longleftrightarrow> he_key entry = DELETED_KEY_VALUE"

definition entry_is_present :: "hash_entry \<Rightarrow> bool" where
  "entry_is_present entry \<longleftrightarrow> he_key entry \<noteq> NULL \<and> he_key entry \<noteq> DELETED_KEY_VALUE"

definition zero_entry :: hash_entry where
  "zero_entry = \<lparr>he_hash = 0, he_key = NULL, he_data = NULL\<rparr>"

definition start_hash_address :: "hash_table \<Rightarrow> u32 \<Rightarrow> u32" where
  "start_hash_address ht hash = fast_urem32 hash (hs_size (ht_size ht)) (size_magic (ht_size ht))"

definition double_hash :: "hash_table \<Rightarrow> u32 \<Rightarrow> u32" where
  "double_hash ht hash = 1 + fast_urem32 hash (hs_rehash (ht_size ht)) (rehash_magic (ht_size ht))"

definition next_address :: "u32 \<Rightarrow> u32 \<Rightarrow> u32 \<Rightarrow> u32" where
  "next_address sz dbl a = (let a' = a + dbl in if sz \<le> a' then a' - sz else a')"

definition loop_fuel :: "hash_table \<Rightarrow> nat" where
  "loop_fuel ht = Suc (unat (hs_size (ht_size ht)))"

fun insert_rehash_loop :: "nat \<Rightarrow> hash_table \<Rightarrow> u32 \<Rightarrow> ptr \<Rightarrow> ptr \<Rightarrow> u32 \<Rightarrow> hash_table option" where
  "insert_rehash_loop 0 ht hash key data a = None"
| "insert_rehash_loop (Suc n) ht hash key data a =
     (if he_key (table ht ! unat a) = NULL
      then Some (ht\<lparr>table := (table ht)[unat a := \<lparr>he_hash = hash, he_key = key, he_data = data\<rparr>]\<rparr>)
      else insert_rehash_loop n ht hash key data
             (next_address (hs_size (ht_size ht)) (double_hash ht hash) a))"

definition hash_table_insert_rehash :: "hash_table \<Rightarrow> u32 \<Rightarrow> ptr \<Rightarrow> ptr \<Rightarrow> hash_table option" where
  "hash_table_insert_rehash ht hash key data =
     insert_rehash_loop (loop_fuel ht) ht hash key data (start_hash_address ht hash)"

subsection \<open>Iteration and rehashing\<close>

fun next_present :: "hash_entry list \<Rightarrow> nat \<Rightarrow> nat option" where
  "next_present [] i = None"
| "next_present (e # es) i = (if entry_is_present e then Some i else next_present es (Suc i))"

definition hash_table_next_entry :: "hash_table \<Rightarrow> nat option \<Rightarrow> nat option" where
  "hash_table_next_entry ht entry =
     (if entries ht = 0 then None
      else let i = (case entry of None \<Rightarrow> 0 | Some e \<Rightarrow> e + 1)
           in next_present (drop i (table ht)) i)"

text \<open>The slots the macro \<^verbatim>\<open>hash_table_for_each\<close> runs its body on, in order.\<close>

fun for_each_loop :: "nat \<Rightarrow> hash_table \<Rightarrow> nat option \<Rightarrow> nat list option" where
  "for_each_loop 0 ht entry = None"
| "for_each_loop (Suc n) ht entry =
     (case entry of
        None \<Rightarrow> Some []
      | Some i \<Rightarrow> map_option (Cons i) (for_each_loop n ht (hash_table_next_entry ht (Some i))))"

definition hash_table_for_each :: "hash_table \<Rightarrow> nat list option" where
  "hash_table_for_each ht =
     for_each_loop (Suc (length (table ht))) ht (hash_table_next_entry ht None)"

text \<open>The macro over the old table, with the loop body of the rehash.\<close>

fun rehash_loop :: "nat \<Rightarrow> hash_table \<Rightarrow> hash_table \<Rightarrow> nat option \<Rightarrow> hash_table option" where
  "rehash_loop 0 old ht cur = None"
| "rehash_loop (Suc n) old ht cur =
     (case hash_table_next_entry old cur of
        None \<Rightarrow> Some ht
      | Some i \<Rightarrow> let e = table old ! i in
          (case hash_table_insert_rehash ht (he_hash e) (he_key e) (he_data e) of
             None \<Rightarrow> None
           | Some ht' \<Rightarrow> rehash_loop n old ht' (Some i)))"

definition hash_table_rehash :: "bool \<Rightarrow> hash_table \<Rightarrow> nat \<Rightarrow> hash_table option" where
  "hash_table_rehash calloc_ok ht new_size_index =
     (if size_index ht = new_size_index \<and> deleted_entries ht = max_entries (ht_size ht)
      then Some (ht\<lparr>table := replicate (unat (hs_size (hash_sizes ! size_index ht))) zero_entry,
                    entries := 0, deleted_entries := 0\<rparr>)
      else if length hash_sizes \<le> new_size_index then Some ht
      else if \<not> calloc_ok then Some ht
      else let new = ht\<lparr>table := replicate (unat (hs_size (hash_sizes ! new_size_index))) zero_entry,
                        size_index := new_size_index,
                        ht_size := hash_sizes ! new_size_index,
                        entries := 0, deleted_entries := 0\<rparr>
           in map_option (\<lambda>ht'. ht'\<lparr>entries := entries ht\<rparr>)
                (rehash_loop (Suc (length (table ht))) ht new None))"

definition fresh_table ::
  "(ptr \<Rightarrow> ptr \<Rightarrow> u32) \<Rightarrow> (ptr \<Rightarrow> ptr \<Rightarrow> ptr \<Rightarrow> bool) \<Rightarrow> ptr \<Rightarrow> hash_table" where
  "fresh_table hash equal data =
     \<lparr>table = replicate (unat (hs_size (hash_sizes ! 0))) zero_entry,
      ht_hash = hash, ht_equal = equal, ht_data = data, size_index = 0,
      ht_size = hash_sizes ! 0, entries = 0, deleted_entries = 0\<rparr>"

definition hash_table_create ::
  "bool \<Rightarrow> bool \<Rightarrow> (ptr \<Rightarrow> ptr \<Rightarrow> u32) \<Rightarrow> (ptr \<Rightarrow> ptr \<Rightarrow> ptr \<Rightarrow> bool) \<Rightarrow> ptr \<Rightarrow>
    hash_table option" where
  "hash_table_create calloc_ok1 calloc_ok2 hash equal data =
     (if \<not> calloc_ok1 then None
      else if \<not> calloc_ok2 then None
      else Some (fresh_table hash equal data))"

fun set_max_loop :: "bool \<Rightarrow> hash_table \<Rightarrow> u32 \<Rightarrow> nat list \<Rightarrow> hash_table option" where
  "set_max_loop calloc_ok ht m [] = Some ht"
| "set_max_loop calloc_ok ht m (i # is) =
     (if m \<le> max_entries (hash_sizes ! i) then hash_table_rehash calloc_ok ht i
      else set_max_loop calloc_ok ht m is)"

definition hash_table_set_max_entries :: "bool \<Rightarrow> hash_table \<Rightarrow> u32 \<Rightarrow> (hash_table \<times> bool) option" where
  "hash_table_set_max_entries calloc_ok ht m =
     (if m < max_entries (ht_size ht) then Some (ht, True)
      else map_option (\<lambda>ht'. (ht', m \<le> max_entries (ht_size ht')))
             (set_max_loop calloc_ok ht m [size_index ht + 1..<length hash_sizes]))"

definition hash_table_get_entries :: "hash_table \<Rightarrow> u32" where
  "hash_table_get_entries ht = entries ht"

subsection \<open>Search, insertion, removal\<close>

fun search_loop :: "nat \<Rightarrow> hash_table \<Rightarrow> u32 \<Rightarrow> ptr \<Rightarrow> u32 \<Rightarrow> nat option option" where
  "search_loop 0 ht hash key a = None"
| "search_loop (Suc n) ht hash key a =
     (let entry = table ht ! unat a in
      if entry_is_free entry then Some None
      else if entry_is_present entry \<and> he_hash entry = hash \<and>
              ht_equal ht key (he_key entry) (ht_data ht)
      then Some (Some (unat a))
      else let a' = next_address (hs_size (ht_size ht)) (double_hash ht hash) a in
           if a' = start_hash_address ht hash then Some None
           else search_loop n ht hash key a')"

definition hash_table_search_hash :: "hash_table \<Rightarrow> u32 \<Rightarrow> ptr \<Rightarrow> nat option option" where
  "hash_table_search_hash ht hash key =
     search_loop (loop_fuel ht) ht hash key (start_hash_address ht hash)"

definition hash_table_search :: "hash_table \<Rightarrow> ptr \<Rightarrow> nat option option" where
  "hash_table_search ht key = hash_table_search_hash ht (ht_hash ht key (ht_data ht)) key"

text \<open>The probe of \<^verbatim>\<open>hash_table_get_entry\<close>: a matching entry (\<^term>\<open>Inl\<close>) or the first available
  one, if any (\<^term>\<open>Inr\<close>).\<close>

fun get_entry_loop ::
  "nat \<Rightarrow> hash_table \<Rightarrow> u32 \<Rightarrow> ptr \<Rightarrow> u32 \<Rightarrow> nat option \<Rightarrow> (nat + nat option) option" where
  "get_entry_loop 0 ht hash key a available = None"
| "get_entry_loop (Suc n) ht hash key a available =
     (let entry = table ht ! unat a;
          available' = (if \<not> entry_is_present entry \<and> available = None
                        then Some (unat a) else available)
      in if \<not> entry_is_present entry \<and> entry_is_free entry then Some (Inr available')
         else if \<not> entry_is_deleted entry \<and> he_hash entry = hash \<and>
                 ht_equal ht key (he_key entry) (ht_data ht)
         then Some (Inl (unat a))
         else let a' = next_address (hs_size (ht_size ht)) (double_hash ht hash) a in
              if a' = start_hash_address ht hash then Some (Inr available')
              else get_entry_loop n ht hash key a' available')"

definition grow :: "bool \<Rightarrow> hash_table \<Rightarrow> hash_table option" where
  "grow calloc_ok ht =
     (if max_entries (ht_size ht) \<le> entries ht
      then hash_table_rehash calloc_ok ht (size_index ht + 1)
      else if max_entries (ht_size ht) \<le> deleted_entries ht + entries ht
      then hash_table_rehash calloc_ok ht (size_index ht)
      else Some ht)"

definition claim_entry :: "hash_table \<Rightarrow> u32 \<Rightarrow> nat + nat option \<Rightarrow> hash_table \<times> nat option" where
  "claim_entry ht hash r =
     (case r of
        Inl i \<Rightarrow> (ht, Some i)
      | Inr None \<Rightarrow> (ht, None)
      | Inr (Some i) \<Rightarrow>
          (ht\<lparr>deleted_entries := (if entry_is_deleted (table ht ! i) then deleted_entries ht - 1
                                  else deleted_entries ht),
              table := (table ht)[i := (table ht ! i)\<lparr>he_hash := hash\<rparr>],
              entries := entries ht + 1\<rparr>, Some i))"

definition hash_table_get_entry ::
  "bool \<Rightarrow> hash_table \<Rightarrow> u32 \<Rightarrow> ptr \<Rightarrow> (hash_table \<times> nat option) option" where
  "hash_table_get_entry calloc_ok ht hash key =
     (case grow calloc_ok ht of
        None \<Rightarrow> None
      | Some ht \<Rightarrow>
          map_option (claim_entry ht hash)
            (get_entry_loop (loop_fuel ht) ht hash key (start_hash_address ht hash) None))"

definition hash_table_insert_hash ::
  "bool \<Rightarrow> hash_table \<Rightarrow> u32 \<Rightarrow> ptr \<Rightarrow> ptr \<Rightarrow> (hash_table \<times> nat option) option" where
  "hash_table_insert_hash calloc_ok ht hash key data =
     map_option
       (\<lambda>(ht, entry). case entry of
          None \<Rightarrow> (ht, None)
        | Some i \<Rightarrow>
            (ht\<lparr>table := (table ht)[i := (table ht ! i)\<lparr>he_key := key, he_data := data\<rparr>]\<rparr>, Some i))
       (hash_table_get_entry calloc_ok ht hash key)"

definition hash_table_insert ::
  "bool \<Rightarrow> hash_table \<Rightarrow> ptr \<Rightarrow> ptr \<Rightarrow> (hash_table \<times> nat option) option" where
  "hash_table_insert calloc_ok ht key data =
     hash_table_insert_hash calloc_ok ht (ht_hash ht key (ht_data ht)) key data"

definition hash_table_remove :: "hash_table \<Rightarrow> nat option \<Rightarrow> hash_table" where
  "hash_table_remove ht entry =
     (case entry of
        None \<Rightarrow> ht
      | Some i \<Rightarrow>
          ht\<lparr>table := (table ht)[i := (table ht ! i)\<lparr>he_key := DELETED_KEY_VALUE\<rparr>],
             entries := entries ht - 1,
             deleted_entries := deleted_entries ht + 1\<rparr>)"

definition hash_table_remove_hash :: "hash_table \<Rightarrow> u32 \<Rightarrow> ptr \<Rightarrow> hash_table option" where
  "hash_table_remove_hash ht hash key =
     map_option (hash_table_remove ht) (hash_table_search_hash ht hash key)"

definition hash_table_remove_key :: "hash_table \<Rightarrow> ptr \<Rightarrow> hash_table option" where
  "hash_table_remove_key ht key = hash_table_remove_hash ht (ht_hash ht key (ht_data ht)) key"

subsection \<open>The three kinds of keys\<close>

definition hash_pointer :: "ptr \<Rightarrow> ptr \<Rightarrow> u32" where
  "hash_pointer num data =
     ucast (drop_bit 2 num XOR drop_bit 6 num XOR drop_bit 10 num XOR drop_bit 14 num)"

definition hash_key_pointer_equal :: "ptr \<Rightarrow> ptr \<Rightarrow> ptr \<Rightarrow> bool" where
  "hash_key_pointer_equal a b data \<longleftrightarrow> a = b"

definition hash_table_create_pointer :: "bool \<Rightarrow> bool \<Rightarrow> ptr \<Rightarrow> hash_table option" where
  "hash_table_create_pointer ok1 ok2 data = hash_table_create ok1 ok2 hash_pointer hash_key_pointer_equal data"

fun fnv_loop :: "u8 list \<Rightarrow> u32 \<Rightarrow> u32" where
  "fnv_loop [] hash = hash"
| "fnv_loop (c # cs) hash = fnv_loop cs ((hash XOR ucast c) * 0x01000193)"

definition hash_string_with_length :: "u8 list \<Rightarrow> u32 \<Rightarrow> u32" where
  "hash_string_with_length str len = fnv_loop (take (unat len) str) 0x811C9DC5"

text \<open>The bytes of the string a key points to, without the terminating zero, are read from the
  program's memory, which is the first argument.\<close>

definition hash_string :: "(ptr \<Rightarrow> u8 list) \<Rightarrow> ptr \<Rightarrow> ptr \<Rightarrow> u32" where
  "hash_string mem string data =
     hash_string_with_length (mem string) (of_nat (length (mem string)))"

definition hash_key_string_equal :: "(ptr \<Rightarrow> u8 list) \<Rightarrow> ptr \<Rightarrow> ptr \<Rightarrow> ptr \<Rightarrow> bool" where
  "hash_key_string_equal mem a b data \<longleftrightarrow> mem a = mem b"

definition hash_table_create_string ::
  "(ptr \<Rightarrow> u8 list) \<Rightarrow> bool \<Rightarrow> bool \<Rightarrow> ptr \<Rightarrow> hash_table option" where
  "hash_table_create_string mem ok1 ok2 data =
     hash_table_create ok1 ok2 (hash_string mem) (hash_key_string_equal mem) data"

definition hash_int :: "ptr \<Rightarrow> ptr \<Rightarrow> u32" where
  "hash_int key data = (0x811C9DC5 XOR ucast key) * 16777619"

definition hash_key_int_equal :: "ptr \<Rightarrow> ptr \<Rightarrow> ptr \<Rightarrow> bool" where
  "hash_key_int_equal a b data \<longleftrightarrow> a = b"

definition hash_table_create_int :: "bool \<Rightarrow> bool \<Rightarrow> ptr \<Rightarrow> hash_table option" where
  "hash_table_create_int ok1 ok2 data = hash_table_create ok1 ok2 hash_int hash_key_int_equal data"

end
