(* ===== verification/HashSizes.thy ===== *)
theory HashSizes
  imports HashTable
begin

section \<open>Remainders and table sizes of the hash table\<close>

text \<open>
  The remainder by multiplication computes the remainder, on both branches the preprocessor can
  choose. The rows of the size table up to a million entries have sizes with no common divisor with
  any smaller stride, so that double hashing visits every slot.
\<close>

subsection \<open>Remainders\<close>

lemma remainder_arith:
  fixes n d :: nat
  assumes d0: "0 < d" and d32: "d < 2 ^ 32" and n32: "n < 2 ^ 32"
  defines "M \<equiv> (2 ^ 64 - 1) div d + 1"
  shows "((M * n) mod 2 ^ 64) * d div 2 ^ 64 = n mod d"
proof -
  define e where "e = d - 1 - (2 ^ 64 - 1) mod d"
  define q where "q = n div d"
  define r where "r = n mod d"
  have rd: "r < d" and n_eq: "n = q * d + r" using d0 by (simp_all add: r_def q_def)
  have ed: "e < d" using d0 by (simp add: e_def)
  have Md: "M * d = 2 ^ 64 + e"
  proof -
    define A where "A = (2 ^ 64 - 1) div d"
    define B where "B = (2 ^ 64 - 1) mod d"
    have "A * d + B = 2 ^ 64 - 1" unfolding A_def B_def by (rule div_mult_mod_eq)
    moreover have "B < d" using d0 by (simp add: B_def)
    moreover have "M * d = A * d + d" by (simp add: M_def A_def)
    moreover have "e = d - 1 - B" by (simp add: e_def B_def)
    ultimately show ?thesis by simp
  qed
  have M32: "2 ^ 32 < M"
  proof (rule ccontr)
    assume "\<not> 2 ^ 32 < M"
    then have "M * d \<le> 2 ^ 32 * (2 ^ 32 - 1)"
      using d32 by (intro mult_le_mono) auto
    then show False using Md by simp
  qed
  have Mn: "M * n = q * 2 ^ 64 + (q * e + r * M)"
  proof -
    have "M * n = q * (M * d) + r * M" using n_eq by (simp add: algebra_simps)
    then show ?thesis unfolding Md by (simp add: algebra_simps)
  qed
  obtain k where k: "d = r + Suc k" using rd by (metis less_imp_Suc_add add_Suc_right)
  have small: "q * e + r * M < 2 ^ 64"
  proof -
    have "q * e \<le> q * d" using ed by simp
    then have "q * e + e \<le> q * d + d - 1" using ed by linarith
    also have "q * d + d - 1 < 2 ^ 32 + Suc k"
      using n_eq n32 k by simp
    also have "2 ^ 32 + Suc k \<le> Suc k * M"
    proof -
      have "2 ^ 32 + Suc k \<le> Suc k * (2 ^ 32 + 1)" by simp
      also have "\<dots> \<le> Suc k * M" using M32 by (intro mult_le_mono) auto
      finally show ?thesis .
    qed
    finally have "q * e + e + r * M < M * d"
      using k by (simp add: algebra_simps)
    then show ?thesis using Md by simp
  qed
  have low: "(M * n) mod 2 ^ 64 = q * e + r * M"
    using Mn small by simp
  have "(q * e + r * M) * d = r * 2 ^ 64 + e * n"
  proof -
    have "(q * e + r * M) * d = q * e * d + r * (M * d)" by (simp add: algebra_simps)
    also have "\<dots> = q * e * d + r * (2 ^ 64 + e)" by (simp only: Md)
    also have "\<dots> = r * 2 ^ 64 + e * (q * d + r)" by (simp add: algebra_simps)
    finally show ?thesis by (simp only: n_eq [symmetric])
  qed
  moreover have "e * n < 2 ^ 64"
  proof -
    have "e * n \<le> (2 ^ 32 - 1) * (2 ^ 32 - 1)"
      using ed d32 n32 by (intro mult_le_mono) auto
    then show ?thesis by simp
  qed
  ultimately show ?thesis
    using low by (simp add: r_def)
qed

lemma unat_REMAINDER_MAGIC:
  assumes "1 < d"
  shows "unat (REMAINDER_MAGIC d) = (2 ^ 64 - 1) div unat d + 1"
proof -
  have d: "1 < unat d" using assms by (simp add: word_less_nat_alt)
  have "(2 ^ 64 - 1) div unat d \<le> (2 ^ 64 - 1) div (2 :: nat)"
    using d by (intro div_le_mono2) auto
  moreover have "unat ((- 1 :: u64) div ucast d) = (2 ^ 64 - 1) div unat d"
    by (simp add: unat_div unsigned_minus_1_eq_mask mask_eq_exp_minus_1)
  ultimately show ?thesis
    by (simp add: REMAINDER_MAGIC_def unat_word_ariths)
qed

lemma unat_fast_urem32:
  "unat (fast_urem32 n d magic) =
     ((unat magic * unat n) mod 2 ^ 64) * unat d div 2 ^ 64 mod 2 ^ 32"
proof -
  let ?low = "magic * ucast n :: u64"
  have low: "unat ?low = (unat magic * unat n) mod 2 ^ 64"
    by (simp add: unat_word_ariths)
  have lt: "unat ?low * unat d < 2 ^ 128"
  proof -
    have "unat ?low * unat d \<le> (2 ^ 64 - 1) * (2 ^ 32 - 1)"
      using unat_u64_lt[of ?low] unat_u32_lt[of d] by (intro mult_le_mono) auto
    then show ?thesis by simp
  qed
  have "unat (ucast ?low * ucast d :: 128 word) = unat ?low * unat d"
  proof -
    have "unat (ucast ?low :: 128 word) = unat ?low"
      using unat_u64_lt[of ?low] by (simp add: unsigned_ucast_eq take_bit_nat_eq_self_iff)
    moreover have "unat (ucast d :: 128 word) = unat d"
      using unat_u32_lt[of d] by (simp add: unsigned_ucast_eq take_bit_nat_eq_self_iff)
    ultimately show ?thesis using lt by (simp add: unat_word_ariths)
  qed
  then show ?thesis
    by (simp add: fast_urem32_def Let_def unsigned_ucast_eq unsigned_drop_bit_eq take_bit_eq_mod
        drop_bit_eq_div unat_div low)
qed

lemma fast_urem32_mod:
  assumes "1 < d"
  shows "fast_urem32 n d (REMAINDER_MAGIC d) = n mod d"
proof -
  have d: "1 < unat d" using assms by (simp add: word_less_nat_alt)
  have "unat (fast_urem32 n d (REMAINDER_MAGIC d)) = (unat n mod unat d) mod 2 ^ 32"
    using remainder_arith [of "unat d" "unat n"] d unat_u32_lt [of d] unat_u32_lt [of n]
    by (simp only: unat_fast_urem32 unat_REMAINDER_MAGIC [OF assms])
  also have "\<dots> = unat (n mod d)"
    using unat_u32_lt [of "n mod d"] by (simp add: unat_mod)
  finally show ?thesis by (simp only: unat_arith_simps)
qed

lemma unat_portable_tail:
  fixes d b0 b1 :: u32
  shows "unat (ucast (drop_bit 32 (drop_bit 32 (ucast d * ucast b0 :: u64) + ucast d * ucast b1)) :: u32)
    = (unat d * unat b0 div 2 ^ 32 + unat d * unat b1) div 2 ^ 32 mod 2 ^ 32"
proof -
  have prod: "unat d * unat b \<le> (2 ^ 32 - 1) * (2 ^ 32 - 1)" for b :: u32
    using unat_u32_lt [of d] unat_u32_lt [of b] by (intro mult_le_mono) auto
  have "unat d * unat b0 div 2 ^ 32 \<le> 2 ^ 32 - 1" using prod [of b0] by simp
  with prod [of b0] prod [of b1] show ?thesis
    by (simp add: unsigned_ucast_eq take_bit_eq_mod drop_bit_eq_div unat_div unat_word_ariths)
qed

lemma fast_urem32_portable_eq: "fast_urem32_portable n d magic = fast_urem32 n d magic"
proof -
  let ?low = "magic * ucast n :: u64"
  define L where "L = unat ?low"
  define D where "D = unat d"
  define B0 where "B0 = L mod 2 ^ 32"
  define B1 where "B1 = L div 2 ^ 32"
  have L: "L = B1 * 2 ^ 32 + B0" and B0: "B0 < 2 ^ 32" by (simp_all add: B0_def B1_def)
  have L64: "L < 2 ^ 64" using unat_u64_lt [of ?low] by (simp add: L_def)
  then have B1: "B1 < 2 ^ 32" by (simp add: B1_def less_mult_imp_div_less)
  have D: "D < 2 ^ 32" by (simp add: D_def unat_u32_lt[simplified])
  have b0: "unat (ucast ?low :: u32) = B0"
    by (simp add: unsigned_ucast_eq take_bit_eq_mod B0_def L_def)
  have b1: "unat (ucast (drop_bit 32 ?low) :: u32) = B1"
    using B1 by (simp add: unsigned_ucast_eq unsigned_drop_bit_eq take_bit_eq_mod drop_bit_eq_div
        unat_div B1_def L_def)
  have "unat (fast_urem32_portable n d magic) = (D * B0 div 2 ^ 32 + D * B1) div 2 ^ 32 mod 2 ^ 32"
    unfolding fast_urem32_portable_def Let_def unat_portable_tail b0 b1 D_def ..
  also have "(D * B0 div 2 ^ 32 + D * B1) div 2 ^ 32 = L * D div 2 ^ 64"
  proof -
    have "L * D div 2 ^ 64 = (D * B0 + D * B1 * 2 ^ 32) div 2 ^ 32 div 2 ^ 32"
      by (simp add: L div_mult2_eq [symmetric] algebra_simps)
    also have "(D * B0 + D * B1 * 2 ^ 32) div 2 ^ 32 = D * B0 div 2 ^ 32 + D * B1"
      by simp
    finally show ?thesis by simp
  qed
  also have "L * D div 2 ^ 64 mod 2 ^ 32 = unat (fast_urem32 n d magic)"
    by (simp add: unat_fast_urem32 L_def D_def unat_word_ariths)
  finally show ?thesis by (simp only: unat_arith_simps)
qed

subsection \<open>The table sizes\<close>

text \<open>Trial division over a binary tree of odd candidates: \<open>no_divisor n z k w\<close> tries
  \<open>k, k + w, k + 2 w, \<dots>\<close>, as many as the value of the power of two \<open>n\<close>.\<close>

fun no_divisor :: "num \<Rightarrow> int \<Rightarrow> int \<Rightarrow> int \<Rightarrow> bool" where
  "no_divisor num.One z k w = (z mod k \<noteq> 0)"
| "no_divisor (num.Bit0 n) z k w = (no_divisor n z k (2 * w) \<and> no_divisor n z (k + w) (2 * w))"
| "no_divisor (num.Bit1 n) z k w = False"

lemma no_divisor_sound:
  "no_divisor n z k w \<Longrightarrow> j < nat_of_num n \<Longrightarrow> z mod (k + int j * w) \<noteq> 0"
proof (induction n z k w arbitrary: j rule: no_divisor.induct)
  case (1 z k w)
  then show ?case by simp
next
  case (2 n z k w)
  show ?case
  proof (cases "even j")
    case True
    then obtain i where "j = 2 * i" by (rule evenE)
    with 2 show ?thesis using "2.IH"(1) [of i] by (simp add: algebra_simps)
  next
    case False
    then obtain i where "j = 2 * i + 1" by (rule oddE)
    with 2 show ?thesis using "2.IH"(2) [of i] by (simp add: algebra_simps)
  qed
qed simp

lemma no_divisor_coprime:
  assumes "odd z" and "no_divisor n (int z) 3 2" and "z < (2 * nat_of_num n + 3) * (2 * nat_of_num n + 3)"
    and "0 < d" and "d < z"
  shows "coprime d z"
proof (rule trial_division_coprime [where m = "2 * nat_of_num n + 2"])
  fix k assume k: "2 \<le> k" "k \<le> 2 * nat_of_num n + 2"
  show "\<not> k dvd z"
  proof (cases "even k")
    case True
    then show ?thesis using assms(1) by auto
  next
    case False
    then obtain i where i: "k = 2 * i + 1" by (rule oddE)
    with k have lt: "i - 1 < nat_of_num n" and "1 \<le> i" by auto
    from no_divisor_sound [OF assms(2) lt]
    have "int z mod (3 + int (i - 1) * 2) \<noteq> 0" .
    moreover have "3 + int (i - 1) * 2 = int k" using i \<open>1 \<le> i\<close> by simp
    ultimately have "int z mod int k \<noteq> 0" by simp
    then have "z mod k \<noteq> 0" unfolding of_nat_mod [symmetric] by simp
    then show ?thesis by (simp add: dvd_eq_mod_eq_0)
  qed
next
  have "2 * nat_of_num n + 2 + 1 = 2 * nat_of_num n + 3" by simp
  with assms(3) show "z < (2 * nat_of_num n + 2 + 1) * (2 * nat_of_num n + 2 + 1)"
    by (simp only:)
qed (rule assms(4), rule assms(5))

text \<open>What the probing loops need of a row of the size table.\<close>

definition size_ok :: "hash_size \<Rightarrow> bool" where
  "size_ok s \<longleftrightarrow> 1 < hs_rehash s \<and> unat (hs_size s) = unat (hs_rehash s) + 2 \<and>
     unat (max_entries s) < unat (hs_size s) \<and> 0 < unat (max_entries s) \<and> unat (hs_size s) < 2 ^ 31 \<and>
     size_magic s = REMAINDER_MAGIC (hs_size s) \<and> rehash_magic s = REMAINDER_MAGIC (hs_rehash s) \<and>
     (\<forall>d. 0 < d \<and> d < unat (hs_size s) \<longrightarrow> coprime d (unat (hs_size s)))"

definition verified_sizes :: nat where
  "verified_sizes = 20"

lemma size_ok_ENTRY:
  assumes "1 < r" and "unat s = unat r + 2" and "unat m < unat s" and "0 < unat m"
    and "unat s < 2 ^ 31" and "odd (unat s)" and "no_divisor n (int (unat s)) 3 2"
    and "unat s < (2 * nat_of_num n + 3) * (2 * nat_of_num n + 3)"
  shows "size_ok (ENTRY m s r)"
  using assms(1-5) no_divisor_coprime [OF assms(6-8)]
  by (simp add: size_ok_def ENTRY_def)

lemma size_ok_rows_0:
  "size_ok (ENTRY 2 5 3)" "size_ok (ENTRY 4 7 5)" "size_ok (ENTRY 8 13 11)" "size_ok (ENTRY 16 19 17)"
  by (rule size_ok_ENTRY [where n = "num.One"]; simp)+

lemma size_ok_rows_1:
  "size_ok (ENTRY 32 43 41)"
  by (rule size_ok_ENTRY [where n = "(num.Bit0 num.One)"]; simp)+

lemma size_ok_rows_2:
  "size_ok (ENTRY 64 73 71)"
  by (rule size_ok_ENTRY [where n = "(num.Bit0 (num.Bit0 num.One))"]; simp)+

lemma size_ok_rows_3:
  "size_ok (ENTRY 128 151 149)" "size_ok (ENTRY 256 283 281)"
  by (rule size_ok_ENTRY [where n = "(num.Bit0 (num.Bit0 (num.Bit0 num.One)))"]; simp)+

lemma size_ok_rows_4:
  "size_ok (ENTRY 512 571 569)" "size_ok (ENTRY 1024 1153 1151)"
  by (rule size_ok_ENTRY [where n = "(num.Bit0 (num.Bit0 (num.Bit0 (num.Bit0 num.One))))"]; simp)+

lemma size_ok_rows_5:
  "size_ok (ENTRY 2048 2269 2267)"
  by (rule size_ok_ENTRY [where n = "(num.Bit0 (num.Bit0 (num.Bit0 (num.Bit0 (num.Bit0 num.One)))))"]; simp)+

lemma size_ok_rows_6:
  "size_ok (ENTRY 4096 4519 4517)" "size_ok (ENTRY 8192 9013 9011)"
  by (rule size_ok_ENTRY [where n = "(num.Bit0 (num.Bit0 (num.Bit0 (num.Bit0 (num.Bit0 (num.Bit0 num.One))))))"]; simp)+

lemma size_ok_rows_7:
  "size_ok (ENTRY 16384 18043 18041)" "size_ok (ENTRY 32768 36109 36107)"
  by (rule size_ok_ENTRY [where n = "(num.Bit0 (num.Bit0 (num.Bit0 (num.Bit0 (num.Bit0 (num.Bit0 (num.Bit0 num.One)))))))"]; simp)+

lemma size_ok_rows_8:
  "size_ok (ENTRY 65536 72091 72089)" "size_ok (ENTRY 131072 144409 144407)"
  by (rule size_ok_ENTRY [where n = "(num.Bit0 (num.Bit0 (num.Bit0 (num.Bit0 (num.Bit0 (num.Bit0 (num.Bit0 (num.Bit0 num.One))))))))"]; simp)+

lemma size_ok_rows_9:
  "size_ok (ENTRY 262144 288361 288359)" "size_ok (ENTRY 524288 576883 576881)"
  by (rule size_ok_ENTRY [where n = "(num.Bit0 (num.Bit0 (num.Bit0 (num.Bit0 (num.Bit0 (num.Bit0 (num.Bit0 (num.Bit0 (num.Bit0 num.One)))))))))"]; simp)+

lemma size_ok_rows_10:
  "size_ok (ENTRY 1048576 1153459 1153457)"
  by (rule size_ok_ENTRY [where n = "(num.Bit0 (num.Bit0 (num.Bit0 (num.Bit0 (num.Bit0 (num.Bit0 (num.Bit0 (num.Bit0 (num.Bit0 (num.Bit0 num.One))))))))))"]; simp)+

lemmas size_ok_rows = size_ok_rows_0 size_ok_rows_1 size_ok_rows_2 size_ok_rows_3 size_ok_rows_4 size_ok_rows_5 size_ok_rows_6 size_ok_rows_7 size_ok_rows_8 size_ok_rows_9 size_ok_rows_10

lemma length_hash_sizes: "length hash_sizes = 31"
  by (simp add: hash_sizes_def)

lemma size_ok_hash_sizes:
  assumes "i < verified_sizes"
  shows "size_ok (hash_sizes ! i)"
proof -
  have "list_all size_ok (take verified_sizes hash_sizes)"
    by (simp add: verified_sizes_def hash_sizes_def size_ok_rows)
  then have "size_ok (take verified_sizes hash_sizes ! i)"
    using assms by (auto simp only: list_all_length length_take length_hash_sizes verified_sizes_def)
  then show ?thesis using assms by simp
qed

lemma max_entries_all:
  assumes "i < 31"
  shows "unat (max_entries (hash_sizes ! i)) = 2 * 2 ^ i"
proof -
  have "map (\<lambda>s. unat (max_entries s)) hash_sizes = map (\<lambda>i. 2 * 2 ^ i) [0..<31]"
    by (simp add: hash_sizes_def ENTRY_def upt_rec)
  then have "map (\<lambda>s. unat (max_entries s)) hash_sizes ! i = map (\<lambda>i. 2 * 2 ^ i) [0..<31] ! i"
    by (rule arg_cong)
  then show ?thesis using assms by (simp add: length_hash_sizes)
qed

lemma max_entries_hash_sizes:
  "i < verified_sizes \<Longrightarrow> unat (max_entries (hash_sizes ! i)) = 2 * 2 ^ i"
  by (rule max_entries_all) (simp add: verified_sizes_def)

end
