(* ===== verification/HashProofs.thy ===== *)
theory HashProofs
  imports HashSizes
begin

section \<open>Correctness of the hash table\<close>

text \<open>
  What a search returns depends only on the set of present entries, which insertion, removal and
  rehashing change as a map update, as a deletion and not at all.
\<close>

subsection \<open>The probe sequence\<close>

abbreviation cap :: "hash_table \<Rightarrow> nat" where
  "cap ht \<equiv> unat (hs_size (ht_size ht))"

text \<open>The address the loops look at in their \<open>n\<close>-th round, from zero.\<close>

definition probe :: "hash_table \<Rightarrow> u32 \<Rightarrow> nat \<Rightarrow> nat" where
  "probe ht h n = (unat (start_hash_address ht h) + n * unat (double_hash ht h)) mod cap ht"

lemma probe_cong: "ht_size ht' = ht_size ht \<Longrightarrow> probe ht' = probe ht"
  by (simp add: fun_eq_iff probe_def start_hash_address_def double_hash_def)

lemma size_okD:
  assumes "size_ok s"
  shows "1 < hs_rehash s" "unat (hs_size s) = unat (hs_rehash s) + 2" "unat (hs_size s) < 2 ^ 31"
    "unat (max_entries s) < unat (hs_size s)" "0 < unat (max_entries s)"
    "size_magic s = REMAINDER_MAGIC (hs_size s)" "rehash_magic s = REMAINDER_MAGIC (hs_rehash s)"
    "0 < d \<Longrightarrow> d < unat (hs_size s) \<Longrightarrow> coprime d (unat (hs_size s))"
  using assms unfolding size_ok_def by blast+

lemma unat_start_hash_address:
  assumes "size_ok (ht_size ht)"
  shows "unat (start_hash_address ht h) = unat h mod cap ht"
proof -
  have "1 < hs_size (ht_size ht)"
    using size_okD(2) [OF assms] by (simp add: word_less_nat_alt)
  then show ?thesis
    by (simp add: start_hash_address_def size_okD(6) [OF assms] fast_urem32_mod unat_mod)
qed

lemma unat_double_hash:
  assumes "size_ok (ht_size ht)"
  shows "unat (double_hash ht h) = 1 + unat h mod unat (hs_rehash (ht_size ht))"
proof -
  note ok = size_okD [OF assms]
  have "1 < unat (hs_rehash (ht_size ht))" using ok(1) by (simp add: word_less_nat_alt)
  then have lt: "unat h mod unat (hs_rehash (ht_size ht)) < unat (hs_rehash (ht_size ht))" by simp
  then have "1 + unat h mod unat (hs_rehash (ht_size ht)) < 2 ^ 32" using ok(2,3) by simp
  moreover have "unat (fast_urem32 h (hs_rehash (ht_size ht)) (rehash_magic (ht_size ht)))
      = unat h mod unat (hs_rehash (ht_size ht))"
    by (simp add: ok(7) fast_urem32_mod [OF ok(1)] unat_mod)
  ultimately show ?thesis
    by (simp add: double_hash_def unat_word_ariths)
qed

lemma double_hash_bounds:
  assumes "size_ok (ht_size ht)"
  shows "0 < unat (double_hash ht h)" "unat (double_hash ht h) < cap ht"
proof -
  note ok = size_okD [OF assms]
  have "1 < unat (hs_rehash (ht_size ht))" using ok(1) by (simp add: word_less_nat_alt)
  then have "unat h mod unat (hs_rehash (ht_size ht)) < unat (hs_rehash (ht_size ht))" by simp
  then show "0 < unat (double_hash ht h)" "unat (double_hash ht h) < cap ht"
    using ok(2) by (simp_all add: unat_double_hash [OF assms])
qed

lemma probe_less: "size_ok (ht_size ht) \<Longrightarrow> probe ht h n < cap ht"
  using size_okD(2) [of "ht_size ht"] by (simp add: probe_def)

lemma probe_0: "size_ok (ht_size ht) \<Longrightarrow> unat (start_hash_address ht h) = probe ht h 0"
  by (simp add: probe_def unat_start_hash_address)

lemma probe_inj:
  assumes "size_ok (ht_size ht)" and "i < cap ht" and "j < cap ht" and "probe ht h i = probe ht h j"
  shows "i = j"
proof -
  have "coprime (unat (double_hash ht h)) (cap ht)"
    by (rule size_okD(8) [OF assms(1) double_hash_bounds [OF assms(1)]])
  from coprime_stride_inj [OF this assms(2,3) assms(4) [unfolded probe_def]] show ?thesis .
qed

lemma probe_surj:
  assumes "size_ok (ht_size ht)" and "a < cap ht"
  shows "\<exists>n<cap ht. probe ht h n = a"
proof -
  have "coprime (unat (double_hash ht h)) (cap ht)"
    by (rule size_okD(8) [OF assms(1) double_hash_bounds [OF assms(1)]])
  from coprime_stride_surj [OF this assms(2)] show ?thesis unfolding probe_def .
qed

lemma probe_round: "size_ok (ht_size ht) \<Longrightarrow> probe ht h (cap ht) = probe ht h 0"
  by (simp add: probe_def)

text \<open>One step of the loops moves to the next probe; below \<open>2 ^ 31\<close> slots the sum of two addresses
  does not wrap around.\<close>

lemma next_address_probe:
  assumes ok: "size_ok (ht_size ht)" and a: "unat a = probe ht h n"
  shows "unat (next_address (hs_size (ht_size ht)) (double_hash ht h) a) = probe ht h (Suc n)"
proof -
  let ?d = "double_hash ht h" and ?z = "hs_size (ht_size ht)"
  have lt: "unat a < cap ht" using a probe_less [OF ok] by simp
  note d = double_hash_bounds [OF ok, of h]
  have sum: "unat (a + ?d) = unat a + unat ?d"
    using lt d(2) size_okD(3) [OF ok] by (simp add: unat_word_ariths)
  have "unat (next_address ?z ?d a) = (unat a + unat ?d) mod cap ht"
    using mod_add_wrap [OF lt d(2)] sum
    by (auto simp: next_address_def Let_def word_le_nat_alt unat_sub)
  also have "\<dots> = probe ht h (Suc n)"
    by (simp add: a probe_def mod_simps algebra_simps)
  finally show ?thesis .
qed

lemma next_address_start:
  assumes ok: "size_ok (ht_size ht)" and a: "unat a = probe ht h n" and n: "n < cap ht"
  shows "next_address (hs_size (ht_size ht)) (double_hash ht h) a = start_hash_address ht h
    \<longleftrightarrow> Suc n = cap ht"
proof -
  have "next_address (hs_size (ht_size ht)) (double_hash ht h) a = start_hash_address ht h
    \<longleftrightarrow> probe ht h (Suc n) = probe ht h 0"
    by (simp only: word_unat_eq_iff next_address_probe [OF ok a] probe_0 [OF ok])
  also have "\<dots> \<longleftrightarrow> Suc n = cap ht"
    using probe_inj [OF ok, of "Suc n" 0 h] probe_round [OF ok, of h] n by (cases "Suc n = cap ht") auto
  finally show ?thesis .
qed

subsection \<open>The table as a set of entries\<close>

abbreviation slot_free :: "hash_table \<Rightarrow> nat \<Rightarrow> bool" where
  "slot_free ht i \<equiv> entry_is_free (table ht ! i)"

abbreviation slot_present :: "hash_table \<Rightarrow> nat \<Rightarrow> bool" where
  "slot_present ht i \<equiv> entry_is_present (table ht ! i)"

text \<open>Slot \<open>i\<close> is found by probing for the hash \<open>h\<close>: no free slot comes before it.\<close>

definition reaches :: "hash_table \<Rightarrow> u32 \<Rightarrow> nat \<Rightarrow> bool" where
  "reaches ht h i \<longleftrightarrow> (\<exists>m<cap ht. probe ht h m = i \<and> (\<forall>k<m. \<not> slot_free ht (probe ht h k)))"

definition contents :: "hash_table \<Rightarrow> hash_entry set" where
  "contents ht = {e \<in> set (table ht). entry_is_present e}"

lemmas entry_defs = entry_is_free_def entry_is_deleted_def entry_is_present_def
  DELETED_KEY_VALUE_def zero_entry_def

lemma entry_kinds:
  "entry_is_present e \<longleftrightarrow> \<not> entry_is_free e \<and> \<not> entry_is_deleted e"
  by (simp add: entry_defs)

text \<open>The outcome of a search, from the \<open>n\<close>-th probe on.\<close>

definition slot_match :: "hash_table \<Rightarrow> u32 \<Rightarrow> ptr \<Rightarrow> nat \<Rightarrow> bool" where
  "slot_match ht h k i \<longleftrightarrow> slot_present ht i \<and> he_hash (table ht ! i) = h \<and>
     ht_equal ht k (he_key (table ht ! i)) (ht_data ht)"

definition misses :: "hash_table \<Rightarrow> u32 \<Rightarrow> ptr \<Rightarrow> nat \<Rightarrow> bool" where
  "misses ht h k n \<longleftrightarrow> (\<forall>m<cap ht. n \<le> m \<longrightarrow> slot_match ht h k (probe ht h m) \<longrightarrow>
        (\<exists>j. n \<le> j \<and> j < m \<and> slot_free ht (probe ht h j)))"

lemma misses_step:
  assumes "misses ht h k (Suc n)" and "\<not> slot_match ht h k (probe ht h n)"
  shows "misses ht h k n"
  unfolding misses_def
proof (intro allI impI)
  fix m assume m: "m < cap ht" "n \<le> m" "slot_match ht h k (probe ht h m)"
  with assms(2) have "Suc n \<le> m" by (metis Suc_leI le_neq_implies_less)
  with assms(1) m obtain j where "Suc n \<le> j" "j < m" "slot_free ht (probe ht h j)"
    unfolding misses_def by blast
  then show "\<exists>j. n \<le> j \<and> j < m \<and> slot_free ht (probe ht h j)" by (blast dest: Suc_leD)
qed

lemma misses_stop:
  assumes stop: "slot_free ht (probe ht h n) \<or> Suc n = cap ht"
    and "\<not> slot_match ht h k (probe ht h n)"
  shows "misses ht h k n"
  unfolding misses_def
proof (intro allI impI)
  fix m assume m: "m < cap ht" "n \<le> m" "slot_match ht h k (probe ht h m)"
  with assms(2) have "n < m" by (metis le_neq_implies_less)
  with stop m(1) show "\<exists>j. n \<le> j \<and> j < m \<and> slot_free ht (probe ht h j)" by auto
qed

definition search_result :: "hash_table \<Rightarrow> u32 \<Rightarrow> ptr \<Rightarrow> nat \<Rightarrow> nat option \<Rightarrow> bool" where
  "search_result ht h k n r \<longleftrightarrow> (case r of
      Some i \<Rightarrow> \<exists>m<cap ht. n \<le> m \<and> i = probe ht h m \<and> slot_match ht h k i
    | None \<Rightarrow> misses ht h k n)"

lemma search_loop_result:
  assumes ok: "size_ok (ht_size ht)"
  shows "unat a = probe ht h n \<Longrightarrow> n < cap ht \<Longrightarrow> cap ht \<le> n + fuel \<Longrightarrow>
    \<exists>r. search_loop fuel ht h k a = Some r \<and> search_result ht h k n r"
proof (induction fuel arbitrary: n a)
  case 0
  then show ?case by simp
next
  case (Suc fuel)
  let ?a = "next_address (hs_size (ht_size ht)) (double_hash ht h) a"
  let ?i = "probe ht h n"
  note step = next_address_probe [OF ok Suc.prems(1)] next_address_start [OF ok Suc.prems(1,2)]
  consider (free) "slot_free ht ?i" | (hit) "\<not> slot_free ht ?i" "slot_match ht h k ?i"
    | (last) "\<not> slot_free ht ?i" "\<not> slot_match ht h k ?i" "Suc n = cap ht"
    | (go) "\<not> slot_free ht ?i" "\<not> slot_match ht h k ?i" "Suc n < cap ht"
    using Suc.prems(2) by linarith
  then show ?case
  proof cases
    case free
    then have "\<not> slot_match ht h k ?i" by (simp add: slot_match_def entry_kinds)
    then have "search_result ht h k n None"
      using free misses_stop by (simp add: search_result_def)
    then show ?thesis using free Suc.prems(1) by simp
  next
    case hit
    then have "search_result ht h k n (Some ?i)"
      using Suc.prems(2) by (auto simp: search_result_def)
    then show ?thesis using hit Suc.prems(1) by (simp add: slot_match_def)
  next
    case last
    then have "search_result ht h k n None"
      using misses_stop by (simp add: search_result_def)
    then show ?thesis using last Suc.prems(1) step by (auto simp: slot_match_def Let_def)
  next
    case go
    then obtain r where r: "search_loop fuel ht h k ?a = Some r" "search_result ht h k (Suc n) r"
      using Suc.IH [OF step(1)] Suc.prems(3) by auto
    have "search_result ht h k n r"
      using r(2) misses_step [OF _ go(2)] unfolding search_result_def
      by (cases r) (auto dest: Suc_leD)
    moreover have "search_loop (Suc fuel) ht h k a = search_loop fuel ht h k ?a"
      using go Suc.prems(1) step by (auto simp: slot_match_def Let_def)
    ultimately show ?thesis using r(1) by simp
  qed
qed

lemma hash_table_search_hash_result:
  assumes ok: "size_ok (ht_size ht)"
  shows "\<exists>r. hash_table_search_hash ht h k = Some r \<and> search_result ht h k 0 r"
  unfolding hash_table_search_hash_def
  by (rule search_loop_result [OF ok probe_0 [OF ok]])
     (use size_okD(2) [OF ok] in \<open>simp_all add: loop_fuel_def\<close>)

text \<open>The probe for an insertion: a matching slot, or the first slot that is not present on a path
  without earlier free slots.\<close>

definition get_entry_result ::
  "hash_table \<Rightarrow> u32 \<Rightarrow> ptr \<Rightarrow> nat \<Rightarrow> nat option \<Rightarrow> nat + nat option \<Rightarrow> bool" where
  "get_entry_result ht h k n avail r \<longleftrightarrow> (case r of
      Inl i \<Rightarrow> \<exists>m<cap ht. n \<le> m \<and> i = probe ht h m \<and> slot_match ht h k i
    | Inr av \<Rightarrow>
        misses ht h k n \<and>
        (avail \<noteq> None \<longrightarrow> av = avail) \<and>
        (avail = None \<longrightarrow> (case av of
            None \<Rightarrow> \<forall>m<cap ht. n \<le> m \<longrightarrow> slot_present ht (probe ht h m)
          | Some i \<Rightarrow> \<exists>m<cap ht. n \<le> m \<and> i = probe ht h m \<and> \<not> slot_present ht i \<and>
              (\<forall>j. n \<le> j \<and> j < m \<longrightarrow> \<not> slot_free ht (probe ht h j)))))"

lemma get_entry_result_step:
  assumes r: "get_entry_result ht h k (Suc n) avail' r"
    and n: "n < cap ht" and nfree: "\<not> slot_free ht (probe ht h n)"
    and nmatch: "\<not> slot_match ht h k (probe ht h n)"
    and av: "avail' = (if \<not> slot_present ht (probe ht h n) \<and> avail = None
                       then Some (probe ht h n) else avail)"
  shows "get_entry_result ht h k n avail r"
proof (cases r)
  case (Inl i)
  with r show ?thesis by (auto simp: get_entry_result_def dest: Suc_leD)
next
  case (Inr v)
  have miss: "misses ht h k n"
    using r Inr misses_step [OF _ nmatch] by (simp add: get_entry_result_def)
  show ?thesis
  proof (cases "\<not> slot_present ht (probe ht h n) \<and> avail = None")
    case True
    then have "v = Some (probe ht h n)" using r Inr av by (simp add: get_entry_result_def)
    then show ?thesis using Inr miss True n by (auto simp: get_entry_result_def)
  next
    case False
    then have [simp]: "avail' = avail" using av by auto
    show ?thesis
    proof (cases avail)
      case None
      then have pres: "slot_present ht (probe ht h n)" using False by simp
      have "case v of None \<Rightarrow> \<forall>m<cap ht. n \<le> m \<longrightarrow> slot_present ht (probe ht h m)
        | Some i \<Rightarrow> \<exists>m<cap ht. n \<le> m \<and> i = probe ht h m \<and> \<not> slot_present ht i \<and>
              (\<forall>j. n \<le> j \<and> j < m \<longrightarrow> \<not> slot_free ht (probe ht h j))"
      proof (cases v)
        case None
        have "slot_present ht (probe ht h m)" if "m < cap ht" "n \<le> m" for m
          using that r Inr None \<open>avail = None\<close> pres
          by (cases "m = n") (auto simp: get_entry_result_def Suc_le_eq)
        then show ?thesis using None by simp
      next
        case (Some i)
        then obtain m where m: "m < cap ht" "Suc n \<le> m" "i = probe ht h m" "\<not> slot_present ht i"
            "\<forall>j. Suc n \<le> j \<and> j < m \<longrightarrow> \<not> slot_free ht (probe ht h j)"
          using r Inr \<open>avail = None\<close> by (auto simp: get_entry_result_def)
        have "\<not> slot_free ht (probe ht h j)" if "n \<le> j" "j < m" for j
          using that m(5) nfree by (cases "j = n") (auto simp: Suc_le_eq)
        then show ?thesis using Some m(1-4) by (auto dest: Suc_leD)
      qed
      then show ?thesis using Inr miss None by (simp add: get_entry_result_def)
    next
      case (Some b)
      then show ?thesis using r Inr miss by (simp add: get_entry_result_def)
    qed
  qed
qed

lemma get_entry_result_stop:
  assumes n: "n < cap ht" and stop: "slot_free ht (probe ht h n) \<or> Suc n = cap ht"
    and nmatch: "\<not> slot_match ht h k (probe ht h n)"
  shows "get_entry_result ht h k n avail
    (Inr (if \<not> slot_present ht (probe ht h n) \<and> avail = None then Some (probe ht h n) else avail))"
proof -
  have last: "m = n" if "m < cap ht" "n \<le> m" "\<not> slot_free ht (probe ht h n)" for m
    using that stop by auto
  have miss: "misses ht h k n" by (rule misses_stop [OF stop nmatch])
  show ?thesis
  proof (cases "slot_present ht (probe ht h n)")
    case True
    then have "\<not> slot_free ht (probe ht h n)" by (simp add: entry_kinds)
    with last True have "\<forall>m<cap ht. n \<le> m \<longrightarrow> slot_present ht (probe ht h m)" by blast
    with True miss show ?thesis by (simp add: get_entry_result_def split: option.split)
  next
    case False
    with miss n show ?thesis by (auto simp: get_entry_result_def)
  qed
qed

lemma get_entry_loop_result:
  assumes ok: "size_ok (ht_size ht)"
  shows "unat a = probe ht h n \<Longrightarrow> n < cap ht \<Longrightarrow> cap ht \<le> n + fuel \<Longrightarrow>
    \<exists>r. get_entry_loop fuel ht h k a avail = Some r \<and> get_entry_result ht h k n avail r"
proof (induction fuel arbitrary: n a avail)
  case 0
  then show ?case by simp
next
  case (Suc fuel)
  let ?a = "next_address (hs_size (ht_size ht)) (double_hash ht h) a"
  let ?i = "probe ht h n"
  let ?av = "if \<not> slot_present ht ?i \<and> avail = None then Some ?i else avail"
  note step = next_address_probe [OF ok Suc.prems(1)] next_address_start [OF ok Suc.prems(1,2)]
  consider (stop) "\<not> slot_match ht h k ?i" "slot_free ht ?i \<or> Suc n = cap ht"
    | (hit) "slot_match ht h k ?i"
    | (go) "\<not> slot_free ht ?i" "\<not> slot_match ht h k ?i" "Suc n < cap ht"
    using Suc.prems(2) by linarith
  then show ?case
  proof cases
    case stop
    then have "get_entry_loop (Suc fuel) ht h k a avail = Some (Inr ?av)"
      using Suc.prems(1) step by (auto simp: slot_match_def Let_def entry_kinds)
    then show ?thesis using get_entry_result_stop [OF Suc.prems(2) stop(2,1)] by blast
  next
    case hit
    then have "get_entry_loop (Suc fuel) ht h k a avail = Some (Inl ?i)"
      using Suc.prems(1) by (auto simp: slot_match_def Let_def entry_kinds)
    moreover have "get_entry_result ht h k n avail (Inl ?i)"
      using hit Suc.prems(2) by (auto simp: get_entry_result_def)
    ultimately show ?thesis by blast
  next
    case go
    then obtain r where r: "get_entry_loop fuel ht h k ?a ?av = Some r"
        "get_entry_result ht h k (Suc n) ?av r"
      using Suc.IH [OF step(1), of ?av] Suc.prems(3) by auto
    have "get_entry_loop (Suc fuel) ht h k a avail = Some r"
      using go Suc.prems(1) step r(1) by (auto simp: slot_match_def Let_def entry_kinds)
    then show ?thesis
      using get_entry_result_step [OF r(2) Suc.prems(2) go(1,2) refl] by blast
  qed
qed

lemma insert_rehash_loop_result:
  assumes ok: "size_ok (ht_size ht)"
  shows "unat a = probe ht h n \<Longrightarrow> n \<le> m \<Longrightarrow> m < cap ht \<Longrightarrow> cap ht \<le> n + fuel \<Longrightarrow>
    slot_free ht (probe ht h m) \<Longrightarrow> \<forall>j. n \<le> j \<and> j < m \<longrightarrow> \<not> slot_free ht (probe ht h j) \<Longrightarrow>
    insert_rehash_loop fuel ht h k d a =
      Some (ht\<lparr>table := (table ht)[probe ht h m := \<lparr>he_hash = h, he_key = k, he_data = d\<rparr>]\<rparr>)"
proof (induction fuel arbitrary: n a)
  case 0
  then show ?case by simp
next
  case (Suc fuel)
  show ?case
  proof (cases "n = m")
    case True
    with Suc.prems show ?thesis by (simp add: entry_is_free_def)
  next
    case False
    then have "\<not> slot_free ht (probe ht h n)" using Suc.prems by simp
    moreover have "insert_rehash_loop fuel ht h k d
        (next_address (hs_size (ht_size ht)) (double_hash ht h) a) =
      Some (ht\<lparr>table := (table ht)[probe ht h m := \<lparr>he_hash = h, he_key = k, he_data = d\<rparr>]\<rparr>)"
      using Suc.IH [OF next_address_probe [OF ok Suc.prems(1)]] Suc.prems False
      by (simp add: Suc_le_eq)
    ultimately show ?thesis using Suc.prems(1) by (simp add: entry_is_free_def)
  qed
qed

lemma first_free_probe:
  assumes ok: "size_ok (ht_size ht)" and "i < cap ht" and "slot_free ht i"
  obtains m where "m < cap ht" "slot_free ht (probe ht h m)"
    "\<forall>j<m. \<not> slot_free ht (probe ht h j)"
proof -
  obtain n where n: "n < cap ht" "probe ht h n = i" using probe_surj [OF ok assms(2)] by blast
  define m where "m = (LEAST m. slot_free ht (probe ht h m))"
  have "slot_free ht (probe ht h m)" using assms(3) n(2) unfolding m_def by (intro LeastI) auto
  moreover have "m \<le> n" using assms(3) n(2) unfolding m_def by (intro Least_le) auto
  moreover have "\<forall>j<m. \<not> slot_free ht (probe ht h j)"
    unfolding m_def by (blast dest: not_less_Least)
  ultimately show ?thesis using that n(1) by (meson le_less_trans)
qed

subsection \<open>The invariant\<close>

text \<open>The contract between a table and the functions given to \<^verbatim>\<open>hash_table_create\<close>.\<close>

locale hash_keys =
  fixes hash :: "ptr \<Rightarrow> ptr \<Rightarrow> u32" and equal :: "ptr \<Rightarrow> ptr \<Rightarrow> ptr \<Rightarrow> bool" and data :: ptr
  assumes equal_refl: "equal k k data"
    and equal_sym: "equal a b data \<Longrightarrow> equal b a data"
    and equal_trans: "equal a b data \<Longrightarrow> equal b c data \<Longrightarrow> equal a c data"
    and equal_hash: "equal a b data \<Longrightarrow> hash a data = hash b data"

definition table_wf :: "hash_table \<Rightarrow> bool" where
  "table_wf ht \<longleftrightarrow> size_index ht < verified_sizes \<and> ht_size ht = hash_sizes ! size_index ht \<and>
     length (table ht) = cap ht \<and>
     (\<forall>i<cap ht. slot_present ht i \<longrightarrow>
        he_hash (table ht ! i) = ht_hash ht (he_key (table ht ! i)) (ht_data ht) \<and>
        reaches ht (he_hash (table ht ! i)) i) \<and>
     (\<forall>i<cap ht. \<forall>j<cap ht. slot_present ht i \<longrightarrow> slot_present ht j \<longrightarrow>
        ht_equal ht (he_key (table ht ! i)) (he_key (table ht ! j)) (ht_data ht) \<longrightarrow> i = j)"

definition present_slots :: "hash_table \<Rightarrow> nat set" where
  "present_slots ht = {i. i < length (table ht) \<and> slot_present ht i}"

definition deleted_slots :: "hash_table \<Rightarrow> nat set" where
  "deleted_slots ht = {i. i < length (table ht) \<and> entry_is_deleted (table ht ! i)}"

definition table_counts :: "hash_table \<Rightarrow> bool" where
  "table_counts ht \<longleftrightarrow> unat (entries ht) = card (present_slots ht) \<and>
     unat (deleted_entries ht) = card (deleted_slots ht) \<and>
     unat (entries ht) + unat (deleted_entries ht) \<le> unat (max_entries (ht_size ht))"

definition ht_inv :: "hash_table \<Rightarrow> bool" where
  "ht_inv ht \<longleftrightarrow> table_wf ht \<and> table_counts ht"

abbreviation keys_of :: "hash_table \<Rightarrow> bool" where
  "keys_of ht \<equiv> hash_keys (ht_hash ht) (ht_equal ht) (ht_data ht)"

text \<open>The value stored for a key: what a search followed by reading the entry gives.\<close>

definition ht_lookup :: "hash_table \<Rightarrow> ptr \<Rightarrow> ptr option" where
  "ht_lookup ht k = (case hash_table_search ht k of
      Some (Some i) \<Rightarrow> Some (he_data (table ht ! i)) | _ \<Rightarrow> None)"

lemma table_wfD:
  assumes "table_wf ht"
  shows "size_ok (ht_size ht)" "length (table ht) = cap ht" "size_index ht < verified_sizes"
    "ht_size ht = hash_sizes ! size_index ht"
    "i < cap ht \<Longrightarrow> slot_present ht i \<Longrightarrow>
       he_hash (table ht ! i) = ht_hash ht (he_key (table ht ! i)) (ht_data ht)"
    "i < cap ht \<Longrightarrow> slot_present ht i \<Longrightarrow> reaches ht (he_hash (table ht ! i)) i"
    "i < cap ht \<Longrightarrow> j < cap ht \<Longrightarrow> slot_present ht i \<Longrightarrow> slot_present ht j \<Longrightarrow>
       ht_equal ht (he_key (table ht ! i)) (he_key (table ht ! j)) (ht_data ht) \<Longrightarrow> i = j"
  using assms size_ok_hash_sizes [of "size_index ht"] unfolding table_wf_def by (auto simp: )

lemma reaches_mono:
  assumes "ht_size ht' = ht_size ht" and "\<And>j. j < cap ht \<Longrightarrow> slot_free ht' j \<Longrightarrow> slot_free ht j"
    and "size_ok (ht_size ht)" and "reaches ht h i"
  shows "reaches ht' h i"
  using assms probe_less [OF assms(3)] unfolding reaches_def probe_cong [OF assms(1)] assms(1)
  by blast

lemma search_present:
  assumes wf: "table_wf ht" and keys: "keys_of ht"
  shows "\<exists>r. hash_table_search ht k = Some r \<and>
    (\<forall>i. r = Some i \<longleftrightarrow> i < cap ht \<and> slot_present ht i \<and>
       ht_equal ht k (he_key (table ht ! i)) (ht_data ht))"
proof -
  let ?h = "ht_hash ht k (ht_data ht)"
  note ok = table_wfD(1) [OF wf]
  obtain r where r: "hash_table_search ht k = Some r" "search_result ht ?h k 0 r"
    using hash_table_search_hash_result [OF ok] unfolding hash_table_search_def by blast
  have sound: "i < cap ht \<and> slot_match ht ?h k i" if "r = Some i" for i
    using r(2) that probe_less [OF ok] by (auto simp: search_result_def)
  have complete: "r = Some i"
    if i: "i < cap ht" "slot_present ht i" "ht_equal ht k (he_key (table ht ! i)) (ht_data ht)" for i
  proof -
    have h: "he_hash (table ht ! i) = ?h"
      using table_wfD(5) [OF wf i(1,2)] hash_keys.equal_hash [OF keys i(3)] by simp
    then have match: "slot_match ht ?h k i" using i by (simp add: slot_match_def)
    obtain m where m: "m < cap ht" "probe ht ?h m = i" "\<forall>j<m. \<not> slot_free ht (probe ht ?h j)"
      using table_wfD(6) [OF wf i(1,2)] h unfolding reaches_def by auto
    have "r \<noteq> None"
      using r(2) m match by (cases r) (auto simp: search_result_def misses_def)
    then obtain i' where i': "r = Some i'" by blast
    with sound have s: "i' < cap ht" "slot_match ht ?h k i'" by auto
    have "ht_equal ht (he_key (table ht ! i')) (he_key (table ht ! i)) (ht_data ht)"
      using s(2) i(3) hash_keys.equal_sym [OF keys] hash_keys.equal_trans [OF keys]
      unfolding slot_match_def by blast
    then have "i' = i" using table_wfD(7) [OF wf s(1) i(1)] s(2) i(2) by (simp add: slot_match_def)
    with i' show ?thesis by simp
  qed
  have "r = Some i \<longleftrightarrow> i < cap ht \<and> slot_present ht i \<and>
       ht_equal ht k (he_key (table ht ! i)) (ht_data ht)" for i
    using sound [of i] complete [of i] unfolding slot_match_def by blast
  with r(1) show ?thesis by blast
qed

lemma search_Some:
  assumes "table_wf ht" and "keys_of ht"
  shows "hash_table_search ht k = Some (Some i) \<longleftrightarrow> i < cap ht \<and> slot_present ht i \<and>
       ht_equal ht k (he_key (table ht ! i)) (ht_data ht)"
proof -
  obtain r where "hash_table_search ht k = Some r"
    and r: "\<forall>i. r = Some i \<longleftrightarrow> i < cap ht \<and> slot_present ht i \<and>
       ht_equal ht k (he_key (table ht ! i)) (ht_data ht)"
    using search_present [OF assms, of k] by blast
  then show ?thesis by simp
qed

lemma search_total:
  assumes "table_wf ht"
  shows "hash_table_search ht k \<noteq> None"
  using hash_table_search_hash_result [OF table_wfD(1) [OF assms]]
  by (auto simp: hash_table_search_def)

lemma contents_iff:
  "table_wf ht \<Longrightarrow> e \<in> contents ht \<longleftrightarrow> (\<exists>i<cap ht. table ht ! i = e \<and> slot_present ht i)"
  using table_wfD(2) by (auto simp: contents_def in_set_conv_nth)

text \<open>A look-up depends on the set of present entries only.\<close>

lemma lookup_contents:
  assumes "table_wf ht" and "keys_of ht"
  shows "ht_lookup ht k = Some d \<longleftrightarrow>
    (\<exists>e\<in>contents ht. ht_equal ht k (he_key e) (ht_data ht) \<and> he_data e = d)"
proof -
  obtain r where r: "hash_table_search ht k = Some r"
    using search_total [OF assms(1)] by blast
  have "ht_lookup ht k = Some d \<longleftrightarrow>
      (\<exists>i. hash_table_search ht k = Some (Some i) \<and> he_data (table ht ! i) = d)"
    using r by (auto simp: ht_lookup_def split: option.splits)
  then show ?thesis
    unfolding search_Some [OF assms] Bex_def contents_iff [OF assms(1)] by blast
qed

lemma lookup_eqI:
  assumes "table_wf ht" "keys_of ht" "table_wf ht'"
    and "ht_hash ht' = ht_hash ht" "ht_equal ht' = ht_equal ht" "ht_data ht' = ht_data ht"
    and "contents ht' = contents ht"
  shows "ht_lookup ht' = ht_lookup ht"
proof
  fix k
  have "keys_of ht'" using assms(2,4-6) by simp
  then have "\<And>d. ht_lookup ht' k = Some d \<longleftrightarrow> ht_lookup ht k = Some d"
    using assms by (simp add: lookup_contents)
  then show "ht_lookup ht' k = ht_lookup ht k"
    by (cases "ht_lookup ht k"; cases "ht_lookup ht' k") auto
qed

subsection \<open>Storing an entry in a slot\<close>

abbreviation put :: "hash_table \<Rightarrow> nat \<Rightarrow> hash_entry \<Rightarrow> hash_table" where
  "put ht i e \<equiv> ht\<lparr>table := (table ht)[i := e]\<rparr>"

lemma table_wf_put:
  assumes wf: "table_wf ht" and i: "i < cap ht" and e: "\<not> entry_is_free e"
    and pres: "entry_is_present e \<Longrightarrow> he_hash e = ht_hash ht (he_key e) (ht_data ht) \<and>
      reaches ht (he_hash e) i"
    and fresh: "\<And>j. entry_is_present e \<Longrightarrow> j < cap ht \<Longrightarrow> j \<noteq> i \<Longrightarrow> slot_present ht j \<Longrightarrow>
      \<not> ht_equal ht (he_key e) (he_key (table ht ! j)) (ht_data ht) \<and>
      \<not> ht_equal ht (he_key (table ht ! j)) (he_key e) (ht_data ht)"
  shows "table_wf (put ht i e)"
proof -
  note wfD = table_wfD [OF wf]
  define P where "P = put ht i e"
  have [simp]: "ht_size P = ht_size ht" "ht_hash P = ht_hash ht" "ht_equal P = ht_equal ht"
      "ht_data P = ht_data ht" "size_index P = size_index ht" "length (table P) = length (table ht)"
    by (simp_all add: P_def)
  have nth: "table P ! j = (if j = i then e else table ht ! j)" if "j < cap ht" for j
    using that i wfD(2) by (simp add: P_def nth_list_update)
  have mono: "reaches ht h j \<Longrightarrow> reaches P h j" for h j
    by (rule reaches_mono) (use nth e wfD(1) in \<open>auto split: if_splits\<close>)
  have "he_hash (table P ! j) = ht_hash ht (he_key (table P ! j)) (ht_data ht)"
    "reaches P (he_hash (table P ! j)) j"
    if "j < cap ht" "slot_present P j" for j
    using that nth [OF that(1)] pres wfD(5,6) [of j] mono by (cases "j = i"; auto)+
  moreover have "j = j'"
    if "j < cap ht" "j' < cap ht" "slot_present P j" "slot_present P j'"
      "ht_equal ht (he_key (table P ! j)) (he_key (table P ! j')) (ht_data ht)"
    for j j'
    using that nth [OF that(1)] nth [OF that(2)] fresh wfD(7) [of j j']
    by (cases "j = i"; cases "j' = i") auto
  moreover have "size_index P < verified_sizes" "ht_size P = hash_sizes ! size_index P"
      "length (table P) = cap P"
    using wfD(2-4) by simp_all
  ultimately have "table_wf P" unfolding table_wf_def by auto
  then show ?thesis by (simp add: P_def)
qed

lemma contents_put_new:
  assumes "table_wf ht" and "i < cap ht" and "\<not> slot_present ht i" and "entry_is_present e"
  shows "contents (put ht i e) = insert e (contents ht)"
proof -
  have len: "length (table ht) = cap ht" by (rule table_wfD(2) [OF assms(1)])
  have "x \<in> contents (put ht i e) \<longleftrightarrow> x = e \<or> x \<in> contents ht" for x
  proof -
    have "x \<in> contents (put ht i e) \<longleftrightarrow>
        (\<exists>j<cap ht. (if j = i then e else table ht ! j) = x \<and> entry_is_present x)"
      using len assms(2) by (auto simp: contents_def in_set_conv_nth nth_list_update)
    also have "\<dots> \<longleftrightarrow> x = e \<or> (\<exists>j<cap ht. table ht ! j = x \<and> entry_is_present x)"
      using assms(2-4) by (metis (full_types))
    also have "\<dots> \<longleftrightarrow> x = e \<or> x \<in> contents ht"
      using len by (auto simp: contents_def in_set_conv_nth)
    finally show ?thesis .
  qed
  then show ?thesis by blast
qed

lemma present_slots_put:
  assumes "i < length (table ht)"
  shows "present_slots (put ht i e) =
    (if entry_is_present e then insert i (present_slots ht) else present_slots ht - {i})"
  using assms by (auto simp: present_slots_def nth_list_update)

lemma deleted_slots_put:
  assumes "i < length (table ht)"
  shows "deleted_slots (put ht i e) =
    (if entry_is_deleted e then insert i (deleted_slots ht) else deleted_slots ht - {i})"
  using assms by (auto simp: deleted_slots_def nth_list_update)

lemma finite_slots [simp]: "finite (present_slots ht)" "finite (deleted_slots ht)"
  by (simp_all add: present_slots_def deleted_slots_def)

subsection \<open>Insertion into a table with room\<close>

definition has_room :: "hash_table \<Rightarrow> bool" where
  "has_room ht \<longleftrightarrow> unat (entries ht) + unat (deleted_entries ht) < unat (max_entries (ht_size ht))"

lemma free_slot_exists:
  assumes wf: "table_wf ht" and "card (present_slots ht) + card (deleted_slots ht) < cap ht"
  obtains i where "i < cap ht" "slot_free ht i"
proof -
  have "card (present_slots ht \<union> deleted_slots ht) < card {..<cap ht}"
    using assms(2) card_Un_le [of "present_slots ht" "deleted_slots ht"] by simp
  then have "\<not> {..<cap ht} \<subseteq> present_slots ht \<union> deleted_slots ht"
    by (meson card_mono finite_UnI finite_slots not_le)
  then obtain i where "i < cap ht" "i \<notin> present_slots ht" "i \<notin> deleted_slots ht" by blast
  then show ?thesis
    using that table_wfD(2) [OF wf] by (auto simp: present_slots_def deleted_slots_def entry_kinds)
qed

text \<open>Where \<^verbatim>\<open>hash_table_get_entry\<close> stops, in a well-formed table with a free slot.\<close>

lemma get_entry_slot:
  assumes wf: "table_wf ht" and keys: "keys_of ht" and free: "i0 < cap ht" "slot_free ht i0"
    and h_def: "h = ht_hash ht k (ht_data ht)"
  obtains (found) i where "get_entry_loop (loop_fuel ht) ht h k (start_hash_address ht h) None = Some (Inl i)"
      "i < cap ht" "slot_present ht i" "ht_equal ht k (he_key (table ht ! i)) (ht_data ht)"
      "he_hash (table ht ! i) = h"
  | (new) i where "get_entry_loop (loop_fuel ht) ht h k (start_hash_address ht h) None = Some (Inr (Some i))"
      "i < cap ht" "\<not> slot_present ht i" "reaches ht h i"
      "\<And>j. j < cap ht \<Longrightarrow> slot_present ht j \<Longrightarrow>
         \<not> ht_equal ht k (he_key (table ht ! j)) (ht_data ht)"
proof -
  note ok = table_wfD(1) [OF wf]
  have "0 < cap ht" using free(1) by simp
  then obtain r where r: "get_entry_loop (loop_fuel ht) ht h k (start_hash_address ht h) None = Some r"
      "get_entry_result ht h k 0 None r"
    using get_entry_loop_result [OF ok probe_0 [OF ok, of h], where fuel = "loop_fuel ht" and k = k and avail = None]
    by (auto simp: loop_fuel_def)
  show ?thesis
  proof (cases r)
    case (Inl i)
    then show ?thesis
      using r found [of i] probe_less [OF ok] by (auto simp: get_entry_result_def slot_match_def)
  next
    case (Inr v)
    obtain n where n: "n < cap ht" "probe ht h n = i0" using probe_surj [OF ok free(1)] by blast
    have "v \<noteq> None"
      using r(2) Inr n free by (cases v) (auto simp: get_entry_result_def entry_kinds)
    then obtain i where i: "v = Some i" by blast
    then obtain m where m: "m < cap ht" "i = probe ht h m" "\<not> slot_present ht i"
        "\<forall>j<m. \<not> slot_free ht (probe ht h j)"
      using r(2) Inr by (auto simp: get_entry_result_def)
    have "\<not> ht_equal ht k (he_key (table ht ! j)) (ht_data ht)"
      if j: "j < cap ht" "slot_present ht j" for j
    proof
      assume eq: "ht_equal ht k (he_key (table ht ! j)) (ht_data ht)"
      then have hj: "he_hash (table ht ! j) = h"
        using table_wfD(5) [OF wf j] hash_keys.equal_hash [OF keys eq] by (simp add: h_def)
      then obtain q where q: "q < cap ht" "probe ht h q = j" "\<forall>l<q. \<not> slot_free ht (probe ht h l)"
        using table_wfD(6) [OF wf j] unfolding reaches_def by auto
      have "slot_match ht h k (probe ht h q)" using j(2) eq hj q(2) by (simp add: slot_match_def)
      then show False using r(2) Inr q by (auto simp: get_entry_result_def misses_def)
    qed
    moreover have "reaches ht h i" using m unfolding reaches_def by blast
    ultimately show ?thesis
      using new [of i] r(1) Inr i m probe_less [OF ok] by auto
  qed
qed

text \<open>The insertion without growing, as one update of one slot.\<close>

definition store :: "hash_table \<Rightarrow> ptr \<Rightarrow> ptr \<Rightarrow> (hash_table \<times> nat option) option" where
  "store ht k d =
     map_option
       (\<lambda>(ht, entry). case entry of
          None \<Rightarrow> (ht, None)
        | Some i \<Rightarrow> (put ht i ((table ht ! i)\<lparr>he_key := k, he_data := d\<rparr>), Some i))
       (map_option (claim_entry ht (ht_hash ht k (ht_data ht)))
          (get_entry_loop (loop_fuel ht) ht (ht_hash ht k (ht_data ht)) k
             (start_hash_address ht (ht_hash ht k (ht_data ht))) None))"

lemma hash_table_insert_grow:
  assumes "grow ok ht = Some ht'" and "ht_hash ht' = ht_hash ht" "ht_data ht' = ht_data ht"
  shows "hash_table_insert ok ht k d = store ht' k d"
  using assms by (simp add: hash_table_insert_def hash_table_insert_hash_def
      hash_table_get_entry_def store_def)

lemma table_wf_counters [simp]:
  "table_wf (ht\<lparr>entries := e\<rparr>) = table_wf ht"
  "table_wf (ht\<lparr>deleted_entries := e\<rparr>) = table_wf ht"
  by (simp_all add: table_wf_def reaches_def probe_def start_hash_address_def double_hash_def)

lemma slots_counters [simp]:
  "present_slots (ht\<lparr>entries := e\<rparr>) = present_slots ht"
  "present_slots (ht\<lparr>deleted_entries := e\<rparr>) = present_slots ht"
  "deleted_slots (ht\<lparr>entries := e\<rparr>) = deleted_slots ht"
  "deleted_slots (ht\<lparr>deleted_entries := e\<rparr>) = deleted_slots ht"
  "contents (ht\<lparr>entries := e\<rparr>) = contents ht"
  "contents (ht\<lparr>deleted_entries := e\<rparr>) = contents ht"
  by (simp_all add: present_slots_def deleted_slots_def contents_def)

text \<open>What a successful insertion promises: the invariant, the same functions, the returned slot
  holding the new key and value, and the entries with another key unchanged.\<close>

definition stored :: "hash_table \<Rightarrow> ptr \<Rightarrow> ptr \<Rightarrow> hash_table \<Rightarrow> bool" where
  "stored ht k d ht' \<longleftrightarrow> ht_inv ht' \<and> ht_hash ht' = ht_hash ht \<and> ht_equal ht' = ht_equal ht \<and>
     ht_data ht' = ht_data ht \<and>
     contents ht' = insert \<lparr>he_hash = ht_hash ht k (ht_data ht), he_key = k, he_data = d\<rparr>
       {e \<in> contents ht. \<not> ht_equal ht k (he_key e) (ht_data ht)} \<and>
     size_index ht' = size_index ht \<and> unat (entries ht') \<le> Suc (unat (entries ht))"

lemma store_found:
  assumes inv: "ht_inv ht" and keys: "keys_of ht" and k: "k \<noteq> NULL" "k \<noteq> DELETED_KEY_VALUE"
    and i: "i < cap ht" "slot_present ht i" "ht_equal ht k (he_key (table ht ! i)) (ht_data ht)"
      "he_hash (table ht ! i) = ht_hash ht k (ht_data ht)"
    and e_def: "e = (table ht ! i)\<lparr>he_key := k, he_data := d\<rparr>"
  shows "stored ht k d (put ht i e)"
proof -
  have wf: "table_wf ht" and cnt: "table_counts ht" using inv by (simp_all add: ht_inv_def)
  note wfD = table_wfD [OF wf]
  have e: "entry_is_present e" "he_key e = k" "he_data e = d" "he_hash e = ht_hash ht k (ht_data ht)"
    using k i(4) by (simp_all add: e_def entry_is_present_def)
  have same: "j = i" if "j < cap ht" "slot_present ht j"
      "ht_equal ht k (he_key (table ht ! j)) (ht_data ht) \<or>
       ht_equal ht (he_key (table ht ! j)) k (ht_data ht)" for j
  proof -
    have "ht_equal ht (he_key (table ht ! i)) (he_key (table ht ! j)) (ht_data ht)"
      using that(3) i(3) hash_keys.equal_sym [OF keys] hash_keys.equal_trans [OF keys] by blast
    then show ?thesis using wfD(7) [OF i(1) that(1) i(2) that(2)] by simp
  qed
  have "table_wf (put ht i e)"
  proof (rule table_wf_put [OF wf i(1)])
    show "\<not> entry_is_free e" using e(1) by (simp add: entry_kinds)
    show "he_hash e = ht_hash ht (he_key e) (ht_data ht) \<and> reaches ht (he_hash e) i"
      using wfD(6) [OF i(1,2)] i(4) e by simp
  qed (use same e(2) in blast)
  moreover have "present_slots (put ht i e) = present_slots ht"
    using present_slots_put [of i ht e] i(1,2) e(1) wfD(2) by (auto simp: present_slots_def)
  moreover have "deleted_slots (put ht i e) = deleted_slots ht"
    using deleted_slots_put [of i ht e] i(1,2) e(1) wfD(2) by (auto simp: deleted_slots_def entry_kinds)
  moreover have "contents (put ht i e) = insert e {x \<in> contents ht. \<not> ht_equal ht k (he_key x) (ht_data ht)}"
  proof -
    have "x \<in> contents (put ht i e) \<longleftrightarrow> x = e \<or> (x \<in> contents ht \<and> \<not> ht_equal ht k (he_key x) (ht_data ht))" for x
    proof -
      have "x \<in> contents (put ht i e) \<longleftrightarrow>
          x = e \<or> (\<exists>j<cap ht. j \<noteq> i \<and> table ht ! j = x \<and> entry_is_present x)"
        using wfD(2) i(1) e(1) by (auto simp: contents_def in_set_conv_nth nth_list_update)
      also have "(\<exists>j<cap ht. j \<noteq> i \<and> table ht ! j = x \<and> entry_is_present x) \<longleftrightarrow>
          x \<in> contents ht \<and> \<not> ht_equal ht k (he_key x) (ht_data ht)"
        unfolding contents_iff [OF wf] using same i(3) by blast
      finally show ?thesis .
    qed
    then show ?thesis by blast
  qed
  moreover have "e = \<lparr>he_hash = ht_hash ht k (ht_data ht), he_key = k, he_data = d\<rparr>"
    using i(4) by (simp add: e_def)
  ultimately show ?thesis
    using cnt by (simp add: stored_def ht_inv_def table_counts_def)
qed

lemma entry_overwrite:
  "e\<lparr>he_hash := h, he_key := k, he_data := d\<rparr> = \<lparr>he_hash = h, he_key = k, he_data = d\<rparr>"
  by (cases e) simp

lemma put_counters:
  "ht\<lparr>entries := a, table := t\<rparr> = ht\<lparr>table := t, entries := a\<rparr>"
  "ht\<lparr>deleted_entries := a, table := t\<rparr> = ht\<lparr>table := t, deleted_entries := a\<rparr>"
  by (cases ht; simp)+

lemma store_new:
  assumes inv: "ht_inv ht" and keys: "keys_of ht" and room: "has_room ht"
    and k: "k \<noteq> NULL" "k \<noteq> DELETED_KEY_VALUE"
    and i: "i < cap ht" "\<not> slot_present ht i" "reaches ht (ht_hash ht k (ht_data ht)) i"
      "\<And>j. j < cap ht \<Longrightarrow> slot_present ht j \<Longrightarrow>
         \<not> ht_equal ht k (he_key (table ht ! j)) (ht_data ht)"
    and e_def: "e = \<lparr>he_hash = ht_hash ht k (ht_data ht), he_key = k, he_data = d\<rparr>"
    and ht'_def: "ht' = (put ht i e)\<lparr>deleted_entries :=
        (if entry_is_deleted (table ht ! i) then deleted_entries ht - 1 else deleted_entries ht),
      entries := entries ht + 1\<rparr>"
  shows "stored ht k d ht'"
proof -
  have wf: "table_wf ht" and cnt: "table_counts ht" using inv by (simp_all add: ht_inv_def)
  note wfD = table_wfD [OF wf]
  have len: "i < length (table ht)" using i(1) wfD(2) by simp
  have e: "entry_is_present e" "he_key e = k" "he_hash e = ht_hash ht k (ht_data ht)"
    using k by (simp_all add: e_def entry_is_present_def)
  have wf': "table_wf (put ht i e)"
  proof (rule table_wf_put [OF wf i(1)])
    show "\<not> entry_is_free e" using e(1) by (simp add: entry_kinds)
    show "he_hash e = ht_hash ht (he_key e) (ht_data ht) \<and> reaches ht (he_hash e) i"
      using i(3) e by simp
  qed (use i(4) e(2) hash_keys.equal_sym [OF keys] in blast)
  have pres: "present_slots (put ht i e) = insert i (present_slots ht)" "i \<notin> present_slots ht"
    using present_slots_put [OF len, of e] i(2) e(1) by (auto simp: present_slots_def)
  have del: "deleted_slots (put ht i e) = deleted_slots ht - {i}"
    using deleted_slots_put [OF len, of e] e(1) by (simp add: entry_kinds)
  have max: "unat (max_entries (ht_size ht)) < 2 ^ 32" by (rule unat_u32_lt)
  have ent: "unat (entries ht + 1) = Suc (unat (entries ht))"
    using room max by (intro unat_plus_1_less) (auto simp: has_room_def)
  have "table_counts ht'"
  proof (cases "entry_is_deleted (table ht ! i)")
    case True
    then have mem: "i \<in> deleted_slots ht" using len by (simp add: deleted_slots_def)
    then have "0 < card (deleted_slots ht)" by (auto simp: card_gt_0_iff)
    then have "unat (deleted_entries ht - 1) = card (deleted_slots ht) - 1"
      using cnt unat_minus_1_pos [of "deleted_entries ht"] by (simp add: table_counts_def)
    then show ?thesis
      using True cnt mem pres del ent room \<open>0 < card (deleted_slots ht)\<close>
      by (simp add: ht'_def table_counts_def has_room_def)
  next
    case False
    then have "i \<notin> deleted_slots ht" by (simp add: deleted_slots_def)
    then show ?thesis
      using False cnt pres del ent room by (simp add: ht'_def table_counts_def has_room_def)
  qed
  moreover have "contents ht' = insert e (contents ht)"
    using contents_put_new [OF wf i(1,2) e(1)] by (simp add: ht'_def)
  moreover have "{x \<in> contents ht. \<not> ht_equal ht k (he_key x) (ht_data ht)} = contents ht"
    using i(4) by (auto simp: contents_iff [OF wf])
  ultimately show ?thesis
    using wf' ent by (simp add: stored_def ht_inv_def ht'_def e_def)
qed

lemma store_result:
  assumes inv: "ht_inv ht" and keys: "keys_of ht" and room: "has_room ht"
    and k: "k \<noteq> NULL" "k \<noteq> DELETED_KEY_VALUE"
  shows "\<exists>ht' i. store ht k d = Some (ht', Some i) \<and> stored ht k d ht'"
proof -
  let ?h = "ht_hash ht k (ht_data ht)"
  have wf: "table_wf ht" and cnt: "table_counts ht" using inv by (simp_all add: ht_inv_def)
  note ok = table_wfD(1) [OF wf]
  have "card (present_slots ht) + card (deleted_slots ht) < cap ht"
    using room cnt size_okD(4) [OF ok] by (simp add: has_room_def table_counts_def)
  then obtain i0 where i0: "i0 < cap ht" "slot_free ht i0"
    by (rule free_slot_exists [OF wf])
  from wf keys i0 refl show ?thesis
  proof (cases rule: get_entry_slot [where k = k and h = ?h])
    case (found i)
    then show ?thesis
      using store_found [OF inv keys k found(2-5) refl, of d] by (simp add: store_def claim_entry_def)
  next
    case (new i)
    have "i < length (table ht)" using new(2) table_wfD(2) [OF wf] by simp
    then show ?thesis
      using store_new [OF inv keys room k new(2-5) refl refl, of d] new(1)
      by (simp add: store_def claim_entry_def entry_overwrite put_counters)
  qed
qed

lemma lookup_stored:
  assumes st: "stored ht k d ht'" and inv: "ht_inv ht" and keys: "keys_of ht"
  shows "ht_lookup ht' q = (if ht_equal ht q k (ht_data ht) then Some d else ht_lookup ht q)"
proof -
  let ?eq = "\<lambda>a b. ht_equal ht a b (ht_data ht)"
  have wf: "table_wf ht" "table_wf ht'" and keys': "keys_of ht'"
    using st inv keys by (simp_all add: stored_def ht_inv_def)
  have iff: "ht_lookup ht' q = Some x \<longleftrightarrow>
      (?eq q k \<and> x = d) \<or> (\<exists>e\<in>contents ht. \<not> ?eq k (he_key e) \<and> ?eq q (he_key e) \<and> he_data e = x)" for x
    using st unfolding lookup_contents [OF wf(2) keys'] stored_def by auto
  show ?thesis
  proof (cases "?eq q k")
    case True
    then have "ht_lookup ht' q = Some d" by (simp add: iff)
    with True show ?thesis by simp
  next
    case False
    have "ht_lookup ht' q = Some x \<longleftrightarrow> ht_lookup ht q = Some x" for x
      unfolding iff lookup_contents [OF wf(1) keys]
      using False hash_keys.equal_sym [OF keys] hash_keys.equal_trans [OF keys] by blast
    then have "ht_lookup ht' q = ht_lookup ht q"
      by (cases "ht_lookup ht q"; cases "ht_lookup ht' q") auto
    with False show ?thesis by simp
  qed
qed

subsection \<open>Removal\<close>

lemma remove_present:
  assumes inv: "ht_inv ht" and keys: "keys_of ht" and i: "i < cap ht" "slot_present ht i"
  defines "ht' \<equiv> hash_table_remove ht (Some i)"
  shows "ht_inv ht'" and "contents ht' = contents ht - {table ht ! i}"
proof -
  have wf: "table_wf ht" and cnt: "table_counts ht" using inv by (simp_all add: ht_inv_def)
  note wfD = table_wfD [OF wf]
  define e where "e = (table ht ! i)\<lparr>he_key := DELETED_KEY_VALUE\<rparr>"
  have e: "entry_is_deleted e" "\<not> entry_is_present e" "\<not> entry_is_free e"
    by (simp_all add: e_def entry_defs)
  have len: "i < length (table ht)" using i(1) wfD(2) by simp
  have ht': "ht' = (put ht i e)\<lparr>entries := entries ht - 1, deleted_entries := deleted_entries ht + 1\<rparr>"
    by (simp add: ht'_def hash_table_remove_def e_def)
  have "table_wf (put ht i e)"
    by (rule table_wf_put [OF wf i(1) e(3)]) (use e(2) in simp_all)
  moreover have mem: "i \<in> present_slots ht" "i \<notin> deleted_slots ht"
    using i(2) len by (auto simp: present_slots_def deleted_slots_def entry_kinds)
  moreover have "0 < card (present_slots ht)" using mem(1) by (auto simp: card_gt_0_iff)
  moreover have "unat (deleted_entries ht + 1) = Suc (unat (deleted_entries ht))"
    using cnt unat_u32_lt [of "max_entries (ht_size ht)"] calculation(4)
    by (intro unat_plus_1_less [of _ "unat (max_entries (ht_size ht))"]) (auto simp: table_counts_def)
  moreover have "unat (entries ht - 1) = unat (entries ht) - 1"
    using cnt calculation(4) by (intro unat_minus_1_pos) (simp add: table_counts_def)
  ultimately show "ht_inv ht'"
    using cnt present_slots_put [OF len, of e] deleted_slots_put [OF len, of e] e
    by (simp add: ht' ht_inv_def table_counts_def)
  have "x \<in> contents (put ht i e) \<longleftrightarrow> x \<in> contents ht \<and> x \<noteq> table ht ! i" for x
  proof -
    have "x \<in> contents (put ht i e) \<longleftrightarrow> (\<exists>j<cap ht. j \<noteq> i \<and> table ht ! j = x \<and> entry_is_present x)"
      using wfD(2) i(1) e(2) by (auto simp: contents_def in_set_conv_nth nth_list_update)
    also have "\<dots> \<longleftrightarrow> x \<in> contents ht \<and> x \<noteq> table ht ! i"
      unfolding contents_iff [OF wf]
      using wfD(7) [OF _ i(1)] i hash_keys.equal_refl [OF keys] by metis
    finally show ?thesis .
  qed
  then show "contents ht' = contents ht - {table ht ! i}" by (auto simp: ht')
qed

lemma lookup_removed:
  assumes inv: "ht_inv ht" and keys: "keys_of ht"
  shows "\<exists>ht'. hash_table_remove_key ht k = Some ht' \<and> ht_inv ht' \<and>
    ht_hash ht' = ht_hash ht \<and> ht_equal ht' = ht_equal ht \<and> ht_data ht' = ht_data ht \<and>
    (\<forall>q. ht_lookup ht' q = (if ht_equal ht q k (ht_data ht) then None else ht_lookup ht q))"
proof -
  let ?eq = "\<lambda>a b. ht_equal ht a b (ht_data ht)"
  have wf: "table_wf ht" using inv by (simp add: ht_inv_def)
  note trans = hash_keys.equal_sym [OF keys] hash_keys.equal_trans [OF keys]
  obtain r where r: "hash_table_search ht k = Some r" using search_total [OF wf] by blast
  then have rem: "hash_table_remove_key ht k = Some (hash_table_remove ht r)"
    by (simp add: hash_table_remove_key_def hash_table_remove_hash_def hash_table_search_def)
  show ?thesis
  proof (cases r)
    case None
    have "ht_lookup ht q = None" if "?eq q k" for q
    proof (rule ccontr)
      assume "ht_lookup ht q \<noteq> None"
      then obtain i where "i < cap ht" "slot_present ht i" "?eq q (he_key (table ht ! i))"
        using search_Some [OF wf keys, of q] by (auto simp: ht_lookup_def split: option.splits)
      then have "hash_table_search ht k = Some (Some i)"
        using that trans unfolding search_Some [OF wf keys] by blast
      with r None show False by simp
    qed
    then show ?thesis using rem None inv by (simp add: hash_table_remove_def)
  next
    case (Some i)
    then have i: "i < cap ht" "slot_present ht i" "?eq k (he_key (table ht ! i))"
      using r search_Some [OF wf keys] by auto
    define ht' where "ht' = hash_table_remove ht (Some i)"
    note removed = remove_present [OF inv keys i(1,2), folded ht'_def]
    have same: "ht_hash ht' = ht_hash ht" "ht_equal ht' = ht_equal ht" "ht_data ht' = ht_data ht"
      by (simp_all add: ht'_def hash_table_remove_def)
    have wf': "table_wf ht'" using removed(1) by (simp add: ht_inv_def)
    have keys': "keys_of ht'" using keys same by simp
    have "ht_lookup ht' q = (if ?eq q k then None else ht_lookup ht q)" for q
    proof -
      have only: "e = table ht ! i" if "e \<in> contents ht" "?eq k (he_key e)" for e
        using that table_wfD(7) [OF wf _ i(1) _ i(2)] i(3) trans unfolding contents_iff [OF wf] by blast
      have iff: "ht_lookup ht' q = Some x \<longleftrightarrow>
          (\<exists>e\<in>contents ht. e \<noteq> table ht ! i \<and> ?eq q (he_key e) \<and> he_data e = x)" for x
        unfolding lookup_contents [OF wf' keys'] removed(2) same by auto
      show ?thesis
      proof (cases "?eq q k")
        case True
        then have "ht_lookup ht' q \<noteq> Some x" for x
          unfolding iff using only trans by blast
        with True show ?thesis by (cases "ht_lookup ht' q") auto
      next
        case False
        have "e \<noteq> table ht ! i" if "?eq q (he_key e)" for e
          using False trans(2) [OF that] trans(1) [OF i(3)] by blast
        then have "ht_lookup ht' q = Some x \<longleftrightarrow> ht_lookup ht q = Some x" for x
          unfolding iff lookup_contents [OF wf keys] by blast
        then have "ht_lookup ht' q = ht_lookup ht q"
          by (cases "ht_lookup ht q"; cases "ht_lookup ht' q") auto
        with False show ?thesis by simp
      qed
    qed
    then show ?thesis using rem Some removed(1) same by (auto simp: ht'_def)
  qed
qed

end
