(* ===== verification/HashRehash.thy ===== *)
theory HashRehash
  imports HashProofs
begin

section \<open>Iteration, rehashing and growth of the hash table\<close>

text \<open>
  The iterator behind \<^verbatim>\<open>hash_table_for_each\<close> visits the present slots in increasing order; the
  rehash built on it keeps the set of present entries and drops the deleted ones, so that a table
  that has reached its limit has room again before the next entry is stored.
\<close>

subsection \<open>Iteration and rehashing\<close>

lemma next_present_None:
  "next_present es i = None \<longleftrightarrow> (\<forall>e\<in>set es. \<not> entry_is_present e)"
  by (induction es arbitrary: i) auto

lemma next_present_Some:
  "next_present es i = Some j \<Longrightarrow> i \<le> j \<and> j - i < length es \<and> entry_is_present (es ! (j - i)) \<and>
     (\<forall>l<j - i. \<not> entry_is_present (es ! l))"
proof (induction es arbitrary: i)
  case (Cons e es)
  show ?case
  proof (cases "entry_is_present e")
    case True
    with Cons.prems show ?thesis by simp
  next
    case False
    with Cons have IH: "Suc i \<le> j \<and> j - Suc i < length es \<and> entry_is_present (es ! (j - Suc i)) \<and>
        (\<forall>l<j - Suc i. \<not> entry_is_present (es ! l))" by simp
    then have "j - i = Suc (j - Suc i)" by linarith
    with IH False show ?thesis by (auto simp: nth_Cons split: nat.split)
  qed
qed simp

abbreviation cursor_pos :: "nat option \<Rightarrow> nat" where
  "cursor_pos cur \<equiv> (case cur of None \<Rightarrow> 0 | Some e \<Rightarrow> e + 1)"

text \<open>The iterator returns the present slots in increasing order.\<close>

lemma next_entry_cases:
  assumes "entries ht \<noteq> 0"
  obtains (exhausted) "hash_table_next_entry ht cur = None"
      "\<And>j. cursor_pos cur \<le> j \<Longrightarrow> j < length (table ht) \<Longrightarrow> \<not> slot_present ht j"
  | (next_slot) j where "hash_table_next_entry ht cur = Some j" "cursor_pos cur \<le> j"
      "j < length (table ht)" "slot_present ht j"
      "\<And>l. cursor_pos cur \<le> l \<Longrightarrow> l < j \<Longrightarrow> \<not> slot_present ht l"
proof (cases "hash_table_next_entry ht cur")
  case None
  let ?i = "cursor_pos cur"
  have none: "\<forall>e\<in>set (drop ?i (table ht)). \<not> entry_is_present e"
    using None assms next_present_None by (simp add: hash_table_next_entry_def Let_def)
  have "\<not> slot_present ht j" if "?i \<le> j" "j < length (table ht)" for j
  proof -
    have "table ht ! j = drop ?i (table ht) ! (j - ?i)" using that by simp
    also have "\<dots> \<in> set (drop ?i (table ht))" using that by (intro nth_mem) simp
    finally show ?thesis using none by blast
  qed
  then show ?thesis using exhausted None by blast
next
  case (Some j)
  let ?i = "cursor_pos cur"
  have "next_present (drop ?i (table ht)) ?i = Some j"
    using Some assms by (simp add: hash_table_next_entry_def Let_def)
  note n = next_present_Some [OF this]
  have "\<not> slot_present ht l" if "?i \<le> l" "l < j" for l
  proof -
    have "l - ?i < j - ?i" using that by linarith
    then have "\<not> entry_is_present (drop ?i (table ht) ! (l - ?i))" using n by blast
    moreover have "drop ?i (table ht) ! (l - ?i) = table ht ! l"
      using that n by (subst nth_drop) auto
    ultimately show ?thesis by simp
  qed
  moreover have "j < length (table ht)" using n by (simp only: length_drop) linarith
  moreover have "slot_present ht j"
  proof -
    have "drop ?i (table ht) ! (j - ?i) = table ht ! j"
      using n calculation by (subst nth_drop) auto
    with n show ?thesis by metis
  qed
  ultimately show ?thesis using next_slot [OF Some] n by blast
qed

text \<open>The state of the copy when the old slots below \<open>i\<close> have been visited.\<close>

definition copied :: "hash_table \<Rightarrow> nat \<Rightarrow> hash_table \<Rightarrow> bool" where
  "copied old i ht \<longleftrightarrow> table_wf ht \<and> deleted_slots ht = {} \<and>
     ht_hash ht = ht_hash old \<and> ht_equal ht = ht_equal old \<and> ht_data ht = ht_data old \<and>
     contents ht = {e. \<exists>j<i. j < length (table old) \<and> slot_present old j \<and> e = table old ! j} \<and>
     card (present_slots ht) = card (present_slots old \<inter> {..<i})"

lemma copied_skip:
  assumes "copied old i ht" and "i \<le> j"
    and "\<And>l. i \<le> l \<Longrightarrow> l < j \<Longrightarrow> l < length (table old) \<Longrightarrow> \<not> slot_present old l"
  shows "copied old j ht"
proof -
  have same: "l < i \<longleftrightarrow> l < j" if "l < length (table old)" "slot_present old l" for l
    using assms(2,3) that by (meson less_le_trans not_le)
  then have "present_slots old \<inter> {..<i} = present_slots old \<inter> {..<j}"
    by (auto simp: present_slots_def)
  moreover have "{e. \<exists>l<i. l < length (table old) \<and> slot_present old l \<and> e = table old ! l} =
      {e. \<exists>l<j. l < length (table old) \<and> slot_present old l \<and> e = table old ! l}"
    using same by blast
  ultimately show ?thesis using assms(1) by (simp add: copied_def)
qed

lemma copied_insert:
  assumes c: "copied old j ht" and old: "table_wf old" and keys: "keys_of old"
    and j: "j < length (table old)" "slot_present old j"
    and room: "card (present_slots old) < cap ht"
    and e_def: "e = table old ! j"
  obtains i where "hash_table_insert_rehash ht (he_hash e) (he_key e) (he_data e) = Some (put ht i e)"
    "copied old (Suc j) (put ht i e)"
proof -
  note oldD = table_wfD [OF old]
  have wf: "table_wf ht" and same: "ht_hash ht = ht_hash old" "ht_equal ht = ht_equal old"
      "ht_data ht = ht_data old" and del: "deleted_slots ht = {}"
      and con: "contents ht = {e. \<exists>l<j. l < length (table old) \<and> slot_present old l \<and> e = table old ! l}"
      and crd: "card (present_slots ht) = card (present_slots old \<inter> {..<j})"
    using c by (simp_all add: copied_def)
  note ok = table_wfD(1) [OF wf]
  have jc: "j < cap old" using j(1) oldD(2) by simp
  have "card (present_slots old \<inter> {..<j}) \<le> card (present_slots old)"
    by (intro card_mono) auto
  then have "card (present_slots ht) + card (deleted_slots ht) < cap ht"
    using room crd del by simp
  then obtain i0 where "i0 < cap ht" "slot_free ht i0" by (rule free_slot_exists [OF wf])
  then obtain m where m: "m < cap ht" "slot_free ht (probe ht (he_hash e) m)"
      "\<forall>l<m. \<not> slot_free ht (probe ht (he_hash e) l)"
    by (rule first_free_probe [OF ok])
  define i where "i = probe ht (he_hash e) m"
  have i: "i < cap ht" "\<not> slot_present ht i" "reaches ht (he_hash e) i"
    using m probe_less [OF ok] by (auto simp: i_def reaches_def entry_kinds)
  have e: "entry_is_present e" "he_hash e = ht_hash ht (he_key e) (ht_data ht)"
    using j(2) oldD(5) [OF jc] same by (simp_all add: e_def)
  have ins: "hash_table_insert_rehash ht (he_hash e) (he_key e) (he_data e) = Some (put ht i e)"
    unfolding hash_table_insert_rehash_def i_def
    using insert_rehash_loop_result [OF ok probe_0 [OF ok] _ m(1) _ m(2), of "loop_fuel ht"] m(3)
    by (cases e) (simp add: loop_fuel_def del: insert_rehash_loop.simps)
  have fresh: "\<not> ht_equal ht (he_key e) (he_key x) (ht_data ht) \<and>
      \<not> ht_equal ht (he_key x) (he_key e) (ht_data ht)" if x: "x \<in> contents ht" for x
  proof -
    obtain l where l: "l < j" "l < length (table old)" "slot_present old l" "x = table old ! l"
      using x con by blast
    have "l < cap old" using l(2) oldD(2) by simp
    then show ?thesis
      using oldD(7) [OF jc _ j(2) l(3)] oldD(7) [OF _ jc l(3) j(2)] l(1,4) same by (auto simp: e_def)
  qed
  have "table_wf (put ht i e)"
    by (rule table_wf_put [OF wf i(1)])
       (use e i(3) fresh contents_iff [OF wf] in \<open>auto simp: entry_kinds\<close>)
  moreover have len: "i < length (table ht)" using i(1) table_wfD(2) [OF wf] by simp
  moreover have "deleted_slots (put ht i e) = {}"
    using deleted_slots_put [OF len, of e] e(1) del by (simp add: entry_kinds)
  moreover have "contents (put ht i e) =
      {e. \<exists>l<Suc j. l < length (table old) \<and> slot_present old l \<and> e = table old ! l}"
    unfolding contents_put_new [OF wf i(1,2) e(1)] con
    using j by (auto simp: e_def less_Suc_eq)
  moreover have "card (present_slots (put ht i e)) = card (present_slots old \<inter> {..<Suc j})"
  proof -
    have "present_slots old \<inter> {..<Suc j} = insert j (present_slots old \<inter> {..<j})"
      using j by (auto simp: present_slots_def)
    moreover have "i \<notin> present_slots ht" using i(2) by (simp add: present_slots_def)
    ultimately show ?thesis
      using present_slots_put [OF len, of e] e(1) crd by simp
  qed
  ultimately have "copied old (Suc j) (put ht i e)" using same by (simp add: copied_def)
  with ins that show ?thesis by blast
qed

lemma rehash_loop_result:
  assumes old: "table_wf old" and keys: "keys_of old" and some: "entries old \<noteq> 0"
  shows "copied old (cursor_pos cur) ht \<Longrightarrow> card (present_slots old) < cap ht \<Longrightarrow>
    length (table old) < cursor_pos cur + fuel \<Longrightarrow> cursor_pos cur \<le> length (table old) \<Longrightarrow>
    \<exists>ht'. rehash_loop fuel old ht cur = Some ht' \<and> copied old (length (table old)) ht' \<and>
      size_index ht' = size_index ht \<and> deleted_entries ht' = deleted_entries ht"
proof (induction fuel arbitrary: cur ht)
  case 0
  then show ?case by simp
next
  case (Suc fuel)
  from some show ?case
  proof (cases rule: next_entry_cases [where cur = cur])
    case exhausted
    then have "copied old (length (table old)) ht"
      using copied_skip [OF Suc.prems(1,4)] by blast
    with exhausted show ?thesis by simp
  next
    case (next_slot j)
    have "copied old j ht" using copied_skip [OF Suc.prems(1) next_slot(2)] next_slot(5) by blast
    then obtain i where i: "hash_table_insert_rehash ht (he_hash (table old ! j))
          (he_key (table old ! j)) (he_data (table old ! j)) = Some (put ht i (table old ! j))"
        "copied old (Suc j) (put ht i (table old ! j))"
      by (rule copied_insert [OF _ old keys next_slot(3,4) Suc.prems(2) refl])
    from i(2) have "\<exists>ht'. rehash_loop fuel old (put ht i (table old ! j)) (Some j) = Some ht' \<and>
        copied old (length (table old)) ht' \<and>
        size_index ht' = size_index ht \<and> deleted_entries ht' = deleted_entries ht"
      using Suc.IH [of "Some j" "put ht i (table old ! j)"] Suc.prems(2,3) next_slot(2,3) by simp
    with next_slot(1) i(1) show ?thesis by (simp add: Let_def)
  qed
qed

text \<open>An empty table of any verified size.\<close>

definition empty_table :: "hash_table \<Rightarrow> nat \<Rightarrow> hash_table" where
  "empty_table ht n = ht\<lparr>table := replicate (unat (hs_size (hash_sizes ! n))) zero_entry,
     size_index := n, ht_size := hash_sizes ! n, entries := 0, deleted_entries := 0\<rparr>"

lemma zero_entry_free [simp]:
  "entry_is_free zero_entry" "\<not> entry_is_present zero_entry" "\<not> entry_is_deleted zero_entry"
  by (simp_all add: entry_defs)

lemma empty_table_slots [simp]:
  "present_slots (empty_table ht n) = {}" "deleted_slots (empty_table ht n) = {}"
  "contents (empty_table ht n) = {}"
  by (auto simp: present_slots_def deleted_slots_def contents_def empty_table_def)

lemma empty_table_inv: "n < verified_sizes \<Longrightarrow> ht_inv (empty_table ht n)"
  by (auto simp: ht_inv_def table_wf_def table_counts_def)
     (auto simp: empty_table_def)

lemma copied_empty: "n < verified_sizes \<Longrightarrow> copied old 0 (empty_table old n)"
  using empty_table_inv [of n old] by (auto simp: copied_def ht_inv_def) (simp_all add: empty_table_def)

text \<open>What a rehash promises: the entries are kept and no deleted slot is left.\<close>

definition rehashed :: "hash_table \<Rightarrow> hash_table \<Rightarrow> bool" where
  "rehashed ht ht' \<longleftrightarrow> ht_inv ht' \<and> ht_hash ht' = ht_hash ht \<and> ht_equal ht' = ht_equal ht \<and>
     ht_data ht' = ht_data ht \<and> contents ht' = contents ht \<and> entries ht' = entries ht \<and>
     deleted_entries ht' = 0"

lemma no_entries:
  assumes "ht_inv ht" and "entries ht = 0"
  shows "contents ht = {}" "present_slots ht = {}"
proof -
  have "card (present_slots ht) = 0" using assms by (simp add: ht_inv_def table_counts_def)
  then show "present_slots ht = {}" by simp
  then show "contents ht = {}"
    by (auto simp: contents_def present_slots_def in_set_conv_nth)
qed

lemma hash_table_rehash_copy:
  assumes inv: "ht_inv ht" and keys: "keys_of ht" and n: "n < verified_sizes"
    and fits: "unat (entries ht) \<le> unat (max_entries (hash_sizes ! n))"
  shows "\<exists>ht'. rehash_loop (Suc (length (table ht))) ht (empty_table ht n) None = Some ht' \<and>
    rehashed ht (ht'\<lparr>entries := entries ht\<rparr>) \<and> size_index ht' = n"
proof (cases "entries ht = 0")
  case True
  have e: "ht_inv (empty_table ht n)" by (rule empty_table_inv [OF n])
  have "(empty_table ht n)\<lparr>entries := 0\<rparr> = empty_table ht n" by (simp add: empty_table_def)
  moreover have "rehash_loop (Suc (length (table ht))) ht (empty_table ht n) None = Some (empty_table ht n)"
    using True by (simp add: hash_table_next_entry_def)
  ultimately show ?thesis
    using True e no_entries [OF inv True] by (simp add: rehashed_def) (simp add: empty_table_def)
next
  case False
  have wf: "table_wf ht" and cnt: "table_counts ht" using inv by (simp_all add: ht_inv_def)
  have [simp]: "ht_size (empty_table ht n) = hash_sizes ! n" "size_index (empty_table ht n) = n"
      "deleted_entries (empty_table ht n) = 0" by (simp_all add: empty_table_def)
  have "card (present_slots ht) < cap (empty_table ht n)"
    using fits cnt size_okD(4) [OF size_ok_hash_sizes [OF n]] by (simp add: table_counts_def)
  then obtain ht' where ht': "rehash_loop (Suc (length (table ht))) ht (empty_table ht n) None = Some ht'"
      "copied ht (length (table ht)) ht'" "size_index ht' = n" "deleted_entries ht' = 0"
    using rehash_loop_result [OF wf keys False, of None "empty_table ht n" "Suc (length (table ht))"]
      copied_empty [OF n] by auto
  have "contents ht = {e. \<exists>j<length (table ht). slot_present ht j \<and> e = table ht ! j}"
    by (auto simp: contents_def in_set_conv_nth)
  moreover have "present_slots ht \<inter> {..<length (table ht)} = present_slots ht"
    by (auto simp: present_slots_def)
  moreover have "ht_size ht' = hash_sizes ! n"
    using ht'(2,3) table_wfD(4) [of ht'] by (simp add: copied_def)
  ultimately have "rehashed ht (ht'\<lparr>entries := entries ht\<rparr>)"
    using ht'(2,4) cnt fits by (auto simp: rehashed_def ht_inv_def table_counts_def copied_def)
  with ht'(1,3) show ?thesis by blast
qed

lemma hash_table_rehash_ok:
  assumes inv: "ht_inv ht" and keys: "keys_of ht" and n: "n < verified_sizes"
    and fits: "unat (entries ht) \<le> unat (max_entries (hash_sizes ! n))"
  shows "\<exists>ht'. hash_table_rehash True ht n = Some ht' \<and> rehashed ht ht' \<and> size_index ht' = n"
proof (cases "size_index ht = n \<and> deleted_entries ht = max_entries (ht_size ht)")
  case True
  have wf: "table_wf ht" and cnt: "table_counts ht" using inv by (simp_all add: ht_inv_def)
  have "unat (entries ht) + unat (deleted_entries ht) \<le> unat (max_entries (ht_size ht))"
    using cnt by (simp add: table_counts_def)
  with True have "unat (entries ht) = 0" by simp
  then have e: "entries ht = 0" by (simp add: unat_eq_0)
  have "hash_table_rehash True ht n = Some (empty_table ht n)"
    using True table_wfD(4) [OF wf] by (cases ht) (simp add: hash_table_rehash_def empty_table_def)
  then show ?thesis
    using e no_entries [OF inv e] empty_table_inv [OF n, of ht]
    by (simp add: rehashed_def) (simp add: empty_table_def)
next
  case False
  have "hash_table_rehash True ht n = map_option (\<lambda>ht'. ht'\<lparr>entries := entries ht\<rparr>)
      (rehash_loop (Suc (length (table ht))) ht (empty_table ht n) None)"
    unfolding hash_table_rehash_def empty_table_def Let_def
    using False n by (auto simp: length_hash_sizes verified_sizes_def simp del: rehash_loop.simps)
  with hash_table_rehash_copy [OF assms] show ?thesis by auto
qed

lemma grow_ok:
  assumes inv: "ht_inv ht" and keys: "keys_of ht" and n: "Suc (size_index ht) < verified_sizes"
  shows "\<exists>ht'. grow True ht = Some ht' \<and> ht_inv ht' \<and> has_room ht' \<and> ht_hash ht' = ht_hash ht \<and>
    ht_equal ht' = ht_equal ht \<and> ht_data ht' = ht_data ht \<and> contents ht' = contents ht \<and>
    entries ht' = entries ht \<and>
    (size_index ht' = size_index ht \<or>
     size_index ht' = Suc (size_index ht) \<and> max_entries (ht_size ht) \<le> entries ht)"
proof -
  have wf: "table_wf ht" and cnt: "table_counts ht" using inv by (simp_all add: ht_inv_def)
  have n': "size_index ht < verified_sizes" using n by simp
  have sz: "ht_size ht = hash_sizes ! size_index ht" by (rule table_wfD(4) [OF wf])
  note max = max_entries_hash_sizes [OF n'] max_entries_hash_sizes [OF n]
  have le: "unat (entries ht) + unat (deleted_entries ht) \<le> unat (max_entries (ht_size ht))"
    using cnt by (simp add: table_counts_def)
  have sum: "unat (deleted_entries ht + entries ht) = unat (entries ht) + unat (deleted_entries ht)"
    using le unat_u32_lt [of "max_entries (ht_size ht)"] by (simp add: unat_word_ariths)
  have result: "ht_inv ht' \<and> has_room ht' \<and> ht_hash ht' = ht_hash ht \<and>
      ht_equal ht' = ht_equal ht \<and> ht_data ht' = ht_data ht \<and> contents ht' = contents ht \<and>
      entries ht' = entries ht"
    if "rehashed ht ht'" "unat (entries ht) < unat (max_entries (hash_sizes ! size_index ht'))" for ht'
  proof -
    have "ht_size ht' = hash_sizes ! size_index ht'"
      using that(1) table_wfD(4) [of ht'] by (simp add: rehashed_def ht_inv_def)
    with that show ?thesis by (simp add: rehashed_def has_room_def)
  qed
  consider (full) "max_entries (ht_size ht) \<le> entries ht"
    | (tombs) "\<not> max_entries (ht_size ht) \<le> entries ht"
        "max_entries (ht_size ht) \<le> deleted_entries ht + entries ht"
    | (room) "\<not> max_entries (ht_size ht) \<le> entries ht"
        "\<not> max_entries (ht_size ht) \<le> deleted_entries ht + entries ht"
    by blast
  then show ?thesis
  proof cases
    case full
    have lt: "unat (entries ht) < unat (max_entries (hash_sizes ! Suc (size_index ht)))"
    proof -
      have "0 < (2::nat) * 2 ^ size_index ht" by simp
      moreover have "(2::nat) * 2 ^ Suc (size_index ht) = 2 * (2 * 2 ^ size_index ht)" by simp
      ultimately show ?thesis using le max unfolding sz by linarith
    qed
    with hash_table_rehash_ok [OF inv keys n] full result show ?thesis
      by (auto simp: grow_def)
  next
    case tombs
    then have lt: "unat (entries ht) < unat (max_entries (hash_sizes ! size_index ht))"
      using sz by (simp add: word_le_nat_alt)
    with hash_table_rehash_ok [OF inv keys n'] tombs result show ?thesis
      by (auto simp: grow_def)
  next
    case room
    then have "has_room ht" using sum by (simp add: has_room_def word_le_nat_alt)
    with room inv show ?thesis by (simp add: grow_def)
  qed
qed

end
