(* ===== verification/HashMap.thy ===== *)
theory HashMap
  imports HashRehash
begin

section \<open>The hash table as a finite map\<close>

text \<open>
  The contract a client of the hash table relies on, as a locale: a budget of insertions that
  succeed, and what a look-up gives after an insertion and after a removal. Every pair of hash and
  equality functions that meets \<^verbatim>\<open>hash_keys\<close> provides it, and so do the three kinds of tables the
  program creates (pointers, strings, integers).
\<close>

datatype 'k store_op = Put 'k 'k | Del 'k

fun run_store ::
  "('k \<Rightarrow> 'k \<Rightarrow> 's \<Rightarrow> 's option) \<Rightarrow> ('k \<Rightarrow> 's \<Rightarrow> 's option) \<Rightarrow> 'k store_op list \<Rightarrow> 's \<Rightarrow> 's option" where
  "run_store ins del [] s = Some s"
| "run_store ins del (Put k v # ops) s = Option.bind (ins k v s) (run_store ins del ops)"
| "run_store ins del (Del k # ops) s = Option.bind (del k s) (run_store ins del ops)"

fun run_spec :: "('k \<Rightarrow> 'k \<Rightarrow> bool) \<Rightarrow> 'k store_op list \<Rightarrow> ('k \<Rightarrow> 'k option) \<Rightarrow> 'k \<Rightarrow> 'k option" where
  "run_spec eq [] m = m"
| "run_spec eq (Put k v # ops) m = run_spec eq ops (\<lambda>q. if eq q k then Some v else m q)"
| "run_spec eq (Del k # ops) m = run_spec eq ops (\<lambda>q. if eq q k then None else m q)"

fun op_valid :: "('k \<Rightarrow> bool) \<Rightarrow> 'k store_op \<Rightarrow> bool" where
  "op_valid valid (Put k v) = valid k"
| "op_valid valid (Del k) = True"

locale key_store =
  fixes inv :: "nat \<Rightarrow> 's \<Rightarrow> bool" and look :: "'s \<Rightarrow> 'k \<Rightarrow> 'k option"
    and ins :: "'k \<Rightarrow> 'k \<Rightarrow> 's \<Rightarrow> 's option" and del :: "'k \<Rightarrow> 's \<Rightarrow> 's option"
    and eq :: "'k \<Rightarrow> 'k \<Rightarrow> bool" and valid :: "'k \<Rightarrow> bool"
  assumes ins_spec: "inv (Suc n) s \<Longrightarrow> valid k \<Longrightarrow>
      \<exists>s'. ins k v s = Some s' \<and> inv n s' \<and> look s' = (\<lambda>q. if eq q k then Some v else look s q)"
    and del_spec: "inv (Suc n) s \<Longrightarrow>
      \<exists>s'. del k s = Some s' \<and> inv n s' \<and> look s' = (\<lambda>q. if eq q k then None else look s q)"
begin

lemma run_refines:
  "inv (length ops + n) s \<Longrightarrow> \<forall>p\<in>set ops. op_valid valid p \<Longrightarrow>
    \<exists>s'. run_store ins del ops s = Some s' \<and> inv n s' \<and> look s' = run_spec eq ops (look s)"
proof (induction ops arbitrary: s)
  case Nil
  then show ?case by simp
next
  case (Cons p ops)
  show ?case
  proof (cases p)
    case (Put k v)
    then obtain s1 where "ins k v s = Some s1" "inv (length ops + n) s1"
        "look s1 = (\<lambda>q. if eq q k then Some v else look s q)"
      using ins_spec [of "length ops + n" s k v] Cons.prems by auto
    then show ?thesis using Cons.IH [of s1] Cons.prems(2) Put by simp
  next
    case (Del k)
    then obtain s1 where "del k s = Some s1" "inv (length ops + n) s1"
        "look s1 = (\<lambda>q. if eq q k then None else look s q)"
      using del_spec [of "length ops + n" s k] Cons.prems by auto
    then show ?thesis using Cons.IH [of s1] Cons.prems(2) Del by simp
  qed
qed

end

subsection \<open>The hash table provides the contract\<close>

text \<open>The table can take \<open>n\<close> more insertions and stays within the verified sizes.\<close>

definition table_budget ::
  "(ptr \<Rightarrow> ptr \<Rightarrow> u32) \<Rightarrow> (ptr \<Rightarrow> ptr \<Rightarrow> ptr \<Rightarrow> bool) \<Rightarrow> ptr \<Rightarrow> nat \<Rightarrow> hash_table \<Rightarrow> bool" where
  "table_budget hash equal data n ht \<longleftrightarrow> ht_inv ht \<and> ht_hash ht = hash \<and> ht_equal ht = equal \<and>
     ht_data ht = data \<and> Suc (size_index ht) < verified_sizes \<and> unat (entries ht) + n \<le> 2 ^ 19"

definition key_valid :: "ptr \<Rightarrow> bool" where
  "key_valid k \<longleftrightarrow> k \<noteq> NULL \<and> k \<noteq> DELETED_KEY_VALUE"

definition table_put :: "ptr \<Rightarrow> ptr \<Rightarrow> hash_table \<Rightarrow> hash_table option" where
  "table_put k d ht = map_option fst (hash_table_insert True ht k d)"

definition table_del :: "ptr \<Rightarrow> hash_table \<Rightarrow> hash_table option" where
  "table_del k ht = hash_table_remove_key ht k"

lemma insert_result:
  assumes inv: "ht_inv ht" and keys: "keys_of ht" and n: "Suc (size_index ht) < verified_sizes"
    and k: "key_valid k"
  shows "\<exists>ht' i. hash_table_insert True ht k d = Some (ht', Some i) \<and> ht_inv ht' \<and>
    ht_hash ht' = ht_hash ht \<and> ht_equal ht' = ht_equal ht \<and> ht_data ht' = ht_data ht \<and>
    unat (entries ht') \<le> Suc (unat (entries ht)) \<and>
    (size_index ht' = size_index ht \<or>
     size_index ht' = Suc (size_index ht) \<and> max_entries (ht_size ht) \<le> entries ht) \<and>
    ht_lookup ht' = (\<lambda>q. if ht_equal ht q k (ht_data ht) then Some d else ht_lookup ht q)"
proof -
  have kk: "k \<noteq> NULL" "k \<noteq> DELETED_KEY_VALUE" using k by (simp_all add: key_valid_def)
  obtain g where g: "grow True ht = Some g" "ht_inv g" "has_room g" "ht_hash g = ht_hash ht"
      "ht_equal g = ht_equal ht" "ht_data g = ht_data ht" "contents g = contents ht"
      "entries g = entries ht"
      "size_index g = size_index ht \<or>
       size_index g = Suc (size_index ht) \<and> max_entries (ht_size ht) \<le> entries ht"
    using grow_ok [OF inv keys n] by blast
  have keys': "keys_of g" using keys g(4-6) by simp
  obtain ht' i where st: "store g k d = Some (ht', Some i)" "stored g k d ht'"
    using store_result [OF g(2) keys' g(3) kk] by blast
  have ins: "hash_table_insert True ht k d = Some (ht', Some i)"
    using hash_table_insert_grow [OF g(1,4,6)] st(1) by simp
  have "ht_lookup g = ht_lookup ht"
    using lookup_eqI [OF _ keys _ g(4-7)] inv g(2) by (simp add: ht_inv_def)
  then have "ht_lookup ht' = (\<lambda>q. if ht_equal ht q k (ht_data ht) then Some d else ht_lookup ht q)"
    using lookup_stored [OF st(2) g(2) keys'] g(5,6) by (simp add: fun_eq_iff)
  then show ?thesis using ins st(2) g(4-6,8,9) by (simp add: stored_def)
qed

lemma insert_stays_verified:
  assumes "ht_inv ht" and "Suc (size_index ht) < verified_sizes" and "unat (entries ht) < 2 ^ 19"
    and "size_index ht' = size_index ht \<or>
      size_index ht' = Suc (size_index ht) \<and> max_entries (ht_size ht) \<le> entries ht"
  shows "Suc (size_index ht') < verified_sizes"
proof (cases "size_index ht' = size_index ht")
  case False
  have "ht_size ht = hash_sizes ! size_index ht"
    using assms(1) table_wfD(4) by (simp add: ht_inv_def)
  then have "(2::nat) ^ Suc (size_index ht) \<le> unat (entries ht)"
    using False assms(2,4) max_entries_hash_sizes [of "size_index ht"] by (simp add: word_le_nat_alt)
  with assms(3) have "(2::nat) ^ Suc (size_index ht) < 2 ^ 19" by linarith
  then have "Suc (size_index ht) < 19" by (rule power_less_imp_less_exp [rotated]) simp
  with False assms(4) show ?thesis by (simp add: verified_sizes_def)
qed (use assms(2) in simp)

lemma remove_entries:
  assumes inv: "ht_inv ht" and keys: "keys_of ht" and rem: "hash_table_remove_key ht k = Some ht'"
  shows "size_index ht' = size_index ht \<and> unat (entries ht') \<le> unat (entries ht)"
proof -
  obtain r where r: "hash_table_search ht k = Some r" "ht' = hash_table_remove ht r"
    using rem by (auto simp: hash_table_remove_key_def hash_table_remove_hash_def hash_table_search_def)
  show ?thesis
  proof (cases r)
    case None
    then show ?thesis using r by (simp add: hash_table_remove_def)
  next
    case (Some i)
    then have i: "i < cap ht" "slot_present ht i"
      using r search_Some [of ht k i] inv keys by (auto simp: ht_inv_def)
    then have "i \<in> present_slots ht"
      using inv table_wfD(2) [of ht] by (auto simp: present_slots_def ht_inv_def)
    then have "0 < unat (entries ht)"
      using inv by (auto simp: ht_inv_def table_counts_def card_gt_0_iff)
    then have "unat (entries ht - 1) = unat (entries ht) - 1" by (rule unat_minus_1_pos)
    then show ?thesis using r(2) Some by (simp add: hash_table_remove_def)
  qed
qed

sublocale hash_keys \<subseteq> store: key_store "table_budget hash equal data" ht_lookup table_put table_del
    "\<lambda>a b. equal a b data" key_valid
proof
  fix n s k v
  assume b: "table_budget hash equal data (Suc n) s" and k: "key_valid k"
  have s: "ht_inv s" "Suc (size_index s) < verified_sizes" "unat (entries s) < 2 ^ 19"
    and [simp]: "ht_hash s = hash" "ht_equal s = equal" "ht_data s = data"
    using b by (simp_all add: table_budget_def)
  have keys: "keys_of s" using hash_keys_axioms by simp
  from insert_result [OF s(1) keys s(2) k, of v] insert_stays_verified [OF s]
  show "\<exists>s'. table_put k v s = Some s' \<and> table_budget hash equal data n s' \<and>
      ht_lookup s' = (\<lambda>q. if equal q k data then Some v else ht_lookup s q)"
    using b by (fastforce simp: table_put_def table_budget_def)
next
  fix n s k
  assume b: "table_budget hash equal data (Suc n) s"
  have s: "ht_inv s"
    and [simp]: "ht_hash s = hash" "ht_equal s = equal" "ht_data s = data"
    using b by (simp_all add: table_budget_def)
  have keys: "keys_of s" using hash_keys_axioms by simp
  from lookup_removed [OF s keys, of k] remove_entries [OF s keys, of k]
  show "\<exists>s'. table_del k s = Some s' \<and> table_budget hash equal data n s' \<and>
      ht_lookup s' = (\<lambda>q. if equal q k data then None else ht_lookup s q)"
    using b by (fastforce simp: table_del_def table_budget_def)
qed

context hash_keys
begin

lemma table_run:
  "table_budget hash equal data (length ops + n) ht \<Longrightarrow> \<forall>p\<in>set ops. op_valid key_valid p \<Longrightarrow>
    \<exists>ht'. run_store table_put table_del ops ht = Some ht' \<and> table_budget hash equal data n ht' \<and>
      ht_lookup ht' = run_spec (\<lambda>a b. equal a b data) ops (ht_lookup ht)"
  by (rule store.run_refines)

end

interpretation pointer_keys: hash_keys hash_pointer hash_key_pointer_equal data for data
  by unfold_locales (simp_all add: hash_key_pointer_equal_def)

interpretation int_keys: hash_keys hash_int hash_key_int_equal data for data
  by unfold_locales (simp_all add: hash_key_int_equal_def)

interpretation string_keys: hash_keys "hash_string mem" "hash_key_string_equal mem" data for mem data
  by unfold_locales (simp_all add: hash_key_string_equal_def hash_string_def)

subsection \<open>Creation, iteration, resizing\<close>

lemma fresh_table_empty: "fresh_table hash equal data = empty_table (fresh_table hash equal data) 0"
  by (simp add: fresh_table_def empty_table_def)

lemma fresh_table_budget: "table_budget hash equal data (2 ^ 19) (fresh_table hash equal data)"
proof -
  have "ht_inv (fresh_table hash equal data)"
    by (subst fresh_table_empty) (rule empty_table_inv, simp add: verified_sizes_def)
  then show ?thesis by (simp add: table_budget_def fresh_table_def verified_sizes_def)
qed

lemma fresh_table_lookup:
  assumes "hash_keys hash equal data"
  shows "ht_lookup (fresh_table hash equal data) = (\<lambda>_. None)"
proof
  fix k
  let ?ht = "fresh_table hash equal data"
  have wf: "table_wf ?ht" using fresh_table_budget by (simp add: table_budget_def ht_inv_def)
  have keys: "keys_of ?ht" using assms by (simp add: fresh_table_def)
  have "contents ?ht = {}" by (subst fresh_table_empty) simp
  then show "ht_lookup ?ht k = None"
    using lookup_contents [OF wf keys, of k] by (cases "ht_lookup ?ht k") auto
qed

lemma budget_mono: "table_budget hash equal data m ht \<Longrightarrow> n \<le> m \<Longrightarrow> table_budget hash equal data n ht"
  by (simp add: table_budget_def)

lemma filter_upt_head:
  "i \<le> j \<Longrightarrow> j < n \<Longrightarrow> P j \<Longrightarrow> (\<And>l. i \<le> l \<Longrightarrow> l < j \<Longrightarrow> \<not> P l) \<Longrightarrow>
    filter P [i..<n] = j # filter P [Suc j..<n]"
proof -
  assume a: "i \<le> j" "j < n" "P j" "\<And>l. i \<le> l \<Longrightarrow> l < j \<Longrightarrow> \<not> P l"
  have "[i..<n] = [i..<j] @ j # [Suc j..<n]"
    using a(1,2) upt_add_eq_append [of i j "n - j"] by (simp add: upt_conv_Cons)
  moreover have "filter P [i..<j] = []" using a(4) by (simp add: filter_empty_conv)
  ultimately show ?thesis using a(3) by simp
qed

lemma for_each_loop_filter:
  assumes "entries ht \<noteq> 0"
  shows "length (table ht) < cursor_pos cur + fuel \<Longrightarrow>
    for_each_loop fuel ht (hash_table_next_entry ht cur) =
      Some (filter (slot_present ht) [cursor_pos cur..<length (table ht)])
    \<or> fuel = 0"
proof (induction fuel arbitrary: cur)
  case (Suc fuel)
  from assms show ?case
  proof (cases rule: next_entry_cases [where cur = cur])
    case exhausted
    then have "filter (slot_present ht) [cursor_pos cur..<length (table ht)] = []"
      by (simp add: filter_empty_conv)
    with exhausted(1) show ?thesis by simp
  next
    case (next_slot j)
    then have "filter (slot_present ht) [cursor_pos cur..<length (table ht)] =
        j # filter (slot_present ht) [Suc j..<length (table ht)]"
      by (intro filter_upt_head)
    moreover have "0 < fuel" using Suc.prems next_slot(2,3) by linarith
    moreover have "length (table ht) < cursor_pos (Some j) + fuel"
      using Suc.prems next_slot(2) by simp
    ultimately show ?thesis using Suc.IH [of "Some j"] next_slot(1) by simp
  qed
qed simp

lemma set_max_loop_result:
  assumes inv: "ht_inv ht" and keys: "keys_of ht"
  shows "\<forall>i\<in>set is. unat (max_entries (ht_size ht)) \<le> unat (max_entries (hash_sizes ! i)) \<Longrightarrow>
    \<exists>i\<in>set is. i < verified_sizes \<and> m \<le> max_entries (hash_sizes ! i) \<Longrightarrow> sorted is \<Longrightarrow>
    \<exists>ht'. set_max_loop True ht m is = Some ht' \<and> rehashed ht ht' \<and> m \<le> max_entries (ht_size ht')"
proof (induction "is")
  case (Cons i "is")
  show ?case
  proof (cases "m \<le> max_entries (hash_sizes ! i)")
    case True
    have i: "i < verified_sizes" using Cons.prems(2,3) by auto
    have "unat (entries ht) \<le> unat (max_entries (hash_sizes ! i))"
      using inv Cons.prems(1) by (simp add: ht_inv_def table_counts_def)
    from hash_table_rehash_ok [OF inv keys i this] obtain ht' where
      ht': "hash_table_rehash True ht i = Some ht'" "rehashed ht ht'" "size_index ht' = i" by blast
    have "ht_size ht' = hash_sizes ! i"
      using ht'(2,3) table_wfD(4) [of ht'] by (simp add: rehashed_def ht_inv_def)
    with True ht' show ?thesis by simp
  next
    case False
    with Cons show ?thesis by auto
  qed
qed simp

subsection \<open>Properties of the hash table\<close>

text \<open>C1: on a new table, with memory available, any sequence of up to \<open>2 ^ 19\<close> insertions and removals of keys
  that are neither null nor the mark of a deleted slot succeeds (growth,
  rehashing and reuse of deleted slots included) and leaves a table in which the search finds for
  each key exactly what the sequence of updates gives on a finite map.\<close>

theorem hash_table_refines_map:
  assumes "hash_keys hash equal data" and "hash_table_create True True hash equal data = Some ht"
    and "length ops \<le> 2 ^ 19" and "\<forall>p\<in>set ops. op_valid key_valid p"
  shows "\<exists>ht'. run_store table_put table_del ops ht = Some ht' \<and> ht_inv ht' \<and>
    ht_lookup ht' = run_spec (\<lambda>a b. equal a b data) ops (\<lambda>_. None)"
proof -
  have ht: "ht = fresh_table hash equal data" using assms(2) by (simp add: hash_table_create_def)
  have "table_budget hash equal data (length ops + 0) ht"
    using budget_mono [OF fresh_table_budget] assms(3) by (simp add: ht)
  from hash_keys.table_run [OF assms(1) this assms(4)] show ?thesis
    by (auto simp: ht fresh_table_lookup [OF assms(1)] table_budget_def)
qed

theorem hash_table_refines_map_witness:
  "\<exists>ht ht'. hash_table_create_pointer True True NULL = Some ht \<and>
     run_store table_put table_del [Put 8 1, Put 16 2, Del 8, Put 24 3, Put 16 4] ht = Some ht' \<and>
     ht_lookup ht' 16 = Some 4 \<and> ht_lookup ht' 8 = None"
  using hash_table_refines_map [OF pointer_keys.hash_keys_axioms, of NULL
      "fresh_table hash_pointer hash_key_pointer_equal NULL"
      "[Put 8 1, Put 16 2, Del 8, Put 24 3, Put 16 4]"]
  by (auto simp: hash_table_create_pointer_def hash_table_create_def key_valid_def
      DELETED_KEY_VALUE_def hash_key_pointer_equal_def)

text \<open>C2: inserting a key succeeds when memory is available and the table is below its largest
  verified size; afterwards a search for an equal key gives the new value, every other key is
  untouched, and the invariant and the counters hold.\<close>

theorem hash_table_insert_correct:
  assumes "ht_inv ht" and "hash_keys (ht_hash ht) (ht_equal ht) (ht_data ht)"
    and "Suc (size_index ht) < verified_sizes" and "k \<noteq> NULL" and "k \<noteq> DELETED_KEY_VALUE"
  shows "\<exists>ht' i. hash_table_insert True ht k d = Some (ht', Some i) \<and> ht_inv ht' \<and>
    (\<forall>q. ht_lookup ht' q = (if ht_equal ht q k (ht_data ht) then Some d else ht_lookup ht q))"
  using insert_result [OF assms(1-3), of k d] assms(4,5) by (auto simp: key_valid_def)

theorem hash_table_insert_correct_witness:
  "\<exists>ht' i. hash_table_insert True (fresh_table hash_int hash_key_int_equal NULL) 7 9 = Some (ht', Some i) \<and>
     ht_lookup ht' 7 = Some 9"
  using hash_table_insert_correct [of "fresh_table hash_int hash_key_int_equal NULL" 7 9]
    fresh_table_budget [of hash_int hash_key_int_equal NULL] int_keys.hash_keys_axioms [of NULL]
  by (auto simp: table_budget_def DELETED_KEY_VALUE_def hash_key_int_equal_def fresh_table_def)

text \<open>C3: removing a key always succeeds: afterwards no equal key is found, all other keys keep
  their values, and the invariant holds.\<close>

theorem hash_table_remove_correct:
  assumes "ht_inv ht" and "hash_keys (ht_hash ht) (ht_equal ht) (ht_data ht)"
  shows "\<exists>ht'. hash_table_remove_key ht k = Some ht' \<and> ht_inv ht' \<and>
    (\<forall>q. ht_lookup ht' q = (if ht_equal ht q k (ht_data ht) then None else ht_lookup ht q))"
  using lookup_removed [OF assms] by blast

theorem hash_table_remove_correct_witness:
  "\<exists>ht'. hash_table_remove_key (fresh_table hash_int hash_key_int_equal NULL) 7 = Some ht' \<and>
     ht_inv ht'"
  using hash_table_remove_correct [of "fresh_table hash_int hash_key_int_equal NULL" 7]
    fresh_table_budget [of hash_int hash_key_int_equal NULL] int_keys.hash_keys_axioms [of NULL]
  by (auto simp: table_budget_def fresh_table_def)

text \<open>A rehash into a size that holds the entries succeeds, keeps every look-up and the number
  of entries, and leaves no deleted slot.\<close>

theorem hash_table_rehash_keeps:
  assumes "ht_inv ht" and "hash_keys (ht_hash ht) (ht_equal ht) (ht_data ht)"
    and "n < verified_sizes" and "entries ht \<le> max_entries (hash_sizes ! n)"
  shows "\<exists>ht'. hash_table_rehash True ht n = Some ht' \<and> ht_inv ht' \<and> size_index ht' = n \<and>
    ht_lookup ht' = ht_lookup ht \<and> entries ht' = entries ht \<and> deleted_slots ht' = {}"
proof -
  obtain ht' where ht': "hash_table_rehash True ht n = Some ht'" "rehashed ht ht'" "size_index ht' = n"
    using hash_table_rehash_ok [OF assms(1-3) assms(4) [unfolded word_le_nat_alt]] by blast
  moreover have "ht_lookup ht' = ht_lookup ht"
    by (rule lookup_eqI [OF _ assms(2)])
       (use ht'(2) assms(1) in \<open>simp_all add: rehashed_def ht_inv_def\<close>)
  moreover have "deleted_slots ht' = {}"
    using ht'(2) by (auto simp: rehashed_def ht_inv_def table_counts_def)
  ultimately show ?thesis unfolding rehashed_def by blast
qed

theorem hash_table_rehash_keeps_witness:
  "\<exists>ht'. hash_table_rehash True (fresh_table hash_int hash_key_int_equal NULL) 3 = Some ht' \<and>
     size_index ht' = 3"
  using hash_table_rehash_keeps [of "fresh_table hash_int hash_key_int_equal NULL" 3]
    fresh_table_budget [of hash_int hash_key_int_equal NULL] int_keys.hash_keys_axioms [of NULL]
  by (auto simp: table_budget_def fresh_table_def verified_sizes_def)

text \<open>\<^verbatim>\<open>hash_table_set_max_entries\<close> returns true for every limit a verified size can hold, and
  then the table has that limit; the entries are kept.\<close>

theorem hash_table_set_max_entries_correct:
  assumes "ht_inv ht" and "hash_keys (ht_hash ht) (ht_equal ht) (ht_data ht)"
    and "Suc (size_index ht) < verified_sizes" and "m \<le> max_entries (hash_sizes ! 19)"
  shows "\<exists>ht'. hash_table_set_max_entries True ht m = Some (ht', True) \<and> ht_inv ht' \<and>
    m \<le> max_entries (ht_size ht') \<and> ht_lookup ht' = ht_lookup ht"
proof (cases "m < max_entries (ht_size ht)")
  case True
  then show ?thesis using assms(1) by (simp add: hash_table_set_max_entries_def)
next
  case False
  let ?is = "[size_index ht + 1..<length hash_sizes]"
  have wf: "table_wf ht" using assms(1) by (simp add: ht_inv_def)
  have "unat (max_entries (ht_size ht)) \<le> unat (max_entries (hash_sizes ! i))"
    if "i \<in> set ?is" for i
  proof -
    have "unat (max_entries (hash_sizes ! j)) = 2 * 2 ^ j" if "j < 31" for j
      using that max_entries_all [of j] by simp
    then show ?thesis
      using that table_wfD(3,4) [OF wf] by (simp add: length_hash_sizes verified_sizes_def)
  qed
  moreover have "\<exists>i\<in>set ?is. i < verified_sizes \<and> m \<le> max_entries (hash_sizes ! i)"
    using assms(3,4) by (intro bexI [of _ 19]) (simp_all add: length_hash_sizes verified_sizes_def)
  ultimately obtain ht' where "set_max_loop True ht m ?is = Some ht'" "rehashed ht ht'"
      "m \<le> max_entries (ht_size ht')"
    using set_max_loop_result [OF assms(1,2), of ?is m] by auto
  moreover have "ht_lookup ht' = ht_lookup ht"
    by (rule lookup_eqI [OF wf assms(2)])
       (use calculation(2) in \<open>simp_all add: rehashed_def ht_inv_def\<close>)
  ultimately show ?thesis
    using False by (simp add: hash_table_set_max_entries_def rehashed_def)
qed

theorem hash_table_set_max_entries_correct_witness:
  "\<exists>ht'. hash_table_set_max_entries True (fresh_table hash_int hash_key_int_equal NULL) 100 = Some (ht', True) \<and>
     100 \<le> max_entries (ht_size ht')"
  using hash_table_set_max_entries_correct [of "fresh_table hash_int hash_key_int_equal NULL" 100]
    fresh_table_budget [of hash_int hash_key_int_equal NULL] int_keys.hash_keys_axioms [of NULL]
  by (auto simp: table_budget_def fresh_table_def verified_sizes_def hash_sizes_def ENTRY_def)

text \<open>A loop over the table visits every present slot exactly once, in increasing order, and
  nothing else.\<close>

theorem hash_table_for_each_visits:
  assumes "ht_inv ht"
  shows "hash_table_for_each ht = Some (filter (\<lambda>i. entry_is_present (table ht ! i)) [0..<length (table ht)])"
proof (cases "entries ht = 0")
  case True
  have "present_slots ht = {}" by (rule no_entries [OF assms True])
  then have "filter (slot_present ht) [0..<length (table ht)] = []"
    by (auto simp: filter_empty_conv present_slots_def)
  with True show ?thesis by (simp add: hash_table_for_each_def hash_table_next_entry_def)
next
  case False
  from for_each_loop_filter [OF False, of None "Suc (length (table ht))"] show ?thesis
    by (simp add: hash_table_for_each_def del: for_each_loop.simps)
qed

theorem hash_table_for_each_visits_witness:
  "hash_table_for_each (fresh_table hash_int hash_key_int_equal NULL) = Some []"
  using hash_table_for_each_visits [of "fresh_table hash_int hash_key_int_equal NULL"]
    fresh_table_budget [of hash_int hash_key_int_equal NULL]
  by (simp add: table_budget_def) (simp add: fresh_table_def hash_sizes_def ENTRY_def zero_entry_def
      entry_is_present_def filter_empty_conv)

text \<open>C36: the multiplication with the precomputed magic number gives the remainder, for every
  divisor above one, as the table uses it for its sizes.\<close>

theorem fast_urem32_correct:
  assumes "1 < d"
  shows "fast_urem32 n d (REMAINDER_MAGIC d) = n mod d"
  by (rule fast_urem32_mod [OF assms])

theorem fast_urem32_correct_witness: "fast_urem32 1000 7 (REMAINDER_MAGIC 7) = 6"
  using fast_urem32_correct [of 7 1000] by simp

text \<open>The branch for compilers without 128-bit integers computes the same function.\<close>

theorem fast_urem32_portable_correct: "fast_urem32_portable n d magic = fast_urem32 n d magic"
  by (rule fast_urem32_portable_eq)

text \<open>C35: the loops of the table, which start at the address of a hash and go on with \<open>next_address\<close>, visit every slot
  exactly once in as many steps as the table has slots, and are then back at the start, whatever the hash; so a
  search that stops there has seen the whole table. The table has one of the first twenty sizes.\<close>

theorem probe_permutation:
  assumes "ht_inv ht"
  shows "let step = next_address (hs_size (ht_size ht)) (double_hash ht h); start = start_hash_address ht h
    in bij_betw (\<lambda>n. unat ((step ^^ n) start)) {..<length (table ht)} {..<length (table ht)} \<and>
      (step ^^ length (table ht)) start = start"
proof -
  have wf: "table_wf ht" using assms by (simp add: ht_inv_def)
  note ok = table_wfD(1) [OF wf]
  let ?step = "next_address (hs_size (ht_size ht)) (double_hash ht h)" and ?start = "start_hash_address ht h"
  have at: "unat ((?step ^^ n) ?start) = probe ht h n" for n
    by (induction n) (simp_all add: probe_0 [OF ok] next_address_probe [OF ok])
  have "inj_on (probe ht h) {..<cap ht}" using probe_inj [OF ok] by (auto intro: inj_onI)
  moreover have "probe ht h ` {..<cap ht} = {..<cap ht}"
  proof (intro equalityI subsetI)
    fix a assume "a \<in> {..<cap ht}"
    then show "a \<in> probe ht h ` {..<cap ht}" using probe_surj [OF ok, of a h] by force
  qed (use probe_less [OF ok] in auto)
  moreover have "(?step ^^ cap ht) ?start = ?start"
    by (rule word_unat_eq_iff [THEN iffD2]) (simp add: at probe_round [OF ok] probe_0 [OF ok])
  ultimately show ?thesis by (simp add: bij_betw_def at table_wfD(2) [OF wf] Let_def)
qed

theorem probe_permutation_witness:
  "let step = next_address 5 (double_hash (fresh_table hash_int hash_key_int_equal NULL) 12);
       start = start_hash_address (fresh_table hash_int hash_key_int_equal NULL) 12
   in bij_betw (\<lambda>n. unat ((step ^^ n) start)) {..<5} {..<5} \<and> (step ^^ 5) start = start"
  using probe_permutation [of "fresh_table hash_int hash_key_int_equal NULL" 12]
    fresh_table_budget [of hash_int hash_key_int_equal NULL]
  by (simp add: table_budget_def Let_def) (simp add: fresh_table_def hash_sizes_def ENTRY_def)

text \<open>Two uses that leave the invariant. The first one runs when a growth finds no memory: the insertion
  still stores its entry, and the limit on present and deleted slots is then exceeded.\<close>

definition try_put :: "bool \<Rightarrow> ptr \<Rightarrow> ptr \<Rightarrow> hash_table \<Rightarrow> hash_table option" where
  "try_put calloc_ok k d ht = map_option fst (hash_table_insert calloc_ok ht k d)"

definition after_failed_growth :: "hash_table option" where
  "after_failed_growth =
     Option.bind (hash_table_create_pointer True True NULL) (\<lambda>ht.
     Option.bind (try_put True 4 1 ht) (\<lambda>ht.
     Option.bind (try_put True 8 2 ht) (\<lambda>ht.
     Option.bind (try_put False 12 3 ht) (\<lambda>ht.
     Option.bind (table_del 4 ht) (table_del 8)))))"

text \<open>After an insertion whose growth found no memory, a later insertion can erase live entries:
  the table of limit two then has one present and two deleted slots, the number of deleted slots
  equals the limit, and the rehash at the same size clears the slots without copying the entry left.\<close>

theorem failed_growth_loses_entry:
  "map_option (\<lambda>ht. (ht_lookup ht 12, entries ht)) after_failed_growth = Some (Some 3, 1) \<and>
   map_option (\<lambda>ht. (ht_lookup ht 12, entries ht)) (Option.bind after_failed_growth (try_put True 16 4))
     = Some (None, 1)"
  by code_simp

text \<open>An integer table accepts the key 0 and counts it, but never finds it again: a zero key marks
  a free slot.\<close>

theorem int_key_zero_is_lost:
  "map_option (\<lambda>ht. (ht_lookup ht 0, entries ht))
     (Option.bind (hash_table_create_int True True NULL) (try_put True 0 5)) = Some (None, 1)"
  by code_simp

end
