(* ===== verification/JobQueue.thy ===== *)
theory JobQueue
  imports Prelude "HOL-Library.Multiset"
begin

section \<open>The job queue (\<^verbatim>\<open>util/queue.c\<close>)\<close>

text \<open>
  A ring buffer of jobs filled by clients and emptied by worker threads. Each section of code under
  the queue's lock is a function; the worker loop, the clients and the shutdown are the rules of a
  step relation over the queue, the fences and the states of the workers. Indices and counters are
  natural numbers: the code decrements \<^verbatim>\<open>num_queued\<close> only after testing it against zero. A failed
  assertion and a read or a division the language leaves undefined are values of \<open>queue_error\<close>.
\<close>

record queue_job =
  qj_job :: ptr
  qj_global_data :: ptr
  qj_fence :: ptr
  qj_execute :: ptr
  qj_cleanup :: ptr

record queue =
  jobs :: "queue_job list"
  max_jobs :: nat
  num_queued :: nat
  write_idx :: nat
  read_idx :: nat
  q_threads :: ptr
  num_threads :: nat
  q_global_data :: ptr

datatype queue_error = AssertFailed | Undefined

definition zero_job :: queue_job where
  "zero_job = \<lparr>qj_job = NULL, qj_global_data = NULL, qj_fence = NULL, qj_execute = NULL, qj_cleanup = NULL\<rparr>"

subsection \<open>Fences\<close>

text \<open>The flags of the fences, by address.\<close>

type_synonym fences = "ptr \<Rightarrow> bool"

definition queue_fence_init :: "ptr \<Rightarrow> fences \<Rightarrow> fences" where
  "queue_fence_init fence fs = fs(fence := True)"

definition queue_fence_reset :: "ptr \<Rightarrow> fences \<Rightarrow> fences" where
  "queue_fence_reset fence fs = fs(fence := False)"

definition queue_fence_is_signalled :: "ptr \<Rightarrow> fences \<Rightarrow> bool" where
  "queue_fence_is_signalled fence fs = fs fence"

definition queue_fence_signal :: "ptr \<Rightarrow> fences \<Rightarrow> fences" where
  "queue_fence_signal fence fs = fs(fence := True)"

text \<open>A wait returns in the states in which the flag is set.\<close>

definition queue_fence_wait :: "ptr \<Rightarrow> fences \<Rightarrow> bool" where
  "queue_fence_wait fence fs = fs fence"

definition queue_fence_finish :: "ptr \<Rightarrow> fences \<Rightarrow> queue_error + unit" where
  "queue_fence_finish fence fs = (if fs fence then Inr () else Inl AssertFailed)"

subsection \<open>Creation and destruction\<close>

function create_threads :: "(nat \<Rightarrow> bool) \<Rightarrow> nat \<Rightarrow> nat \<Rightarrow> nat option" where
  "create_threads queue_create_thread i n =
     (if i < n
      then if queue_create_thread i then create_threads queue_create_thread (Suc i) n
           else if i = 0 then None else Some i
      else Some n)"
  by auto
termination by (relation "measure (\<lambda>(_, i, n). n - i)") auto

declare create_threads.simps [simp del]

definition queue_create ::
  "bool \<Rightarrow> bool \<Rightarrow> ptr \<Rightarrow> (nat \<Rightarrow> bool) \<Rightarrow> nat \<Rightarrow> nat \<Rightarrow> ptr \<Rightarrow> queue option" where
  "queue_create calloc_ok jobs_ok threads queue_create_thread maxj threads_wanted global_data =
     (if \<not> calloc_ok then None
      else if \<not> jobs_ok then None
      else if threads = NULL then None
      else map_option
        (\<lambda>n. \<lparr>jobs = replicate maxj zero_job, max_jobs = maxj, num_queued = 0, write_idx = 0, read_idx = 0,
              q_threads = threads, num_threads = n, q_global_data = global_data\<rparr>)
        (create_threads queue_create_thread 0 threads_wanted))"

text \<open>The locked part of \<^verbatim>\<open>queue_kill_threads\<close>; the joins that follow wait for the workers to exit.\<close>

definition queue_kill_threads :: "queue \<Rightarrow> queue" where
  "queue_kill_threads q = q\<lparr>num_threads := 0\<rparr>"

subsection \<open>Adding a job\<close>

fun copy_loop :: "nat \<Rightarrow> queue \<Rightarrow> nat \<Rightarrow> queue_job list option" where
  "copy_loop 0 q i = None"
| "copy_loop (Suc n) q i =
     (let i' = (i + 1) mod max_jobs q in
      if i' = write_idx q then Some [jobs q ! i]
      else map_option (Cons (jobs q ! i)) (copy_loop n q i'))"

definition grow_jobs :: "bool \<Rightarrow> queue \<Rightarrow> queue_error + queue" where
  "grow_jobs calloc_ok q =
     (if \<not> calloc_ok then Inl AssertFailed
      else if max_jobs q = 0 then Inl Undefined
      else case copy_loop (max_jobs q) q (read_idx q) of
        None \<Rightarrow> Inl Undefined
      | Some copied \<Rightarrow>
          if length copied \<noteq> num_queued q then Inl AssertFailed
          else Inr (q\<lparr>jobs := copied @ replicate (max_jobs q + 8 - length copied) zero_job,
                      read_idx := 0, write_idx := length copied, max_jobs := max_jobs q + 8\<rparr>))"

definition put_job :: "queue \<Rightarrow> ptr \<Rightarrow> ptr \<Rightarrow> ptr \<Rightarrow> ptr \<Rightarrow> queue_error + queue" where
  "put_job q job fence execute cleanup =
     (if qj_job (jobs q ! write_idx q) \<noteq> NULL then Inl AssertFailed
      else Inr (q\<lparr>jobs := (jobs q)[write_idx q :=
                    \<lparr>qj_job = job, qj_global_data = q_global_data q, qj_fence = fence,
                     qj_execute = execute, qj_cleanup = cleanup\<rparr>],
                  write_idx := (write_idx q + 1) mod max_jobs q,
                  num_queued := num_queued q + 1\<rparr>))"

definition queue_add_job ::
  "bool \<Rightarrow> queue option \<Rightarrow> fences \<Rightarrow> ptr \<Rightarrow> ptr \<Rightarrow> ptr \<Rightarrow> ptr \<Rightarrow>
    queue_error + queue option \<times> fences \<times> bool" where
  "queue_add_job calloc_ok queue fs job fence execute cleanup =
     (case queue of
        None \<Rightarrow> Inr (None, fs, False)
      | Some q \<Rightarrow>
          if q_threads q = NULL then Inr (Some q, fs, False)
          else if num_threads q = 0 then Inr (Some q, fs, False)
          else
            let fs = (if fence \<noteq> NULL then queue_fence_reset fence fs else fs) in
            if num_queued q > max_jobs q then Inl AssertFailed
            else case (if num_queued q = max_jobs q then grow_jobs calloc_ok q else Inr q) of
                Inl e \<Rightarrow> Inl e
              | Inr q \<Rightarrow>
                  (case put_job q job fence execute cleanup of
                     Inl e \<Rightarrow> Inl e
                   | Inr q \<Rightarrow> Inr (Some q, fs, True)))"

subsection \<open>The loops from the read to the write index\<close>

text \<open>The slots the loops of \<^verbatim>\<open>queue_drop_job\<close> and of the worker's exit look at.\<close>

fun queued_slots :: "nat \<Rightarrow> queue \<Rightarrow> nat \<Rightarrow> nat list option" where
  "queued_slots 0 q i = (if i = write_idx q then Some [] else None)"
| "queued_slots (Suc n) q i =
     (if i = write_idx q then Some []
      else map_option (Cons i) (queued_slots n q ((i + 1) mod max_jobs q)))"

datatype queue_event = Execute queue_job nat | Cleanup queue_job | CleanupBy queue_job nat

fun drop_loop :: "queue \<Rightarrow> ptr \<Rightarrow> nat list \<Rightarrow> queue \<times> queue_event list \<times> nat option" where
  "drop_loop q fence [] = (q, [], None)"
| "drop_loop q fence (i # is) =
     (if qj_fence (jobs q ! i) = fence
      then (q\<lparr>jobs := (jobs q)[i := zero_job]\<rparr>,
            if qj_cleanup (jobs q ! i) \<noteq> NULL then [Cleanup (jobs q ! i)] else [], Some i)
      else drop_loop q fence is)"

text \<open>The section of \<^verbatim>\<open>queue_drop_job\<close> under the lock, with the slot that it cleared.\<close>

definition drop_section :: "queue \<Rightarrow> ptr \<Rightarrow> (queue \<times> queue_event list \<times> nat option) option" where
  "drop_section q fence = map_option (drop_loop q fence) (queued_slots (max_jobs q) q (read_idx q))"

text \<open>The whole call when nothing else runs; the result says whether the caller returns at once or waits for the fence.\<close>

definition queue_drop_job ::
  "queue option \<Rightarrow> fences \<Rightarrow> ptr \<Rightarrow> (queue option \<times> fences \<times> queue_event list \<times> bool) option" where
  "queue_drop_job queue fs fence =
     (case queue of
        None \<Rightarrow> Some (None, fs, [], True)
      | Some q \<Rightarrow>
          if q_threads q = NULL then Some (Some q, fs, [], True)
          else if queue_fence_is_signalled fence fs then Some (Some q, fs, [], True)
          else map_option
            (\<lambda>(q', ev, removed).
               if removed \<noteq> None then (Some q', queue_fence_signal fence fs, ev, True)
               else (Some q', fs, ev, queue_fence_wait fence fs))
            (drop_section q fence))"

subsection \<open>The worker thread\<close>

text \<open>Taking a job, when the queue is not empty.\<close>

definition thread_take :: "queue \<Rightarrow> queue_job \<times> queue" where
  "thread_take q =
     (jobs q ! read_idx q,
      q\<lparr>jobs := (jobs q)[read_idx q := zero_job],
        read_idx := (read_idx q + 1) mod max_jobs q,
        num_queued := num_queued q - 1\<rparr>)"

fun drain_loop :: "queue \<Rightarrow> fences \<Rightarrow> nat list \<Rightarrow> queue \<times> fences" where
  "drain_loop q fs [] = (q, fs)"
| "drain_loop q fs (i # is) =
     (let job = jobs q ! i in
      if qj_job job \<noteq> NULL
      then drain_loop (q\<lparr>jobs := (jobs q)[i := job\<lparr>qj_job := NULL\<rparr>]\<rparr>)
             (if qj_fence job \<noteq> NULL then queue_fence_signal (qj_fence job) fs else fs) is
      else drain_loop q fs is)"

definition thread_exit :: "queue \<Rightarrow> fences \<Rightarrow> (queue \<times> fences) option" where
  "thread_exit q fs =
     (if num_threads q = 0
      then map_option
        (\<lambda>is. let (q', fs') = drain_loop q fs is
              in (q'\<lparr>read_idx := write_idx q', num_queued := 0\<rparr>, fs'))
        (queued_slots (max_jobs q) q (read_idx q))
      else Some (q, fs))"

text \<open>Where a worker is in its loop: about to lock the queue, with a job to execute, to signal or to
  clean up, on its way out, or gone.\<close>

datatype worker = Looping | Executing queue_job | Signalling queue_job | Cleaning queue_job | Leaving | Exited

text \<open>Where a call of \<^verbatim>\<open>queue_drop_job\<close> is: past the test of the fence and about to lock the queue, about to signal the
  fence after the lock was released, waiting for the fence, or back.\<close>

datatype drop_call = Locking ptr | DropSignalling ptr | DropWaiting ptr | DropReturned

text \<open>The last four components are history: the jobs accepted and the jobs taken, in order, which of the accepted ones were
  dropped, by their number, and the fences for which a client asked for a drop.\<close>

record queue_system =
  sys_queue :: queue
  sys_fences :: fences
  workers :: "worker list"
  drops :: "drop_call list"
  sys_log :: "queue_event list"
  accepted :: "queue_job list"
  taken :: "queue_job list"
  dropped :: "nat set"
  drop_requests :: "ptr list"

text \<open>The jobs whose fence is still to be signalled.\<close>

fun worker_job :: "worker \<Rightarrow> queue_job list" where
  "worker_job (Executing j) = [j]"
| "worker_job (Signalling j) = [j]"
| "worker_job _ = []"

definition pending :: "queue \<Rightarrow> queue_job list" where
  "pending q = take (num_queued q) (rotate (read_idx q) (jobs q))"

definition outstanding :: "queue_system \<Rightarrow> queue_job list" where
  "outstanding s = pending (sys_queue s) @ concat (map worker_job (workers s))"

text \<open>How far a slot is from the read index.\<close>

definition slot_distance :: "queue \<Rightarrow> nat \<Rightarrow> nat" where
  "slot_distance q i = (i + max_jobs q - read_idx q) mod max_jobs q"

text \<open>A drop of the \<^verbatim>\<open>NULL\<close> fence would read through it.\<close>

inductive queue_step :: "queue_system \<Rightarrow> queue_system \<Rightarrow> bool" where
  add: "queue_add_job ok (Some (sys_queue s)) (sys_fences s) job fence execute cleanup = Inr (Some q, fs, added) \<Longrightarrow>
    queue_step s (s\<lparr>sys_queue := q, sys_fences := fs,
      accepted := accepted s @ (if added then [\<lparr>qj_job = job, qj_global_data = q_global_data (sys_queue s),
        qj_fence = fence, qj_execute = execute, qj_cleanup = cleanup\<rparr>] else [])\<rparr>)"
| drop_begin: "fence \<noteq> NULL \<Longrightarrow> q_threads (sys_queue s) \<noteq> NULL \<Longrightarrow> \<not> queue_fence_is_signalled fence (sys_fences s) \<Longrightarrow>
    queue_step s (s\<lparr>drops := drops s @ [Locking fence], drop_requests := drop_requests s @ [fence]\<rparr>)"
| drop_locked: "k < length (drops s) \<Longrightarrow> drops s ! k = Locking fence \<Longrightarrow> drop_section (sys_queue s) fence = Some (q, ev, slot) \<Longrightarrow>
    queue_step s (s\<lparr>sys_queue := q, sys_log := sys_log s @ ev,
      drops := (drops s)[k := (if slot = None then DropWaiting fence else DropSignalling fence)],
      dropped := dropped s \<union> (\<lambda>i. length (taken s) + slot_distance (sys_queue s) i) ` set_option slot\<rparr>)"
| drop_signal: "k < length (drops s) \<Longrightarrow> drops s ! k = DropSignalling fence \<Longrightarrow>
    queue_step s (s\<lparr>sys_fences := queue_fence_signal fence (sys_fences s), drops := (drops s)[k := DropReturned]\<rparr>)"
| drop_wait: "k < length (drops s) \<Longrightarrow> drops s ! k = DropWaiting fence \<Longrightarrow> queue_fence_wait fence (sys_fences s) \<Longrightarrow>
    queue_step s (s\<lparr>drops := (drops s)[k := DropReturned]\<rparr>)"
| take: "i < length (workers s) \<Longrightarrow> workers s ! i = Looping \<Longrightarrow> i < num_threads (sys_queue s) \<Longrightarrow>
    num_queued (sys_queue s) \<noteq> 0 \<Longrightarrow> thread_take (sys_queue s) = (job, q) \<Longrightarrow>
    queue_step s (s\<lparr>sys_queue := q, taken := taken s @ [job],
      workers := (workers s)[i := (if qj_job job \<noteq> NULL then Executing job else Looping)]\<rparr>)"
| execute: "i < length (workers s) \<Longrightarrow> workers s ! i = Executing job \<Longrightarrow>
    queue_step s (s\<lparr>sys_log := sys_log s @ [Execute job i], workers := (workers s)[i := Signalling job]\<rparr>)"
| signal: "i < length (workers s) \<Longrightarrow> workers s ! i = Signalling job \<Longrightarrow>
    queue_step s (s\<lparr>sys_fences := (if qj_fence job \<noteq> NULL then queue_fence_signal (qj_fence job) (sys_fences s)
                                   else sys_fences s),
      workers := (workers s)[i := Cleaning job]\<rparr>)"
| cleanup: "i < length (workers s) \<Longrightarrow> workers s ! i = Cleaning job \<Longrightarrow>
    queue_step s (s\<lparr>sys_log := sys_log s @ (if qj_cleanup job \<noteq> NULL then [CleanupBy job i] else []),
      workers := (workers s)[i := Looping]\<rparr>)"
| leave: "i < length (workers s) \<Longrightarrow> workers s ! i = Looping \<Longrightarrow> num_threads (sys_queue s) \<le> i \<Longrightarrow>
    queue_step s (s\<lparr>workers := (workers s)[i := Leaving]\<rparr>)"
| exit: "i < length (workers s) \<Longrightarrow> workers s ! i = Leaving \<Longrightarrow>
    thread_exit (sys_queue s) (sys_fences s) = Some (q, fs) \<Longrightarrow>
    queue_step s (s\<lparr>sys_queue := q, sys_fences := fs, workers := (workers s)[i := Exited]\<rparr>)"
| kill: "queue_step s (s\<lparr>sys_queue := queue_kill_threads (sys_queue s)\<rparr>)"

text \<open>The system after \<^verbatim>\<open>queue_create\<close>: one worker per thread created.\<close>

definition queue_start :: "queue \<Rightarrow> fences \<Rightarrow> queue_system" where
  "queue_start q fs = \<lparr>sys_queue = q, sys_fences = fs, workers = replicate (num_threads q) Looping, drops = [],
     sys_log = [], accepted = [], taken = [], dropped = {}, drop_requests = []\<rparr>"

text \<open>Runs whose steps all obey a rule, and runs without one.\<close>

inductive queue_run :: "(queue_system \<Rightarrow> queue_system \<Rightarrow> bool) \<Rightarrow> queue_system \<Rightarrow> bool" for obeys where
  start: "queue_create ok1 ok2 threads thread_ok maxj n data = Some q \<Longrightarrow> 0 < maxj \<Longrightarrow>
    queue_run obeys (queue_start q fs)"
| step: "queue_run obeys s \<Longrightarrow> queue_step s s' \<Longrightarrow> obeys s s' \<Longrightarrow> queue_run obeys s'"

abbreviation queue_reachable :: "queue_system \<Rightarrow> bool" where
  "queue_reachable \<equiv> queue_run (\<lambda>_ _. True)"

text \<open>The rule of the clients that \<^verbatim>\<open>queue_add_job\<close> does not check: a job is added only with a fence that belongs to no
  job that is queued or being executed, and that no call for a dropped job is about to signal.\<close>

definition fence_unused :: "queue_system \<Rightarrow> ptr \<Rightarrow> bool" where
  "fence_unused s fence \<longleftrightarrow> fence = NULL \<or> (\<forall>j\<in>set (outstanding s). qj_fence j \<noteq> fence) \<and> DropSignalling fence \<notin> set (drops s)"

definition reuses_idle_fences :: "queue_system \<Rightarrow> queue_system \<Rightarrow> bool" where
  "reuses_idle_fences s s' \<longleftrightarrow> (\<forall>j. accepted s' = accepted s @ [j] \<longrightarrow> fence_unused s (qj_fence j))"

inductive_cases queue_stepE: "queue_step s s'"

end
