(* ===== verification/JobQueueProofs.thy ===== *)
theory JobQueueProofs
  imports JobQueue
begin

section \<open>Correctness of the job queue\<close>

text \<open>
  The ring buffer, read from its read index on, is a list; adding a job appends to the queued part
  of it, also when the array grows, and taking one removes its head. The invariants of the step
  relation give the order of execution and the meaning of a signalled fence.
\<close>

subsection \<open>The queue contract\<close>

fun enq_all :: "('a \<Rightarrow> 'q \<Rightarrow> 'q option) \<Rightarrow> 'a list \<Rightarrow> 'q \<Rightarrow> 'q option" where
  "enq_all enq [] q = Some q"
| "enq_all enq (x # xs) q = Option.bind (enq x q) (enq_all enq xs)"

fun deq_n :: "('q \<Rightarrow> 'a \<times> 'q) \<Rightarrow> nat \<Rightarrow> 'q \<Rightarrow> 'a list \<times> 'q" where
  "deq_n deq 0 q = ([], q)"
| "deq_n deq (Suc n) q = (let (x, q') = deq q; (xs, q'') = deq_n deq n q' in (x # xs, q''))"

locale fifo =
  fixes inv :: "'q \<Rightarrow> bool" and accepts :: "'q \<Rightarrow> 'a \<Rightarrow> bool" and items :: "'q \<Rightarrow> 'a list"
    and enq :: "'a \<Rightarrow> 'q \<Rightarrow> 'q option" and deq :: "'q \<Rightarrow> 'a \<times> 'q"
  assumes enq_items: "inv q \<Longrightarrow> accepts q x \<Longrightarrow>
      \<exists>q'. enq x q = Some q' \<and> inv q' \<and> accepts q' = accepts q \<and> items q' = items q @ [x]"
    and deq_items: "inv q \<Longrightarrow> items q \<noteq> [] \<Longrightarrow>
      inv (snd (deq q)) \<and> items q = fst (deq q) # items (snd (deq q))"
begin

lemma enq_all_items:
  "inv q \<Longrightarrow> \<forall>x\<in>set xs. accepts q x \<Longrightarrow>
    \<exists>q'. enq_all enq xs q = Some q' \<and> inv q' \<and> items q' = items q @ xs"
proof (induction xs arbitrary: q)
  case (Cons x xs)
  then obtain q1 where "enq x q = Some q1" "inv q1" "accepts q1 = accepts q" "items q1 = items q @ [x]"
    using enq_items [of q x] by auto
  then show ?case using Cons.IH [of q1] Cons.prems(2) by simp
qed simp

lemma deq_n_items:
  "inv q \<Longrightarrow> n \<le> length (items q) \<Longrightarrow>
    fst (deq_n deq n q) = take n (items q) \<and> inv (snd (deq_n deq n q)) \<and>
    items (snd (deq_n deq n q)) = drop n (items q)"
proof (induction n arbitrary: q)
  case (Suc n)
  obtain x q' where d: "deq q = (x, q')" by (cases "deq q")
  have "items q \<noteq> []" using Suc.prems(2) by auto
  with deq_items [OF Suc.prems(1)] d have "inv q'" "items q = x # items q'" by auto
  then show ?case using Suc.IH [of q'] Suc.prems(2) d by (simp add: case_prod_beta Let_def)
qed simp

lemma enq_deq:
  assumes "inv q" and "\<forall>x\<in>set xs. accepts q x"
  shows "\<exists>q'. enq_all enq xs q = Some q' \<and> fst (deq_n deq (length (items q) + length xs) q') = items q @ xs"
  using enq_all_items [OF assms] deq_n_items by fastforce

end

subsection \<open>The ring\<close>

abbreviation ring :: "queue \<Rightarrow> queue_job list" where
  "ring q \<equiv> rotate (read_idx q) (jobs q)"

definition queue_inv :: "queue \<Rightarrow> bool" where
  "queue_inv q \<longleftrightarrow> 0 < max_jobs q \<and> length (jobs q) = max_jobs q \<and> read_idx q < max_jobs q \<and>
     num_queued q \<le> max_jobs q \<and> write_idx q = (read_idx q + num_queued q) mod max_jobs q \<and>
     (num_threads q \<noteq> 0 \<longrightarrow> (\<forall>k. num_queued q \<le> k \<and> k < max_jobs q \<longrightarrow> qj_job (ring q ! k) = NULL))"

lemma mod_add_left_eq_iff:
  fixes n :: nat
  assumes "i < n" "j < n"
  shows "(m + i) mod n = (m + j) mod n \<longleftrightarrow> i = j"
  using coprime_stride_inj [of 1 n i j m] assms by auto

lemma rotate_update:
  assumes "k < length xs"
  shows "rotate m (xs[(m + k) mod length xs := y]) = (rotate m xs)[k := y]"
proof (rule nth_equalityI)
  fix i assume "i < length (rotate m (xs[(m + k) mod length xs := y]))"
  then have i: "i < length xs" by simp
  then have "rotate m (xs[(m + k) mod length xs := y]) ! i = xs[(m + k) mod length xs := y] ! ((m + i) mod length xs)"
    by (simp add: nth_rotate)
  also have "\<dots> = (if i = k then y else xs ! ((m + i) mod length xs))"
  proof -
    have "(m + k) mod length xs < length xs" using assms by (intro mod_less_divisor) linarith
    then show ?thesis
      using mod_add_left_eq_iff [OF assms i, of m] by (cases "i = k") auto
  qed
  also have "\<dots> = (rotate m xs)[k := y] ! i"
    using i by (simp add: nth_list_update nth_rotate)
  finally show "rotate m (xs[(m + k) mod length xs := y]) ! i = (rotate m xs)[k := y] ! i" .
qed simp

lemma ring_nth: "queue_inv q \<Longrightarrow> k < max_jobs q \<Longrightarrow> ring q ! k = jobs q ! ((read_idx q + k) mod max_jobs q)"
  by (simp add: queue_inv_def nth_rotate)

lemma ring_update:
  "queue_inv q \<Longrightarrow> k < max_jobs q \<Longrightarrow>
    rotate (read_idx q) ((jobs q)[(read_idx q + k) mod max_jobs q := y]) = (ring q)[k := y]"
  using rotate_update [of k "jobs q" "read_idx q" y] by (simp add: queue_inv_def)

lemma put_job_result:
  assumes inv: "queue_inv q" and room: "num_queued q < max_jobs q" and thr: "num_threads q \<noteq> 0"
  shows "\<exists>q'. put_job q job fence execute cleanup = Inr q' \<and> queue_inv q' \<and>
    pending q' = pending q @ [\<lparr>qj_job = job, qj_global_data = q_global_data q, qj_fence = fence,
      qj_execute = execute, qj_cleanup = cleanup\<rparr>] \<and>
    num_threads q' = num_threads q \<and> q_threads q' = q_threads q \<and> q_global_data q' = q_global_data q"
proof -
  define j where "j = \<lparr>qj_job = job, qj_global_data = q_global_data q, qj_fence = fence,
      qj_execute = execute, qj_cleanup = cleanup\<rparr>"
  define q' where "q' = q\<lparr>jobs := (jobs q)[write_idx q := j],
      write_idx := (write_idx q + 1) mod max_jobs q, num_queued := num_queued q + 1\<rparr>"
  have w: "write_idx q = (read_idx q + num_queued q) mod max_jobs q"
    and len: "length (jobs q) = max_jobs q"
    and free: "\<And>k. num_queued q \<le> k \<Longrightarrow> k < max_jobs q \<Longrightarrow> qj_job (ring q ! k) = NULL"
    using inv thr by (auto simp: queue_inv_def)
  have "qj_job (jobs q ! write_idx q) = NULL"
    using free [OF order_refl room] ring_nth [OF inv room] w by simp
  then have put: "put_job q job fence execute cleanup = Inr q'"
    by (simp add: put_job_def q'_def j_def)
  have ring': "ring q' = (ring q)[num_queued q := j]"
    using ring_update [OF inv room] by (simp add: q'_def w)
  have "queue_inv q'"
    using inv free room ring' by (auto simp: queue_inv_def q'_def w mod_simps nth_list_update)
  moreover have "pending q' = pending q @ [j]"
    using ring' room len by (simp add: pending_def q'_def take_Suc_conv_app_nth)
  ultimately show ?thesis using put by (simp add: q'_def j_def)
qed

lemma copy_loop_ring:
  assumes inv: "queue_inv q" and full: "num_queued q = max_jobs q"
  shows "k < max_jobs q \<Longrightarrow> max_jobs q \<le> k + fuel \<Longrightarrow>
    copy_loop fuel q ((read_idx q + k) mod max_jobs q) = Some (drop k (ring q))"
proof (induction fuel arbitrary: k)
  case 0
  then show ?case by simp
next
  case (Suc fuel)
  have w: "write_idx q = read_idx q" and r: "read_idx q < max_jobs q" and len: "length (ring q) = max_jobs q"
    using inv full by (auto simp: queue_inv_def)
  let ?i = "(read_idx q + k) mod max_jobs q"
  have step: "(?i + 1) mod max_jobs q = (read_idx q + Suc k) mod max_jobs q"
    by (simp add: mod_simps)
  have hd: "drop k (ring q) = jobs q ! ?i # drop (Suc k) (ring q)"
    using Suc.prems(1) len ring_nth [OF inv Suc.prems(1)] by (metis Cons_nth_drop_Suc)
  show ?case
  proof (cases "Suc k = max_jobs q")
    case True
    then have "(?i + 1) mod max_jobs q = write_idx q" using step w r by simp
    moreover have "drop (Suc k) (ring q) = []" using True len by simp
    ultimately show ?thesis using hd by (simp add: Let_def)
  next
    case False
    then have k: "Suc k < max_jobs q" using Suc.prems(1) by simp
    have "(?i + 1) mod max_jobs q \<noteq> write_idx q"
      using step w r mod_add_left_eq_iff [of "Suc k" "max_jobs q" 0 "read_idx q"] k by auto
    then show ?thesis using Suc.IH [OF k] Suc.prems(2) step hd by (simp add: Let_def)
  qed
qed

lemma grow_jobs_result:
  assumes inv: "queue_inv q" and full: "num_queued q = max_jobs q"
  shows "\<exists>q'. grow_jobs True q = Inr q' \<and> queue_inv q' \<and> pending q' = pending q \<and>
    num_queued q' < max_jobs q' \<and> num_threads q' = num_threads q \<and> q_threads q' = q_threads q \<and>
    q_global_data q' = q_global_data q"
proof -
  have len: "length (ring q) = max_jobs q" and r: "read_idx q < max_jobs q" and pos: "0 < max_jobs q"
    using inv by (auto simp: queue_inv_def)
  have copy: "copy_loop (max_jobs q) q (read_idx q) = Some (ring q)"
    using copy_loop_ring [OF assms pos, of "max_jobs q"] r by simp
  define q' where "q' = q\<lparr>jobs := ring q @ replicate 8 zero_job,
      read_idx := 0, write_idx := max_jobs q, max_jobs := max_jobs q + 8\<rparr>"
  have "grow_jobs True q = Inr q'"
    using copy len pos full by (simp add: grow_jobs_def q'_def)
  moreover have "queue_inv q'"
    using inv full len by (auto simp: queue_inv_def q'_def nth_append zero_job_def)
  moreover have "pending q' = pending q" using full len by (simp add: pending_def q'_def)
  ultimately show ?thesis using full by (simp add: q'_def)
qed

lemma queue_add_job_result:
  assumes inv: "queue_inv q" and thr: "num_threads q \<noteq> 0" "q_threads q \<noteq> NULL"
  shows "\<exists>q'. queue_add_job True (Some q) fs job fence execute cleanup =
      Inr (Some q', if fence \<noteq> NULL then fs(fence := False) else fs, True) \<and> queue_inv q' \<and>
    pending q' = pending q @ [\<lparr>qj_job = job, qj_global_data = q_global_data q, qj_fence = fence,
      qj_execute = execute, qj_cleanup = cleanup\<rparr>] \<and>
    num_threads q' = num_threads q \<and> q_threads q' = q_threads q \<and> q_global_data q' = q_global_data q"
proof -
  have le: "num_queued q \<le> max_jobs q" using inv by (simp add: queue_inv_def)
  obtain q1 where q1: "(if num_queued q = max_jobs q then grow_jobs True q else Inr q) = Inr q1"
      "queue_inv q1" "pending q1 = pending q" "num_queued q1 < max_jobs q1"
      "num_threads q1 = num_threads q" "q_threads q1 = q_threads q" "q_global_data q1 = q_global_data q"
    using grow_jobs_result [OF inv] inv le by (cases "num_queued q = max_jobs q") auto
  have "num_threads q1 \<noteq> 0" using q1(5) thr by simp
  from put_job_result [OF q1(2,4) this, of job fence execute cleanup] obtain q' where
    "put_job q1 job fence execute cleanup = Inr q'" "queue_inv q'"
    "pending q' = pending q1 @ [\<lparr>qj_job = job, qj_global_data = q_global_data q1, qj_fence = fence,
      qj_execute = execute, qj_cleanup = cleanup\<rparr>]"
    "num_threads q' = num_threads q1" "q_threads q' = q_threads q1" "q_global_data q' = q_global_data q1"
    by blast
  then show ?thesis
    using q1 thr le by (simp add: queue_add_job_def queue_fence_reset_def Let_def)
qed

lemma thread_take_result:
  assumes inv: "queue_inv q" and some: "num_queued q \<noteq> 0" and t: "thread_take q = (j, q')"
  shows "queue_inv q'" "pending q = j # pending q'" "num_threads q' = num_threads q"
    "q_threads q' = q_threads q" "q_global_data q' = q_global_data q"
proof -
  have len: "length (jobs q) = max_jobs q" and r: "read_idx q < max_jobs q" and pos: "0 < max_jobs q"
    and n: "num_queued q \<le> max_jobs q" "write_idx q = (read_idx q + num_queued q) mod max_jobs q"
    and free: "num_threads q \<noteq> 0 \<Longrightarrow> num_queued q \<le> k \<Longrightarrow> k < max_jobs q \<Longrightarrow> qj_job (ring q ! k) = NULL" for k
    using inv by (auto simp: queue_inv_def)
  have q': "q' = q\<lparr>jobs := (jobs q)[read_idx q := zero_job], read_idx := (read_idx q + 1) mod max_jobs q,
      num_queued := num_queued q - 1\<rparr>" and j: "j = jobs q ! read_idx q"
    using t by (auto simp: thread_take_def)
  have "ring q' = rotate (Suc (read_idx q)) ((jobs q)[read_idx q := zero_job])"
    using rotate_conv_mod [of "Suc (read_idx q)" "(jobs q)[read_idx q := zero_job]"] len by (simp add: q')
  also have "\<dots> = rotate1 ((ring q)[0 := zero_job])"
    using ring_update [OF inv pos, of zero_job] r by simp
  finally have ring': "ring q' = rotate1 ((ring q)[0 := zero_job])" .
  obtain x xs where ring: "ring q = x # xs" using len pos by (cases "ring q") auto
  have x: "x = j" using ring_nth [OF inv pos] ring r by (simp add: j)
  have xs: "Suc (length xs) = max_jobs q" using arg_cong [OF ring, of length] len by simp
  have rq: "ring q' = xs @ [zero_job]" using ring' ring by simp
  show "pending q = j # pending q'"
    using ring rq x some n(1) xs by (cases "num_queued q") (auto simp: pending_def q')
  have "qj_job (ring q' ! k) = NULL" if "num_threads q \<noteq> 0" "num_queued q - 1 \<le> k" "k < max_jobs q" for k
    using free [OF that(1), of "Suc k"] that some ring xs
    by (auto simp: rq nth_append zero_job_def less_Suc_eq)
  moreover have "write_idx q = ((read_idx q + 1) mod max_jobs q + (num_queued q - 1)) mod max_jobs q"
    using some n(2) by (cases "num_queued q") (simp_all add: mod_add_left_eq)
  ultimately show "queue_inv q'"
    using inv pos by (auto simp: queue_inv_def q')
qed (use t in \<open>auto simp: thread_take_def\<close>)

subsection \<open>The loops over the queued slots\<close>

lemma queued_slots_list:
  assumes inv: "queue_inv q" and room: "num_queued q < max_jobs q"
  shows "k \<le> num_queued q \<Longrightarrow> num_queued q \<le> k + fuel \<Longrightarrow>
    queued_slots fuel q ((read_idx q + k) mod max_jobs q) =
      Some (map (\<lambda>j. (read_idx q + j) mod max_jobs q) [k..<num_queued q])"
proof (induction fuel arbitrary: k)
  case 0
  then show ?case using inv by (auto simp: queue_inv_def)
next
  case (Suc fuel)
  have w: "write_idx q = (read_idx q + num_queued q) mod max_jobs q" using inv by (simp add: queue_inv_def)
  show ?case
  proof (cases "k = num_queued q")
    case True
    then show ?thesis using w by simp
  next
    case False
    then have k: "k < num_queued q" using Suc.prems(1) by simp
    then have "(read_idx q + k) mod max_jobs q \<noteq> write_idx q"
      using mod_add_left_eq_iff [of k "max_jobs q" "num_queued q"] room w by simp
    moreover have "((read_idx q + k) mod max_jobs q + 1) mod max_jobs q = (read_idx q + Suc k) mod max_jobs q"
      by (simp add: mod_simps)
    ultimately show ?thesis
      using Suc.IH [of "Suc k"] Suc.prems(2) k by (simp add: upt_conv_Cons)
  qed
qed

text \<open>On a full queue the read and the write index are equal and the loops see no slot at all.\<close>

lemma queued_slots_result:
  assumes inv: "queue_inv q"
  shows "queued_slots (max_jobs q) q (read_idx q) =
    Some (if num_queued q = max_jobs q then []
          else map (\<lambda>j. (read_idx q + j) mod max_jobs q) [0..<num_queued q])"
proof (cases "num_queued q = max_jobs q")
  case True
  then have "write_idx q = read_idx q" using inv by (simp add: queue_inv_def)
  then show ?thesis using True by (cases "max_jobs q") simp_all
next
  case False
  then show ?thesis
    using queued_slots_list [OF inv _ le0, of "max_jobs q"] inv by (auto simp: queue_inv_def)
qed

lemma drop_loop_result:
  assumes inv: "queue_inv q" and n: "num_queued q < max_jobs q"
  shows "drop_loop q f (map (\<lambda>j. (read_idx q + j) mod max_jobs q) [k..<num_queued q]) = (q', ev, r) \<Longrightarrow>
    (case r of Some i \<Rightarrow> \<exists>j. k \<le> j \<and> j < num_queued q \<and> qj_fence (ring q ! j) = f \<and> i = (read_idx q + j) mod max_jobs q \<and>
         q' = q\<lparr>jobs := (jobs q)[(read_idx q + j) mod max_jobs q := zero_job]\<rparr>
     | None \<Rightarrow> q' = q \<and> (\<forall>j. k \<le> j \<and> j < num_queued q \<longrightarrow> qj_fence (ring q ! j) \<noteq> f))"
proof (induction "num_queued q - k" arbitrary: k)
  case 0
  then show ?case by auto
next
  case (Suc m)
  then have k: "k < num_queued q" by linarith
  have nth: "ring q ! k = jobs q ! ((read_idx q + k) mod max_jobs q)" using ring_nth [OF inv] k n by simp
  have upt: "[k..<num_queued q] = k # [Suc k..<num_queued q]" using k by (rule upt_conv_Cons)
  show ?case
  proof (cases "qj_fence (ring q ! k) = f")
    case True
    then have "q' = q\<lparr>jobs := (jobs q)[(read_idx q + k) mod max_jobs q := zero_job]\<rparr>" "r = Some ((read_idx q + k) mod max_jobs q)"
      using Suc.prems nth upt by auto
    then show ?thesis using True k by (auto intro!: exI [of _ k])
  next
    case False
    then have "drop_loop q f (map (\<lambda>j. (read_idx q + j) mod max_jobs q) [Suc k..<num_queued q]) = (q', ev, r)"
      using Suc.prems nth upt by simp
    moreover have "m = num_queued q - Suc k" using Suc.hyps(2) by linarith
    ultimately have IH: "case r of Some i \<Rightarrow> \<exists>j. Suc k \<le> j \<and> j < num_queued q \<and> qj_fence (ring q ! j) = f \<and> i = (read_idx q + j) mod max_jobs q \<and>
         q' = q\<lparr>jobs := (jobs q)[(read_idx q + j) mod max_jobs q := zero_job]\<rparr>
     | None \<Rightarrow> q' = q \<and> (\<forall>j. Suc k \<le> j \<and> j < num_queued q \<longrightarrow> qj_fence (ring q ! j) \<noteq> f)"
      by (intro Suc.hyps(1))
    show ?thesis
    proof (cases r)
      case (Some i)
      with IH show ?thesis by (auto dest: Suc_leD)
    next
      case None
      have "qj_fence (ring q ! j) \<noteq> f" if "k \<le> j" "j < num_queued q" for j
        using IH None that \<open>qj_fence (ring q ! k) \<noteq> f\<close> by (cases "j = k") auto
      with IH None show ?thesis by simp
    qed
  qed
qed

lemma slot_distance_ring:
  assumes "j < max_jobs q" "read_idx q < max_jobs q"
  shows "slot_distance q ((read_idx q + j) mod max_jobs q) = j"
proof (cases "read_idx q + j < max_jobs q")
  case True
  then show ?thesis using assms by (simp add: slot_distance_def)
next
  case False
  then have "(read_idx q + j) mod max_jobs q = read_idx q + j - max_jobs q" using assms by (simp add: mod_if)
  then show ?thesis using assms False by (simp add: slot_distance_def)
qed

lemma drop_slot:
  assumes inv: "queue_inv q" and j: "j < num_queued q"
  defines "q' \<equiv> q\<lparr>jobs := (jobs q)[(read_idx q + j) mod max_jobs q := zero_job]\<rparr>"
  shows "queue_inv q'" "pending q' = (pending q)[j := zero_job]"
proof -
  have jm: "j < max_jobs q" using inv j by (simp add: queue_inv_def)
  have ring': "ring q' = (ring q)[j := zero_job]" using ring_update [OF inv jm] by (simp add: q'_def)
  show "queue_inv q'" using inv ring' j by (auto simp: queue_inv_def q'_def)
  show "pending q' = (pending q)[j := zero_job]"
    using ring' by (simp add: pending_def q'_def take_update_swap)
qed

lemma drain_loop_fields:
  "drain_loop q fs is = (q', fs') \<Longrightarrow> max_jobs q' = max_jobs q \<and> length (jobs q') = length (jobs q) \<and>
    num_threads q' = num_threads q \<and> q_threads q' = q_threads q \<and> write_idx q' = write_idx q \<and>
    q_global_data q' = q_global_data q \<and>
    (\<forall>f. fs' f \<longrightarrow> fs f \<or> (f \<noteq> NULL \<and> (\<exists>i\<in>set is. qj_fence (jobs q ! i) = f)))"
proof (induction q fs "is" rule: drain_loop.induct)
  case (2 q fs i "is")
  show ?case
  proof (cases "qj_job (jobs q ! i) \<noteq> NULL")
    case True
    let ?q = "q\<lparr>jobs := (jobs q)[i := (jobs q ! i)\<lparr>qj_job := NULL\<rparr>]\<rparr>"
    have "qj_fence (jobs ?q ! l) = qj_fence (jobs q ! l)" for l
      by (cases "l = i \<and> i < length (jobs q)") (auto simp: nth_list_update list_update_beyond)
    with "2.IH"(1) [OF refl True] "2.prems" True show ?thesis
      by (auto simp: Let_def queue_fence_signal_def split: if_splits)
  next
    case False
    with "2.IH"(2) [OF refl] "2.prems" show ?thesis by (auto simp: Let_def)
  qed
qed auto

text \<open>Every fence of a visited job is signalled by the drain.\<close>

lemma drain_loop_mono: "drain_loop q fs is = (q', fs') \<Longrightarrow> fs f \<Longrightarrow> fs' f"
  by (induction q fs "is" rule: drain_loop.induct)
     (auto simp: Let_def queue_fence_signal_def split: if_splits)

lemma drain_loop_signals:
  "drain_loop q fs is = (q', fs') \<Longrightarrow> distinct is \<Longrightarrow> i \<in> set is \<Longrightarrow> qj_job (jobs q ! i) \<noteq> NULL \<Longrightarrow>
    qj_fence (jobs q ! i) \<noteq> NULL \<Longrightarrow> fs' (qj_fence (jobs q ! i))"
proof (induction q fs "is" rule: drain_loop.induct)
  case (2 q fs k "is")
  show ?case
  proof (cases "i = k")
    case True
    with "2.prems" show ?thesis
      using drain_loop_mono by (fastforce simp: Let_def queue_fence_signal_def)
  next
    case False
    with "2.prems" "2.IH" show ?thesis by (auto simp: Let_def split: if_splits)
  qed
qed simp

subsection \<open>The queue provides the contract\<close>

definition queue_running :: "queue \<Rightarrow> bool" where
  "queue_running q \<longleftrightarrow> queue_inv q \<and> num_threads q \<noteq> 0 \<and> q_threads q \<noteq> NULL"

definition queue_accepts :: "queue \<Rightarrow> queue_job \<Rightarrow> bool" where
  "queue_accepts q j \<longleftrightarrow> qj_global_data j = q_global_data q"

text \<open>Adding with memory for a larger array; without it the assertion of \<^verbatim>\<open>queue_add_job\<close> fails (\<open>grow_jobs\<close>).\<close>

definition add_item :: "queue_job \<Rightarrow> queue \<Rightarrow> queue option" where
  "add_item j q =
     (case queue_add_job True (Some q) (\<lambda>_. False) (qj_job j) (qj_fence j) (qj_execute j) (qj_cleanup j) of
        Inr (Some q', _, True) \<Rightarrow> Some q' | _ \<Rightarrow> None)"

interpretation ring_queue: fifo queue_running queue_accepts pending add_item thread_take
proof
  fix q x assume q: "queue_running q" and x: "queue_accepts q x"
  then have x': "\<lparr>qj_job = qj_job x, qj_global_data = q_global_data q, qj_fence = qj_fence x,
      qj_execute = qj_execute x, qj_cleanup = qj_cleanup x\<rparr> = x"
    by (cases x) (simp add: queue_accepts_def)
  from q queue_add_job_result [of q "\<lambda>_. False" "qj_job x" "qj_fence x" "qj_execute x" "qj_cleanup x"]
  show "\<exists>q'. add_item x q = Some q' \<and> queue_running q' \<and> queue_accepts q' = queue_accepts q \<and>
      pending q' = pending q @ [x]"
    by (auto simp: queue_running_def add_item_def queue_accepts_def fun_eq_iff x')
next
  fix q assume q: "queue_running q" and "pending q \<noteq> []"
  then have "num_queued q \<noteq> 0" by (auto simp: pending_def)
  with q thread_take_result [of q "fst (thread_take q)" "snd (thread_take q)"]
  show "queue_running (snd (thread_take q)) \<and>
      pending q = fst (thread_take q) # pending (snd (thread_take q))"
    by (simp add: queue_running_def)
qed

subsection \<open>Invariants of the running system\<close>

definition live :: "queue_system \<Rightarrow> ptr multiset" where
  "live s = filter_mset (\<lambda>f. f \<noteq> NULL) (image_mset qj_fence (mset (outstanding s)))"

definition fence_inv :: "queue_system \<Rightarrow> bool" where
  "fence_inv s \<longleftrightarrow> (\<forall>f. count (live s) f \<le> 1) \<and> (\<forall>f. f \<in># live s \<longrightarrow> \<not> sys_fences s f \<and> DropSignalling f \<notin> set (drops s))"

fun executing :: "worker \<Rightarrow> queue_job list" where
  "executing (Executing j) = [j]"
| "executing _ = []"

fun executed :: "queue_event list \<Rightarrow> queue_job list" where
  "executed [] = []"
| "executed (Execute j i # es) = j # executed es"
| "executed (_ # es) = executed es"

definition exec_inv :: "queue_system \<Rightarrow> bool" where
  "exec_inv s \<longleftrightarrow> mset (executed (sys_log s)) + mset (concat (map executing (workers s))) =
     mset (filter (\<lambda>j. qj_job j \<noteq> NULL) (taken s))"

text \<open>The jobs started so far are the first accepted ones, in order, apart from dropped ones, which
  are started as empty jobs. Accepted jobs are forgotten only when the queue shuts down.\<close>

definition begun :: "nat set \<Rightarrow> queue_job list \<Rightarrow> queue_job list" where
  "begun D js = map (\<lambda>i. if i \<in> D then zero_job else js ! i) [0..<length js]"

definition order_inv :: "queue_system \<Rightarrow> bool" where
  "order_inv s \<longleftrightarrow> (\<exists>started rest. accepted s = started @ rest \<and>
     taken s @ pending (sys_queue s) = begun (dropped s) started \<and>
     (rest \<noteq> [] \<longrightarrow> num_threads (sys_queue s) = 0))"

text \<open>A job is dropped only when a client asked for it.\<close>

definition drop_inv :: "queue_system \<Rightarrow> bool" where
  "drop_inv s \<longleftrightarrow> (\<forall>i \<in> dropped s. i < length (accepted s) \<and> qj_fence (accepted s ! i) \<in> set (drop_requests s)) \<and>
     (\<forall>f. Locking f \<in> set (drops s) \<longrightarrow> f \<noteq> NULL \<and> f \<in> set (drop_requests s))"

lemma executed_append [simp]: "executed (es @ es') = executed es @ executed es'"
  by (induction es rule: executed.induct) auto

lemma mset_concat_update:
  "i < length ws \<Longrightarrow>
    mset (concat (map g (ws[i := w]))) + mset (g (ws ! i)) = mset (concat (map g ws)) + mset (g w)"
proof (induction ws arbitrary: i)
  case (Cons a ws)
  show ?case
  proof (cases i)
    case 0
    then show ?thesis by simp
  next
    case (Suc k)
    with Cons show ?thesis by (simp add: add.assoc)
  qed
qed simp



abbreviation job_fences :: "queue_job list \<Rightarrow> ptr multiset" where
  "job_fences js \<equiv> filter_mset (\<lambda>f. f \<noteq> NULL) (image_mset qj_fence (mset js))"


subsection \<open>What each step does to the queue\<close>

lemma queue_add_job_calloc:
  "queue_add_job ok (Some q) fs job fence execute cleanup = Inr r \<Longrightarrow>
    queue_add_job True (Some q) fs job fence execute cleanup = Inr r"
  by (cases ok) (auto simp: queue_add_job_def grow_jobs_def Let_def split: if_splits)

lemma queue_add_job_cases:
  assumes inv: "queue_inv q"
    and add: "queue_add_job ok (Some q) fs job fence execute cleanup = Inr (Some q', fs', added)"
  obtains (refused) "\<not> added" "q' = q" "fs' = fs"
  | (added) "added" "num_threads q \<noteq> 0" "queue_inv q'" "num_threads q' = num_threads q"
      "pending q' = pending q @ [\<lparr>qj_job = job, qj_global_data = q_global_data q, qj_fence = fence,
        qj_execute = execute, qj_cleanup = cleanup\<rparr>]"
      "fs' = (if fence \<noteq> NULL then fs(fence := False) else fs)"
proof (cases "num_threads q = 0 \<or> q_threads q = NULL")
  case True
  then show ?thesis using refused add by (auto simp: queue_add_job_def split: if_splits)
next
  case False
  then show ?thesis
    using added queue_add_job_result [OF inv, of fs job fence execute cleanup] queue_add_job_calloc [OF add]
    by auto
qed

lemma drop_section_cases:
  assumes inv: "queue_inv q" and drop: "drop_section q f = Some (q', ev, slot)"
  obtains (kept) "q' = q" "slot = None" "executed ev = []"
  | (dropped) j i where "j < length (pending q)" "qj_fence (pending q ! j) = f" "queue_inv q'"
      "pending q' = (pending q)[j := zero_job]" "slot = Some i" "slot_distance q i = j" "executed ev = []"
      "num_threads q' = num_threads q"
proof -
  let ?slots = "map (\<lambda>j. (read_idx q + j) mod max_jobs q) [0..<num_queued q]"
  let ?is = "if num_queued q = max_jobs q then [] else ?slots"
  have loop: "drop_loop q f ?is = (q', ev, slot)" using drop queued_slots_result [OF inv] by (simp add: drop_section_def)
  have exec_drop: "executed (fst (snd (drop_loop q f is))) = []" for "is"
    by (induction "is") auto
  have ev: "executed ev = []" using exec_drop [of ?is] loop by simp
  show ?thesis
  proof (cases "num_queued q = max_jobs q")
    case True
    then show ?thesis using kept loop ev by simp
  next
    case False
    then have n: "num_queued q < max_jobs q" using inv by (simp add: queue_inv_def)
    have d: "case slot of Some i \<Rightarrow> \<exists>j. 0 \<le> j \<and> j < num_queued q \<and> qj_fence (ring q ! j) = f \<and> i = (read_idx q + j) mod max_jobs q \<and>
         q' = q\<lparr>jobs := (jobs q)[(read_idx q + j) mod max_jobs q := zero_job]\<rparr>
     | None \<Rightarrow> q' = q \<and> (\<forall>j. 0 \<le> j \<and> j < num_queued q \<longrightarrow> qj_fence (ring q ! j) \<noteq> f)"
      by (rule drop_loop_result [OF inv n]) (use loop False in simp)
    show ?thesis
    proof (cases slot)
      case (Some i)
      with d obtain j where j: "j < num_queued q" "qj_fence (ring q ! j) = f" "i = (read_idx q + j) mod max_jobs q"
          "q' = q\<lparr>jobs := (jobs q)[(read_idx q + j) mod max_jobs q := zero_job]\<rparr>" by auto
      moreover have "length (pending q) = num_queued q" using inv n by (simp add: pending_def queue_inv_def)
      moreover have "pending q ! j = ring q ! j" using j(1) by (simp add: pending_def)
      moreover have "slot_distance q i = j" using j(1,3) n inv by (simp add: slot_distance_ring queue_inv_def)
      ultimately show ?thesis using dropped [of j i] drop_slot [OF inv j(1)] Some ev by simp
    next
      case None
      then show ?thesis using kept d ev by simp
    qed
  qed
qed

lemma thread_exit_cases:
  assumes inv: "queue_inv q" and ex: "thread_exit q fs = Some (q', fs')"
  obtains (others) "q' = q" "fs' = fs"
  | (last) "num_threads q = 0" "num_threads q' = 0" "queue_inv q'" "pending q' = []"
      "\<And>f. fs' f \<Longrightarrow> fs f \<or> f \<in># job_fences (pending q)"
proof (cases "num_threads q = 0")
  case False
  then show ?thesis using others ex by (simp add: thread_exit_def)
next
  case True
  let ?slots = "map (\<lambda>j. (read_idx q + j) mod max_jobs q) [0..<num_queued q]"
  let ?is = "if num_queued q = max_jobs q then [] else ?slots"
  obtain q1 fs1 where loop: "drain_loop q fs ?is = (q1, fs1)" by (cases "drain_loop q fs ?is")
  have q': "q' = q1\<lparr>read_idx := write_idx q1, num_queued := 0\<rparr>" "fs' = fs1"
    using ex True loop queued_slots_result [OF inv] by (simp_all add: thread_exit_def)
  note f = drain_loop_fields [OF loop]
  have w: "write_idx q < max_jobs q" using inv by (simp add: queue_inv_def)
  have "f \<in># job_fences (pending q)" if nf: "f \<noteq> NULL" "qj_fence (jobs q ! i) = f" and i: "i \<in> set ?is" for f i
  proof -
    obtain j where j: "j < num_queued q" "i = (read_idx q + j) mod max_jobs q"
      using i by (auto split: if_splits)
    have "j < max_jobs q" using j(1) inv by (simp add: queue_inv_def)
    then have "ring q ! j = jobs q ! i" using ring_nth [OF inv] j(2) by simp
    then have "pending q ! j = jobs q ! i" "j < length (pending q)"
      using j(1) inv \<open>j < max_jobs q\<close> by (simp_all add: pending_def queue_inv_def)
    then have "jobs q ! i \<in> set (pending q)" by (metis nth_mem)
    with nf show ?thesis by auto
  qed
  then have "\<And>f. fs' f \<Longrightarrow> fs f \<or> f \<in># job_fences (pending q)" using f q'(2) by blast
  moreover have "queue_inv q'" using f inv w True by (auto simp: queue_inv_def q')
  moreover have "pending q' = []" by (simp add: pending_def q')
  moreover have "num_threads q' = 0" using f True by (simp add: q')
  ultimately show ?thesis using last True by blast
qed

subsection \<open>The invariants hold in every reachable state\<close>

definition sys_inv :: "queue_system \<Rightarrow> bool" where
  "sys_inv s \<longleftrightarrow> queue_inv (sys_queue s) \<and> exec_inv s \<and> order_inv s \<and> drop_inv s"

lemma sys_inv_start:
  assumes "queue_create ok1 ok2 threads thread_ok maxj n data = Some q" and "0 < maxj"
  shows "sys_inv (queue_start q fs)" "fence_inv (queue_start q fs)"
proof -
  obtain m where q: "q = \<lparr>jobs = replicate maxj zero_job, max_jobs = maxj, num_queued = 0, write_idx = 0,
      read_idx = 0, q_threads = threads, num_threads = m, q_global_data = data\<rparr>"
    using assms(1) by (auto simp: queue_create_def split: if_splits)
  have "concat (map worker_job (replicate m Looping)) = []" "concat (map executing (replicate m Looping)) = []"
    by (induction m) auto
  then show "sys_inv (queue_start q fs)" "fence_inv (queue_start q fs)" using assms(2)
    by (simp_all add: sys_inv_def queue_inv_def fence_inv_def live_def outstanding_def pending_def
        exec_inv_def order_inv_def drop_inv_def begun_def queue_start_def q zero_job_def)
qed




lemma queue_inv_step:
  assumes "queue_step s s'" and "queue_inv (sys_queue s)"
  shows "queue_inv (sys_queue s')"
  using assms
proof cases
  case (add ok job fence execute cleanup q' fs added)
  from assms(2) add(2) show ?thesis by (cases rule: queue_add_job_cases) (simp_all add: add(1) assms(2))
next
  case (drop_locked k fence q' ev slot)
  from assms(2) drop_locked(4) show ?thesis by (cases rule: drop_section_cases) (simp_all add: drop_locked(1) assms(2))
next
  case (take i job q')
  then show ?thesis using thread_take_result(1) [OF assms(2) take(5,6)] by simp
next
  case (exit i q' fs)
  from assms(2) exit(4) show ?thesis by (cases rule: thread_exit_cases) (simp_all add: exit(1) assms(2))
next
  case kill
  then show ?thesis using assms(2) by (simp add: queue_inv_def queue_kill_threads_def)
qed (use assms(2) in simp_all)

lemma exec_inv_step:
  assumes "queue_step s s'" and "queue_inv (sys_queue s)" and inv: "exec_inv s"
  shows "exec_inv s'"
  using assms(1)
proof cases
  case (add ok job fence execute cleanup q' fs added)
  then show ?thesis using inv by (simp add: exec_inv_def)
next
  case (drop_locked k fence q' ev slot)
  from assms(2) drop_locked(4) have "executed ev = []" by (cases rule: drop_section_cases)
  then show ?thesis using inv by (simp add: exec_inv_def drop_locked(1))
next
  case (take i job q')
  then show ?thesis
    using mset_concat_update [OF take(2), of executing "if qj_job job \<noteq> NULL then Executing job else Looping"] inv
    by (auto simp: exec_inv_def)
next
  case (execute i job)
  then show ?thesis
    using mset_concat_update [OF execute(2), of executing "Signalling job"] inv
    by (simp add: exec_inv_def) (metis add_mset_add_single union_mset_add_mset_right)
next
  case (signal i job)
  then show ?thesis
    using mset_concat_update [OF signal(2), of executing "Cleaning job"] inv by (simp add: exec_inv_def)
next
  case (cleanup i job)
  then show ?thesis
    using mset_concat_update [OF cleanup(2), of executing Looping] inv by (simp add: exec_inv_def)
next
  case (leave i)
  then show ?thesis
    using mset_concat_update [OF leave(2), of executing Leaving] inv by (simp add: exec_inv_def)
next
  case (exit i q' fs)
  then show ?thesis
    using mset_concat_update [OF exit(2), of executing Exited] inv by (simp add: exec_inv_def)
qed (use inv in \<open>simp_all add: exec_inv_def\<close>)

lemma begun_nth: "i < length js \<Longrightarrow> begun D js ! i = (if i \<in> D then zero_job else js ! i)"
  by (simp add: begun_def)

lemma length_begun [simp]: "length (begun D js) = length js"
  by (simp add: begun_def)

lemma begun_drop: "i < length js \<Longrightarrow> begun (insert i D) js = (begun D js)[i := zero_job]"
  by (rule nth_equalityI) (auto simp: begun_nth nth_list_update)

lemma begun_append: "length js \<notin> D \<Longrightarrow> begun D (js @ [j]) = begun D js @ [j]"
  by (rule nth_equalityI) (auto simp: begun_nth nth_append less_Suc_eq)

lemma begun_take: "take n (begun D js) = begun D (take n js)"
  by (rule nth_equalityI) (auto simp: begun_nth)

lemma order_inv_same:
  assumes "order_inv s" and "accepted s' = accepted s" and "taken s' @ pending (sys_queue s') = taken s @ pending (sys_queue s)"
    and "num_threads (sys_queue s) = 0 \<Longrightarrow> num_threads (sys_queue s') = 0" and "dropped s' = dropped s"
  shows "order_inv s'"
  using assms unfolding order_inv_def by metis

text \<open>The position of a dropped slot among the accepted jobs.\<close>

lemma drop_position:
  assumes "order_inv s" "j < length (pending (sys_queue s))" "qj_fence (pending (sys_queue s) ! j) = f" "f \<noteq> NULL"
  shows "length (taken s) + j < length (accepted s)" "qj_fence (accepted s ! (length (taken s) + j)) = f"
proof -
  obtain started rest where o: "accepted s = started @ rest" "taken s @ pending (sys_queue s) = begun (dropped s) started"
    using assms(1) unfolding order_inv_def by blast
  let ?p = "length (taken s) + j"
  have p: "?p < length started" using arg_cong [OF o(2), of length] assms(2) by simp
  then show "?p < length (accepted s)" using o(1) by simp
  have "begun (dropped s) started ! ?p = pending (sys_queue s) ! j" using o(2) [symmetric] by (simp add: nth_append)
  then show "qj_fence (accepted s ! ?p) = f"
    using p assms(3,4) o(1) by (auto simp: begun_nth nth_append zero_job_def split: if_splits)
qed

lemma order_inv_step:
  assumes "queue_step s s'" and q: "queue_inv (sys_queue s)" and inv: "order_inv s" and di: "drop_inv s"
  shows "order_inv s'"
  using assms(1)
proof cases
  case (add ok job fence execute cleanup q' fs added)
  from q add(2) show ?thesis
  proof (cases rule: queue_add_job_cases)
    case refused
    then show ?thesis by (intro order_inv_same [OF inv]) (simp_all add: add(1))
  next
    case added
    obtain started rest where o: "accepted s = started @ rest"
        "taken s @ pending (sys_queue s) = begun (dropped s) started"
        "rest \<noteq> [] \<longrightarrow> num_threads (sys_queue s) = 0"
      using inv unfolding order_inv_def by blast
    then have r: "rest = []" using added(2) by blast
    let ?j = "\<lparr>qj_job = job, qj_global_data = q_global_data (sys_queue s), qj_fence = fence,
        qj_execute = execute, qj_cleanup = cleanup\<rparr>"
    have "length started \<notin> dropped s" using di o(1) r by (auto simp: drop_inv_def)
    then have "begun (dropped s) (started @ [?j]) = (taken s @ pending (sys_queue s)) @ [?j]"
      using o(2) by (simp add: begun_append)
    with o(1) r added show ?thesis
      unfolding order_inv_def by (intro exI [of _ "started @ [?j]"] exI [of _ "[]"]) (simp add: add(1))
  qed
next
  case (drop_locked k fence q' ev slot)
  from q drop_locked(4) show ?thesis
  proof (cases rule: drop_section_cases)
    case kept
    then show ?thesis by (intro order_inv_same [OF inv]) (simp_all add: drop_locked(1))
  next
    case (dropped j i)
    obtain started rest where o: "accepted s = started @ rest"
        "taken s @ pending (sys_queue s) = begun (dropped s) started"
        "rest \<noteq> [] \<longrightarrow> num_threads (sys_queue s) = 0"
      using inv unfolding order_inv_def by blast
    let ?p = "length (taken s) + j"
    have p: "?p < length started" using arg_cong [OF o(2), of length] dropped(1) by simp
    have "taken s @ (pending (sys_queue s))[j := zero_job] = (taken s @ pending (sys_queue s))[?p := zero_job]"
      by (simp add: list_update_append)
    then have "taken s @ (pending (sys_queue s))[j := zero_job] = begun (insert ?p (dropped s)) started"
      using o(2) begun_drop [OF p] by simp
    then show ?thesis
      using o(1,3) dropped(4-6,8) unfolding order_inv_def
      by (intro exI [of _ started] exI [of _ rest]) (simp add: drop_locked(1))
  qed
next
  case (take i job q')
  then show ?thesis
    using thread_take_result [OF q take(5,6)] by (intro order_inv_same [OF inv]) simp_all
next
  case (exit i q' fs)
  from q exit(4) show ?thesis
  proof (cases rule: thread_exit_cases)
    case others
    then show ?thesis by (intro order_inv_same [OF inv]) (simp_all add: exit(1))
  next
    case last
    obtain started rest where o: "accepted s = started @ rest"
        "taken s @ pending (sys_queue s) = begun (dropped s) started"
      using inv unfolding order_inv_def by blast
    let ?n = "length (taken s)"
    have "taken s = begun (dropped s) (take ?n started)"
      using arg_cong [OF o(2), of "take ?n"] by (simp add: begun_take)
    moreover have "accepted s = take ?n started @ (drop ?n started @ rest)" using o(1) by simp
    ultimately show ?thesis
      using last unfolding order_inv_def
      by (intro exI [of _ "take ?n started"] exI [of _ "drop ?n started @ rest"]) (simp add: exit(1))
  qed
next
  case kill
  then show ?thesis
    by (intro order_inv_same [OF inv]) (simp_all add: pending_def queue_kill_threads_def)
qed (rule order_inv_same [OF inv]; simp)+

lemma drop_inv_same:
  assumes "drop_inv s" "dropped s' = dropped s" "drop_requests s' = drop_requests s" "\<exists>js. accepted s' = accepted s @ js"
    "\<And>f. Locking f \<in> set (drops s') \<Longrightarrow> Locking f \<in> set (drops s)"
  shows "drop_inv s'"
  using assms by (fastforce simp: drop_inv_def nth_append)

lemma update_locking: "Locking f \<in> set (xs[k := x]) \<Longrightarrow> x = Locking f \<or> Locking f \<in> set xs"
  using set_update_subset_insert [of xs k x] by auto

lemma drop_inv_step:
  assumes "queue_step s s'" and q: "queue_inv (sys_queue s)" and o: "order_inv s" and inv: "drop_inv s"
  shows "drop_inv s'"
  using assms(1)
proof cases
  case (drop_begin fence)
  then show ?thesis using inv by (auto simp: drop_inv_def)
next
  case (drop_locked k fence q' ev slot)
  have f: "fence \<noteq> NULL" "fence \<in> set (drop_requests s)"
    using inv nth_mem [OF drop_locked(2)] drop_locked(3) by (auto simp: drop_inv_def)
  from q drop_locked(4) show ?thesis
  proof (cases rule: drop_section_cases)
    case kept
    then show ?thesis by (intro drop_inv_same [OF inv]) (auto simp: drop_locked(1) dest!: update_locking)
  next
    case (dropped j i)
    note p = drop_position [OF o dropped(1,2) f(1)]
    have "Locking g \<in> set (drops s)" if "Locking g \<in> set (drops s')" for g
      using that dropped(5) by (auto simp: drop_locked(1) dest!: update_locking)
    then show ?thesis using inv p f dropped(5,6) unfolding drop_inv_def by (auto simp: drop_locked(1))
  qed
qed (rule drop_inv_same [OF inv]; auto dest!: update_locking)+

lemma run_inv: "queue_run obeys s \<Longrightarrow> sys_inv s"
proof (induction rule: queue_run.induct)
  case (start ok1 ok2 threads thread_ok maxj n data q fs)
  then show ?case by (rule sys_inv_start)
next
  case (step s s')
  then show ?case
    using queue_inv_step exec_inv_step order_inv_step drop_inv_step by (auto simp: sys_inv_def)
qed


lemma begun_subset: "mset (filter (\<lambda>j. qj_job j \<noteq> NULL) (begun D js)) \<subseteq># mset js"
proof (induction js rule: rev_induct)
  case (snoc j js)
  have "begun D (js @ [j]) = begun D js @ [if length js \<in> D then zero_job else j]"
    by (rule nth_equalityI) (auto simp: begun_nth nth_append less_Suc_eq)
  then show ?case using snoc by (auto simp: zero_job_def intro: subset_mset.order_trans)
qed (simp add: begun_def)

subsection \<open>Properties of the job queue\<close>

text \<open>A queue of two slots and one worker.\<close>

definition small_queue :: queue where
  "small_queue = \<lparr>jobs = [zero_job, zero_job], max_jobs = 2, num_queued = 0, write_idx = 0, read_idx = 0,
     q_threads = 1, num_threads = 1, q_global_data = NULL\<rparr>"

definition some_job :: "ptr \<Rightarrow> queue_job" where
  "some_job p = \<lparr>qj_job = p, qj_global_data = NULL, qj_fence = p, qj_execute = 1, qj_cleanup = NULL\<rparr>"

lemma small_queue_create: "queue_create True True 1 (\<lambda>_. True) 2 1 NULL = Some small_queue"
  by (simp add: queue_create_def small_queue_def create_threads.simps numeral_2_eq_2)

lemma small_queue_running: "queue_running small_queue"
  using sys_inv_start [OF small_queue_create, of "\<lambda>_. False"]
  by (simp add: sys_inv_def queue_start_def queue_running_def) (simp add: small_queue_def)

lemma small_queue_reachable: "queue_reachable (queue_start small_queue fs)"
  by (rule queue_run.start [OF small_queue_create]) simp

text \<open>C4: on a queue with running workers, with memory available, adding any list of jobs succeeds without a failed
  assertion, the array growing as needed, and taking jobs then returns the queued ones and the new
  ones in the order in which they were added.\<close>

theorem queue_is_fifo:
  assumes "queue_running q" and "\<forall>j\<in>set js. qj_global_data j = q_global_data q"
  shows "\<exists>q'. enq_all add_item js q = Some q' \<and> queue_running q' \<and>
    fst (deq_n thread_take (length (pending q) + length js) q') = pending q @ js"
proof -
  have "\<forall>j\<in>set js. queue_accepts q j" using assms(2) by (simp add: queue_accepts_def)
  from ring_queue.enq_all_items [OF assms(1) this] ring_queue.enq_deq [OF assms(1) this]
  show ?thesis by auto
qed

theorem queue_is_fifo_witness:
  "\<exists>q'. enq_all add_item (map some_job [1, 2, 3, 4, 5]) small_queue = Some q' \<and>
     fst (deq_n thread_take 5 q') = map some_job [1, 2, 3, 4, 5]"
proof -
  let ?js = "map some_job [1, 2, 3, 4, 5]"
  have js: "\<forall>j\<in>set ?js. qj_global_data j = q_global_data small_queue"
    by (simp add: some_job_def small_queue_def)
  have p: "pending small_queue = []" by (simp add: pending_def small_queue_def)
  have n: "length (pending small_queue) + length ?js = 5" by (simp add: p)
  from queue_is_fifo [OF small_queue_running js] obtain q' where q':
    "enq_all add_item ?js small_queue = Some q'"
    "fst (deq_n thread_take (length (pending small_queue) + length ?js) q') = pending small_queue @ ?js"
    by (elim exE conjE)
  from q'(2) have "fst (deq_n thread_take 5 q') = ?js" unfolding n unfolding p append_Nil .
  with q'(1) show ?thesis by (intro exI conjI)
qed

text \<open>C5: whatever the interleaving of clients, workers and shutdown, the job that a worker took as the n-th is the n-th
  accepted one, unless that one was dropped; then it is the empty job, and some client had asked to drop its fence. None
  is lost, duplicated or overtaken.\<close>

theorem queue_starts_in_order:
  assumes "queue_reachable s" and "i < length (taken s)"
  shows "i < length (accepted s) \<and> taken s ! i = (if i \<in> dropped s then zero_job else accepted s ! i) \<and>
    (i \<in> dropped s \<longrightarrow> qj_fence (accepted s ! i) \<in> set (drop_requests s))"
proof -
  have inv: "sys_inv s" by (rule run_inv [OF assms(1)])
  obtain started rest where o: "accepted s = started @ rest"
      "taken s @ pending (sys_queue s) = begun (dropped s) started"
    using inv unfolding sys_inv_def order_inv_def by blast
  have i: "i < length started" using arg_cong [OF o(2), of length] assms(2) by simp
  have "taken s ! i = begun (dropped s) started ! i" using o(2) [symmetric] assms(2) by (simp add: nth_append)
  then show ?thesis using i o(1) inv by (auto simp: begun_nth nth_append sys_inv_def drop_inv_def)
qed

text \<open>A run with two jobs: the first is dropped before a worker takes it.\<close>

definition two_jobs :: queue_system where
  "two_jobs = (queue_start small_queue (\<lambda>_. True))\<lparr>
     sys_queue := small_queue\<lparr>jobs := [zero_job, zero_job], num_queued := 0, write_idx := 0, read_idx := 0\<rparr>,
     sys_fences := (\<lambda>_. True)(8 := False, 16 := False), workers := [Executing (some_job 16)], drops := [DropSignalling 8],
     accepted := [some_job 8, some_job 16], taken := [zero_job, some_job 16], dropped := {0}, drop_requests := [8]\<rparr>"

lemma small_queue_added:
  "queue_step (queue_start small_queue (\<lambda>_. True)) ((queue_start small_queue (\<lambda>_. True))\<lparr>
     sys_queue := small_queue\<lparr>jobs := [some_job 8, zero_job], num_queued := 1, write_idx := 1\<rparr>,
     sys_fences := (\<lambda>_. True)(8 := False), accepted := [some_job 8]\<rparr>)"
proof -
  have "queue_add_job True (Some small_queue) (\<lambda>_. True) 8 8 1 NULL =
      Inr (Some (small_queue\<lparr>jobs := [some_job 8, zero_job], num_queued := 1, write_idx := 1\<rparr>),
        (\<lambda>_. True)(8 := False), True)"
    by (simp add: queue_add_job_def small_queue_def put_job_def zero_job_def some_job_def
        queue_fence_reset_def Let_def)
  then show ?thesis
    using queue_step.add [of True "queue_start small_queue (\<lambda>_. True)" 8 8 1 NULL]
    by (fastforce simp: queue_start_def some_job_def small_queue_def)
qed

lemma small_queue_drops:
  assumes "s1 = (queue_start small_queue (\<lambda>_. True))\<lparr>
     sys_queue := small_queue\<lparr>jobs := [some_job 8, zero_job], num_queued := 1, write_idx := 1\<rparr>,
     sys_fences := (\<lambda>_. True)(8 := False), accepted := [some_job 8]\<rparr>"
  shows "queue_step\<^sup>*\<^sup>* s1 (s1\<lparr>sys_queue := small_queue\<lparr>num_queued := 1, write_idx := 1\<rparr>, drops := [DropSignalling 8], dropped := {0}, drop_requests := [8]\<rparr>)"
proof -
  let ?s2 = "s1\<lparr>drops := [Locking 8], drop_requests := [8]\<rparr>"
  have 1: "queue_step s1 ?s2" using queue_step.drop_begin [of 8 s1]
    by (simp add: assms queue_start_def small_queue_def queue_fence_is_signalled_def)
  have d: "drop_section (sys_queue ?s2) 8 = Some (small_queue\<lparr>num_queued := 1, write_idx := 1\<rparr>, [], Some 0)"
    by (simp add: drop_section_def assms small_queue_def some_job_def zero_job_def numeral_2_eq_2)
  have "queue_step ?s2 (s1\<lparr>sys_queue := small_queue\<lparr>num_queued := 1, write_idx := 1\<rparr>, drops := [DropSignalling 8], dropped := {0}, drop_requests := [8]\<rparr>)"
    using queue_step.drop_locked [of 0 ?s2 8, OF _ _ d] by (simp add: assms queue_start_def slot_distance_def small_queue_def)
  then show ?thesis using 1 by auto
qed

lemma small_queue_takes:
  assumes "s3 = (queue_start small_queue (\<lambda>_. True))\<lparr>
     sys_queue := small_queue\<lparr>num_queued := 1, write_idx := 1\<rparr>, sys_fences := (\<lambda>_. True)(8 := False), accepted := [some_job 8],
     drops := [DropSignalling 8], dropped := {0}, drop_requests := [8]\<rparr>"
  shows "queue_step\<^sup>*\<^sup>* s3 two_jobs"
proof -
  let ?q4 = "small_queue\<lparr>jobs := [zero_job, some_job 16], num_queued := 2, write_idx := 0\<rparr>"
  let ?s4 = "s3\<lparr>sys_queue := ?q4, sys_fences := (\<lambda>_. True)(8 := False, 16 := False), accepted := [some_job 8, some_job 16]\<rparr>"
  have "queue_add_job True (Some (sys_queue s3)) (sys_fences s3) 16 16 1 NULL = Inr (Some ?q4, (\<lambda>_. True)(8 := False, 16 := False), True)"
    by (simp add: queue_add_job_def assms small_queue_def put_job_def zero_job_def some_job_def
        queue_fence_reset_def Let_def)
  then have a: "queue_step s3 ?s4" using queue_step.add [of True s3 16 16 1 NULL]
    by (fastforce simp: assms queue_start_def some_job_def small_queue_def)
  let ?q5 = "?q4\<lparr>num_queued := 1, read_idx := 1\<rparr>"
  let ?s5 = "?s4\<lparr>sys_queue := ?q5, taken := [zero_job]\<rparr>"
  have "thread_take (sys_queue ?s4) = (zero_job, ?q5)" by (simp add: thread_take_def small_queue_def numeral_2_eq_2)
  then have b: "queue_step ?s4 ?s5" using queue_step.take [of 0 ?s4 zero_job ?q5]
    by (simp add: assms queue_start_def small_queue_def zero_job_def)
  have "thread_take (sys_queue ?s5) = (some_job 16, sys_queue two_jobs)"
    by (simp add: thread_take_def small_queue_def two_jobs_def numeral_2_eq_2)
  then have "queue_step ?s5 two_jobs" using queue_step.take [of 0 ?s5 "some_job 16" "sys_queue two_jobs"]
    by (simp add: assms queue_start_def small_queue_def some_job_def two_jobs_def)
  then show ?thesis using a b by (meson converse_rtranclp_into_rtranclp r_into_rtranclp)
qed

lemma steps_reachable: "queue_step\<^sup>*\<^sup>* s s' \<Longrightarrow> queue_reachable s \<Longrightarrow> queue_reachable s'"
  by (induction rule: rtranclp_induct) (auto intro: queue_run.step)

lemma two_jobs_reachable: "queue_reachable two_jobs"
proof -
  have "queue_step\<^sup>*\<^sup>* (queue_start small_queue (\<lambda>_. True)) two_jobs"
    using small_queue_added small_queue_drops [OF refl] small_queue_takes [OF refl] by (simp add: queue_start_def)
  then show ?thesis by (rule steps_reachable [OF _ small_queue_reachable])
qed

theorem queue_starts_in_order_witness:
  "taken two_jobs ! 0 = zero_job \<and> qj_fence (accepted two_jobs ! 0) \<in> set (drop_requests two_jobs) \<and>
   taken two_jobs ! 1 = accepted two_jobs ! 1 \<and> accepted two_jobs ! 1 = some_job 16"
  using queue_starts_in_order [OF two_jobs_reachable, of 0] queue_starts_in_order [OF two_jobs_reachable, of 1]
  by (simp add: two_jobs_def)

text \<open>No job is executed more often than it was accepted.\<close>

theorem queue_executes_at_most_once:
  assumes "queue_reachable s"
  shows "mset (executed (sys_log s)) \<subseteq># mset (accepted s)"
proof -
  have inv: "sys_inv s" by (rule run_inv [OF assms])
  obtain started rest where o: "accepted s = started @ rest"
      "taken s @ pending (sys_queue s) = begun (dropped s) started"
    using inv unfolding sys_inv_def order_inv_def by blast
  have "mset (executed (sys_log s)) \<subseteq># mset (filter (\<lambda>j. qj_job j \<noteq> NULL) (taken s))"
    using inv by (simp add: sys_inv_def exec_inv_def) (metis mset_subset_eq_add_left)
  also have "\<dots> \<subseteq># mset (filter (\<lambda>j. qj_job j \<noteq> NULL) (taken s @ pending (sys_queue s)))" by simp
  also have "\<dots> \<subseteq># mset started" unfolding o(2) by (rule begun_subset)
  also have "\<dots> \<subseteq># mset (accepted s)" by (simp add: o(1))
  finally show ?thesis .
qed

theorem queue_executes_at_most_once_witness:
  "mset (executed (sys_log two_jobs)) \<subseteq># mset (accepted two_jobs)"
  by (rule queue_executes_at_most_once [OF two_jobs_reachable])





text \<open>Without that rule it fails: a client adds a second job with a fence whose first job is still running, and the end of
  the first job signals the fence of the second.\<close>

lemma reused_fence_signalled_early:
  assumes "queue_reachable s" "i < length (workers s)" "workers s ! i = Signalling j" "qj_fence j \<noteq> NULL" "j' \<in> set (pending (sys_queue s))"
    "qj_fence j' = qj_fence j"
  shows "\<exists>s'. queue_reachable s' \<and> queue_fence_wait (qj_fence j') (sys_fences s') \<and> j' \<in> set (outstanding s')"
  using queue_run.step [OF assms(1) queue_step.signal [OF assms(2,3)]] assms(4-6)
  by (intro exI conjI) (assumption | simp add: queue_fence_wait_def queue_fence_signal_def outstanding_def)+

text \<open>C38: when the queue is shut down and is not full, the last worker to leave signals the fence of
  every job left in it, so that nobody waits for ever.\<close>

theorem shutdown_signals_fences:
  assumes "queue_inv q" and "num_threads q = 0" and "num_queued q < max_jobs q"
    and "j \<in> set (pending q)" and "qj_job j \<noteq> NULL" and "qj_fence j \<noteq> NULL"
  shows "\<exists>q' fs'. thread_exit q fs = Some (q', fs') \<and> num_queued q' = 0 \<and> queue_fence_wait (qj_fence j) fs'"
proof -
  let ?is = "map (\<lambda>j. (read_idx q + j) mod max_jobs q) [0..<num_queued q]"
  obtain q1 fs1 where loop: "drain_loop q fs ?is = (q1, fs1)" by (cases "drain_loop q fs ?is")
  obtain k where k: "k < num_queued q" "ring q ! k = j"
    using assms(1,4) by (auto simp: pending_def in_set_conv_nth queue_inv_def)
  let ?i = "(read_idx q + k) mod max_jobs q"
  have "jobs q ! ?i = j" using ring_nth [OF assms(1), of k] k assms(3) by simp
  moreover have "distinct ?is"
    using mod_add_left_eq_iff assms(3) by (fastforce simp: distinct_map inj_on_def)
  moreover have "?i \<in> set ?is" using k(1) by auto
  ultimately have "fs1 (qj_fence j)" using drain_loop_signals [OF loop, of ?i] assms(5,6) by simp
  then show ?thesis
    using queued_slots_result [OF assms(1)] assms(2,3) loop
    by (simp add: thread_exit_def queue_fence_wait_def)
qed

theorem shutdown_signals_fences_witness:
  "\<exists>q' fs'. thread_exit (small_queue\<lparr>jobs := [some_job 8, zero_job], num_queued := 1, write_idx := 1,
      num_threads := 0\<rparr>) (\<lambda>_. False) = Some (q', fs') \<and> num_queued q' = 0 \<and> queue_fence_wait 8 fs'"
  using shutdown_signals_fences [of "small_queue\<lparr>jobs := [some_job 8, zero_job], num_queued := 1,
      write_idx := 1, num_threads := 0\<rparr>" "some_job 8" "\<lambda>_. False"]
  by (simp add: queue_inv_def small_queue_def some_job_def pending_def)

text \<open>On a full queue the loops from the read to the write index run over no slot, because the two
  indices are then equal: a job cannot be dropped (its client is left to wait for it), and the
  shutdown empties the queue without signalling one fence.\<close>

theorem full_queue_is_skipped:
  assumes "queue_inv q" and "num_queued q = max_jobs q" and "q_threads q \<noteq> NULL" and "\<not> fs f"
  shows "queue_drop_job (Some q) fs f = Some (Some q, fs, [], False) \<and>
    thread_exit (queue_kill_threads q) fs =
      Some ((queue_kill_threads q)\<lparr>read_idx := write_idx q, num_queued := 0\<rparr>, fs) \<and>
    \<not> queue_fence_wait f fs"
proof -
  have "queue_inv (queue_kill_threads q)" using assms(1) by (simp add: queue_inv_def queue_kill_threads_def)
  from queued_slots_result [OF assms(1)] queued_slots_result [OF this] assms(2-4) show ?thesis
    by (simp add: queue_drop_job_def drop_section_def thread_exit_def queue_fence_is_signalled_def queue_fence_wait_def
        queue_kill_threads_def)
qed

theorem full_queue_is_skipped_witness:
  "queue_drop_job (Some (small_queue\<lparr>jobs := [some_job 8, some_job 16], num_queued := 2\<rparr>)) (\<lambda>_. False) 16 =
    Some (Some (small_queue\<lparr>jobs := [some_job 8, some_job 16], num_queued := 2\<rparr>), \<lambda>_. False, [], False)"
proof -
  let ?q = "small_queue\<lparr>jobs := [some_job 8, some_job 16], num_queued := 2\<rparr>"
  have "queue_inv ?q" unfolding queue_inv_def by (auto simp: small_queue_def)
  then show ?thesis
    by (rule conjunct1 [OF full_queue_is_skipped]) (simp_all add: small_queue_def)
qed

end
