(* ===== verification/Boxes.thy ===== *)
theory Boxes
  imports Prelude
begin

section \<open>Boxes (\<^verbatim>\<open>kywc/boxes.h\<close>)\<close>

text \<open>
  Rectangles with the top-left corner and the size, in integers. Coordinates of a layout are far
  from the bounds of \<^verbatim>\<open>int\<close>, and the arithmetic here is exact. Division by a literal truncates
  towards zero, as in the language.
\<close>

record kywc_box =
  box_x :: int
  box_y :: int
  box_width :: int
  box_height :: int

definition zero_box :: kywc_box where
  "zero_box = \<lparr>box_x = 0, box_y = 0, box_width = 0, box_height = 0\<rparr>"

definition kywc_box_adjust :: "kywc_box \<Rightarrow> int \<Rightarrow> int \<Rightarrow> int \<Rightarrow> int \<Rightarrow> kywc_box" where
  "kywc_box_adjust b dx dy dw dh =
     b\<lparr>box_x := box_x b + dx, box_y := box_y b + dy, box_width := box_width b + dw, box_height := box_height b + dh\<rparr>"

definition kywc_box_adjust_ex :: "kywc_box \<Rightarrow> int \<Rightarrow> int \<Rightarrow> int \<Rightarrow> int \<Rightarrow> kywc_box" where
  "kywc_box_adjust_ex b dx1 dy1 dx2 dy2 =
     b\<lparr>box_x := box_x b + dx1, box_y := box_y b + dy1,
       box_width := box_width b + (dx1 + dx2), box_height := box_height b + (dy1 + dy2)\<rparr>"

definition kywc_box_adjusted :: "kywc_box \<Rightarrow> int \<Rightarrow> int \<Rightarrow> int \<Rightarrow> int \<Rightarrow> kywc_box" where
  "kywc_box_adjusted b dx dy dw dh =
     \<lparr>box_x = box_x b + dx, box_y = box_y b + dy, box_width = box_width b + dw, box_height = box_height b + dh\<rparr>"

definition kywc_box_adjusted_ex :: "kywc_box \<Rightarrow> int \<Rightarrow> int \<Rightarrow> int \<Rightarrow> int \<Rightarrow> kywc_box" where
  "kywc_box_adjusted_ex b dx1 dy1 dx2 dy2 =
     \<lparr>box_x = box_x b + dx1, box_y = box_y b + dy1,
      box_width = box_width b + dx1 + dx2, box_height = box_height b + dy1 + dy2\<rparr>"

definition kywc_box_contains_point :: "kywc_box \<Rightarrow> int \<Rightarrow> int \<Rightarrow> bool" where
  "kywc_box_contains_point b x y \<longleftrightarrow>
     box_x b \<le> x \<and> x < box_x b + box_width b \<and> box_y b \<le> y \<and> y < box_y b + box_height b"

definition kywc_box_equal :: "kywc_box \<Rightarrow> kywc_box \<Rightarrow> bool" where
  "kywc_box_equal a b \<longleftrightarrow>
     box_x a = box_x b \<and> box_y a = box_y b \<and> box_width a = box_width b \<and> box_height a = box_height b"

text \<open>The points of a box, and one box inside another.\<close>

definition box_points :: "kywc_box \<Rightarrow> (int \<times> int) set" where
  "box_points b = {(x, y). kywc_box_contains_point b x y}"

definition box_inside :: "kywc_box \<Rightarrow> kywc_box \<Rightarrow> bool" where
  "box_inside a b \<longleftrightarrow> box_x b \<le> box_x a \<and> box_x a + box_width a \<le> box_x b + box_width b \<and>
     box_y b \<le> box_y a \<and> box_y a + box_height a \<le> box_y b + box_height b"

lemma kywc_box_equal_iff: "kywc_box_equal a b \<longleftrightarrow> a = b"
  by (cases a; cases b) (auto simp: kywc_box_equal_def)

lemma kywc_box_adjust_adjusted:
  "kywc_box_adjust b dx dy dw dh = kywc_box_adjusted b dx dy dw dh"
  "kywc_box_adjust_ex b dx dy dw dh = kywc_box_adjusted_ex b dx dy dw dh"
  by (cases b; simp add: kywc_box_adjust_def kywc_box_adjusted_def kywc_box_adjust_ex_def
      kywc_box_adjusted_ex_def)+

lemma box_inside_points: "box_inside a b \<Longrightarrow> box_points a \<subseteq> box_points b"
  by (auto simp: box_inside_def box_points_def kywc_box_contains_point_def)

lemma quarter_nonneg: "0 \<le> (n :: int) \<Longrightarrow> n sdiv 4 = n div 4"
  by (simp add: signed_divide_int_def sgn_if)

lemma half_nonneg: "0 \<le> (n :: int) \<Longrightarrow> n sdiv 2 = n div 2"
  by (simp add: signed_divide_int_def sgn_if)

end
