(* ===== verification/ViewState.thy ===== *)
theory ViewState
  imports Boxes
begin

section \<open>The state of a view (\<^verbatim>\<open>view/view.c\<close>, \<^verbatim>\<open>view/xdg_shell.c\<close>)\<close>

text \<open>
  A view's geometry and its maximized, fullscreen and tiled states change in two phases: an operation
  records a pending action and a pending geometry and asks the view's implementation to configure the
  client; the geometry changes when the client has acknowledged the configure and committed. This
  theory has the record of a view, the operations on one view, and the implementation for the
  xdg shell. The implementation's \<^verbatim>\<open>configure\<close> is an argument of the operations. Signals are
  recorded in the order in which they are emitted, requests to the client in the order in which they
  are sent. The visual effects, which do not change a view, are left out.
\<close>

datatype kywc_tile = KYWC_TILE_NONE | KYWC_TILE_TOP | KYWC_TILE_BOTTOM | KYWC_TILE_LEFT | KYWC_TILE_RIGHT
  | KYWC_TILE_TOP_LEFT | KYWC_TILE_BOTTOM_LEFT | KYWC_TILE_TOP_RIGHT | KYWC_TILE_BOTTOM_RIGHT
  | KYWC_TILE_CENTER | KYWC_TILE_ALL

datatype kywc_view_role = KYWC_VIEW_ROLE_NORMAL | KYWC_VIEW_ROLE_DESKTOP | KYWC_VIEW_ROLE_PANEL
  | KYWC_VIEW_ROLE_ONSCREENDISPLAY | KYWC_VIEW_ROLE_NOTIFICATION | KYWC_VIEW_ROLE_TOOLTIP
  | KYWC_VIEW_ROLE_CRITICALNOTIFICATION | KYWC_VIEW_ROLE_SYSTEMWINDOW | KYWC_VIEW_ROLE_INPUTPANEL
  | KYWC_VIEW_ROLE_LOGOUT | KYWC_VIEW_ROLE_SCREENLOCK | KYWC_VIEW_ROLE_SCREENLOCKNOTIFICATION
  | KYWC_VIEW_ROLE_WATERMARK | KYWC_VIEW_ROLE_APPLETPOPUP | KYWC_VIEW_ROLE_SWITCHER
  | KYWC_VIEW_ROLE_AUTHENTICATION

definition KYWC_EDGE_TOP :: u32 where "KYWC_EDGE_TOP = 1"
definition KYWC_EDGE_BOTTOM :: u32 where "KYWC_EDGE_BOTTOM = 2"
definition KYWC_EDGE_LEFT :: u32 where "KYWC_EDGE_LEFT = 4"
definition KYWC_EDGE_RIGHT :: u32 where "KYWC_EDGE_RIGHT = 8"

definition KYWC_SSD_NONE :: u32 where "KYWC_SSD_NONE = 0"
definition KYWC_SSD_TITLE :: u32 where "KYWC_SSD_TITLE = 1"

definition VIEW_ACTION_NOP :: u32 where "VIEW_ACTION_NOP = 0"
definition VIEW_ACTION_ACTIVATE :: u32 where "VIEW_ACTION_ACTIVATE = 1"
definition VIEW_ACTION_FULLSCREEN :: u32 where "VIEW_ACTION_FULLSCREEN = 2"
definition VIEW_ACTION_MAXIMIZE :: u32 where "VIEW_ACTION_MAXIMIZE = 4"
definition VIEW_ACTION_RESIZE :: u32 where "VIEW_ACTION_RESIZE = 8"
definition VIEW_ACTION_TILE :: u32 where "VIEW_ACTION_TILE = 16"
definition VIEW_ACTION_MINIMIZE :: u32 where "VIEW_ACTION_MINIMIZE = 32"
definition VIEW_ACTION_MOVE :: u32 where "VIEW_ACTION_MOVE = 64"

lemmas action_defs = VIEW_ACTION_NOP_def VIEW_ACTION_ACTIVATE_def VIEW_ACTION_FULLSCREEN_def
  VIEW_ACTION_MAXIMIZE_def VIEW_ACTION_RESIZE_def VIEW_ACTION_TILE_def VIEW_ACTION_MINIMIZE_def
  VIEW_ACTION_MOVE_def

definition view_action_change_size :: "u32 \<Rightarrow> u32" where
  "view_action_change_size action =
     action AND NOT (VIEW_ACTION_ACTIVATE OR VIEW_ACTION_MINIMIZE OR VIEW_ACTION_MOVE)"

subsection \<open>Records\<close>

text \<open>The layers of the scene, from the bottom to the top.\<close>

datatype layer = LAYER_DESKTOP | LAYER_WATERMARK | LAYER_BELOW | LAYER_NORMAL | LAYER_DOCK | LAYER_ABOVE
  | LAYER_NOTIFICATION | LAYER_ACTIVE | LAYER_SYSTEM_WINDOW | LAYER_SWITCHER | LAYER_POPUP
  | LAYER_INPUT_PANEL | LAYER_CRITICAL_NOTIFICATION | LAYER_LOGOUT | LAYER_UNMANAGED
  | LAYER_SCREEN_LOCK | LAYER_SCREEN_LOCK_NOTIFICATION | LAYER_ON_SCREEN_DISPLAY

text \<open>Where the tree of a view hangs: below a proxy of the view, in a layer of a workspace, or in a layer
  of the scene.\<close>

datatype scene_parent = ProxyTree ptr | WorkspaceTree ptr layer | LayerTree layer

record kywc_view =
  role :: kywc_view_role
  geometry :: kywc_box
  off_x :: int
  off_y :: int
  off_width :: int
  off_height :: int
  padding_top :: int
  padding_bottom :: int
  padding_left :: int
  padding_right :: int
  min_width :: int
  min_height :: int
  max_width :: int
  max_height :: int
  ssd :: u32
  has_initial_position :: bool
  has_round_corner :: bool
  unconstrained :: bool
  mapped :: bool
  minimized :: bool
  maximized :: bool
  fullscreen :: bool
  activated :: bool
  tiled :: kywc_tile
  modal :: bool
  kept_above :: bool
  kept_below :: bool
  sticky :: bool
  minimizable :: bool
  maximizable :: bool
  fullscreenable :: bool
  closeable :: bool
  movable :: bool
  resizable :: bool
  activatable :: bool
  focusable :: bool
  title :: "string option"
  app_id :: "string option"

record view_configure_state =
  action :: u32
  p_geometry :: kywc_box
  configure_serial :: u32
  configure_action :: u32
  configure_geometry :: kywc_box
  configure_timeout :: bool

datatype view_signal = SigMaximize | SigMinimize | SigFullscreen | SigTile | SigActivate
  | SigCapabilities | SigTitle | SigAppId | SigPosition | SigSize | SigDecoration | SigOutput ptr
  | SigWorkspace | SigParent | SigIconUpdate | SigApplicationMenu | SigMap | SigUnmap | SigPremap
  | SigDestroy | SigWorkspaceEnter ptr | SigWorkspaceLeave ptr

datatype xdg_request = SetActivated bool | SetFullscreen bool | SetMaximized bool | SetTiled u32
  | SetSize int int

record view =
  base :: kywc_view
  v_parent :: ptr
  v_children :: "ptr list"
  current_proxy :: ptr
  v_proxies :: "ptr list"
  tree_parent :: scene_parent
  tree_enabled :: bool
  v_output :: ptr
  saved_geometry :: kywc_box
  v_pending :: view_configure_state
  icon_name :: "string option"
  icon :: ptr
  menu_service_name :: "string option"
  menu_object_path :: "string option"
  current_resize_edges :: u32
  minimized_when_show_desktop :: bool
  minimized_when_show_active_only :: bool
  no_focus_on_map :: bool
  has_buffer :: bool
  corner_radius :: "int \<times> int \<times> int \<times> int"
  emitted :: "view_signal list"
  sent :: "xdg_request list"

record wm_output =
  out_geometry :: kywc_box
  usable_area :: kywc_box
  out_enabled :: bool
  out_destroying :: bool

text \<open>What the view code reads of the outputs and of the theme. The output at a point is the answer
  of the output layout of wlroots.\<close>

record output_env =
  get_output :: "ptr \<Rightarrow> wm_output"
  output_at_point :: "int \<Rightarrow> int \<Rightarrow> ptr"
  fallback_output :: ptr
  theme_corner_radius :: int
  csd_round_corner :: bool

definition emit :: "view_signal \<Rightarrow> view \<Rightarrow> view" where
  "emit sig v = v\<lparr>emitted := emitted v @ [sig]\<rparr>"

definition upd_base :: "(kywc_view \<Rightarrow> kywc_view) \<Rightarrow> view \<Rightarrow> view" where
  "upd_base f v = v\<lparr>base := f (base v)\<rparr>"

definition upd_pending :: "(view_configure_state \<Rightarrow> view_configure_state) \<Rightarrow> view \<Rightarrow> view" where
  "upd_pending f v = v\<lparr>v_pending := f (v_pending v)\<rparr>"

definition add_action :: "u32 \<Rightarrow> view \<Rightarrow> view" where
  "add_action a = upd_pending (\<lambda>p. p\<lparr>action := action p OR a\<rparr>)"

definition clear_action :: "u32 \<Rightarrow> view \<Rightarrow> view" where
  "clear_action a = upd_pending (\<lambda>p. p\<lparr>action := action p AND NOT a\<rparr>)"

definition set_pending_geometry :: "kywc_box \<Rightarrow> view \<Rightarrow> view" where
  "set_pending_geometry geo = upd_pending (\<lambda>p. p\<lparr>p_geometry := geo\<rparr>)"

subsection \<open>Output, position and size\<close>

definition view_update_output :: "output_env \<Rightarrow> view \<Rightarrow> view" where
  "view_update_output env v =
     (if \<not> mapped (base v) \<and> v_output v \<noteq> NULL then v
      else
        let geo = geometry (base v);
            lx = (if mapped (base v) then box_x geo + box_width geo sdiv 2 else 0);
            ly = (if mapped (base v) then box_y geo + box_height geo sdiv 2 else 0);
            old = v_output v;
            out = get_output env old;
            new = (if old = NULL \<or> out_destroying out \<or> \<not> out_enabled out \<or>
                      \<not> kywc_box_contains_point (out_geometry out) lx ly
                   then output_at_point env lx ly else old);
            new = (if new = NULL then fallback_output env else new);
            v = v\<lparr>v_output := new\<rparr>
        in if old \<noteq> new then emit (SigOutput old) v else v)"

definition view_handle_output_destroy :: "output_env \<Rightarrow> view \<Rightarrow> view" where
  "view_handle_output_destroy env v = view_update_output env (v\<lparr>v_output := NULL\<rparr>)"

definition view_helper_move :: "output_env \<Rightarrow> view \<Rightarrow> int \<Rightarrow> int \<Rightarrow> view" where
  "view_helper_move env v x y =
     (let geo = geometry (base v);
          changed = (box_x geo \<noteq> x \<or> box_y geo \<noteq> y);
          v = upd_base (\<lambda>b. b\<lparr>geometry := geo\<lparr>box_x := x, box_y := y\<rparr>\<rparr>) v;
          v = view_update_output env v
      in if changed then emit SigPosition v else v)"

definition view_update_size :: "output_env \<Rightarrow> view \<Rightarrow> int \<Rightarrow> int \<Rightarrow> int \<Rightarrow> int \<Rightarrow> int \<Rightarrow> int \<Rightarrow> view" where
  "view_update_size env v width height minw minh maxw maxh =
     (let v = (if min_width (base v) \<noteq> minw \<or> min_height (base v) \<noteq> minh
               then upd_base (\<lambda>b. b\<lparr>min_width := minw, min_height := minh\<rparr>) v else v);
          v = (if max_width (base v) \<noteq> maxw \<or> max_height (base v) \<noteq> maxh
               then upd_base (\<lambda>b. b\<lparr>max_width := maxw, max_height := maxh\<rparr>) v else v)
      in if box_width (geometry (base v)) \<noteq> width \<or> box_height (geometry (base v)) \<noteq> height
         then emit SigSize (view_update_output env
                (upd_base (\<lambda>b. b\<lparr>geometry := (geometry b)\<lparr>box_width := width, box_height := height\<rparr>\<rparr>) v))
         else v)"

subsection \<open>Tiled geometry\<close>

definition view_get_tiled_geometry :: "output_env \<Rightarrow> view \<Rightarrow> ptr \<Rightarrow> kywc_tile \<Rightarrow> kywc_box" where
  "view_get_tiled_geometry env v kywc_output tile =
     (let usable = usable_area (get_output env kywc_output); b = base v;
          half_width = box_width usable sdiv 2;
          half_height = box_height usable sdiv 2;
          use_min_width = half_width < min_width b;
          use_min_height = half_height < min_height b;
          left = box_x usable + off_x b;
          top = box_y usable + off_y b;
          right = (if use_min_width
                   then box_x usable + box_width usable - min_width b - (off_width b - off_x b)
                   else box_x usable + half_width + off_x b);
          bottom = (if use_min_height
                    then box_y usable + box_height usable - min_height b - (off_height b - off_y b)
                    else box_y usable + half_height + off_y b);
          full_w = box_width usable - off_width b;
          full_h = box_height usable - off_height b;
          half_w = (if use_min_width then min_width b else half_width - off_width b);
          half_h = (if use_min_height then min_height b else half_height - off_height b)
      in case tile of
           KYWC_TILE_NONE \<Rightarrow> saved_geometry v
         | KYWC_TILE_TOP \<Rightarrow> \<lparr>box_x = left, box_y = top, box_width = full_w, box_height = half_h\<rparr>
         | KYWC_TILE_BOTTOM \<Rightarrow> \<lparr>box_x = left, box_y = bottom, box_width = full_w, box_height = half_h\<rparr>
         | KYWC_TILE_LEFT \<Rightarrow> \<lparr>box_x = left, box_y = top, box_width = half_w, box_height = full_h\<rparr>
         | KYWC_TILE_RIGHT \<Rightarrow> \<lparr>box_x = right, box_y = top, box_width = half_w, box_height = full_h\<rparr>
         | KYWC_TILE_TOP_LEFT \<Rightarrow> \<lparr>box_x = left, box_y = top, box_width = half_w, box_height = half_h\<rparr>
         | KYWC_TILE_BOTTOM_LEFT \<Rightarrow> \<lparr>box_x = left, box_y = bottom, box_width = half_w, box_height = half_h\<rparr>
         | KYWC_TILE_TOP_RIGHT \<Rightarrow> \<lparr>box_x = right, box_y = top, box_width = half_w, box_height = half_h\<rparr>
         | KYWC_TILE_BOTTOM_RIGHT \<Rightarrow> \<lparr>box_x = right, box_y = bottom, box_width = half_w, box_height = half_h\<rparr>
         | KYWC_TILE_CENTER \<Rightarrow>
             \<lparr>box_x = (if use_min_width
                       then box_x usable + half_width - min_width b sdiv 2 - (off_width b - off_x b)
                       else box_x usable + box_width usable sdiv 4 + off_x b),
              box_y = (if use_min_height
                       then box_y usable + half_height - min_height b sdiv 2 - (off_height b - off_y b)
                       else box_y usable + box_height usable sdiv 4 + off_y b),
              box_width = half_w, box_height = half_h\<rparr>
         | KYWC_TILE_ALL \<Rightarrow> \<lparr>box_x = left, box_y = top, box_width = full_w, box_height = full_h\<rparr>)"

text \<open>The position of a view carried over from one output area to another. The argument is the value of
  \<^verbatim>\<open>round(v * ((double)dst / src))\<close> in the floating-point arithmetic of the machine.\<close>

definition fix_coordinate :: "(int \<Rightarrow> int \<Rightarrow> int \<Rightarrow> int) \<Rightarrow> int \<Rightarrow> int \<Rightarrow> int \<Rightarrow> int \<Rightarrow> int \<Rightarrow> int \<Rightarrow> int \<Rightarrow> int" where
  "fix_coordinate round_scale p len off sp slen dp dlen =
     (if sp = p then dp + off
      else if sp + slen = p + len then dp + dlen - len + off
      else round_scale (max (p - sp) 0) dlen slen + dp + off)"

definition view_fix_geometry_position ::
  "(int \<Rightarrow> int \<Rightarrow> int \<Rightarrow> int) \<Rightarrow> view \<Rightarrow> kywc_box \<Rightarrow> kywc_box \<Rightarrow> kywc_box \<Rightarrow> kywc_box" where
  "view_fix_geometry_position round_scale v geo src_box dst_box =
     (let b = base v;
          x = box_x geo - off_x b; y = box_y geo - off_y b;
          w = box_width geo + off_width b; h = box_height geo + off_height b
      in geo\<lparr>box_x := fix_coordinate round_scale x w (off_x b) (box_x src_box) (box_width src_box)
                        (box_x dst_box) (box_width dst_box),
             box_y := fix_coordinate round_scale y h (off_y b) (box_y src_box) (box_height src_box)
                        (box_y dst_box) (box_height dst_box)\<rparr>)"

subsection \<open>Round corners, icon, title, menu\<close>

definition view_update_round_corner :: "output_env \<Rightarrow> view \<Rightarrow> view" where
  "view_update_round_corner env v =
     (let b = base v in
      if \<not> mapped b then v
      else if \<not> has_buffer v then v
      else if \<not> has_round_corner b then v\<lparr>corner_radius := (0, 0, 0, 0)\<rparr>
      else
        let need_corner = (\<not> maximized b \<and> \<not> fullscreen b \<and> tiled b = KYWC_TILE_NONE);
            need_corner = (if \<not> csd_round_corner env then need_corner \<and> ssd b \<noteq> KYWC_SSD_NONE else need_corner);
            need_top_corner = (need_corner \<and> ssd b AND KYWC_SSD_TITLE = 0);
            all = (if need_corner then theme_corner_radius env else 0);
            top = (if need_top_corner then theme_corner_radius env else 0)
        in v\<lparr>corner_radius := (all, top, all, top)\<rparr>)"

definition view_set_icon :: "(string option \<Rightarrow> ptr) \<Rightarrow> view \<Rightarrow> view" where
  "view_set_icon theme_icon_from_app_id v =
     (let name = (if icon_name v \<noteq> None then icon_name v else app_id (base v));
          old = icon v;
          v = v\<lparr>icon := theme_icon_from_app_id name\<rparr>
      in if old \<noteq> icon v then emit SigIconUpdate v else v)"

definition view_set_title :: "view \<Rightarrow> string option \<Rightarrow> view" where
  "view_set_title v t = emit SigTitle (upd_base (\<lambda>b. b\<lparr>title := t\<rparr>) v)"

definition view_set_app_id :: "(string option \<Rightarrow> ptr) \<Rightarrow> view \<Rightarrow> string option \<Rightarrow> view" where
  "view_set_app_id theme_icon_from_app_id v new_id =
     (let v = (if mapped (base v) \<and> icon_name v = None then view_set_icon theme_icon_from_app_id v else v)
      in emit SigAppId (upd_base (\<lambda>b. b\<lparr>app_id := new_id\<rparr>) v))"

definition view_set_application_menu :: "bool \<Rightarrow> bool \<Rightarrow> view \<Rightarrow> string option \<Rightarrow> string option \<Rightarrow> view" where
  "view_set_application_menu strdup_ok1 strdup_ok2 v service_name object_path =
     (if menu_service_name v = service_name \<and> menu_object_path v = object_path then v
      else if (service_name \<noteq> None \<and> \<not> strdup_ok1) \<or> (object_path \<noteq> None \<and> \<not> strdup_ok2) then v
      else emit SigApplicationMenu
             (v\<lparr>menu_service_name := service_name, menu_object_path := object_path\<rparr>))"

definition view_set_decoration :: "output_env \<Rightarrow> bool \<Rightarrow> view \<Rightarrow> u32 \<Rightarrow> view" where
  "view_set_decoration env no_titlebar v s =
     (let s = (if no_titlebar then s AND NOT KYWC_SSD_TITLE else s) in
      if ssd (base v) = s then v
      else emit SigDecoration (view_update_round_corner env (upd_base (\<lambda>b. b\<lparr>ssd := s\<rparr>) v)))"

definition view_set_icon_name :: "(string option \<Rightarrow> ptr) \<Rightarrow> view \<Rightarrow> string option \<Rightarrow> view" where
  "view_set_icon_name theme_icon_from_app_id v name =
     (if icon_name v = name then v
      else view_set_icon theme_icon_from_app_id (v\<lparr>icon_name := name\<rparr>))"

subsection \<open>Configure requests and their acknowledgement\<close>

definition view_configure :: "view \<Rightarrow> u32 \<Rightarrow> view" where
  "view_configure v serial =
     (let v = upd_pending (\<lambda>p. p\<lparr>configure_serial := serial,
                configure_action := configure_action p OR action p,
                configure_geometry := p_geometry p\<rparr>) v;
          v = upd_pending (\<lambda>p. p\<lparr>action := VIEW_ACTION_NOP, p_geometry := geometry (base v)\<rparr>) v
      in if serial = 0 then v else upd_pending (\<lambda>p. p\<lparr>configure_timeout := True\<rparr>) v)"

definition view_configured :: "output_env \<Rightarrow> view \<Rightarrow> view" where
  "view_configured env v =
     (let a = configure_action (v_pending v);
          v = (if a AND VIEW_ACTION_FULLSCREEN \<noteq> 0 then emit SigFullscreen v else v);
          v = (if a AND VIEW_ACTION_MAXIMIZE \<noteq> 0 then emit SigMaximize v else v);
          v = (if a AND VIEW_ACTION_TILE \<noteq> 0 then emit SigTile v else v);
          v = (if a AND (VIEW_ACTION_FULLSCREEN OR VIEW_ACTION_TILE OR VIEW_ACTION_MAXIMIZE) \<noteq> 0
               then view_update_round_corner env v else v)
      in upd_pending (\<lambda>p. p\<lparr>configure_timeout := False, configure_serial := 0,
           configure_action := VIEW_ACTION_NOP, configure_geometry := zero_box, p_geometry := zero_box\<rparr>) v)"

text \<open>Where the window is moved when the client has not (yet) taken the size asked for while the user
  resizes it by its left or top edge.\<close>

definition resize_position :: "view \<Rightarrow> int \<times> int" where
  "resize_position v =
     (let p = configure_geometry (v_pending v); cur = geometry (base v); edges = current_resize_edges v
      in (if edges AND KYWC_EDGE_LEFT \<noteq> 0 then box_x p + (box_width p - box_width cur) else box_x p,
          if edges AND KYWC_EDGE_TOP \<noteq> 0 then box_y p + (box_height p - box_height cur) else box_y p))"

definition view_handle_configure_timeout :: "output_env \<Rightarrow> view \<Rightarrow> view" where
  "view_handle_configure_timeout env v =
     (let a = configure_action (v_pending v); p = configure_geometry (v_pending v);
          (x, y) = (if a AND VIEW_ACTION_RESIZE \<noteq> 0 then resize_position v else (box_x p, box_y p));
          v = (if view_action_change_size a \<noteq> 0 then view_helper_move env v x y else v)
      in view_configured env v)"

text \<open>The implementation for the xdg shell. The serial is the one wlroots returns for the size request;
  \<^term>\<open>None\<close> is a failed assertion.\<close>

definition xdg_direct_actions :: "output_env \<Rightarrow> view \<Rightarrow> view" where
  "xdg_direct_actions env v =
     (let v = (if action (v_pending v) AND VIEW_ACTION_MINIMIZE \<noteq> 0
               then clear_action VIEW_ACTION_MINIMIZE v else v);
          v = (if action (v_pending v) AND VIEW_ACTION_ACTIVATE \<noteq> 0
               then (clear_action VIEW_ACTION_ACTIVATE v)\<lparr>sent := sent v @ [SetActivated (activated (base v))]\<rparr>
               else v)
      in if action (v_pending v) AND VIEW_ACTION_MOVE \<noteq> 0
         then let v = clear_action VIEW_ACTION_MOVE v in
              if view_action_change_size (configure_action (v_pending v)) = 0
              then view_helper_move env v (box_x (p_geometry (v_pending v))) (box_y (p_geometry (v_pending v)))
              else v
         else v)"

definition xdg_size_requests :: "view \<Rightarrow> xdg_request list" where
  "xdg_size_requests v =
     (let a = action (v_pending v); b = base v; p = p_geometry (v_pending v)
      in (if a AND VIEW_ACTION_FULLSCREEN \<noteq> 0 then [SetFullscreen (fullscreen b)] else [])
         @ (if a AND VIEW_ACTION_MAXIMIZE \<noteq> 0 then [SetMaximized (maximized b)] else [])
         @ (if a AND VIEW_ACTION_TILE \<noteq> 0
            then [SetTiled (if tiled b \<noteq> KYWC_TILE_NONE then 0xf else 0)] else [])
         @ [SetSize (box_width p) (box_height p)])"

definition xdg_view_configure :: "output_env \<Rightarrow> u32 \<Rightarrow> view \<Rightarrow> view option" where
  "xdg_view_configure env serial v =
     (let v = xdg_direct_actions env v; a = action (v_pending v)
      in if a = VIEW_ACTION_NOP then Some v
         else if view_action_change_size a = 0 then None
         else Some (view_configure (v\<lparr>sent := sent v @ xdg_size_requests v\<rparr>) serial))"

text \<open>What a commit of the client brings: the window geometry of the surface, the size of the surface,
  the size limits and the serial of the last configure the client has acknowledged.\<close>

record xdg_commit =
  initial_commit :: bool
  surface_mapped :: bool
  window_geometry :: kywc_box
  surface_width :: int
  surface_height :: int
  cm_min_width :: int
  cm_min_height :: int
  cm_max_width :: int
  cm_max_height :: int
  acked_serial :: u32

definition xdg_view_update_geometry :: "output_env \<Rightarrow> xdg_commit \<Rightarrow> view \<Rightarrow> view" where
  "xdg_view_update_geometry env c v =
     (let geo = window_geometry c;
          nogeo = (box_width geo = 0 \<or> box_height geo = 0);
          width = (if nogeo then surface_width c else box_width geo);
          height = (if nogeo then surface_height c else box_height geo);
          v = view_update_size env v width height (cm_min_width c) (cm_min_height c) (cm_max_width c) (cm_max_height c)
      in upd_base (\<lambda>b. b\<lparr>padding_left := box_x geo, padding_right := surface_width c - box_x geo - width,
           padding_top := box_y geo, padding_bottom := surface_height c - box_y geo - height\<rparr>) v)"

definition xdg_view_handle_commit :: "output_env \<Rightarrow> xdg_commit \<Rightarrow> view \<Rightarrow> view option" where
  "xdg_view_handle_commit env c v =
     (if initial_commit c then Some (v\<lparr>sent := sent v @ [SetSize 0 0]\<rparr>)
      else if \<not> surface_mapped c then Some v
      else
        let v = xdg_view_update_geometry env c v;
            pending_action = configure_action (v_pending v);
            pending_serial = configure_serial (v_pending v)
        in if pending_action = VIEW_ACTION_NOP \<and> pending_serial = 0 then Some v
           else if view_action_change_size pending_action = 0 then None
           else
             let p = configure_geometry (v_pending v);
                 wobble = (acked_serial c \<le> pending_serial \<and> pending_action AND VIEW_ACTION_RESIZE \<noteq> 0);
                 (x, y) = (if wobble then resize_position v else (box_x p, box_y p));
                 v = (if wobble then view_helper_move env v x y else v)
             in Some (if pending_serial \<le> acked_serial c
                      then view_configured env (view_helper_move env v x y) else v))"

subsection \<open>Changing the state of a view\<close>

type_synonym configure_impl = "(view \<Rightarrow> view option) option"

text \<open>Calling the implementation, when the view is mapped and the implementation has the function.\<close>

definition call_configure :: "configure_impl \<Rightarrow> view \<Rightarrow> view option" where
  "call_configure impl v =
     (if mapped (base v) then case impl of None \<Rightarrow> Some v | Some configure \<Rightarrow> configure v else Some v)"

definition view_do_move :: "configure_impl \<Rightarrow> view \<Rightarrow> int \<Rightarrow> int \<Rightarrow> view option" where
  "view_do_move impl v x y =
     call_configure impl
       (upd_pending (\<lambda>p. p\<lparr>p_geometry := (p_geometry p)\<lparr>box_x := x, box_y := y\<rparr>\<rparr>)
          (add_action VIEW_ACTION_MOVE v))"

definition view_do_resize :: "configure_impl \<Rightarrow> view \<Rightarrow> kywc_box \<Rightarrow> view option" where
  "view_do_resize impl v geo =
     call_configure impl (set_pending_geometry geo (add_action VIEW_ACTION_RESIZE v))"

definition view_do_tiled :: "output_env \<Rightarrow> configure_impl \<Rightarrow> view \<Rightarrow> kywc_tile \<Rightarrow> ptr \<Rightarrow> view option" where
  "view_do_tiled env impl v tile kywc_output =
     (if tiled (base v) = tile \<and> (kywc_output = NULL \<or> kywc_output = v_output v) then Some v
      else
        let geo = view_get_tiled_geometry env v (if kywc_output \<noteq> NULL then kywc_output else v_output v) tile;
            v = (if tiled (base v) = KYWC_TILE_NONE \<and> tile \<noteq> KYWC_TILE_NONE \<and> \<not> maximized (base v)
                 then v\<lparr>saved_geometry := geometry (base v)\<rparr> else v);
            v = (if maximized (base v)
                 then upd_base (\<lambda>b. b\<lparr>maximized := False\<rparr>) (add_action VIEW_ACTION_MAXIMIZE v) else v);
            v = upd_base (\<lambda>b. b\<lparr>tiled := tile\<rparr>) v;
            v = set_pending_geometry geo (add_action VIEW_ACTION_TILE v)
        in call_configure impl v)"

definition view_do_maximized :: "output_env \<Rightarrow> configure_impl \<Rightarrow> view \<Rightarrow> bool \<Rightarrow> ptr \<Rightarrow> view option" where
  "view_do_maximized env impl v want kywc_output =
     (if tiled (base v) = KYWC_TILE_NONE \<and> maximized (base v) = want \<and>
         (kywc_output = NULL \<or> kywc_output = v_output v) then Some v
      else
        let geo = (if want then view_get_tiled_geometry env v (if kywc_output \<noteq> NULL then kywc_output else v_output v)
                                 KYWC_TILE_ALL
                   else saved_geometry v);
            v = (if want \<and> tiled (base v) = KYWC_TILE_NONE
                 then v\<lparr>saved_geometry := geometry (base v)\<rparr> else v);
            v = (if tiled (base v) \<noteq> KYWC_TILE_NONE
                 then upd_base (\<lambda>b. b\<lparr>tiled := KYWC_TILE_NONE\<rparr>) (add_action VIEW_ACTION_TILE v) else v);
            v = upd_base (\<lambda>b. b\<lparr>maximized := want\<rparr>) v;
            v = set_pending_geometry geo (add_action VIEW_ACTION_MAXIMIZE v)
        in call_configure impl v)"

text \<open>The part of \<^verbatim>\<open>view_do_fullscreen\<close> on the view itself, around the reparenting of its tree.\<close>

definition fullscreen_geometry :: "output_env \<Rightarrow> view \<Rightarrow> bool \<Rightarrow> ptr \<Rightarrow> kywc_box" where
  "fullscreen_geometry env v full kywc_output =
     (if full then out_geometry (get_output env (if kywc_output \<noteq> NULL then kywc_output else v_output v))
      else if maximized (base v) then view_get_tiled_geometry env v (v_output v) KYWC_TILE_ALL
      else if tiled (base v) \<noteq> KYWC_TILE_NONE
      then view_get_tiled_geometry env v (v_output v) (tiled (base v))
      else saved_geometry v)"

definition fullscreen_save :: "view \<Rightarrow> bool \<Rightarrow> view" where
  "fullscreen_save v full =
     (if full \<and> \<not> maximized (base v) \<and> tiled (base v) = KYWC_TILE_NONE
      then v\<lparr>saved_geometry := geometry (base v)\<rparr> else v)"

definition fullscreen_apply :: "configure_impl \<Rightarrow> view \<Rightarrow> bool \<Rightarrow> kywc_box \<Rightarrow> view option" where
  "fullscreen_apply impl v full geo =
     call_configure impl
       (set_pending_geometry geo (add_action VIEW_ACTION_FULLSCREEN (upd_base (\<lambda>b. b\<lparr>fullscreen := full\<rparr>) v)))"

text \<open>The parts of \<^verbatim>\<open>view_do_fullscreen\<close>, \<^verbatim>\<open>view_do_minimized\<close>, \<^verbatim>\<open>view_set_activated\<close>, \<^verbatim>\<open>view_map\<close> and
  \<^verbatim>\<open>view_unmap\<close> on the view itself. What they do to the tree, to the workspaces and to the other views is in
  the theories \<open>ViewTree\<close> and \<open>ViewManager\<close>; the placement of a view that is being mapped, and its
  activation, are requests of their own, and so is showing a minimized view that is being activated.\<close>

definition fullscreen_view :: "output_env \<Rightarrow> configure_impl \<Rightarrow> view \<Rightarrow> bool \<Rightarrow> ptr \<Rightarrow> view option" where
  "fullscreen_view env impl v full kywc_output =
     (if fullscreen (base v) = full \<and> (kywc_output = NULL \<or> kywc_output = v_output v) then Some v
      else fullscreen_apply impl (fullscreen_save v full) full (fullscreen_geometry env v full kywc_output))"

definition minimize_view :: "configure_impl \<Rightarrow> view \<Rightarrow> bool \<Rightarrow> view option" where
  "minimize_view impl v m =
     (if minimized (base v) = m then Some v
      else
        let v = add_action VIEW_ACTION_MINIMIZE (upd_base (\<lambda>b. b\<lparr>minimized := m\<rparr>) v)
        in if \<not> mapped (base v) then Some v
           else map_option (emit SigMinimize) (call_configure impl (v\<lparr>tree_enabled := \<not> m\<rparr>)))"

definition activate_view :: "configure_impl \<Rightarrow> view \<Rightarrow> bool \<Rightarrow> view option" where
  "activate_view impl v a =
     (if activated (base v) = a then Some v
      else map_option (emit SigActivate)
        (call_configure impl (add_action VIEW_ACTION_ACTIVATE (upd_base (\<lambda>b. b\<lparr>activated := a\<rparr>) v))))"

definition map_view :: "(string option \<Rightarrow> ptr) \<Rightarrow> output_env \<Rightarrow> configure_impl \<Rightarrow> view \<Rightarrow> view option" where
  "map_view theme_icon_from_app_id env impl v =
     (let v = view_set_icon theme_icon_from_app_id (emit SigPremap v);
          v = upd_base (\<lambda>b. b\<lparr>mapped := True\<rparr>) (v\<lparr>tree_enabled := \<not> minimized (base v)\<rparr>);
          fallback = (if maximized (base v) \<or> fullscreen (base v)
                      then v\<lparr>saved_geometry := view_get_tiled_geometry env v (v_output v) KYWC_TILE_CENTER\<rparr> else v)
      in map_option
        (\<lambda>v. emit SigMap (view_update_round_corner env (upd_base (\<lambda>b. b\<lparr>has_initial_position := False\<rparr>) v)))
        (if action (v_pending v) \<noteq> VIEW_ACTION_NOP then call_configure impl fallback else Some v))"

definition unmap_view :: "view \<Rightarrow> view" where
  "unmap_view v =
     (let v = emit SigUnmap (upd_base (\<lambda>b. b\<lparr>mapped := False\<rparr>) v);
          v = (upd_base (\<lambda>b. b\<lparr>title := None, app_id := None\<rparr>) v)\<lparr>tree_enabled := False, v_parent := NULL, v_children := []\<rparr>
      in upd_pending (\<lambda>p. p\<lparr>configure_timeout := False\<rparr>) v)"

definition view_move_to_center :: "output_env \<Rightarrow> configure_impl \<Rightarrow> view \<Rightarrow> view option" where
  "view_move_to_center env impl v =
     (let g = out_geometry (get_output env (v_output v));
          x_center = box_x g + box_width g sdiv 2;
          y_center = box_y g + box_height g sdiv 2
      in view_do_move impl v (x_center - box_width (geometry (base v)) sdiv 2)
           (y_center - box_height (geometry (base v)) sdiv 2))"

text \<open>Whether the view may be moved depends on its children, and is an argument.\<close>

definition view_move_to_output ::
  "(int \<Rightarrow> int \<Rightarrow> int \<Rightarrow> int) \<Rightarrow> output_env \<Rightarrow> configure_impl \<Rightarrow> bool \<Rightarrow> view \<Rightarrow> kywc_box option \<Rightarrow> ptr \<Rightarrow>
    view option" where
  "view_move_to_output round_scale env impl view_is_movable v src_box kywc_output =
     (let dst = get_output env kywc_output;
          dst_box = usable_area dst;
          src = (case src_box of Some b \<Rightarrow> b | None \<Rightarrow> usable_area (get_output env (v_output v)));
          fix_saved = v\<lparr>saved_geometry := view_fix_geometry_position round_scale v (saved_geometry v) src dst_box\<rparr>
      in if fullscreen (base v) then view_do_resize impl fix_saved (out_geometry dst)
         else if maximized (base v)
         then view_do_resize impl fix_saved (view_get_tiled_geometry env v kywc_output KYWC_TILE_ALL)
         else if tiled (base v) \<noteq> KYWC_TILE_NONE
         then view_do_resize impl fix_saved (view_get_tiled_geometry env v kywc_output (tiled (base v)))
         else if \<not> view_is_movable then Some v
         else let geo = view_fix_geometry_position round_scale v (geometry (base v)) src dst_box
              in view_do_move impl v (box_x geo) (box_y geo))"

end
