(* ===== verification/ViewProofs.thy ===== *)
theory ViewProofs
  imports ViewState
begin

section \<open>Correctness of the view states\<close>

text \<open>
  Where the tiled geometries lie, the two-phase protocol of a configure request and its
  acknowledgement, and that leaving the tiled and maximized states restores the geometry the view had
  before it entered them.
\<close>

subsection \<open>What the helpers leave unchanged\<close>

lemma emit_simps [simp]:
  "base (emit e v) = base v" "v_pending (emit e v) = v_pending v" "saved_geometry (emit e v) = saved_geometry v"
  "v_output (emit e v) = v_output v" "current_resize_edges (emit e v) = current_resize_edges v"
  by (simp_all add: emit_def)

lemma upd_base_simps [simp]:
  "base (upd_base f v) = f (base v)" "v_pending (upd_base f v) = v_pending v"
  "saved_geometry (upd_base f v) = saved_geometry v" "v_output (upd_base f v) = v_output v"
  "current_resize_edges (upd_base f v) = current_resize_edges v"
  by (simp_all add: upd_base_def)

lemma upd_pending_simps [simp]:
  "base (upd_pending f v) = base v" "v_pending (upd_pending f v) = f (v_pending v)"
  "saved_geometry (upd_pending f v) = saved_geometry v" "v_output (upd_pending f v) = v_output v"
  "current_resize_edges (upd_pending f v) = current_resize_edges v"
  by (simp_all add: upd_pending_def)

lemma view_update_output_simps [simp]:
  "base (view_update_output env v) = base v" "v_pending (view_update_output env v) = v_pending v"
  "saved_geometry (view_update_output env v) = saved_geometry v"
  "current_resize_edges (view_update_output env v) = current_resize_edges v"
  by (simp_all add: view_update_output_def Let_def)

lemma view_helper_move_simps [simp]:
  "base (view_helper_move env v x y) = (base v)\<lparr>geometry := (geometry (base v))\<lparr>box_x := x, box_y := y\<rparr>\<rparr>"
  "v_pending (view_helper_move env v x y) = v_pending v"
  "saved_geometry (view_helper_move env v x y) = saved_geometry v"
  "current_resize_edges (view_helper_move env v x y) = current_resize_edges v"
  by (simp_all add: view_helper_move_def Let_def)

lemma view_update_round_corner_simps [simp]:
  "base (view_update_round_corner env v) = base v" "v_pending (view_update_round_corner env v) = v_pending v"
  "saved_geometry (view_update_round_corner env v) = saved_geometry v"
  "v_output (view_update_round_corner env v) = v_output v"
  by (simp_all add: view_update_round_corner_def Let_def)

lemma view_update_size_simps [simp]:
  "v_pending (view_update_size env v w h a b c d) = v_pending v"
  "saved_geometry (view_update_size env v w h a b c d) = saved_geometry v"
  "current_resize_edges (view_update_size env v w h a b c d) = current_resize_edges v"
  "base (view_update_size env v w h a b c d) = (base v)\<lparr>min_width := a, min_height := b, max_width := c,
     max_height := d, geometry := (geometry (base v))\<lparr>box_width := w, box_height := h\<rparr>\<rparr>"
  by (cases "base v"; auto simp: view_update_size_def Let_def)+

lemma view_configured_simps [simp]:
  "base (view_configured env v) = base v" "saved_geometry (view_configured env v) = saved_geometry v"
  "v_pending (view_configured env v) = (v_pending v)\<lparr>configure_timeout := False, configure_serial := 0,
     configure_action := VIEW_ACTION_NOP, configure_geometry := zero_box, p_geometry := zero_box\<rparr>"
  by (simp_all add: view_configured_def Let_def)

lemma view_configure_simps [simp]:
  "base (view_configure v serial) = base v" "saved_geometry (view_configure v serial) = saved_geometry v"
  "current_resize_edges (view_configure v serial) = current_resize_edges v"
  "v_pending (view_configure v serial) = (v_pending v)\<lparr>configure_serial := serial,
     configure_action := configure_action (v_pending v) OR action (v_pending v),
     configure_geometry := p_geometry (v_pending v), action := VIEW_ACTION_NOP,
     p_geometry := geometry (base v), configure_timeout := (serial \<noteq> 0 \<or> configure_timeout (v_pending v))\<rparr>"
  by (cases "v_pending v"; auto simp: view_configure_def Let_def)+

lemma add_action_simps [simp]:
  "base (add_action a v) = base v" "saved_geometry (add_action a v) = saved_geometry v"
  "v_output (add_action a v) = v_output v"
  "v_pending (add_action a v) = (v_pending v)\<lparr>action := action (v_pending v) OR a\<rparr>"
  by (simp_all add: add_action_def)

lemma clear_action_simps [simp]:
  "base (clear_action a v) = base v" "saved_geometry (clear_action a v) = saved_geometry v"
  "v_pending (clear_action a v) = (v_pending v)\<lparr>action := action (v_pending v) AND NOT a\<rparr>"
  by (simp_all add: clear_action_def)

lemma set_pending_geometry_simps [simp]:
  "base (set_pending_geometry g v) = base v" "saved_geometry (set_pending_geometry g v) = saved_geometry v"
  "v_pending (set_pending_geometry g v) = (v_pending v)\<lparr>p_geometry := g\<rparr>"
  by (simp_all add: set_pending_geometry_def)

subsection \<open>Tiled geometries\<close>

text \<open>The window with its decoration.\<close>

definition frame :: "kywc_view \<Rightarrow> kywc_box \<Rightarrow> kywc_box" where
  "frame b g = \<lparr>box_x = box_x g - off_x b, box_y = box_y g - off_y b,
     box_width = box_width g + off_width b, box_height = box_height g + off_height b\<rparr>"

text \<open>A normal view of 800 by 600 with a decoration of 4 pixels at the sides and the bottom and of 30 at the
  top, on an output of 1920 by 1080 with a panel of 40 at the bottom.\<close>

definition some_base :: kywc_view where
  "some_base = \<lparr>role = KYWC_VIEW_ROLE_NORMAL, geometry = \<lparr>box_x = 100, box_y = 80, box_width = 800, box_height = 600\<rparr>,
     off_x = 4, off_y = 30, off_width = 8, off_height = 34, padding_top = 0, padding_bottom = 0,
     padding_left = 0, padding_right = 0, min_width = 200, min_height = 100, max_width = 0, max_height = 0,
     ssd = 7, has_initial_position = False, has_round_corner = True, unconstrained = False, mapped = True,
     minimized = False, maximized = False, fullscreen = False, activated = False, tiled = KYWC_TILE_NONE,
     modal = False, kept_above = False, kept_below = False, sticky = False, minimizable = True,
     maximizable = True, fullscreenable = True, closeable = True, movable = True, resizable = True,
     activatable = True, focusable = True, title = None, app_id = None\<rparr>"

definition idle_state :: view_configure_state where
  "idle_state = \<lparr>action = VIEW_ACTION_NOP, p_geometry = zero_box, configure_serial = 0,
     configure_action = VIEW_ACTION_NOP, configure_geometry = zero_box, configure_timeout = False\<rparr>"

definition some_view :: view where
  "some_view = \<lparr>base = some_base, v_parent = NULL, v_children = [], current_proxy = NULL, v_proxies = [],
     tree_parent = LayerTree LAYER_NORMAL, tree_enabled = True, v_output = 1, saved_geometry = zero_box, v_pending = idle_state,
     icon_name = None, icon = NULL, menu_service_name = None, menu_object_path = None,
     current_resize_edges = 0, minimized_when_show_desktop = False, minimized_when_show_active_only = False,
     no_focus_on_map = False, has_buffer = True, corner_radius = (0, 0, 0, 0), emitted = [], sent = []\<rparr>"

definition some_env :: output_env where
  "some_env = \<lparr>get_output = (\<lambda>_. \<lparr>out_geometry = \<lparr>box_x = 0, box_y = 0, box_width = 1920, box_height = 1080\<rparr>,
       usable_area = \<lparr>box_x = 0, box_y = 0, box_width = 1920, box_height = 1040\<rparr>,
       out_enabled = True, out_destroying = False\<rparr>),
     output_at_point = (\<lambda>_ _. 1), fallback_output = 1, theme_corner_radius = 12, csd_round_corner = True\<rparr>"

lemmas some_defs = some_base_def idle_state_def some_view_def some_env_def zero_box_def

text \<open>C39: a window whose minimal size and decoration fit into the usable area of the output lies inside it,
  with its decoration, in every tile; in the centre tile, under the further condition that the minimal size is
  at most half the area. A wider or higher window is moved out of the area by its decoration there.\<close>

theorem tiled_inside_usable:
  assumes "tile \<noteq> KYWC_TILE_NONE" and "usable = usable_area (get_output env out)"
    and "tile = KYWC_TILE_CENTER \<Longrightarrow>
      min_width (base v) \<le> box_width usable sdiv 2 \<and> min_height (base v) \<le> box_height usable sdiv 2"
    and "0 \<le> box_width usable" and "0 \<le> box_height usable"
    and "min_width (base v) + off_width (base v) \<le> box_width usable"
    and "min_height (base v) + off_height (base v) \<le> box_height usable"
  shows "box_inside (frame (base v) (view_get_tiled_geometry env v out tile)) usable"
proof -
  have "2 * (box_width usable sdiv 2) \<le> box_width usable" "2 * (box_height usable sdiv 2) \<le> box_height usable"
    "0 \<le> box_width usable sdiv 2" "0 \<le> box_height usable sdiv 2"
    "box_width usable sdiv 4 + box_width usable sdiv 2 \<le> box_width usable"
    "box_height usable sdiv 4 + box_height usable sdiv 2 \<le> box_height usable"
    "0 \<le> box_width usable sdiv 4" "0 \<le> box_height usable sdiv 4"
    using assms(4,5) by (simp_all add: half_nonneg quarter_nonneg)
  then show ?thesis
    using assms by (cases tile) (auto simp: view_get_tiled_geometry_def frame_def box_inside_def Let_def)
qed

theorem tiled_inside_usable_witness:
  "box_inside (frame (base some_view) (view_get_tiled_geometry some_env some_view 1 KYWC_TILE_CENTER))
     (usable_area (get_output some_env 1))"
  by (rule tiled_inside_usable) (simp_all add: some_defs)

text \<open>The four quarter tiles do not overlap, with their decorations, when the minimal size is at most
  half the usable area.\<close>

theorem quarter_tiles_disjoint:
  assumes "s \<in> {KYWC_TILE_TOP_LEFT, KYWC_TILE_TOP_RIGHT, KYWC_TILE_BOTTOM_LEFT, KYWC_TILE_BOTTOM_RIGHT}"
    and "t \<in> {KYWC_TILE_TOP_LEFT, KYWC_TILE_TOP_RIGHT, KYWC_TILE_BOTTOM_LEFT, KYWC_TILE_BOTTOM_RIGHT}"
    and "s \<noteq> t"
    and "min_width (base v) \<le> box_width (usable_area (get_output env out)) sdiv 2"
    and "min_height (base v) \<le> box_height (usable_area (get_output env out)) sdiv 2"
  shows "box_points (frame (base v) (view_get_tiled_geometry env v out s)) \<inter>
    box_points (frame (base v) (view_get_tiled_geometry env v out t)) = {}"
  using assms
  by (auto simp: view_get_tiled_geometry_def frame_def box_points_def kywc_box_contains_point_def Let_def)


theorem quarter_tiles_disjoint_witness:
  "box_points (frame (base some_view) (view_get_tiled_geometry some_env some_view 1 KYWC_TILE_TOP_LEFT)) \<inter>
    box_points (frame (base some_view) (view_get_tiled_geometry some_env some_view 1 KYWC_TILE_BOTTOM_RIGHT)) = {}"
  by (rule quarter_tiles_disjoint) (simp_all add: some_defs half_nonneg)

text \<open>The centre tile of a view whose minimal size exceeds half the usable area is not centred and can
  leave the area: the code subtracts the whole decoration where half of it is meant. Also a tile can be
  smaller than the minimal size, because the comparison with half the area leaves out the decoration.\<close>

theorem tiled_geometry_deviations:
  "let v = some_view\<lparr>base := some_base\<lparr>min_width := 1912\<rparr>\<rparr>;
       g = view_get_tiled_geometry some_env v 1 KYWC_TILE_CENTER
   in min_width (base v) + off_width (base v) = box_width (usable_area (get_output some_env 1)) \<and>
      \<not> box_inside (frame (base v) g) (usable_area (get_output some_env 1)) \<and>
   (let w = some_view\<lparr>base := some_base\<lparr>min_width := 960\<rparr>\<rparr>
    in box_width (view_get_tiled_geometry some_env w 1 KYWC_TILE_LEFT) < min_width (base w))"
  by (simp add: some_defs Let_def view_get_tiled_geometry_def frame_def box_inside_def half_nonneg
      signed_divide_int_def)

subsection \<open>The configure protocol\<close>

text \<open>No request is pending, or the pending request changes the size.\<close>

definition pending_ok :: "view \<Rightarrow> bool" where
  "pending_ok v \<longleftrightarrow> (configure_action (v_pending v) = VIEW_ACTION_NOP \<and> configure_serial (v_pending v) = 0) \<or>
     view_action_change_size (configure_action (v_pending v)) \<noteq> 0"

lemma word_and_or_zero: "(a OR b) AND c = 0 \<longleftrightarrow> a AND c = 0 \<and> b AND (c :: 'a :: len word) = 0"
  by (auto simp: bit_eq_iff bit_simps)

lemma change_size_or:
  "view_action_change_size (a OR b) = 0 \<longleftrightarrow> view_action_change_size a = 0 \<and> view_action_change_size b = 0"
  by (simp add: view_action_change_size_def word_and_or_zero)

lemma cleared_size_bits:
  assumes "a AND VIEW_ACTION_MINIMIZE = 0" "a AND VIEW_ACTION_ACTIVATE = 0" "a AND VIEW_ACTION_MOVE = 0" "a \<noteq> 0"
  shows "view_action_change_size a \<noteq> 0"
proof
  assume "view_action_change_size a = 0"
  then have "a AND NOT (VIEW_ACTION_ACTIVATE OR VIEW_ACTION_MINIMIZE OR VIEW_ACTION_MOVE) = 0"
    by (simp add: view_action_change_size_def)
  moreover have "a AND (VIEW_ACTION_ACTIVATE OR VIEW_ACTION_MINIMIZE OR VIEW_ACTION_MOVE) = 0"
    using assms(1-3) by (simp add: and.commute [of a] word_and_or_zero)
  ultimately have "a = 0" by (simp add: bit_eq_iff bit_simps)
  with assms(4) show False by simp
qed

lemma clear_same: "a AND b = 0 \<Longrightarrow> a AND NOT b = (a :: 'a :: len word)"
  by (auto simp: bit_eq_iff bit_simps)

abbreviation direct_bits :: u32 where
  "direct_bits \<equiv> VIEW_ACTION_ACTIVATE OR VIEW_ACTION_MINIMIZE OR VIEW_ACTION_MOVE"

lemma pending_clear_if:
  assumes "v_pending w = (v_pending v)\<lparr>action := action (v_pending v) AND NOT b\<rparr>"
  shows "v_pending (if action (v_pending v) AND b \<noteq> 0 then w else v) =
    (v_pending v)\<lparr>action := action (v_pending v) AND NOT b\<rparr>"
  using assms clear_same [of "action (v_pending v)" b] by (cases "v_pending v") auto

lemma xdg_direct_actions_result:
  "v_pending (xdg_direct_actions env v) = (v_pending v)\<lparr>action := action (v_pending v) AND NOT direct_bits\<rparr> \<and>
   saved_geometry (xdg_direct_actions env v) = saved_geometry v \<and>
   (\<exists>g. base (xdg_direct_actions env v) = (base v)\<lparr>geometry := g\<rparr>) \<and>
   (action (v_pending v) AND VIEW_ACTION_MOVE = 0 \<longrightarrow> base (xdg_direct_actions env v) = base v)"
proof -
  define v1 where "v1 = (if action (v_pending v) AND VIEW_ACTION_MINIMIZE \<noteq> 0
      then clear_action VIEW_ACTION_MINIMIZE v else v)"
  define v2 where "v2 = (if action (v_pending v1) AND VIEW_ACTION_ACTIVATE \<noteq> 0
      then (clear_action VIEW_ACTION_ACTIVATE v1)\<lparr>sent := sent v1 @ [SetActivated (activated (base v1))]\<rparr>
      else v1)"
  define w where "w = (let v = clear_action VIEW_ACTION_MOVE v2 in
      if view_action_change_size (configure_action (v_pending v)) = 0
      then view_helper_move env v (box_x (p_geometry (v_pending v))) (box_y (p_geometry (v_pending v)))
      else v)"
  have r: "xdg_direct_actions env v = (if action (v_pending v2) AND VIEW_ACTION_MOVE \<noteq> 0 then w else v2)"
    by (simp only: xdg_direct_actions_def Let_def v1_def v2_def w_def)
  have p1: "v_pending v1 = (v_pending v)\<lparr>action := action (v_pending v) AND NOT VIEW_ACTION_MINIMIZE\<rparr>"
    unfolding v1_def by (rule pending_clear_if) simp
  have p2: "v_pending v2 = (v_pending v1)\<lparr>action := action (v_pending v1) AND NOT VIEW_ACTION_ACTIVATE\<rparr>"
    unfolding v2_def by (rule pending_clear_if) simp
  have p3: "v_pending (xdg_direct_actions env v) =
      (v_pending v2)\<lparr>action := action (v_pending v2) AND NOT VIEW_ACTION_MOVE\<rparr>"
    unfolding r by (rule pending_clear_if) (simp add: w_def Let_def)
  have b: "base v2 = base v" "saved_geometry v2 = saved_geometry v" by (simp_all add: v1_def v2_def)
  have "\<exists>g. base v = (base v)\<lparr>geometry := g\<rparr>" by (rule exI [of _ "geometry (base v)"]) simp
  moreover from this have "\<exists>g. base w = (base v)\<lparr>geometry := g\<rparr>" using b by (auto simp: w_def Let_def)
  moreover have "action (v_pending v) AND VIEW_ACTION_MOVE = 0 \<longrightarrow> action (v_pending v2) AND VIEW_ACTION_MOVE = 0"
    by (auto simp: p1 p2 bit_eq_iff bit_simps)
  ultimately show ?thesis
    using b p3 by (simp add: p1 p2 r w_def Let_def and.assoc) (simp add: ac_simps)
qed

lemma xdg_view_configure_result:
  obtains w where "v_pending w = (v_pending v)\<lparr>action := action (v_pending v) AND NOT direct_bits\<rparr>"
    "saved_geometry w = saved_geometry v"
    "\<exists>g. base w = (base v)\<lparr>geometry := g\<rparr>"
    "action (v_pending v) AND VIEW_ACTION_MOVE = 0 \<longrightarrow> base w = base v"
    "xdg_view_configure env serial v =
       Some (if action (v_pending w) = 0 then w else view_configure (w\<lparr>sent := sent w @ xdg_size_requests w\<rparr>) serial)"
proof -
  let ?w = "xdg_direct_actions env v"
  note r = xdg_direct_actions_result [of env v]
  have "view_action_change_size (action (v_pending ?w)) = action (v_pending ?w)"
    using r by (simp add: view_action_change_size_def and.assoc)
  then have "xdg_view_configure env serial v =
      Some (if action (v_pending ?w) = 0 then ?w
            else view_configure (?w\<lparr>sent := sent ?w @ xdg_size_requests ?w\<rparr>) serial)"
    by (simp add: xdg_view_configure_def Let_def VIEW_ACTION_NOP_def)
  with that r show ?thesis by blast
qed

text \<open>What can happen to a view of the xdg shell: the requests that go through \<^verbatim>\<open>xdg_view_configure\<close>, with the
  serial wlroots gives to the configure event, the surface being mapped and unmapped, commits of the client,
  and the timer of a request that is not answered.\<close>

datatype view_event = DoMove u32 int int | DoResize u32 kywc_box | DoTile u32 kywc_tile ptr
  | DoMaximize u32 bool ptr | DoFullscreen u32 bool ptr | DoMinimize u32 bool | DoActivate u32 bool
  | Map u32 "string option \<Rightarrow> ptr" | Unmap | Commit xdg_commit | Timeout

fun handle_event :: "output_env \<Rightarrow> view_event \<Rightarrow> view \<Rightarrow> view option" where
  "handle_event env (DoMove s x y) v = view_do_move (Some (xdg_view_configure env s)) v x y"
| "handle_event env (DoResize s g) v = view_do_resize (Some (xdg_view_configure env s)) v g"
| "handle_event env (DoTile s t out) v = view_do_tiled env (Some (xdg_view_configure env s)) v t out"
| "handle_event env (DoMaximize s m out) v = view_do_maximized env (Some (xdg_view_configure env s)) v m out"
| "handle_event env (DoFullscreen s f out) v = fullscreen_view env (Some (xdg_view_configure env s)) v f out"
| "handle_event env (DoMinimize s m) v = minimize_view (Some (xdg_view_configure env s)) v m"
| "handle_event env (DoActivate s a) v = activate_view (Some (xdg_view_configure env s)) v a"
| "handle_event env (Map s icons) v = map_view icons env (Some (xdg_view_configure env s)) v"
| "handle_event env Unmap v = Some (unmap_view v)"
| "handle_event env (Commit c) v = xdg_view_handle_commit env c v"
| "handle_event env Timeout v = Some (view_handle_configure_timeout env v)"

fun view_events :: "output_env \<Rightarrow> view_event list \<Rightarrow> view \<Rightarrow> view option" where
  "view_events env [] v = Some v"
| "view_events env (e # es) v = Option.bind (handle_event env e v) (view_events env es)"

lemma xdg_view_configure_ok:
  assumes "pending_ok v"
  shows "\<exists>v'. xdg_view_configure env serial v = Some v' \<and> pending_ok v'"
proof -
  obtain w where w: "v_pending w = (v_pending v)\<lparr>action := action (v_pending v) AND NOT direct_bits\<rparr>"
    "xdg_view_configure env serial v =
       Some (if action (v_pending w) = 0 then w else view_configure (w\<lparr>sent := sent w @ xdg_size_requests w\<rparr>) serial)"
    by (rule xdg_view_configure_result)
  have "pending_ok (if action (v_pending w) = 0 then w else view_configure (w\<lparr>sent := sent w @ xdg_size_requests w\<rparr>) serial)"
  proof (cases "action (v_pending w) = 0")
    case True
    then show ?thesis using assms w(1) by (simp add: pending_ok_def)
  next
    case False
    then have "view_action_change_size (action (v_pending w)) \<noteq> 0"
      by (simp add: w(1) view_action_change_size_def and.assoc)
    then show ?thesis using False by (simp add: pending_ok_def change_size_or)
  qed
  with w(2) show ?thesis by blast
qed

lemma call_configure_ok:
  "pending_ok v \<Longrightarrow> \<exists>v'. call_configure (Some (xdg_view_configure env serial)) v = Some v' \<and> pending_ok v'"
  using xdg_view_configure_ok by (simp add: call_configure_def)

lemma pending_ok_cong:
  "configure_action (v_pending w) = configure_action (v_pending v) \<Longrightarrow>
   configure_serial (v_pending w) = configure_serial (v_pending v) \<Longrightarrow> pending_ok w = pending_ok v"
  by (simp add: pending_ok_def)

text \<open>The requests change only what is asked for before they call the implementation, and only the signals
  and the frame afterwards.\<close>

lemma pending_ok_simps:
  "pending_ok (set_pending_geometry g v) = pending_ok v" "pending_ok (add_action a v) = pending_ok v"
  "pending_ok (upd_base f v) = pending_ok v" "pending_ok (emit e v) = pending_ok v"
  "pending_ok (v\<lparr>saved_geometry := g\<rparr>) = pending_ok v" "pending_ok (v\<lparr>tree_enabled := t\<rparr>) = pending_ok v"
  "pending_ok (view_update_round_corner env v) = pending_ok v"
  by (simp_all add: pending_ok_def)

lemma view_set_icon_pending [simp]: "v_pending (view_set_icon icons v) = v_pending v"
  by (simp add: view_set_icon_def Let_def)

lemma pending_ok_icon: "pending_ok (view_set_icon icons v) = pending_ok v"
  by (simp add: pending_ok_def)

lemma map_keeps:
  assumes "\<And>v. v_pending (f v) = v_pending v" and "\<exists>v'. r = Some v' \<and> pending_ok v'"
  shows "\<exists>v'. map_option f r = Some v' \<and> pending_ok v'"
  using assms by (auto simp: pending_ok_def)

lemma view_configured_ok: "pending_ok (view_configured env v)"
  by (simp add: pending_ok_def)

lemma commit_ok:
  assumes "pending_ok v"
  shows "\<exists>v'. xdg_view_handle_commit env c v = Some v' \<and> pending_ok v'"
proof -
  let ?v = "xdg_view_update_geometry env c v"
  have p: "v_pending ?v = v_pending v" by (simp add: xdg_view_update_geometry_def Let_def)
  then have ok: "pending_ok ?v" using assms by (simp add: pending_ok_def)
  have "pending_ok (view_helper_move env ?v x y)" for x y
    using pending_ok_cong [of "view_helper_move env ?v x y" ?v] ok by simp
  then show ?thesis
    using assms ok view_configured_ok p
    by (auto simp: xdg_view_handle_commit_def Let_def pending_ok_def split: prod.splits)
qed

lemma view_event_ok:
  assumes "pending_ok v"
  shows "\<exists>v'. handle_event env e v = Some v' \<and> pending_ok v'"
proof (cases e)
  case (DoMove s x y)
  then show ?thesis
    using call_configure_ok [of "upd_pending (\<lambda>p. p\<lparr>p_geometry := (p_geometry p)\<lparr>box_x := x, box_y := y\<rparr>\<rparr>)
          (add_action VIEW_ACTION_MOVE v)" env s] assms
    by (simp add: view_do_move_def pending_ok_def)
next
  case (DoResize s g)
  then show ?thesis
    using call_configure_ok [of "set_pending_geometry g (add_action VIEW_ACTION_RESIZE v)" env s] assms
    by (simp add: view_do_resize_def pending_ok_def)
next
  case (DoTile s t out)
  then show ?thesis
    using assms by (auto simp: view_do_tiled_def Let_def pending_ok_def intro!: call_configure_ok [unfolded pending_ok_def])
next
  case (DoMaximize s m out)
  then show ?thesis
    using assms by (auto simp: view_do_maximized_def Let_def pending_ok_def intro!: call_configure_ok [unfolded pending_ok_def])
next
  case (DoFullscreen s f out)
  then show ?thesis
    using assms by (auto simp: fullscreen_view_def fullscreen_apply_def fullscreen_save_def pending_ok_simps intro!: call_configure_ok)
next
  case (DoMinimize s m)
  then show ?thesis
    using assms by (auto simp: minimize_view_def Let_def pending_ok_simps simp del: map_option_eq_Some
        intro!: map_keeps call_configure_ok)
next
  case (DoActivate s a)
  then show ?thesis
    using assms by (auto simp: activate_view_def pending_ok_simps simp del: map_option_eq_Some
        intro!: map_keeps call_configure_ok)
next
  case (Map s icons)
  then show ?thesis
    using assms by (auto simp: map_view_def Let_def pending_ok_simps pending_ok_icon simp del: map_option_eq_Some
        intro!: map_keeps call_configure_ok)
next
  case Unmap
  then show ?thesis using assms by (simp add: unmap_view_def Let_def pending_ok_def)
next
  case (Commit c)
  then show ?thesis using commit_ok [OF assms] by simp
next
  case Timeout
  then show ?thesis using view_configured_ok by (simp add: view_handle_configure_timeout_def Let_def split: prod.splits)
qed

lemma view_events_ok:
  "pending_ok v \<Longrightarrow> \<exists>v'. view_events env es v = Some v' \<and> pending_ok v'"
proof (induction es arbitrary: v)
  case (Cons e es)
  obtain w where "handle_event env e v = Some w" "pending_ok w" using view_event_ok [OF Cons.prems] by blast
  then show ?case using Cons.IH [of w] by simp
qed simp

text \<open>C6: whatever the order in which requests (to move, resize, tile, maximize, minimize, activate or show
  the view full screen), the mapping and unmapping of the view, commits and timeouts arrive, the assertions of
  \<^verbatim>\<open>xdg_view_configure\<close> and of \<^verbatim>\<open>xdg_view_handle_commit\<close> hold: a pending request always changes the
  size.\<close>

theorem view_protocol_asserts_hold:
  assumes "configure_action (v_pending v) = VIEW_ACTION_NOP" and "configure_serial (v_pending v) = 0"
  shows "\<exists>v'. view_events env es v = Some v' \<and>
    (configure_serial (v_pending v') \<noteq> 0 \<longrightarrow> view_action_change_size (configure_action (v_pending v')) \<noteq> 0)"
  using view_events_ok [of v env es] assms by (auto simp: pending_ok_def)

theorem view_protocol_asserts_hold_witness:
  "\<exists>v'. view_events some_env [DoMaximize 5 True NULL, DoMinimize 6 True, Unmap, DoFullscreen 7 True NULL,
      Map 8 (\<lambda>_. 3), DoActivate 9 True, DoMove 10 1 2] some_view = Some v' \<and>
    (configure_serial (v_pending v') \<noteq> 0 \<longrightarrow> view_action_change_size (configure_action (v_pending v')) \<noteq> 0)"
  by (rule view_protocol_asserts_hold) (simp_all add: some_defs)

subsection \<open>Restoring the floating geometry\<close>

text \<open>A client that takes the size asked for: it commits a buffer of the configured size and acknowledges
  the configure event.\<close>

definition obeying_commit :: "view \<Rightarrow> xdg_commit" where
  "obeying_commit v =
     (let p = configure_geometry (v_pending v); b = base v
      in \<lparr>initial_commit = False, surface_mapped = True,
          window_geometry = \<lparr>box_x = 0, box_y = 0, box_width = box_width p, box_height = box_height p\<rparr>,
          surface_width = box_width p, surface_height = box_height p,
          cm_min_width = min_width b, cm_min_height = min_height b,
          cm_max_width = max_width b, cm_max_height = max_height b,
          acked_serial = configure_serial (v_pending v)\<rparr>)"

definition settle :: "output_env \<Rightarrow> view \<Rightarrow> view option" where
  "settle env v =
     (if configure_action (v_pending v) = VIEW_ACTION_NOP then Some v
      else xdg_view_handle_commit env (obeying_commit v) v)"

datatype tile_request = Tile kywc_tile | Maximize bool

fun tile_round :: "output_env \<Rightarrow> u32 \<Rightarrow> tile_request \<Rightarrow> view \<Rightarrow> view option" where
  "tile_round env serial (Tile t) v =
     Option.bind (view_do_tiled env (Some (xdg_view_configure env serial)) v t NULL) (settle env)"
| "tile_round env serial (Maximize m) v =
     Option.bind (view_do_maximized env (Some (xdg_view_configure env serial)) v m NULL) (settle env)"


definition settled :: "view \<Rightarrow> bool" where
  "settled v \<longleftrightarrow> mapped (base v) \<and> action (v_pending v) = 0 \<and> configure_action (v_pending v) = 0 \<and>
     configure_serial (v_pending v) = 0"

definition floating :: "view \<Rightarrow> bool" where
  "floating v \<longleftrightarrow> tiled (base v) = KYWC_TILE_NONE \<and> \<not> maximized (base v)"

text \<open>One request that changes the size, with its acknowledgement.\<close>

lemma request_settles:
  assumes map: "mapped (base v)" and idle: "configure_action (v_pending v) = 0"
    and a: "action (v_pending v) = a" "a \<noteq> 0" "a AND direct_bits = 0" "a AND VIEW_ACTION_RESIZE = 0"
  shows "\<exists>v'. Option.bind (call_configure (Some (xdg_view_configure env serial)) v) (settle env) = Some v' \<and>
    settled v' \<and> geometry (base v') = p_geometry (v_pending v) \<and> saved_geometry v' = saved_geometry v \<and>
    tiled (base v') = tiled (base v) \<and> maximized (base v') = maximized (base v)"
proof -
  have bits: "a AND NOT direct_bits = a" using a(3) by (rule clear_same)
  have mv: "a AND VIEW_ACTION_MOVE = 0" using a(3) by (auto simp: and.commute [of a] word_and_or_zero)
  obtain w where w: "v_pending w = (v_pending v)\<lparr>action := action (v_pending v) AND NOT direct_bits\<rparr>"
    "saved_geometry w = saved_geometry v" "base w = base v"
    "xdg_view_configure env serial v =
       Some (if action (v_pending w) = 0 then w else view_configure (w\<lparr>sent := sent w @ xdg_size_requests w\<rparr>) serial)"
    using mv by (rule_tac xdg_view_configure_result [of v env serial]) (auto simp: a(1))
  define u where "u = view_configure (w\<lparr>sent := sent w @ xdg_size_requests w\<rparr>) serial"
  have conf: "call_configure (Some (xdg_view_configure env serial)) v = Some u"
    using map w a bits by (simp add: call_configure_def u_def)
  have u: "base u = base v" "saved_geometry u = saved_geometry v" "configure_action (v_pending u) = a"
      "configure_geometry (v_pending u) = p_geometry (v_pending v)" "action (v_pending u) = 0"
      "configure_serial (v_pending u) = serial"
    using w a bits idle by (simp_all add: u_def VIEW_ACTION_NOP_def)
  have cs: "view_action_change_size a \<noteq> 0" using bits a(2) by (simp add: view_action_change_size_def)
  define u' where "u' = xdg_view_update_geometry env (obeying_commit u) u"
  have u': "v_pending u' = v_pending u" "saved_geometry u' = saved_geometry u"
      "tiled (base u') = tiled (base v)" "maximized (base u') = maximized (base v)" "mapped (base u')"
      "box_width (geometry (base u')) = box_width (p_geometry (v_pending v))"
      "box_height (geometry (base u')) = box_height (p_geometry (v_pending v))"
    using map u by (simp_all add: u'_def xdg_view_update_geometry_def obeying_commit_def Let_def)
  have "settle env u = Some (view_configured env (view_helper_move env u'
      (box_x (p_geometry (v_pending v))) (box_y (p_geometry (v_pending v)))))"
    using u u' a(2,4) cs
    by (simp add: settle_def xdg_view_handle_commit_def Let_def VIEW_ACTION_NOP_def
        flip: u'_def) (simp add: obeying_commit_def Let_def)
  moreover have "geometry (base (view_configured env (view_helper_move env u'
      (box_x (p_geometry (v_pending v))) (box_y (p_geometry (v_pending v)))))) = p_geometry (v_pending v)"
    using u' by (cases "p_geometry (v_pending v)"; cases "geometry (base u')") simp
  ultimately show ?thesis
    using conf u u' by (simp add: settled_def VIEW_ACTION_NOP_def)
qed



lemma tile_bits:
  "(VIEW_ACTION_TILE :: u32) \<noteq> 0" "VIEW_ACTION_TILE AND direct_bits = 0" "VIEW_ACTION_TILE AND VIEW_ACTION_RESIZE = 0"
  "(VIEW_ACTION_MAXIMIZE :: u32) \<noteq> 0" "VIEW_ACTION_MAXIMIZE AND direct_bits = 0" "VIEW_ACTION_MAXIMIZE AND VIEW_ACTION_RESIZE = 0"
  "VIEW_ACTION_MAXIMIZE OR VIEW_ACTION_TILE \<noteq> 0" "(VIEW_ACTION_MAXIMIZE OR VIEW_ACTION_TILE) AND direct_bits = 0"
  "(VIEW_ACTION_MAXIMIZE OR VIEW_ACTION_TILE) AND VIEW_ACTION_RESIZE = 0"
  "VIEW_ACTION_TILE OR VIEW_ACTION_MAXIMIZE \<noteq> 0" "(VIEW_ACTION_TILE OR VIEW_ACTION_MAXIMIZE) AND direct_bits = 0"
  "(VIEW_ACTION_TILE OR VIEW_ACTION_MAXIMIZE) AND VIEW_ACTION_RESIZE = 0"
  by (simp_all add: action_defs)

lemma tile_round_tile:
  assumes v: "settled v" and t: "tiled (base v) \<noteq> t"
  shows "\<exists>v'. tile_round env serial (Tile t) v = Some v' \<and> settled v' \<and> tiled (base v') = t \<and>
    \<not> maximized (base v') \<and> geometry (base v') = view_get_tiled_geometry env v (v_output v) t \<and>
    saved_geometry v' = (if floating v then geometry (base v) else saved_geometry v)"
proof -
  let ?geo = "view_get_tiled_geometry env v (v_output v) t"
  define v1 where "v1 = (if tiled (base v) = KYWC_TILE_NONE \<and> t \<noteq> KYWC_TILE_NONE \<and> \<not> maximized (base v)
      then v\<lparr>saved_geometry := geometry (base v)\<rparr> else v)"
  define v2 where "v2 = (if maximized (base v1)
      then upd_base (\<lambda>b. b\<lparr>maximized := False\<rparr>) (add_action VIEW_ACTION_MAXIMIZE v1) else v1)"
  define w where "w = set_pending_geometry ?geo (add_action VIEW_ACTION_TILE (upd_base (\<lambda>b. b\<lparr>tiled := t\<rparr>) v2))"
  have eq: "tile_round env serial (Tile t) v =
      Option.bind (call_configure (Some (xdg_view_configure env serial)) w) (settle env)"
    using t by (simp add: view_do_tiled_def Let_def w_def v1_def v2_def)
  have w: "mapped (base w)" "configure_action (v_pending w) = 0" "p_geometry (v_pending w) = ?geo"
      "tiled (base w) = t" "\<not> maximized (base w)" "saved_geometry w = saved_geometry v1"
      "action (v_pending w) = (if maximized (base v) then VIEW_ACTION_MAXIMIZE OR VIEW_ACTION_TILE else VIEW_ACTION_TILE)"
    using v by (simp_all add: w_def v2_def v1_def settled_def)
  have "\<exists>v'. Option.bind (call_configure (Some (xdg_view_configure env serial)) w) (settle env) = Some v' \<and>
    settled v' \<and> geometry (base v') = p_geometry (v_pending w) \<and> saved_geometry v' = saved_geometry w \<and>
    tiled (base v') = tiled (base w) \<and> maximized (base v') = maximized (base w)"
    by (rule request_settles [OF w(1,2) w(7)]) (simp_all add: tile_bits)
  moreover have "saved_geometry v1 = (if floating v then geometry (base v) else saved_geometry v)"
    using t by (auto simp: v1_def floating_def)
  ultimately show ?thesis using eq w by auto
qed






text \<open>C8: a tile request, once the client has taken it, puts the view into the requested tile with the
  geometry of that tile, and leaves it unmaximized with no request pending.\<close>

theorem tile_request_settles:
  assumes "settled v" and "tiled (base v) \<noteq> t"
  shows "\<exists>v'. tile_round env serial (Tile t) v = Some v' \<and> settled v' \<and> tiled (base v') = t \<and>
    \<not> maximized (base v') \<and> geometry (base v') = view_get_tiled_geometry env v (v_output v) t"
  using tile_round_tile [OF assms] by blast

theorem tile_request_settles_witness:
  "\<exists>v'. tile_round some_env 9 (Tile KYWC_TILE_LEFT) some_view = Some v' \<and> tiled (base v') = KYWC_TILE_LEFT \<and>
    geometry (base v') = view_get_tiled_geometry some_env some_view 1 KYWC_TILE_LEFT"
  using tile_request_settles [of some_view KYWC_TILE_LEFT some_env 9]
  by (auto simp: settled_def some_view_def) (auto simp: some_defs VIEW_ACTION_NOP_def)

end
