(* ===== verification/ViewTree.thy ===== *)
theory ViewTree
  imports ViewState
begin

section \<open>Views, proxies and workspaces in one store (\<^verbatim>\<open>view/view.c\<close>)\<close>

text \<open>
  A view is shown in a workspace through a proxy: the proxy is in the list of the view's proxies and in
  the list of the workspace's proxies, the latter in stacking order. The objects are kept in maps from
  addresses, the addresses the next allocations return are part of the state (\<^term>\<open>NULL\<close> is a failed
  allocation). \<^term>\<open>None\<close> is a failed assertion or, for the functions that follow the tree of parents
  and children, a chain longer than the given bound.
\<close>

fun layer_index :: "layer \<Rightarrow> nat" where
  "layer_index LAYER_DESKTOP = 0"
| "layer_index LAYER_WATERMARK = 1"
| "layer_index LAYER_BELOW = 2"
| "layer_index LAYER_NORMAL = 3"
| "layer_index LAYER_DOCK = 4"
| "layer_index LAYER_ABOVE = 5"
| "layer_index LAYER_NOTIFICATION = 6"
| "layer_index LAYER_ACTIVE = 7"
| "layer_index LAYER_SYSTEM_WINDOW = 8"
| "layer_index LAYER_SWITCHER = 9"
| "layer_index LAYER_POPUP = 10"
| "layer_index LAYER_INPUT_PANEL = 11"
| "layer_index LAYER_CRITICAL_NOTIFICATION = 12"
| "layer_index LAYER_LOGOUT = 13"
| "layer_index LAYER_UNMANAGED = 14"
| "layer_index LAYER_SCREEN_LOCK = 15"
| "layer_index LAYER_SCREEN_LOCK_NOTIFICATION = 16"
| "layer_index LAYER_ON_SCREEN_DISPLAY = 17"

instantiation layer :: linorder
begin

definition less_eq_layer :: "layer \<Rightarrow> layer \<Rightarrow> bool" where
  "less_eq_layer a b \<longleftrightarrow> layer_index a \<le> layer_index b"

definition less_layer :: "layer \<Rightarrow> layer \<Rightarrow> bool" where
  "less_layer a b \<longleftrightarrow> layer_index a < layer_index b"

instance
proof
  fix a b :: layer
  show "a \<le> b \<Longrightarrow> b \<le> a \<Longrightarrow> a = b"
    by (cases a; cases b) (simp_all add: less_eq_layer_def)
qed (auto simp: less_eq_layer_def less_layer_def)

end

subsection \<open>The store\<close>

record view_proxy =
  px_view :: ptr
  px_workspace :: ptr
  px_layer :: layer

record workspace =
  ws_position :: nat
  ws_name :: string
  has_custom_name :: bool
  ws_activated :: bool
  ws_enabled :: bool
  ws_proxies :: "ptr list"

datatype wm_signal = WsName ptr | WsPosition ptr | WsActivate ptr | WsDestroy ptr | WsViewEnter ptr ptr
  | WsViewLeave ptr ptr | NewWorkspace ptr | ActivateView ptr | ShowDesktop

record wm =
  wm_views :: "ptr \<Rightarrow> view"
  view_list :: "ptr list"
  wm_proxies :: "ptr \<Rightarrow> view_proxy"
  wm_spaces :: "ptr \<Rightarrow> workspace"
  ws_array :: "ptr list"
  ws_count :: nat
  ws_rows :: nat
  ws_columns :: nat
  ws_current :: ptr
  activated_view :: ptr
  show_desktop_enabled :: bool
  show_active_only_enabled :: bool
  desktop_view :: ptr
  global_authentication_view :: ptr
  focused_view :: ptr
  server_ready :: bool
  next_allocs :: "ptr list"
  wm_signals :: "wm_signal list"

abbreviation vw :: "wm \<Rightarrow> ptr \<Rightarrow> view" where "vw s v \<equiv> wm_views s v"
abbreviation px :: "wm \<Rightarrow> ptr \<Rightarrow> view_proxy" where "px s p \<equiv> wm_proxies s p"
abbreviation ws :: "wm \<Rightarrow> ptr \<Rightarrow> workspace" where "ws s w \<equiv> wm_spaces s w"

definition upd_view :: "ptr \<Rightarrow> (view \<Rightarrow> view) \<Rightarrow> wm \<Rightarrow> wm" where
  "upd_view v f s = s\<lparr>wm_views := (wm_views s)(v := f (vw s v))\<rparr>"

definition upd_proxy :: "ptr \<Rightarrow> (view_proxy \<Rightarrow> view_proxy) \<Rightarrow> wm \<Rightarrow> wm" where
  "upd_proxy p f s = s\<lparr>wm_proxies := (wm_proxies s)(p := f (px s p))\<rparr>"

definition upd_space :: "ptr \<Rightarrow> (workspace \<Rightarrow> workspace) \<Rightarrow> wm \<Rightarrow> wm" where
  "upd_space w f s = s\<lparr>wm_spaces := (wm_spaces s)(w := f (ws s w))\<rparr>"

definition wm_emit :: "wm_signal \<Rightarrow> wm \<Rightarrow> wm" where
  "wm_emit e s = s\<lparr>wm_signals := wm_signals s @ [e]\<rparr>"

definition view_emit :: "ptr \<Rightarrow> view_signal \<Rightarrow> wm \<Rightarrow> wm" where
  "view_emit v e = upd_view v (emit e)"

definition alloc :: "wm \<Rightarrow> ptr \<times> wm" where
  "alloc s = (case next_allocs s of [] \<Rightarrow> (NULL, s) | p # ps \<Rightarrow> (p, s\<lparr>next_allocs := ps\<rparr>))"

subsection \<open>Layers\<close>

definition workspace_layer :: "layer \<Rightarrow> layer option" where
  "workspace_layer l = (if l \<in> {LAYER_BELOW, LAYER_NORMAL, LAYER_ABOVE} then Some l else None)"

definition view_manager_get_layer :: "wm \<Rightarrow> layer \<Rightarrow> bool \<Rightarrow> scene_parent" where
  "view_manager_get_layer s l in_workspace =
     (if \<not> in_workspace then LayerTree l
      else if l \<in> {LAYER_BELOW, LAYER_NORMAL, LAYER_ABOVE} then WorkspaceTree (ws_current s) l
      else LayerTree l)"

text \<open>The layer of the scene a view is in, found by walking up from its tree.\<close>

definition view_scene_layer :: "wm \<Rightarrow> ptr \<Rightarrow> layer" where
  "view_scene_layer s v =
     (case tree_parent (vw s v) of
        ProxyTree p \<Rightarrow> px_layer (px s p)
      | WorkspaceTree w l \<Rightarrow> l
      | LayerTree l \<Rightarrow> l)"

definition reparent :: "ptr \<Rightarrow> scene_parent \<Rightarrow> wm \<Rightarrow> wm" where
  "reparent v t = upd_view v (\<lambda>x. x\<lparr>tree_parent := t\<rparr>)"

subsection \<open>Proxies\<close>

definition view_proxy_by_workspace :: "wm \<Rightarrow> ptr \<Rightarrow> ptr \<Rightarrow> ptr" where
  "view_proxy_by_workspace s v w =
     (case filter (\<lambda>p. px_workspace (px s p) = w) (v_proxies (vw s v)) of [] \<Rightarrow> NULL | p # _ \<Rightarrow> p)"

definition proxy_layer :: "kywc_view \<Rightarrow> layer" where
  "proxy_layer b = (if kept_above b then LAYER_ABOVE else if kept_below b then LAYER_BELOW else LAYER_NORMAL)"

definition view_proxy_create :: "ptr \<Rightarrow> ptr \<Rightarrow> wm \<Rightarrow> ptr \<times> wm" where
  "view_proxy_create v w s =
     (let (p, s) = alloc s in
      if p = NULL then (NULL, s)
      else
        let s = upd_proxy p (\<lambda>_. \<lparr>px_view = v, px_workspace = w, px_layer = proxy_layer (base (vw s v))\<rparr>) s;
            s = upd_space w (\<lambda>x. x\<lparr>ws_proxies := p # ws_proxies x\<rparr>) s;
            s = upd_view v (\<lambda>x. x\<lparr>v_proxies := p # v_proxies x\<rparr>) s;
            s = (if mapped (base (vw s v)) then view_emit v (SigWorkspaceEnter w) (wm_emit (WsViewEnter w v) s) else s)
        in (p, s))"

definition view_proxy_destroy :: "ptr \<Rightarrow> wm \<Rightarrow> wm" where
  "view_proxy_destroy p s =
     (if p = NULL then s
      else
        let v = px_view (px s p); w = px_workspace (px s p);
            s = (if mapped (base (vw s v)) then view_emit v (SigWorkspaceLeave w) (wm_emit (WsViewLeave w v) s) else s);
            s = upd_view v (\<lambda>x. x\<lparr>v_proxies := removeAll p (v_proxies x)\<rparr>) s
        in upd_space w (\<lambda>x. x\<lparr>ws_proxies := removeAll p (ws_proxies x)\<rparr>) s)"

definition view_set_current_proxy :: "ptr \<Rightarrow> ptr \<Rightarrow> wm \<Rightarrow> wm option" where
  "view_set_current_proxy v p s =
     (if current_proxy (vw s v) = p then Some s
      else if p = NULL \<and> v_proxies (vw s v) \<noteq> [] then None
      else
        let s = (if p \<noteq> NULL then reparent v (ProxyTree p) s else s)
        in Some (view_emit v SigWorkspace (upd_view v (\<lambda>x. x\<lparr>current_proxy := p\<rparr>) s)))"

definition view_proxies_destroy :: "ptr \<Rightarrow> wm \<Rightarrow> wm option" where
  "view_proxies_destroy v s = view_set_current_proxy v NULL (fold view_proxy_destroy (v_proxies (vw s v)) s)"

text \<open>The loop over the parents of a modal view: the body is run for every parent up to the first modal
  one.\<close>

fun modal_chain :: "nat \<Rightarrow> (wm \<Rightarrow> wm option) \<Rightarrow> ptr \<Rightarrow> wm \<Rightarrow> wm option" where
  "modal_chain 0 body parent s = None"
| "modal_chain (Suc n) body parent s =
     (if parent = NULL then Some s
      else Option.bind (body s) (\<lambda>s.
        if modal (base (vw s parent)) then Some s
        else modal_chain n body (v_parent (vw s parent)) s))"

definition unset_sticky :: "ptr \<Rightarrow> wm \<Rightarrow> wm" where
  "unset_sticky v s =
     (if sticky (base (vw s v))
      then view_emit v SigCapabilities (upd_view v (upd_base (\<lambda>b. b\<lparr>sticky := False\<rparr>)) s) else s)"

fun view_do_set_workspace :: "nat \<Rightarrow> ptr \<Rightarrow> ptr \<Rightarrow> wm \<Rightarrow> wm option" where
  "view_do_set_workspace 0 v w s = None"
| "view_do_set_workspace (Suc n) v w s =
     (if w = NULL \<and> current_proxy (vw s v) = NULL then Some s
      else if w = NULL then view_proxies_destroy v s
      else Option.bind
        (if modal (base (vw s v))
         then modal_chain n (\<lambda>s. view_do_set_workspace n (v_parent (vw s v)) w s) (v_parent (vw s v)) s
         else Some s)
        (\<lambda>s.
          let found = view_proxy_by_workspace s v w;
              (proxy, s) = (if found \<noteq> NULL then (found, s) else view_proxy_create v w s)
          in if proxy = NULL then Some s
             else Option.bind
               (if tree_parent (vw s v) \<noteq> ProxyTree proxy then view_set_current_proxy v proxy s else Some s)
               (\<lambda>s. Some (unset_sticky v
                 (fold view_proxy_destroy (filter (\<lambda>p. p \<noteq> proxy) (v_proxies (vw s v))) s)))))"

definition view_set_workspace :: "nat \<Rightarrow> ptr \<Rightarrow> ptr \<Rightarrow> wm \<Rightarrow> wm option" where
  "view_set_workspace n v w s = (if w = NULL then None else view_do_set_workspace n v w s)"

definition view_unset_workspace :: "nat \<Rightarrow> ptr \<Rightarrow> layer \<Rightarrow> wm \<Rightarrow> wm option" where
  "view_unset_workspace n v l s =
     (if l \<in> {LAYER_BELOW, LAYER_NORMAL, LAYER_ABOVE} then None
      else view_do_set_workspace n v NULL (reparent v (LayerTree l) s))"

fun view_add_workspace :: "nat \<Rightarrow> ptr \<Rightarrow> ptr \<Rightarrow> wm \<Rightarrow> (ptr \<times> wm) option" where
  "view_add_workspace 0 v w s = None"
| "view_add_workspace (Suc n) v w s =
     (if v = NULL \<or> w = NULL then Some (NULL, s)
      else Option.bind
        (if modal (base (vw s v))
         then modal_chain n (\<lambda>s. map_option snd (view_add_workspace n (v_parent (vw s v)) w s)) (v_parent (vw s v)) s
         else Some s)
        (\<lambda>s. if view_proxy_by_workspace s v w \<noteq> NULL then Some (NULL, s)
              else
                let (p, s) = view_proxy_create v w s
                in if w = ws_current s then map_option (\<lambda>s. (p, s)) (view_set_current_proxy v p s)
                   else Some (p, s)))"

text \<open>The loop over the positions of the workspaces.\<close>

definition workspace_by_position :: "wm \<Rightarrow> nat \<Rightarrow> ptr" where
  "workspace_by_position s i = (if ws_count s \<le> i then NULL else ws_array s ! i)"

fun add_all_loop :: "nat \<Rightarrow> ptr \<Rightarrow> nat list \<Rightarrow> wm \<Rightarrow> wm option" where
  "add_all_loop n v [] s = Some s"
| "add_all_loop n v (i # is) s =
     Option.bind (view_add_workspace n v (workspace_by_position s i) s) (\<lambda>(_, s). add_all_loop n v is s)"

definition view_add_all_workspace :: "nat \<Rightarrow> ptr \<Rightarrow> wm \<Rightarrow> wm option" where
  "view_add_all_workspace n v s =
     (if v = NULL \<or> sticky (base (vw s v)) then Some s
      else map_option
        (\<lambda>s. view_emit v SigCapabilities (upd_view v (upd_base (\<lambda>b. b\<lparr>sticky := True\<rparr>)) s))
        (add_all_loop n v [0..<ws_count s] s))"

fun view_remove_workspace :: "nat \<Rightarrow> ptr \<Rightarrow> ptr \<Rightarrow> wm \<Rightarrow> wm option" where
  "view_remove_workspace 0 v w s = None"
| "view_remove_workspace (Suc n) v w s =
     (if v = NULL \<or> w = NULL then Some s
      else Option.bind
        (if modal (base (vw s v))
         then modal_chain n (\<lambda>s. view_remove_workspace n (v_parent (vw s v)) w s) (v_parent (vw s v)) s
         else Some s)
        (\<lambda>s.
          let view_proxy = view_proxy_by_workspace s v w in
          if view_proxy = NULL then Some s
          else case filter (\<lambda>p. p \<noteq> view_proxy) (rev (v_proxies (vw s v))) of
              [] \<Rightarrow> view_add_all_workspace (Suc n) v s
            | proxy # _ \<Rightarrow>
                Option.bind
                  (if current_proxy (vw s v) = view_proxy then view_set_current_proxy v proxy s else Some s)
                  (\<lambda>s. Some (unset_sticky v (view_proxy_destroy view_proxy s)))))"

subsection \<open>Stacking, layers and parents\<close>

definition view_set_layer_in_workspace :: "ptr \<Rightarrow> layer \<Rightarrow> wm \<Rightarrow> wm" where
  "view_set_layer_in_workspace v l s =
     (if v = NULL \<or> current_proxy (vw s v) = NULL then s
      else if l = LAYER_ACTIVE then reparent v (LayerTree LAYER_ACTIVE) s
      else fold (\<lambda>p s. case workspace_layer l of None \<Rightarrow> s | Some l \<Rightarrow> upd_proxy p (\<lambda>x. x\<lparr>px_layer := l\<rparr>) s)
             (v_proxies (vw s v)) s)"

definition view_follow_parent_layer :: "nat \<Rightarrow> ptr \<Rightarrow> ptr \<Rightarrow> wm \<Rightarrow> wm option" where
  "view_follow_parent_layer n v parent s =
     (let l = view_scene_layer s parent; vp = current_proxy (vw s v); pp = current_proxy (vw s parent) in
      if vp \<noteq> NULL \<and> pp \<noteq> NULL then Some (view_set_layer_in_workspace v l s)
      else if vp \<noteq> NULL then view_unset_workspace n v l s
      else if pp \<noteq> NULL
      then map_option (\<lambda>(_, s). view_set_layer_in_workspace v l s)
             (view_add_workspace n v (px_workspace (px s pp)) s)
      else Some (reparent v (LayerTree l) s))"

definition view_set_parent :: "nat \<Rightarrow> ptr \<Rightarrow> ptr \<Rightarrow> wm \<Rightarrow> wm option" where
  "view_set_parent n v parent s =
     (if v_parent (vw s v) = parent then Some s
      else
        let old = v_parent (vw s v);
            s = (if old \<noteq> NULL then upd_view old (\<lambda>x. x\<lparr>v_children := removeAll v (v_children x)\<rparr>) s else s)
        in map_option
          (\<lambda>s. view_emit v SigParent (upd_view v (\<lambda>x. x\<lparr>v_parent := parent\<rparr>) s))
          (if parent \<noteq> NULL
           then let s = upd_view parent (\<lambda>x. x\<lparr>v_children := v # v_children x\<rparr>) s
                in if view_scene_layer s v < view_scene_layer s parent then view_follow_parent_layer n v parent s
                   else Some s
           else Some s))"

fun raise_children :: "(ptr \<Rightarrow> wm \<Rightarrow> wm option) \<Rightarrow> ptr list \<Rightarrow> wm \<Rightarrow> wm option" where
  "raise_children f [] s = Some s"
| "raise_children f (c # cs) s = Option.bind (f c s) (raise_children f cs)"

definition raise_proxies :: "ptr list \<Rightarrow> wm \<Rightarrow> wm" where
  "raise_proxies ps s =
     fold (\<lambda>p s. upd_space (px_workspace (px s p)) (\<lambda>x. x\<lparr>ws_proxies := p # removeAll p (ws_proxies x)\<rparr>) s) ps s"

fun view_raise_to_top :: "nat \<Rightarrow> ptr \<Rightarrow> bool \<Rightarrow> wm \<Rightarrow> wm option" where
  "view_raise_to_top 0 v find_parent s = None"
| "view_raise_to_top (Suc n) v find_parent s =
     (if v = NULL then Some s
      else Option.bind
        (if v_parent (vw s v) \<noteq> NULL \<and> find_parent then view_raise_to_top n (v_parent (vw s v)) True s else Some s)
        (\<lambda>s.
          let s = (if current_proxy (vw s v) \<noteq> NULL then raise_proxies (v_proxies (vw s v)) s else s)
          in raise_children (\<lambda>c s. view_raise_to_top n c False s) (v_children (vw s v)) s))"

definition set_kept :: "ptr \<Rightarrow> (kywc_view \<Rightarrow> kywc_view) \<Rightarrow> layer \<Rightarrow> wm \<Rightarrow> wm" where
  "set_kept v f l s =
     (let s = upd_view v (upd_base f) s
      in view_emit v SigCapabilities (fold (\<lambda>p. upd_proxy p (\<lambda>x. x\<lparr>px_layer := l\<rparr>)) (v_proxies (vw s v)) s))"

definition kywc_view_set_kept_above :: "ptr \<Rightarrow> bool \<Rightarrow> wm \<Rightarrow> wm option" where
  "kywc_view_set_kept_above v k s =
     (if current_proxy (vw s v) = NULL then None
      else if kept_above (base (vw s v)) = k then Some s
      else Some (set_kept v (\<lambda>b. b\<lparr>kept_above := k, kept_below := False\<rparr>) (if k then LAYER_ABOVE else LAYER_NORMAL) s))"

definition kywc_view_set_kept_below :: "ptr \<Rightarrow> bool \<Rightarrow> wm \<Rightarrow> wm option" where
  "kywc_view_set_kept_below v k s =
     (if current_proxy (vw s v) = NULL then None
      else if kept_below (base (vw s v)) = k then Some s
      else Some (set_kept v (\<lambda>b. b\<lparr>kept_below := k, kept_above := False\<rparr>) (if k then LAYER_BELOW else LAYER_NORMAL) s))"

definition kywc_view_toggle_kept_above :: "ptr \<Rightarrow> wm \<Rightarrow> wm option" where
  "kywc_view_toggle_kept_above v s = kywc_view_set_kept_above v (\<not> kept_above (base (vw s v))) s"

definition kywc_view_toggle_kept_below :: "ptr \<Rightarrow> wm \<Rightarrow> wm option" where
  "kywc_view_toggle_kept_below v s = kywc_view_set_kept_below v (\<not> kept_below (base (vw s v))) s"

end
