(* ===== verification/ViewManager.thy ===== *)
theory ViewManager
  imports ViewTree "HOL-Library.Monad_Syntax"
begin

section \<open>Capabilities, activation and workspaces (\<^verbatim>\<open>view/view.c\<close>, \<^verbatim>\<open>view/workspace.c\<close>, \<^verbatim>\<open>view/stack_mode.c\<close>)\<close>

text \<open>
  Activating, minimizing and switching workspaces call one another, also through the signals the view
  manager listens to; they are one recursive definition with a bound on its depth, and \<^term>\<open>None\<close> is a
  failed assertion or an exceeded bound. The window mode is the stack mode, the only one the program
  registers.
\<close>

subsection \<open>The tree of views\<close>

fun view_has_modal_child :: "nat \<Rightarrow> wm \<Rightarrow> ptr \<Rightarrow> bool" where
  "view_has_modal_child 0 s v = False"
| "view_has_modal_child (Suc n) s v =
     list_ex (\<lambda>c. mapped (base (vw s c)) \<and> (modal (base (vw s c)) \<or> view_has_modal_child n s c)) (v_children (vw s v))"

definition view_has_modal_property :: "nat \<Rightarrow> wm \<Rightarrow> ptr \<Rightarrow> bool" where
  "view_has_modal_property n s v \<longleftrightarrow> modal (base (vw s v)) \<or> view_has_modal_child n s v"

fun view_find_descendant_modal :: "nat \<Rightarrow> wm \<Rightarrow> ptr \<Rightarrow> ptr" where
  "view_find_descendant_modal 0 s v = NULL"
| "view_find_descendant_modal (Suc n) s v =
     (case filter (\<lambda>c. modal (base (vw s c))) (v_children (vw s v)) of
        c # _ \<Rightarrow> view_find_descendant_modal n s c
      | [] \<Rightarrow> if modal (base (vw s v)) then v else NULL)"

fun view_has_descendant :: "nat \<Rightarrow> wm \<Rightarrow> ptr \<Rightarrow> ptr \<Rightarrow> bool" where
  "view_has_descendant 0 s v d = False"
| "view_has_descendant (Suc n) s v d =
     (if d = NULL then v_children (vw s v) \<noteq> []
      else list_ex (\<lambda>c. c = d \<or> view_has_descendant n s c d) (v_children (vw s v)))"

fun view_has_ancestor :: "nat \<Rightarrow> wm \<Rightarrow> ptr \<Rightarrow> ptr \<Rightarrow> bool" where
  "view_has_ancestor 0 s v a = False"
| "view_has_ancestor (Suc n) s v a =
     (if v_parent (vw s v) = NULL then False
      else if a = NULL then True
      else if v_parent (vw s v) = a then True
      else view_has_ancestor n s (v_parent (vw s v)) a)"

fun fullscreen_ancestor_loop :: "nat \<Rightarrow> wm \<Rightarrow> ptr \<Rightarrow> ptr \<Rightarrow> ptr option" where
  "fullscreen_ancestor_loop 0 s v ancestor = None"
| "fullscreen_ancestor_loop (Suc n) s v ancestor =
     (let parent = v_parent (vw s v) in
      if parent = NULL then Some ancestor
      else fullscreen_ancestor_loop n s parent (if fullscreen (base (vw s parent)) then parent else ancestor))"

definition view_find_fullscreen_ancestor :: "nat \<Rightarrow> wm \<Rightarrow> ptr \<Rightarrow> ptr option" where
  "view_find_fullscreen_ancestor n s v = (if v = NULL then Some NULL else fullscreen_ancestor_loop n s v NULL)"

subsection \<open>What a view can do\<close>

definition fixed_size :: "kywc_view \<Rightarrow> bool" where
  "fixed_size b \<longleftrightarrow> max_width b \<noteq> 0 \<and> max_height b \<noteq> 0 \<and> min_width b = max_width b \<and> min_height b = max_height b"

definition view_is_minimizable :: "nat \<Rightarrow> wm \<Rightarrow> ptr \<Rightarrow> bool" where
  "view_is_minimizable n s v =
     (if \<not> minimizable (base (vw s v)) then False
      else if \<not> minimized_when_show_desktop (vw s v) \<and> view_has_modal_property n s v then False
      else True)"

definition view_is_maximizable :: "nat \<Rightarrow> wm \<Rightarrow> ptr \<Rightarrow> bool" where
  "view_is_maximizable n s v =
     (let b = base (vw s v) in
      if \<not> maximizable b then False else if fullscreen b then False
      else if view_has_modal_child n s v then False else \<not> fixed_size b)"

definition view_is_fullscreenable :: "nat \<Rightarrow> wm \<Rightarrow> ptr \<Rightarrow> bool" where
  "view_is_fullscreenable n s v =
     (let b = base (vw s v) in
      if \<not> fullscreenable b then False
      else if view_has_modal_child n s v then False else \<not> fixed_size b)"

definition view_is_closeable :: "wm \<Rightarrow> ptr \<Rightarrow> bool" where
  "view_is_closeable s v =
     (if \<not> closeable (base (vw s v)) then False else if v_children (vw s v) \<noteq> [] then False else True)"

definition view_is_movable :: "nat \<Rightarrow> wm \<Rightarrow> ptr \<Rightarrow> bool" where
  "view_is_movable n s v =
     (let b = base (vw s v) in
      if \<not> movable b then False else if fullscreen b then False
      else if view_has_modal_child n s v then False else True)"

definition view_is_resizable :: "nat \<Rightarrow> wm \<Rightarrow> ptr \<Rightarrow> bool" where
  "view_is_resizable n s v =
     (let b = base (vw s v) in
      if \<not> resizable b then False else if fullscreen b then False
      else if view_has_modal_child n s v then False else \<not> fixed_size b)"

definition view_is_activatable :: "wm \<Rightarrow> ptr \<Rightarrow> bool" where
  "view_is_activatable s v = activatable (base (vw s v))"

definition view_is_focusable :: "wm \<Rightarrow> ptr \<Rightarrow> bool" where
  "view_is_focusable s v = focusable (base (vw s v))"

definition view_manager_get_layer_by_role :: "wm \<Rightarrow> kywc_view_role \<Rightarrow> scene_parent" where
  "view_manager_get_layer_by_role s r =
     (case r of
        KYWC_VIEW_ROLE_NORMAL \<Rightarrow> view_manager_get_layer s LAYER_NORMAL True
      | KYWC_VIEW_ROLE_DESKTOP \<Rightarrow> view_manager_get_layer s LAYER_DESKTOP False
      | KYWC_VIEW_ROLE_PANEL \<Rightarrow> view_manager_get_layer s LAYER_DOCK False
      | KYWC_VIEW_ROLE_APPLETPOPUP \<Rightarrow> view_manager_get_layer s LAYER_DOCK False
      | KYWC_VIEW_ROLE_ONSCREENDISPLAY \<Rightarrow> view_manager_get_layer s LAYER_ON_SCREEN_DISPLAY False
      | KYWC_VIEW_ROLE_NOTIFICATION \<Rightarrow> view_manager_get_layer s LAYER_NOTIFICATION False
      | KYWC_VIEW_ROLE_TOOLTIP \<Rightarrow> view_manager_get_layer s LAYER_POPUP False
      | KYWC_VIEW_ROLE_CRITICALNOTIFICATION \<Rightarrow> view_manager_get_layer s LAYER_CRITICAL_NOTIFICATION False
      | KYWC_VIEW_ROLE_SYSTEMWINDOW \<Rightarrow> view_manager_get_layer s LAYER_SYSTEM_WINDOW False
      | KYWC_VIEW_ROLE_SWITCHER \<Rightarrow> view_manager_get_layer s LAYER_SWITCHER False
      | KYWC_VIEW_ROLE_INPUTPANEL \<Rightarrow> view_manager_get_layer s LAYER_INPUT_PANEL False
      | KYWC_VIEW_ROLE_LOGOUT \<Rightarrow> view_manager_get_layer s LAYER_LOGOUT False
      | KYWC_VIEW_ROLE_SCREENLOCKNOTIFICATION \<Rightarrow> view_manager_get_layer s LAYER_SCREEN_LOCK_NOTIFICATION False
      | KYWC_VIEW_ROLE_WATERMARK \<Rightarrow> view_manager_get_layer s LAYER_WATERMARK False
      | KYWC_VIEW_ROLE_SCREENLOCK \<Rightarrow> view_manager_get_layer s LAYER_SCREEN_LOCK False
      | KYWC_VIEW_ROLE_AUTHENTICATION \<Rightarrow> view_manager_get_layer s LAYER_CRITICAL_NOTIFICATION False)"

definition role_capabilities :: "kywc_view \<Rightarrow> kywc_view" where
  "role_capabilities b =
     (let r = role b; normal = (r = KYWC_VIEW_ROLE_NORMAL) in
      b\<lparr>minimizable := normal, maximizable := normal, fullscreenable := normal,
        closeable := (r \<noteq> KYWC_VIEW_ROLE_DESKTOP \<and> r \<noteq> KYWC_VIEW_ROLE_PANEL),
        movable := (normal \<or> r = KYWC_VIEW_ROLE_AUTHENTICATION),
        resizable := (normal \<or> r = KYWC_VIEW_ROLE_PANEL),
        activatable := (r \<noteq> KYWC_VIEW_ROLE_PANEL \<and> r \<noteq> KYWC_VIEW_ROLE_TOOLTIP \<and> r \<noteq> KYWC_VIEW_ROLE_WATERMARK \<and>
          r \<noteq> KYWC_VIEW_ROLE_NOTIFICATION \<and> r \<noteq> KYWC_VIEW_ROLE_SWITCHER),
        focusable := (normal \<or> r = KYWC_VIEW_ROLE_DESKTOP \<or> r = KYWC_VIEW_ROLE_SYSTEMWINDOW \<or>
          r = KYWC_VIEW_ROLE_SCREENLOCK \<or> r = KYWC_VIEW_ROLE_APPLETPOPUP \<or> r = KYWC_VIEW_ROLE_ONSCREENDISPLAY \<or>
          r = KYWC_VIEW_ROLE_AUTHENTICATION),
        unconstrained := (r = KYWC_VIEW_ROLE_PANEL),
        has_round_corner := (normal \<or> r = KYWC_VIEW_ROLE_SYSTEMWINDOW \<or> r = KYWC_VIEW_ROLE_APPLETPOPUP \<or>
          r = KYWC_VIEW_ROLE_AUTHENTICATION)\<rparr>)"

text \<open>The surroundings of the view manager: the outputs, the implementation of the views, the views that
  want to take the focus themselves, whether the effect of a workspace switch is available, whether
  there is a seat, and a bound on the depth of the tree of views.\<close>

record wm_env =
  we_outputs :: output_env
  we_impl :: configure_impl
  we_offer_focus :: "ptr \<Rightarrow> bool"
  we_effect :: bool
  we_seat :: bool
  we_depth :: nat

text \<open>The part of \<^verbatim>\<open>global_authentication_create\<close> that concerns the view manager; the coloured area behind
  the view is left out.\<close>

definition global_authentication_create :: "ptr \<Rightarrow> wm \<Rightarrow> wm" where
  "global_authentication_create v s =
     (if global_authentication_view s \<noteq> NULL then s
      else let (a, s) = alloc s in if a = NULL then s else s\<lparr>global_authentication_view := v\<rparr>)"

definition view_apply_role :: "wm_env \<Rightarrow> ptr \<Rightarrow> wm \<Rightarrow> wm option" where
  "view_apply_role env v s =
     (let r = role (base (vw s v));
          l = view_manager_get_layer_by_role s r;
          s = (if r = KYWC_VIEW_ROLE_AUTHENTICATION then global_authentication_create v s else s);
          s = (if r = KYWC_VIEW_ROLE_DESKTOP then s\<lparr>desktop_view := v\<rparr> else s)
      in map_option
        (\<lambda>s. upd_view v (\<lambda>x. view_update_round_corner (we_outputs env) (upd_base role_capabilities x)) s)
        (if r = KYWC_VIEW_ROLE_NORMAL then view_set_workspace (we_depth env) v (ws_current s) s
         else case l of LayerTree l \<Rightarrow> view_unset_workspace (we_depth env) v l s | _ \<Rightarrow> None))"

definition view_set_focus :: "nat \<Rightarrow> ptr \<Rightarrow> bool \<Rightarrow> wm \<Rightarrow> wm" where
  "view_set_focus n v seat s =
     (if v = NULL \<or> \<not> seat then s
      else
        let d = view_find_descendant_modal n s v;
            v = (if d \<noteq> NULL then d else v)
        in if \<not> view_is_focusable s v then s else s\<lparr>focused_view := v\<rparr>)"

fun view_reparent_fullscreen :: "nat \<Rightarrow> ptr \<Rightarrow> bool \<Rightarrow> wm \<Rightarrow> wm option" where
  "view_reparent_fullscreen 0 v active s = None"
| "view_reparent_fullscreen (Suc n) v active s =
     (let s = (if active then reparent v (LayerTree LAYER_ACTIVE) s
               else if current_proxy (vw s v) \<noteq> NULL then reparent v (ProxyTree (current_proxy (vw s v))) s
               else s)
      in raise_children (\<lambda>c s. view_reparent_fullscreen n c active s) (v_children (vw s v)) s)"

text \<open>Running an operation of one view that may fail an assertion.\<close>

definition on_view :: "ptr \<Rightarrow> (view \<Rightarrow> view option) \<Rightarrow> wm \<Rightarrow> wm option" where
  "on_view v f s = map_option (\<lambda>x. s\<lparr>wm_views := (wm_views s)(v := x)\<rparr>) (f (vw s v))"

definition view_do_fullscreen :: "wm_env \<Rightarrow> ptr \<Rightarrow> bool \<Rightarrow> ptr \<Rightarrow> wm \<Rightarrow> wm option" where
  "view_do_fullscreen env v full kywc_output s =
     (let x = vw s v in
      if fullscreen (base x) = full \<and> (kywc_output = NULL \<or> kywc_output = v_output x) then Some s
      else
        let geo = fullscreen_geometry (we_outputs env) x full kywc_output;
            s = upd_view v (\<lambda>x. fullscreen_save x full) s
        in Option.bind (view_reparent_fullscreen (we_depth env) v full s)
             (on_view v (\<lambda>x. fullscreen_apply (we_impl env) x full geo)))"

subsection \<open>Requests in the stack mode\<close>

definition stack_mode_view_move :: "wm_env \<Rightarrow> ptr \<Rightarrow> int \<Rightarrow> int \<Rightarrow> wm \<Rightarrow> wm option" where
  "stack_mode_view_move env v x y s =
     (if \<not> view_is_movable (we_depth env) s v then Some s else on_view v (\<lambda>w. view_do_move (we_impl env) w x y) s)"

definition stack_mode_view_resize :: "wm_env \<Rightarrow> ptr \<Rightarrow> kywc_box \<Rightarrow> wm \<Rightarrow> wm option" where
  "stack_mode_view_resize env v g s =
     (if \<not> view_is_resizable (we_depth env) s v then Some s else on_view v (\<lambda>w. view_do_resize (we_impl env) w g) s)"

definition stack_mode_view_maximized :: "wm_env \<Rightarrow> ptr \<Rightarrow> bool \<Rightarrow> ptr \<Rightarrow> wm \<Rightarrow> wm option" where
  "stack_mode_view_maximized env v m out s =
     (if \<not> view_is_maximizable (we_depth env) s v then Some s
      else on_view v (\<lambda>w. view_do_maximized (we_outputs env) (we_impl env) w m out) s)"

definition stack_mode_view_fullscreen :: "wm_env \<Rightarrow> ptr \<Rightarrow> bool \<Rightarrow> ptr \<Rightarrow> wm \<Rightarrow> wm option" where
  "stack_mode_view_fullscreen env v f out s =
     (if \<not> view_is_fullscreenable (we_depth env) s v then Some s else view_do_fullscreen env v f out s)"

definition stack_mode_view_tiled :: "wm_env \<Rightarrow> ptr \<Rightarrow> kywc_tile \<Rightarrow> ptr \<Rightarrow> wm \<Rightarrow> wm option" where
  "stack_mode_view_tiled env v t out s =
     (if \<not> view_is_resizable (we_depth env) s v then Some s
      else on_view v (\<lambda>w. view_do_tiled (we_outputs env) (we_impl env) w t out) s)"

subsection \<open>Activation, minimization and workspace switches\<close>

definition emit_minimize :: "ptr \<Rightarrow> wm \<Rightarrow> wm" where
  "emit_minimize v = view_emit v SigMinimize"

fun show_active_only_loop :: "wm_env \<Rightarrow> bool \<Rightarrow> bool \<Rightarrow> ptr \<Rightarrow> ptr list \<Rightarrow> wm \<Rightarrow> wm option" where
  "show_active_only_loop env enabled apply_now current_view [] s = Some s"
| "show_active_only_loop env enabled apply_now current_view (p # ps) s =
     (let v = px_view (px s p); next = show_active_only_loop env enabled apply_now current_view ps;
          finish = (\<lambda>s. next (if \<not> enabled then upd_view v (\<lambda>x. x\<lparr>minimized_when_show_active_only := False\<rparr>) s else s))
      in if \<not> mapped (base (vw s v)) \<or> v = current_view \<or> view_has_modal_property (we_depth env) s v then next s
         else if \<not> enabled \<and> \<not> minimized_when_show_active_only (vw s v) then next s
         else
           let s = (if enabled
                    then upd_view v (\<lambda>x. x\<lparr>minimized_when_show_active_only := \<not> minimized (base x)\<rparr>) s else s)
           in if apply_now
              then if minimized (base (vw s v)) = enabled \<or> \<not> view_is_minimizable (we_depth env) s v then next s
                   else do {
                     s \<leftarrow> on_view v (\<lambda>x. call_configure (we_impl env)
                       (add_action VIEW_ACTION_MINIMIZE (upd_base (\<lambda>b. b\<lparr>minimized := enabled\<rparr>)
                         (x\<lparr>tree_enabled := \<not> enabled\<rparr>)))) s;
                     finish (emit_minimize v s)
                   }
              else finish s)"

definition view_manager_show_active_only :: "wm_env \<Rightarrow> bool \<Rightarrow> bool \<Rightarrow> wm \<Rightarrow> wm option" where
  "view_manager_show_active_only env enabled apply_now s =
     (if show_active_only_enabled s = enabled then Some s
      else
        let s = s\<lparr>show_active_only_enabled := enabled\<rparr> in
        if activated_view s = NULL then Some s
        else show_active_only_loop env enabled apply_now (activated_view s) (rev (ws_proxies (ws s (ws_current s)))) s)"

fun set_activated_loop :: "ptr list \<Rightarrow> wm \<Rightarrow> wm option" where
  "set_activated_loop [] s = Some s"
| "set_activated_loop (p # ps) s =
     do {
       s \<leftarrow> (if current_proxy (vw s (px_view (px s p))) \<noteq> p then view_set_current_proxy (px_view (px s p)) p s else Some s);
       set_activated_loop ps s
     }"

definition workspace_set_activated :: "ptr \<Rightarrow> bool \<Rightarrow> wm \<Rightarrow> wm option" where
  "workspace_set_activated w a s =
     (if ws_activated (ws s w) = a then Some s
      else do {
        s \<leftarrow> set_activated_loop (ws_proxies (ws s w)) (upd_space w (\<lambda>x. x\<lparr>ws_enabled := a\<rparr>) s);
        Some (wm_emit (WsActivate w) (upd_space w (\<lambda>x. x\<lparr>ws_activated := a\<rparr>) s))
      })"

text \<open>The first view of the current workspace that is mapped, not minimized and activatable, from the
  top; \<^term>\<open>None\<close> also when that view wants to take the focus itself.\<close>

definition topmost_view :: "wm_env \<Rightarrow> wm \<Rightarrow> ptr option" where
  "topmost_view env s =
     (case filter (\<lambda>p. let v = px_view (px s p) in
              mapped (base (vw s v)) \<and> \<not> minimized (base (vw s v)) \<and> view_is_activatable s v)
            (ws_proxies (ws s (ws_current s))) of
        [] \<Rightarrow> None
      | p # _ \<Rightarrow> if we_offer_focus env (px_view (px s p)) then None else Some (px_view (px s p)))"

text \<open>The loop over the views of the current workspace; its first function argument is the request to
  minimize a view.\<close>

fun show_desktop_loop ::
  "wm_env \<Rightarrow> (ptr \<Rightarrow> wm \<Rightarrow> wm option) \<Rightarrow> bool \<Rightarrow> bool \<Rightarrow> ptr list \<Rightarrow> wm \<Rightarrow> wm option" where
  "show_desktop_loop env minimize enabled apply_now [] s = Some s"
| "show_desktop_loop env minimize enabled apply_now (p # ps) s =
     (let v = px_view (px s p) in
      if \<not> mapped (base (vw s v)) then show_desktop_loop env minimize enabled apply_now ps s
      else if \<not> enabled \<and> \<not> minimized_when_show_desktop (vw s v)
      then show_desktop_loop env minimize enabled apply_now ps s
      else do {
        let s = (if enabled
                 then upd_view v (\<lambda>x. x\<lparr>minimized_when_show_desktop := \<not> minimized (base x)\<rparr>) s else s);
        s \<leftarrow> (if apply_now \<or> view_has_modal_property (we_depth env) s v then minimize v s else Some s);
        let s = (if \<not> enabled then upd_view v (\<lambda>x. x\<lparr>minimized_when_show_desktop := False\<rparr>) s else s);
        show_desktop_loop env minimize enabled apply_now ps s
      })"

text \<open>The functions of this group call one another. Each is given the others as \<open>call\<close>; \<open>run_wm\<close> ties the
  knot, with a bound on the depth of the calls.\<close>

datatype wm_call = CallSetActivated ptr bool | CallDoMinimized ptr bool | CallRequestMinimized ptr bool
  | CallDoActivate ptr | CallHideFullscreen | CallActivateTopmost | CallShowDesktop bool bool
  | CallWorkspaceActivate ptr | CallWorkspaceActivateWithEffect ptr

type_synonym wm_calls = "wm_call \<Rightarrow> wm \<Rightarrow> wm option"

definition view_set_activated :: "wm_calls \<Rightarrow> wm_env \<Rightarrow> ptr \<Rightarrow> bool \<Rightarrow> wm \<Rightarrow> wm option" where
  "view_set_activated call env v a s =
     (if activated (base (vw s v)) = a then Some s
      else do {
        let s = s\<lparr>activated_view := (if a then v else NULL)\<rparr>;
        s \<leftarrow> (if fullscreen (base (vw s v)) then view_reparent_fullscreen (we_depth env) v a s else Some s);
        ancestor \<leftarrow> view_find_fullscreen_ancestor (we_depth env) s v;
        s \<leftarrow> (if ancestor \<noteq> NULL then view_reparent_fullscreen (we_depth env) ancestor a s else Some s);
        s \<leftarrow> (if minimized (base (vw s v)) \<and> a then call (CallRequestMinimized v False) s else Some s);
        s \<leftarrow> on_view v (\<lambda>x. call_configure (we_impl env)
               (add_action VIEW_ACTION_ACTIVATE (upd_base (\<lambda>b. b\<lparr>activated := a\<rparr>) x))) s;
        Some (view_emit v SigActivate s)
      })"

definition view_do_minimized :: "wm_calls \<Rightarrow> wm_env \<Rightarrow> ptr \<Rightarrow> bool \<Rightarrow> wm \<Rightarrow> wm option" where
  "view_do_minimized call env v m s =
     (if minimized (base (vw s v)) = m then Some s
      else
        let s = upd_view v (\<lambda>x. add_action VIEW_ACTION_MINIMIZE (upd_base (\<lambda>b. b\<lparr>minimized := m\<rparr>) x)) s in
        if \<not> mapped (base (vw s v)) then Some s
        else do {
          let s = upd_view v (\<lambda>x. x\<lparr>tree_enabled := \<not> m\<rparr>) s;
          s \<leftarrow> on_view v (call_configure (we_impl env)) s;
          let s = emit_minimize v s;
          s \<leftarrow> (if activated_view s = v \<and> v \<noteq> NULL \<and> minimized (base (vw s v))
                then do { s \<leftarrow> call (CallSetActivated v False) s; call CallActivateTopmost s }
                else Some s);
          if \<not> minimized (base (vw s v))
          then do {
            s \<leftarrow> (if show_desktop_enabled s then call (CallShowDesktop False False) s else Some s);
            if show_active_only_enabled s then view_manager_show_active_only env False False s else Some s
          }
          else Some s
        })"

definition stack_mode_view_minimized :: "wm_calls \<Rightarrow> wm_env \<Rightarrow> ptr \<Rightarrow> bool \<Rightarrow> wm \<Rightarrow> wm option" where
  "stack_mode_view_minimized call env v m s =
     (if \<not> view_is_minimizable (we_depth env) s v then Some s else call (CallDoMinimized v m) s)"

definition view_do_activate :: "wm_calls \<Rightarrow> wm_env \<Rightarrow> ptr \<Rightarrow> wm \<Rightarrow> wm option" where
  "view_do_activate call env v s =
     (if v \<noteq> NULL \<and> \<not> view_is_activatable s v then Some s
      else do {
        let last = activated_view s;
        s \<leftarrow> (if last \<noteq> v
              then do {
                s \<leftarrow> (if show_active_only_enabled s then view_manager_show_active_only env False False s else Some s);
                s \<leftarrow> (if last \<noteq> NULL then call (CallSetActivated last False) s else Some s);
                s \<leftarrow> (if v \<noteq> NULL then call (CallSetActivated v True) s else Some s);
                Some (wm_emit (ActivateView (activated_view s)) s)
              }
              else if v \<noteq> NULL
              then do {
                ancestor \<leftarrow> view_find_fullscreen_ancestor (we_depth env) s v;
                let ancestor = (if ancestor = NULL then v else ancestor);
                if fullscreen (base (vw s ancestor)) then view_reparent_fullscreen (we_depth env) ancestor True s else Some s
              }
              else Some s);
        if v = NULL then Some s
        else
          let w = (if current_proxy (vw s v) \<noteq> NULL then px_workspace (px s (current_proxy (vw s v))) else NULL) in
          if w \<noteq> NULL \<and> w \<noteq> ws_current s then call (CallWorkspaceActivateWithEffect w) s else Some s
      })"

definition view_hide_fullscreen_view_in_empty_workspace :: "wm_calls \<Rightarrow> wm_env \<Rightarrow> wm \<Rightarrow> wm option" where
  "view_hide_fullscreen_view_in_empty_workspace call env s =
     (let v = activated_view s in
      if v = NULL then Some s
      else do {
        ancestor \<leftarrow> view_find_fullscreen_ancestor (we_depth env) s v;
        let ancestor = (if ancestor = NULL then v else ancestor);
        if fullscreen (base (vw s ancestor)) \<and> view_proxy_by_workspace s ancestor (ws_current s) = NULL
        then do {
          s \<leftarrow> view_reparent_fullscreen (we_depth env) ancestor False s;
          call (CallSetActivated ancestor False) s
        }
        else Some s
      })"

definition view_activate_topmost :: "wm_calls \<Rightarrow> wm_env \<Rightarrow> wm \<Rightarrow> wm option" where
  "view_activate_topmost call env s =
     (if global_authentication_view s \<noteq> NULL
      then let v = global_authentication_view s in
           map_option (view_set_focus (we_depth env) v (we_seat env)) (call (CallDoActivate v) s)
      else case topmost_view env s of
          Some v \<Rightarrow> map_option (view_set_focus (we_depth env) v (we_seat env)) (call (CallDoActivate v) s)
        | None \<Rightarrow> map_option (\<lambda>s. wm_emit (ActivateView (activated_view s)) s)
                    (call CallHideFullscreen s))"

definition view_manager_show_desktop :: "wm_calls \<Rightarrow> wm_env \<Rightarrow> bool \<Rightarrow> bool \<Rightarrow> wm \<Rightarrow> wm option" where
  "view_manager_show_desktop call env enabled apply_now s =
     (if show_desktop_enabled s = enabled then Some s
      else do {
        let s = s\<lparr>show_desktop_enabled := enabled\<rparr>;
        s \<leftarrow> show_desktop_loop env (\<lambda>v s. call (CallRequestMinimized v enabled) s) enabled apply_now
               (rev (ws_proxies (ws s (ws_current s)))) s;
        s \<leftarrow> (if apply_now \<and> \<not> enabled then call CallActivateTopmost s else Some s);
        let s = (if apply_now \<and> enabled \<and> desktop_view s \<noteq> NULL
                 then view_set_focus (we_depth env) (desktop_view s) (we_seat env) s else s);
        Some (wm_emit ShowDesktop s)
      })"

definition workspace_activate :: "wm_calls \<Rightarrow> wm_env \<Rightarrow> ptr \<Rightarrow> wm \<Rightarrow> wm option" where
  "workspace_activate call env w s =
     (let old = ws_current s in
      if old = w then Some s
      else do {
        s \<leftarrow> (if old \<noteq> NULL then workspace_set_activated old False s else Some s);
        s \<leftarrow> call (CallShowDesktop False True) s;
        s \<leftarrow> workspace_set_activated w True (s\<lparr>ws_current := w\<rparr>);
        call CallActivateTopmost s
      })"

datatype direction = DIRECTION_UP | DIRECTION_DOWN | DIRECTION_LEFT | DIRECTION_RIGHT

text \<open>The effect of a switch activates the next workspace itself, when it is available; the translation of
  the outputs is left out.\<close>

definition workspace_add_automatic_translation_effect ::
  "wm_calls \<Rightarrow> wm_env \<Rightarrow> ptr \<Rightarrow> ptr \<Rightarrow> direction \<Rightarrow> wm \<Rightarrow> (bool \<times> wm) option" where
  "workspace_add_automatic_translation_effect call env current next direction s =
     (if direction \<noteq> DIRECTION_LEFT \<and> direction \<noteq> DIRECTION_RIGHT then Some (False, s)
      else if \<not> we_effect env then Some (False, s)
      else if next = NULL \<or> next = current then Some (True, s)
      else map_option (\<lambda>s. (True, s)) (call (CallWorkspaceActivate next) s))"

definition workspace_activate_with_effect :: "wm_calls \<Rightarrow> wm_env \<Rightarrow> ptr \<Rightarrow> wm \<Rightarrow> wm option" where
  "workspace_activate_with_effect call env w s =
     do {
       let direction = (if ws_position (ws s (ws_current s)) < ws_position (ws s w)
                        then DIRECTION_RIGHT else DIRECTION_LEFT);
       (ok, s) \<leftarrow> workspace_add_automatic_translation_effect call env (ws_current s) w direction s;
       if \<not> ok then call (CallWorkspaceActivate w) s else Some s
     }"

primrec run_wm :: "nat \<Rightarrow> wm_env \<Rightarrow> wm_calls" where
  "run_wm 0 env c s = None"
| "run_wm (Suc n) env c s =
     (case c of
        CallSetActivated v a \<Rightarrow> view_set_activated (run_wm n env) env v a s
      | CallDoMinimized v m \<Rightarrow> view_do_minimized (run_wm n env) env v m s
      | CallRequestMinimized v m \<Rightarrow> stack_mode_view_minimized (run_wm n env) env v m s
      | CallDoActivate v \<Rightarrow> view_do_activate (run_wm n env) env v s
      | CallHideFullscreen \<Rightarrow> view_hide_fullscreen_view_in_empty_workspace (run_wm n env) env s
      | CallActivateTopmost \<Rightarrow> view_activate_topmost (run_wm n env) env s
      | CallShowDesktop e a \<Rightarrow> view_manager_show_desktop (run_wm n env) env e a s
      | CallWorkspaceActivate w \<Rightarrow> workspace_activate (run_wm n env) env w s
      | CallWorkspaceActivateWithEffect w \<Rightarrow> workspace_activate_with_effect (run_wm n env) env w s)"

subsection \<open>Requests of the user\<close>

definition stack_mode_view_activate :: "nat \<Rightarrow> wm_env \<Rightarrow> ptr \<Rightarrow> wm \<Rightarrow> wm option" where
  "stack_mode_view_activate n env v s =
     (if \<not> view_is_activatable s v then Some s
      else do {
        let descendant = view_find_descendant_modal (we_depth env) s v;
        s \<leftarrow> run_wm n env (CallDoActivate (if descendant \<noteq> NULL then descendant else v)) s;
        view_raise_to_top (we_depth env) v True s
      })"

definition kywc_view_activate :: "nat \<Rightarrow> wm_env \<Rightarrow> ptr \<Rightarrow> wm \<Rightarrow> wm option" where
  "kywc_view_activate n env v s =
     (if v = NULL then run_wm n env (CallDoActivate NULL) s else stack_mode_view_activate n env v s)"

definition stack_mode_view_click :: "nat \<Rightarrow> wm_env \<Rightarrow> ptr \<Rightarrow> bool \<Rightarrow> wm \<Rightarrow> wm option" where
  "stack_mode_view_click n env v seat s =
     map_option (view_set_focus (we_depth env) v seat) (kywc_view_activate n env v s)"

definition kywc_view_toggle_minimized :: "nat \<Rightarrow> wm_env \<Rightarrow> ptr \<Rightarrow> wm \<Rightarrow> wm option" where
  "kywc_view_toggle_minimized n env v s =
     run_wm n env (CallRequestMinimized v (\<not> minimized (base (vw s v)))) s"

definition kywc_view_toggle_maximized :: "wm_env \<Rightarrow> ptr \<Rightarrow> wm \<Rightarrow> wm option" where
  "kywc_view_toggle_maximized env v s = stack_mode_view_maximized env v (\<not> maximized (base (vw s v))) NULL s"

definition kywc_view_toggle_fullscreen :: "wm_env \<Rightarrow> ptr \<Rightarrow> wm \<Rightarrow> wm option" where
  "kywc_view_toggle_fullscreen env v s = stack_mode_view_fullscreen env v (\<not> fullscreen (base (vw s v))) NULL s"

text \<open>Unmapping: the listener of the activated view runs at the unmap signal.\<close>

definition detach_children :: "ptr list \<Rightarrow> wm \<Rightarrow> wm" where
  "detach_children cs s = fold (\<lambda>c. upd_view c (\<lambda>x. x\<lparr>v_parent := NULL\<rparr>)) cs s"

definition view_unmap :: "nat \<Rightarrow> wm_env \<Rightarrow> ptr \<Rightarrow> wm \<Rightarrow> wm option" where
  "view_unmap n env v s =
     do {
       let s = upd_view v (upd_base (\<lambda>b. b\<lparr>mapped := False\<rparr>)) s;
       let s = (if v = global_authentication_view s then s\<lparr>global_authentication_view := NULL\<rparr>
                else if v = desktop_view s then s\<lparr>desktop_view := NULL\<rparr> else s);
       let s = view_emit v SigUnmap s;
       s \<leftarrow> (if activated_view s = v \<and> v \<noteq> NULL
             then do { s \<leftarrow> run_wm n env (CallSetActivated v False) s; run_wm n env CallActivateTopmost s }
             else Some s);
       let s = fold (\<lambda>p s. wm_emit (WsViewLeave (px_workspace (px s p)) v) s) (v_proxies (vw s v)) s;
       let s = upd_view v (\<lambda>x. upd_pending (\<lambda>p. p\<lparr>configure_timeout := False\<rparr>)
                 (upd_base (\<lambda>b. b\<lparr>title := None, app_id := None\<rparr>) (x\<lparr>tree_enabled := False\<rparr>))) s;
       let parent = v_parent (vw s v);
       let s = (if parent \<noteq> NULL then upd_view parent (\<lambda>x. x\<lparr>v_children := removeAll v (v_children x)\<rparr>) s else s);
       let s = upd_view v (\<lambda>x. x\<lparr>v_parent := NULL\<rparr>) s;
       let cs = v_children (vw s v);
       Some (upd_view v (\<lambda>x. x\<lparr>v_children := []\<rparr>) (detach_children cs s))
     }"

definition view_destroy :: "ptr \<Rightarrow> wm \<Rightarrow> wm option" where
  "view_destroy v s =
     view_proxies_destroy v ((view_emit v SigDestroy s)\<lparr>view_list := removeAll v (view_list s)\<rparr>)"

end
