(* ===== verification/Workspaces.thy ===== *)
theory Workspaces
  imports ViewManager
begin

section \<open>The workspace manager (\<^verbatim>\<open>view/workspace.c\<close>)\<close>

text \<open>
  The workspaces are in an array of \<open>MAX_WORKSPACES\<close> slots, of which the first \<open>ws_count\<close> are in use; each
  workspace knows its position. \<^term>\<open>None\<close> is a failed assertion, a division by zero, a read outside the
  array in use, or an exceeded bound of the recursive functions. The translated word for the default
  name is an argument.
\<close>

definition MAX_WORKSPACES :: nat where
  "MAX_WORKSPACES = 15"

definition workspace_manager_update_count :: "nat \<Rightarrow> wm \<Rightarrow> wm option" where
  "workspace_manager_update_count count s =
     (if ws_rows s = 0 then None
      else let column = count div ws_rows s;
               column = (if count mod ws_rows s > 0 then column + 1 else column)
           in Some (s\<lparr>ws_count := count, ws_columns := column\<rparr>))"

definition workspace_manager_create :: "wm \<Rightarrow> wm" where
  "workspace_manager_create s =
     s\<lparr>ws_array := replicate MAX_WORKSPACES NULL, ws_count := 0, ws_rows := 2, ws_columns := 0, ws_current := NULL\<rparr>"

definition workspace_manager_set_rows :: "nat \<Rightarrow> wm \<Rightarrow> wm option" where
  "workspace_manager_set_rows rows s =
     (if rows = ws_rows s then Some s
      else workspace_manager_update_count (ws_count s) (s\<lparr>ws_rows := rows\<rparr>))"

definition workspace_set_enabled :: "ptr \<Rightarrow> bool \<Rightarrow> wm \<Rightarrow> wm" where
  "workspace_set_enabled w enabled = upd_space w (\<lambda>x. x\<lparr>ws_enabled := enabled\<rparr>)"

definition workspace_update_name :: "string \<Rightarrow> ptr \<Rightarrow> string option \<Rightarrow> wm \<Rightarrow> wm" where
  "workspace_update_name desktop w name s =
     (if has_custom_name (ws s w) \<and> name = None then s
      else wm_emit (WsName w) (upd_space w (\<lambda>x. x\<lparr>
             ws_name := (case name of Some n \<Rightarrow> n | None \<Rightarrow> desktop @ '' '' @ decimal (ws_position x + 1)),
             has_custom_name := (name \<noteq> None)\<rparr>) s))"

subsection \<open>Creating a workspace\<close>

text \<open>The loop that makes room at a position, for the indices it runs through.\<close>

fun shift_up :: "nat list \<Rightarrow> wm \<Rightarrow> wm" where
  "shift_up [] s = s"
| "shift_up (i # is) s =
     (let s = s\<lparr>ws_array := (ws_array s)[i := ws_array s ! (i - 1)]\<rparr>
      in shift_up is (upd_space (ws_array s ! i) (\<lambda>x. x\<lparr>ws_position := i\<rparr>) s))"

fun add_sticky_loop :: "nat \<Rightarrow> ptr \<Rightarrow> ptr list \<Rightarrow> wm \<Rightarrow> wm option" where
  "add_sticky_loop n w [] s = Some s"
| "add_sticky_loop n w (p # ps) s =
     do {
       s \<leftarrow> (if sticky (base (vw s (px_view (px s p))))
             then map_option snd (view_add_workspace n (px_view (px s p)) w s) else Some s);
       add_sticky_loop n w ps s
     }"

definition workspace_auto_add_views :: "nat \<Rightarrow> ptr \<Rightarrow> wm \<Rightarrow> wm option" where
  "workspace_auto_add_views n w s =
     (if \<not> server_ready s then Some s
      else add_sticky_loop n w (ws_proxies (ws s (ws_array s ! 0))) s)"

definition new_workspace :: workspace where
  "new_workspace = \<lparr>ws_position = 0, ws_name = '''', has_custom_name = False, ws_activated = False,
     ws_enabled = False, ws_proxies = []\<rparr>"

definition workspace_create :: "string \<Rightarrow> nat \<Rightarrow> string option \<Rightarrow> nat \<Rightarrow> wm \<Rightarrow> (ptr \<times> wm) option" where
  "workspace_create desktop n name position s =
     (if ws_count s = MAX_WORKSPACES then Some (NULL, s)
      else let (w, s) = alloc s in
        if w = NULL then Some (NULL, s)
        else do {
          let position = (if ws_count s < position then ws_count s else position);
          let s = upd_space w (\<lambda>_. new_workspace) s;
          let s = shift_up (rev [position + 1..<ws_count s + 1]) s;
          let s = upd_space w (\<lambda>x. x\<lparr>ws_position := position\<rparr>) s;
          s \<leftarrow> workspace_manager_update_count (ws_count s + 1) (s\<lparr>ws_array := (ws_array s)[position := w]\<rparr>);
          let s = wm_emit (NewWorkspace w) (workspace_update_name desktop w name s);
          s \<leftarrow> workspace_auto_add_views n w s;
          Some (w, s)
        })"

subsection \<open>Destroying a workspace\<close>

fun shift_down :: "string \<Rightarrow> nat list \<Rightarrow> wm \<Rightarrow> wm" where
  "shift_down desktop [] s = s"
| "shift_down desktop (i # is) s =
     (let s = s\<lparr>ws_array := (ws_array s)[i := ws_array s ! (i + 1)]\<rparr>;
          w = ws_array s ! i;
          s = wm_emit (WsPosition w) (upd_space w (\<lambda>x. x\<lparr>ws_position := i\<rparr>) s)
      in shift_down desktop is (workspace_update_name desktop w None s))"

fun move_views_loop :: "nat \<Rightarrow> ptr \<Rightarrow> ptr list \<Rightarrow> wm \<Rightarrow> wm option" where
  "move_views_loop n target [] s = Some s"
| "move_views_loop n target (p # ps) s =
     do {
       let v = px_view (px s p);
       (new_proxy, s) \<leftarrow> view_add_workspace n v target s;
       s \<leftarrow> (if new_proxy \<noteq> NULL then view_set_current_proxy v new_proxy s else Some s);
       move_views_loop n target ps (view_proxy_destroy p s)
     }"

definition fix_workspace :: "string \<Rightarrow> nat \<Rightarrow> wm_env \<Rightarrow> ptr \<Rightarrow> wm \<Rightarrow> wm option" where
  "fix_workspace desktop n env w s =
     do {
       let s = shift_down desktop [ws_position (ws s w)..<ws_count s - 1] s;
       s \<leftarrow> workspace_manager_update_count (ws_count s - 1) s;
       if ws_count s = 0 then Some s
       else do {
         let target = ws_array s ! (if ws_position (ws s w) \<noteq> 0 then ws_position (ws s w) - 1 else 0);
         s \<leftarrow> (if ws_current s = w then run_wm n env (CallWorkspaceActivate target) s else Some s);
         move_views_loop (we_depth env) target (ws_proxies (ws s w)) s
       }
     }"

definition workspace_destroy :: "string \<Rightarrow> nat \<Rightarrow> wm_env \<Rightarrow> ptr \<Rightarrow> wm \<Rightarrow> wm option" where
  "workspace_destroy desktop n env w s =
     map_option (wm_emit (WsDestroy w)) (fix_workspace desktop n env w s)"

subsection \<open>Moving a workspace\<close>

fun shift_right :: "string \<Rightarrow> nat list \<Rightarrow> wm \<Rightarrow> wm" where
  "shift_right desktop [] s = s"
| "shift_right desktop (i # is) s =
     (let s = s\<lparr>ws_array := (ws_array s)[i := ws_array s ! (i - 1)]\<rparr>;
          w = ws_array s ! i;
          s = wm_emit (WsPosition w) (upd_space w (\<lambda>x. x\<lparr>ws_position := i\<rparr>) s)
      in shift_right desktop is (workspace_update_name desktop w None s))"

definition workspace_set_position :: "string \<Rightarrow> ptr \<Rightarrow> nat \<Rightarrow> wm \<Rightarrow> wm" where
  "workspace_set_position desktop w position s =
     (let position = (if ws_count s \<le> position then ws_count s - 1 else position);
          old = ws_position (ws s w)
      in if position = old then s
         else
           let s = shift_right desktop (rev [position + 1..<old + 1]) s;
               s = shift_down desktop [old..<position] s;
               s = upd_space w (\<lambda>x. x\<lparr>ws_position := position\<rparr>) s;
               s = wm_emit (WsPosition w) (s\<lparr>ws_array := (ws_array s)[position := w]\<rparr>)
           in workspace_update_name desktop w None s)"

subsection \<open>Switching\<close>

definition workspace_manager_get_current :: "wm \<Rightarrow> ptr" where
  "workspace_manager_get_current s = ws_current s"

definition workspace_manager_get_count :: "wm \<Rightarrow> nat" where
  "workspace_manager_get_count s = ws_count s"

text \<open>The argument of a shortcut: a direction, or the number of a workspace.\<close>

datatype switch_target = SwitchDirection direction | SwitchNumber nat

definition workspace_switch_to :: "nat \<Rightarrow> wm_env \<Rightarrow> switch_target \<Rightarrow> wm \<Rightarrow> wm option" where
  "workspace_switch_to n env target s =
     (let current = int (ws_position (ws s (ws_current s)));
          last = int (ws_count s) - 1;
          pending = (case target of
              SwitchDirection DIRECTION_LEFT \<Rightarrow> current - 1
            | SwitchDirection DIRECTION_RIGHT \<Rightarrow> current + 1
            | SwitchDirection DIRECTION_UP \<Rightarrow> - 2
            | SwitchDirection DIRECTION_DOWN \<Rightarrow> - 1
            | SwitchNumber k \<Rightarrow> int k);
          direction = (case target of
              SwitchDirection DIRECTION_LEFT \<Rightarrow> DIRECTION_LEFT
            | SwitchDirection DIRECTION_RIGHT \<Rightarrow> DIRECTION_RIGHT
            | _ \<Rightarrow> if current < pending then DIRECTION_RIGHT else DIRECTION_LEFT);
          by_number = (case target of SwitchDirection DIRECTION_LEFT \<Rightarrow> False
            | SwitchDirection DIRECTION_RIGHT \<Rightarrow> False | _ \<Rightarrow> True)
      in if by_number \<and> (pending = current \<or> last < pending) then Some s
         else do {
           let pending_workspace = (if pending < 0 \<or> last < pending then NULL else ws_array s ! nat pending);
           (ok, s) \<leftarrow> workspace_add_automatic_translation_effect (run_wm n env) env (ws_array s ! nat current)
                        pending_workspace direction s;
           if \<not> ok
           then if pending < 0 \<or> last < pending then None
                else run_wm n env (CallWorkspaceActivate (ws_array s ! nat pending)) s
           else Some s
         })"

subsection \<open>Start and end\<close>

fun create_loop :: "string \<Rightarrow> nat \<Rightarrow> nat list \<Rightarrow> wm \<Rightarrow> wm option" where
  "create_loop desktop n [] s = Some s"
| "create_loop desktop n (i # is) s =
     do { (_, s) \<leftarrow> workspace_create desktop n None i s; create_loop desktop n is s }"

definition workspace_server_ready :: "string \<Rightarrow> nat \<Rightarrow> wm_env \<Rightarrow> nat \<Rightarrow> wm \<Rightarrow> wm option" where
  "workspace_server_ready desktop n env num_workspaces s =
     do {
       (w, s) \<leftarrow> workspace_create desktop (we_depth env) None 0 s;
       s \<leftarrow> run_wm n env (CallWorkspaceActivate w) s;
       create_loop desktop (we_depth env) [1..<num_workspaces] s
     }"

fun destroy_all_loop :: "nat \<Rightarrow> string \<Rightarrow> nat \<Rightarrow> wm_env \<Rightarrow> wm \<Rightarrow> wm option" where
  "destroy_all_loop 0 desktop n env s = (if ws_count s = 0 then Some s else None)"
| "destroy_all_loop (Suc k) desktop n env s =
     (if ws_count s = 0 then Some s
      else do { s \<leftarrow> workspace_destroy desktop n env (ws_array s ! 0) s; destroy_all_loop k desktop n env s })"

definition handle_display_destroy :: "string \<Rightarrow> nat \<Rightarrow> wm_env \<Rightarrow> wm \<Rightarrow> wm option" where
  "handle_display_destroy desktop n env s =
     destroy_all_loop (ws_count s) desktop n env (s\<lparr>ws_current := NULL\<rparr>)"

end
