(* ===== verification/WorkspaceArray.thy ===== *)
theory WorkspaceArray
  imports Workspaces ViewProofs
begin

section \<open>The array of workspaces\<close>

text \<open>
  What the operations on views leave alone of the workspaces, for all of them at once; the loops that shift
  the array of workspaces in closed form; the invariant of the array, and inserting into and deleting from
  the list it holds.
\<close>

subsection \<open>The frame of the view operations\<close>

definition space_frame :: "wm \<Rightarrow> ptr list \<times> nat \<times> nat \<times> nat \<times> (ptr \<Rightarrow> nat \<times> string \<times> bool)" where
  "space_frame s = (ws_array s, ws_count s, ws_rows s, ws_columns s,
     \<lambda>w. (ws_position (ws s w), ws_name (ws s w), has_custom_name (ws s w)))"

lemma space_frame_upd [simp]:
  "space_frame (upd_view v f s) = space_frame s" "space_frame (upd_proxy p g s) = space_frame s"
  "space_frame (wm_emit e s) = space_frame s" "space_frame (view_emit v e' s) = space_frame s"
  "space_frame (reparent v t s) = space_frame s"
  by (simp_all add: space_frame_def upd_view_def upd_proxy_def wm_emit_def view_emit_def reparent_def)

lemma space_frame_fields [simp]:
  "space_frame (s\<lparr>activated_view := a\<rparr>) = space_frame s"
  "space_frame (s\<lparr>show_desktop_enabled := b\<rparr>) = space_frame s"
  "space_frame (s\<lparr>show_active_only_enabled := b\<rparr>) = space_frame s"
  "space_frame (s\<lparr>ws_current := a\<rparr>) = space_frame s"
  "space_frame (s\<lparr>focused_view := a\<rparr>) = space_frame s"
  "space_frame (s\<lparr>next_allocs := l\<rparr>) = space_frame s"
  "space_frame (s\<lparr>wm_views := vs\<rparr>) = space_frame s"
  by (simp_all add: space_frame_def)

lemma space_frame_proxies [simp]:
  "space_frame (upd_space w (\<lambda>x. x\<lparr>ws_proxies := f x\<rparr>) s) = space_frame s"
  "space_frame (upd_space w (\<lambda>x. x\<lparr>ws_enabled := b\<rparr>) s) = space_frame s"
  "space_frame (upd_space w (\<lambda>x. x\<lparr>ws_activated := b\<rparr>) s) = space_frame s"
  by (auto simp: space_frame_def upd_space_def fun_eq_iff)

lemma alloc_frame [simp]: "space_frame (snd (alloc s)) = space_frame s"
  by (simp add: alloc_def split: list.split)

lemma view_proxy_create_frame [simp]: "space_frame (snd (view_proxy_create v w s)) = space_frame s"
proof -
  obtain p s1 where a: "alloc s = (p, s1)" by (cases "alloc s")
  then have "space_frame s1 = space_frame s" using alloc_frame [of s] by simp
  then show ?thesis by (simp add: view_proxy_create_def a Let_def)
qed

lemma view_proxy_destroy_frame [simp]: "space_frame (view_proxy_destroy p s) = space_frame s"
  by (simp add: view_proxy_destroy_def Let_def)

lemma fold_frame: "(\<And>x s. space_frame (f x s) = space_frame s) \<Longrightarrow> space_frame (fold f xs s) = space_frame s"
  by (induction xs arbitrary: s) auto

text \<open>What the calls of the view manager leave alone is an interface: any part of the state that does not
  change with the views, the signals, the fields of the manager and the activation of a workspace is kept by
  all of them.\<close>

definition keeps_frame :: "(wm \<Rightarrow> 'f) \<Rightarrow> ('a \<Rightarrow> wm \<Rightarrow> wm option) \<Rightarrow> bool" where
  "keeps_frame kept f \<longleftrightarrow> (\<forall>x s s'. f x s = Some s' \<longrightarrow> kept s' = kept s)"

locale view_frame =
  fixes kept :: "wm \<Rightarrow> 'f"
  assumes frame_upd [simp]: "kept (upd_view v f s) = kept s" "kept (wm_emit e s) = kept s"
      "kept (s\<lparr>wm_views := vs\<rparr>) = kept s"
    and frame_fields [simp]: "kept (s\<lparr>activated_view := a\<rparr>) = kept s" "kept (s\<lparr>show_desktop_enabled := b\<rparr>) = kept s"
      "kept (s\<lparr>show_active_only_enabled := b\<rparr>) = kept s" "kept (s\<lparr>ws_current := a\<rparr>) = kept s"
      "kept (s\<lparr>focused_view := a\<rparr>) = kept s"
    and frame_spaces [simp]: "kept (upd_space w (\<lambda>x. x\<lparr>ws_enabled := b\<rparr>) s) = kept s"
      "kept (upd_space w (\<lambda>x. x\<lparr>ws_activated := b\<rparr>) s) = kept s"
begin

lemma frame_derived [simp]: "kept (view_emit v e s) = kept s" "kept (reparent v t s) = kept s"
  by (simp_all add: view_emit_def reparent_def)

lemma view_set_current_proxy_frame: "view_set_current_proxy v p s = Some s' \<Longrightarrow> kept s' = kept s"
  by (auto simp: view_set_current_proxy_def Let_def split: if_splits)

lemma on_view_frame: "on_view v f s = Some s' \<Longrightarrow> kept s' = kept s"
  by (auto simp: on_view_def)

lemma keeps_frameD: "keeps_frame kept f \<Longrightarrow> f x s = Some s' \<Longrightarrow> kept s' = kept s"
  by (auto simp: keeps_frame_def)

lemma raise_children_frame:
  assumes f: "keeps_frame kept f"
  shows "raise_children f cs s = Some s' \<Longrightarrow> kept s' = kept s"
proof (induction cs arbitrary: s)
  case (Cons c cs)
  then show ?case by (auto split: bind_splits dest!: Cons.IH keeps_frameD [OF f])
qed simp

lemma view_reparent_fullscreen_frame:
  "view_reparent_fullscreen n v a s = Some s' \<Longrightarrow> kept s' = kept s"
proof (induction n arbitrary: v s s')
  case (Suc n)
  let ?t = "if a then reparent v (LayerTree LAYER_ACTIVE) s
     else if current_proxy (vw s v) \<noteq> NULL then reparent v (ProxyTree (current_proxy (vw s v))) s else s"
  have "raise_children (\<lambda>c s. view_reparent_fullscreen n c a s) (v_children (vw ?t v)) ?t = Some s'"
    using Suc.prems by (simp add: Let_def)
  then have "kept s' = kept ?t" 
    by (rule raise_children_frame [rotated]) (simp add: keeps_frame_def Suc.IH)
  then show ?case by simp
qed simp

lemma show_active_only_loop_frame:
  "show_active_only_loop env e a c ps s = Some s' \<Longrightarrow> kept s' = kept s"
proof (induction ps arbitrary: s)
  case (Cons p ps)
  then show ?case
    by (auto simp: Let_def emit_minimize_def split: if_splits bind_splits dest!: Cons.IH on_view_frame)
qed simp

lemma view_manager_show_active_only_frame:
  "view_manager_show_active_only env e a s = Some s' \<Longrightarrow> kept s' = kept s"
  by (auto simp: view_manager_show_active_only_def Let_def split: if_splits dest!: show_active_only_loop_frame)

lemma set_activated_loop_frame: "set_activated_loop ps s = Some s' \<Longrightarrow> kept s' = kept s"
proof (induction ps arbitrary: s)
  case (Cons p ps)
  then show ?case
    by (auto split: if_splits bind_splits dest!: Cons.IH view_set_current_proxy_frame)
qed simp

lemma workspace_set_activated_frame: "workspace_set_activated w a s = Some s' \<Longrightarrow> kept s' = kept s"
  by (auto simp: workspace_set_activated_def split: if_splits bind_splits dest!: set_activated_loop_frame)

lemma view_set_focus_frame [simp]: "kept (view_set_focus n v b s) = kept s"
  by (simp add: view_set_focus_def Let_def)

lemma show_desktop_loop_frame:
  assumes f: "keeps_frame kept f"
  shows "show_desktop_loop env f e a ps s = Some s' \<Longrightarrow> kept s' = kept s"
proof (induction ps arbitrary: s e a)
  case (Cons p ps)
  from Cons.prems show ?case
    by (auto simp: Let_def split: if_splits bind_splits dest!: Cons.IH keeps_frameD [OF f])
qed simp

lemmas frames = view_set_current_proxy_frame on_view_frame view_reparent_fullscreen_frame
  view_manager_show_active_only_frame workspace_set_activated_frame

text \<open>The functions that call one another, for any \<open>call\<close> that keeps the frame.\<close>

lemma view_set_activated_frame:
  assumes k: "keeps_frame kept call" and "view_set_activated call env v a s = Some s'"
  shows "kept s' = kept s"
  using assms(2)
  by (auto simp: view_set_activated_def Let_def split: if_splits bind_splits dest!: frames keeps_frameD [OF k])

lemma view_do_minimized_frame:
  assumes k: "keeps_frame kept call" and "view_do_minimized call env v m s = Some s'"
  shows "kept s' = kept s"
  using assms(2)
  by (auto simp: view_do_minimized_def Let_def emit_minimize_def split: if_splits bind_splits dest!: frames keeps_frameD [OF k])

lemma view_do_activate_frame:
  assumes k: "keeps_frame kept call" and "view_do_activate call env v s = Some s'"
  shows "kept s' = kept s"
  using assms(2)
  by (auto simp: view_do_activate_def Let_def split: if_splits bind_splits dest!: frames keeps_frameD [OF k])

lemma view_hide_fullscreen_frame:
  assumes k: "keeps_frame kept call" and "view_hide_fullscreen_view_in_empty_workspace call env s = Some s'"
  shows "kept s' = kept s"
  using assms(2)
  by (auto simp: view_hide_fullscreen_view_in_empty_workspace_def Let_def split: if_splits bind_splits
      dest!: frames keeps_frameD [OF k])

lemma view_activate_topmost_frame:
  assumes k: "keeps_frame kept call" and "view_activate_topmost call env s = Some s'"
  shows "kept s' = kept s"
  using assms(2)
  by (auto simp: view_activate_topmost_def Let_def split: if_splits option.splits dest!: keeps_frameD [OF k])

lemma view_manager_show_desktop_frame:
  assumes "keeps_frame kept call" and "view_manager_show_desktop call env e a s = Some s'"
  shows "kept s' = kept s"
proof -
  have "keeps_frame kept (\<lambda>v. call (CallRequestMinimized v b))" for b
    using assms(1) by (simp add: keeps_frame_def)
  note loop = show_desktop_loop_frame [OF this]
  from assms(2) show ?thesis
    by (auto simp: view_manager_show_desktop_def Let_def split: if_splits bind_splits
        dest!: loop keeps_frameD [OF assms(1)])
qed

lemma workspace_activate_frame:
  assumes k: "keeps_frame kept call" and "workspace_activate call env w s = Some s'"
  shows "kept s' = kept s"
  using assms(2)
  by (auto simp: workspace_activate_def Let_def split: if_splits bind_splits dest!: frames keeps_frameD [OF k])

lemma effect_frame:
  assumes k: "keeps_frame kept call" and "workspace_add_automatic_translation_effect call env c nx d s = Some (b, s')"
  shows "kept s' = kept s"
  using assms(2)
  by (auto simp: workspace_add_automatic_translation_effect_def split: if_splits dest!: keeps_frameD [OF k])

lemma workspace_activate_with_effect_frame:
  assumes k: "keeps_frame kept call" and "workspace_activate_with_effect call env w s = Some s'"
  shows "kept s' = kept s"
  using assms(2)
  by (auto simp: workspace_activate_with_effect_def Let_def split: if_splits bind_splits dest!: effect_frame [OF k] keeps_frameD [OF k])

lemma run_wm_frame: "run_wm n env c s = Some s' \<Longrightarrow> kept s' = kept s"
proof (induction n arbitrary: c s s')
  case (Suc n)
  then have k: "keeps_frame kept (run_wm n env)" by (simp add: keeps_frame_def)
  from Suc.prems show ?case
    by (auto simp: stack_mode_view_minimized_def split: wm_call.splits if_splits
        dest!: keeps_frameD [OF k] view_set_activated_frame [OF k] view_do_minimized_frame [OF k] view_do_activate_frame [OF k]
          view_hide_fullscreen_frame [OF k] view_activate_topmost_frame [OF k] view_manager_show_desktop_frame [OF k]
          workspace_activate_frame [OF k] workspace_activate_with_effect_frame [OF k])
qed simp

end

interpretation sf: view_frame space_frame
  by unfold_locales simp_all

text \<open>The proxies and the lists of the workspaces are such a part too: the calls of the view manager do not
  move a view to another workspace.\<close>

definition member_frame :: "wm \<Rightarrow> (ptr \<Rightarrow> ptr list) \<times> (ptr \<Rightarrow> view_proxy) \<times> ptr list" where
  "member_frame s = (\<lambda>w. ws_proxies (ws s w), wm_proxies s, next_allocs s)"

interpretation mf: view_frame member_frame
  by unfold_locales (auto simp: member_frame_def upd_view_def wm_emit_def upd_space_def fun_eq_iff)

subsection \<open>The loops that shift the array\<close>

text \<open>What a step of the loops makes of the workspace it moves to index \<open>i\<close>.\<close>

definition default_name :: "string \<Rightarrow> nat \<Rightarrow> string" where
  "default_name desktop i = desktop @ '' '' @ decimal (i + 1)"

definition renumber :: "string \<Rightarrow> nat \<Rightarrow> workspace \<Rightarrow> workspace" where
  "renumber desktop i x =
     (if has_custom_name x then x\<lparr>ws_position := i\<rparr>
      else x\<lparr>ws_position := i, ws_name := default_name desktop i, has_custom_name := False\<rparr>)"

lemma renumber_simps [simp]:
  "ws_position (renumber desktop i x) = i" "has_custom_name (renumber desktop i x) = has_custom_name x"
  "ws_proxies (renumber desktop i x) = ws_proxies x" "ws_activated (renumber desktop i x) = ws_activated x"
  "\<not> has_custom_name x \<Longrightarrow> ws_name (renumber desktop i x) = default_name desktop i"
  "has_custom_name x \<Longrightarrow> ws_name (renumber desktop i x) = ws_name x"
  by (simp_all add: renumber_def)

text \<open>The state outside the array, the workspaces and the signals.\<close>

definition rest_of :: "wm \<Rightarrow> wm" where
  "rest_of s = s\<lparr>ws_array := [], wm_spaces := \<lambda>_. new_workspace, wm_signals := []\<rparr>"

lemma rest_of_upd [simp]:
  "rest_of (wm_emit e s) = rest_of s" "rest_of (upd_space w f s) = rest_of s"
  "rest_of (s\<lparr>ws_array := a\<rparr>) = rest_of s" "rest_of (workspace_update_name d w nm s) = rest_of s"
  by (simp_all add: rest_of_def wm_emit_def upd_space_def workspace_update_name_def)

lemma rest_ofD:
  assumes "rest_of t = rest_of s"
  shows "ws_count t = ws_count s" "ws_rows t = ws_rows s" "ws_columns t = ws_columns s"
    "ws_current t = ws_current s" "wm_views t = wm_views s" "wm_proxies t = wm_proxies s"
    "next_allocs t = next_allocs s" "server_ready t = server_ready s" "activated_view t = activated_view s"
  using assms [THEN arg_cong, of ws_count] assms [THEN arg_cong, of ws_rows] assms [THEN arg_cong, of ws_columns]
    assms [THEN arg_cong, of ws_current] assms [THEN arg_cong, of wm_views] assms [THEN arg_cong, of wm_proxies]
    assms [THEN arg_cong, of next_allocs] assms [THEN arg_cong, of server_ready]
    assms [THEN arg_cong, of activated_view]
  by (simp_all add: rest_of_def)

lemma spaces_upd [simp]:
  "ws_array (wm_emit e s) = ws_array s" "wm_spaces (wm_emit e s) = wm_spaces s"
  "ws_array (upd_space w f s) = ws_array s" "wm_spaces (upd_space w f s) = (wm_spaces s)(w := f (ws s w))"
  "ws_array (workspace_update_name d w nm s) = ws_array s"
  by (simp_all add: wm_emit_def upd_space_def workspace_update_name_def)

lemma rename_step [simp]:
  "wm_spaces (workspace_update_name d w None (wm_emit e (upd_space w (\<lambda>x. x\<lparr>ws_position := i\<rparr>) s))) =
     (wm_spaces s)(w := renumber d i (ws s w))"
  by (simp add: workspace_update_name_def renumber_def default_name_def)

lemma shift_rest [simp]:
  "rest_of (shift_up is s) = rest_of s" "rest_of (shift_down d is s) = rest_of s"
  "rest_of (shift_right d is s) = rest_of s"
  by (induction "is" arbitrary: s) (simp_all add: Let_def)

lemma shift_length [simp]:
  "length (ws_array (shift_up is s)) = length (ws_array s)"
  "length (ws_array (shift_down d is s)) = length (ws_array s)"
  "length (ws_array (shift_right d is s)) = length (ws_array s)"
  by (induction "is" arbitrary: s) (simp_all add: Let_def)

text \<open>The loops in closed form. \<open>f i\<close> is what is done to the workspace that arrives at index \<open>i\<close>.\<close>

definition moved_right :: "(nat \<Rightarrow> workspace \<Rightarrow> workspace) \<Rightarrow> nat \<Rightarrow> nat \<Rightarrow> wm \<Rightarrow> wm \<Rightarrow> bool" where
  "moved_right f p c s t \<longleftrightarrow>
     (\<forall>j < length (ws_array s). ws_array t ! j = (if p < j \<and> j \<le> c then ws_array s ! (j - 1) else ws_array s ! j)) \<and>
     (\<forall>k. p \<le> k \<and> k < c \<longrightarrow> ws t (ws_array s ! k) = f (Suc k) (ws s (ws_array s ! k))) \<and>
     (\<forall>w. (\<forall>k. p \<le> k \<and> k < c \<longrightarrow> ws_array s ! k \<noteq> w) \<longrightarrow> ws t w = ws s w)"

definition moved_left :: "(nat \<Rightarrow> workspace \<Rightarrow> workspace) \<Rightarrow> nat \<Rightarrow> nat \<Rightarrow> wm \<Rightarrow> wm \<Rightarrow> bool" where
  "moved_left f p q s t \<longleftrightarrow>
     (\<forall>j < length (ws_array s). ws_array t ! j = (if p \<le> j \<and> j < q then ws_array s ! Suc j else ws_array s ! j)) \<and>
     (\<forall>k. p < k \<and> k \<le> q \<longrightarrow> ws t (ws_array s ! k) = f (k - 1) (ws s (ws_array s ! k))) \<and>
     (\<forall>w. (\<forall>k. p < k \<and> k \<le> q \<longrightarrow> ws_array s ! k \<noteq> w) \<longrightarrow> ws t w = ws s w)"

text \<open>One step of a loop to the right, then the rest.\<close>

lemma moved_right_step:
  assumes "p \<le> c" "Suc c < length (ws_array s)" "distinct (take (Suc c) (ws_array s))"
    and "ws_array s1 = (ws_array s)[Suc c := ws_array s ! c]"
    and "wm_spaces s1 = (wm_spaces s)(ws_array s ! c := f (Suc c) (ws s (ws_array s ! c)))"
    and "moved_right f p c s1 t"
  shows "moved_right f p (Suc c) s t"
proof -
  have d: "ws_array s ! k \<noteq> ws_array s ! c" if "k < c" for k
    using assms(2,3) that by (auto simp: distinct_conv_nth)
  show ?thesis
    using assms(1,2,6) d unfolding moved_right_def assms(4,5)
    by (auto simp: nth_list_update less_Suc_eq le_Suc_eq)
qed

lemma moved_left_step:
  assumes "p < q" "q < length (ws_array s)" and ne: "\<And>j. Suc p < j \<Longrightarrow> j \<le> q \<Longrightarrow> ws_array s ! j \<noteq> ws_array s ! Suc p"
    and "ws_array s1 = (ws_array s)[p := ws_array s ! Suc p]"
    and "wm_spaces s1 = (wm_spaces s)(ws_array s ! Suc p := f p (ws s (ws_array s ! Suc p)))"
    and m: "moved_left f (Suc p) q s1 t"
  shows "moved_left f p q s t"
  unfolding moved_left_def
proof (intro conjI allI impI)
  fix j assume "j < length (ws_array s)"
  then show "ws_array t ! j = (if p \<le> j \<and> j < q then ws_array s ! Suc j else ws_array s ! j)"
    using m assms(1,2) unfolding moved_left_def assms(4) by (auto simp: nth_list_update)
next
  fix k assume k: "p < k \<and> k \<le> q"
  show "ws t (ws_array s ! k) = f (k - 1) (ws s (ws_array s ! k))"
  proof (cases "k = Suc p")
    case True
    have "ws t (ws_array s ! Suc p) = ws s1 (ws_array s ! Suc p)"
      using m ne assms(1,2) unfolding moved_left_def assms(4) by (auto simp: nth_list_update)
    then show ?thesis by (simp add: True assms(5))
  next
    case False
    then have "Suc p < k" using k by simp
    then show ?thesis using m k ne [of k] unfolding moved_left_def assms(4,5) by auto
  qed
next
  fix w assume w: "\<forall>k. p < k \<and> k \<le> q \<longrightarrow> ws_array s ! k \<noteq> w"
  then have "w \<noteq> ws_array s ! Suc p" using assms(1) by auto
  then show "ws t w = ws s w" using m w unfolding moved_left_def assms(4,5) by auto
qed

lemma upt_rev_Suc: "p \<le> c \<Longrightarrow> rev [p + 1..<Suc c + 1] = Suc c # rev [p + 1..<c + 1]"
  by simp

lemma moved_right_refl: "moved_right f p p s s"
  by (auto simp: moved_right_def)

lemma shift_up_moved:
  "p \<le> c \<Longrightarrow> c < length (ws_array s) \<Longrightarrow> distinct (take c (ws_array s)) \<Longrightarrow>
   moved_right (\<lambda>i x. x\<lparr>ws_position := i\<rparr>) p c s (shift_up (rev [p + 1..<c + 1]) s)"
proof (induction c arbitrary: s)
  case (Suc c)
  show ?case
  proof (cases "p = Suc c")
    case False
    let ?s1 = "upd_space (ws_array s ! c) (\<lambda>x. x\<lparr>ws_position := Suc c\<rparr>) (s\<lparr>ws_array := (ws_array s)[Suc c := ws_array s ! c]\<rparr>)"
    from False Suc.prems have c: "p \<le> c" by simp
    have "shift_up (rev [p + 1..<Suc c + 1]) s = shift_up (rev [p + 1..<c + 1]) ?s1"
      using Suc.prems unfolding upt_rev_Suc [OF c] by (simp add: Let_def del: upt.simps)
    moreover have "moved_right (\<lambda>i x. x\<lparr>ws_position := i\<rparr>) p c ?s1 (shift_up (rev [p + 1..<c + 1]) ?s1)"
      using Suc.prems c by (intro Suc.IH) (simp_all add: take_Suc_conv_app_nth)
    ultimately show ?thesis
      using moved_right_step [OF c _ _ _ _, of s ?s1 "\<lambda>i x. x\<lparr>ws_position := i\<rparr>"] Suc.prems by simp
  qed (simp add: moved_right_refl)
qed (simp add: moved_right_refl)

lemma shift_right_moved:
  "p \<le> c \<Longrightarrow> c < length (ws_array s) \<Longrightarrow> distinct (take c (ws_array s)) \<Longrightarrow>
   moved_right (renumber d) p c s (shift_right d (rev [p + 1..<c + 1]) s)"
proof (induction c arbitrary: s)
  case (Suc c)
  show ?case
  proof (cases "p = Suc c")
    case False
    let ?s0 = "s\<lparr>ws_array := (ws_array s)[Suc c := ws_array s ! c]\<rparr>" and ?w = "ws_array s ! c"
    let ?s1 = "workspace_update_name d ?w None (wm_emit (WsPosition ?w) (upd_space ?w (\<lambda>x. x\<lparr>ws_position := Suc c\<rparr>) ?s0))"
    from False Suc.prems have c: "p \<le> c" by simp
    have "shift_right d (rev [p + 1..<Suc c + 1]) s = shift_right d (rev [p + 1..<c + 1]) ?s1"
      using Suc.prems unfolding upt_rev_Suc [OF c] by (simp add: Let_def del: upt.simps)
    moreover have "moved_right (renumber d) p c ?s1 (shift_right d (rev [p + 1..<c + 1]) ?s1)"
      using Suc.prems c by (intro Suc.IH) (simp_all add: take_Suc_conv_app_nth)
    ultimately show ?thesis
      using moved_right_step [OF c _ _ _ _, of s ?s1 "renumber d"] Suc.prems by simp
  qed (simp add: moved_right_refl)
qed (simp add: moved_right_refl)

lemma shift_down_moved:
  "p \<le> q \<Longrightarrow> q < length (ws_array s) \<Longrightarrow> distinct (drop (Suc p) (take (Suc q) (ws_array s))) \<Longrightarrow>
   moved_left (renumber d) p q s (shift_down d [p..<q] s)"
proof (induction "q - p" arbitrary: p s)
  case 0
  then show ?case by (auto simp: moved_left_def)
next
  case (Suc k)
  let ?s0 = "s\<lparr>ws_array := (ws_array s)[p := ws_array s ! Suc p]\<rparr>" and ?w = "ws_array s ! Suc p"
  let ?s1 = "workspace_update_name d ?w None (wm_emit (WsPosition ?w) (upd_space ?w (\<lambda>x. x\<lparr>ws_position := p\<rparr>) ?s0))"
  have pq: "p < q" "[p..<q] = p # [Suc p..<q]" using Suc.hyps(2) by (auto simp: upt_conv_Cons)
  have l: "Suc p < length (take (Suc q) (ws_array s))" using pq Suc.prems by simp
  from Suc.prems(3) have dd: "?w \<notin> set (drop (Suc (Suc p)) (take (Suc q) (ws_array s)))"
    "distinct (drop (Suc (Suc p)) (take (Suc q) (ws_array s)))"
    unfolding Cons_nth_drop_Suc [OF l, symmetric] using pq by auto
  have ne: "ws_array s ! j \<noteq> ?w" if "Suc p < j" "j \<le> q" for j
  proof -
    define i where "i = j - Suc (Suc p)"
    have j: "j = Suc (Suc p) + i" using that(1) unfolding i_def by arith
    have "ws_array s ! j \<in> set (drop (Suc (Suc p)) (take (Suc q) (ws_array s)))"
      using that Suc.prems(2) nth_mem [of i "drop (Suc (Suc p)) (take (Suc q) (ws_array s))"] by (simp add: j)
    then show ?thesis using dd(1) by auto
  qed
  have IH: "moved_left (renumber d) (Suc p) q ?s1 (shift_down d [Suc p..<q] ?s1)"
    using Suc.hyps(2) Suc.prems pq dd by (intro Suc.hyps(1)) (simp_all add: drop_update_cancel take_update_swap)
  have e: "shift_down d [p..<q] s = shift_down d [Suc p..<q] ?s1"
    using pq Suc.prems by (simp add: Let_def)
  show ?case
    unfolding e using pq(1) Suc.prems(2) ne by (rule moved_left_step [OF _ _ _ _ _ IH]) simp_all
qed

subsection \<open>The invariant of the array\<close>

definition ws_list :: "wm \<Rightarrow> ptr list" where
  "ws_list s = take (ws_count s) (ws_array s)"

definition ws_inv :: "wm \<Rightarrow> bool" where
  "ws_inv s \<longleftrightarrow>
     length (ws_array s) = MAX_WORKSPACES \<and> ws_count s \<le> MAX_WORKSPACES \<and>
     distinct (ws_list s) \<and> NULL \<notin> set (ws_list s) \<and>
     list_all (\<lambda>i. ws_position (ws s (ws_array s ! i)) = i) [0..<ws_count s] \<and>
     0 < ws_rows s \<and> ws_columns s = (ws_count s + ws_rows s - 1) div ws_rows s"

text \<open>Every workspace without a name of its own has the default name of its position.\<close>

definition default_named :: "string \<Rightarrow> wm \<Rightarrow> bool" where
  "default_named desktop s \<longleftrightarrow>
     list_all (\<lambda>w. \<not> has_custom_name (ws s w) \<longrightarrow> ws_name (ws s w) = default_name desktop (ws_position (ws s w)))
       (ws_list s)"

lemma frame_list:
  assumes "space_frame t = space_frame s"
  shows "ws_list t = ws_list s" "ws_inv t = ws_inv s" "default_named d t = default_named d s"
proof -
  have e: "ws_array t = ws_array s" "ws_count t = ws_count s" "ws_rows t = ws_rows s" "ws_columns t = ws_columns s"
    and f: "\<And>w. ws_position (ws t w) = ws_position (ws s w)" "\<And>w. ws_name (ws t w) = ws_name (ws s w)"
      "\<And>w. has_custom_name (ws t w) = has_custom_name (ws s w)"
    using assms by (auto simp: space_frame_def fun_eq_iff)
  show l: "ws_list t = ws_list s" by (simp add: ws_list_def e)
  show "ws_inv t = ws_inv s" "default_named d t = default_named d s"
    by (simp_all add: ws_inv_def default_named_def l e f)
qed

lemma ceil_div: "0 < r \<Longrightarrow> (if n mod r > 0 then n div r + 1 else n div r) = (n + r - 1) div (r::nat)"
proof -
  assume r: "0 < r"
  show ?thesis
  proof (cases "n mod r = 0")
    case True
    then have "n + r - 1 = (r - 1) + (n div r) * r" using mod_div_mult_eq [of n r] r by arith
    moreover have "((r - 1) + (n div r) * r) div r = n div r" using r by (subst div_mult_self1) simp_all
    ultimately show ?thesis using True by simp
  next
    case False
    then have "n + r - 1 = (n mod r - 1) + (n div r + 1) * r"
      using mod_div_mult_eq [of n r] r by simp
    moreover have "(n mod r - 1) div r = 0" using r False by (simp add: div_eq_0_iff less_imp_diff_less)
    moreover have "((n mod r - 1) + (n div r + 1) * r) div r = n div r + 1 + (n mod r - 1) div r"
      using r by (subst div_mult_self1) simp_all
    ultimately show ?thesis using False by simp
  qed
qed

lemma update_count_eq:
  "0 < ws_rows s \<Longrightarrow>
   workspace_manager_update_count c s = Some (s\<lparr>ws_count := c, ws_columns := (c + ws_rows s - 1) div ws_rows s\<rparr>)"
  using ceil_div [of "ws_rows s" c] by (simp add: workspace_manager_update_count_def Let_def)

text \<open>A state whose array holds a given list at its positions.\<close>

definition holds_list :: "wm \<Rightarrow> ptr list \<Rightarrow> bool" where
  "holds_list s L \<longleftrightarrow> length (ws_array s) = MAX_WORKSPACES \<and> length L \<le> MAX_WORKSPACES \<and>
     take (length L) (ws_array s) = L \<and> (\<forall>i < length L. ws_position (ws s (L ! i)) = i)"

lemma ws_inv_holds: "ws_inv s \<Longrightarrow> holds_list s (ws_list s)"
  by (auto simp: ws_inv_def holds_list_def ws_list_def list_all_iff)

lemma ws_inv_intro:
  assumes "holds_list s L" "ws_count s = length L" "distinct L" "NULL \<notin> set L"
    "0 < ws_rows s" "ws_columns s = (length L + ws_rows s - 1) div ws_rows s"
  shows "ws_inv s \<and> ws_list s = L"
proof -
  have "ws_array s ! i = L ! i" if "i < length L" for i
    using assms(1) that by (metis holds_list_def nth_take)
  then show ?thesis using assms by (auto simp: ws_inv_def ws_list_def holds_list_def list_all_iff)
qed

text \<open>Inserting into, deleting from and moving within a list, index by index.\<close>

definition insert_at :: "nat \<Rightarrow> 'a \<Rightarrow> 'a list \<Rightarrow> 'a list" where
  "insert_at p x xs = take p xs @ x # drop p xs"

definition delete_at :: "nat \<Rightarrow> 'a list \<Rightarrow> 'a list" where
  "delete_at p xs = take p xs @ drop (Suc p) xs"

lemma insert_at_length [simp]: "length (insert_at p x xs) = Suc (length xs)"
  by (simp add: insert_at_def)

lemma delete_at_length [simp]: "p < length xs \<Longrightarrow> length (delete_at p xs) = length xs - 1"
  by (simp add: delete_at_def)

lemma insert_at_nth:
  "p \<le> length xs \<Longrightarrow> j \<le> length xs \<Longrightarrow>
   insert_at p x xs ! j = (if j < p then xs ! j else if j = p then x else xs ! (j - 1))"
  by (auto simp: insert_at_def nth_append nth_Cons' min_def)

lemma delete_at_nth:
  "p < length xs \<Longrightarrow> j < length xs - 1 \<Longrightarrow> delete_at p xs ! j = (if j < p then xs ! j else xs ! Suc j)"
  by (auto simp: delete_at_def nth_append min_def)

lemma insert_at_set [simp]: "p \<le> length xs \<Longrightarrow> set (insert_at p x xs) = insert x (set xs)"
  by (metis append_take_drop_id insert_at_def list.set(2) set_append Un_insert_right)

lemma insert_at_distinct: "p \<le> length xs \<Longrightarrow> distinct xs \<Longrightarrow> x \<notin> set xs \<Longrightarrow> distinct (insert_at p x xs)"
  by (auto simp: insert_at_def set_take_disj_set_drop_if_distinct dest: in_set_takeD in_set_dropD)

lemma delete_at_distinct:
  assumes "p < length xs" "distinct xs"
  shows "distinct (delete_at p xs)" "set (delete_at p xs) = set xs - {xs ! p}" "delete_at p xs = remove1 (xs ! p) xs"
proof -
  have e: "xs = take p xs @ xs ! p # drop (Suc p) xs" using assms(1) by (rule id_take_nth_drop)
  have d: "distinct (take p xs @ xs ! p # drop (Suc p) xs)" using assms(2) e by simp
  then show "distinct (delete_at p xs)" by (simp add: delete_at_def)
  have "remove1 (xs ! p) (take p xs @ xs ! p # drop (Suc p) xs) = delete_at p xs"
    using d by (simp add: remove1_append delete_at_def)
  then show "delete_at p xs = remove1 (xs ! p) xs" using e by simp
  then show "set (delete_at p xs) = set xs - {xs ! p}" using assms(2) by (simp add: set_remove1_eq)
qed

lemma holds_list_nth: "holds_list s L \<Longrightarrow> i < length L \<Longrightarrow> ws_array s ! i = L ! i"
  by (metis holds_list_def nth_take)

lemma holds_listI:
  assumes "length (ws_array s) = MAX_WORKSPACES" "length L \<le> MAX_WORKSPACES"
    "\<And>i. i < length L \<Longrightarrow> ws_array s ! i = L ! i \<and> ws_position (ws s (L ! i)) = i"
  shows "holds_list s L"
  using assms by (auto simp: holds_list_def intro!: nth_equalityI)

lemma insert_holds:
  assumes s: "holds_list s L" "distinct L" "w \<notin> set L" "p \<le> length L" "length L < MAX_WORKSPACES"
    and m: "moved_right f p (length L) s t" "\<And>i x. ws_position (f i x) = i"
    and u: "ws_array u = (ws_array t)[p := w]" "ws_position (ws u w) = p" "length (ws_array t) = MAX_WORKSPACES"
      "\<And>x. x \<noteq> w \<Longrightarrow> ws_position (ws u x) = ws_position (ws t x)"
  shows "holds_list u (insert_at p w L)"
proof (rule holds_listI)
  fix i assume "i < length (insert_at p w L)"
  then have i: "i \<le> length L" by simp
  have len: "length (ws_array s) = MAX_WORKSPACES" using s(1) by (simp add: holds_list_def)
  have Ln: "ws_array s ! j = L ! j" "L ! j \<noteq> w" "ws_position (ws s (L ! j)) = j" if "j < length L" for j
    using s that by (auto simp: holds_list_nth holds_list_def)
  have arr: "ws_array t ! j = (if p < j \<and> j \<le> length L then ws_array s ! (j - 1) else ws_array s ! j)"
    if "j \<le> length L" for j using m(1) that s(5) len by (auto simp: moved_right_def)
  have left: "ws t (L ! j) = ws s (L ! j)" if "j < p" for j
  proof -
    have "ws_array s ! k \<noteq> L ! j" if "p \<le> k" "k < length L" for k
      using \<open>j < p\<close> that s(2,4) Ln(1) by (auto simp: nth_eq_iff_index_eq)
    then show ?thesis using m(1) by (auto simp: moved_right_def)
  qed
  have right: "ws_position (ws t (L ! j)) = Suc j" if "p \<le> j" "j < length L" for j
    using m that Ln(1) by (auto simp: moved_right_def)
  show "ws_array u ! i = insert_at p w L ! i \<and> ws_position (ws u (insert_at p w L ! i)) = i"
    using i s(4,5) Ln arr [OF i] u left right [of "i - 1"]
    by (auto simp: insert_at_nth nth_list_update)
qed (use s u in \<open>auto simp: Suc_le_eq\<close>)

lemma delete_holds:
  assumes s: "holds_list s L" "distinct L" "p < length L"
    and m: "moved_left f p (length L - 1) s t" "\<And>i x. ws_position (f i x) = i"
    and len: "length (ws_array t) = MAX_WORKSPACES"
  shows "holds_list t (delete_at p L)"
proof (rule holds_listI)
  fix i assume "i < length (delete_at p L)"
  then have i: "i < length L - 1" using s(3) by simp
  have Ln: "ws_array s ! j = L ! j" "ws_position (ws s (L ! j)) = j" if "j < length L" for j
    using s that by (auto simp: holds_list_nth holds_list_def)
  have arr: "ws_array t ! i = (if p \<le> i then ws_array s ! Suc i else ws_array s ! i)"
    using m(1) i s(1) by (auto simp: moved_left_def holds_list_def)
  have left: "ws t (L ! i) = ws s (L ! i)" if "i < p"
  proof -
    have "ws_array s ! k \<noteq> L ! i" if "p < k" "k \<le> length L - 1" for k
      using \<open>i < p\<close> that s(2,3) Ln(1) by (auto simp: nth_eq_iff_index_eq)
    then show ?thesis using m(1) by (auto simp: moved_left_def)
  qed
  have right: "ws_position (ws t (L ! Suc i)) = i" if "p \<le> i"
    using m that i Ln(1) [of "Suc i"] by (auto simp: moved_left_def dest!: spec [of _ "Suc i"])
  show "ws_array t ! i = delete_at p L ! i \<and> ws_position (ws t (delete_at p L ! i)) = i"
    using i s(3) Ln arr left right by (auto simp: delete_at_nth)
qed (use s len in \<open>auto simp: holds_list_def\<close>)

end
