(* ===== verification/WorkspaceProofs.thy ===== *)
theory WorkspaceProofs
  imports WorkspaceArray
begin

section \<open>Correctness of the workspace manager\<close>

text \<open>
  The used part of the array is a list of distinct workspaces whose positions are their indices; creating,
  moving and destroying a workspace insert, move and remove an element of this list. The functions return
  when the chains of parents are bounded. At the end, an example and the defects it shows.
\<close>

subsection \<open>Bounded chains of parents\<close>

text \<open>The functions that follow the parents of a modal view return when the chain of parents ends within
  their bound.\<close>

fun chain_le :: "nat \<Rightarrow> (ptr \<Rightarrow> ptr) \<Rightarrow> ptr \<Rightarrow> bool" where
  "chain_le 0 par v = False"
| "chain_le (Suc n) par v = (v = NULL \<or> chain_le n par (par v))"

definition parents :: "wm \<Rightarrow> ptr \<Rightarrow> ptr" where
  "parents s v = v_parent (vw s v)"

definition shape :: "wm \<Rightarrow> (ptr \<Rightarrow> ptr) \<times> ptr" where
  "shape s = (parents s, ws_current s)"

lemma shape_upd [simp]:
  "shape (upd_proxy p g s) = shape s" "shape (wm_emit e s) = shape s" "shape (upd_space w h s) = shape s"
  "shape (view_emit v e' s) = shape s" "shape (reparent v t s) = shape s"
  "shape (upd_view v (\<lambda>x. x\<lparr>v_proxies := f x\<rparr>) s) = shape s"
  "shape (upd_view v (\<lambda>x. x\<lparr>current_proxy := q\<rparr>) s) = shape s"
  "shape (s\<lparr>next_allocs := l\<rparr>) = shape s"
  by (auto simp: shape_def parents_def upd_proxy_def wm_emit_def upd_space_def view_emit_def upd_view_def
      reparent_def emit_def fun_eq_iff)

lemma view_proxy_create_shape [simp]: "shape (snd (view_proxy_create v w s)) = shape s"
proof -
  obtain p s1 where a: "alloc s = (p, s1)" by (cases "alloc s")
  then have "shape s1 = shape s" by (auto simp: alloc_def split: list.splits)
  then show ?thesis by (simp add: view_proxy_create_def a Let_def)
qed

lemma modal_chain_total:
  assumes "\<forall>s. shape s = k \<longrightarrow> (\<exists>s'. body s = Some s' \<and> shape s' = k)"
  shows "shape s = k \<Longrightarrow> chain_le n (fst k) v \<Longrightarrow> \<exists>s'. modal_chain n body v s = Some s' \<and> shape s' = k"
proof (induction n arbitrary: v s)
  case (Suc n)
  show ?case
  proof (cases "v = NULL")
    case False
    obtain s1 where s1: "body s = Some s1" "shape s1 = k" using assms Suc.prems(1) by blast
    have "v_parent (vw s1 v) = fst k v" using s1(2) by (auto simp: shape_def parents_def)
    then have "\<exists>s'. modal_chain n body (v_parent (vw s1 v)) s1 = Some s' \<and> shape s' = k"
      using Suc.prems(2) False s1(2) by (intro Suc.IH) auto
    then show ?thesis using s1 False by auto
  qed (use Suc.prems in simp)
qed simp

lemma view_add_workspace_total:
  "shape s = k \<Longrightarrow> chain_le n (fst k) v \<Longrightarrow> w \<noteq> snd k \<Longrightarrow>
   \<exists>p s'. view_add_workspace n v w s = Some (p, s') \<and> shape s' = k"
proof (induction n arbitrary: v s)
  case (Suc n)
  show ?case
  proof (cases "v = NULL \<or> w = NULL")
    case False
    have par: "v_parent (vw t v) = fst k v" if "shape t = k" for t using that by (auto simp: shape_def parents_def)
    have up: "chain_le n (fst k) (fst k v)" using Suc.prems(2) False by simp
    have body: "\<forall>t. shape t = k \<longrightarrow>
        (\<exists>s'. map_option snd (view_add_workspace n (v_parent (vw t v)) w t) = Some s' \<and> shape s' = k)"
      using Suc.IH up Suc.prems(3) par by fastforce
    have "\<exists>s1. (if modal (base (vw s v))
         then modal_chain n (\<lambda>s. map_option snd (view_add_workspace n (v_parent (vw s v)) w s)) (v_parent (vw s v)) s
         else Some s) = Some s1 \<and> shape s1 = k"
      using modal_chain_total [OF body Suc.prems(1), of n "v_parent (vw s v)"] up par [OF Suc.prems(1)] Suc.prems(1)
      by auto
    then obtain s1 where s1: "(if modal (base (vw s v))
         then modal_chain n (\<lambda>s. map_option snd (view_add_workspace n (v_parent (vw s v)) w s)) (v_parent (vw s v)) s
         else Some s) = Some s1" "shape s1 = k" by blast
    obtain p s2 where c: "view_proxy_create v w s1 = (p, s2)" by (cases "view_proxy_create v w s1")
    then have "shape s2 = k" using view_proxy_create_shape [of v w s1] s1(2) by simp
    then have "w \<noteq> ws_current s2" using Suc.prems(3) by (auto simp: shape_def)
    then show ?thesis using False s1 c \<open>shape s2 = k\<close> by (simp only: view_add_workspace.simps) (auto simp: Let_def)
  qed (use Suc.prems(1) in auto)
qed simp

lemma add_sticky_loop_total:
  "shape s = k \<Longrightarrow> (\<forall>v. chain_le n (fst k) v) \<Longrightarrow> w \<noteq> snd k \<Longrightarrow> \<exists>s'. add_sticky_loop n w ps s = Some s'"
proof (induction ps arbitrary: s)
  case (Cons p ps)
  obtain q s1 where "view_add_workspace n (px_view (px s p)) w s = Some (q, s1)" "shape s1 = k"
    using view_add_workspace_total [OF Cons.prems(1) _ Cons.prems(3)] Cons.prems(2) by blast
  then show ?case using Cons by auto
qed simp

text \<open>Adding a view to a workspace keeps the frame.\<close>

lemma modal_chain_frame:
  assumes b: "\<forall>s s'. body s = Some s' \<longrightarrow> space_frame s' = space_frame s"
  shows "modal_chain n body v s = Some s' \<Longrightarrow> space_frame s' = space_frame s"
proof (induction n arbitrary: v s)
  case (Suc n)
  then show ?case by (auto split: if_splits bind_splits dest!: b [rule_format] Suc.IH)
qed simp

lemma view_add_workspace_frame:
  "view_add_workspace n v w s = Some (p, s') \<Longrightarrow> space_frame s' = space_frame s"
proof (induction n arbitrary: v w s p s')
  case (Suc n)
  have "\<forall>t t'. map_option snd (view_add_workspace n (v_parent (vw t v)) w t) = Some t' \<longrightarrow> space_frame t' = space_frame t"
    for w using Suc.IH by auto
  note chain = modal_chain_frame [OF this]
  have create: "view_proxy_create v w t = (q, t') \<Longrightarrow> space_frame t' = space_frame t" for t q t' w
    using view_proxy_create_frame [of v w t] by simp
  from Suc.prems show ?case
    by (auto simp: Let_def split: if_splits bind_splits prod.splits
        dest!: chain create sf.view_set_current_proxy_frame)
qed simp

lemma add_sticky_loop_frame: "add_sticky_loop n w ps s = Some s' \<Longrightarrow> space_frame s' = space_frame s"
proof (induction ps arbitrary: s)
  case (Cons p ps)
  then show ?case by (auto split: if_splits bind_splits dest!: Cons.IH view_add_workspace_frame)
qed simp

subsection \<open>Creating a workspace\<close>

text \<open>The state \<open>workspace_create\<close> has reached when it runs \<open>workspace_auto_add_views\<close>.\<close>

definition created :: "string \<Rightarrow> string option \<Rightarrow> nat \<Rightarrow> ptr \<Rightarrow> wm \<Rightarrow> wm" where
  "created d name p w s =
     (let s = shift_up (rev [p + 1..<ws_count s + 1]) (upd_space w (\<lambda>_. new_workspace) s);
          s = upd_space w (\<lambda>x. x\<lparr>ws_position := p\<rparr>) s;
          s = s\<lparr>ws_array := (ws_array s)[p := w]\<rparr>;
          s = s\<lparr>ws_count := ws_count s + 1, ws_columns := (ws_count s + 1 + ws_rows s - 1) div ws_rows s\<rparr>
      in wm_emit (NewWorkspace w) (workspace_update_name d w name s))"

lemma bind_Some_map: "Option.bind x (\<lambda>s. Some (f s)) = map_option f x"
  by (cases x) simp_all

lemma count_upd_space [simp]:
  "ws_count (upd_space w f s) = ws_count s" "ws_rows (upd_space w f s) = ws_rows s"
  "ws_columns (upd_space w f s) = ws_columns s"
  by (simp_all add: upd_space_def)

lemmas shift_fields [simp] =
  rest_ofD(1,2) [OF shift_rest(1)] rest_ofD(1,2) [OF shift_rest(2)] rest_ofD(1,2) [OF shift_rest(3)]

lemma workspace_create_eq:
  assumes "ws_count s < MAX_WORKSPACES" "next_allocs s = w # l" "w \<noteq> NULL" "0 < ws_rows s"
  shows "workspace_create d n name position s =
    map_option (\<lambda>s. (w, s))
      (workspace_auto_add_views n w (created d name (min position (ws_count s)) w (s\<lparr>next_allocs := l\<rparr>)))"
proof -
  have p: "(if ws_count s < position then ws_count s else position) = min position (ws_count s)" by simp
  have a: "alloc s = (w, s\<lparr>next_allocs := l\<rparr>)" by (simp add: alloc_def assms(2))
  show ?thesis
    using assms(1,3,4)
    by (simp add: workspace_create_def a created_def p update_count_eq bind_Some_map Let_def
        del: upt.simps upt_Suc upt_rec_numeral shift_up.simps)
qed

lemma created_holds:
  assumes "ws_inv s" "ws_count s < MAX_WORKSPACES" "w \<noteq> NULL" "w \<notin> set (ws_list s)" "p \<le> ws_count s"
  shows "ws_inv (created d name p w s) \<and> ws_list (created d name p w s) = insert_at p w (ws_list s)"
proof -
  let ?s1 = "upd_space w (\<lambda>_. new_workspace) s"
  let ?t = "shift_up (rev [p + 1..<ws_count s + 1]) ?s1"
  let ?u = "created d name p w s"
  have L: "length (ws_list s) = ws_count s" "distinct (ws_list s)" "NULL \<notin> set (ws_list s)"
    "length (ws_array s) = MAX_WORKSPACES"
    using assms(1) by (auto simp: ws_inv_def ws_list_def)
  have h: "holds_list ?s1 (ws_list s)"
    using ws_inv_holds [OF assms(1)] assms(4) by (auto simp: holds_list_def)
  have "moved_right (\<lambda>i x. x\<lparr>ws_position := i\<rparr>) p (ws_count s) ?s1 ?t"
    using assms L by (intro shift_up_moved) (auto simp: ws_list_def)
  then have m: "moved_right (\<lambda>i x. x\<lparr>ws_position := i\<rparr>) p (length (ws_list s)) ?s1 ?t" by (simp add: L)
  have r: "ws_rows ?t = ws_rows s" "ws_count ?t = ws_count s" by (simp_all del: upt_Suc)
  have u: "ws_array ?u = (ws_array ?t)[p := w]" "ws_position (ws ?u w) = p"
    "\<And>x. x \<noteq> w \<Longrightarrow> ws_position (ws ?u x) = ws_position (ws ?t x)"
    "ws_count ?u = Suc (ws_count s)" "ws_rows ?u = ws_rows s"
    "ws_columns ?u = (Suc (ws_count s) + ws_rows s - 1) div ws_rows s"
    using r by (simp_all add: created_def Let_def workspace_update_name_def wm_emit_def upd_space_def del: upt_Suc)
  have "holds_list ?u (insert_at p w (ws_list s))"
    by (rule insert_holds [OF h L(2) assms(4) _ _ m _ u(1,2) _ u(3)]) (use assms L in auto)
  then show ?thesis
    by (rule ws_inv_intro) (use assms L u in \<open>auto simp: ws_inv_def intro!: insert_at_distinct\<close>)
qed

lemma shift_up_custom [simp]: "has_custom_name (ws (shift_up is s) x) = has_custom_name (ws s x)"
  by (induction "is" arbitrary: s) (simp_all add: Let_def)

lemma created_name:
  "\<not> has_custom_name (ws (created d None p w s) w)"
  "ws_name (ws (created d None p w s) w) = default_name d p"
  "has_custom_name (ws (created d (Some nm) p w s) w)"
  "ws_name (ws (created d (Some nm) p w s) w) = nm"
  by (simp_all add: created_def Let_def workspace_update_name_def default_name_def new_workspace_def del: upt_Suc)

lemma shift_up_name [simp]: "ws_name (ws (shift_up is s) x) = ws_name (ws s x)"
  by (induction "is" arbitrary: s) (simp_all add: Let_def)

lemma created_others:
  "x \<noteq> w \<Longrightarrow> ws_name (ws (created d name p w s) x) = ws_name (ws s x)"
  "x \<noteq> w \<Longrightarrow> has_custom_name (ws (created d name p w s) x) = has_custom_name (ws s x)"
  by (simp_all add: created_def Let_def workspace_update_name_def del: upt_Suc)

lemma created_shape: "shape (created d name p w s) = shape s"
proof -
  have "shape (shift_up is t) = shape t" for "is" t
    using rest_ofD(4,5) [OF shift_rest(1), of "is" t] by (simp add: shape_def parents_def fun_eq_iff)
  moreover have "shape (workspace_update_name d w name t) = shape t" for t by (simp add: workspace_update_name_def)
  moreover have "shape (t\<lparr>ws_array := x\<rparr>) = shape t" "shape (t\<lparr>ws_count := y, ws_columns := z\<rparr>) = shape t" for t x y z
    by (simp_all add: shape_def parents_def fun_eq_iff)
  ultimately show ?thesis by (simp add: created_def Let_def del: upt_Suc)
qed

text \<open>The whole of \<open>workspace_create\<close> for a fresh address.\<close>

lemma workspace_create_created:
  assumes "ws_inv s" "ws_count s < MAX_WORKSPACES" "next_allocs s = w # l" "w \<noteq> NULL"
    "w \<notin> set (ws_list s)" "w \<noteq> ws_current s" "\<forall>v. chain_le n (parents s) v"
  obtains s' where "workspace_create d n name position s = Some (w, s')"
    "space_frame s' = space_frame (created d name (min position (ws_count s)) w (s\<lparr>next_allocs := l\<rparr>))"
    "ws_inv s'" "ws_list s' = insert_at (min position (ws_count s)) w (ws_list s)"
proof -
  let ?u = "created d name (min position (ws_count s)) w (s\<lparr>next_allocs := l\<rparr>)"
  have i: "ws_inv ?u" "ws_list ?u = insert_at (min position (ws_count s)) w (ws_list s)"
    using created_holds [of "s\<lparr>next_allocs := l\<rparr>" w "min position (ws_count s)"] assms frame_list(1,2) [OF space_frame_fields(6)]
    by auto
  have "shape ?u = (parents s, ws_current s)" by (simp add: created_shape) (simp add: shape_def)
  then have "\<exists>s'. add_sticky_loop n w ps ?u = Some s'" for ps
    by (rule add_sticky_loop_total) (use assms in simp_all)
  then obtain s' where s': "workspace_auto_add_views n w ?u = Some s'"
    by (cases "server_ready ?u") (auto simp: workspace_auto_add_views_def)
  then have f: "space_frame s' = space_frame ?u"
    by (auto simp: workspace_auto_add_views_def split: if_splits dest!: add_sticky_loop_frame)
  have "0 < ws_rows s" using assms(1) by (simp add: ws_inv_def)
  then have "workspace_create d n name position s = Some (w, s')"
    using s' assms(2-4) by (simp add: workspace_create_eq)
  then show thesis by (rule that [OF _ f]) (simp_all add: frame_list [OF f] i)
qed

text \<open>C9: creating a workspace puts it at the requested position, or at the end when the position is too
  large, moves the workspaces behind it by one, and keeps the positions, the count and the number of
  columns consistent. The code returns whenever the chains of parents are finite.\<close>

theorem workspace_create_inserts:
  assumes "ws_inv s" "ws_count s < MAX_WORKSPACES" "next_allocs s = w # l" "w \<noteq> NULL"
    "w \<notin> set (ws_list s)" "w \<noteq> ws_current s" "\<forall>v. chain_le n (parents s) v"
  shows "\<exists>s'. workspace_create d n name position s = Some (w, s') \<and> ws_inv s' \<and>
    ws_list s' = insert_at (min position (ws_count s)) w (ws_list s) \<and>
    ws_name (ws s' w) = (case name of None \<Rightarrow> default_name d (min position (ws_count s)) | Some nm \<Rightarrow> nm)"
proof -
  obtain s' where s': "workspace_create d n name position s = Some (w, s')"
    "space_frame s' = space_frame (created d name (min position (ws_count s)) w (s\<lparr>next_allocs := l\<rparr>))"
    "ws_inv s'" "ws_list s' = insert_at (min position (ws_count s)) w (ws_list s)"
    using workspace_create_created [OF assms] by blast
  then have "ws_name (ws s' w) = ws_name (ws (created d name (min position (ws_count s)) w (s\<lparr>next_allocs := l\<rparr>)) w)"
    by (simp add: space_frame_def fun_eq_iff)
  then show ?thesis using s' by (auto simp: created_name split: option.split)
qed

subsection \<open>Moving a workspace\<close>

text \<open>The two loops of \<open>workspace_set_position\<close>, of which at most one runs, then the moved workspace in its
  slot.\<close>

lemma move_right_holds:
  assumes s: "holds_list s L" "distinct L" "q < length L" "p < q"
    and m: "moved_right f p q s t" "\<And>i x. ws_position (f i x) = i"
    and u: "ws_array u = (ws_array t)[p := L ! q]" "ws_position (ws u (L ! q)) = p" "length (ws_array t) = MAX_WORKSPACES"
      "\<And>x. x \<noteq> L ! q \<Longrightarrow> ws_position (ws u x) = ws_position (ws t x)"
  shows "holds_list u (insert_at p (L ! q) (delete_at q L))"
proof (rule holds_listI)
  fix i assume "i < length (insert_at p (L ! q) (delete_at q L))"
  then have i: "i < length L" using s(3) by simp
  have len: "length (ws_array s) = MAX_WORKSPACES" "length L \<le> MAX_WORKSPACES" using s(1) by (simp_all add: holds_list_def)
  have Ln: "ws_array s ! j = L ! j" "ws_position (ws s (L ! j)) = j" if "j < length L" for j
    using s(1) that by (auto simp: holds_list_nth holds_list_def)
  have ne: "L ! j \<noteq> L ! q" if "j < length L" "j \<noteq> q" for j
    using s(2,3) that by (simp add: nth_eq_iff_index_eq)
  have arr: "ws_array t ! i = (if p < i \<and> i \<le> q then L ! (i - 1) else L ! i)"
    using m(1) i len s(3,4) Ln(1) by (auto simp: moved_right_def)
  have out: "ws t (L ! i) = ws s (L ! i)" if "i < p \<or> q < i"
  proof -
    have "ws_array s ! k \<noteq> L ! i" if "p \<le> k" "k < q" for k
      using \<open>i < p \<or> q < i\<close> that s(2-4) i Ln(1) by (auto simp: nth_eq_iff_index_eq)
    then show ?thesis using m(1) by (auto simp: moved_right_def)
  qed
  have ins: "ws_position (ws t (L ! (i - 1))) = i" if "p < i" "i \<le> q"
    using m that i Ln(1) [of "i - 1"] by (auto simp: moved_right_def dest!: spec [of _ "i - 1"])
  show "ws_array u ! i = insert_at p (L ! q) (delete_at q L) ! i \<and>
    ws_position (ws u (insert_at p (L ! q) (delete_at q L) ! i)) = i"
    using i s(3,4) len Ln ne [of i] ne [of "i - 1"] arr out ins u
    by (auto simp: insert_at_nth delete_at_nth nth_list_update)
qed (use s u in \<open>auto simp: holds_list_def\<close>)

lemma move_left_holds:
  assumes s: "holds_list s L" "distinct L" "q < length L" "p < q"
    and m: "moved_left f p q s t" "\<And>i x. ws_position (f i x) = i"
    and u: "ws_array u = (ws_array t)[q := L ! p]" "ws_position (ws u (L ! p)) = q" "length (ws_array t) = MAX_WORKSPACES"
      "\<And>x. x \<noteq> L ! p \<Longrightarrow> ws_position (ws u x) = ws_position (ws t x)"
  shows "holds_list u (insert_at q (L ! p) (delete_at p L))"
proof (rule holds_listI)
  fix i assume "i < length (insert_at q (L ! p) (delete_at p L))"
  then have i: "i < length L" using s(3,4) by simp
  have len: "length (ws_array s) = MAX_WORKSPACES" "length L \<le> MAX_WORKSPACES" using s(1) by (simp_all add: holds_list_def)
  have Ln: "ws_array s ! j = L ! j" "ws_position (ws s (L ! j)) = j" if "j < length L" for j
    using s(1) that by (auto simp: holds_list_nth holds_list_def)
  have ne: "L ! j \<noteq> L ! p" if "j < length L" "j \<noteq> p" for j
    using s(2-4) that by (simp add: nth_eq_iff_index_eq)
  have arr: "ws_array t ! i = (if p \<le> i \<and> i < q then L ! Suc i else L ! i)"
    using m(1) i len s(3,4) Ln(1) by (auto simp: moved_left_def)
  have out: "ws t (L ! i) = ws s (L ! i)" if "i < p \<or> q < i"
  proof -
    have "ws_array s ! k \<noteq> L ! i" if "p < k" "k \<le> q" for k
      using \<open>i < p \<or> q < i\<close> that s(2-4) i Ln(1) by (auto simp: nth_eq_iff_index_eq)
    then show ?thesis using m(1) by (auto simp: moved_left_def)
  qed
  have ins: "ws_position (ws t (L ! Suc i)) = i" if "p \<le> i" "i < q"
    using m that s(3) Ln(1) [of "Suc i"] by (auto simp: moved_left_def dest!: spec [of _ "Suc i"])
  show "ws_array u ! i = insert_at q (L ! p) (delete_at p L) ! i \<and>
    ws_position (ws u (insert_at q (L ! p) (delete_at p L) ! i)) = i"
    using i s(3,4) len Ln ne [of i] ne [of "Suc i"] arr out ins u
    by (auto simp: insert_at_nth delete_at_nth nth_list_update)
qed (use s u in \<open>auto simp: holds_list_def\<close>)

text \<open>The names: a workspace is left alone or renumbered, and a renumbered one has the name of its position.\<close>

definition renumbered :: "string \<Rightarrow> workspace \<Rightarrow> workspace \<Rightarrow> bool" where
  "renumbered d x y \<longleftrightarrow> y = x \<or> (\<exists>i. y = renumber d i x)"

lemma renumbered_refl [simp]: "renumbered d x x"
  by (simp add: renumbered_def)

lemma renumbered_step: "renumbered d x y \<Longrightarrow> renumbered d x (renumber d i y)"
  by (auto simp: renumbered_def renumber_def)

lemma shift_down_renumbered: "renumbered d x (ws s w) \<Longrightarrow> renumbered d x (ws (shift_down d is s) w)"
proof (induction "is" arbitrary: s)
  case (Cons i "is")
  then show ?case by (simp only: shift_down.simps Let_def, intro Cons.IH) (auto intro: renumbered_step)
qed simp

lemma shift_right_renumbered: "renumbered d x (ws s w) \<Longrightarrow> renumbered d x (ws (shift_right d is s) w)"
proof (induction "is" arbitrary: s)
  case (Cons i "is")
  then show ?case by (simp only: shift_right.simps Let_def, intro Cons.IH) (auto intro: renumbered_step)
qed simp

lemma default_named_renumbered:
  assumes "default_named d s" "set (ws_list t) \<subseteq> set (ws_list s)" "\<And>w. renumbered d (ws s w) (ws t w)"
  shows "default_named d t"
proof -
  have "\<not> has_custom_name (ws t w) \<longrightarrow> ws_name (ws t w) = default_name d (ws_position (ws t w))"
    if "w \<in> set (ws_list t)" for w
    using assms(1,2) assms(3) [of w] that by (auto simp: default_named_def list_all_iff renumbered_def)
  then show ?thesis by (simp add: default_named_def list_all_iff)
qed

lemma ws_inv_member:
  assumes "ws_inv s" "w \<in> set (ws_list s)"
  shows "ws_position (ws s w) < ws_count s" "ws_list s ! ws_position (ws s w) = w"
proof -
  obtain i where "i < length (ws_list s)" "ws_list s ! i = w" using assms(2) by (auto simp: in_set_conv_nth)
  moreover have "ws_position (ws s w) = i" using ws_inv_holds [OF assms(1)] calculation by (auto simp: holds_list_def)
  ultimately show "ws_position (ws s w) < ws_count s" "ws_list s ! ws_position (ws s w) = w"
    by (auto simp: ws_list_def)
qed

definition repositioned :: "string \<Rightarrow> ptr \<Rightarrow> nat \<Rightarrow> wm \<Rightarrow> wm" where
  "repositioned d w p s =
     (let q = ws_position (ws s w);
          s = shift_down d [q..<p] (shift_right d (rev [p + 1..<q + 1]) s)
      in workspace_update_name d w None (wm_emit (WsPosition w)
           ((upd_space w (\<lambda>x. x\<lparr>ws_position := p\<rparr>) s)\<lparr>ws_array := (ws_array s)[p := w]\<rparr>)))"

lemma workspace_set_position_eq:
  assumes "0 < ws_count s"
  shows "workspace_set_position d w position s =
    (let p = min position (ws_count s - 1) in if p = ws_position (ws s w) then s else repositioned d w p s)"
proof -
  have "(if ws_count s \<le> position then ws_count s - 1 else position) = min position (ws_count s - 1)"
    using assms by auto
  then show ?thesis
    by (simp add: workspace_set_position_def repositioned_def Let_def del: upt_Suc shift_right.simps shift_down.simps)
qed

lemma repositioned_space:
  "wm_spaces (repositioned d w p s) = (let t = shift_down d [ws_position (ws s w)..<p]
      (shift_right d (rev [p + 1..<ws_position (ws s w) + 1]) s) in (wm_spaces t)(w := renumber d p (ws t w)))"
  by (simp add: repositioned_def Let_def workspace_update_name_def renumber_def default_name_def
      del: upt_Suc shift_right.simps shift_down.simps)

lemma repositioned_array:
  "ws_array (repositioned d w p s) = (ws_array (shift_down d [ws_position (ws s w)..<p]
      (shift_right d (rev [p + 1..<ws_position (ws s w) + 1]) s)))[p := w]"
  by (simp add: repositioned_def Let_def del: upt_Suc shift_right.simps shift_down.simps)

lemma repositioned_fields:
  "ws_count (repositioned d w p s) = ws_count s" "ws_rows (repositioned d w p s) = ws_rows s"
  "ws_columns (repositioned d w p s) = ws_columns s"
proof -
  have "rest_of (repositioned d w p s) = rest_of s"
    by (simp add: repositioned_def Let_def del: upt_Suc shift_right.simps shift_down.simps)
  then show "ws_count (repositioned d w p s) = ws_count s" "ws_rows (repositioned d w p s) = ws_rows s"
    "ws_columns (repositioned d w p s) = ws_columns s" by (rule rest_ofD)+
qed

lemma repositioned_holds:
  assumes s: "ws_inv s" "w \<in> set (ws_list s)" "p < ws_count s" and ne: "p \<noteq> ws_position (ws s w)"
  shows "holds_list (repositioned d w p s) (insert_at p w (delete_at (ws_position (ws s w)) (ws_list s)))"
proof -
  let ?L = "ws_list s" and ?q = "ws_position (ws s w)"
  have L: "holds_list s ?L" "distinct ?L" "length ?L = ws_count s" "ws_count s \<le> MAX_WORKSPACES"
    "length (ws_array s) = MAX_WORKSPACES"
    using s(1) ws_inv_holds by (auto simp: ws_inv_def ws_list_def)
  have q: "?q < ws_count s" "?L ! ?q = w" using ws_inv_member [OF s(1,2)] by auto
  have dq: "distinct (take c (ws_array s))" if "c \<le> ws_count s" for c
    using L(2) that by (metis distinct_take min.absorb1 take_take ws_list_def)
  show ?thesis
  proof (cases "p < ?q")
    case True
    have m: "moved_right (renumber d) p ?q s (shift_right d (rev [p + 1..<?q + 1]) s)"
      using True q L s(3) dq by (intro shift_right_moved) simp_all
    have "holds_list (repositioned d w p s) (insert_at p (?L ! ?q) (delete_at ?q ?L))"
      by (rule move_right_holds [OF L(1,2) _ True m])
        (use True q L in \<open>simp_all add: repositioned_array repositioned_space Let_def del: upt_Suc shift_right.simps\<close>)
    then show ?thesis by (simp only: q)
  next
    case False
    have dd: "distinct (drop (Suc ?q) (take (Suc p) (ws_array s)))"
      using dq [of "Suc p"] s(3) by simp
    have m: "moved_left (renumber d) ?q p s (shift_down d [?q..<p] s)"
      using False s(3) L by (intro shift_down_moved dd) simp_all
    have "?q < p" using False ne by simp
    then have "holds_list (repositioned d w p s) (insert_at p (?L ! ?q) (delete_at ?q ?L))"
      by (intro move_left_holds [OF L(1,2) _ _ m])
        (use False q L s(3) in \<open>simp_all add: repositioned_array repositioned_space Let_def del: upt_Suc shift_down.simps\<close>)
    then show ?thesis by (simp only: q)
  qed
qed

text \<open>C10: moving a workspace takes it out of the list and puts it back at the requested position (the last
  one when the position is too large); the others keep their order, the positions stay the indices, and
  workspaces without a name of their own keep the default name of their position.\<close>

theorem workspace_set_position_moves:
  assumes "ws_inv s" "w \<in> set (ws_list s)"
  shows "ws_inv (workspace_set_position d w position s) \<and>
    ws_list (workspace_set_position d w position s) =
      insert_at (min position (ws_count s - 1)) w (remove1 w (ws_list s)) \<and>
    (default_named d s \<longrightarrow> default_named d (workspace_set_position d w position s))"
proof -
  let ?L = "ws_list s" and ?q = "ws_position (ws s w)" and ?p = "min position (ws_count s - 1)"
  have L: "distinct ?L" "length ?L = ws_count s" "NULL \<notin> set ?L" using assms(1) by (auto simp: ws_inv_def ws_list_def)
  have q: "?q < ws_count s" "?L ! ?q = w" using ws_inv_member [OF assms] by auto
  have del: "delete_at ?q ?L = remove1 w ?L" "set (remove1 w ?L) = set ?L - {w}" "distinct (remove1 w ?L)"
    using delete_at_distinct [of ?q ?L] L q by auto
  obtain k where k: "ws_count s = Suc k" using q(1) by (cases "ws_count s") auto
  have len: "length (remove1 w ?L) = k" using assms(2) L k by (simp add: length_remove1)
  show ?thesis
  proof (cases "?p = ?q")
    case True
    have "insert_at ?q w (delete_at ?q ?L) = ?L"
      using id_take_nth_drop [of ?q ?L] q L by (simp add: insert_at_def delete_at_def min_def)
    then show ?thesis using True assms q del by (simp add: workspace_set_position_eq Let_def)
  next
    case False
    let ?u = "repositioned d w ?p s"
    have pc: "?p < ws_count s" using q by auto
    have "ws_inv ?u \<and> ws_list ?u = insert_at ?p w (delete_at ?q ?L)"
      by (rule ws_inv_intro [OF repositioned_holds [OF assms pc False]])
        (use assms del len k L q pc in \<open>auto simp: repositioned_fields ws_inv_def intro!: insert_at_distinct\<close>)
    moreover have "default_named d ?u" if "default_named d s"
      using that by (rule default_named_renumbered)
        (use calculation del len k L q pc assms(2) in \<open>auto simp: repositioned_space Let_def intro!: shift_down_renumbered shift_right_renumbered renumbered_step\<close>)
    ultimately show ?thesis using False q by (simp add: workspace_set_position_eq Let_def del)
  qed
qed

subsection \<open>Destroying a workspace\<close>

lemma move_views_loop_frame: "move_views_loop n target ps s = Some s' \<Longrightarrow> space_frame s' = space_frame s"
proof (induction ps arbitrary: s)
  case (Cons p ps)
  then show ?case
    by (auto simp: Let_def split: if_splits bind_splits
        dest!: Cons.IH view_add_workspace_frame sf.view_set_current_proxy_frame)
qed simp

text \<open>The part of \<open>fix_workspace\<close> that concerns the array.\<close>

definition removed :: "string \<Rightarrow> ptr \<Rightarrow> wm \<Rightarrow> wm" where
  "removed d w s =
     (let s = shift_down d [ws_position (ws s w)..<ws_count s - 1] s
      in s\<lparr>ws_count := ws_count s - 1, ws_columns := (ws_count s - 1 + ws_rows s - 1) div ws_rows s\<rparr>)"

text \<open>The workspace that takes over the views: the one before, or the new first one.\<close>

definition heir :: "ptr \<Rightarrow> wm \<Rightarrow> ptr" where
  "heir w s = remove1 w (ws_list s) ! (ws_position (ws s w) - 1)"

lemma removed_fields [simp]:
  "ws_count (removed d w s) = ws_count s - 1" "ws_rows (removed d w s) = ws_rows s"
  "ws_columns (removed d w s) = (ws_count s - 1 + ws_rows s - 1) div ws_rows s"
  "wm_spaces (removed d w s) = wm_spaces (shift_down d [ws_position (ws s w)..<ws_count s - 1] s)"
  "ws_array (removed d w s) = ws_array (shift_down d [ws_position (ws s w)..<ws_count s - 1] s)"
  by (simp_all add: removed_def Let_def)

lemma removed_rest:
  "ws_current (removed d w s) = ws_current s" "wm_views (removed d w s) = wm_views s"
  "wm_proxies (removed d w s) = wm_proxies s" "next_allocs (removed d w s) = next_allocs s"
  by (simp_all add: removed_def Let_def rest_ofD [OF shift_rest(2)])

lemma removed_holds:
  assumes s: "ws_inv s" "w \<in> set (ws_list s)"
  shows "ws_inv (removed d w s) \<and> ws_list (removed d w s) = remove1 w (ws_list s)" and "ws (removed d w s) w = ws s w"
proof -
  let ?L = "ws_list s" and ?q = "ws_position (ws s w)"
  let ?t = "shift_down d [?q..<ws_count s - 1] s"
  have L: "holds_list s ?L" "distinct ?L" "length ?L = ws_count s" "ws_count s \<le> MAX_WORKSPACES"
    "length (ws_array s) = MAX_WORKSPACES" "NULL \<notin> set ?L" "0 < ws_rows s"
    using s(1) ws_inv_holds by (auto simp: ws_inv_def ws_list_def)
  have q: "?q < ws_count s" "?L ! ?q = w" using ws_inv_member [OF s] by auto
  have del: "delete_at ?q ?L = remove1 w ?L" "set (remove1 w ?L) \<subseteq> set ?L" "distinct (remove1 w ?L)"
    "length (remove1 w ?L) = ws_count s - 1"
    using delete_at_distinct [of ?q ?L] L q s(2) by (auto simp: length_remove1 dest: notin_set_remove1)
  have m: "moved_left (renumber d) ?q (length ?L - 1) s ?t"
    unfolding L(3) using q L by (intro shift_down_moved) (auto simp: ws_list_def)
  have "holds_list ?t (delete_at ?q ?L)"
    by (rule delete_holds [OF L(1,2) _ m]) (use q L in simp_all)
  then have "holds_list (removed d w s) (remove1 w ?L)" by (simp add: holds_list_def del)
  then show "ws_inv (removed d w s) \<and> ws_list (removed d w s) = remove1 w ?L"
    by (rule ws_inv_intro) (use del L in auto)
  have "ws_array s ! k \<noteq> w" if "?q < k" "k \<le> ws_count s - 1" for k
    using that q L(2,3) holds_list_nth [OF L(1), of k] by (auto simp: nth_eq_iff_index_eq)
  then show "ws (removed d w s) w = ws s w" using m by (auto simp: moved_left_def L)
qed

lemma heir_eq:
  assumes s: "ws_inv s" "w \<in> set (ws_list s)" "1 < ws_count s"
  shows "ws_array (removed d w s) ! (if ws_position (ws s w) \<noteq> 0 then ws_position (ws s w) - 1 else 0) = heir w s"
    and "heir w s \<noteq> w" "heir w s \<in> set (ws_list s)"
proof -
  have r: "ws_inv (removed d w s)" "ws_list (removed d w s) = remove1 w (ws_list s)"
    using removed_holds(1) [OF s(1,2)] by auto
  have len: "length (remove1 w (ws_list s)) = ws_count s - 1" and d: "distinct (ws_list s)"
    using s by (auto simp: length_remove1 ws_inv_def ws_list_def)
  have i: "ws_position (ws s w) - 1 < length (remove1 w (ws_list s))"
    using ws_inv_member(1) [OF s(1,2)] s(3) len by simp
  show "ws_array (removed d w s) ! (if ws_position (ws s w) \<noteq> 0 then ws_position (ws s w) - 1 else 0) = heir w s"
  proof -
    have "(if ws_position (ws s w) \<noteq> 0 then ws_position (ws s w) - 1 else 0) = ws_position (ws s w) - 1" by simp
    then show ?thesis
      using holds_list_nth [OF ws_inv_holds [OF r(1)], of "ws_position (ws s w) - 1"] i
      by (simp only: heir_def r(2))
  qed
  have "heir w s \<in> set (remove1 w (ws_list s))" unfolding heir_def using i by (rule nth_mem)
  then show "heir w s \<noteq> w" "heir w s \<in> set (ws_list s)" using d by auto
qed

lemma fix_workspace_eq:
  assumes "ws_inv s" "w \<in> set (ws_list s)"
  shows "fix_workspace d n env w s =
    (if ws_count s = 1 then Some (removed d w s)
     else do {
       t \<leftarrow> (if ws_current s = w then run_wm n env (CallWorkspaceActivate (heir w s)) (removed d w s)
             else Some (removed d w s));
       move_views_loop (we_depth env) (heir w s) (ws_proxies (ws t w)) t
     })"
proof -
  let ?t = "shift_down d [ws_position (ws s w)..<ws_count s - 1] s"
  have r: "0 < ws_rows s" "ws_count s \<noteq> 0" using assms ws_inv_member(1) [OF assms] by (auto simp: ws_inv_def)
  have "workspace_manager_update_count (ws_count ?t - 1) ?t = Some (removed d w s)"
    using r by (simp add: update_count_eq removed_def)
  moreover have "ws_current (removed d w s) = ws_current s" "ws_position (ws (removed d w s) w) = ws_position (ws s w)"
    using removed_holds(2) [OF assms] by (simp_all add: removed_rest)
  moreover have "1 < ws_count s \<or> ws_count s = 1" using r by auto
  ultimately show ?thesis
    using r heir_eq(1) [OF assms] by (auto simp: fix_workspace_def Let_def cong: if_cong)
qed

text \<open>Moving the views to a workspace that is not the current one always succeeds.\<close>

lemma view_proxy_destroy_shape [simp]: "shape (view_proxy_destroy p s) = shape s"
  by (simp add: view_proxy_destroy_def Let_def)

lemma view_set_current_proxy_shape: "view_set_current_proxy v p s = Some s' \<Longrightarrow> shape s' = shape s"
  by (auto simp: view_set_current_proxy_def Let_def split: if_splits)

lemma view_set_current_proxy_total: "p \<noteq> NULL \<Longrightarrow> \<exists>s'. view_set_current_proxy v p s = Some s'"
  by (simp add: view_set_current_proxy_def)

lemma move_views_loop_total:
  "shape s = k \<Longrightarrow> (\<forall>v. chain_le n (fst k) v) \<Longrightarrow> target \<noteq> snd k \<Longrightarrow> \<exists>s'. move_views_loop n target ps s = Some s'"
proof (induction ps arbitrary: s)
  case (Cons p ps)
  let ?v = "px_view (px s p)"
  obtain q s1 where a: "view_add_workspace n ?v target s = Some (q, s1)" "shape s1 = k"
    using view_add_workspace_total [OF Cons.prems(1) _ Cons.prems(3)] Cons.prems(2) by blast
  obtain s2 where s2: "(if q \<noteq> NULL then view_set_current_proxy ?v q s1 else Some s1) = Some s2"
    using view_set_current_proxy_total [of q ?v s1] by (cases "q = NULL") auto
  then have "shape s2 = k" using a(2) by (auto split: if_splits dest: view_set_current_proxy_shape)
  then show ?case using Cons.IH [of "view_proxy_destroy p s2"] Cons.prems a s2 by (simp add: Let_def)
qed simp

lemma workspace_destroy_total:
  assumes "ws_inv s" "w \<in> set (ws_list s)"
    and "w \<noteq> ws_current s" "heir w s \<noteq> ws_current s" "\<forall>v. chain_le (we_depth env) (parents s) v"
  shows "\<exists>s'. workspace_destroy d n env w s = Some s'"
proof -
  have "shape (removed d w s) = (parents s, ws_current s)"
    by (simp add: shape_def parents_def removed_rest fun_eq_iff)
  then have "\<exists>t. move_views_loop (we_depth env) (heir w s) ps (removed d w s) = Some t" for ps
    by (rule move_views_loop_total) (use assms in simp_all)
  then show ?thesis using assms by (auto simp: workspace_destroy_def fix_workspace_eq [OF assms(1,2)])
qed

text \<open>C11: destroying a workspace removes it from the list, moves the ones behind it by one and keeps the
  positions, the count, the columns and the default names; when neither it nor the workspace that takes
  over its views is the current one, the code is sure to return.\<close>

theorem workspace_destroy_removes:
  assumes "ws_inv s" "w \<in> set (ws_list s)"
  shows "(\<forall>s'. workspace_destroy d n env w s = Some s' \<longrightarrow>
      ws_inv s' \<and> ws_list s' = remove1 w (ws_list s) \<and> (default_named d s \<longrightarrow> default_named d s')) \<and>
    (w \<noteq> ws_current s \<and> heir w s \<noteq> ws_current s \<and> (\<forall>v. chain_le (we_depth env) (parents s) v) \<longrightarrow>
      (\<exists>s'. workspace_destroy d n env w s = Some s'))"
proof -
  have r: "ws_inv (removed d w s)" "ws_list (removed d w s) = remove1 w (ws_list s)"
    using removed_holds(1) [OF assms] by auto
  have nm: "default_named d (removed d w s)" if "default_named d s"
    using that by (rule default_named_renumbered)
      (auto simp: r(2) intro!: shift_down_renumbered dest: set_remove1_subset [THEN subsetD])
  have "ws_inv s' \<and> ws_list s' = remove1 w (ws_list s) \<and> (default_named d s \<longrightarrow> default_named d s')"
    if ds: "workspace_destroy d n env w s = Some s'" for s'
  proof -
    obtain t where t: "fix_workspace d n env w s = Some t" "s' = wm_emit (WsDestroy w) t"
      using ds by (auto simp: workspace_destroy_def)
    have "space_frame t = space_frame (removed d w s)"
      using t(1) by (auto simp: fix_workspace_eq [OF assms] split: if_splits bind_splits
          dest!: sf.run_wm_frame move_views_loop_frame)
    then have "space_frame s' = space_frame (removed d w s)" by (simp add: t(2))
    from frame_list [OF this] r nm show ?thesis by simp
  qed
  then show ?thesis using workspace_destroy_total [OF assms] by blast
qed

subsection \<open>The views of a destroyed workspace\<close>

text \<open>Adding a view to another workspace neither changes the list of \<open>w\<close> nor a proxy that exists.\<close>

definition leaves_alone :: "ptr \<Rightarrow> wm \<Rightarrow> wm \<Rightarrow> bool" where
  "leaves_alone w s t \<longleftrightarrow> ws_proxies (ws t w) = ws_proxies (ws s w) \<and>
     (\<forall>p. p \<notin> set (next_allocs s) \<longrightarrow> px t p = px s p) \<and> set (next_allocs t) \<subseteq> set (next_allocs s)"

lemma leaves_alone_refl [simp]: "leaves_alone w s s"
  by (simp add: leaves_alone_def)

lemma leaves_alone_trans [trans]: "leaves_alone w s t \<Longrightarrow> leaves_alone w t u \<Longrightarrow> leaves_alone w s u"
  by (auto simp: leaves_alone_def)

lemma leaves_alone_upd [simp]:
  "leaves_alone w s (upd_view v f t) = leaves_alone w s t" "leaves_alone w s (wm_emit e t) = leaves_alone w s t"
  "leaves_alone w s (view_emit v e' t) = leaves_alone w s t" "leaves_alone w s (reparent v x t) = leaves_alone w s t"
  by (simp_all add: leaves_alone_def upd_view_def wm_emit_def view_emit_def reparent_def)

lemma view_set_current_proxy_alone: "view_set_current_proxy v p s = Some s' \<Longrightarrow> leaves_alone w s s'"
  by (auto simp: view_set_current_proxy_def Let_def split: if_splits)

lemma view_proxy_create_alone: "w \<noteq> t \<Longrightarrow> leaves_alone w s (snd (view_proxy_create v t s))"
proof -
  assume t: "w \<noteq> t"
  obtain p s1 where a: "alloc s = (p, s1)" by (cases "alloc s")
  then have s1: "leaves_alone w s s1" "p \<noteq> NULL \<Longrightarrow> p \<in> set (next_allocs s)"
    by (auto simp: alloc_def leaves_alone_def split: list.splits)
  let ?s2 = "\<lambda>x. upd_space t (\<lambda>x. x\<lparr>ws_proxies := p # ws_proxies x\<rparr>) (upd_proxy p (\<lambda>_. x) s1)"
  have "leaves_alone w s (?s2 x)" if "p \<noteq> NULL" for x
    using s1 t that by (auto simp: leaves_alone_def upd_space_def upd_proxy_def)
  then show ?thesis using s1(1) by (simp add: view_proxy_create_def a Let_def)
qed

lemma modal_chain_alone:
  assumes b: "\<forall>s s'. body s = Some s' \<longrightarrow> leaves_alone w s s'"
  shows "modal_chain n body v s = Some s' \<Longrightarrow> leaves_alone w s s'"
proof (induction n arbitrary: v s)
  case (Suc n)
  then show ?case
    by (auto split: if_splits bind_splits dest!: b [rule_format] Suc.IH intro: leaves_alone_trans)
qed simp

lemma view_add_workspace_alone:
  "w \<noteq> t \<Longrightarrow> view_add_workspace n v t s = Some (p, s') \<Longrightarrow> leaves_alone w s s'"
proof (induction n arbitrary: v t s p s')
  case (Suc n)
  have chain: "modal_chain n (\<lambda>s. map_option snd (view_add_workspace n (v_parent (vw s v)) t s)) u x = Some y \<Longrightarrow>
      w \<noteq> t \<Longrightarrow> leaves_alone w x y" for u x y t
    by (erule modal_chain_alone [rotated]) (use Suc.IH in auto)
  have create: "view_proxy_create v t x = (q, y) \<Longrightarrow> w \<noteq> t \<Longrightarrow> leaves_alone w x y" for x q y t
    using view_proxy_create_alone [of w t x v] by simp
  show ?case
  proof (cases "v = NULL \<or> t = NULL")
    case False
    let ?m = "if modal (base (vw s v))
      then modal_chain n (\<lambda>s. map_option snd (view_add_workspace n (v_parent (vw s v)) t s)) (v_parent (vw s v)) s
      else Some s"
    obtain s1 where m: "?m = Some s1" and rest: "(if view_proxy_by_workspace s1 v t \<noteq> NULL then Some (NULL, s1)
        else let (p, s) = view_proxy_create v t s1
          in if t = ws_current s then map_option (\<lambda>s. (p, s)) (view_set_current_proxy v p s) else Some (p, s)) = Some (p, s')"
      using Suc.prems(2) False by (simp only: view_add_workspace.simps) (auto split: bind_splits)
    obtain q s2 where c: "view_proxy_create v t s1 = (q, s2)" by (cases "view_proxy_create v t s1")
    have a1: "leaves_alone w s s1" using m Suc.prems(1) by (auto split: if_splits dest: chain)
    have a2: "leaves_alone w s s2" using a1 create [OF c Suc.prems(1)] by (rule leaves_alone_trans)
    have "s' = s1 \<or> s' = s2 \<or> view_set_current_proxy v q s2 = Some s'"
      using rest c by (auto split: if_splits)
    then show ?thesis
      using a1 a2 leaves_alone_trans [OF a2 view_set_current_proxy_alone] by blast
  qed (use Suc.prems in auto)
qed simp

lemma move_views_loop_empties:
  assumes t: "w \<noteq> t"
  shows "move_views_loop n t ps s = Some s' \<Longrightarrow>
    (\<forall>p \<in> set ps. p \<noteq> NULL \<and> px_workspace (px s p) = w \<and> p \<notin> set (next_allocs s)) \<Longrightarrow>
    ws_proxies (ws s' w) = filter (\<lambda>p. p \<notin> set ps) (ws_proxies (ws s w))"
proof (induction ps arbitrary: s)
  case (Cons p ps)
  obtain q s1 s2 where s1: "view_add_workspace n (px_view (px s p)) t s = Some (q, s1)"
    and s2: "(if q \<noteq> NULL then view_set_current_proxy (px_view (px s p)) q s1 else Some s1) = Some s2"
    and r: "move_views_loop n t ps (view_proxy_destroy p s2) = Some s'"
    using Cons.prems(1) by (auto simp: Let_def split: bind_splits)
  have "leaves_alone w s1 s2" using s2 by (auto split: if_splits dest: view_set_current_proxy_alone)
  then have a: "leaves_alone w s s2" using view_add_workspace_alone [OF t s1] by (rule leaves_alone_trans [rotated])
  then have p: "p \<noteq> NULL" "px_workspace (px s2 p) = w" using Cons.prems(2) by (auto simp: leaves_alone_def)
  have d: "ws_proxies (ws (view_proxy_destroy p s2) w) = removeAll p (ws_proxies (ws s w))"
    "px (view_proxy_destroy p s2) = px s2" "next_allocs (view_proxy_destroy p s2) = next_allocs s2"
    using p a by (auto simp: view_proxy_destroy_def Let_def upd_space_def upd_view_def view_emit_def wm_emit_def leaves_alone_def)
  have "ws_proxies (ws s' w) = filter (\<lambda>p. p \<notin> set ps) (ws_proxies (ws (view_proxy_destroy p s2) w))"
    using Cons.prems(2) a by (intro Cons.IH [OF r]) (auto simp: d leaves_alone_def)
  also have "\<dots> = filter (\<lambda>q. q \<notin> set (p # ps)) (ws_proxies (ws s w))"
    by (auto simp: d removeAll_filter_not_eq intro!: filter_cong)
  finally show ?case .
qed simp

text \<open>Where the views go to the current workspace, every new proxy is made the current one, which needs memory;
  for views that are not modal, one proxy each is enough.\<close>

definition uses_one :: "wm \<Rightarrow> wm \<Rightarrow> bool" where
  "uses_one s t \<longleftrightarrow> (\<exists>k \<le> 1. next_allocs t = drop k (next_allocs s)) \<and>
     (\<forall>p. p \<notin> set (next_allocs s) \<longrightarrow> px t p = px s p) \<and> (\<forall>u. base (vw t u) = base (vw s u))"

lemma uses_one_upd [simp]:
  "uses_one s (wm_emit e t) = uses_one s t" "uses_one s (view_emit v e' t) = uses_one s t"
  "uses_one s (reparent v x t) = uses_one s t" "uses_one s (upd_space w g t) = uses_one s t"
  "uses_one s (upd_view v (\<lambda>x. x\<lparr>v_proxies := f x\<rparr>) t) = uses_one s t"
  "uses_one s (upd_view v (\<lambda>x. x\<lparr>current_proxy := p\<rparr>) t) = uses_one s t"
  by (auto simp: uses_one_def upd_view_def wm_emit_def view_emit_def reparent_def upd_space_def emit_def)

lemma uses_one_refl [simp]: "uses_one s s"
  by (auto simp: uses_one_def intro: exI [of _ 0])

lemma view_set_current_proxy_uses:
  "view_set_current_proxy v p t = Some t' \<Longrightarrow> uses_one s t \<Longrightarrow> uses_one s t'"
  by (auto simp: view_set_current_proxy_def Let_def split: if_splits)

lemma view_add_workspace_returns:
  assumes n: "0 < n" and m: "\<not> modal (base (vw s v))" and a: "next_allocs s \<noteq> []" "NULL \<notin> set (next_allocs s)"
  shows "\<exists>q t. view_add_workspace n v w s = Some (q, t) \<and> uses_one s t"
proof -
  obtain k where k: "n = Suc k" using n by (cases n) auto
  obtain p l where l: "next_allocs s = p # l" "p \<noteq> NULL" using a by (cases "next_allocs s") auto
  have "uses_one s (upd_proxy p f (s\<lparr>next_allocs := l\<rparr>))" for f
    by (auto simp: uses_one_def l upd_proxy_def intro: exI [of _ 1])
  then obtain t where t: "view_proxy_create v w s = (p, t)" "uses_one s t"
    using l by (simp add: view_proxy_create_def alloc_def Let_def)
  obtain t' where "view_set_current_proxy v p t = Some t'"
    using view_set_current_proxy_total l(2) by blast
  then show ?thesis
    using m t view_set_current_proxy_uses [OF _ t(2)] by (auto simp: k Let_def)
qed

lemma move_views_loop_returns:
  assumes n: "0 < n"
  shows "length ps \<le> length (next_allocs s) \<Longrightarrow> NULL \<notin> set (next_allocs s) \<Longrightarrow>
    (\<forall>p \<in> set ps. p \<notin> set (next_allocs s) \<and> \<not> modal (base (vw s (px_view (px s p))))) \<Longrightarrow>
    \<exists>s'. move_views_loop n w ps s = Some s'"
proof (induction ps arbitrary: s)
  case (Cons p ps)
  let ?v = "px_view (px s p)"
  obtain q s1 where s1: "view_add_workspace n ?v w s = Some (q, s1)" "uses_one s s1"
    using view_add_workspace_returns [OF n, of s ?v w] Cons.prems by fastforce
  obtain s2 where s2: "(if q \<noteq> NULL then view_set_current_proxy ?v q s1 else Some s1) = Some s2"
    using view_set_current_proxy_total [of q ?v s1] by (cases "q = NULL") auto
  then have "uses_one s s2" using s1(2) by (auto split: if_splits intro: view_set_current_proxy_uses)
  then have u: "uses_one s (view_proxy_destroy p s2)" by (simp add: view_proxy_destroy_def Let_def)
  then have "set (next_allocs (view_proxy_destroy p s2)) \<subseteq> set (next_allocs s)"
    "length (next_allocs s) \<le> Suc (length (next_allocs (view_proxy_destroy p s2)))"
    by (auto simp: uses_one_def dest: in_set_dropD)
  then have "\<exists>s'. move_views_loop n w ps (view_proxy_destroy p s2) = Some s'"
    using Cons.prems u by (intro Cons.IH) (auto simp: uses_one_def)
  then show ?case using s1 s2 by (simp add: Let_def)
qed simp

text \<open>The proxies of a workspace point back to it, and are not given out again.\<close>

definition owns_proxies :: "ptr \<Rightarrow> wm \<Rightarrow> bool" where
  "owns_proxies w s \<longleftrightarrow>
     (\<forall>p \<in> set (ws_proxies (ws s w)). p \<noteq> NULL \<and> px_workspace (px s p) = w \<and> p \<notin> set (next_allocs s))"

lemma owns_proxies_cong: "member_frame t = member_frame s \<Longrightarrow> owns_proxies w t = owns_proxies w s"
  by (simp add: owns_proxies_def member_frame_def fun_eq_iff)

lemma removed_owns: "ws_inv s \<Longrightarrow> w \<in> set (ws_list s) \<Longrightarrow> owns_proxies w (removed d w s) = owns_proxies w s"
  using removed_holds(2) [of s w d] by (simp add: owns_proxies_def removed_rest del: removed_fields)

lemma destroyed_is_empty:
  assumes i: "ws_inv s" "w \<in> set (ws_list s)" "owns_proxies w s" and c: "1 < ws_count s"
    and d: "workspace_destroy d n env w s = Some s'"
  shows "ws_proxies (ws s' w) = []"
proof -
  obtain t u where t: "(if ws_current s = w then run_wm n env (CallWorkspaceActivate (heir w s)) (removed d w s)
        else Some (removed d w s)) = Some t"
    and u: "move_views_loop (we_depth env) (heir w s) (ws_proxies (ws t w)) t = Some u" "s' = wm_emit (WsDestroy w) u"
    using d c by (auto simp: workspace_destroy_def fix_workspace_eq [OF i(1,2)] split: bind_splits if_splits)
  have "member_frame t = member_frame (removed d w s)"
    using t by (auto split: if_splits dest: mf.run_wm_frame)
  then have o: "owns_proxies w t" using owns_proxies_cong removed_owns i by blast
  have "ws_proxies (ws u w) = filter (\<lambda>p. p \<notin> set (ws_proxies (ws t w))) (ws_proxies (ws t w))"
    by (rule move_views_loop_empties [OF _ u(1)]) (use heir_eq(2) [OF i(1,2) c] o in \<open>auto simp: owns_proxies_def\<close>)
  then show ?thesis by (simp add: u(2))
qed

lemma workspace_destroy_returns:
  assumes i: "ws_inv s" "w \<in> set (ws_list s)" "w \<noteq> ws_current s" and c: "\<forall>v. chain_le (we_depth env) (parents s) v"
    and o: "owns_proxies w s"
    and m: "length (ws_proxies (ws s w)) \<le> length (next_allocs s)" "NULL \<notin> set (next_allocs s)"
      "\<forall>p \<in> set (ws_proxies (ws s w)). \<not> modal (base (vw s (px_view (px s p))))"
  shows "\<exists>s'. workspace_destroy d n env w s = Some s'"
proof -
  have "0 < we_depth env" using c by (cases "we_depth env") auto
  then have "\<exists>t. move_views_loop (we_depth env) (heir w s) (ws_proxies (ws s w)) (removed d w s) = Some t"
    using m o by (rule_tac move_views_loop_returns) (auto simp: removed_rest owns_proxies_def)
  then show ?thesis
    using i removed_holds(2) [OF i(1,2)] by (auto simp: workspace_destroy_def fix_workspace_eq [OF i(1,2)] simp del: removed_fields)
qed

text \<open>C12: a workspace that is destroyed while there is another one is left without views, as the comment
  before the destruction of its trees requires, also when it is the current one. When it is not the current
  one, the code is sure to return if the workspace that takes over its views is not the current one either, or if
  there is memory for a proxy of each of its views and none of them is modal. The last workspace is the exception:
  the code returns with all its views left in it.\<close>

theorem destroyed_workspace_is_empty:
  assumes "ws_inv s" "w \<in> set (ws_list s)" "owns_proxies w s"
  shows "if ws_count s = 1
    then \<exists>s'. workspace_destroy d n env w s = Some s' \<and> ws_proxies (ws s' w) = ws_proxies (ws s w)
    else (\<forall>s'. workspace_destroy d n env w s = Some s' \<longrightarrow> ws_proxies (ws s' w) = []) \<and>
      (w \<noteq> ws_current s \<and> (\<forall>v. chain_le (we_depth env) (parents s) v) \<and>
       (heir w s \<noteq> ws_current s \<or>
        length (ws_proxies (ws s w)) \<le> length (next_allocs s) \<and> NULL \<notin> set (next_allocs s) \<and>
        (\<forall>p \<in> set (ws_proxies (ws s w)). \<not> modal (base (vw s (px_view (px s p))))))
       \<longrightarrow> (\<exists>s'. workspace_destroy d n env w s = Some s'))"
proof (cases "ws_count s = 1")
  case True
  then show ?thesis
    using removed_holds(2) [OF assms(1,2)] by (simp add: workspace_destroy_def fix_workspace_eq [OF assms(1,2)] del: removed_fields)
next
  case False
  then have "1 < ws_count s" using ws_inv_member(1) [OF assms(1,2)] by auto
  then show ?thesis
    using False destroyed_is_empty [OF assms] workspace_destroy_total [OF assms(1,2)]
      workspace_destroy_returns [OF assms(1,2) _ _ assms(3)] by auto
qed

subsection \<open>An example\<close>

text \<open>Three workspaces at the addresses 11, 12 and 13, of which the first is the current one. The view 21 is
  in the second and, in the second state, also in the third, which it was last shown in.\<close>

definition some_space :: "string \<Rightarrow> nat \<Rightarrow> ptr list \<Rightarrow> workspace" where
  "some_space d i ps = \<lparr>ws_position = i, ws_name = default_name d i, has_custom_name = False, ws_activated = (i = 0),
     ws_enabled = (i = 0), ws_proxies = ps\<rparr>"

definition some_wm :: "string \<Rightarrow> wm" where
  "some_wm d = \<lparr>
     wm_views = (\<lambda>_. some_view)(21 := some_view\<lparr>current_proxy := 31, v_proxies := [31], tree_parent := ProxyTree 31\<rparr>),
     view_list = [21],
     wm_proxies = \<lambda>_. \<lparr>px_view = 21, px_workspace = 12, px_layer = LAYER_NORMAL\<rparr>,
     wm_spaces = (\<lambda>_. new_workspace)(11 := some_space d 0 [], 12 := some_space d 1 [31], 13 := some_space d 2 []),
     ws_array = [11, 12, 13] @ replicate 12 NULL, ws_count = 3, ws_rows = 2, ws_columns = 2, ws_current = 11,
     activated_view = NULL, show_desktop_enabled = False, show_active_only_enabled = False, desktop_view = NULL,
     global_authentication_view = NULL, focused_view = NULL, server_ready = True, next_allocs = [41, 42, 43],
     wm_signals = []\<rparr>"

definition two_proxies :: "string \<Rightarrow> wm" where
  "two_proxies d = (some_wm d)\<lparr>
     wm_views := (\<lambda>_. some_view)(21 := some_view\<lparr>current_proxy := 32, v_proxies := [31, 32], tree_parent := ProxyTree 32\<rparr>),
     wm_proxies := (wm_proxies (some_wm d))(32 := \<lparr>px_view = 21, px_workspace = 13, px_layer = LAYER_NORMAL\<rparr>),
     wm_spaces := (wm_spaces (some_wm d))(13 := some_space d 2 [32])\<rparr>"

definition some_wm_env :: wm_env where
  "some_wm_env = \<lparr>we_outputs = some_env, we_impl = Some (\<lambda>v. Some v), we_offer_focus = (\<lambda>_. False), we_effect = False,
     we_seat = True, we_depth = 4\<rparr>"

lemma some_wm_fields [simp]:
  "ws_count (some_wm d) = 3" "ws_list (some_wm d) = [11, 12, 13]" "ws_current (some_wm d) = 11"
  "next_allocs (some_wm d) = [41, 42, 43]" "we_depth some_wm_env = 4"
  "\<not> has_custom_name (ws (some_wm d) 11)" "ws_position (ws (some_wm d) 11) = 0" "ws_position (ws (some_wm d) 12) = 1" "ws_position (ws (some_wm d) 13) = 2"
  by (simp_all add: some_wm_def ws_list_def some_wm_env_def some_space_def)

lemma some_wm_inv [simp]: "ws_inv (some_wm d)" "default_named d (some_wm d)"
  by (simp_all add: ws_inv_def default_named_def MAX_WORKSPACES_def)
    (simp_all add: some_wm_def some_space_def upt_rec)

lemma some_wm_chain [simp]: "\<forall>v. chain_le 4 (parents (some_wm d)) v"
  by (simp add: numeral_eq_Suc parents_def some_wm_def some_view_def)

lemma workspace_create_inserts_witness:
  "\<exists>s'. workspace_create ''Desktop'' 4 None 1 (some_wm ''Desktop'') = Some (41, s') \<and> ws_inv s' \<and>
    ws_list s' = insert_at (min 1 3) 41 [11, 12, 13] \<and>
    ws_name (ws s' 41) = (case None of None \<Rightarrow> default_name ''Desktop'' (min 1 3) | Some nm \<Rightarrow> nm)"
  using workspace_create_inserts [where s = "some_wm ''Desktop''" and w = 41 and l = "[42, 43]" and n = 4
      and d = "''Desktop''" and name = None and position = 1]
  by (simp add: MAX_WORKSPACES_def)

lemma workspace_set_position_moves_witness:
  "ws_inv (workspace_set_position ''D'' 11 7 (some_wm ''D'')) \<and>
   ws_list (workspace_set_position ''D'' 11 7 (some_wm ''D'')) = [12, 13, 11] \<and>
   default_named ''D'' (workspace_set_position ''D'' 11 7 (some_wm ''D''))"
  using workspace_set_position_moves [where s = "some_wm ''D''" and w = 11 and d = "''D''" and position = 7]
  by (simp add: insert_at_def)

lemma workspace_destroy_removes_witness:
  "\<exists>s'. workspace_destroy ''D'' 9 some_wm_env 13 (some_wm ''D'') = Some s' \<and> ws_inv s' \<and> ws_list s' = [11, 12] \<and>
    default_named ''D'' s'"
proof -
  have h: "heir 13 (some_wm ''D'') = 12" by (simp add: heir_def)
  show ?thesis
    using workspace_destroy_removes [where s = "some_wm ''D''" and w = 13 and d = "''D''" and n = 9 and env = some_wm_env]
    by (auto simp: h)
qed

lemma destroyed_workspace_is_empty_witness:
  "\<exists>s'. workspace_destroy ''D'' 9 some_wm_env 12 (some_wm ''D'') = Some s' \<and> ws_proxies (ws s' 12) = []"
proof -
  have p: "ws_proxies (ws (some_wm ''D'') 12) = [31]" "NULL \<notin> set (next_allocs (some_wm ''D''))"
    "owns_proxies 12 (some_wm ''D'')" "\<not> modal (base (vw (some_wm ''D'') (px_view (px (some_wm ''D'') 31))))"
    by (simp_all add: owns_proxies_def) (simp_all add: some_wm_def some_space_def some_view_def some_base_def)
  show ?thesis
    using destroyed_workspace_is_empty [where s = "some_wm ''D''" and w = 12 and d = "''D''" and n = 9 and env = some_wm_env]
    by (auto simp: p)
qed

text \<open>A workspace created at the front takes the default name of the first position and the old first
  workspace keeps it: the names of the workspaces behind the new one are not updated, so two workspaces
  have the same name.\<close>

theorem create_at_front_duplicates_name:
  assumes "ws_inv s" "ws_count s < MAX_WORKSPACES" "next_allocs s = w # l" "w \<noteq> NULL"
    "w \<notin> set (ws_list s)" "w \<noteq> ws_current s" "\<forall>v. chain_le n (parents s) v"
    and "default_named d s" "ws_list s = x # xs" "\<not> has_custom_name (ws s x)"
  shows "\<exists>s'. workspace_create d n None 0 s = Some (w, s') \<and> ws_list s' = w # x # xs \<and>
    ws_name (ws s' w) = ws_name (ws s' x) \<and> ws_position (ws s' w) \<noteq> ws_position (ws s' x)"
proof -
  obtain s' where s': "workspace_create d n None 0 s = Some (w, s')"
    "space_frame s' = space_frame (created d None 0 w (s\<lparr>next_allocs := l\<rparr>))"
    "ws_inv s'" "ws_list s' = insert_at 0 w (ws_list s)"
    using workspace_create_created [OF assms(1-7), of d None 0] by auto
  have x: "x \<noteq> w" "w \<in> set (ws_list s')" "x \<in> set (ws_list s')" "ws_position (ws s x) = 0"
    using assms(5,9) s'(4) ws_inv_holds [OF assms(1)] by (auto simp: insert_at_def holds_list_def)
  have "ws_name (ws s' w) = default_name d 0" "ws_name (ws s' x) = ws_name (ws s x)"
    using s'(2) x(1) by (simp_all add: space_frame_def fun_eq_iff created_name created_others)
  moreover have "ws_name (ws s x) = default_name d 0"
    using assms(8-10) x by (simp add: default_named_def)
  moreover have "ws_position (ws s' w) \<noteq> ws_position (ws s' x)"
    using ws_inv_member(2) [OF s'(3) x(2)] ws_inv_member(2) [OF s'(3) x(3)] x(1) by metis
  ultimately show ?thesis using s' assms(9) by (simp add: insert_at_def)
qed

lemma create_at_front_duplicates_name_witness:
  "\<exists>s'. workspace_create ''Desktop'' 4 None 0 (some_wm ''Desktop'') = Some (41, s') \<and> ws_list s' = [41, 11, 12, 13] \<and>
    ws_name (ws s' 41) = ws_name (ws s' 11) \<and> ws_position (ws s' 41) \<noteq> ws_position (ws s' 11)"
  by (rule create_at_front_duplicates_name [where l = "[42, 43]"])
    (simp_all add: MAX_WORKSPACES_def)

text \<open>At the last workspace a switch to the right whose effect is not available reads the array behind its
  used part.\<close>

theorem switch_beyond_last_fails:
  assumes "ws_inv s" "ws_current s = last (ws_list s)" "ws_list s \<noteq> []" "\<not> we_effect env"
  shows "workspace_switch_to n env (SwitchDirection DIRECTION_RIGHT) s = None"
proof -
  have "holds_list s (ws_list s)" "length (ws_list s) = ws_count s"
    using assms(1) ws_inv_holds by (auto simp: ws_inv_def ws_list_def)
  then have "ws_position (ws s (ws_current s)) = ws_count s - 1" "0 < ws_count s"
    using assms(2,3) by (fastforce simp: holds_list_def last_conv_nth simp flip: length_greater_0_conv)+
  then show ?thesis
    using assms(4) by (simp add: workspace_switch_to_def workspace_add_automatic_translation_effect_def)
qed

lemma switch_beyond_last_fails_witness:
  "workspace_switch_to 9 some_wm_env (SwitchDirection DIRECTION_RIGHT) ((some_wm ''D'')\<lparr>ws_current := 13\<rparr>) = None"
proof -
  have l: "ws_list ((some_wm ''D'')\<lparr>ws_current := 13\<rparr>) = [11, 12, 13]" "ws_inv ((some_wm ''D'')\<lparr>ws_current := 13\<rparr>)"
    using frame_list(1,2) [OF space_frame_fields(4)] by simp_all
  show ?thesis by (rule switch_beyond_last_fails) (simp_all add: l, simp add: some_wm_env_def)
qed

text \<open>The view 21 is in the workspaces 12 and 13 and was last shown in 13, the workspace 11 is the current
  one. Destroying 13 frees its proxy of the view, but the view keeps it as its current proxy.\<close>

theorem destroy_leaves_dangling_proxy:
  "\<exists>s'. workspace_destroy ''D'' 9 some_wm_env 13 (two_proxies ''D'') = Some s' \<and>
    current_proxy (vw s' 21) = 32 \<and> v_proxies (vw s' 21) = [31] \<and> tree_parent (vw s' 21) = ProxyTree 32"
proof -
  note step = view_add_workspace.simps(2) [where n = 3, simplified]
  show ?thesis
    by (simp add: step workspace_destroy_def fix_workspace_def two_proxies_def some_wm_def some_space_def some_view_def
        some_base_def workspace_manager_update_count_def Let_def view_proxy_by_workspace_def view_proxy_destroy_def
        upd_view_def upd_space_def view_emit_def wm_emit_def emit_def)
qed

end
