(* ===== verification/ActivationProofs.thy ===== *)
theory ActivationProofs
  imports WorkspaceProofs
begin

section \<open>The activated view\<close>

text \<open>
  At every moment at most one view has the flag \<open>activated\<close>, and it is the one the view manager holds as its
  activated view. The functions of \<open>ViewManager\<close> call one another, and in the middle of \<open>view_set_activated\<close>
  the two are out of step; what is called there only restores views and does not touch the activation.
  The implementation's configure is only asked to keep the flags of the view.
\<close>

definition act :: "wm \<Rightarrow> ptr \<times> (ptr \<Rightarrow> bool)" where
  "act s = (activated_view s, \<lambda>v. activated (base (vw s v)))"

definition act_inv :: "wm \<Rightarrow> bool" where
  "act_inv s \<longleftrightarrow> (\<forall>v. activated (base (vw s v)) \<longleftrightarrow> activated_view s = v \<and> v \<noteq> NULL)"

lemma act_inv_cong: "act t = act s \<Longrightarrow> act_inv t = act_inv s"
  by (simp add: act_def act_inv_def fun_eq_iff)

definition keeps_act :: "('a \<Rightarrow> wm \<Rightarrow> wm option) \<Rightarrow> bool" where
  "keeps_act f \<longleftrightarrow> (\<forall>x s s'. f x s = Some s' \<longrightarrow> act s' = act s)"

lemma keeps_actD: "keeps_act f \<Longrightarrow> f x s = Some s' \<Longrightarrow> act s' = act s"
  by (simp add: keeps_act_def)

text \<open>What a configure function may not change.\<close>

definition flags :: "view \<Rightarrow> bool \<times> bool" where
  "flags v = (activated (base v), minimized (base v))"

definition impl_ok :: "wm_env \<Rightarrow> bool" where
  "impl_ok env \<longleftrightarrow> (\<forall>f x y. we_impl env = Some f \<longrightarrow> f x = Some y \<longrightarrow> flags y = flags x)"

lemma call_configure_flags: "impl_ok env \<Longrightarrow> call_configure (we_impl env) x = Some y \<Longrightarrow> flags y = flags x"
  by (auto simp: call_configure_def impl_ok_def split: if_splits option.splits)

subsection \<open>Operations that do not touch the activation\<close>

lemma act_upd [simp]:
  "act (upd_proxy p g s) = act s" "act (upd_space w h s) = act s" "act (wm_emit e s) = act s"
  "act (view_emit v e' s) = act s" "act (reparent v t s) = act s"
  by (auto simp: act_def upd_proxy_def upd_space_def wm_emit_def view_emit_def reparent_def upd_view_def emit_def)

lemma act_upd_view: "(\<And>x. activated (base (f x)) = activated (base x)) \<Longrightarrow> act (upd_view v f s) = act s"
  by (auto simp: act_def upd_view_def)

lemma act_upd_fields [simp]:
  "act (upd_view v (\<lambda>x. x\<lparr>v_proxies := a x\<rparr>) s) = act s" "act (upd_view v (\<lambda>x. x\<lparr>current_proxy := b\<rparr>) s) = act s"
  "act (upd_view v (\<lambda>x. x\<lparr>minimized_when_show_desktop := c x\<rparr>) s) = act s"
  "act (upd_view v (\<lambda>x. x\<lparr>minimized_when_show_active_only := c x\<rparr>) s) = act s"
  "act (upd_view v (\<lambda>x. x\<lparr>tree_enabled := d\<rparr>) s) = act s" "act (upd_view v (\<lambda>x. x\<lparr>v_children := g x\<rparr>) s) = act s"
  "act (upd_view v (\<lambda>x. x\<lparr>v_parent := h\<rparr>) s) = act s"
  "act (upd_view v (\<lambda>x. add_action z (upd_base (\<lambda>b. b\<lparr>minimized := m\<rparr>) x)) s) = act s"
  "act (upd_view v (upd_base (\<lambda>b. b\<lparr>sticky := e\<rparr>)) s) = act s" "act (upd_view v (upd_base (\<lambda>b. b\<lparr>mapped := e\<rparr>)) s) = act s"
  by (simp_all add: act_upd_view add_action_def upd_pending_def upd_base_def)

lemma act_fields [simp]:
  "act (s\<lparr>show_desktop_enabled := b\<rparr>) = act s" "act (s\<lparr>show_active_only_enabled := b\<rparr>) = act s"
  "act (s\<lparr>ws_current := a\<rparr>) = act s" "act (s\<lparr>focused_view := a\<rparr>) = act s" "act (s\<lparr>next_allocs := l\<rparr>) = act s"
  "act (s\<lparr>ws_array := k\<rparr>) = act s" "act (s\<lparr>ws_count := n, ws_columns := m\<rparr>) = act s" "act (s\<lparr>desktop_view := a\<rparr>) = act s"
  "act (s\<lparr>global_authentication_view := a\<rparr>) = act s" "act (s\<lparr>view_list := k\<rparr>) = act s" "act (s\<lparr>ws_rows := r\<rparr>) = act s"
  by (simp_all add: act_def)

lemma on_view_act:
  assumes "\<And>x y. f x = Some y \<Longrightarrow> activated (base y) = activated (base x)"
  shows "on_view v f s = Some s' \<Longrightarrow> act s' = act s"
  using assms [of "vw s v"] by (auto simp: on_view_def act_def fun_eq_iff split: if_splits)

lemma configure_act:
  assumes "impl_ok env" "\<And>x. activated (base (g x)) = activated (base x)"
  shows "on_view v (\<lambda>x. call_configure (we_impl env) (g x)) s = Some s' \<Longrightarrow> act s' = act s"
  by (erule on_view_act [rotated]) (use assms call_configure_flags [OF assms(1)] in \<open>auto simp: flags_def\<close>)

lemma view_set_current_proxy_act: "view_set_current_proxy v p s = Some s' \<Longrightarrow> act s' = act s"
  by (auto simp: view_set_current_proxy_def Let_def split: if_splits)

lemma view_set_focus_act [simp]: "act (view_set_focus n v b s) = act s"
  by (simp add: view_set_focus_def Let_def)

lemma raise_children_act:
  assumes f: "keeps_act f"
  shows "raise_children f cs s = Some s' \<Longrightarrow> act s' = act s"
proof (induction cs arbitrary: s)
  case (Cons c cs)
  then show ?case by (auto split: bind_splits dest!: Cons.IH keeps_actD [OF f])
qed simp

lemma view_reparent_fullscreen_act: "view_reparent_fullscreen n v a s = Some s' \<Longrightarrow> act s' = act s"
proof (induction n arbitrary: v s s')
  case (Suc n)
  let ?t = "if a then reparent v (LayerTree LAYER_ACTIVE) s
     else if current_proxy (vw s v) \<noteq> NULL then reparent v (ProxyTree (current_proxy (vw s v))) s else s"
  have "raise_children (\<lambda>c s. view_reparent_fullscreen n c a s) (v_children (vw ?t v)) ?t = Some s'"
    using Suc.prems by (simp add: Let_def)
  then have "act s' = act ?t" by (rule raise_children_act [rotated]) (simp add: keeps_act_def Suc.IH)
  then show ?case by simp
qed simp

lemma show_active_only_loop_act:
  assumes i: "impl_ok env"
  shows "show_active_only_loop env e a c ps s = Some s' \<Longrightarrow> act s' = act s"
proof (induction ps arbitrary: s e a)
  case (Cons p ps)
  have cf: "on_view v (\<lambda>x. call_configure (we_impl env) (add_action z (upd_base (\<lambda>b. b\<lparr>minimized := m\<rparr>) (x\<lparr>tree_enabled := q\<rparr>)))) s = Some s'
      \<Longrightarrow> act s' = act s" for v z m q s s'
    by (rule configure_act [OF i]) (simp_all add: add_action_def upd_pending_def upd_base_def)
  from Cons.prems show ?case
    by (auto simp: Let_def emit_minimize_def split: if_splits bind_splits dest!: Cons.IH cf)
qed simp

lemma view_manager_show_active_only_act:
  "impl_ok env \<Longrightarrow> view_manager_show_active_only env e a s = Some s' \<Longrightarrow> act s' = act s"
  by (auto simp: view_manager_show_active_only_def Let_def split: if_splits dest!: show_active_only_loop_act)

lemma set_activated_loop_act: "set_activated_loop ps s = Some s' \<Longrightarrow> act s' = act s"
proof (induction ps arbitrary: s)
  case (Cons p ps)
  then show ?case by (auto split: if_splits bind_splits dest!: Cons.IH view_set_current_proxy_act)
qed simp

lemma workspace_set_activated_act: "workspace_set_activated w a s = Some s' \<Longrightarrow> act s' = act s"
  by (auto simp: workspace_set_activated_def split: if_splits bind_splits dest!: set_activated_loop_act)

lemma show_desktop_loop_act:
  assumes f: "keeps_act f"
  shows "show_desktop_loop env f e a ps s = Some s' \<Longrightarrow> act s' = act s"
proof (induction ps arbitrary: s e a)
  case (Cons p ps)
  from Cons.prems show ?case
    by (auto simp: Let_def split: if_splits bind_splits dest!: Cons.IH keeps_actD [OF f])
qed simp

subsection \<open>Restoring views\<close>

definition restoring :: "wm_call \<Rightarrow> bool" where
  "restoring c = (case c of CallDoMinimized v m \<Rightarrow> \<not> m | CallRequestMinimized v m \<Rightarrow> \<not> m
     | CallShowDesktop e a \<Rightarrow> \<not> e \<and> \<not> a | _ \<Rightarrow> False)"

definition keeps_restored :: "wm_calls \<Rightarrow> bool" where
  "keeps_restored call \<longleftrightarrow> (\<forall>c s s'. restoring c \<longrightarrow> call c s = Some s' \<longrightarrow> act s' = act s)"

lemma keeps_restoredD: "keeps_restored call \<Longrightarrow> call c s = Some s' \<Longrightarrow> restoring c \<Longrightarrow> act s' = act s"
  by (simp add: keeps_restored_def)

lemma view_do_minimized_restores:
  assumes i: "impl_ok env" and r: "keeps_restored call" and "view_do_minimized call env v False s = Some s'"
  shows "act s' = act s"
proof -
  let ?s1 = "upd_view v (\<lambda>x. add_action VIEW_ACTION_MINIMIZE (upd_base (\<lambda>b. b\<lparr>minimized := False\<rparr>) x)) s"
  let ?s2 = "upd_view v (\<lambda>x. x\<lparr>tree_enabled := True\<rparr>) ?s1"
  have a2: "act ?s2 = act s" by simp
  have cf: "act t = act s \<and> \<not> minimized (base (vw t v))" if "on_view v (call_configure (we_impl env)) ?s2 = Some t" for t
  proof -
    from that obtain y where y: "call_configure (we_impl env) (vw ?s2 v) = Some y" "t = ?s2\<lparr>wm_views := (wm_views ?s2)(v := y)\<rparr>"
      by (auto simp: on_view_def)
    have "flags y = flags (vw ?s2 v)" using call_configure_flags [OF i y(1)] .
    then have "act t = act ?s2" "\<not> minimized (base y)"
      using y(2) by (auto simp: act_def flags_def upd_view_def fun_eq_iff add_action_def upd_pending_def upd_base_def)
    then show ?thesis using y(2) a2 by simp
  qed
  have emit: "minimized (base (vw (emit_minimize v t) v)) = minimized (base (vw t v))" for t
    by (simp add: emit_minimize_def view_emit_def upd_view_def emit_def)
  show ?thesis
    using assms(3)
    by (auto simp: view_do_minimized_def Let_def emit emit_minimize_def [symmetric] restoring_def
        split: if_splits bind_splits dest!: cf keeps_restoredD [OF r] view_manager_show_active_only_act [OF i])
      (simp_all add: emit_minimize_def)
qed

lemma view_manager_show_desktop_restores:
  assumes "keeps_restored call" "view_manager_show_desktop call env False False s = Some s'"
  shows "act s' = act s"
proof -
  have "keeps_act (\<lambda>v. call (CallRequestMinimized v False))"
    using assms(1) by (auto simp: keeps_act_def restoring_def dest: keeps_restoredD)
  from show_desktop_loop_act [OF this] assms(2) show ?thesis
    by (auto simp: view_manager_show_desktop_def Let_def split: if_splits bind_splits)
qed

lemma run_wm_restores: "impl_ok env \<Longrightarrow> keeps_restored (run_wm n env)"
proof (induction n)
  case (Suc n)
  then have r: "keeps_restored (run_wm n env)" by simp
  show ?case
    unfolding keeps_restored_def
    by (auto simp: restoring_def stack_mode_view_minimized_def split: wm_call.splits if_splits
        dest!: view_do_minimized_restores [OF Suc.prems r] view_manager_show_desktop_restores [OF r] keeps_restoredD [OF r])
qed (simp add: keeps_restored_def)

subsection \<open>The functions that call one another\<close>

text \<open>The contract of a call: the invariant is kept; a view is activated only when no other view is.\<close>

definition call_pre :: "wm_call \<Rightarrow> wm \<Rightarrow> bool" where
  "call_pre c s = (case c of CallSetActivated v a \<Rightarrow> a \<longrightarrow> activated_view s = NULL \<and> v \<noteq> NULL | _ \<Rightarrow> True)"

definition call_post :: "wm_call \<Rightarrow> wm \<Rightarrow> wm \<Rightarrow> bool" where
  "call_post c s s' = (case c of CallSetActivated v a \<Rightarrow> \<not> a \<and> v = activated_view s \<longrightarrow> activated_view s' = NULL | _ \<Rightarrow> True)"

definition keeps_inv :: "wm_calls \<Rightarrow> bool" where
  "keeps_inv call \<longleftrightarrow> keeps_restored call \<and>
     (\<forall>c s s'. act_inv s \<longrightarrow> call_pre c s \<longrightarrow> call c s = Some s' \<longrightarrow> act_inv s' \<and> call_post c s s')"

lemma keeps_invD:
  assumes "keeps_inv call" "call c s = Some s'" "act_inv s" "call_pre c s"
  shows "act_inv s'" "call_post c s s'"
  using assms by (auto simp: keeps_inv_def)

definition activates :: "wm_call \<Rightarrow> bool" where
  "activates c = (case c of CallSetActivated v a \<Rightarrow> a | _ \<Rightarrow> False)"

lemma keeps_inv_any: "keeps_inv call \<Longrightarrow> call c s = Some s' \<Longrightarrow> \<not> activates c \<Longrightarrow> act_inv s \<longrightarrow> act_inv s'"
  using keeps_invD(1) [of call c s s'] by (cases c) (simp_all add: call_pre_def activates_def)

lemma act_activated: "act t = act s \<Longrightarrow> activated_view t = activated_view s"
  by (simp add: act_def)

lemma set_flag_act:
  assumes i: "impl_ok env"
    and "on_view v (\<lambda>x. call_configure (we_impl env) (add_action z (upd_base (\<lambda>b. b\<lparr>activated := a\<rparr>) x))) s = Some s'"
  shows "act s' = (activated_view s, (snd (act s))(v := a))"
proof -
  obtain y where y: "call_configure (we_impl env) (add_action z (upd_base (\<lambda>b. b\<lparr>activated := a\<rparr>) (vw s v))) = Some y"
    "s' = s\<lparr>wm_views := (wm_views s)(v := y)\<rparr>"
    using assms(2) by (auto simp: on_view_def)
  have "activated (base y) = a"
    using call_configure_flags [OF i y(1)] by (simp add: flags_def add_action_def upd_pending_def upd_base_def)
  then show ?thesis using y(2) by (auto simp: act_def fun_eq_iff)
qed

lemma view_set_activated_inv:
  assumes i: "impl_ok env" and r: "keeps_restored call" and s: "act_inv s" "call_pre (CallSetActivated v a) s"
    and "view_set_activated call env v a s = Some s'"
  shows "act_inv s' \<and> call_post (CallSetActivated v a) s s'"
proof (cases "activated (base (vw s v)) = a")
  case True
  then show ?thesis using assms(3,5) by (auto simp: view_set_activated_def call_post_def act_inv_def)
next
  case False
  let ?s0 = "s\<lparr>activated_view := if a then v else NULL\<rparr>"
  have "act ?s0 = (if a then v else NULL, snd (act s))" by (simp add: act_def)
  moreover
  obtain s1 anc s2 s3 s4 where
    s1: "(if fullscreen (base (vw ?s0 v)) then view_reparent_fullscreen (we_depth env) v a ?s0 else Some ?s0) = Some s1"
    and s2: "(if anc \<noteq> NULL then view_reparent_fullscreen (we_depth env) anc a s1 else Some s1) = Some s2"
    and s3: "(if minimized (base (vw s2 v)) \<and> a then call (CallRequestMinimized v False) s2 else Some s2) = Some s3"
    and s4: "on_view v (\<lambda>x. call_configure (we_impl env)
        (add_action VIEW_ACTION_ACTIVATE (upd_base (\<lambda>b. b\<lparr>activated := a\<rparr>) x))) s3 = Some s4"
    and s': "s' = view_emit v SigActivate s4"
    using assms(5) False
    by (simp add: view_set_activated_def Let_def bind_eq_Some_conv split del: if_split) blast
  have "act s1 = act ?s0" using s1 by (auto split: if_splits dest: view_reparent_fullscreen_act)
  moreover have "act s2 = act s1" using s2 by (auto split: if_splits dest: view_reparent_fullscreen_act)
  moreover have "act s3 = act s2" using s3 by (auto simp: restoring_def split: if_splits dest: keeps_restoredD [OF r])
  moreover have "act s4 = (activated_view s3, (snd (act s3))(v := a))" using set_flag_act [OF i s4] .
  ultimately have "act s' = (if a then v else NULL, (snd (act s))(v := a))"
    using act_activated [of s3 ?s0] by (simp add: s')
  then show ?thesis
    using s False by (auto simp: act_def act_inv_def call_pre_def call_post_def fun_eq_iff split: if_splits)
qed

lemmas act_inv_upd [simp] = act_upd [THEN act_inv_cong] act_upd_fields [THEN act_inv_cong]
  act_fields [THEN act_inv_cong] view_set_focus_act [THEN act_inv_cong]

lemmas act_invs = view_reparent_fullscreen_act [THEN act_inv_cong] workspace_set_activated_act [THEN act_inv_cong]

lemma configure_only_act: "impl_ok env \<Longrightarrow> on_view v (call_configure (we_impl env)) s = Some s' \<Longrightarrow> act s' = act s"
  using configure_act [of env "\<lambda>x. x" v s s'] by simp

lemma view_do_minimized_inv:
  assumes i: "impl_ok env" and k: "keeps_inv call" and s: "act_inv s"
    and "view_do_minimized call env v m s = Some s'"
  shows "act_inv s'"
proof -
  let ?s1 = "upd_view v (\<lambda>x. add_action VIEW_ACTION_MINIMIZE (upd_base (\<lambda>b. b\<lparr>minimized := m\<rparr>) x)) s"
  have act1: "act ?s1 = act s" "act (upd_view v (\<lambda>x. x\<lparr>tree_enabled := \<not> m\<rparr>) ?s1) = act s" by simp_all
  show ?thesis
  proof (cases "minimized (base (vw s v)) = m \<or> \<not> mapped (base (vw ?s1 v))")
    case True
    then have "s' = s \<or> s' = ?s1" using assms(4) by (auto simp: view_do_minimized_def Let_def split: if_splits)
    then show ?thesis using s act1(1) by auto
  next
    case False
    obtain s2 s3 s4 where
      s2: "on_view v (call_configure (we_impl env)) (upd_view v (\<lambda>x. x\<lparr>tree_enabled := \<not> m\<rparr>) ?s1) = Some s2"
      and s3: "(if activated_view (emit_minimize v s2) = v \<and> v \<noteq> NULL \<and> minimized (base (vw (emit_minimize v s2) v))
          then do { s \<leftarrow> call (CallSetActivated v False) (emit_minimize v s2); call CallActivateTopmost s }
          else Some (emit_minimize v s2)) = Some s3"
      and s4: "(if \<not> minimized (base (vw s3 v))
          then do {
            s \<leftarrow> (if show_desktop_enabled s3 then call (CallShowDesktop False False) s3 else Some s3);
            if show_active_only_enabled s then view_manager_show_active_only env False False s else Some s
          } else Some s3) = Some s'"
      using assms(4) False
      by (simp add: view_do_minimized_def Let_def bind_eq_Some_conv split del: if_split) blast
    have a2: "act s2 = act s" using configure_only_act [OF i s2] act1(2) by simp
    then have "act_inv (emit_minimize v s2)" using s act_inv_cong [OF a2] by (simp add: emit_minimize_def)
    then have "act_inv s3"
      using s3 by (auto simp: bind_eq_Some_conv activates_def split: if_splits dest!: keeps_inv_any [OF k])
    then show ?thesis
      using s4 by (auto simp: bind_eq_Some_conv activates_def split: if_splits
          dest!: keeps_inv_any [OF k] view_manager_show_active_only_act [OF i, THEN act_inv_cong])
  qed
qed

lemma view_do_activate_inv:
  assumes i: "impl_ok env" and k: "keeps_inv call" and s: "act_inv s"
    and "view_do_activate call env v s = Some s'"
  shows "act_inv s'"
proof (cases "v \<noteq> NULL \<and> \<not> view_is_activatable s v")
  case True
  then show ?thesis using assms(3,4) by (simp add: view_do_activate_def)
next
  case False
  let ?last = "activated_view s"
  let ?X = "if ?last \<noteq> v
      then do {
        s \<leftarrow> (if show_active_only_enabled s then view_manager_show_active_only env False False s else Some s);
        s \<leftarrow> (if ?last \<noteq> NULL then call (CallSetActivated ?last False) s else Some s);
        s \<leftarrow> (if v \<noteq> NULL then call (CallSetActivated v True) s else Some s);
        Some (wm_emit (ActivateView (activated_view s)) s)
      }
      else if v \<noteq> NULL
      then do {
        ancestor \<leftarrow> view_find_fullscreen_ancestor (we_depth env) s v;
        let ancestor = (if ancestor = NULL then v else ancestor);
        if fullscreen (base (vw s ancestor)) then view_reparent_fullscreen (we_depth env) ancestor True s else Some s
      } else Some s"
  let ?K = "\<lambda>s1. if v = NULL then Some s1
        else
          let w = (if current_proxy (vw s1 v) \<noteq> NULL then px_workspace (px s1 (current_proxy (vw s1 v))) else NULL) in
          if w \<noteq> NULL \<and> w \<noteq> ws_current s1 then call (CallWorkspaceActivateWithEffect w) s1 else Some s1"
  have eq: "view_do_activate call env v s = Option.bind ?X ?K"
    unfolding view_do_activate_def Let_def if_not_P [OF False] ..
  obtain s1 where s1: "?X = Some s1" and s': "?K s1 = Some s'"
    using assms(4) [unfolded eq bind_eq_Some_conv] by (elim exE conjE)
  have "act_inv s1"
  proof (cases "?last \<noteq> v")
    case True
    obtain a b c where
      a: "(if show_active_only_enabled s then view_manager_show_active_only env False False s else Some s) = Some a"
      and b: "(if ?last \<noteq> NULL then call (CallSetActivated ?last False) a else Some a) = Some b"
      and c: "(if v \<noteq> NULL then call (CallSetActivated v True) b else Some b) = Some c"
      and e: "s1 = wm_emit (ActivateView (activated_view c)) c"
      using s1 [unfolded if_P [OF True] bind_eq_Some_conv] by (elim exE conjE) (rule that, assumption, assumption, assumption, simp)
    have aa: "act a = act s" using a by (auto split: if_splits dest: view_manager_show_active_only_act [OF i])
    then have ia: "act_inv a" "activated_view a = ?last" using s act_inv_cong [OF aa] act_activated [OF aa] by simp_all
    have "act_inv b \<and> activated_view b = NULL"
      using b ia keeps_invD [OF k, of "CallSetActivated ?last False" a b]
      by (auto simp: call_pre_def call_post_def split: if_splits)
    then have "act_inv c"
      using c keeps_invD(1) [OF k, of "CallSetActivated v True" b c] by (auto simp: call_pre_def split: if_splits)
    then show ?thesis by (simp add: e)
  next
    case False
    then have "act s1 = act s"
      using s1 [unfolded if_not_P [OF False]]
      by (cases "v = NULL") (auto simp: bind_eq_Some_conv Let_def split: if_splits dest: view_reparent_fullscreen_act)
    then show ?thesis using s by (simp add: act_inv_cong [of s1 s])
  qed
  then show ?thesis using s' by (auto simp: Let_def activates_def split: if_splits dest!: keeps_inv_any [OF k])
qed

lemma view_hide_fullscreen_inv:
  assumes "impl_ok env" and k: "keeps_inv call" and s: "act_inv s"
    and "view_hide_fullscreen_view_in_empty_workspace call env s = Some s'"
  shows "act_inv s'"
  using assms(4) s
  by (auto simp: view_hide_fullscreen_view_in_empty_workspace_def Let_def bind_eq_Some_conv activates_def split: if_splits
      dest!: act_invs keeps_inv_any [OF k])

lemma view_activate_topmost_inv:
  assumes k: "keeps_inv call" and s: "act_inv s" and "view_activate_topmost call env s = Some s'"
  shows "act_inv s'"
  using assms(3) s
  by (auto simp: view_activate_topmost_def Let_def activates_def split: if_splits option.splits
      dest!: keeps_inv_any [OF k])

lemma show_desktop_loop_inv:
  assumes f: "\<forall>v s s'. act_inv s \<longrightarrow> f v s = Some s' \<longrightarrow> act_inv s'"
  shows "act_inv s \<Longrightarrow> show_desktop_loop env f e a ps s = Some s' \<Longrightarrow> act_inv s'"
proof (induction ps arbitrary: s)
  case (Cons p ps)
  let ?v = "px_view (px s p)"
  let ?s1 = "if e then upd_view ?v (\<lambda>x. x\<lparr>minimized_when_show_desktop := \<not> minimized (base x)\<rparr>) s else s"
  show ?case
  proof (cases "\<not> mapped (base (vw s ?v)) \<or> \<not> e \<and> \<not> minimized_when_show_desktop (vw s ?v)")
    case True
    then have "show_desktop_loop env f e a (p # ps) s = show_desktop_loop env f e a ps s" by (auto simp: Let_def)
    then show ?thesis using Cons.IH [of s] Cons.prems by simp
  next
    case False
    then have m: "mapped (base (vw s ?v))" and n: "\<not> (\<not> e \<and> \<not> minimized_when_show_desktop (vw s ?v))" by blast+
    obtain s2 where s2: "(if a \<or> view_has_modal_property (we_depth env) ?s1 ?v then f ?v ?s1 else Some ?s1) = Some s2"
      and r: "show_desktop_loop env f e a ps
        (if \<not> e then upd_view ?v (\<lambda>x. x\<lparr>minimized_when_show_desktop := False\<rparr>) s2 else s2) = Some s'"
      using Cons.prems(2) by (simp only: show_desktop_loop.simps Let_def m n not_True_eq_False if_False bind_eq_Some_conv) blast
    have i1: "act_inv ?s1" using Cons.prems(1) by simp
    moreover have "f ?v ?s1 = Some s2 \<or> s2 = ?s1"
      using s2 by (cases "a \<or> view_has_modal_property (we_depth env) ?s1 ?v") (simp_all only: if_True if_False option.inject simp_thms)
    ultimately have "act_inv s2" using f [rule_format, OF i1] i1 by (elim disjE) (blast, simp only:)
    then show ?thesis by (intro Cons.IH [OF _ r]) simp
  qed
qed simp

lemma view_manager_show_desktop_inv:
  assumes k: "keeps_inv call" and s: "act_inv s" and "view_manager_show_desktop call env e a s = Some s'"
  shows "act_inv s'"
proof -
  have f: "\<forall>v s s'. act_inv s \<longrightarrow> call (CallRequestMinimized v e) s = Some s' \<longrightarrow> act_inv s'" for e
    using keeps_inv_any [OF k] by (fastforce simp: activates_def)
  have "act_inv (s\<lparr>show_desktop_enabled := e\<rparr>)" for e using s by simp
  note loop = show_desktop_loop_inv [OF f this]
  show ?thesis
    using assms(3) s
    by (auto simp: view_manager_show_desktop_def Let_def bind_eq_Some_conv activates_def split: if_splits
        dest!: loop keeps_inv_any [OF k])
qed

lemma workspace_activate_inv:
  assumes k: "keeps_inv call" and s: "act_inv s" and "workspace_activate call env w s = Some s'"
  shows "act_inv s'"
  using assms(3) s
  by (auto simp: workspace_activate_def Let_def bind_eq_Some_conv activates_def split: if_splits
      dest!: act_invs keeps_inv_any [OF k])

lemma effect_inv:
  assumes k: "keeps_inv call" and "act_inv s"
    and "workspace_add_automatic_translation_effect call env c nx d s = Some (b, s')"
  shows "act_inv s'"
  using assms(2,3)
  by (auto simp: workspace_add_automatic_translation_effect_def activates_def split: if_splits dest!: keeps_inv_any [OF k])

lemma workspace_activate_with_effect_inv:
  assumes k: "keeps_inv call" and "act_inv s" and "workspace_activate_with_effect call env w s = Some s'"
  shows "act_inv s'"
proof -
  obtain d b s1 where
    s1: "workspace_add_automatic_translation_effect call env (ws_current s) w d s = Some (b, s1)"
    and s': "(if \<not> b then call (CallWorkspaceActivate w) s1 else Some s1) = Some s'"
    using assms(3) by (auto simp: workspace_activate_with_effect_def Let_def bind_eq_Some_conv)
  have "act_inv s1" using effect_inv [OF k assms(2) s1] .
  then show ?thesis
    using s' keeps_inv_any [OF k, of "CallWorkspaceActivate w" s1 s'] by (auto simp: activates_def split: if_splits)
qed

lemma run_wm_inv: "impl_ok env \<Longrightarrow> keeps_inv (run_wm n env)"
proof (induction n)
  case 0
  then show ?case by (simp add: keeps_inv_def keeps_restored_def)
next
  case (Suc n)
  then have k: "keeps_inv (run_wm n env)" by simp
  have r: "keeps_restored (run_wm n env)" using k by (simp add: keeps_inv_def)
  have "act_inv s' \<and> call_post c s s'" if c: "act_inv s" "call_pre c s" "run_wm (Suc n) env c s = Some s'" for c s s'
  proof (cases c)
    case (CallSetActivated v a)
    then show ?thesis using c view_set_activated_inv [OF Suc.prems r, of s v a s'] by simp
  next
    case (CallRequestMinimized v m)
    then show ?thesis
      using c keeps_inv_any [OF k, of "CallDoMinimized v m" s s']
      by (auto simp: stack_mode_view_minimized_def activates_def call_post_def split: if_splits)
  qed (use c Suc.prems k in \<open>auto simp: call_post_def intro: view_do_minimized_inv view_do_activate_inv
      view_hide_fullscreen_inv view_activate_topmost_inv view_manager_show_desktop_inv workspace_activate_inv
      workspace_activate_with_effect_inv\<close>)
  then show ?case using run_wm_restores [OF Suc.prems, of "Suc n"] unfolding keeps_inv_def by blast
qed

lemma run_wm_act_inv: "impl_ok env \<Longrightarrow> act_inv s \<Longrightarrow> run_wm n env c s = Some s' \<Longrightarrow> \<not> activates c \<Longrightarrow> act_inv s'"
  using keeps_inv_any [OF run_wm_inv, of env n c s s'] by blast

subsection \<open>The other operations\<close>

lemma raise_proxies_act [simp]: "act (raise_proxies ps s) = act s"
  unfolding raise_proxies_def by (induction ps arbitrary: s) simp_all

lemma view_raise_to_top_act: "view_raise_to_top n v f s = Some s' \<Longrightarrow> act s' = act s"
proof (induction n arbitrary: v f s s')
  case (Suc n)
  have c: "raise_children (\<lambda>c s. view_raise_to_top n c False s) cs t = Some t' \<Longrightarrow> act t' = act t" for cs t t'
    by (erule raise_children_act [rotated]) (simp add: keeps_act_def Suc.IH)
  from Suc.prems show ?case
    by (auto simp: Let_def split: if_splits bind_splits dest!: c Suc.IH)
qed simp

lemma stack_mode_view_activate_inv:
  assumes "impl_ok env" "act_inv s" "stack_mode_view_activate n env v s = Some s'"
  shows "act_inv s'"
  using assms(2,3)
  by (auto simp: stack_mode_view_activate_def Let_def bind_eq_Some_conv activates_def split: if_splits
      dest!: view_raise_to_top_act [THEN act_inv_cong] keeps_inv_any [OF run_wm_inv [OF assms(1)]])

lemma kywc_view_activate_inv:
  assumes "impl_ok env" "act_inv s" "kywc_view_activate n env v s = Some s'"
  shows "act_inv s'"
  using assms(2,3) stack_mode_view_activate_inv [OF assms(1)]
  by (auto simp: kywc_view_activate_def activates_def split: if_splits
      dest!: keeps_inv_any [OF run_wm_inv [OF assms(1)]])

lemma fold_act: "(\<And>x s. act (f x s) = act s) \<Longrightarrow> act (fold f xs s) = act s"
  by (induction xs arbitrary: s) auto

lemma view_unmap_inv:
  assumes i: "impl_ok env" and s: "act_inv s" and "view_unmap n env v s = Some s'"
  shows "act_inv s'"
proof -
  have f: "act (fold (\<lambda>p s. wm_emit (g p s) s) ps t) = act t" for g :: "ptr \<Rightarrow> wm \<Rightarrow> wm_signal" and ps t
    by (rule fold_act) simp
  have d: "act (detach_children cs t) = act t" for cs t
    unfolding detach_children_def by (rule fold_act) simp
  have u: "act (upd_view v (\<lambda>x. upd_pending (\<lambda>p. p\<lparr>configure_timeout := False\<rparr>)
      (upd_base (\<lambda>b. b\<lparr>title := None, app_id := None\<rparr>) (x\<lparr>tree_enabled := False\<rparr>))) t) = act t" for v t
    by (rule act_upd_view) (simp add: upd_pending_def upd_base_def)
  note [simp] = f [THEN act_inv_cong] d [THEN act_inv_cong] u [THEN act_inv_cong]
  show ?thesis
    using assms(3) s
    by (auto simp: view_unmap_def Let_def bind_eq_Some_conv activates_def split: if_splits
        dest!: keeps_inv_any [OF run_wm_inv [OF i]])
qed

lemma view_proxy_create_act [simp]: "act (snd (view_proxy_create v w s)) = act s"
proof -
  obtain p s1 where a: "alloc s = (p, s1)" by (cases "alloc s")
  then have "act s1 = act s" by (auto simp: alloc_def split: list.splits)
  then show ?thesis by (simp add: view_proxy_create_def a Let_def)
qed

lemma view_proxy_create_act': "view_proxy_create v w s = (p, s') \<Longrightarrow> act s' = act s"
  using view_proxy_create_act [of v w s] by simp

lemma view_proxy_destroy_act [simp]: "act (view_proxy_destroy p s) = act s"
  by (simp add: view_proxy_destroy_def Let_def)

lemma unset_sticky_act [simp]: "act (unset_sticky v s) = act s"
  by (simp add: unset_sticky_def)

lemma modal_chain_act:
  assumes b: "\<forall>s s'. body s = Some s' \<longrightarrow> act s' = act s"
  shows "modal_chain n body v s = Some s' \<Longrightarrow> act s' = act s"
proof (induction n arbitrary: v s)
  case (Suc n)
  then show ?case by (auto split: if_splits bind_splits dest!: b [rule_format] Suc.IH)
qed simp

lemma view_proxies_destroy_act: "view_proxies_destroy v s = Some s' \<Longrightarrow> act s' = act s"
  by (auto simp: view_proxies_destroy_def fold_act dest!: view_set_current_proxy_act)

lemma view_do_set_workspace_act: "view_do_set_workspace n v w s = Some s' \<Longrightarrow> act s' = act s"
proof (induction n arbitrary: v s s')
  case (Suc n)
  have "modal_chain n (\<lambda>s. view_do_set_workspace n (v_parent (vw s v)) w s) u t = Some t' \<Longrightarrow> act t' = act t" for u t t'
    by (erule modal_chain_act [rotated]) (use Suc.IH in auto)
  note chain = this
  from Suc.prems show ?case
    by (auto simp: Let_def bind_eq_Some_conv fold_act split: if_splits prod.splits
        dest!: chain view_proxies_destroy_act view_set_current_proxy_act view_proxy_create_act')
qed simp

lemma view_add_workspace_act: "view_add_workspace n v w s = Some (p, s') \<Longrightarrow> act s' = act s"
proof (induction n arbitrary: v w s p s')
  case (Suc n)
  have chain: "modal_chain n (\<lambda>s. map_option snd (view_add_workspace n (v_parent (vw s v)) w s)) u t = Some t' \<Longrightarrow>
      act t' = act t" for u t t' w
    by (erule modal_chain_act [rotated]) (use Suc.IH in auto)
  from Suc.prems show ?case
    by (auto simp: Let_def bind_eq_Some_conv split: if_splits prod.splits
        dest!: chain view_set_current_proxy_act view_proxy_create_act')
qed simp

lemma add_all_loop_act: "add_all_loop n v is s = Some s' \<Longrightarrow> act s' = act s"
proof (induction "is" arbitrary: s)
  case (Cons i "is")
  then show ?case by (auto simp: bind_eq_Some_conv dest!: Cons.IH view_add_workspace_act)
qed simp

lemma view_add_all_workspace_act: "view_add_all_workspace n v s = Some s' \<Longrightarrow> act s' = act s"
  by (auto simp: view_add_all_workspace_def split: if_splits dest!: add_all_loop_act)

lemma view_remove_workspace_act: "view_remove_workspace n v w s = Some s' \<Longrightarrow> act s' = act s"
proof (induction n arbitrary: v s s')
  case (Suc n)
  have chain: "modal_chain n (\<lambda>s. view_remove_workspace n (v_parent (vw s v)) w s) u t = Some t' \<Longrightarrow> act t' = act t" for u t t'
    by (erule modal_chain_act [rotated]) (use Suc.IH in auto)
  from Suc.prems show ?case
    by (auto simp: Let_def bind_eq_Some_conv split: if_splits list.splits
        dest!: chain view_set_current_proxy_act view_add_all_workspace_act)
qed simp

lemma view_set_layer_in_workspace_act [simp]: "act (view_set_layer_in_workspace v l s) = act s"
  by (simp add: view_set_layer_in_workspace_def fold_act split: option.split)

lemma view_set_parent_act: "view_set_parent n v p s = Some s' \<Longrightarrow> act s' = act s"
  by (auto simp: view_set_parent_def view_follow_parent_layer_def view_unset_workspace_def Let_def split: if_splits
      dest!: view_do_set_workspace_act view_add_workspace_act)

lemma set_kept_act [simp]:
  "(\<And>b. activated (f b) = activated b) \<Longrightarrow> act (set_kept v f l s) = act s"
  by (simp add: set_kept_def Let_def fold_act act_upd_view upd_base_def)

lemma kept_act:
  "kywc_view_set_kept_above v k s = Some s' \<Longrightarrow> act s' = act s"
  "kywc_view_set_kept_below v k s = Some s' \<Longrightarrow> act s' = act s"
  by (auto simp: kywc_view_set_kept_above_def kywc_view_set_kept_below_def split: if_splits)

text \<open>The requests of the stack mode end in a call of configure.\<close>

lemma do_flags:
  assumes "impl_ok env"
  shows "view_do_move (we_impl env) x i j = Some y \<Longrightarrow> activated (base y) = activated (base x)"
    and "view_do_resize (we_impl env) x g = Some y \<Longrightarrow> activated (base y) = activated (base x)"
    and "view_do_tiled e (we_impl env) x t q = Some y \<Longrightarrow> activated (base y) = activated (base x)"
    and "view_do_maximized e (we_impl env) x m q = Some y \<Longrightarrow> activated (base y) = activated (base x)"
    and "fullscreen_apply (we_impl env) x b g = Some y \<Longrightarrow> activated (base y) = activated (base x)"
  using call_configure_flags [OF assms]
  by (auto simp: view_do_move_def view_do_resize_def view_do_tiled_def view_do_maximized_def fullscreen_apply_def
      Let_def flags_def add_action_def upd_pending_def upd_base_def set_pending_geometry_def split: if_splits
      dest!: call_configure_flags [OF assms])

lemma stack_mode_view_fullscreen_act:
  assumes "impl_ok env" "stack_mode_view_fullscreen env v m q s = Some s'"
  shows "act s' = act s"
proof -
  have "act (upd_view v (\<lambda>x. fullscreen_save x m) s) = act s" by (rule act_upd_view) (simp add: fullscreen_save_def)
  moreover have "on_view v (\<lambda>x. fullscreen_apply (we_impl env) x m g) t = Some t' \<Longrightarrow> act t' = act t" for g t t'
    by (erule on_view_act [rotated]) (erule do_flags(5) [OF assms(1)])
  ultimately show ?thesis
    using assms(2)
    by (auto simp: stack_mode_view_fullscreen_def view_do_fullscreen_def Let_def bind_eq_Some_conv split: if_splits
        dest!: view_reparent_fullscreen_act)
qed

lemma stack_mode_act:
  assumes "impl_ok env"
  shows "stack_mode_view_move env v x y s = Some s' \<Longrightarrow> act s' = act s"
    and "stack_mode_view_resize env v g s = Some s' \<Longrightarrow> act s' = act s"
    and "stack_mode_view_tiled env v t q s = Some s' \<Longrightarrow> act s' = act s"
    and "stack_mode_view_maximized env v m q s = Some s' \<Longrightarrow> act s' = act s"
proof -
  note on = on_view_act [rotated]
  show "stack_mode_view_move env v x y s = Some s' \<Longrightarrow> act s' = act s"
    by (simp add: stack_mode_view_move_def split: if_splits) (erule on, erule do_flags(1) [OF assms])
  show "stack_mode_view_resize env v g s = Some s' \<Longrightarrow> act s' = act s"
    by (simp add: stack_mode_view_resize_def split: if_splits) (erule on, erule do_flags(2) [OF assms])
  show "stack_mode_view_tiled env v t q s = Some s' \<Longrightarrow> act s' = act s"
    by (simp add: stack_mode_view_tiled_def split: if_splits) (erule on, erule do_flags(3) [OF assms])
  show "stack_mode_view_maximized env v m q s = Some s' \<Longrightarrow> act s' = act s"
    by (simp add: stack_mode_view_maximized_def split: if_splits) (erule on, erule do_flags(4) [OF assms])
qed

lemma shift_act [simp]:
  "act (shift_up is s) = act s" "act (shift_down d is s) = act s" "act (shift_right d is s) = act s"
  using rest_ofD(5,9) [OF shift_rest(1), of "is" s] rest_ofD(5,9) [OF shift_rest(2), of d "is" s]
    rest_ofD(5,9) [OF shift_rest(3), of d "is" s]
  by (simp_all add: act_def)

lemma workspace_update_name_act [simp]: "act (workspace_update_name d w nm s) = act s"
  by (simp add: workspace_update_name_def)

lemma workspace_set_position_act [simp]: "act (workspace_set_position d w p s) = act s"
  by (simp add: workspace_set_position_def Let_def del: upt_Suc)

lemma add_sticky_loop_act: "add_sticky_loop n w ps s = Some s' \<Longrightarrow> act s' = act s"
proof (induction ps arbitrary: s)
  case (Cons p ps)
  then show ?case by (auto simp: bind_eq_Some_conv split: if_splits dest!: Cons.IH view_add_workspace_act)
qed simp

lemma update_count_act: "workspace_manager_update_count c s = Some s' \<Longrightarrow> act s' = act s"
  by (auto simp: workspace_manager_update_count_def Let_def split: if_splits)

lemma workspace_create_act: "workspace_create d n name p s = Some (w, s') \<Longrightarrow> act s' = act s"
proof -
  have "alloc t = (q, t') \<Longrightarrow> act t' = act t" for t q t' by (auto simp: alloc_def split: list.splits)
  then show "workspace_create d n name p s = Some (w, s') \<Longrightarrow> act s' = act s"
    by (auto simp: workspace_create_def Let_def bind_eq_Some_conv workspace_auto_add_views_def split: if_splits prod.splits
        simp del: upt_Suc dest!: update_count_act add_sticky_loop_act)
qed

lemma move_views_loop_act: "move_views_loop n t ps s = Some s' \<Longrightarrow> act s' = act s"
proof (induction ps arbitrary: s)
  case (Cons p ps)
  then show ?case
    by (auto simp: bind_eq_Some_conv Let_def split: if_splits
        dest!: Cons.IH view_add_workspace_act view_set_current_proxy_act)
qed simp

lemma workspace_destroy_inv:
  assumes "impl_ok env" "act_inv s" "workspace_destroy d n env w s = Some s'"
  shows "act_inv s'"
  using assms(2,3)
  by (auto simp: workspace_destroy_def fix_workspace_def Let_def bind_eq_Some_conv activates_def
        shift_act(2) [THEN act_inv_cong] split: if_splits
      dest!: update_count_act [THEN act_inv_cong] move_views_loop_act [THEN act_inv_cong]
        keeps_inv_any [OF run_wm_inv [OF assms(1)]])

lemma workspace_switch_to_inv:
  assumes i: "impl_ok env" and s: "act_inv s" and "workspace_switch_to n env t s = Some s'"
  shows "act_inv s'"
proof -
  note run = keeps_inv_any [OF run_wm_inv [OF i]]
  obtain c x d ok s1 k where "s' = s \<or> (workspace_add_automatic_translation_effect (run_wm n env) env c x d s = Some (ok, s1) \<and>
      (s' = s1 \<or> run_wm n env (CallWorkspaceActivate k) s1 = Some s'))"
    using assms(3) by (simp add: workspace_switch_to_def Let_def bind_eq_Some_conv split: if_splits) blast+
  then show ?thesis
    using s effect_inv [OF run_wm_inv [OF i] s] run [where c = "CallWorkspaceActivate k" and s = s1 and s' = s']
    by (auto simp: activates_def)
qed

subsection \<open>Every sequence of operations\<close>

text \<open>The operations that requests of the user, of clients and of the protocols lead to.\<close>

inductive wm_step :: "wm_env \<Rightarrow> wm \<Rightarrow> wm \<Rightarrow> bool" for env where
  click: "stack_mode_view_click n env v seat s = Some s' \<Longrightarrow> wm_step env s s'"
| activate: "kywc_view_activate n env v s = Some s' \<Longrightarrow> wm_step env s s'"
| minimize: "run_wm n env (CallRequestMinimized v m) s = Some s' \<Longrightarrow> wm_step env s s'"
| show_desktop: "run_wm n env (CallShowDesktop e a) s = Some s' \<Longrightarrow> wm_step env s s'"
| show_active_only: "view_manager_show_active_only env e a s = Some s' \<Longrightarrow> wm_step env s s'"
| move: "stack_mode_view_move env v x y s = Some s' \<Longrightarrow> wm_step env s s'"
| resize: "stack_mode_view_resize env v g s = Some s' \<Longrightarrow> wm_step env s s'"
| tile: "stack_mode_view_tiled env v t q s = Some s' \<Longrightarrow> wm_step env s s'"
| maximize: "stack_mode_view_maximized env v m q s = Some s' \<Longrightarrow> wm_step env s s'"
| full: "stack_mode_view_fullscreen env v m q s = Some s' \<Longrightarrow> wm_step env s s'"
| above: "kywc_view_set_kept_above v k s = Some s' \<Longrightarrow> wm_step env s s'"
| below: "kywc_view_set_kept_below v k s = Some s' \<Longrightarrow> wm_step env s s'"
| set_parent: "view_set_parent n v p s = Some s' \<Longrightarrow> wm_step env s s'"
| set_workspace: "view_set_workspace n v w s = Some s' \<Longrightarrow> wm_step env s s'"
| add_workspace: "view_add_workspace n v w s = Some (p, s') \<Longrightarrow> wm_step env s s'"
| remove_workspace: "view_remove_workspace n v w s = Some s' \<Longrightarrow> wm_step env s s'"
| stick: "view_add_all_workspace n v s = Some s' \<Longrightarrow> wm_step env s s'"
| unmap: "view_unmap n env v s = Some s' \<Longrightarrow> wm_step env s s'"
| create: "workspace_create d n name position s = Some (w, s') \<Longrightarrow> wm_step env s s'"
| destroy: "workspace_destroy d n env w s = Some s' \<Longrightarrow> wm_step env s s'"
| reorder: "wm_step env s (workspace_set_position d w position s)"
| switch_workspace: "workspace_switch_to n env target s = Some s' \<Longrightarrow> wm_step env s s'"
| activate_workspace: "run_wm n env (CallWorkspaceActivate w) s = Some s' \<Longrightarrow> wm_step env s s'"

lemma wm_step_inv:
  assumes "wm_step env s s'" "impl_ok env" "act_inv s"
  shows "act_inv s'"
  using assms
proof (induction rule: wm_step.induct)
  case (click n v seat s s')
  then show ?case by (auto simp: stack_mode_view_click_def dest: kywc_view_activate_inv)
next
  case (set_workspace n v w s s')
  then show ?case
    by (auto simp: view_set_workspace_def split: if_splits dest: view_do_set_workspace_act [THEN act_inv_cong])
next
  case (reorder s d w position)
  then show ?case using workspace_set_position_act [THEN act_inv_cong] by blast
qed (auto simp: activates_def intro: kywc_view_activate_inv run_wm_act_inv view_unmap_inv workspace_destroy_inv
      workspace_switch_to_inv
    dest: view_manager_show_active_only_act [THEN act_inv_cong, rotated] stack_mode_act [THEN act_inv_cong, rotated]
      stack_mode_view_fullscreen_act [THEN act_inv_cong, rotated] kept_act [THEN act_inv_cong]
      view_set_parent_act [THEN act_inv_cong] view_add_workspace_act [THEN act_inv_cong]
      view_remove_workspace_act [THEN act_inv_cong] view_add_all_workspace_act [THEN act_inv_cong]
      workspace_create_act [THEN act_inv_cong])

interpretation wm_steps: step_invariant impl_ok wm_step act_inv
  by unfold_locales (rule wm_step_inv)

text \<open>C29: after any sequence of operations from a state without an activated view, the views with the flag
  \<open>activated\<close> are at most one, the one the view manager holds as the activated view. The operations are those of
  \<open>wm_step\<close>; mapping and destroying a view and the change of its role are not among them.\<close>

theorem one_activated_view:
  assumes "(wm_step env)\<^sup>*\<^sup>* s0 s" "impl_ok env" "act_inv s0"
  shows "activated (base (vw s v)) \<longleftrightarrow> activated_view s = v \<and> v \<noteq> NULL"
proof -
  have "act_inv s" by (rule wm_steps.steps_keep [OF assms])
  then show ?thesis by (simp add: act_inv_def)
qed

text \<open>The implementation for the xdg shell keeps the flags.\<close>

lemma xdg_view_configure_flags: "xdg_view_configure e serial x = Some y \<Longrightarrow> flags y = flags x"
proof -
  have [simp]: "flags (upd_pending f v) = flags v" "flags (emit e' v) = flags v" "flags (clear_action a v) = flags v"
    "flags (v\<lparr>sent := l\<rparr>) = flags v" "flags (v\<lparr>v_output := p\<rparr>) = flags v"
    "flags (upd_base (\<lambda>b. b\<lparr>geometry := g\<rparr>) v) = flags v" for f v e' a l p g
    by (simp_all add: flags_def upd_pending_def emit_def clear_action_def upd_base_def)
  have [simp]: "flags (view_update_output e v) = flags v" for v by (simp add: view_update_output_def Let_def)
  have [simp]: "flags (view_helper_move e v i j) = flags v" for v i j by (simp add: view_helper_move_def Let_def)
  have [simp]: "flags (xdg_direct_actions e v) = flags v" for v by (simp add: xdg_direct_actions_def Let_def)
  have "flags (view_configure v serial) = flags v" for v by (simp add: view_configure_def Let_def)
  then show "xdg_view_configure e serial x = Some y \<Longrightarrow> flags y = flags x"
    by (auto simp: xdg_view_configure_def Let_def split: if_splits)
qed

definition xdg_env :: wm_env where
  "xdg_env = some_wm_env\<lparr>we_impl := Some (xdg_view_configure some_env 7)\<rparr>"

lemma xdg_env_ok [simp]: "impl_ok xdg_env"
  by (simp add: impl_ok_def xdg_env_def xdg_view_configure_flags)

lemma one_activated_view_witness:
  "\<exists>s. (wm_step xdg_env)\<^sup>*\<^sup>* (some_wm ''D'') s \<and> activated_view s = 21 \<and>
    (\<forall>v. activated (base (vw s v)) \<longleftrightarrow> v = 21)"
proof -
  have i: "act_inv (some_wm ''D'')" by (simp add: act_inv_def some_wm_def some_defs)
  have "map_option activated_view (kywc_view_activate 9 xdg_env 21 (some_wm ''D'')) = Some 21" by code_simp
  then obtain s where s: "kywc_view_activate 9 xdg_env 21 (some_wm ''D'') = Some s" "activated_view s = 21" by auto
  have r: "(wm_step xdg_env)\<^sup>*\<^sup>* (some_wm ''D'') s" using s(1) by (blast intro: wm_step.activate)
  have "activated (base (vw s v)) \<longleftrightarrow> v = 21" for v
    using one_activated_view [OF r xdg_env_ok i, of v] s(2) by auto
  then show ?thesis using r s(2) by blast
qed

end
