(* ===== verification/Strings.thy ===== *)
theory Strings
  imports Prelude
begin

section \<open>Strings and identifiers (\<^verbatim>\<open>util/string.c\<close>, \<^verbatim>\<open>util/identifier.c\<close>)\<close>

text \<open>
  A C string is the list of its characters before the terminating zero. The functions of the C library are
  those of the C locale. Memory is assumed to be available; what is freed is modelled where the code can
  free the wrong address. Random bytes, digests and the clock are arguments.
\<close>

subsection \<open>Characters\<close>

definition isspace :: "char \<Rightarrow> bool" where
  "isspace c \<longleftrightarrow> (let n = of_char c :: nat in 9 \<le> n \<and> n \<le> 13 \<or> n = 32)"

definition isprint :: "char \<Rightarrow> bool" where
  "isprint c \<longleftrightarrow> (let n = of_char c :: nat in 32 \<le> n \<and> n < 127)"

definition tolower :: "char \<Rightarrow> char" where
  "tolower c = (let n = of_char c :: nat in if 65 \<le> n \<and> n \<le> 90 then char_of (n + 32) else c)"

definition strcasecmp_eq :: "string \<Rightarrow> string \<Rightarrow> bool" where
  "strcasecmp_eq a b \<longleftrightarrow> map tolower a = map tolower b"

text \<open>The number of leading characters of the set, as in \<^verbatim>\<open>strspn(str, " \f\n\r\t\v")\<close>.\<close>

definition strspn_space :: "string \<Rightarrow> nat" where
  "strspn_space s = length (takeWhile (\<lambda>c. (of_char c :: nat) \<in> {32, 12, 10, 13, 9, 11}) s)"

subsection \<open>White space\<close>

text \<open>The loop that moves the end to the left while it is at a space, for the index of the end.\<close>

fun skip_end :: "string \<Rightarrow> nat \<Rightarrow> nat" where
  "skip_end s 0 = 0"
| "skip_end s (Suc e) = (if isspace (s ! Suc e) then skip_end s e else Suc e)"

definition string_skip_space :: "string \<Rightarrow> string" where
  "string_skip_space s =
     (let s = dropWhile isspace s in
      if s = [] then [] else take (skip_end s (length s - 1) + 1) s)"

text \<open>The loop \<^verbatim>\<open>for (len -= start + 1; isspace(str[len]); --len)\<close>: it has no lower bound, and \<^term>\<open>None\<close>
  is a read before the string.\<close>

fun strip_end :: "string \<Rightarrow> nat \<Rightarrow> nat option" where
  "strip_end s 0 = (if isspace (s ! 0) then None else Some 0)"
| "strip_end s (Suc e) = (if isspace (s ! Suc e) then strip_end s e else Some (Suc e))"

definition string_strip_space :: "string \<Rightarrow> string option" where
  "string_strip_space s =
     (let len = length s; start = strspn_space s; s = drop start s in
      if s = [] then Some [] else map_option (\<lambda>e. take (e + 1) s) (strip_end s (len - (start + 1))))"

definition string_replace_unprintable :: "string \<Rightarrow> string" where
  "string_replace_unprintable s = map (\<lambda>c. if c = CHR '' '' \<or> \<not> isprint c then CHR ''_'' else c) s"

subsection \<open>Splitting\<close>

text \<open>The tokens \<^verbatim>\<open>strtok_r\<close> finds, each with its offset in the copy of the string.\<close>

function tokens :: "string \<Rightarrow> nat \<Rightarrow> string \<Rightarrow> (nat \<times> string) list" where
  "tokens delim off s =
     (let n = length (takeWhile (\<lambda>c. c \<in> set delim) s); s = drop n s in
      if s = [] then []
      else let token = takeWhile (\<lambda>c. c \<notin> set delim) s
           in (off + n, token) # tokens delim (off + n + length token) (drop (length token) s))"
  by pat_completeness auto
termination
proof (relation "measure (\<lambda>(d, off, s). length s)", goal_cases)
  case (2 delim off s n s' token)
  have e: "s' = dropWhile (\<lambda>c. c \<in> set delim) s" using 2(1,2) by (simp add: dropWhile_eq_drop)
  then obtain c cs where c: "s' = c # cs" "c \<notin> set delim" using 2(3) hd_dropWhile by (metis list.exhaust list.sel(1))
  moreover have "length s' \<le> length s" by (simp add: 2(2))
  ultimately have "0 < length token" "length s' \<le> length s" "0 < length s'" using 2(4) by auto
  then show ?case by (auto simp: 2(2) simp flip: length_greater_0_conv)
qed simp

declare tokens.simps [simp del]

definition string_split :: "string \<Rightarrow> string \<Rightarrow> (nat \<times> string) list" where
  "string_split str delim = tokens delim 0 str"

definition split_str :: "string \<Rightarrow> string \<Rightarrow> string list" where
  "split_str str delim = map snd (string_split str delim)"

text \<open>The first entry is taken for the address of the copy. \<^term>\<open>None\<close> is undefined behaviour: with no
  token the entry was never written, and an entry with an offset is not the start of an allocation.\<close>

definition string_free_split :: "(nat \<times> string) list \<Rightarrow> unit option" where
  "string_free_split split = (case split of [] \<Rightarrow> None | (off, _) # _ \<Rightarrow> if off = 0 then Some () else None)"

subsection \<open>Paths\<close>

definition join_path_size :: "string \<Rightarrow> string option \<Rightarrow> string option \<Rightarrow> nat" where
  "join_path_size dir subdir file =
     length dir + (case subdir of None \<Rightarrow> 0 | Some s \<Rightarrow> length s) + (case file of None \<Rightarrow> 0 | Some f \<Rightarrow> length f) + 3"

definition string_join_path :: "string \<Rightarrow> string option \<Rightarrow> string option \<Rightarrow> string" where
  "string_join_path dir subdir file =
     (let path = dir;
          path = (case subdir of None \<Rightarrow> path | Some s \<Rightarrow> if length s > 0 then path @ ''/'' @ s else path)
      in case file of None \<Rightarrow> path | Some f \<Rightarrow> if length f > 0 then path @ ''/'' @ f else path)"

definition string_strip_path :: "string \<Rightarrow> string" where
  "string_strip_path s =
     (let start = rev (takeWhile (\<lambda>c. c \<noteq> CHR ''/'') (rev s))
      in takeWhile (\<lambda>c. c \<noteq> CHR '' '') start)"

subsection \<open>Identifiers\<close>

definition UUID_SIZE :: nat where "UUID_SIZE = 37"

definition kywc_identifier_generate :: "string \<Rightarrow> string option" where
  "kywc_identifier_generate formatted = map_option string_replace_unprintable (string_strip_space formatted)"

definition pad :: "nat \<Rightarrow> nat \<Rightarrow> string" where
  "pad w n = (let d = decimal n in replicate (w - length d) (CHR ''0'') @ d)"

text \<open>The buffer has the lengths of the prefix and the suffix and 20 more; \<^verbatim>\<open>snprintf\<close> cuts the text off.\<close>

definition kywc_identifier_time_generate ::
  "nat \<Rightarrow> nat \<Rightarrow> nat \<Rightarrow> nat \<Rightarrow> nat \<Rightarrow> nat \<Rightarrow> string option \<Rightarrow> string option \<Rightarrow> string" where
  "kywc_identifier_time_generate year mon mday hour minute sec prefix suffix =
     (let p = (case prefix of None \<Rightarrow> [] | Some p \<Rightarrow> p); q = (case suffix of None \<Rightarrow> [] | Some q \<Rightarrow> q);
          len = length p + length q + 20
      in take (len - 1) (p @ pad 4 year @ ''-'' @ pad 2 mon @ ''-'' @ pad 2 mday @ ''_'' @ pad 2 hour @ ''-'' @
           pad 2 minute @ ''-'' @ pad 2 sec @ q))"

text \<open>Six characters from the nanoseconds of the clock, written before a suffix.\<close>

definition rand_char :: "u64 \<Rightarrow> char" where
  "rand_char r = char_of (65 + unat (r AND 15) + unat (r AND 16) * 2)"

fun rand_chars :: "nat \<Rightarrow> u64 \<Rightarrow> string" where
  "rand_chars 0 r = []"
| "rand_chars (Suc n) r = rand_char r # rand_chars n (drop_bit 5 r)"

definition kywc_identifier_rand_generate :: "u64 \<Rightarrow> string \<Rightarrow> nat \<Rightarrow> string option" where
  "kywc_identifier_rand_generate nsec data suffixlen =
     (if length data < 6 + suffixlen then None
      else let k = length data - 6 - suffixlen in Some (take k data @ rand_chars 6 nsec @ drop (k + 6) data))"

definition hexchar :: "u8 \<Rightarrow> char" where
  "hexchar x = ''0123456789abcdef'' ! unat (x AND 15)"

text \<open>The loop over the bytes, for the index of the next byte.\<close>

fun uuid_loop :: "nat \<Rightarrow> u8 list \<Rightarrow> string" where
  "uuid_loop n [] = []"
| "uuid_loop n (b # bs) =
     (if n = 4 \<or> n = 6 \<or> n = 8 \<or> n = 10 then ''-'' else []) @
     hexchar (drop_bit 4 b) # hexchar (b AND 15) # uuid_loop (n + 1) bs"

definition kywc_identifier_uuid_generate :: "u8 list \<Rightarrow> string" where
  "kywc_identifier_uuid_generate bytes =
     (let u = bytes;
          u = u[6 := (u ! 6 AND 15) OR 64];
          u = u[8 := (u ! 8 AND 63) OR 128]
      in uuid_loop 0 u)"

fun md5_loop :: "u8 list \<Rightarrow> string" where
  "md5_loop [] = []"
| "md5_loop (b # bs) = hexchar (drop_bit 4 b) # hexchar (b AND 15) # md5_loop bs"

definition kywc_identifier_md5_generate :: "u8 list \<Rightarrow> string" where
  "kywc_identifier_md5_generate md5 = md5_loop md5"

definition kywc_identifier_md5_generate_uuid :: "u8 list \<Rightarrow> string" where
  "kywc_identifier_md5_generate_uuid md5 = uuid_loop 0 md5"

text \<open>\<^term>\<open>None\<close> is a read behind the digest or a write outside the buffer of \<open>str_size\<close> bytes.\<close>

definition kywc_identifier_md5_generate_ex :: "u8 list \<Rightarrow> nat \<Rightarrow> string option" where
  "kywc_identifier_md5_generate_ex md5 str_size =
     (if str_size = 0 \<or> length md5 < str_size div 2 then None
      else Some (take (str_size - 1) (md5_loop (take (str_size div 2) md5))))"

definition base64_size :: "u32 \<Rightarrow> u64" where
  "base64_size len = ucast ((len + 2) div 3 * 4 + 1)"

end
