(* ===== verification/StringProofs.thy ===== *)
theory StringProofs
  imports Strings
begin

section \<open>Correctness of strings and identifiers\<close>

text \<open>
  The two functions that remove white space agree, splitting is inverse to joining and its memory is
  freed correctly only for strings that do not start with a delimiter, paths fit their buffer, and a UUID
  has the required form and keeps all the random bits.
\<close>

subsection \<open>White space\<close>

lemma space_set: "isspace c \<longleftrightarrow> (of_char c :: nat) \<in> {32, 12, 10, 13, 9, 11}"
  by (auto simp: isspace_def Let_def)

lemma strspn_space_eq: "strspn_space s = length (takeWhile isspace s)"
  unfolding strspn_space_def space_set [symmetric] ..

lemma skip_end_strip:
  "\<not> isspace (s ! 0) \<Longrightarrow> strip_end s e = Some (skip_end s e)"
  by (induction e) auto

lemma skip_end_le: "skip_end s e \<le> e"
  by (induction e) auto

lemma skip_end_stop: "\<not> isspace (s ! 0) \<Longrightarrow> \<not> isspace (s ! skip_end s e)"
  by (induction e) auto

lemma skip_end_spaces: "skip_end s e < j \<Longrightarrow> j \<le> e \<Longrightarrow> isspace (s ! j)"
  by (induction e) (auto split: if_splits simp: le_Suc_eq)

text \<open>White space removed at both ends.\<close>

definition trim :: "string \<Rightarrow> string" where
  "trim s = rev (dropWhile isspace (rev (dropWhile isspace s)))"

lemma string_skip_space_trim: "string_skip_space s = trim s"
proof (cases "dropWhile isspace s = []")
  case False
  define t where "t = dropWhile isspace s"
  define e where "e = skip_end t (length t - 1)"
  have t: "t \<noteq> []" "\<not> isspace (t ! 0)" using False hd_dropWhile [OF False] by (auto simp: t_def hd_conv_nth)
  have e: "e < length t" "\<not> isspace (t ! e)" using skip_end_le [of t "length t - 1"] skip_end_stop [OF t(2)] t(1)
    by (auto simp: e_def le_less_trans)
  have sp: "list_all isspace (drop (Suc e) t)"
    using skip_end_spaces [of t "length t - 1"] by (auto simp: list_all_length e_def)
  have "rev t = rev (drop (Suc e) t) @ t ! e # rev (take e t)"
    using id_take_nth_drop [OF e(1)] by (metis rev.simps(2) rev_append append.assoc append_Cons append_Nil)
  moreover have "dropWhile isspace (rev (drop (Suc e) t) @ t ! e # rev (take e t)) = t ! e # rev (take e t)"
    using sp e(2) by (subst dropWhile_append2) (auto simp: list_all_iff)
  ultimately have "trim s = rev (t ! e # rev (take e t))" unfolding trim_def t_def [symmetric] by metis
  also have "\<dots> = take (Suc e) t" using e(1) by (simp add: take_Suc_conv_app_nth)
  finally show ?thesis using False by (simp add: string_skip_space_def Let_def t_def e_def)
next
  case True
  then show ?thesis by (simp only: string_skip_space_def trim_def Let_def) simp
qed

lemma string_strip_space_skip: "string_strip_space s = Some (string_skip_space s)"
proof -
  have d: "drop (strspn_space s) s = dropWhile isspace s" by (simp add: strspn_space_eq dropWhile_eq_drop)
  show ?thesis
  proof (cases "dropWhile isspace s = []")
    case False
    then have n0: "\<not> isspace (dropWhile isspace s ! 0)" using hd_dropWhile [OF False] by (simp add: hd_conv_nth)
    have "length s - (strspn_space s + 1) = length (dropWhile isspace s) - 1"
      by (simp flip: d)
    then show ?thesis
      using False unfolding string_strip_space_def string_skip_space_def Let_def d
      by (simp only: if_False skip_end_strip [OF n0] option.map)
  next
    case True
    then show ?thesis unfolding string_strip_space_def string_skip_space_def Let_def d True by simp
  qed
qed

text \<open>\<open>string_strip_space\<close> and \<open>string_skip_space\<close> compute the same string, the one without white space at
  its ends, and the unbounded loop of the former never leaves the string.\<close>

theorem strip_space_correct:
  "string_strip_space s = Some (trim s) \<and> string_skip_space s = trim s"
  by (simp add: string_strip_space_skip string_skip_space_trim)

text \<open>An identifier has no white space and no unprintable character.\<close>

lemma identifier_printable:
  assumes "kywc_identifier_generate s = Some t" "c \<in> set t"
  shows "isprint c \<and> \<not> isspace c"
proof -
  have "isprint (CHR ''_'') \<and> \<not> isspace (CHR ''_'')" by (simp add: isprint_def isspace_def)
  moreover have "\<not> isspace d" if "isprint d" "d \<noteq> CHR '' ''" for d
  proof -
    have "of_char d \<noteq> (of_char (CHR '' '') :: nat)" using that(2) by (simp only: of_char_eq_iff not_False_eq_True)
    then have "of_char d \<noteq> (32 :: nat)" by simp
    then show ?thesis using that(1) by (auto simp: isprint_def isspace_def Let_def)
  qed
  ultimately show ?thesis
    using assms by (auto simp: kywc_identifier_generate_def string_replace_unprintable_def)
qed

subsection \<open>Splitting and joining\<close>

fun join :: "char \<Rightarrow> string list \<Rightarrow> string" where
  "join c [] = []"
| "join c [t] = t"
| "join c (t # ts) = t @ c # join c ts"

definition token_ok :: "string \<Rightarrow> string \<Rightarrow> bool" where
  "token_ok delim t \<longleftrightarrow> t \<noteq> [] \<and> list_all (\<lambda>c. c \<notin> set delim) t"

lemma tokens_delim: "c \<in> set delim \<Longrightarrow> tokens delim off (c # s) = tokens delim (Suc off) s"
  by (subst (1 2) tokens.simps) (simp add: Let_def)

lemma tokens_last: "token_ok delim t \<Longrightarrow> tokens delim off t = [(off, t)]"
proof -
  assume t: "token_ok delim t"
  then have e: "takeWhile (\<lambda>c. c \<in> set delim) t = []" "takeWhile (\<lambda>c. c \<notin> set delim) t = t" "t \<noteq> []"
    by (auto simp: token_ok_def list_all_iff takeWhile_eq_Nil_iff)
  have "tokens delim off' [] = []" for off' by (simp add: tokens.simps)
  then show ?thesis by (subst tokens.simps) (simp add: Let_def e del: takeWhile_eq_all_conv)
qed

lemma tokens_cons:
  assumes "token_ok delim t" "c \<in> set delim"
  shows "tokens delim off (t @ c # s) = (off, t) # tokens delim (off + length t + 1) s"
proof -
  have "takeWhile (\<lambda>c. c \<in> set delim) (t @ c # s) = []" "takeWhile (\<lambda>c. c \<notin> set delim) (t @ c # s) = t" "t \<noteq> []"
    using assms by (cases t; auto simp: token_ok_def list_all_iff takeWhile_append)+
  then show ?thesis by (subst tokens.simps) (simp add: Let_def tokens_delim [OF assms(2)])
qed

lemma tokens_join:
  "c \<in> set delim \<Longrightarrow> list_all (token_ok delim) ts \<Longrightarrow> map snd (tokens delim off (join c ts)) = ts"
proof (induction c ts arbitrary: off rule: join.induct)
  case (1 c)
  then show ?case by (simp add: tokens.simps)
qed (simp_all add: tokens_last tokens_cons)

text \<open>Splitting a string that was joined from tokens gives the tokens back.\<close>

theorem split_join:
  assumes "list_all (token_ok [c]) ts"
  shows "split_str (join c ts) [c] = ts"
  using assms by (simp add: split_str_def string_split_def tokens_join)

lemma split_join_witness: "split_str ''Ctrl+Alt+Left'' ''+'' = [''Ctrl'', ''Alt'', ''Left'']"
  using split_join [of "CHR ''+''" "[''Ctrl'', ''Alt'', ''Left'']"] by (simp add: token_ok_def)

lemma free_split_start: "string_free_split (string_split s delim) = Some () \<longleftrightarrow> s \<noteq> [] \<and> hd s \<notin> set delim"
proof (cases s)
  case Nil
  then show ?thesis by (simp add: string_free_split_def string_split_def tokens.simps)
next
  case (Cons c cs)
  show ?thesis
  proof (cases "c \<in> set delim")
    case True
    have "tokens delim n t = [] \<or> n \<le> fst (hd (tokens delim n t))" for n t by (subst (1 2) tokens.simps) (simp add: Let_def)
    from this [of 1 cs] True Cons show ?thesis
      by (auto simp: string_free_split_def string_split_def tokens_delim split: list.split)
  next
    case False
    then show ?thesis using Cons
      by (simp add: string_free_split_def string_split_def) (subst tokens.simps, simp add: Let_def)
  qed
qed

text \<open>The memory of a split is freed correctly exactly when the string starts with a token; for an empty
  string or one that starts with a delimiter \<open>string_free_split\<close> frees an address that was not allocated.\<close>

theorem free_split_iff:
  "string_free_split (string_split s delim) = (if s \<noteq> [] \<and> hd s \<notin> set delim then Some () else None)"
  using free_split_start [of s delim] by (cases "string_free_split (string_split s delim)") auto

subsection \<open>Paths\<close>

text \<open>The path and its terminating zero fit into the buffer.\<close>

theorem join_path_fits: "length (string_join_path dir subdir file) + 1 \<le> join_path_size dir subdir file"
  by (auto simp: string_join_path_def join_path_size_def Let_def split: option.split)

lemma strip_path_join:
  "f \<noteq> [] \<Longrightarrow> list_all (\<lambda>c. c \<noteq> CHR ''/'' \<and> c \<noteq> CHR '' '') f \<Longrightarrow> string_strip_path (string_join_path dir subdir (Some f)) = f"
proof -
  assume f: "f \<noteq> []" "list_all (\<lambda>c. c \<noteq> CHR ''/'' \<and> c \<noteq> CHR '' '') f"
  then obtain d where d: "string_join_path dir subdir (Some f) = d @ CHR ''/'' # f"
    by (auto simp: string_join_path_def Let_def split: option.split)
  have "takeWhile (\<lambda>c. c \<noteq> CHR ''/'') (rev f @ CHR ''/'' # rev d) = rev f" "takeWhile (\<lambda>c. c \<noteq> CHR '' '') f = f"
    using f(2) by (auto simp: list_all_iff takeWhile_append)
  then show ?thesis by (simp add: d string_strip_path_def)
qed

subsection \<open>UUIDs\<close>

lemma nibble_lt: "unat (x AND 15 :: u8) < 16"
proof -
  have "x AND 15 = take_bit 4 x" by (simp add: take_bit_eq_mask mask_numeral)
  then show ?thesis by (simp add: unsigned_take_bit_eq) (simp add: take_bit_eq_mod)
qed

lemma hexchar_inj: "hexchar x = hexchar y \<Longrightarrow> x AND 15 = y AND 15"
proof -
  assume "hexchar x = hexchar y"
  moreover have "distinct ''0123456789abcdef''" by simp
  ultimately have "unat (x AND 15) = unat (y AND 15)"
    using nibble_lt [of x] nibble_lt [of y] unfolding hexchar_def by (subst (asm) nth_eq_iff_index_eq) simp_all
  then show ?thesis by (simp only: word_unat_eq_iff)
qed

lemma byte_of_nibbles: "drop_bit 4 (a :: u8) AND 15 = drop_bit 4 b AND 15 \<Longrightarrow> a AND 15 = b AND 15 \<Longrightarrow> a = b"
proof (rule bit_word_eqI)
  fix n assume h: "drop_bit 4 a AND 15 = drop_bit 4 b AND 15" "a AND 15 = b AND 15" and n: "n < LENGTH(8)"
  have m: "bit (15 :: u8) i \<longleftrightarrow> i < 4" if "i < 8" for i
  proof -
    have "bit (mask 4 :: u8) i \<longleftrightarrow> i < 4" using that by (simp add: bit_mask_iff del: mask_numeral)
    then show ?thesis by (simp add: mask_numeral)
  qed
  show "bit a n = bit b n"
  proof (cases "n < 4")
    case True
    then show ?thesis using arg_cong [OF h(2), of "\<lambda>w. bit w n"] n m [of n] by (simp add: bit_and_iff)
  next
    case False
    then have "n - 4 < 4" "4 + (n - 4) = n" using n by simp_all
    then show ?thesis using arg_cong [OF h(1), of "\<lambda>w. bit w (n - 4)"] m [of "n - 4"]
      by (simp add: bit_and_iff bit_drop_bit_eq)
  qed
qed

lemma uuid_loop_inj: "length as = length bs \<Longrightarrow> uuid_loop n as = uuid_loop n bs \<Longrightarrow> as = bs"
proof (induction as bs arbitrary: n rule: list_induct2)
  case (Cons a as b bs)
  have "hexchar (drop_bit 4 a) = hexchar (drop_bit 4 b)" "hexchar (a AND 15) = hexchar (b AND 15)"
    "uuid_loop (n + 1) as = uuid_loop (n + 1) bs"
    using Cons.prems by (auto split: if_splits)
  then show ?case
    using Cons.IH byte_of_nibbles [of a b] hexchar_inj [of "drop_bit 4 a" "drop_bit 4 b"] hexchar_inj [of "a AND 15" "b AND 15"]
    by (simp add: and.assoc)
qed simp

lemma version_bits:
  "(a AND 15) OR 64 = (b AND 15) OR (64 :: u8) \<longleftrightarrow> a AND 15 = b AND 15"
  "(a AND 63) OR 128 = (b AND 63) OR (128 :: u8) \<longleftrightarrow> a AND 63 = b AND 63"
proof -
  have low: "((x AND 15) OR 64) AND 15 = x AND (15 :: u8)" "((x AND 63) OR 128) AND 63 = x AND (63 :: u8)" for x
    by (simp_all add: bit.conj_disj_distrib2 and.assoc)
  show "(a AND 15) OR 64 = (b AND 15) OR 64 \<longleftrightarrow> a AND 15 = b AND 15"
    using low(1) [of a] low(1) [of b] by metis
  show "(a AND 63) OR 128 = (b AND 63) OR 128 \<longleftrightarrow> a AND 63 = b AND 63"
    using low(2) [of a] low(2) [of b] by metis
qed

text \<open>Two UUIDs are equal exactly when the random bytes they were made from agree outside the six bits
  of the version and the variant: no other random bit is lost.\<close>

theorem uuid_keeps_random_bits:
  assumes "length a = 16" "length b = 16"
  shows "kywc_identifier_uuid_generate a = kywc_identifier_uuid_generate b \<longleftrightarrow>
    (\<forall>i < 16. i \<noteq> 6 \<and> i \<noteq> 8 \<longrightarrow> a ! i = b ! i) \<and> a ! 6 AND 15 = b ! 6 AND 15 \<and> a ! 8 AND 63 = b ! 8 AND 63"
proof -
  let ?f = "\<lambda>u. u[6 := (u ! 6 AND 15) OR 64, 8 := (u ! 8 AND 63) OR (128 :: u8)]"
  have "kywc_identifier_uuid_generate a = kywc_identifier_uuid_generate b \<longleftrightarrow> ?f a = ?f b"
    using uuid_loop_inj [of "?f a" "?f b" 0] assms by (auto simp: kywc_identifier_uuid_generate_def Let_def)
  also have "\<dots> \<longleftrightarrow> (\<forall>i < 16. ?f a ! i = ?f b ! i)"
    using assms by (subst list_eq_iff_nth_eq) simp
  also have "\<dots> \<longleftrightarrow> (\<forall>i < 16. i \<noteq> 6 \<and> i \<noteq> 8 \<longrightarrow> a ! i = b ! i) \<and>
      (a ! 6 AND 15) OR 64 = (b ! 6 AND 15) OR 64 \<and> (a ! 8 AND 63) OR 128 = (b ! 8 AND 63) OR 128" (is "?l \<longleftrightarrow> ?r")
  proof -
    have "?f u ! i = (if i = 8 then (u ! 8 AND 63) OR 128 else if i = 6 then (u ! 6 AND 15) OR 64 else u ! i)"
      if "length u = 16" "i < 16" for u and i :: nat
      using that by (auto simp: nth_list_update)
    note nth = this [OF assms(1)] this [OF assms(2)]
    show ?thesis
    proof
      assume l: ?l
      then have e: "(if i = 8 then (a ! 8 AND 63) OR 128 else if i = 6 then (a ! 6 AND 15) OR 64 else a ! i) =
          (if i = 8 then (b ! 8 AND 63) OR 128 else if i = 6 then (b ! 6 AND 15) OR 64 else b ! i)" if "i < 16" for i
        using that nth [of i] by simp
      have "a ! i = b ! i" if "i < 16" "i \<noteq> 6 \<and> i \<noteq> 8" for i using e [of i] that by simp
      then show ?r using e [of 6] e [of 8] by simp
    next
      assume r: ?r
      show ?l
      proof (intro allI impI)
        fix i :: nat assume "i < 16"
        then show "?f a ! i = ?f b ! i" using r nth [of i] by auto
      qed
    qed
  qed
  finally show ?thesis by (simp only: version_bits)
qed

theorem uuid_keeps_random_bits_witness:
  "kywc_identifier_uuid_generate (replicate 16 0) = kywc_identifier_uuid_generate ((replicate 16 0)[6 := 240, 8 := 64])"
  by (subst uuid_keeps_random_bits) (simp_all add: nth_list_update)

lemma hexchar_no_hyphen [simp]: "hexchar x \<noteq> CHR ''-''"
proof -
  have "hexchar x \<in> set ''0123456789abcdef''"
    unfolding hexchar_def using nibble_lt [of x] by (intro nth_mem) simp
  then show ?thesis by auto
qed

lemma version_digit: "hexchar (drop_bit 4 ((x AND 15) OR 64)) = CHR ''4''"
proof -
  have "drop_bit 4 (x AND 15 :: u8) = 0" "drop_bit 4 (64 :: u8) = 4"
    by (simp_all add: drop_bit_and)
  then show ?thesis by (simp add: hexchar_def drop_bit_or)
qed

lemma two_bits: "(y :: u8) AND 3 \<in> {0, 1, 2, 3}"
proof -
  have "y AND 3 = take_bit 2 y" by (simp add: take_bit_eq_mask mask_numeral)
  then have "unat (y AND 3) < 4" by (simp add: unsigned_take_bit_eq) (simp add: take_bit_eq_mod)
  then have "unat (y AND 3) \<in> {0, 1, 2, 3}" by auto
  then show ?thesis by (auto simp: word_unat_eq_iff)
qed

lemma variant_digit: "hexchar (drop_bit 4 ((x AND 63) OR 128)) \<in> set ''89ab''"
proof -
  have "drop_bit 4 ((x AND 63) OR (128 :: u8)) = (drop_bit 4 x AND 3) OR 8"
    by (simp add: drop_bit_or drop_bit_and)
  then show ?thesis using two_bits [of "drop_bit 4 x"] by (auto simp: hexchar_def)
qed

lemma length_16:
  "length xs = 16 \<Longrightarrow> \<exists>a b c d e f g h i j k l m n p q. xs = [a, b, c, d, e, f, g, h, i, j, k, l, m, n, p, q]"
  by (auto simp: numeral_eq_Suc length_Suc_conv)

lemma all_less_numeral: "(\<forall>i < numeral k. P i) \<longleftrightarrow> P (pred_numeral k) \<and> (\<forall>i < pred_numeral k. P i)"
  by (auto simp: numeral_eq_Suc less_Suc_eq)

text \<open>A generated UUID has the form of version 4: the 36 characters that \<open>UUID_SIZE\<close> leaves room for, hyphens at
  the places the format asks for, the version digit 4 and a variant digit of 8, 9, a or b.\<close>

theorem uuid_has_version_4_form:
  assumes "length bytes = 16"
  shows "length (kywc_identifier_uuid_generate bytes) + 1 = UUID_SIZE \<and>
    (\<forall>i < 36. kywc_identifier_uuid_generate bytes ! i = CHR ''-'' \<longleftrightarrow> i \<in> {8, 13, 18, 23}) \<and>
    kywc_identifier_uuid_generate bytes ! 14 = CHR ''4'' \<and>
    kywc_identifier_uuid_generate bytes ! 19 \<in> set ''89ab''"
proof -
  obtain a b c d e f g h i j k l m n p q where bytes: "bytes = [a, b, c, d, e, f, g, h, i, j, k, l, m, n, p, q]"
    using length_16 [OF assms] by blast
  show ?thesis
    by (simp add: bytes kywc_identifier_uuid_generate_def Let_def UUID_SIZE_def version_digit [simplified] variant_digit [simplified]
        all_less_numeral)
qed

theorem uuid_has_version_4_form_witness:
  "kywc_identifier_uuid_generate (replicate 16 255) ! 14 = CHR ''4'' \<and>
   kywc_identifier_uuid_generate (replicate 16 255) = ''ffffffff-ffff-4fff-bfff-ffffffffffff''"
proof
  show "kywc_identifier_uuid_generate (replicate 16 255) ! 14 = CHR ''4''"
    using uuid_has_version_4_form [of "replicate 16 255"] by simp
  show "kywc_identifier_uuid_generate (replicate 16 255) = ''ffffffff-ffff-4fff-bfff-ffffffffffff''"
    by code_simp
qed

end
