(* ===== verification/Keyboard.thy ===== *)
theory Keyboard
  imports Strings
begin

section \<open>Pressed keys (\<^verbatim>\<open>input/keyboard.c\<close>)\<close>

text \<open>
  The modifier names and the array of pressed key symbols a keyboard keeps. The functions of libxkbcommon
  that change the case of a key symbol are arguments. Logging is left out.
\<close>

subsection \<open>Modifiers\<close>

definition WLR_MODIFIER_SHIFT :: u32 where "WLR_MODIFIER_SHIFT = 1"
definition WLR_MODIFIER_CAPS :: u32 where "WLR_MODIFIER_CAPS = 2"
definition WLR_MODIFIER_CTRL :: u32 where "WLR_MODIFIER_CTRL = 4"
definition WLR_MODIFIER_ALT :: u32 where "WLR_MODIFIER_ALT = 8"
definition WLR_MODIFIER_MOD2 :: u32 where "WLR_MODIFIER_MOD2 = 16"
definition WLR_MODIFIER_MOD3 :: u32 where "WLR_MODIFIER_MOD3 = 32"
definition WLR_MODIFIER_LOGO :: u32 where "WLR_MODIFIER_LOGO = 64"
definition WLR_MODIFIER_MOD5 :: u32 where "WLR_MODIFIER_MOD5 = 128"

lemmas modifier_defs = WLR_MODIFIER_SHIFT_def WLR_MODIFIER_CAPS_def WLR_MODIFIER_CTRL_def WLR_MODIFIER_ALT_def
  WLR_MODIFIER_MOD2_def WLR_MODIFIER_MOD3_def WLR_MODIFIER_LOGO_def WLR_MODIFIER_MOD5_def

definition modifiers :: "(string \<times> u32) list" where
  "modifiers =
     [(''Shift'', WLR_MODIFIER_SHIFT), (''Lock'', WLR_MODIFIER_CAPS), (''Ctrl'', WLR_MODIFIER_CTRL),
      (''Control'', WLR_MODIFIER_CTRL), (''Alt'', WLR_MODIFIER_ALT), (''Mod1'', WLR_MODIFIER_ALT),
      (''Mod2'', WLR_MODIFIER_MOD2), (''Mod3'', WLR_MODIFIER_MOD3), (''Win'', WLR_MODIFIER_LOGO),
      (''Mod4'', WLR_MODIFIER_LOGO), (''Mod5'', WLR_MODIFIER_MOD5)]"

definition keyboard_get_modifier_mask_by_name :: "string \<Rightarrow> u32" where
  "keyboard_get_modifier_mask_by_name name =
     (case find (\<lambda>m. strcasecmp_eq (fst m) name) modifiers of None \<Rightarrow> 0 | Some m \<Rightarrow> snd m)"

definition keyboard_get_modifier_name_by_mask :: "u32 \<Rightarrow> string option" where
  "keyboard_get_modifier_name_by_mask modifier = map_option fst (find (\<lambda>m. snd m = modifier) modifiers)"

fun names_loop :: "(string \<times> u32) list \<Rightarrow> u32 \<Rightarrow> string list" where
  "names_loop [] masks = []"
| "names_loop (m # ms) masks =
     (if masks AND snd m \<noteq> 0 then fst m # names_loop ms (masks XOR snd m) else names_loop ms masks)"

definition get_modifier_names :: "u32 \<Rightarrow> string list" where
  "get_modifier_names masks = names_loop modifiers masks"

subsection \<open>The array of pressed keys\<close>

definition MAX_PRESSED_KEY :: nat where "MAX_PRESSED_KEY = 10"

record keyboard_state =
  pressed_keysyms :: "u32 list"
  last_keysym :: u32
  last_modifiers :: u32
  npressed :: nat
  only_one_modifier :: bool

definition no_keyboard_state :: keyboard_state where
  "no_keyboard_state = \<lparr>pressed_keysyms = replicate MAX_PRESSED_KEY 0, last_keysym = 0, last_modifiers = 0,
     npressed = 0, only_one_modifier = False\<rparr>"

text \<open>The compacting loop, for the rounds left, the index read and the index written.\<close>

fun erase_loop :: "nat \<Rightarrow> u32 \<Rightarrow> u32 list \<Rightarrow> nat \<Rightarrow> nat \<Rightarrow> u32 list \<times> nat" where
  "erase_loop 0 keysym a i idx = (a, idx)"
| "erase_loop (Suc n) keysym a i idx =
     (let a = (if i > idx then a[idx := a ! i] else a)
      in erase_loop n keysym a (i + 1) (if a ! i \<noteq> keysym then idx + 1 else idx))"

fun clear_loop :: "nat \<Rightarrow> nat \<Rightarrow> u32 list \<Rightarrow> u32 list \<times> nat" where
  "clear_loop 0 idx a = (a, 0)"
| "clear_loop (Suc n) idx a = (if Suc n > idx then clear_loop n idx (a[n := 0]) else (a, Suc n))"

definition keyboard_state_erase_key :: "keyboard_state \<Rightarrow> u32 \<Rightarrow> keyboard_state" where
  "keyboard_state_erase_key s keysym =
     (let (a, idx) = erase_loop (npressed s) keysym (pressed_keysyms s) 0 0;
          (a, n) = clear_loop (npressed s) idx a
      in s\<lparr>pressed_keysyms := a, npressed := n\<rparr>)"

definition keyboard_state_add_key :: "keyboard_state \<Rightarrow> u32 \<Rightarrow> keyboard_state" where
  "keyboard_state_add_key s keysym =
     (if npressed s \<ge> MAX_PRESSED_KEY then s
      else if npressed s > 0 \<and> pressed_keysyms s ! (npressed s - 1) = keysym then s
      else s\<lparr>pressed_keysyms := (pressed_keysyms s)[npressed s := keysym], npressed := npressed s + 1\<rparr>)"

definition keyboard_state_clear :: "keyboard_state \<Rightarrow> keyboard_state" where
  "keyboard_state_clear s = (if npressed s > 0 then no_keyboard_state else s)"

text \<open>Case mapping and names of key symbols, from libxkbcommon.\<close>

record xkb =
  xkb_keysym_to_lower :: "u32 \<Rightarrow> u32"
  xkb_keysym_to_upper :: "u32 \<Rightarrow> u32"
  xkb_keysym_from_name :: "string \<Rightarrow> u32"
  xkb_keysym_get_name :: "u32 \<Rightarrow> string option"
  xkb_state_key_get_syms :: "u32 \<Rightarrow> u32 list"

definition handle_keyboard_state :: "xkb \<Rightarrow> keyboard_state \<Rightarrow> u32 \<Rightarrow> u32 \<Rightarrow> bool \<Rightarrow> keyboard_state" where
  "handle_keyboard_state x s mods keysym pressed =
     (let last_key_is_modifiers = mods \<noteq> last_modifiers s;
          s = s\<lparr>only_one_modifier := mods \<noteq> 0 \<and> last_modifiers s = 0 \<and> \<not> pressed \<and> npressed s = 1\<rparr>;
          s = s\<lparr>last_modifiers := mods\<rparr>;
          s = (if last_key_is_modifiers \<and> last_keysym s \<noteq> 0
               then (keyboard_state_erase_key s (last_keysym s))\<lparr>last_keysym := 0\<rparr> else s)
      in if pressed then (keyboard_state_add_key s keysym)\<lparr>last_keysym := keysym\<rparr>
         else keyboard_state_erase_key (keyboard_state_erase_key s (xkb_keysym_to_upper x keysym))
                (xkb_keysym_to_lower x keysym))"

subsection \<open>The array as a list\<close>

text \<open>What the array stands for, and the operations on it.\<close>

definition kb_ok :: "keyboard_state \<Rightarrow> bool" where
  "kb_ok s \<longleftrightarrow> length (pressed_keysyms s) = MAX_PRESSED_KEY \<and> npressed s \<le> MAX_PRESSED_KEY \<and>
     (\<forall>i < MAX_PRESSED_KEY. npressed s \<le> i \<longrightarrow> pressed_keysyms s ! i = 0)"

definition pressed_list :: "keyboard_state \<Rightarrow> u32 list" where
  "pressed_list s = take (npressed s) (pressed_keysyms s)"

definition add_pressed :: "u32 \<Rightarrow> u32 list \<Rightarrow> u32 list" where
  "add_pressed k ks = (if length ks \<ge> 10 \<or> ks \<noteq> [] \<and> last ks = k then ks else ks @ [k])"

lemma erase_loop_filter:
  assumes "idx \<le> i" and "i + n \<le> length a"
  shows "case erase_loop n k a i idx of (b, j) \<Rightarrow>
    length b = length a \<and> idx \<le> j \<and> j \<le> i + n \<and>
    take j b = take idx a @ filter (\<lambda>x. x \<noteq> k) (take n (drop i a)) \<and> drop (i + n) b = drop (i + n) a"
  using assms
proof (induction n arbitrary: a i idx)
  case 0
  then show ?case by simp
next
  case (Suc n)
  define a' where "a' = (if i > idx then a[idx := a ! i] else a)"
  define idx' where "idx' = (if a' ! i \<noteq> k then idx + 1 else idx)"
  have i: "i < length a" using Suc.prems by simp
  have a': "length a' = length a" "a' ! i = a ! i" "take idx a' = take idx a" "drop (Suc i) a' = drop (Suc i) a"
    "drop (Suc (i + n)) a' = drop (Suc (i + n)) a"
    using Suc.prems(1) by (auto simp: a'_def)
  have t: "take idx' a' = take idx a @ (if a ! i \<noteq> k then [a ! i] else [])"
  proof -
    have "a' ! idx = a ! i" using Suc.prems i by (auto simp: a'_def)
    then show ?thesis using a' i Suc.prems(1) by (simp add: idx'_def take_Suc_conv_app_nth)
  qed
  have d: "drop i a = a ! i # drop (Suc i) a" using i by (simp add: Cons_nth_drop_Suc)
  have "erase_loop (Suc n) k a i idx = erase_loop n k a' (Suc i) idx'"
    by (simp add: a'_def idx'_def Let_def)
  moreover have "idx' \<le> Suc i" "Suc i + n \<le> length a'" using Suc.prems a'(1) by (auto simp: idx'_def)
  note Suc.IH [OF this]
  moreover have "idx \<le> idx'" by (simp add: idx'_def)
  ultimately show ?case
    using t d a'(1,4,5) by (auto simp: ac_simps simp flip: drop_drop split: prod.splits)
qed

lemma clear_loop_zeros:
  "idx \<le> n \<Longrightarrow> n \<le> length a \<Longrightarrow> clear_loop n idx a = (take idx a @ replicate (n - idx) 0 @ drop n a, idx)"
proof (induction n arbitrary: a)
  case (Suc n)
  show ?case
  proof (cases "idx \<le> n")
    case True
    then have "drop n (a[n := 0]) = 0 # drop (Suc n) a"
      using Suc.prems by (simp add: drop_update_swap Cons_nth_drop_Suc [symmetric])
    then show ?thesis
      using True Suc by (simp add: Suc_diff_le replicate_append_same [symmetric])
  next
    case False
    then have "idx = Suc n" using Suc.prems by simp
    then show ?thesis by simp
  qed
qed simp

lemma erase_key_filter:
  assumes "kb_ok s"
  shows "kb_ok (keyboard_state_erase_key s k)"
    and "pressed_list (keyboard_state_erase_key s k) = filter (\<lambda>x. x \<noteq> k) (pressed_list s)"
    and "last_keysym (keyboard_state_erase_key s k) = last_keysym s"
    and "last_modifiers (keyboard_state_erase_key s k) = last_modifiers s"
    and "only_one_modifier (keyboard_state_erase_key s k) = only_one_modifier s"
proof -
  obtain a j where e: "erase_loop (npressed s) k (pressed_keysyms s) 0 0 = (a, j)" by fastforce
  have n: "npressed s \<le> length (pressed_keysyms s)" using assms by (simp add: kb_ok_def)
  have a: "length a = length (pressed_keysyms s)" "j \<le> npressed s"
    "take j a = filter (\<lambda>x. x \<noteq> k) (pressed_list s)" "drop (npressed s) a = drop (npressed s) (pressed_keysyms s)"
    using erase_loop_filter [of 0 0 "npressed s" "pressed_keysyms s" k] n by (simp_all add: e pressed_list_def)
  have r: "keyboard_state_erase_key s k =
      s\<lparr>pressed_keysyms := take j a @ replicate (npressed s - j) 0 @ drop (npressed s) a, npressed := j\<rparr>"
    using a n by (simp add: keyboard_state_erase_key_def e clear_loop_zeros)
  have z: "(take j a @ replicate (npressed s - j) 0 @ drop (npressed s) a) ! i = 0"
    if "j \<le> i" "i < MAX_PRESSED_KEY" for i
    using that a(1,2,4) assms n by (auto simp: nth_append kb_ok_def)
  show "kb_ok (keyboard_state_erase_key s k)"
    using a(1,2) n assms z by (auto simp: r kb_ok_def)
  show "pressed_list (keyboard_state_erase_key s k) = filter (\<lambda>x. x \<noteq> k) (pressed_list s)"
  proof -
    have "pressed_list (keyboard_state_erase_key s k) = take j a"
      using a(1,2) n by (simp add: r pressed_list_def min_absorb1)
    then show ?thesis by (simp only: a(3))
  qed
qed (simp_all add: keyboard_state_erase_key_def Let_def split: prod.splits)

lemma add_key_append:
  assumes "kb_ok s"
  shows "kb_ok (keyboard_state_add_key s k)"
    and "pressed_list (keyboard_state_add_key s k) = add_pressed k (pressed_list s)"
    and "last_keysym (keyboard_state_add_key s k) = last_keysym s"
    and "last_modifiers (keyboard_state_add_key s k) = last_modifiers s"
    and "only_one_modifier (keyboard_state_add_key s k) = only_one_modifier s"
proof -
  have l: "length (pressed_list s) = npressed s" "length (pressed_keysyms s) = 10"
    using assms by (auto simp: pressed_list_def kb_ok_def MAX_PRESSED_KEY_def)
  have "last (pressed_list s) = pressed_keysyms s ! (npressed s - 1)" if "npressed s > 0"
    using that l by (subst last_conv_nth) (auto simp: pressed_list_def)
  then show "pressed_list (keyboard_state_add_key s k) = add_pressed k (pressed_list s)"
    using l by (auto simp: keyboard_state_add_key_def add_pressed_def MAX_PRESSED_KEY_def pressed_list_def
        take_Suc_conv_app_nth)
  show "kb_ok (keyboard_state_add_key s k)"
    using assms by (auto simp: keyboard_state_add_key_def kb_ok_def MAX_PRESSED_KEY_def nth_list_update)
qed (simp_all add: keyboard_state_add_key_def)

lemma kb_ok_fields [simp]:
  "kb_ok (s\<lparr>last_keysym := a\<rparr>) = kb_ok s" "kb_ok (s\<lparr>last_modifiers := b\<rparr>) = kb_ok s"
  "kb_ok (s\<lparr>only_one_modifier := c\<rparr>) = kb_ok s"
  "pressed_list (s\<lparr>last_keysym := a\<rparr>) = pressed_list s" "pressed_list (s\<lparr>last_modifiers := b\<rparr>) = pressed_list s"
  "pressed_list (s\<lparr>only_one_modifier := c\<rparr>) = pressed_list s"
  by (simp_all add: kb_ok_def pressed_list_def)

lemma kb_ok_start: "kb_ok no_keyboard_state" "pressed_list no_keyboard_state = []"
  by (simp_all add: kb_ok_def no_keyboard_state_def pressed_list_def)

lemma npressed_length: "kb_ok s \<Longrightarrow> npressed s = length (pressed_list s)"
  by (simp add: kb_ok_def pressed_list_def)

text \<open>The specification: a list of at most ten symbols, the last symbol and the last modifiers.\<close>

definition press_spec :: "xkb \<Rightarrow> u32 \<Rightarrow> u32 \<Rightarrow> bool \<Rightarrow> u32 list \<times> u32 \<times> u32 \<Rightarrow> u32 list \<times> u32 \<times> u32" where
  "press_spec x mods k pressed = (\<lambda>(ks, last, lmods).
     let drop_last = mods \<noteq> lmods \<and> last \<noteq> 0;
         ks = (if drop_last then filter (\<lambda>y. y \<noteq> last) ks else ks);
         last = (if drop_last then 0 else last)
     in if pressed then (add_pressed k ks, k, mods)
        else (filter (\<lambda>y. y \<noteq> xkb_keysym_to_upper x k \<and> y \<noteq> xkb_keysym_to_lower x k) ks, last, mods))"

definition kb_view :: "keyboard_state \<Rightarrow> u32 list \<times> u32 \<times> u32" where
  "kb_view s = (pressed_list s, last_keysym s, last_modifiers s)"

text \<open>C33: the array with its in-place compaction implements the list of pressed keys: every key event keeps the
  count within the ten entries, the unused entries zero, and changes the list as the specification says.\<close>

theorem handle_keyboard_state_refines:
  assumes "kb_ok s"
  shows "kb_ok (handle_keyboard_state x s mods k pressed) \<and>
    kb_view (handle_keyboard_state x s mods k pressed) = press_spec x mods k pressed (kb_view s)"
  using assms
  by (auto simp: handle_keyboard_state_def kb_view_def press_spec_def Let_def erase_key_filter add_key_append
      intro!: filter_cong)

theorem handle_keyboard_state_refines_witness:
  "kb_view (handle_keyboard_state \<lparr>xkb_keysym_to_lower = id, xkb_keysym_to_upper = id, xkb_keysym_from_name = \<lambda>_. 0,
     xkb_keysym_get_name = \<lambda>_. None, xkb_state_key_get_syms = \<lambda>_. []\<rparr> no_keyboard_state 4 97 True) = ([97], 97, 4)"
proof -
  have "kb_view no_keyboard_state = ([], 0, 0)"
    by (simp add: kb_view_def kb_ok_start) (simp add: no_keyboard_state_def)
  then show ?thesis
    by (simp add: handle_keyboard_state_refines [OF kb_ok_start(1)] press_spec_def add_pressed_def)
qed

end
