(* ===== verification/Bindings.thy ===== *)
theory Bindings
  imports Keyboard Complex_Main "HOL-Library.Monad_Syntax"
begin

section \<open>Key bindings (\<^verbatim>\<open>input/binding.c\<close>)\<close>

text \<open>
  The registered key bindings, in one list per type, and the locks that block them. Bindings live in a heap of
  addresses; a list holds addresses, the newest first, as \<^verbatim>\<open>wl_list_insert\<close> puts it. The counters of
  locks are natural numbers. \<^term>\<open>None\<close> is a failed assertion, an access outside an array or the use of a
  freed binding. Functions are numbers, and what an action does to the state is an argument.
\<close>

subsection \<open>Types\<close>

datatype key_binding_type = KEY_BINDING_TYPE_CUSTOM_DEF | KEY_BINDING_TYPE_WIN_MENU | KEY_BINDING_TYPE_SWITCH_WORKSPACE
  | KEY_BINDING_TYPE_WINDOW_ACTION_MINIMIZE | KEY_BINDING_TYPE_WINDOW_ACTION_MAXIMIZE
  | KEY_BINDING_TYPE_WINDOW_ACTION_CLOSE | KEY_BINDING_TYPE_WINDOW_ACTION_MENU | KEY_BINDING_TYPE_WINDOW_ACTION_TILED
  | KEY_BINDING_TYPE_WINDOW_ACTION_OUTPUT | KEY_BINDING_TYPE_WINDOW_ACTION_SEND
  | KEY_BINDING_TYPE_WINDOW_ACTION_CAPTURE | KEY_BINDING_TYPE_MAXIMIZED_VIEWS | KEY_BINDING_TYPE_TOGGLE_SHOW_DESKTOP
  | KEY_BINDING_TYPE_SHOW_DESKTOP | KEY_BINDING_TYPE_RESTORE_DESKTOP | KEY_BINDING_TYPE_TOGGLE_SHOW_VIEWS
  | KEY_BINDING_TYPE_TOGGLE_SHOW_WINDOWS | KEY_BINDING_TYPE_WINDOW_SWITCHER | KEY_BINDING_TYPE_NUM

primrec type_no :: "key_binding_type \<Rightarrow> nat" where
  "type_no KEY_BINDING_TYPE_CUSTOM_DEF = 0"
| "type_no KEY_BINDING_TYPE_WIN_MENU = 1"
| "type_no KEY_BINDING_TYPE_SWITCH_WORKSPACE = 2"
| "type_no KEY_BINDING_TYPE_WINDOW_ACTION_MINIMIZE = 3"
| "type_no KEY_BINDING_TYPE_WINDOW_ACTION_MAXIMIZE = 4"
| "type_no KEY_BINDING_TYPE_WINDOW_ACTION_CLOSE = 5"
| "type_no KEY_BINDING_TYPE_WINDOW_ACTION_MENU = 6"
| "type_no KEY_BINDING_TYPE_WINDOW_ACTION_TILED = 7"
| "type_no KEY_BINDING_TYPE_WINDOW_ACTION_OUTPUT = 8"
| "type_no KEY_BINDING_TYPE_WINDOW_ACTION_SEND = 9"
| "type_no KEY_BINDING_TYPE_WINDOW_ACTION_CAPTURE = 10"
| "type_no KEY_BINDING_TYPE_MAXIMIZED_VIEWS = 11"
| "type_no KEY_BINDING_TYPE_TOGGLE_SHOW_DESKTOP = 12"
| "type_no KEY_BINDING_TYPE_SHOW_DESKTOP = 13"
| "type_no KEY_BINDING_TYPE_RESTORE_DESKTOP = 14"
| "type_no KEY_BINDING_TYPE_TOGGLE_SHOW_VIEWS = 15"
| "type_no KEY_BINDING_TYPE_TOGGLE_SHOW_WINDOWS = 16"
| "type_no KEY_BINDING_TYPE_WINDOW_SWITCHER = 17"
| "type_no KEY_BINDING_TYPE_NUM = 18"

definition NUM_TYPES :: nat where "NUM_TYPES = 18"

definition key_binding_table :: "(key_binding_type \<times> string) list" where
  "key_binding_table =
     [(KEY_BINDING_TYPE_CUSTOM_DEF, ''WLCOM_CUSTOM_DEF''),
      (KEY_BINDING_TYPE_WIN_MENU, ''WLCOM_WIN_MENU''),
      (KEY_BINDING_TYPE_SWITCH_WORKSPACE, ''WLCOM_SWITCH_WORKSPACE''),
      (KEY_BINDING_TYPE_WINDOW_ACTION_MINIMIZE, ''WLCOM_WINDOW_ACTION_MINIMIZE''),
      (KEY_BINDING_TYPE_WINDOW_ACTION_MAXIMIZE, ''WLCOM_WINDOW_ACTION_MAXIMIZE''),
      (KEY_BINDING_TYPE_WINDOW_ACTION_CLOSE, ''WLCOM_WINDOW_ACTION_CLOSE''),
      (KEY_BINDING_TYPE_WINDOW_ACTION_MENU, ''WLCOM_WINDOW_ACTION_MENU''),
      (KEY_BINDING_TYPE_WINDOW_ACTION_TILED, ''WLCOM_WINDOW_ACTION_TILED''),
      (KEY_BINDING_TYPE_WINDOW_ACTION_OUTPUT, ''WLCOM_WINDOW_ACTION_OUTPUT''),
      (KEY_BINDING_TYPE_WINDOW_ACTION_SEND, ''WLCOM_WINDOW_ACTION_SEND''),
      (KEY_BINDING_TYPE_WINDOW_ACTION_CAPTURE, ''WLCOM_WINDOW_ACTION_CAPTURE''),
      (KEY_BINDING_TYPE_WINDOW_SWITCHER, ''WLCOM_WINDOW_SWITCHER''),
      (KEY_BINDING_TYPE_MAXIMIZED_VIEWS, ''WLCOM_MAXIMIZED_VIEWS''),
      (KEY_BINDING_TYPE_TOGGLE_SHOW_DESKTOP, ''WLCOM_TOGGLE_SHOW_DESKTOP''),
      (KEY_BINDING_TYPE_SHOW_DESKTOP, ''WLCOM_SHOW_DESKTOP''),
      (KEY_BINDING_TYPE_RESTORE_DESKTOP, ''WLCOM_RESTORE_DESKTOP''),
      (KEY_BINDING_TYPE_TOGGLE_SHOW_VIEWS, ''WLCOM_TOGGLE_SHOW_VIEWS''),
      (KEY_BINDING_TYPE_TOGGLE_SHOW_WINDOWS, ''WLCOM_TOGGLE_SHOW_WINDOWS''),
      (KEY_BINDING_TYPE_NUM, ''WLCOM_ALL'')]"

text \<open>The type and whether the name was found.\<close>

definition kywc_key_binding_type_by_name :: "string \<Rightarrow> key_binding_type \<times> bool" where
  "kywc_key_binding_type_by_name name =
     (case find (\<lambda>e. snd e = name) key_binding_table of
        Some e \<Rightarrow> (fst e, True) | None \<Rightarrow> (KEY_BINDING_TYPE_CUSTOM_DEF, False))"

subsection \<open>State\<close>

record key_binding =
  kb_modifiers :: u32
  kb_keysym :: u32
  kb_no_repeat :: bool
  kb_keybind :: "string option"
  kb_desc :: "string option"
  kb_action :: "nat option"
  kb_data :: ptr

datatype gesture_type = GESTURE_TYPE_NONE | GESTURE_TYPE_PINCH | GESTURE_TYPE_SWIPE | GESTURE_TYPE_HOLD

datatype gesture_stage = GESTURE_STAGE_NONE | GESTURE_STAGE_BEFORE | GESTURE_STAGE_TRIGGER | GESTURE_STAGE_AFTER
  | GESTURE_STAGE_STOP

record gesture_binding =
  gb_type :: gesture_type
  gb_stage :: gesture_stage
  gb_fingers :: u8
  gb_devices :: u32
  gb_directions :: u32
  gb_follow_direction :: u32
  gb_edges :: u32
  gb_follow_threshold :: real
  gb_desc :: "string option"
  gb_action :: "nat option"
  gb_data :: ptr

text \<open>The global structure, with the two heaps its lists point into.\<close>

record bindings =
  keysyms_binding :: "ptr list list"
  gesture_bindings :: "ptr list"
  keysym_bindings_block :: nat
  type_nlocks :: "nat list"
  keysyms_binding_masks :: u32
  key_heap :: "ptr \<Rightarrow> key_binding option"
  gesture_heap :: "ptr \<Rightarrow> gesture_binding option"

definition bindings_create :: bindings where
  "bindings_create = \<lparr>keysyms_binding = replicate NUM_TYPES [], gesture_bindings = [], keysym_bindings_block = 0,
     type_nlocks = replicate NUM_TYPES 0, keysyms_binding_masks = 0, key_heap = (\<lambda>_. None), gesture_heap = (\<lambda>_. None)\<rparr>"

subsection \<open>Creation\<close>

fun keybind_loop :: "xkb \<Rightarrow> string list \<Rightarrow> u32 \<times> u32 \<Rightarrow> u32 \<times> u32" where
  "keybind_loop x [] (mods, ksym) = (mods, ksym)"
| "keybind_loop x (t # ts) (mods, ksym) =
     (let m = keyboard_get_modifier_mask_by_name t in
      if m \<noteq> 0 then keybind_loop x ts (mods OR m, ksym)
      else keybind_loop x ts (mods, xkb_keysym_to_lower x (xkb_keysym_from_name x t)))"

text \<open>What \<^verbatim>\<open>kywc_key_binding_create\<close> reads from a string: the repeat flag, the modifiers and the symbol.\<close>

definition parse_keybind :: "xkb \<Rightarrow> string \<Rightarrow> (bool \<times> u32 \<times> u32) option" where
  "parse_keybind x keybind = do {
     let bind_str = string_split keybind '':'';
     let length2 = length bind_str = 2;
     let no_repeat = (length2 \<and> snd (bind_str ! 1) = ''no'');
     let split = string_split (if length2 then snd (bind_str ! 0) else keybind) ''+'';
     string_free_split bind_str;
     let (mods, ksym) = keybind_loop x (map snd split) (0, 0);
     string_free_split split;
     Some (no_repeat, mods, ksym)}"

text \<open>\<open>new\<close> is the address \<^verbatim>\<open>calloc\<close> returns, \<^term>\<open>NULL\<close> when it fails; the result is the address too.\<close>

definition kywc_key_binding_create ::
  "xkb \<Rightarrow> ptr \<Rightarrow> string \<Rightarrow> string option \<Rightarrow> bindings \<Rightarrow> (ptr \<times> bindings) option" where
  "kywc_key_binding_create x new keybind desc s =
     (if new = NULL then Some (NULL, s)
      else do {
        (no_repeat, mods, ksym) \<leftarrow> parse_keybind x keybind;
        Some (new, s\<lparr>key_heap := (key_heap s)(new \<mapsto> \<lparr>kb_modifiers = mods, kb_keysym = ksym, kb_no_repeat = no_repeat,
          kb_keybind = Some keybind, kb_desc = desc, kb_action = None, kb_data = NULL\<rparr>)\<rparr>)})"

definition kywc_key_binding_create_by_symbol ::
  "ptr \<Rightarrow> u32 \<Rightarrow> u32 \<Rightarrow> bool \<Rightarrow> string option \<Rightarrow> bindings \<Rightarrow> ptr \<times> bindings" where
  "kywc_key_binding_create_by_symbol new keysym mods no_repeat desc s =
     (if new = NULL then (NULL, s)
      else (new, s\<lparr>key_heap := (key_heap s)(new \<mapsto> \<lparr>kb_modifiers = mods, kb_keysym = keysym, kb_no_repeat = no_repeat,
        kb_keybind = None, kb_desc = desc, kb_action = None, kb_data = NULL\<rparr>)\<rparr>))"

definition unlink_key :: "ptr \<Rightarrow> bindings \<Rightarrow> bindings" where
  "unlink_key p s = s\<lparr>keysyms_binding := map (filter (\<lambda>q. q \<noteq> p)) (keysyms_binding s)\<rparr>"

definition kywc_key_binding_destroy :: "ptr \<Rightarrow> bindings \<Rightarrow> bindings" where
  "kywc_key_binding_destroy p s = (unlink_key p s)\<lparr>key_heap := (key_heap s)(p := None)\<rparr>"

subsection \<open>Registration\<close>

definition kywc_key_binding_is_registered :: "bindings \<Rightarrow> ptr \<Rightarrow> bool" where
  "kywc_key_binding_is_registered s p \<longleftrightarrow> p \<in> set (concat (keysyms_binding s))"

fun valid_loop :: "bindings \<Rightarrow> ptr \<Rightarrow> u32 \<Rightarrow> u32 \<Rightarrow> ptr list \<Rightarrow> bool option" where
  "valid_loop s p keysym mods [] = Some True"
| "valid_loop s p keysym mods (q # qs) =
     (if q = p then valid_loop s p keysym mods qs
      else do {
        b \<leftarrow> key_heap s q;
        if mods XOR kb_modifiers b = 0 \<and> keysym = kb_keysym b then Some False
        else valid_loop s p keysym mods qs})"

definition key_binding_is_valid :: "bindings \<Rightarrow> ptr \<Rightarrow> u32 \<Rightarrow> u32 \<Rightarrow> bool option" where
  "key_binding_is_valid s p keysym mods = valid_loop s p keysym mods (concat (keysyms_binding s))"

definition kywc_key_binding_register ::
  "ptr \<Rightarrow> key_binding_type \<Rightarrow> nat option \<Rightarrow> ptr \<Rightarrow> bindings \<Rightarrow> (bool \<times> bindings) option" where
  "kywc_key_binding_register p type action data s = do {
     b \<leftarrow> key_heap s p;
     if kywc_key_binding_is_registered s p then Some (True, s)
     else do {
       valid \<leftarrow> key_binding_is_valid s p (kb_keysym b) (kb_modifiers b);
       if \<not> valid then Some (False, s)
       else if type_no type \<ge> NUM_TYPES then None
       else do {
         let t = type_no type;
         let s = s\<lparr>keysyms_binding := (keysyms_binding s)[t := p # keysyms_binding s ! t]\<rparr>;
         let s = (if type_nlocks s ! t = 0
                  then s\<lparr>keysyms_binding_masks := keysyms_binding_masks s OR push_bit t 1\<rparr> else s);
         let b = (if action \<noteq> None then b\<lparr>kb_action := action\<rparr> else b);
         let b = (if data \<noteq> NULL then b\<lparr>kb_data := data\<rparr> else b);
         Some (True, s\<lparr>key_heap := (key_heap s)(p \<mapsto> b)\<rparr>)}}}"

definition kywc_key_binding_update ::
  "ptr \<Rightarrow> u32 \<Rightarrow> u32 \<Rightarrow> string option \<Rightarrow> bindings \<Rightarrow> (bool \<times> bindings) option" where
  "kywc_key_binding_update p keysym mods desc s = do {
     b \<leftarrow> key_heap s p;
     valid \<leftarrow> (if kywc_key_binding_is_registered s p then key_binding_is_valid s p keysym mods else Some True);
     if \<not> valid then Some (False, s)
     else do {
       let b = b\<lparr>kb_keysym := keysym, kb_modifiers := mods\<rparr>;
       let b = (if desc \<noteq> None then b\<lparr>kb_desc := desc\<rparr> else b);
       Some (True, s\<lparr>key_heap := (key_heap s)(p \<mapsto> b)\<rparr>)}}"

definition kywc_key_binding_unregister :: "ptr \<Rightarrow> bindings \<Rightarrow> bindings" where
  "kywc_key_binding_unregister p s = unlink_key p s"

subsection \<open>Blocking\<close>

definition kywc_key_binding_block_all :: "bool \<Rightarrow> bindings \<Rightarrow> bindings option" where
  "kywc_key_binding_block_all block s =
     (if block then Some (s\<lparr>keysym_bindings_block := keysym_bindings_block s + 1\<rparr>)
      else if keysym_bindings_block s = 0 then None
      else Some (s\<lparr>keysym_bindings_block := keysym_bindings_block s - 1\<rparr>))"

definition kywc_key_binding_block_type :: "nat \<Rightarrow> bool \<Rightarrow> bindings \<Rightarrow> bindings option" where
  "kywc_key_binding_block_type t block s =
     (if t \<ge> NUM_TYPES then None
      else if block then
        Some (s\<lparr>keysyms_binding_masks := keysyms_binding_masks s AND NOT (push_bit t 1),
                type_nlocks := (type_nlocks s)[t := type_nlocks s ! t + 1]\<rparr>)
      else if type_nlocks s ! t = 0 then None
      else let s = s\<lparr>type_nlocks := (type_nlocks s)[t := type_nlocks s ! t - 1]\<rparr>
           in Some (if type_nlocks s ! t = 0
                    then s\<lparr>keysyms_binding_masks := keysyms_binding_masks s OR push_bit t 1\<rparr> else s))"

subsection \<open>Keys\<close>

definition match_key_binding :: "xkb \<Rightarrow> keyboard_state \<Rightarrow> key_binding \<Rightarrow> bool" where
  "match_key_binding x ks b \<longleftrightarrow>
     list_ex (\<lambda>k. kb_keysym b = xkb_keysym_to_lower x k) (take (npressed ks) (pressed_keysyms ks))"

text \<open>The conditions of the inner loop that lead to the action.\<close>

definition key_binding_fires :: "xkb \<Rightarrow> keyboard_state \<Rightarrow> key_binding \<Rightarrow> bool" where
  "key_binding_fires x ks b \<longleftrightarrow>
     (if only_one_modifier ks \<and> kb_keysym b \<noteq> 0 \<or> \<not> only_one_modifier ks \<and> kb_keysym b = 0 then False
      else if last_modifiers ks XOR kb_modifiers b \<noteq> 0 then False
      else if npressed ks < 1 \<and> kb_keysym b \<noteq> 0 then False
      else kb_keysym b = 0 \<or> match_key_binding x ks b)"

fun find_binding :: "(key_binding \<Rightarrow> bool) \<Rightarrow> bindings \<Rightarrow> ptr list \<Rightarrow> ptr option option" where
  "find_binding P s [] = Some None"
| "find_binding P s (q # qs) = do {
     b \<leftarrow> key_heap s q;
     if P b then Some (Some q) else find_binding P s qs}"

fun find_type :: "(key_binding \<Rightarrow> bool) \<Rightarrow> bindings \<Rightarrow> nat list \<Rightarrow> ptr option option" where
  "find_type P s [] = Some None"
| "find_type P s (i # is) =
     (if keysyms_binding_masks s AND push_bit i 1 = 0 then find_type P s is
      else do {
        r \<leftarrow> find_binding P s (keysyms_binding s ! i);
        case r of None \<Rightarrow> find_type P s is | Some p \<Rightarrow> Some (Some p)})"

text \<open>The binding the two loops stop at, after the checks of the lock and the block.\<close>

definition matching_binding :: "xkb \<Rightarrow> bool \<Rightarrow> keyboard_state \<Rightarrow> bindings \<Rightarrow> ptr option option" where
  "matching_binding x locked ks s =
     (if locked \<or> keysym_bindings_block s > 0 then Some None
      else find_type (key_binding_fires x ks) s [0..<NUM_TYPES])"

text \<open>\<open>run\<close> is what an action, called with the binding and its data, does to the state; the flag for the
  repetition is read from the binding afterwards.\<close>

type_synonym run_action = "nat \<Rightarrow> ptr \<Rightarrow> ptr \<Rightarrow> bindings \<Rightarrow> bindings"

definition bindings_handle_key_binding ::
  "xkb \<Rightarrow> run_action \<Rightarrow> bool \<Rightarrow> keyboard_state \<Rightarrow> bool \<Rightarrow> bindings \<Rightarrow> (bool \<times> bool \<times> bindings) option" where
  "bindings_handle_key_binding x run locked ks repeat s = do {
     r \<leftarrow> matching_binding x locked ks s;
     case r of
       None \<Rightarrow> Some (False, repeat, s)
     | Some p \<Rightarrow> do {
         b \<leftarrow> key_heap s p;
         let s = (case kb_action b of None \<Rightarrow> s | Some f \<Rightarrow> run f p (kb_data b) s);
         b \<leftarrow> key_heap s p;
         Some (True, \<not> kb_no_repeat b, s)}}"

subsection \<open>Iteration\<close>

fun kb_for_each_loop :: "(ptr \<Rightarrow> key_binding \<Rightarrow> 'a \<Rightarrow> bool \<times> 'a) \<Rightarrow> bindings \<Rightarrow> ptr list \<Rightarrow> 'a \<Rightarrow> 'a option" where
  "kb_for_each_loop f s [] a = Some a"
| "kb_for_each_loop f s (p # ps) a = do {
     b \<leftarrow> key_heap s p;
     let (stop, a) = f p b a;
     if stop then Some a else kb_for_each_loop f s ps a}"

definition kywc_key_binding_for_each ::
  "(ptr \<Rightarrow> key_binding \<Rightarrow> 'a \<Rightarrow> bool \<times> 'a) \<Rightarrow> bindings \<Rightarrow> 'a \<Rightarrow> 'a option" where
  "kywc_key_binding_for_each f s a = kb_for_each_loop f s (concat (keysyms_binding s)) a"

fun for_each_typed_loop ::
  "(ptr \<Rightarrow> nat \<Rightarrow> key_binding \<Rightarrow> 'a \<Rightarrow> bool \<times> 'a) \<Rightarrow> bindings \<Rightarrow> (nat \<times> ptr) list \<Rightarrow> 'a \<Rightarrow> 'a option" where
  "for_each_typed_loop f s [] a = Some a"
| "for_each_typed_loop f s ((t, p) # ps) a = do {
     b \<leftarrow> key_heap s p;
     let (stop, a) = f p t b a;
     if stop then Some a else for_each_typed_loop f s ps a}"

definition kywc_key_binding_for_each_typed ::
  "(ptr \<Rightarrow> nat \<Rightarrow> key_binding \<Rightarrow> 'a \<Rightarrow> bool \<times> 'a) \<Rightarrow> bindings \<Rightarrow> 'a \<Rightarrow> 'a option" where
  "kywc_key_binding_for_each_typed f s a =
     for_each_typed_loop f s (concat (map (\<lambda>i. map (Pair i) (keysyms_binding s ! i)) [0..<NUM_TYPES])) a"

text \<open>The bindings are freed with the server.\<close>

definition bindings_server_destroy :: "bindings \<Rightarrow> (ptr \<Rightarrow> key_binding option) \<times> (ptr \<Rightarrow> gesture_binding option)" where
  "bindings_server_destroy s =
     (key_heap (fold kywc_key_binding_destroy (concat (keysyms_binding s)) s),
      fold (\<lambda>p h. h(p := None)) (gesture_bindings s) (gesture_heap s))"

end
