(* ===== verification/Gestures.thy ===== *)
theory Gestures
  imports Bindings
begin

section \<open>Gestures (\<^verbatim>\<open>input/binding.c\<close>, \<^verbatim>\<open>input/gesture.c\<close>)\<close>

text \<open>
  Gesture bindings and the state machine that follows one gesture. Distances, scale and rotation are real
  numbers: the rounding of \<^verbatim>\<open>double\<close> is not modelled. A timer is the number of milliseconds it was armed
  with, \<^term>\<open>None\<close> when it is not armed. The calls of actions are recorded in the order they happen.
\<close>

subsection \<open>Bit sets\<close>

definition GESTURE_DEVICE_NONE :: u32 where "GESTURE_DEVICE_NONE = 0"
definition GESTURE_DEVICE_TOUCHPAD :: u32 where "GESTURE_DEVICE_TOUCHPAD = 1"
definition GESTURE_DEVICE_TOUCHSCREEN :: u32 where "GESTURE_DEVICE_TOUCHSCREEN = 2"

definition GESTURE_DIRECTION_NONE :: u32 where "GESTURE_DIRECTION_NONE = 0"
definition GESTURE_DIRECTION_UP :: u32 where "GESTURE_DIRECTION_UP = 1"
definition GESTURE_DIRECTION_DOWN :: u32 where "GESTURE_DIRECTION_DOWN = 2"
definition GESTURE_DIRECTION_LEFT :: u32 where "GESTURE_DIRECTION_LEFT = 4"
definition GESTURE_DIRECTION_RIGHT :: u32 where "GESTURE_DIRECTION_RIGHT = 8"
definition GESTURE_DIRECTION_INWARD :: u32 where "GESTURE_DIRECTION_INWARD = 16"
definition GESTURE_DIRECTION_OUTWARD :: u32 where "GESTURE_DIRECTION_OUTWARD = 32"
definition GESTURE_DIRECTION_CLOCKWISE :: u32 where "GESTURE_DIRECTION_CLOCKWISE = 64"
definition GESTURE_DIRECTION_COUNTERCLOCKWISE :: u32 where "GESTURE_DIRECTION_COUNTERCLOCKWISE = 128"

definition GESTURE_EDGE_NONE :: u32 where "GESTURE_EDGE_NONE = 0"
definition GESTURE_EDGE_TOP :: u32 where "GESTURE_EDGE_TOP = 1"
definition GESTURE_EDGE_BOTTOM :: u32 where "GESTURE_EDGE_BOTTOM = 2"
definition GESTURE_EDGE_LEFT :: u32 where "GESTURE_EDGE_LEFT = 4"
definition GESTURE_EDGE_RIGHT :: u32 where "GESTURE_EDGE_RIGHT = 8"

lemmas gesture_bits = GESTURE_DEVICE_NONE_def GESTURE_DEVICE_TOUCHPAD_def GESTURE_DEVICE_TOUCHSCREEN_def
  GESTURE_DIRECTION_NONE_def GESTURE_DIRECTION_UP_def GESTURE_DIRECTION_DOWN_def GESTURE_DIRECTION_LEFT_def
  GESTURE_DIRECTION_RIGHT_def GESTURE_DIRECTION_INWARD_def GESTURE_DIRECTION_OUTWARD_def
  GESTURE_DIRECTION_CLOCKWISE_def GESTURE_DIRECTION_COUNTERCLOCKWISE_def
  GESTURE_EDGE_NONE_def GESTURE_EDGE_TOP_def GESTURE_EDGE_BOTTOM_def GESTURE_EDGE_LEFT_def GESTURE_EDGE_RIGHT_def

subsection \<open>Parsing\<close>

definition direction_of :: "string \<Rightarrow> u32" where
  "direction_of t =
     (if t = ''none'' then GESTURE_DIRECTION_NONE
      else if t = ''up'' then GESTURE_DIRECTION_UP
      else if t = ''down'' then GESTURE_DIRECTION_DOWN
      else if t = ''left'' then GESTURE_DIRECTION_LEFT
      else if t = ''right'' then GESTURE_DIRECTION_RIGHT
      else if t = ''inward'' then GESTURE_DIRECTION_INWARD
      else if t = ''outward'' then GESTURE_DIRECTION_OUTWARD
      else if t = ''clockwise'' then GESTURE_DIRECTION_CLOCKWISE
      else if t = ''counterclockwise'' then GESTURE_DIRECTION_COUNTERCLOCKWISE
      else 0)"

definition gesture_string_parse_directions :: "string \<Rightarrow> u32 option" where
  "gesture_string_parse_directions str = do {
     let split = string_split str ''+'';
     let directions = fold (\<lambda>t d. d OR direction_of t) (map snd split) GESTURE_DIRECTION_NONE;
     string_free_split split;
     Some directions}"

definition edge_of :: "string \<Rightarrow> u32" where
  "edge_of t =
     (if t = ''none'' then GESTURE_EDGE_NONE
      else if t = ''top'' then GESTURE_EDGE_TOP
      else if t = ''bottom'' then GESTURE_EDGE_BOTTOM
      else if t = ''left'' then GESTURE_EDGE_LEFT
      else if t = ''right'' then GESTURE_EDGE_RIGHT
      else 0)"

definition gesture_string_parse_edges :: "string \<Rightarrow> u32 option" where
  "gesture_string_parse_edges str = do {
     let split = string_split str ''+'';
     let edges = fold (\<lambda>t e. e OR edge_of t) (map snd split) GESTURE_EDGE_NONE;
     string_free_split split;
     Some edges}"

definition is_digit :: "char \<Rightarrow> bool" where
  "is_digit c \<longleftrightarrow> 48 \<le> (of_char c :: nat) \<and> (of_char c :: nat) \<le> 57"

text \<open>\<^verbatim>\<open>atoi\<close> on a string that starts with a digit. Beyond the range of \<^verbatim>\<open>int\<close> the C function is
  undefined; the model goes on.\<close>

definition atoi :: "string \<Rightarrow> nat" where
  "atoi s = fold (\<lambda>c n. n * 10 + (of_char c - 48)) (takeWhile is_digit s) 0"

definition gesture_checked :: "gesture_type \<Rightarrow> u32 \<Rightarrow> u32 \<Rightarrow> u32 \<Rightarrow> u8 \<Rightarrow> bool" where
  "gesture_checked type devices directions edges fingers =
     (if type = GESTURE_TYPE_NONE \<or> devices = GESTURE_DEVICE_NONE \<or> fingers = 0 then False
      else if type = GESTURE_TYPE_PINCH \<and> fingers < 2 then False
      else if (type = GESTURE_TYPE_PINCH \<or> devices AND GESTURE_DEVICE_TOUCHPAD \<noteq> 0) \<and> edges \<noteq> GESTURE_EDGE_NONE then False
      else if type = GESTURE_TYPE_SWIPE \<and> devices AND GESTURE_DEVICE_TOUCHPAD \<noteq> 0 \<and> fingers = 1 then False
      else if type = GESTURE_TYPE_SWIPE \<and> edges = GESTURE_EDGE_NONE \<and> fingers = 1 then False
      else if edges \<noteq> GESTURE_EDGE_NONE \<and>
        (directions AND GESTURE_DIRECTION_LEFT \<noteq> 0 \<and> edges AND GESTURE_EDGE_RIGHT = 0 \<or>
         directions AND GESTURE_DIRECTION_RIGHT \<noteq> 0 \<and> edges AND GESTURE_EDGE_LEFT = 0 \<or>
         directions AND GESTURE_DIRECTION_UP \<noteq> 0 \<and> edges AND GESTURE_EDGE_BOTTOM = 0 \<or>
         directions AND GESTURE_DIRECTION_DOWN \<noteq> 0 \<and> edges AND GESTURE_EDGE_TOP = 0) then False
      else True)"

definition kywc_gesture_binding_create ::
  "ptr \<Rightarrow> gesture_type \<Rightarrow> gesture_stage \<Rightarrow> u32 \<Rightarrow> u32 \<Rightarrow> u32 \<Rightarrow> u8 \<Rightarrow> u32 \<Rightarrow> real \<Rightarrow> string option \<Rightarrow> bindings \<Rightarrow>
   ptr \<times> bindings" where
  "kywc_gesture_binding_create new type stage devices directions edges fingers follow_direction follow_threshold desc s =
     (if \<not> gesture_checked type devices directions edges fingers then (NULL, s)
      else if new = NULL then (NULL, s)
      else (new, s\<lparr>gesture_heap := (gesture_heap s)(new \<mapsto> \<lparr>gb_type = type, gb_stage = stage, gb_fingers = fingers,
        gb_devices = devices, gb_directions = directions, gb_follow_direction = follow_direction, gb_edges = edges,
        gb_follow_threshold = (if follow_threshold > 0 then follow_threshold else 0), gb_desc = desc, gb_action = None,
        gb_data = NULL\<rparr>)\<rparr>))"

text \<open>The fields of a binding written \<open>type:device:fingers:directions[:edges][:stage][:threshold][:direction]\<close>.
  The outer \<^term>\<open>None\<close> is undefined behaviour, the inner one a rejected string; \<open>atof\<close> is an argument.\<close>

definition parse_gesture :: "(string \<Rightarrow> real) \<Rightarrow> string \<Rightarrow>
    (gesture_type \<times> gesture_stage \<times> u32 \<times> u32 \<times> u32 \<times> u8 \<times> u32 \<times> real) option option" where
  "parse_gesture atof gestures = do {
     let split = string_split gestures '':'';
     let tok = (\<lambda>i. snd (split ! i));
     let len = length split;
     let err = do { string_free_split split; Some None };
     if len \<noteq> 4 \<and> len \<noteq> 5 \<and> len \<noteq> 6 \<and> len \<noteq> 7 \<and> len \<noteq> 8 then err
     else case (if tok 0 = ''hold'' then Some GESTURE_TYPE_HOLD else if tok 0 = ''pinch'' then Some GESTURE_TYPE_PINCH
                else if tok 0 = ''swipe'' then Some GESTURE_TYPE_SWIPE else None) of
       None \<Rightarrow> err
     | Some type \<Rightarrow>
       (case (if tok 1 = ''any'' then Some (GESTURE_DEVICE_TOUCHPAD OR GESTURE_DEVICE_TOUCHSCREEN)
              else if tok 1 = ''touch'' then Some GESTURE_DEVICE_TOUCHSCREEN
              else if tok 1 = ''touchpad'' then Some GESTURE_DEVICE_TOUCHPAD else None) of
         None \<Rightarrow> err
       | Some devices \<Rightarrow>
         if \<not> (49 \<le> (of_char (hd (tok 2)) :: nat) \<and> (of_char (hd (tok 2)) :: nat) \<le> 57) then err
         else do {
           let fingers = (word_of_nat (atoi (tok 2)) :: u8);
           directions \<leftarrow> gesture_string_parse_directions (tok 3);
           follow_direction \<leftarrow> (if len = 8 then gesture_string_parse_directions (tok 7) else Some GESTURE_DIRECTION_NONE);
           let follow_threshold = (if len \<ge> 7 then atof (tok 6) else 0);
           case (if len < 6 \<or> tok 5 = ''trigger'' then Some GESTURE_STAGE_TRIGGER
                 else if tok 5 = ''before'' then Some GESTURE_STAGE_BEFORE
                 else if tok 5 = ''after'' then Some GESTURE_STAGE_AFTER
                 else if tok 5 = ''stop'' then Some GESTURE_STAGE_STOP else None) of
             None \<Rightarrow> err
           | Some stage \<Rightarrow> do {
               edges \<leftarrow> (if len \<ge> 5 then gesture_string_parse_edges (tok 4) else Some GESTURE_EDGE_NONE);
               string_free_split split;
               Some (Some (type, stage, devices, directions, edges, fingers, follow_direction, follow_threshold))}})}"

definition kywc_gesture_binding_create_by_string ::
  "(string \<Rightarrow> real) \<Rightarrow> ptr \<Rightarrow> string \<Rightarrow> string option \<Rightarrow> bindings \<Rightarrow> (ptr \<times> bindings) option" where
  "kywc_gesture_binding_create_by_string atof new gestures desc s = do {
     r \<leftarrow> parse_gesture atof gestures;
     case r of None \<Rightarrow> Some (NULL, s)
     | Some (type, stage, devices, directions, edges, fingers, follow_direction, follow_threshold) \<Rightarrow>
         Some (kywc_gesture_binding_create new type stage devices directions edges fingers follow_direction
           follow_threshold desc s)}"

subsection \<open>Registration\<close>

definition kywc_gesture_binding_destroy :: "ptr \<Rightarrow> bindings \<Rightarrow> bindings" where
  "kywc_gesture_binding_destroy p s = s\<lparr>gesture_bindings := filter (\<lambda>q. q \<noteq> p) (gesture_bindings s),
     gesture_heap := (gesture_heap s)(p := None)\<rparr>"

text \<open>Whether a registered binding stands in the way; the edges are passed in eight bits.\<close>

definition gesture_conflict ::
  "gesture_binding \<Rightarrow> gesture_type \<Rightarrow> gesture_stage \<Rightarrow> u32 \<Rightarrow> u32 \<Rightarrow> u32 \<Rightarrow> u8 \<Rightarrow> u8 \<Rightarrow> bool" where
  "gesture_conflict b type stage devices directions follow_direction fingers edges \<longleftrightarrow>
     gb_type b = type \<and> gb_devices b AND devices \<noteq> 0 \<and> gb_stage b = stage \<and>
     (GESTURE_DIRECTION_NONE = gb_directions b \<or> gb_directions b AND directions \<noteq> 0) \<and>
     (GESTURE_EDGE_NONE = gb_edges b \<or> ucast edges AND gb_edges b \<noteq> 0) \<and>
     gb_fingers b = fingers \<and> gb_follow_direction b = follow_direction"

fun gesture_valid_loop :: "bindings \<Rightarrow> ptr \<Rightarrow> gesture_binding \<Rightarrow> ptr list \<Rightarrow> bool option" where
  "gesture_valid_loop s p b [] = Some True"
| "gesture_valid_loop s p b (q # qs) =
     (if q = p then gesture_valid_loop s p b qs
      else do {
        c \<leftarrow> gesture_heap s q;
        if gesture_conflict c (gb_type b) (gb_stage b) (gb_devices b) (gb_directions b) (gb_follow_direction b)
             (gb_fingers b) (ucast (gb_edges b))
        then Some False else gesture_valid_loop s p b qs})"

definition gesture_binding_is_valid :: "bindings \<Rightarrow> ptr \<Rightarrow> gesture_binding \<Rightarrow> bool option" where
  "gesture_binding_is_valid s p b = gesture_valid_loop s p b (gesture_bindings s)"

definition kywc_gesture_binding_register :: "ptr \<Rightarrow> nat option \<Rightarrow> ptr \<Rightarrow> bindings \<Rightarrow> (bool \<times> bindings) option" where
  "kywc_gesture_binding_register p action data s = do {
     b \<leftarrow> gesture_heap s p;
     if p \<in> set (gesture_bindings s) then Some (True, s)
     else do {
       valid \<leftarrow> gesture_binding_is_valid s p b;
       if \<not> valid then Some (False, s)
       else Some (True, s\<lparr>gesture_bindings := p # gesture_bindings s,
              gesture_heap := (gesture_heap s)(p \<mapsto> b\<lparr>gb_action := action, gb_data := data\<rparr>)\<rparr>)}}"

subsection \<open>The state of a gesture\<close>

record gesture_state =
  g_type :: gesture_type
  g_stage :: gesture_stage
  g_device :: u32
  g_edge :: u32
  g_fingers :: u8
  g_directions :: u32
  g_follow_direction :: u32
  g_dx :: real
  g_dy :: real
  g_follow_dx :: real
  g_follow_dy :: real
  g_scale :: real
  g_rotation :: real
  g_triggered :: bool
  g_handled :: bool
  g_timer :: "nat option option"

text \<open>The conditions of the loop of \<^verbatim>\<open>bindings_handle_gesture_binding\<close> that lead to the action.\<close>

definition gesture_binding_fires :: "gesture_state \<Rightarrow> gesture_binding \<Rightarrow> bool" where
  "gesture_binding_fires g b \<longleftrightarrow>
     (if g_type g \<noteq> gb_type b then False
      else if g_fingers g \<noteq> gb_fingers b then False
      else if g_stage g \<noteq> gb_stage b then False
      else if (g_stage g = GESTURE_STAGE_BEFORE \<or> g_stage g = GESTURE_STAGE_AFTER) \<and>
        (g_follow_direction g \<noteq> gb_follow_direction b \<or>
         g_follow_dx g > - gb_follow_threshold b \<and> g_follow_dx g < gb_follow_threshold b \<and>
         g_follow_dy g > - gb_follow_threshold b \<and> g_follow_dy g < gb_follow_threshold b) then False
      else g_device g AND gb_devices b \<noteq> 0 \<and>
        (gb_directions b = GESTURE_DIRECTION_NONE \<or> gb_stage b = GESTURE_STAGE_BEFORE \<or>
         g_directions g AND gb_directions b \<noteq> 0) \<and>
        (gb_edges b = GESTURE_EDGE_NONE \<or> g_edge g AND gb_edges b \<noteq> 0))"

fun find_gesture :: "gesture_state \<Rightarrow> bindings \<Rightarrow> ptr list \<Rightarrow> ptr option option" where
  "find_gesture g s [] = Some None"
| "find_gesture g s (q # qs) = do {
     b \<leftarrow> gesture_heap s q;
     if gesture_binding_fires g b then Some (Some q) else find_gesture g s qs}"

text \<open>The state around the gestures: the bindings, the lock and the actions called so far, each with its
  stage and the distances passed to it.\<close>

record gesture_world =
  gw_bindings :: bindings
  gw_locked :: bool
  gw_calls :: "(nat \<times> ptr \<times> gesture_stage \<times> real \<times> real) list"

type_synonym run_gesture = "nat \<Rightarrow> ptr \<Rightarrow> real \<Rightarrow> real \<Rightarrow> bindings \<Rightarrow> bindings"

definition bindings_handle_gesture_binding ::
  "run_gesture \<Rightarrow> gesture_state \<Rightarrow> gesture_world \<Rightarrow> (bool \<times> gesture_world) option" where
  "bindings_handle_gesture_binding run g w =
     (if gw_locked w then Some (False, w)
      else do {
        r \<leftarrow> find_gesture g (gw_bindings w) (gesture_bindings (gw_bindings w));
        case r of
          None \<Rightarrow> Some (False, w)
        | Some p \<Rightarrow> do {
            b \<leftarrow> gesture_heap (gw_bindings w) p;
            case gb_action b of
              None \<Rightarrow> Some (True, w)
            | Some f \<Rightarrow> Some (True, w\<lparr>gw_bindings := run f p (g_dx g) (g_dy g) (gw_bindings w),
                gw_calls := gw_calls w @ [(f, p, g_stage g, g_dx g, g_dy g)]\<rparr>)}})"

definition timer_update :: "nat \<Rightarrow> gesture_state \<Rightarrow> gesture_state" where
  "timer_update ms g = (case g_timer g of None \<Rightarrow> g | Some _ \<Rightarrow> g\<lparr>g_timer := Some (if ms = 0 then None else Some ms)\<rparr>)"

definition gesture_state_reset :: "gesture_state \<Rightarrow> gesture_state" where
  "gesture_state_reset g =
     timer_update 0 (g\<lparr>g_type := GESTURE_TYPE_NONE, g_stage := GESTURE_STAGE_NONE, g_device := GESTURE_DEVICE_NONE,
       g_directions := GESTURE_DIRECTION_NONE, g_follow_direction := GESTURE_DIRECTION_NONE, g_edge := GESTURE_EDGE_NONE,
       g_triggered := False, g_handled := False\<rparr>)"

definition pinch_directions :: "gesture_state \<Rightarrow> u32" where
  "pinch_directions g =
     (let d = g_directions g;
          d = (if g_rotation g > 5 then d OR GESTURE_DIRECTION_CLOCKWISE else d);
          d = (if g_rotation g < - 5 then d OR GESTURE_DIRECTION_COUNTERCLOCKWISE else d);
          d = (if g_scale g > 1 + 1 / 10 then d OR GESTURE_DIRECTION_OUTWARD else d)
      in if g_scale g < 1 - 1 / 10 then d OR GESTURE_DIRECTION_INWARD else d)"

definition main_direction :: "real \<Rightarrow> real \<Rightarrow> u32" where
  "main_direction dx dy =
     (if \<bar>dx\<bar> > \<bar>dy\<bar> then (if dx > 0 then GESTURE_DIRECTION_RIGHT else GESTURE_DIRECTION_LEFT)
      else (if dy > 0 then GESTURE_DIRECTION_DOWN else GESTURE_DIRECTION_UP))"

text \<open>The assertion on \<^const>\<open>GESTURE_TYPE_NONE\<close> is one on a string literal and holds.\<close>

definition gesture_state_trigger :: "run_gesture \<Rightarrow> gesture_state \<Rightarrow> gesture_world \<Rightarrow> (gesture_state \<times> gesture_world) option" where
  "gesture_state_trigger run g w = do {
     let directions =
       (case g_type g of
          GESTURE_TYPE_PINCH \<Rightarrow> pinch_directions g OR main_direction (g_dx g) (g_dy g)
        | GESTURE_TYPE_SWIPE \<Rightarrow> g_directions g OR main_direction (g_dx g) (g_dy g)
        | GESTURE_TYPE_HOLD \<Rightarrow> g_directions g
        | GESTURE_TYPE_NONE \<Rightarrow> g_directions g);
     let g = g\<lparr>g_directions := directions, g_triggered := True, g_stage := GESTURE_STAGE_TRIGGER, g_follow_dx := 0,
       g_follow_dy := 0, g_follow_direction := GESTURE_DIRECTION_NONE\<rparr>;
     (handled, w) \<leftarrow> bindings_handle_gesture_binding run g w;
     Some (g\<lparr>g_handled := handled\<rparr>, w)}"

definition gesture_state_follow ::
  "run_gesture \<Rightarrow> gesture_state \<Rightarrow> real \<Rightarrow> real \<Rightarrow> bool \<Rightarrow> gesture_world \<Rightarrow> (gesture_state \<times> gesture_world) option" where
  "gesture_state_follow run g dx dy before_triggered w =
     (if g_type g \<noteq> GESTURE_TYPE_SWIPE then Some (g, w)
      else do {
        let g = g\<lparr>g_follow_dx := g_follow_dx g + dx, g_follow_dy := g_follow_dy g + dy,
          g_follow_direction := main_direction dx dy,
          g_stage := (if before_triggered then GESTURE_STAGE_BEFORE else GESTURE_STAGE_AFTER)\<rparr>;
        (handled, w) \<leftarrow> bindings_handle_gesture_binding run g w;
        let g = g\<lparr>g_handled := handled\<rparr>;
        Some (if handled then g\<lparr>g_follow_dx := 0, g_follow_dy := 0\<rparr> else g, w)})"

definition gesture_state_stop :: "run_gesture \<Rightarrow> gesture_state \<Rightarrow> gesture_world \<Rightarrow> (gesture_state \<times> gesture_world) option" where
  "gesture_state_stop run g w =
     (if g_type g \<noteq> GESTURE_TYPE_SWIPE then Some (g, w)
      else do {
        let g = g\<lparr>g_stage := GESTURE_STAGE_STOP\<rparr>;
        (handled, w) \<leftarrow> bindings_handle_gesture_binding run g w;
        Some (g\<lparr>g_handled := handled\<rparr>, w)})"

text \<open>The timer fires once and is then not armed.\<close>

definition gesture_handle_timer :: "run_gesture \<Rightarrow> gesture_state \<Rightarrow> gesture_world \<Rightarrow> (gesture_state \<times> gesture_world) option" where
  "gesture_handle_timer run g w = gesture_state_trigger run (timer_update 0 g) w"

definition over_threshold :: "gesture_state \<Rightarrow> bool" where
  "over_threshold g \<longleftrightarrow>
     g_device g = GESTURE_DEVICE_TOUCHSCREEN \<and>
       (g_dx g < - (15 / 100) \<or> g_dx g > 15 / 100 \<or> g_dy g < - (15 / 100) \<or> g_dy g > 15 / 100) \<or>
     g_device g = GESTURE_DEVICE_TOUCHPAD \<and> (g_dx g < - 50 \<or> g_dx g > 50 \<or> g_dy g < - 50 \<or> g_dy g > 50)"

definition gesture_swipe_state_update ::
  "run_gesture \<Rightarrow> gesture_state \<Rightarrow> real \<Rightarrow> real \<Rightarrow> gesture_world \<Rightarrow> (gesture_state \<times> gesture_world) option" where
  "gesture_swipe_state_update run g dx dy w =
     (let g = g\<lparr>g_dx := g_dx g + dx, g_dy := g_dy g + dy\<rparr> in
      if \<not> g_triggered g then
        if over_threshold g then gesture_state_trigger run g w else gesture_state_follow run g dx dy True w
      else gesture_state_follow run g dx dy False w)"

definition gesture_state_init :: "gesture_state \<Rightarrow> bool \<Rightarrow> gesture_state" where
  "gesture_state_init g timer_created = gesture_state_reset (g\<lparr>g_timer := (if timer_created then Some None else None)\<rparr>)"

definition gesture_state_begin :: "gesture_type \<Rightarrow> u32 \<Rightarrow> u32 \<Rightarrow> u8 \<Rightarrow> gesture_state \<Rightarrow> gesture_state" where
  "gesture_state_begin type device edge fingers g =
     (let g = g\<lparr>g_type := type, g_device := device, g_fingers := fingers, g_dx := 0, g_dy := 0, g_scale := 1,
            g_rotation := 0, g_edge := edge\<rparr>
      in if g_type g \<noteq> GESTURE_TYPE_SWIPE then
           timer_update (if g_device g = GESTURE_DEVICE_TOUCHPAD then 20
             else if g_type g = GESTURE_TYPE_HOLD \<and> g_device g = GESTURE_DEVICE_TOUCHSCREEN then 800 else 200) g
         else g)"

definition gesture_state_update ::
  "run_gesture \<Rightarrow> gesture_type \<Rightarrow> u32 \<Rightarrow> real \<Rightarrow> real \<Rightarrow> real \<Rightarrow> real \<Rightarrow> gesture_state \<Rightarrow> gesture_world \<Rightarrow>
   (gesture_state \<times> gesture_world) option" where
  "gesture_state_update run type device dx dy scale rotation g w =
     (if g_type g \<noteq> type \<or> g_device g \<noteq> device then Some (g, w)
      else if g_type g = GESTURE_TYPE_HOLD then Some (g, w)
      else if g_type g = GESTURE_TYPE_PINCH then
        Some (g\<lparr>g_dx := g_dx g + dx, g_dy := g_dy g + dy, g_scale := scale, g_rotation := g_rotation g + rotation\<rparr>, w)
      else if g_type g = GESTURE_TYPE_SWIPE then gesture_swipe_state_update run g dx dy w
      else Some (g, w))"

definition gesture_state_end ::
  "run_gesture \<Rightarrow> gesture_type \<Rightarrow> u32 \<Rightarrow> bool \<Rightarrow> gesture_state \<Rightarrow> gesture_world \<Rightarrow>
   (bool \<times> gesture_state \<times> gesture_world) option" where
  "gesture_state_end run type device cancelled g w =
     (if g_type g \<noteq> type \<or> g_device g \<noteq> device then Some (False, g, w)
      else if cancelled then do {
        (g, w) \<leftarrow> gesture_state_stop run g w;
        Some (False, gesture_state_reset g, w)}
      else do {
        (g, w) \<leftarrow> (if \<not> g_triggered g \<and> g_type g \<noteq> GESTURE_TYPE_HOLD then gesture_state_trigger run g w else Some (g, w));
        let handled = g_handled g;
        (g, w) \<leftarrow> gesture_state_stop run g w;
        Some (handled, gesture_state_reset g, w)})"

end
