(* ===== verification/BindingProofs.thy ===== *)
theory BindingProofs
  imports Gestures
begin

section \<open>What the bindings guarantee\<close>

text \<open>
  The invariant of the registered key bindings over every sequence of operations, which binding a key runs,
  and the strings a binding is written as.
\<close>

subsection \<open>The invariant\<close>

definition registered :: "bindings \<Rightarrow> ptr set" where
  "registered s = set (concat (keysyms_binding s))"

lemma is_registered [simp]: "kywc_key_binding_is_registered s p \<longleftrightarrow> p \<in> registered s"
  by (simp add: kywc_key_binding_is_registered_def registered_def)

definition lists_ok :: "bindings \<Rightarrow> bool" where
  "lists_ok s \<longleftrightarrow> length (keysyms_binding s) = NUM_TYPES \<and> length (type_nlocks s) = NUM_TYPES \<and>
     distinct (concat (keysyms_binding s)) \<and> (\<forall>p \<in> registered s. key_heap s p \<noteq> None)"

definition same_keys :: "key_binding \<Rightarrow> key_binding \<Rightarrow> bool" where
  "same_keys a b \<longleftrightarrow> kb_modifiers a = kb_modifiers b \<and> kb_keysym a = kb_keysym b"

definition unique_ok :: "bindings \<Rightarrow> bool" where
  "unique_ok s \<longleftrightarrow> (\<forall>p \<in> registered s. \<forall>q \<in> registered s. p \<noteq> q \<longrightarrow>
     \<not> same_keys (the (key_heap s p)) (the (key_heap s q)))"

definition masks_ok :: "bindings \<Rightarrow> bool" where
  "masks_ok s \<longleftrightarrow> (\<forall>i < NUM_TYPES.
     (bit (keysyms_binding_masks s) i \<longrightarrow> type_nlocks s ! i = 0) \<and>
     (type_nlocks s ! i = 0 \<and> keysyms_binding s ! i \<noteq> [] \<longrightarrow> bit (keysyms_binding_masks s) i))"

lemma masks_okD:
  "masks_ok s \<Longrightarrow> i < NUM_TYPES \<Longrightarrow> (bit (keysyms_binding_masks s) i \<longrightarrow> type_nlocks s ! i = 0) \<and>
     (type_nlocks s ! i = 0 \<and> keysyms_binding s ! i \<noteq> [] \<longrightarrow> bit (keysyms_binding_masks s) i)"
  unfolding masks_ok_def by blast

lemma masks_okI:
  "(\<And>i. i < NUM_TYPES \<Longrightarrow> (bit (keysyms_binding_masks s) i \<longrightarrow> type_nlocks s ! i = 0) \<and>
     (type_nlocks s ! i = 0 \<and> keysyms_binding s ! i \<noteq> [] \<longrightarrow> bit (keysyms_binding_masks s) i)) \<Longrightarrow> masks_ok s"
  unfolding masks_ok_def by blast

definition binds_ok :: "bindings \<Rightarrow> bool" where
  "binds_ok s \<longleftrightarrow> lists_ok s \<and> unique_ok s \<and> masks_ok s"

lemma xor_zero_iff [simp]: "a XOR b = 0 \<longleftrightarrow> a = (b :: u32)"
  by (metis xor.right_neutral xor.assoc xor_self_eq)

lemma concat_update:
  "i < length xss \<Longrightarrow> set (concat (xss[i := x # xss ! i])) = insert x (set (concat xss))"
  "i < length xss \<Longrightarrow> distinct (concat xss) \<Longrightarrow> x \<notin> set (concat xss) \<Longrightarrow> distinct (concat (xss[i := x # xss ! i]))"
proof (induction xss arbitrary: i)
  case (Cons xs xss)
  case 1 then show ?case using Cons(1) by (cases i) auto
  case 2 then show ?case using Cons by (cases i) auto
qed simp_all

lemma filter_concat_map: "concat (map (filter P) xss) = filter P (concat xss)"
  by (induction xss) simp_all

lemma valid_loop_all:
  "\<forall>q \<in> set l. key_heap s q \<noteq> None \<Longrightarrow>
   valid_loop s p k m l = Some (\<forall>q \<in> set l. q \<noteq> p \<longrightarrow> \<not> (kb_modifiers (the (key_heap s q)) = m \<and> kb_keysym (the (key_heap s q)) = k))"
  by (induction l) (auto split: bind_splits)

lemma valid_all:
  "lists_ok s \<Longrightarrow> key_binding_is_valid s p k m =
    Some (\<forall>q \<in> registered s. q \<noteq> p \<longrightarrow> \<not> (kb_modifiers (the (key_heap s q)) = m \<and> kb_keysym (the (key_heap s q)) = k))"
  unfolding key_binding_is_valid_def registered_def
  by (rule valid_loop_all) (simp add: lists_ok_def registered_def)

lemma same_keys_sym: "same_keys a b \<Longrightarrow> same_keys b a"
  by (simp add: same_keys_def)

lemma unique_ok_set:
  assumes "unique_ok s" and "registered s' \<subseteq> insert p (registered s)" and "key_heap s' = (key_heap s)(p \<mapsto> b)"
    and "\<forall>q \<in> registered s. p \<in> registered s' \<and> q \<noteq> p \<longrightarrow> \<not> same_keys (the (key_heap s q)) b"
  shows "unique_ok s'"
  unfolding unique_ok_def
proof (intro ballI impI notI)
  fix q r assume h: "q \<in> registered s'" "r \<in> registered s'" "q \<noteq> r"
    "same_keys (the (key_heap s' q)) (the (key_heap s' r))"
  show False
  proof (cases "q = p \<or> r = p")
    case True
    have np: "\<not> same_keys (the (key_heap s y)) b" if "y \<in> registered s'" "y \<noteq> p" "p \<in> registered s'" for y
      using that assms(2,4) by blast
    from True show False
    proof
      assume "q = p"
      then show False using np [of r] same_keys_sym [OF h(4)] h(1-3) assms(3) by simp
    next
      assume "r = p"
      then show False using np [of q] h assms(3) by simp
    qed
  next
    case False
    then show False using h assms(1-3) unfolding unique_ok_def by auto
  qed
qed

lemma registered_frame [simp]:
  "registered (s\<lparr>key_heap := h\<rparr>) = registered s" "registered (s\<lparr>keysyms_binding_masks := m\<rparr>) = registered s"
  "registered (s\<lparr>type_nlocks := n\<rparr>) = registered s" "registered (s\<lparr>keysym_bindings_block := k\<rparr>) = registered s"
  "registered (s\<lparr>gesture_bindings := l\<rparr>) = registered s" "registered (s\<lparr>gesture_heap := g\<rparr>) = registered s"
  by (simp_all add: registered_def)

lemma registered_unlink [simp]: "registered (unlink_key p s) = registered s - {p}"
  by (auto simp: registered_def unlink_key_def filter_concat_map simp del: set_concat)

lemma binds_ok_create [simp]: "binds_ok bindings_create"
  by (simp add: binds_ok_def lists_ok_def unique_ok_def masks_ok_def bindings_create_def registered_def)

lemma binds_ok_new:
  assumes "binds_ok s" and "key_heap s p = None"
  shows "binds_ok (s\<lparr>key_heap := (key_heap s)(p \<mapsto> b)\<rparr>)"
proof -
  have "p \<notin> registered s" using assms unfolding binds_ok_def lists_ok_def by blast
  then show ?thesis using assms(1) by (auto simp: binds_ok_def lists_ok_def unique_ok_def masks_ok_def)
qed

lemma bit_set_mask: "t < 32 \<Longrightarrow> bit (m OR 2 ^ t :: u32) i \<longleftrightarrow> bit m i \<or> i = t"
  by (auto simp: bit_or_iff bit_exp_iff)

lemma bit_clear_mask: "t < 32 \<Longrightarrow> bit (m AND NOT (2 ^ t) :: u32) i \<longleftrightarrow> bit m i \<and> i \<noteq> t"
  by (auto simp: bit_and_iff bit_not_iff bit_exp_iff dest: bit_imp_le_length)

lemma binds_ok_register:
  assumes ok: "binds_ok s" and r: "kywc_key_binding_register p type action data s = Some (res, s')"
  shows "binds_ok s'"
proof -
  obtain b where b: "key_heap s p = Some b" using r by (auto simp: kywc_key_binding_register_def bind_eq_Some_conv)
  show ?thesis
  proof (cases "p \<in> registered s \<or> key_binding_is_valid s p (kb_keysym b) (kb_modifiers b) = Some False")
    case True
    then show ?thesis
      using r b ok by (auto simp: kywc_key_binding_register_def bind_eq_Some_conv
          split: if_splits)
  next
    case False
    let ?t = "type_no type"
    have lo: "lists_ok s" using ok by (simp add: binds_ok_def)
    have v: "key_binding_is_valid s p (kb_keysym b) (kb_modifiers b) = Some True"
      using False valid_all [OF lo] by auto
    have t: "?t < NUM_TYPES"
      using r b v False by (auto simp: kywc_key_binding_register_def split: if_splits)
    define b' where "b' = (let b = (if action \<noteq> None then b\<lparr>kb_action := action\<rparr> else b)
      in if data \<noteq> NULL then b\<lparr>kb_data := data\<rparr> else b)"
    have b': "same_keys b b'" by (simp add: b'_def same_keys_def Let_def)
    have s': "s' = s\<lparr>keysyms_binding := (keysyms_binding s)[?t := p # keysyms_binding s ! ?t],
        keysyms_binding_masks := (if type_nlocks s ! ?t = 0 then keysyms_binding_masks s OR push_bit ?t 1 else keysyms_binding_masks s),
        key_heap := (key_heap s)(p \<mapsto> b')\<rparr>"
      using r b v t False
      by (auto simp: kywc_key_binding_register_def Let_def b'_def split: if_splits)
    have reg: "registered s' = insert p (registered s)"
      using concat_update(1) [of ?t "keysyms_binding s" p] t lo by (simp add: s' lists_ok_def registered_def)
    have "lists_ok s'"
      using concat_update(2) [of ?t "keysyms_binding s" p] reg t lo False b
      by (auto simp: s' lists_ok_def registered_def simp del: set_concat)
    moreover have "unique_ok s'"
    proof (rule unique_ok_set [of s s' p b'])
      show "unique_ok s" using ok by (simp add: binds_ok_def)
      show "key_heap s' = (key_heap s)(p \<mapsto> b')" by (simp add: s')
      show "\<forall>q \<in> registered s. p \<in> registered s' \<and> q \<noteq> p \<longrightarrow> \<not> same_keys (the (key_heap s q)) b'"
        using v valid_all [OF lo, of p "kb_keysym b" "kb_modifiers b"] b' by (auto simp: same_keys_def)
    qed (simp add: reg)
    moreover have "masks_ok s'"
    proof (rule masks_okI)
      fix i assume i: "i < NUM_TYPES"
      have mo: "masks_ok s" and l: "?t < length (keysyms_binding s)" "?t < 32"
        using ok lo t by (simp_all add: binds_ok_def lists_ok_def NUM_TYPES_def)
      show "(bit (keysyms_binding_masks s') i \<longrightarrow> type_nlocks s' ! i = 0) \<and>
          (type_nlocks s' ! i = 0 \<and> keysyms_binding s' ! i \<noteq> [] \<longrightarrow> bit (keysyms_binding_masks s') i)"
        using masks_okD [OF mo i] l by (cases "i = ?t") (auto simp: s' bit_set_mask)
    qed
    ultimately show ?thesis by (simp add: binds_ok_def)
  qed
qed

lemma binds_ok_update:
  assumes ok: "binds_ok s" and u: "kywc_key_binding_update p k m desc s = Some (res, s')"
  shows "binds_ok s'"
proof -
  have lo: "lists_ok s" using ok by (simp add: binds_ok_def)
  obtain b where b: "key_heap s p = Some b" using u by (auto simp: kywc_key_binding_update_def bind_eq_Some_conv)
  show ?thesis
  proof (cases "s' = s")
    case False
    then have v: "p \<in> registered s \<Longrightarrow> key_binding_is_valid s p k m = Some True"
      using u by (auto simp: kywc_key_binding_update_def bind_eq_Some_conv
          split: if_splits)
    define b' where "b' = (let b = b\<lparr>kb_keysym := k, kb_modifiers := m\<rparr> in if desc \<noteq> None then b\<lparr>kb_desc := desc\<rparr> else b)"
    have b': "kb_modifiers b' = m" "kb_keysym b' = k" by (simp_all add: b'_def Let_def)
    have s': "s' = s\<lparr>key_heap := (key_heap s)(p \<mapsto> b')\<rparr>"
      using u b False
      by (auto simp: kywc_key_binding_update_def bind_eq_Some_conv Let_def b'_def split: if_splits)
    have "unique_ok s'"
    proof (rule unique_ok_set [of s s' p b'])
      show "unique_ok s" using ok by (simp add: binds_ok_def)
      show "\<forall>q \<in> registered s. p \<in> registered s' \<and> q \<noteq> p \<longrightarrow> \<not> same_keys (the (key_heap s q)) b'"
        using v valid_all [OF lo, of p k m] b' by (auto simp: same_keys_def s')
    qed (auto simp: s')
    then show ?thesis using ok by (auto simp: binds_ok_def lists_ok_def masks_ok_def s')
  qed (simp add: ok)
qed

lemma binds_ok_unlink: "binds_ok s \<Longrightarrow> binds_ok (unlink_key p s)"
proof -
  assume ok: "binds_ok s"
  have "concat (keysyms_binding (unlink_key p s)) = filter (\<lambda>q. q \<noteq> p) (concat (keysyms_binding s))"
    by (simp add: unlink_key_def filter_concat_map)
  then have "lists_ok (unlink_key p s)"
    using ok unfolding binds_ok_def lists_ok_def registered_unlink by (simp add: unlink_key_def)
  moreover have "unique_ok (unlink_key p s)"
    using ok unfolding binds_ok_def unique_ok_def registered_unlink by (simp add: unlink_key_def)
  moreover have "masks_ok (unlink_key p s)"
    using ok by (auto simp: binds_ok_def masks_ok_def unlink_key_def lists_ok_def)
  ultimately show ?thesis by (simp add: binds_ok_def)
qed

lemma binds_ok_free: "binds_ok s \<Longrightarrow> p \<notin> registered s \<Longrightarrow> binds_ok (s\<lparr>key_heap := (key_heap s)(p := None)\<rparr>)"
  unfolding binds_ok_def lists_ok_def unique_ok_def masks_ok_def by auto

lemma binds_ok_destroy: "binds_ok s \<Longrightarrow> binds_ok (kywc_key_binding_destroy p s)"
  using binds_ok_free [OF binds_ok_unlink, of s p p]
  by (simp add: kywc_key_binding_destroy_def) (simp add: unlink_key_def)

lemma binds_ok_locks:
  assumes "lists_ok s" "unique_ok s"
  shows "length n = NUM_TYPES \<Longrightarrow> lists_ok (s\<lparr>keysyms_binding_masks := m, type_nlocks := n\<rparr>)"
    "unique_ok (s\<lparr>keysyms_binding_masks := m, type_nlocks := n\<rparr>)"
  using assms by (simp_all add: lists_ok_def unique_ok_def)

lemma binds_ok_block_all: "binds_ok s \<Longrightarrow> kywc_key_binding_block_all block s = Some s' \<Longrightarrow> binds_ok s'"
  by (auto simp: binds_ok_def lists_ok_def unique_ok_def masks_ok_def kywc_key_binding_block_all_def split: if_splits)

lemma binds_ok_block_type:
  assumes ok: "binds_ok s" and b: "kywc_key_binding_block_type t block s = Some s'"
  shows "binds_ok s'"
proof -
  have t: "t < NUM_TYPES" using b by (auto simp: kywc_key_binding_block_type_def split: if_splits)
  then have l: "t < length (type_nlocks s)" "t < 32" using ok by (auto simp: binds_ok_def lists_ok_def NUM_TYPES_def)
  define n where "n = (type_nlocks s)[t := if block then type_nlocks s ! t + 1 else type_nlocks s ! t - 1]"
  define m where "m = (if block then keysyms_binding_masks s AND NOT (2 ^ t)
    else if n ! t = 0 then keysyms_binding_masks s OR 2 ^ t else keysyms_binding_masks s)"
  have s': "s' = s\<lparr>keysyms_binding_masks := m, type_nlocks := n\<rparr>"
    using b t by (auto simp: kywc_key_binding_block_type_def Let_def n_def m_def split: if_splits)
  have pos: "block \<or> type_nlocks s ! t \<noteq> 0"
    using b by (auto simp: kywc_key_binding_block_type_def split: if_splits)
  have mo: "masks_ok s" and "length n = NUM_TYPES"
    using ok by (simp_all add: binds_ok_def lists_ok_def n_def)
  have "(bit m i \<longrightarrow> n ! i = 0) \<and> (n ! i = 0 \<and> keysyms_binding s ! i \<noteq> [] \<longrightarrow> bit m i)" if "i < NUM_TYPES" for i
    using masks_okD [OF mo that] pos l by (cases "i = t") (auto simp: m_def n_def bit_set_mask bit_clear_mask)
  then show ?thesis
    using binds_ok_locks \<open>length n = NUM_TYPES\<close> ok by (simp add: binds_ok_def s' masks_ok_def)
qed

text \<open>The parts the gesture bindings use are apart.\<close>

lemma binds_ok_gestures [simp]:
  "binds_ok (s\<lparr>gesture_bindings := l\<rparr>) = binds_ok s" "binds_ok (s\<lparr>gesture_heap := h\<rparr>) = binds_ok s"
  by (simp_all add: binds_ok_def lists_ok_def unique_ok_def masks_ok_def)

subsection \<open>Sequences of operations\<close>

inductive bind_step :: "xkb \<Rightarrow> bindings \<Rightarrow> bindings \<Rightarrow> bool" for x where
  create: "key_heap s new = None \<Longrightarrow> kywc_key_binding_create x new keybind desc s = Some (p, s') \<Longrightarrow> bind_step x s s'"
| create_by_symbol: "key_heap s new = None \<Longrightarrow> kywc_key_binding_create_by_symbol new k m no_repeat desc s = (p, s') \<Longrightarrow>
    bind_step x s s'"
| "register": "kywc_key_binding_register p type action data s = Some (res, s') \<Longrightarrow> bind_step x s s'"
| update: "kywc_key_binding_update p k m desc s = Some (res, s') \<Longrightarrow> bind_step x s s'"
| "unregister": "bind_step x s (kywc_key_binding_unregister p s)"
| destroy: "bind_step x s (kywc_key_binding_destroy p s)"
| block_all: "kywc_key_binding_block_all block s = Some s' \<Longrightarrow> bind_step x s s'"
| block_type: "kywc_key_binding_block_type t block s = Some s' \<Longrightarrow> bind_step x s s'"
| gesture_create: "kywc_gesture_binding_create new type stage devices directions edges fingers fd th desc s = (p, s') \<Longrightarrow>
    bind_step x s s'"
| gesture_register: "kywc_gesture_binding_register p action data s = Some (res, s') \<Longrightarrow> bind_step x s s'"
| gesture_destroy: "bind_step x s (kywc_gesture_binding_destroy p s)"

lemma bind_step_ok: "bind_step x s s' \<Longrightarrow> binds_ok s \<Longrightarrow> binds_ok s'"
proof (induction rule: bind_step.induct)
  case (create s new keybind desc p s')
  then show ?case by (auto simp: kywc_key_binding_create_def bind_eq_Some_conv split: if_splits intro: binds_ok_new)
next
  case (create_by_symbol s new k m no_repeat desc p s')
  then show ?case by (auto simp: kywc_key_binding_create_by_symbol_def split: if_splits intro: binds_ok_new)
next
  case (gesture_create new type stage devices directions edges fingers fd th desc s p s')
  then show ?case by (auto simp: kywc_gesture_binding_create_def split: if_splits)
next
  case (gesture_register p action data s res s')
  then show ?case by (auto simp: kywc_gesture_binding_register_def bind_eq_Some_conv split: if_splits)
next
  case (gesture_destroy s p)
  then show ?case by (simp add: kywc_gesture_binding_destroy_def)
next
  case (unregister s p)
  then show ?case by (simp add: kywc_key_binding_unregister_def binds_ok_unlink)
qed (blast intro: binds_ok_register binds_ok_update binds_ok_destroy binds_ok_block_all binds_ok_block_type)+

interpretation bind_steps: step_invariant "\<lambda>_. True" bind_step binds_ok
  by unfold_locales (blast intro: bind_step_ok)

lemma bind_reach_ok: "(bind_step x)\<^sup>*\<^sup>* bindings_create s \<Longrightarrow> binds_ok s"
  by (rule bind_steps.steps_keep [OF _ TrueI binds_ok_create])

text \<open>C30: however bindings are created, registered, updated, blocked and destroyed, no two registered key
  bindings have the same modifiers and symbol, every registered binding is allocated, and the mask of a type
  that has bindings is set exactly when nothing blocks the type.\<close>

theorem registered_bindings_unique:
  assumes "(bind_step x)\<^sup>*\<^sup>* bindings_create s"
  shows "(\<forall>p q b c. kywc_key_binding_is_registered s p \<and> kywc_key_binding_is_registered s q \<and> p \<noteq> q \<and>
      key_heap s p = Some b \<and> key_heap s q = Some c \<longrightarrow> (kb_modifiers b, kb_keysym b) \<noteq> (kb_modifiers c, kb_keysym c)) \<and>
    (\<forall>p. kywc_key_binding_is_registered s p \<longrightarrow> key_heap s p \<noteq> None) \<and>
    (\<forall>i < NUM_TYPES. keysyms_binding s ! i \<noteq> [] \<longrightarrow> (bit (keysyms_binding_masks s) i \<longleftrightarrow> type_nlocks s ! i = 0))"
proof -
  have "binds_ok s" by (rule bind_reach_ok [OF assms])
  then show ?thesis
    unfolding binds_ok_def lists_ok_def unique_ok_def masks_ok_def same_keys_def is_registered
    by (metis option.sel prod.inject)
qed

subsection \<open>Which binding a key runs\<close>

lemma find_binding_find:
  "\<forall>p \<in> set l. key_heap s p \<noteq> None \<Longrightarrow> find_binding P s l = Some (find (\<lambda>p. P (the (key_heap s p))) l)"
  by (induction l) auto

lemma find_append: "find P (xs @ ys) = (case find P xs of None \<Rightarrow> find P ys | Some x \<Rightarrow> Some x)"
  by (induction xs) simp_all

text \<open>The bindings of the types whose mask is set, in the order the loops visit them.\<close>

definition enabled :: "bindings \<Rightarrow> nat list \<Rightarrow> ptr list" where
  "enabled s is = concat (map (\<lambda>i. if bit (keysyms_binding_masks s) i then keysyms_binding s ! i else []) is)"

lemma find_type_find:
  assumes "\<forall>i \<in> set is. \<forall>p \<in> set (keysyms_binding s ! i). key_heap s p \<noteq> None"
  shows "find_type P s is = Some (find (\<lambda>p. P (the (key_heap s p))) (enabled s is))"
  using assms
proof (induction "is")
  case (Cons i "is")
  have "keysyms_binding_masks s AND push_bit i 1 = 0 \<longleftrightarrow> \<not> bit (keysyms_binding_masks s) i"
    by (simp add: bit_iff_and_push_bit_not_eq_0)
  then show ?case
    using Cons by (auto simp: enabled_def find_binding_find find_append split: option.split)
qed (simp add: enabled_def)

lemma find_unique:
  assumes "\<forall>q \<in> set l. \<forall>r \<in> set l. Q q \<and> Q r \<longrightarrow> q = r"
  shows "find Q l = Some p \<longleftrightarrow> p \<in> set l \<and> Q p"
  using assms by (induction l) auto

lemma in_enabled:
  assumes "binds_ok s"
  shows "p \<in> set (enabled s [0..<NUM_TYPES]) \<longleftrightarrow> (\<exists>i < NUM_TYPES. p \<in> set (keysyms_binding s ! i) \<and> type_nlocks s ! i = 0)"
proof -
  have "bit (keysyms_binding_masks s) i \<longleftrightarrow> type_nlocks s ! i = 0" if "i < NUM_TYPES" "p \<in> set (keysyms_binding s ! i)" for i
    using masks_okD [of s i] that assms by (auto simp: binds_ok_def)
  then show ?thesis by (auto simp: enabled_def split: if_splits)
qed

lemma nth_registered: "binds_ok s \<Longrightarrow> i < NUM_TYPES \<Longrightarrow> p \<in> set (keysyms_binding s ! i) \<Longrightarrow> p \<in> registered s"
  by (auto simp: registered_def binds_ok_def lists_ok_def intro!: bexI [of _ "keysyms_binding s ! i"])

lemma registered_alloc: "binds_ok s \<Longrightarrow> p \<in> registered s \<Longrightarrow> \<exists>b. key_heap s p = Some b"
  by (auto simp: binds_ok_def lists_ok_def)

lemma fires_one_key:
  assumes "npressed ks = 1" "pressed_keysyms ks = k # rest"
  shows "key_binding_fires x ks b \<longleftrightarrow> kb_modifiers b = last_modifiers ks \<and>
    (if only_one_modifier ks then kb_keysym b = 0 else kb_keysym b \<noteq> 0 \<and> kb_keysym b = xkb_keysym_to_lower x k)"
  using assms by (auto simp: key_binding_fires_def match_key_binding_def)

text \<open>C31: with one key pressed, the binding that runs is the registered one, of a type nothing blocks, that has
  the modifiers and the symbol of the key: it always runs, whatever the order of registration, and no other
  does; while all bindings are blocked none runs.\<close>

theorem key_runs_its_binding:
  assumes reach: "(bind_step x)\<^sup>*\<^sup>* bindings_create s"
    and one: "npressed ks = 1" "pressed_keysyms ks = k # rest"
  shows "matching_binding x False ks s = Some (Some p) \<longleftrightarrow>
    keysym_bindings_block s = 0 \<and>
    (\<exists>i < NUM_TYPES. p \<in> set (keysyms_binding s ! i) \<and> type_nlocks s ! i = 0) \<and>
    (\<exists>b. key_heap s p = Some b \<and> kb_modifiers b = last_modifiers ks \<and>
      (if only_one_modifier ks then kb_keysym b = 0 else kb_keysym b \<noteq> 0 \<and> kb_keysym b = xkb_keysym_to_lower x k))"
proof -
  let ?Q = "\<lambda>p. key_binding_fires x ks (the (key_heap s p))"
  have ok: "binds_ok s" by (rule bind_reach_ok [OF reach])
  have reg: "q \<in> registered s" if "q \<in> set (enabled s [0..<NUM_TYPES])" for q
    using that in_enabled [OF ok] nth_registered [OF ok] by blast
  have "find_type (key_binding_fires x ks) s [0..<NUM_TYPES] = Some (find ?Q (enabled s [0..<NUM_TYPES]))"
    by (rule find_type_find) (use registered_alloc [OF ok] nth_registered [OF ok] in fastforce)
  moreover have "find ?Q (enabled s [0..<NUM_TYPES]) = Some p \<longleftrightarrow> p \<in> set (enabled s [0..<NUM_TYPES]) \<and> ?Q p"
  proof (rule find_unique, intro ballI impI, rule ccontr)
    fix q r assume h: "q \<in> set (enabled s [0..<NUM_TYPES])" "r \<in> set (enabled s [0..<NUM_TYPES])" "?Q q \<and> ?Q r" "q \<noteq> r"
    then have "same_keys (the (key_heap s q)) (the (key_heap s r))"
      by (auto simp: fires_one_key [OF one] same_keys_def split: if_splits)
    then show False using h reg ok unfolding binds_ok_def unique_ok_def by blast
  qed
  moreover have "?Q p \<longleftrightarrow> (\<exists>b. key_heap s p = Some b \<and> key_binding_fires x ks b)" if "p \<in> set (enabled s [0..<NUM_TYPES])"
    using registered_alloc [OF ok reg [OF that]] by auto
  ultimately show ?thesis
    unfolding matching_binding_def in_enabled [OF ok, symmetric] fires_one_key [OF one, symmetric] by auto
qed

text \<open>A state with one binding, for Ctrl and \<open>a\<close>.\<close>

definition some_xkb :: xkb where
  "some_xkb = \<lparr>xkb_keysym_to_lower = (\<lambda>k. k), xkb_keysym_to_upper = (\<lambda>k. k),
     xkb_keysym_from_name = (\<lambda>n. case n of [c] \<Rightarrow> word_of_nat (of_char c) | _ \<Rightarrow> 0), xkb_keysym_get_name = (\<lambda>k. Some [char_of (unat k)]),
     xkb_state_key_get_syms = (\<lambda>key. [key])\<rparr>"

definition some_bindings :: bindings where
  "some_bindings = snd (the (kywc_key_binding_register 1 KEY_BINDING_TYPE_CUSTOM_DEF (Some 7) NULL
     (snd (kywc_key_binding_create_by_symbol 1 97 4 False None bindings_create))))"

lemma some_bindings_steps: "(bind_step some_xkb)\<^sup>*\<^sup>* bindings_create some_bindings"
proof -
  let ?s = "snd (kywc_key_binding_create_by_symbol 1 97 4 False None bindings_create)"
  have "bind_step some_xkb bindings_create ?s"
    by (rule bind_step.create_by_symbol [of bindings_create 1 97 4 False None 1])
      (simp_all add: bindings_create_def kywc_key_binding_create_by_symbol_def)
  moreover have "kywc_key_binding_register 1 KEY_BINDING_TYPE_CUSTOM_DEF (Some 7) NULL ?s = Some (True, some_bindings)"
    by (simp add: some_bindings_def kywc_key_binding_register_def kywc_key_binding_create_by_symbol_def
        bindings_create_def registered_def key_binding_is_valid_def NUM_TYPES_def numeral_eq_Suc Let_def)
  then have "bind_step some_xkb ?s some_bindings" by (rule bind_step.register)
  ultimately show ?thesis by auto
qed

lemma some_bindings_fields:
  "keysyms_binding some_bindings = (replicate NUM_TYPES [])[0 := [1]]" "type_nlocks some_bindings = replicate NUM_TYPES 0"
  "keysym_bindings_block some_bindings = 0" "keysyms_binding_masks some_bindings = 1"
  "key_heap some_bindings = [1 \<mapsto> \<lparr>kb_modifiers = 4, kb_keysym = 97, kb_no_repeat = False, kb_keybind = None,
     kb_desc = None, kb_action = Some 7, kb_data = NULL\<rparr>]"
  by (simp_all add: some_bindings_def kywc_key_binding_register_def kywc_key_binding_create_by_symbol_def
        bindings_create_def registered_def key_binding_is_valid_def NUM_TYPES_def Let_def)

definition some_key :: "u32 \<Rightarrow> u32 \<Rightarrow> keyboard_state" where
  "some_key k mods = handle_keyboard_state some_xkb no_keyboard_state mods k True"

theorem registered_bindings_unique_witness:
  "bit (keysyms_binding_masks some_bindings) 0 \<longleftrightarrow> type_nlocks some_bindings ! 0 = 0"
  using registered_bindings_unique [OF some_bindings_steps]
  by (simp add: some_bindings_fields NUM_TYPES_def)

theorem key_runs_its_binding_witness:
  "matching_binding some_xkb False (some_key 97 4) some_bindings = Some (Some 1)"
proof -
  have k: "npressed (some_key 97 4) = 1" "pressed_keysyms (some_key 97 4) = 97 # replicate 9 0"
    "last_modifiers (some_key 97 4) = 4" "\<not> only_one_modifier (some_key 97 4)"
    by (simp_all add: some_key_def handle_keyboard_state_def no_keyboard_state_def keyboard_state_add_key_def
        MAX_PRESSED_KEY_def numeral_eq_Suc)
  show ?thesis
    unfolding key_runs_its_binding [OF some_bindings_steps k(1,2)]
    by (simp add: k some_bindings_fields some_xkb_def) (simp add: NUM_TYPES_def exI [of _ 0])
qed

end
