(* ===== verification/KeyFeed.thy ===== *)
theory KeyFeed
  imports BindingProofs
begin

section \<open>From a key to its receiver (\<^verbatim>\<open>input/keyboard.c\<close>, \<^verbatim>\<open>input/action.c\<close>)\<close>

text \<open>
  A key goes to the virtual terminals, to the capture of shortcuts, to a binding, to the input method or to the
  client with the focus. The lock of the session, the grabs and the input method are arguments; what leaves the
  program is recorded in order.
\<close>

subsection \<open>Capturing a shortcut\<close>

definition keysym_is_modifier :: "u32 \<Rightarrow> bool" where
  "keysym_is_modifier k \<longleftrightarrow> k \<in> {0xffe1, 0xffe2, 0xffe3, 0xffe4, 0xffe9, 0xffea, 0xffeb, 0xffec, 0xffe7, 0xffe8, 0xffe5, 0xff7f}"

definition combo_mods :: "u32 list" where
  "combo_mods = [WLR_MODIFIER_SHIFT, WLR_MODIFIER_CAPS, WLR_MODIFIER_CTRL, WLR_MODIFIER_ALT, WLR_MODIFIER_MOD2,
     WLR_MODIFIER_MOD3, WLR_MODIFIER_LOGO, WLR_MODIFIER_MOD5]"

definition plus_join :: "string \<Rightarrow> string \<Rightarrow> string" where
  "plus_join buf s = buf @ (if buf \<noteq> [] then ''+'' else []) @ s"

fun combo_loop :: "u32 \<Rightarrow> u32 list \<Rightarrow> string \<Rightarrow> string" where
  "combo_loop mods [] buf = buf"
| "combo_loop mods (m # ms) buf =
     (if mods AND m = 0 then combo_loop mods ms buf
      else case keyboard_get_modifier_name_by_mask m of
        None \<Rightarrow> combo_loop mods ms buf
      | Some name \<Rightarrow> combo_loop mods ms (plus_join buf name))"

text \<open>The names and the symbol, whose buffer has 64 bytes, fit into the 256 bytes of the buffer.\<close>

definition build_key_combo :: "xkb \<Rightarrow> u32 \<Rightarrow> u32 \<Rightarrow> string" where
  "build_key_combo x mods keysym =
     (let buf = combo_loop mods combo_mods [];
          name = (case xkb_keysym_get_name x (xkb_keysym_to_lower x keysym) of None \<Rightarrow> [] | Some n \<Rightarrow> n)
      in plus_join buf name)"

datatype key_out = SwitchVt u32 | SeatKey u32 bool | SeatGrabKey u32 bool | BindingAction nat ptr
  | DbusKeyEvent bool "string option" | NotifyKey u32 bool | InputMethodKey u32 bool

record input =
  i_bindings :: bindings
  grab_next_key :: bool
  grab_keysym :: u32
  grab_combo :: "string option"
  i_out :: "key_out list"

definition emit :: "key_out \<Rightarrow> input \<Rightarrow> input" where
  "emit e s = s\<lparr>i_out := i_out s @ [e]\<rparr>"

definition input_action_handle_key :: "xkb \<Rightarrow> bool \<Rightarrow> u32 \<Rightarrow> u32 \<Rightarrow> input \<Rightarrow> bool \<times> input" where
  "input_action_handle_key x pressed mods keysym s =
     (if \<not> grab_next_key s then (False, s)
      else let keysym = xkb_keysym_to_lower x keysym in
        if pressed then
          if keysym_is_modifier keysym then (True, s)
          else let combo = Some (build_key_combo x mods keysym);
                   s = s\<lparr>grab_keysym := keysym, grab_combo := combo\<rparr>
               in (True, emit (DbusKeyEvent True combo) s)
        else if grab_keysym s \<noteq> 0 \<and> keysym = grab_keysym s
          then (True, (emit (DbusKeyEvent False (grab_combo s)) s)\<lparr>grab_keysym := 0, grab_next_key := False\<rparr>)
          else (True, s))"

definition grab_next_key_handler :: "input \<Rightarrow> input" where
  "grab_next_key_handler s = s\<lparr>grab_next_key := True, grab_keysym := 0, grab_combo := None\<rparr>"

definition cancel_grab_handler :: "input \<Rightarrow> input" where
  "cancel_grab_handler s = s\<lparr>grab_next_key := False, grab_keysym := 0, grab_combo := None\<rparr>"

subsection \<open>Keyboards\<close>

text \<open>\<open>k_timer\<close> is the repeat timer of a keyboard that has one, with the delay it was armed with; \<open>k_group\<close> the
  scroll lock and the lights of the keyboard's group.\<close>

record keyboard =
  k_state :: keyboard_state
  k_repeat_key :: u32
  k_timer :: "int option option"
  k_delay :: int
  k_rate :: int
  k_group :: "(nat \<times> u32) option"

definition WLR_LED_SCROLL_LOCK :: u32 where "WLR_LED_SCROLL_LOCK = 4"
definition KEY_SCROLLLOCK :: u32 where "KEY_SCROLLLOCK = 70"
definition XKB_KEY_XF86Switch_VT_1 :: u32 where "XKB_KEY_XF86Switch_VT_1 = 0x1008fe01"
definition XKB_KEY_XF86Switch_VT_12 :: u32 where "XKB_KEY_XF86Switch_VT_12 = 0x1008fe0c"

text \<open>What surrounds the keyboard: the session lock, the inhibitor of shortcuts, the grab of the seat with what
  it answers, whether the key comes from the input method and whether that takes keys.\<close>

record key_env =
  e_xkb :: xkb
  e_run :: run_action
  e_locked :: bool
  e_inhibited :: bool
  e_grab :: "(u32 \<Rightarrow> bool \<Rightarrow> u32 \<Rightarrow> bool) option"
  e_from_input_method :: bool
  e_input_method :: bool

fun grab_loop :: "key_env \<Rightarrow> bool \<Rightarrow> u32 \<Rightarrow> u32 list \<Rightarrow> input \<Rightarrow> bool \<times> input" where
  "grab_loop e pressed mods [] s = (False, s)"
| "grab_loop e pressed mods (k # ks) s =
     (let (r, s) = input_action_handle_key (e_xkb e) pressed mods k s
      in if r then (True, s) else grab_loop e pressed mods ks s)"

definition is_vt_switch :: "u32 \<Rightarrow> bool" where
  "is_vt_switch k \<longleftrightarrow> XKB_KEY_XF86Switch_VT_1 \<le> k \<and> k \<le> XKB_KEY_XF86Switch_VT_12"

text \<open>The result: whether the key was handled, whether it is repeated.\<close>

definition keyboard_handle_bindings ::
  "key_env \<Rightarrow> u32 \<Rightarrow> bool \<Rightarrow> u32 \<Rightarrow> keyboard \<Rightarrow> input \<Rightarrow> (bool \<times> bool \<times> keyboard \<times> input) option" where
  "keyboard_handle_bindings e key pressed mods kb s =
     (let keysyms = xkb_state_key_get_syms (e_xkb e) (key + 8);
          kb = kb\<lparr>k_state := fold (\<lambda>k ks. handle_keyboard_state (e_xkb e) ks mods k pressed) keysyms (k_state kb)\<rparr>
      in case find is_vt_switch keysyms of
           Some k \<Rightarrow> Some (True, False, kb, emit (SwitchVt (k - XKB_KEY_XF86Switch_VT_1 + 1)) s)
         | None \<Rightarrow>
           if e_locked e then Some (False, False, kb, s)
           else let (grabbed, s) = grab_loop e pressed mods keysyms s in
             if grabbed then Some (True, False, kb, s)
             else if e_inhibited e then Some (False, False, kb, s)
             else if \<not> pressed \<and> \<not> only_one_modifier (k_state kb) then Some (False, False, kb, s)
             else do {
               m \<leftarrow> matching_binding (e_xkb e) (e_locked e) (k_state kb) (i_bindings s);
               (handled, repeat, b) \<leftarrow>
                 bindings_handle_key_binding (e_xkb e) (e_run e) (e_locked e) (k_state kb) False (i_bindings s);
               let s = (case m of None \<Rightarrow> s | Some p \<Rightarrow>
                 (case key_heap (i_bindings s) p of None \<Rightarrow> s | Some kb \<Rightarrow>
                   (case kb_action kb of None \<Rightarrow> s | Some f \<Rightarrow> emit (BindingAction f p) s)));
               Some (handled, repeat, kb, s\<lparr>i_bindings := b\<rparr>)})"

definition keyboard_repeat_stop :: "keyboard \<Rightarrow> keyboard" where
  "keyboard_repeat_stop kb =
     (if k_timer kb = None then kb
      else if k_repeat_key kb = 0 then kb
      else kb\<lparr>k_repeat_key := 0, k_timer := Some None\<rparr>)"

definition keyboard_repeat_start :: "u32 \<Rightarrow> bool \<Rightarrow> keyboard \<Rightarrow> keyboard" where
  "keyboard_repeat_start key pressed kb =
     (if k_timer kb = None then kb
      else if k_repeat_key kb > 0 then
        (if k_repeat_key kb = key \<and> \<not> pressed then keyboard_repeat_stop kb else kb)
      else if \<not> pressed then kb
      else if k_delay kb > 0 then kb\<lparr>k_repeat_key := key, k_timer := Some (Some (k_delay kb))\<rparr>
      else if k_repeat_key kb > 0 then keyboard_repeat_stop kb
      else kb)"

definition keyboard_update_lock :: "u32 \<Rightarrow> bool \<Rightarrow> keyboard \<Rightarrow> keyboard" where
  "keyboard_update_lock key pressed kb =
     (if key \<noteq> KEY_SCROLLLOCK then kb
      else case k_group kb of
        None \<Rightarrow> kb
      | Some (scroll_lock, leds) \<Rightarrow>
          if scroll_lock = 0 \<and> pressed then kb\<lparr>k_group := Some (2, leds OR WLR_LED_SCROLL_LOCK)\<rparr>
          else if scroll_lock > 0 \<and> \<not> pressed then
            kb\<lparr>k_group := Some (scroll_lock - 1, if scroll_lock - 1 = 0 then leds OR WLR_LED_SCROLL_LOCK else leds)\<rparr>
          else kb)"

definition keyboard_feed_key ::
  "key_env \<Rightarrow> u32 \<Rightarrow> bool \<Rightarrow> u32 \<Rightarrow> keyboard \<times> input \<Rightarrow> (keyboard \<times> input) option" where
  "keyboard_feed_key e key pressed mods = (\<lambda>(kb, s).
     let kb = keyboard_update_lock key pressed kb in
     if e_from_input_method e then Some (kb, emit (NotifyKey key pressed) s)
     else if e_locked e then do {
       (handled, _, kb, s) \<leftarrow> keyboard_handle_bindings e key pressed mods kb s;
       let kb = keyboard_repeat_stop kb;
       Some (kb, if handled then s else emit (NotifyKey key pressed) s)}
     else
       let s = emit (SeatKey key pressed) s;
           (grabbed, s) = (case e_grab e of None \<Rightarrow> (False, s)
             | Some f \<Rightarrow> (f key pressed mods, emit (SeatGrabKey key pressed) s))
       in if grabbed then
            let kb = kb\<lparr>k_state := keyboard_state_clear (k_state kb)\<rparr>;
                kb = (if key \<noteq> k_repeat_key kb then keyboard_repeat_stop kb else kb)
            in Some (keyboard_repeat_start key pressed kb, s)
          else do {
            (handled, need_repeat, kb, s) \<leftarrow> keyboard_handle_bindings e key pressed mods kb s;
            if handled then
              Some (if need_repeat then keyboard_repeat_start key pressed kb else keyboard_repeat_stop kb, s)
            else
              let kb = keyboard_repeat_stop kb
              in Some (kb, emit (if e_input_method e then InputMethodKey key pressed else NotifyKey key pressed) s)})"

text \<open>The timer fires once; it is armed again before the key is fed.\<close>

definition keyboard_handle_repeat ::
  "key_env \<Rightarrow> u32 \<Rightarrow> keyboard \<times> input \<Rightarrow> (keyboard \<times> input) option" where
  "keyboard_handle_repeat e mods = (\<lambda>(kb, s).
     let kb = kb\<lparr>k_timer := Some None\<rparr> in
     if k_repeat_key kb > 0 then
       let kb = (if k_rate kb > 0 then kb\<lparr>k_timer := Some (Some (1000 div k_rate kb))\<rparr> else kb)
       in keyboard_feed_key e (k_repeat_key kb) True mods (kb, s)
     else Some (kb, s))"

definition keyboard_get_locks :: "u32 \<Rightarrow> keyboard \<Rightarrow> u32" where
  "keyboard_get_locks locked_mods kb =
     (case k_group kb of None \<Rightarrow> 0
      | Some (scroll_lock, leds) \<Rightarrow>
          let locks = 0;
              locks = (if locked_mods AND WLR_MODIFIER_CAPS \<noteq> 0 then locks OR 1 else locks);
              locks = (if locked_mods AND WLR_MODIFIER_MOD2 \<noteq> 0 then locks OR 2 else locks)
          in if scroll_lock > 0 then locks OR 4 else locks)"

definition keyboard_keymaps_match :: "string option \<Rightarrow> string option \<Rightarrow> bool" where
  "keyboard_keymaps_match km1 km2 =
     (if km1 = None \<and> km2 = None then True
      else case (km1, km2) of (Some a, Some b) \<Rightarrow> a = b | _ \<Rightarrow> False)"

end
