(* ===== verification/KeyFeedProofs.thy ===== *)
theory KeyFeedProofs
  imports KeyFeed StringProofs
begin

section \<open>What happens to a key\<close>

text \<open>
  A locked session runs no binding, and the text of a captured shortcut names the binding it was captured from.
\<close>

subsection \<open>The locked session\<close>

text \<open>C32: while the session is locked a key always has exactly one receiver, the client with the focus or the
  switch of the virtual terminal: no binding runs, no grab sees the key, no shortcut is captured, and the
  repetition of a key stops.\<close>

theorem locked_session_runs_no_binding:
  assumes "e_locked e"
  shows "\<exists>kb' out. keyboard_feed_key e key pressed mods (kb, s) = Some (kb', s\<lparr>i_out := i_out s @ [out]\<rparr>) \<and>
    (out = NotifyKey key pressed \<or>
     (\<exists>k \<in> set (xkb_state_key_get_syms (e_xkb e) (key + 8)). is_vt_switch k \<and>
        out = SwitchVt (k - XKB_KEY_XF86Switch_VT_1 + 1))) \<and>
    (e_from_input_method e \<or> k_timer kb = None \<or> k_repeat_key kb' = 0)"
proof (cases "e_from_input_method e")
  case True
  then have "keyboard_feed_key e key pressed mods (kb, s) =
      Some (keyboard_update_lock key pressed kb, s\<lparr>i_out := i_out s @ [NotifyKey key pressed]\<rparr>)"
    by (simp add: keyboard_feed_key_def emit_def Let_def)
  then show ?thesis using True by blast
next
  case False
  have stop: "k_timer kb = None \<or> k_repeat_key (keyboard_repeat_stop ((keyboard_update_lock key pressed kb)\<lparr>k_state := ks\<rparr>)) = 0" for ks
    by (auto simp: keyboard_repeat_stop_def keyboard_update_lock_def split: option.split)
  show ?thesis
  proof (cases "find is_vt_switch (xkb_state_key_get_syms (e_xkb e) (key + 8))")
    case None
    then have "\<exists>ks. keyboard_feed_key e key pressed mods (kb, s) =
        Some (keyboard_repeat_stop ((keyboard_update_lock key pressed kb)\<lparr>k_state := ks\<rparr>),
          s\<lparr>i_out := i_out s @ [NotifyKey key pressed]\<rparr>)"
      using False assms by (auto simp: keyboard_feed_key_def keyboard_handle_bindings_def emit_def Let_def)
    then show ?thesis using stop by blast
  next
    case (Some k)
    then have "k \<in> set (xkb_state_key_get_syms (e_xkb e) (key + 8))" "is_vt_switch k"
      by (auto simp: find_Some_iff)
    moreover have "\<exists>ks. keyboard_feed_key e key pressed mods (kb, s) =
        Some (keyboard_repeat_stop ((keyboard_update_lock key pressed kb)\<lparr>k_state := ks\<rparr>),
          s\<lparr>i_out := i_out s @ [SwitchVt (k - XKB_KEY_XF86Switch_VT_1 + 1)]\<rparr>)"
      using False assms Some by (auto simp: keyboard_feed_key_def keyboard_handle_bindings_def emit_def Let_def)
    ultimately show ?thesis using stop by blast
  qed
qed

definition some_key_env :: key_env where
  "some_key_env = \<lparr>e_xkb = some_xkb, e_run = (\<lambda>f p d s. s), e_locked = True, e_inhibited = False, e_grab = None,
     e_from_input_method = False, e_input_method = False\<rparr>"

definition some_keyboard :: keyboard where
  "some_keyboard = \<lparr>k_state = no_keyboard_state, k_repeat_key = 30, k_timer = Some (Some 600), k_delay = 600, k_rate = 25,
     k_group = None\<rparr>"

definition some_input :: input where
  "some_input = \<lparr>i_bindings = some_bindings, grab_next_key = False, grab_keysym = 0, grab_combo = None, i_out = []\<rparr>"

theorem locked_session_runs_no_binding_witness:
  "\<exists>kb' out. keyboard_feed_key some_key_env 30 True 4 (some_keyboard, some_input) =
     Some (kb', some_input\<lparr>i_out := [out]\<rparr>) \<and> k_repeat_key kb' = 0"
  using locked_session_runs_no_binding [of some_key_env 30 True 4 some_keyboard some_input]
  by (auto simp: some_key_env_def some_keyboard_def some_input_def)

subsection \<open>Captured shortcuts\<close>

definition combo_names :: "u32 \<Rightarrow> u32 list \<Rightarrow> string list" where
  "combo_names mods ms = map (\<lambda>m. the (keyboard_get_modifier_name_by_mask m)) (filter (\<lambda>m. mods AND m \<noteq> 0) ms)"

lemma combo_mods_named:
  "m \<in> set combo_mods \<Longrightarrow> \<exists>n. keyboard_get_modifier_name_by_mask m = Some n \<and> keyboard_get_modifier_mask_by_name n = m \<and>
     m \<noteq> 0 \<and> token_ok ''+'' n \<and> CHR '':'' \<notin> set n"
  by (auto simp: combo_mods_def modifier_defs keyboard_get_modifier_name_by_mask_def modifiers_def
      keyboard_get_modifier_mask_by_name_def strcasecmp_eq_def tolower_def token_ok_def)

lemma join_snoc: "ns \<noteq> [] \<Longrightarrow> join c (ns @ [n]) = join c ns @ c # n"
proof (induction ns)
  case (Cons m ms)
  then show ?case by (cases ms) simp_all
qed simp

lemma join_not_empty: "ns \<noteq> [] \<Longrightarrow> hd ns \<noteq> [] \<Longrightarrow> join c ns \<noteq> []"
  by (cases "(c, ns)" rule: join.cases) auto

lemma join_hd: "ns \<noteq> [] \<Longrightarrow> hd ns \<noteq> [] \<Longrightarrow> hd (join c ns) = hd (hd ns)"
  by (cases "(c, ns)" rule: join.cases) auto

lemma snoc_not_empty: "xs @ [y] \<noteq> []"
  by simp

lemma token_ok_hd: "token_ok [c] t \<Longrightarrow> t \<noteq> []" "token_ok [c] t \<Longrightarrow> hd t \<noteq> c"
  by (cases t; simp add: token_ok_def)+

lemma plus_join_join: "list_all (token_ok ''+'') ns \<Longrightarrow> plus_join (join (CHR ''+'') ns) n = join (CHR ''+'') (ns @ [n])"
proof (cases ns)
  case (Cons m ms)
  assume "list_all (token_ok ''+'') ns"
  then have "join (CHR ''+'') ns \<noteq> []" using Cons by (intro join_not_empty) (auto simp: token_ok_def)
  then show ?thesis using Cons join_snoc [of ns "CHR ''+''" n] by (simp add: plus_join_def)
qed (simp add: plus_join_def)

lemma combo_names_ok: "set ms \<subseteq> set combo_mods \<Longrightarrow> list_all (token_ok ''+'') (combo_names mods ms)"
  unfolding combo_names_def list_all_iff using combo_mods_named by fastforce

lemma combo_loop_join:
  "set ms \<subseteq> set combo_mods \<Longrightarrow> list_all (token_ok ''+'') ns \<Longrightarrow>
   combo_loop mods ms (join (CHR ''+'') ns) = join (CHR ''+'') (ns @ combo_names mods ms)"
proof (induction ms arbitrary: ns)
  case (Cons m ms)
  obtain n where n: "keyboard_get_modifier_name_by_mask m = Some n" "token_ok ''+'' n"
    using combo_mods_named [of m] Cons.prems(1) by auto
  have "combo_loop mods ms (join (CHR ''+'') (ns @ [n])) = join (CHR ''+'') ((ns @ [n]) @ combo_names mods ms)"
    by (rule Cons.IH) (use Cons.prems n in auto)
  then show ?case
    using Cons n by (simp add: plus_join_join combo_names_def)
qed (simp add: combo_names_def)

lemma combo_join:
  assumes "token_ok ''+'' n"
  shows "plus_join (combo_loop mods combo_mods []) n = join (CHR ''+'') (combo_names mods combo_mods @ [n])"
  using combo_loop_join [of combo_mods "[]" mods] plus_join_join [OF combo_names_ok, of combo_mods mods n] by simp

lemma combo_mods_bits: "combo_mods = map (\<lambda>i. 2 ^ i) [0..<8]"
  by (simp add: combo_mods_def modifier_defs upt_rec)

lemma and_one_bit: "m \<in> set combo_mods \<Longrightarrow> mods AND m \<noteq> 0 \<Longrightarrow> mods AND m = m"
  by (auto simp: combo_mods_bits and_exp_eq_0_iff_not_bit bit_and_iff bit_exp_iff intro!: bit_word_eqI)

lemma keybind_loop_names:
  "set ms \<subseteq> set combo_mods \<Longrightarrow>
   keybind_loop x (combo_names mods ms @ ts) (a, k) = keybind_loop x ts (a OR foldr (\<lambda>m b. (mods AND m) OR b) ms 0, k)"
proof (induction ms arbitrary: a)
  case (Cons m ms)
  obtain n where n: "keyboard_get_modifier_name_by_mask m = Some n" "keyboard_get_modifier_mask_by_name n = m" "m \<noteq> 0"
    using combo_mods_named [of m] Cons.prems by auto
  have m: "m \<in> set combo_mods" "set ms \<subseteq> set combo_mods" using Cons.prems by simp_all
  show ?case
  proof (cases "mods AND m = 0")
    case True
    then show ?thesis using Cons.IH [OF m(2), of a] by (simp add: combo_names_def)
  next
    case False
    have "combo_names mods (m # ms) = n # combo_names mods ms" using False n by (simp add: combo_names_def)
    then show ?thesis
      using Cons.IH [OF m(2), of "a OR m"] n and_one_bit [OF m(1) False] by (simp add: or.assoc)
  qed
qed (simp add: combo_names_def)

lemma combo_mask: "foldr (\<lambda>m b. (mods AND m) OR b) combo_mods 0 = mods AND 255"
proof -
  have "foldr (\<lambda>m b. (mods AND m) OR b) combo_mods 0 = mods AND foldr (\<lambda>m b. m OR b) combo_mods 0"
    by (simp add: combo_mods_def bit.conj_disj_distrib)
  then show ?thesis by (simp add: combo_mods_def modifier_defs)
qed

lemma join_no_char: "c \<noteq> d \<Longrightarrow> d \<in> set (join c ns) \<Longrightarrow> \<exists>n \<in> set ns. d \<in> set n"
  by (induction c ns rule: join.induct) auto

lemma split_no_delim: "s \<noteq> [] \<Longrightarrow> c \<notin> set s \<Longrightarrow> string_split s [c] = [(0, s)]"
  using tokens_last [of "[c]" s 0] by (auto simp: string_split_def token_ok_def list_all_iff)

text \<open>What the capture relies on: the name of a symbol is not empty, has no separator, is not the name of a
  modifier, and names the symbol.\<close>

definition names_symbol :: "xkb \<Rightarrow> u32 \<Rightarrow> string \<Rightarrow> bool" where
  "names_symbol x k n \<longleftrightarrow> xkb_keysym_get_name x k = Some n \<and> xkb_keysym_from_name x n = k \<and>
     token_ok ''+:'' n \<and> keyboard_get_modifier_mask_by_name n = 0"

text \<open>The text of a captured shortcut, registered as a binding, is a binding for the modifiers that were
  pressed and the lower case of the symbol, with repetition.\<close>

theorem captured_combo_parses:
  assumes "names_symbol x (xkb_keysym_to_lower x k) n"
    and "xkb_keysym_to_lower x (xkb_keysym_to_lower x k) = xkb_keysym_to_lower x k"
  shows "parse_keybind x (build_key_combo x mods k) = Some (False, mods AND 255, xkb_keysym_to_lower x k)"
proof -
  let ?ns = "combo_names mods combo_mods @ [n]"
  have n: "token_ok ''+'' n" "CHR '':'' \<notin> set n" "keyboard_get_modifier_mask_by_name n = 0"
    using assms(1) by (auto simp: names_symbol_def token_ok_def list_all_iff)
  have s: "build_key_combo x mods k = join (CHR ''+'') ?ns"
    using assms(1) combo_join [OF n(1)] by (simp add: build_key_combo_def names_symbol_def)
  have ok: "list_all (token_ok ''+'') ?ns" using combo_names_ok n(1) by simp
  have "hd ?ns \<in> set ?ns" by (rule hd_in_set) simp
  then have h: "hd ?ns \<noteq> []" "hd (hd ?ns) \<noteq> CHR ''+''"
    using ok token_ok_hd unfolding list_all_iff by blast+
  then have ne: "build_key_combo x mods k \<noteq> []" unfolding s by (intro join_not_empty snoc_not_empty)
  have "CHR '':'' \<notin> set q" if q: "q \<in> set ?ns" for q
  proof (cases "q = n")
    case False
    then obtain m where "m \<in> set combo_mods" "q = the (keyboard_get_modifier_name_by_mask m)"
      using q by (auto simp: combo_names_def)
    then show ?thesis using combo_mods_named [of m] by auto
  qed (simp add: n(2))
  moreover have "CHR ''+'' \<noteq> CHR '':''" by simp
  note join_no_char [OF this, of ?ns]
  ultimately have "CHR '':'' \<notin> set (build_key_combo x mods k)" unfolding s by blast
  then have colon: "string_split (build_key_combo x mods k) '':'' = [(0, build_key_combo x mods k)]"
    using split_no_delim ne by blast
  have plus: "map snd (string_split (build_key_combo x mods k) ''+'') = ?ns"
    using tokens_join [of "CHR ''+''" "''+''" ?ns 0] ok by (simp add: s string_split_def)
  have "hd (build_key_combo x mods k) = hd (hd ?ns)" unfolding s by (rule join_hd) (rule snoc_not_empty, rule h(1))
  then have "hd (build_key_combo x mods k) \<noteq> CHR ''+''" by (simp only: h(2) not_False_eq_True)
  then have free: "string_free_split (string_split (build_key_combo x mods k) ''+'') = Some ()"
    using ne by (simp add: free_split_start)
  have "keybind_loop x ?ns (0, 0) = (mods AND 255, xkb_keysym_to_lower x k)"
    using keybind_loop_names [of combo_mods x mods "[n]" 0 0] n(3) assms combo_mask [of mods]
    by (simp add: names_symbol_def)
  then show ?thesis
    using colon plus free by (simp add: parse_keybind_def string_free_split_def [of "[_]"])
qed

theorem captured_combo_parses_witness:
  "parse_keybind some_xkb (build_key_combo some_xkb 12 116) = Some (False, 12, 116)"
proof -
  have l: "xkb_keysym_to_lower some_xkb k = k" for k by (simp add: some_xkb_def)
  have "names_symbol some_xkb 116 ''t''" by code_simp
  then show ?thesis using captured_combo_parses [of some_xkb 116 "''t''" 12] by (simp add: l)
qed

end
