(* ===== verification/GestureProofs.thy ===== *)
theory GestureProofs
  imports Gestures
begin

section \<open>The course of a gesture\<close>

text \<open>
  The order in which a gesture calls the actions of its bindings, and what one gesture leaves to the next.
\<close>

lemma handle_gesture_calls:
  assumes "bindings_handle_gesture_binding run g w = Some (h, w')"
  shows "\<exists>c. gw_calls w' = gw_calls w @ c \<and> length c \<le> 1 \<and> (\<forall>(f, p, st, d) \<in> set c. st = g_stage g)"
  using assms by (auto simp: bindings_handle_gesture_binding_def bind_eq_Some_conv split: if_splits option.splits)

type_synonym gesture_call = "nat \<times> ptr \<times> gesture_stage \<times> real \<times> real"

definition in_stage :: "gesture_stage \<Rightarrow> gesture_call list \<Rightarrow> bool" where
  "in_stage st cs \<longleftrightarrow> list_all (\<lambda>(f, p, st', d). st' = st) cs"

text \<open>The calls of a swipe so far: those before the trigger, the trigger, those after it.\<close>

definition swipe_calls :: "bool \<Rightarrow> gesture_call list \<Rightarrow> bool" where
  "swipe_calls triggered cs \<longleftrightarrow>
     (\<exists>before trigger after. cs = before @ trigger @ after \<and> in_stage GESTURE_STAGE_BEFORE before \<and>
        in_stage GESTURE_STAGE_TRIGGER trigger \<and> length trigger \<le> 1 \<and> in_stage GESTURE_STAGE_AFTER after \<and>
        (\<not> triggered \<longrightarrow> trigger = [] \<and> after = []))"

lemma in_stage_append [simp]: "in_stage st (a @ b) \<longleftrightarrow> in_stage st a \<and> in_stage st b"
  by (simp add: in_stage_def)

lemma in_stage_Nil [simp]: "in_stage st []"
  by (simp add: in_stage_def)

lemma handle_stage:
  assumes "bindings_handle_gesture_binding run g w = Some (h, w')"
  obtains c where "gw_calls w' = gw_calls w @ c" "length c \<le> 1" "in_stage (g_stage g) c"
  using handle_gesture_calls [OF assms] by (auto simp: in_stage_def list_all_iff)

lemma swipe_calls_before: "swipe_calls False cs \<Longrightarrow> in_stage GESTURE_STAGE_BEFORE c \<Longrightarrow> swipe_calls False (cs @ c)"
  by (auto simp: swipe_calls_def)

lemma swipe_calls_trigger:
  "swipe_calls False cs \<Longrightarrow> in_stage GESTURE_STAGE_TRIGGER c \<Longrightarrow> length c \<le> 1 \<Longrightarrow> swipe_calls True (cs @ c)"
  unfolding swipe_calls_def by (intro exI [of _ cs] exI [of _ c] exI [of _ "[]"]) auto

lemma swipe_calls_after: "swipe_calls True cs \<Longrightarrow> in_stage GESTURE_STAGE_AFTER c \<Longrightarrow> swipe_calls True (cs @ c)"
  unfolding swipe_calls_def by (metis append.assoc in_stage_append)

text \<open>What holds during a swipe, for the calls before it began.\<close>

definition swiping :: "u32 \<Rightarrow> gesture_call list \<Rightarrow> gesture_state \<Rightarrow> gesture_world \<Rightarrow> bool" where
  "swiping device old g w \<longleftrightarrow> g_type g = GESTURE_TYPE_SWIPE \<and> g_device g = device \<and>
     (\<exists>cs. gw_calls w = old @ cs \<and> swipe_calls (g_triggered g) cs)"

lemma swiping_trigger:
  assumes "swiping device old g w" "\<not> g_triggered g" "gesture_state_trigger run g w = Some (g', w')"
  shows "swiping device old g' w' \<and> g_triggered g'"
proof -
  obtain g1 h where h: "bindings_handle_gesture_binding run g1 w = Some (h, w')" "g_stage g1 = GESTURE_STAGE_TRIGGER"
    "g' = g1\<lparr>g_handled := h\<rparr>" "g_type g1 = g_type g" "g_device g1 = g_device g" "g_triggered g1"
    using assms(3) by (auto simp: gesture_state_trigger_def bind_eq_Some_conv Let_def)
  obtain c where "gw_calls w' = gw_calls w @ c" "length c \<le> 1" "in_stage GESTURE_STAGE_TRIGGER c"
    using handle_stage [OF h(1)] h(2) by metis
  then show ?thesis using assms(1,2) h swipe_calls_trigger by (auto simp: swiping_def)
qed

lemma swiping_follow:
  assumes "swiping device old g w" "gesture_state_follow run g dx dy (\<not> g_triggered g) w = Some (g', w')"
  shows "swiping device old g' w' \<and> g_triggered g' = g_triggered g"
proof -
  obtain g1 h where h: "bindings_handle_gesture_binding run g1 w = Some (h, w')"
    "g_stage g1 = (if \<not> g_triggered g then GESTURE_STAGE_BEFORE else GESTURE_STAGE_AFTER)"
    "g_type g' = g_type g" "g_device g' = g_device g" "g_triggered g' = g_triggered g"
    using assms by (fastforce simp: gesture_state_follow_def swiping_def bind_eq_Some_conv Let_def split: if_splits)
  obtain c where c: "gw_calls w' = gw_calls w @ c" "in_stage (g_stage g1) c"
    using handle_stage [OF h(1)] by metis
  obtain cs where cs: "gw_calls w = old @ cs" "swipe_calls (g_triggered g) cs"
    using assms(1) by (auto simp: swiping_def)
  have "swipe_calls (g_triggered g) (cs @ c)"
    using cs(2) c(2) h(2) swipe_calls_before swipe_calls_after by (cases "g_triggered g") auto
  then show ?thesis using assms(1) h c cs by (auto simp: swiping_def)
qed

lemma swiping_update:
  assumes "swiping device old g w" "gesture_state_update run GESTURE_TYPE_SWIPE device dx dy scale rot g w = Some (g', w')"
  shows "swiping device old g' w'"
proof -
  let ?g = "g\<lparr>g_dx := g_dx g + dx, g_dy := g_dy g + dy\<rparr>"
  have s: "swiping device old ?g w" using assms(1) by (simp add: swiping_def)
  have u: "gesture_swipe_state_update run g dx dy w = Some (g', w')"
    using assms by (simp add: gesture_state_update_def swiping_def)
  show ?thesis
  proof (cases "\<not> g_triggered g \<and> over_threshold ?g")
    case True
    then have "gesture_state_trigger run ?g w = Some (g', w')"
      using u by (simp add: gesture_swipe_state_update_def Let_def)
    then show ?thesis using swiping_trigger [OF s, of run g' w'] True by simp
  next
    case False
    then have "gesture_state_follow run ?g dx dy (\<not> g_triggered ?g) w = Some (g', w')"
      using u by (cases "g_triggered g") (simp_all add: gesture_swipe_state_update_def Let_def)
    then show ?thesis using swiping_follow [OF s, of run dx dy g' w'] by blast
  qed
qed

fun swipe_updates ::
  "run_gesture \<Rightarrow> u32 \<Rightarrow> (real \<times> real) list \<Rightarrow> gesture_state \<Rightarrow> gesture_world \<Rightarrow> (gesture_state \<times> gesture_world) option" where
  "swipe_updates run device [] g w = Some (g, w)"
| "swipe_updates run device ((dx, dy) # ms) g w = do {
     (g, w) \<leftarrow> gesture_state_update run GESTURE_TYPE_SWIPE device dx dy 1 0 g w;
     swipe_updates run device ms g w}"

lemma swiping_updates:
  "swiping device old g w \<Longrightarrow> swipe_updates run device ms g w = Some (g', w') \<Longrightarrow> swiping device old g' w'"
proof (induction ms arbitrary: g w)
  case (Cons m ms)
  obtain dx dy where m: "m = (dx, dy)" by fastforce
  obtain g1 w1 where u: "gesture_state_update run GESTURE_TYPE_SWIPE device dx dy 1 0 g w = Some (g1, w1)"
    "swipe_updates run device ms g1 w1 = Some (g', w')"
    using Cons.prems(2) by (auto simp: m bind_eq_Some_conv)
  show ?case by (rule Cons.IH [OF swiping_update [OF Cons.prems(1) u(1)] u(2)])
qed simp

text \<open>A whole swipe: it begins, moves, and ends or is cancelled.\<close>

definition swipe ::
  "run_gesture \<Rightarrow> u32 \<Rightarrow> u32 \<Rightarrow> u8 \<Rightarrow> (real \<times> real) list \<Rightarrow> bool \<Rightarrow> gesture_state \<Rightarrow> gesture_world \<Rightarrow>
   (bool \<times> gesture_state \<times> gesture_world) option" where
  "swipe run device edge fingers ms cancelled g w = do {
     (g, w) \<leftarrow> swipe_updates run device ms (gesture_state_begin GESTURE_TYPE_SWIPE device edge fingers g) w;
     gesture_state_end run GESTURE_TYPE_SWIPE device cancelled g w}"

definition idle_gesture :: "gesture_state \<Rightarrow> bool" where
  "idle_gesture g \<longleftrightarrow> g_type g = GESTURE_TYPE_NONE \<and> g_stage g = GESTURE_STAGE_NONE \<and> g_directions g = 0 \<and>
     g_follow_direction g = 0 \<and> \<not> g_triggered g \<and> \<not> g_handled g \<and> (g_timer g = None \<or> g_timer g = Some None)"

lemma idle_reset: "idle_gesture (gesture_state_reset g)"
  by (auto simp: idle_gesture_def gesture_state_reset_def timer_update_def gesture_bits split: option.split)

lemma swiping_begin:
  assumes "idle_gesture g"
  shows "swiping device (gw_calls w) (gesture_state_begin GESTURE_TYPE_SWIPE device edge fingers g) w"
  using assms by (simp add: swiping_def gesture_state_begin_def idle_gesture_def swipe_calls_def Let_def)

lemma stop_stage:
  assumes "gesture_state_stop run g w = Some (g', w')"
  obtains c where "gw_calls w' = gw_calls w @ c" "length c \<le> 1" "in_stage GESTURE_STAGE_STOP c"
proof (cases "g_type g = GESTURE_TYPE_SWIPE")
  case True
  then obtain h where h: "bindings_handle_gesture_binding run (g\<lparr>g_stage := GESTURE_STAGE_STOP\<rparr>) w = Some (h, w')"
    using assms by (auto simp: gesture_state_stop_def bind_eq_Some_conv Let_def)
  show ?thesis using handle_stage [OF h] that by simp metis
next
  case False
  then show ?thesis using assms that [of "[]"] by (simp add: gesture_state_stop_def)
qed

text \<open>C34: whatever the actions do, a swipe calls them in the order of the stages: any number before the trigger,
  at most one for the trigger, any number after it, at most one at the end; a cancelled swipe that was not
  triggered calls none for the trigger. The state is then that of no gesture.\<close>

theorem swipe_calls_in_stage_order:
  assumes "idle_gesture g" and "swipe run device edge fingers ms cancelled g w = Some (h, g', w')"
  shows "(\<exists>before trigger after stop. gw_calls w' = gw_calls w @ before @ trigger @ after @ stop \<and>
      in_stage GESTURE_STAGE_BEFORE before \<and> in_stage GESTURE_STAGE_TRIGGER trigger \<and> length trigger \<le> 1 \<and>
      in_stage GESTURE_STAGE_AFTER after \<and> in_stage GESTURE_STAGE_STOP stop \<and> length stop \<le> 1) \<and>
    idle_gesture g'"
proof -
  obtain g1 w1 where u: "swipe_updates run device ms (gesture_state_begin GESTURE_TYPE_SWIPE device edge fingers g) w = Some (g1, w1)"
    and e: "gesture_state_end run GESTURE_TYPE_SWIPE device cancelled g1 w1 = Some (h, g', w')"
    using assms(2) by (auto simp: swipe_def bind_eq_Some_conv)
  have s1: "swiping device (gw_calls w) g1 w1" by (rule swiping_updates [OF swiping_begin [OF assms(1)] u])
  obtain g2 w2 g3 where s2: "swiping device (gw_calls w) g2 w2" and st: "gesture_state_stop run g2 w2 = Some (g3, w')"
    and g': "g' = gesture_state_reset g3"
  proof (cases "cancelled \<or> g_triggered g1")
    case True
    then obtain g3 where "gesture_state_stop run g1 w1 = Some (g3, w')" "g' = gesture_state_reset g3"
      using e s1 by (auto simp: gesture_state_end_def swiping_def bind_eq_Some_conv split: if_splits)
    then show ?thesis using that s1 by blast
  next
    case False
    then obtain g2 w2 g3 where t: "gesture_state_trigger run g1 w1 = Some (g2, w2)"
      "gesture_state_stop run g2 w2 = Some (g3, w')" "g' = gesture_state_reset g3"
      using e s1 by (auto simp: gesture_state_end_def swiping_def bind_eq_Some_conv split: if_splits)
    then show ?thesis using that swiping_trigger [OF s1 _ t(1)] False by blast
  qed
  obtain c where c: "gw_calls w' = gw_calls w2 @ c" "length c \<le> 1" "in_stage GESTURE_STAGE_STOP c"
    using stop_stage [OF st] by metis
  obtain b t a where "gw_calls w2 = gw_calls w @ b @ t @ a" "in_stage GESTURE_STAGE_BEFORE b"
    "in_stage GESTURE_STAGE_TRIGGER t" "length t \<le> 1" "in_stage GESTURE_STAGE_AFTER a"
    using s2 unfolding swiping_def swipe_calls_def by blast
  then have "gw_calls w' = gw_calls w @ b @ t @ a @ c \<and> in_stage GESTURE_STAGE_BEFORE b \<and>
      in_stage GESTURE_STAGE_TRIGGER t \<and> length t \<le> 1 \<and> in_stage GESTURE_STAGE_AFTER a \<and>
      in_stage GESTURE_STAGE_STOP c \<and> length c \<le> 1"
    using c by simp
  then show ?thesis unfolding g' using idle_reset by blast
qed

subsection \<open>One gesture after another\<close>

text \<open>A touchpad with one binding: before the trigger of a swipe with three fingers, for every 30 units to the right.\<close>

definition some_gesture_world :: gesture_world where
  "some_gesture_world = \<lparr>gw_bindings = bindings_create\<lparr>gesture_bindings := [1], gesture_heap := [1 \<mapsto>
     \<lparr>gb_type = GESTURE_TYPE_SWIPE, gb_stage = GESTURE_STAGE_BEFORE, gb_fingers = 3, gb_devices = 1, gb_directions = 0,
      gb_follow_direction = 8, gb_edges = 0, gb_follow_threshold = 30, gb_desc = None, gb_action = Some 5, gb_data = NULL\<rparr>]\<rparr>,
     gw_locked = False, gw_calls = []\<rparr>"

definition no_gesture :: gesture_state where
  "no_gesture = \<lparr>g_type = GESTURE_TYPE_NONE, g_stage = GESTURE_STAGE_NONE, g_device = 0, g_edge = 0, g_fingers = 0,
     g_directions = 0, g_follow_direction = 0, g_dx = 0, g_dy = 0, g_follow_dx = 0, g_follow_dy = 0, g_scale = 0,
     g_rotation = 0, g_triggered = False, g_handled = False, g_timer = Some None\<rparr>"

definition keep_bindings :: run_gesture where
  "keep_bindings f p dx dy s = s"

lemmas swipe_eval = swipe_def gesture_state_begin_def gesture_state_update_def gesture_swipe_state_update_def
  over_threshold_def gesture_state_trigger_def gesture_state_follow_def bindings_handle_gesture_binding_def
  gesture_binding_fires_def main_direction_def gesture_state_end_def gesture_state_stop_def gesture_state_reset_def
  timer_update_def gesture_bits some_gesture_world_def no_gesture_def keep_bindings_def Let_def

lemma idle_no_gesture: "idle_gesture no_gesture"
  by (simp add: idle_gesture_def no_gesture_def)

theorem swipe_calls_in_stage_order_witness:
  "\<exists>h g' w'. swipe keep_bindings 1 0 3 [(40, 0), (40, 0)] False no_gesture some_gesture_world = Some (h, g', w') \<and> idle_gesture g'"
proof -
  obtain r where r: "swipe keep_bindings 1 0 3 [(40, 0), (40, 0)] False no_gesture some_gesture_world = Some r"
    by (simp add: swipe_eval)
  obtain h g' w' where "r = (h, g', w')" by (cases r) auto
  then show ?thesis using swipe_calls_in_stage_order [OF idle_no_gesture] r by blast
qed

text \<open>The distance a swipe has covered since its last call is kept when it ends, so the next swipe runs a
  binding for 30 units after 15 of its own; alone the same swipe does not run it.\<close>

theorem follow_distance_leaks:
  "(\<exists>h g w w'. swipe keep_bindings 1 0 3 [(60, 0), (20, 0)] False no_gesture some_gesture_world = Some (h, g, w) \<and>
      gw_calls w = [] \<and> swipe keep_bindings 1 0 3 [(15, 0)] True g w = Some (False, g\<lparr>g_dx := 15, g_follow_dx := 0\<rparr>, w') \<and>
      gw_calls w' = [(5, 1, GESTURE_STAGE_BEFORE, 15, 0)]) \<and>
   (\<exists>g w'. swipe keep_bindings 1 0 3 [(15, 0)] True no_gesture some_gesture_world = Some (False, g, w') \<and> gw_calls w' = [])"
  by (simp add: swipe_eval) (rule exI [of _ False], simp)

end
