(* ===== verification/Shortcuts.thy ===== *)
theory Shortcuts
  imports BindingProofs
begin

section \<open>Services that block shortcuts (\<^verbatim>\<open>config/ukui_shortcut.c\<close>)\<close>

text \<open>
  A settings service that appears on the bus is asked which types of bindings to block and which to leave; its
  blocks end when it disappears. The answers arrive later, as lists of names. \<^term>\<open>None\<close> is a failed assertion
  of the bindings or the use of a service that was freed.
\<close>

record shortcut_service =
  sv_name :: string
  black_mask :: u32
  white_mask :: u32
  sv_block_all :: bool

record shortcut_manager =
  services :: "ptr list"
  sv_heap :: "ptr \<Rightarrow> shortcut_service option"
  sc_bindings :: bindings

fun block_loop :: "string list \<Rightarrow> shortcut_service \<Rightarrow> bindings \<Rightarrow> (shortcut_service \<times> bindings) option" where
  "block_loop [] sv b = Some (sv, b)"
| "block_loop (n # ns) sv b =
     (let (type, found) = kywc_key_binding_type_by_name n in
      if \<not> found then block_loop ns sv b
      else if type = KEY_BINDING_TYPE_NUM then do {
        b \<leftarrow> kywc_key_binding_block_all True b;
        Some (sv\<lparr>sv_block_all := True\<rparr>, b)}
      else do {
        b \<leftarrow> kywc_key_binding_block_type (type_no type) True b;
        block_loop ns (sv\<lparr>black_mask := black_mask sv OR push_bit (type_no type) 1\<rparr>) b})"

definition block_shortcuts_message_handler :: "ptr \<Rightarrow> string list \<Rightarrow> shortcut_manager \<Rightarrow> shortcut_manager option" where
  "block_shortcuts_message_handler p names m = do {
     sv \<leftarrow> sv_heap m p;
     (sv, b) \<leftarrow> block_loop names sv (sc_bindings m);
     Some (m\<lparr>sv_heap := (sv_heap m)(p \<mapsto> sv), sc_bindings := b\<rparr>)}"

fun white_loop :: "string list \<Rightarrow> u32 \<Rightarrow> u32" where
  "white_loop [] wmask = wmask"
| "white_loop (n # ns) wmask =
     (let (type, found) = kywc_key_binding_type_by_name n in
      if \<not> found then white_loop ns wmask else white_loop ns (wmask OR push_bit (type_no type) 1))"

fun block_others :: "u32 \<Rightarrow> nat list \<Rightarrow> bindings \<Rightarrow> bindings option" where
  "block_others wmask [] b = Some b"
| "block_others wmask (i # is) b =
     (if wmask AND push_bit i 1 = 0 then do {
        b \<leftarrow> kywc_key_binding_block_type i True b;
        block_others wmask is b}
      else block_others wmask is b)"

definition unblock_shortcuts_message_handler :: "ptr \<Rightarrow> string list \<Rightarrow> shortcut_manager \<Rightarrow> shortcut_manager option" where
  "unblock_shortcuts_message_handler p names m = do {
     sv \<leftarrow> sv_heap m p;
     let sv = sv\<lparr>white_mask := white_loop names (white_mask sv)\<rparr>;
     b \<leftarrow> (if white_mask sv \<noteq> 0 then block_others (white_mask sv) [0..<NUM_TYPES] (sc_bindings m) else Some (sc_bindings m));
     Some (m\<lparr>sv_heap := (sv_heap m)(p \<mapsto> sv), sc_bindings := b\<rparr>)}"

fun recover_loop :: "shortcut_service \<Rightarrow> nat list \<Rightarrow> bindings \<Rightarrow> bindings option" where
  "recover_loop sv [] b = Some b"
| "recover_loop sv (i # is) b = do {
     b \<leftarrow> (if white_mask sv \<noteq> 0 \<and> white_mask sv AND push_bit i 1 = 0 then kywc_key_binding_block_type i False b else Some b);
     b \<leftarrow> (if black_mask sv AND push_bit i 1 = 0 then Some b else kywc_key_binding_block_type i False b);
     recover_loop sv is b}"

definition shortcut_service_destroy :: "ptr \<Rightarrow> shortcut_manager \<Rightarrow> shortcut_manager option" where
  "shortcut_service_destroy p m = do {
     sv \<leftarrow> sv_heap m p;
     b \<leftarrow> recover_loop sv [0..<NUM_TYPES] (sc_bindings m);
     b \<leftarrow> (if sv_block_all sv then kywc_key_binding_block_all False b else Some b);
     Some (m\<lparr>services := filter (\<lambda>q. q \<noteq> p) (services m), sv_heap := (sv_heap m)(p := None), sc_bindings := b\<rparr>)}"

fun destroy_named :: "string \<Rightarrow> ptr list \<Rightarrow> shortcut_manager \<Rightarrow> shortcut_manager option" where
  "destroy_named name [] m = Some m"
| "destroy_named name (p # ps) m = do {
     sv \<leftarrow> sv_heap m p;
     m \<leftarrow> (if sv_name sv \<noteq> name then Some m else shortcut_service_destroy p m);
     destroy_named name ps m}"

definition ukui_shortcut_service_destroy :: "string \<Rightarrow> shortcut_manager \<Rightarrow> shortcut_manager option" where
  "ukui_shortcut_service_destroy name m = destroy_named name (services m) m"

text \<open>The two questions are sent; \<open>new\<close> is the address of the new service.\<close>

definition ukui_shortcut_service_create :: "ptr \<Rightarrow> string \<Rightarrow> shortcut_manager \<Rightarrow> shortcut_manager" where
  "ukui_shortcut_service_create new name m =
     (if new = NULL then m
      else m\<lparr>sv_heap := (sv_heap m)(new \<mapsto> \<lparr>sv_name = name, black_mask = 0, white_mask = 0, sv_block_all = False\<rparr>),
             services := new # services m\<rparr>)"

definition service_prefix :: string where "service_prefix = ''org.ukui.settingsDaemon''"

definition service_message_handler ::
  "ptr \<Rightarrow> string option \<Rightarrow> string option \<Rightarrow> string option \<Rightarrow> shortcut_manager \<Rightarrow> shortcut_manager option" where
  "service_message_handler new name old_owner new_owner m =
     (case name of None \<Rightarrow> Some m
      | Some name \<Rightarrow>
        if take 23 name \<noteq> service_prefix then Some m
        else if old_owner = Some [] then Some (ukui_shortcut_service_create new name m)
        else if new_owner = Some [] then ukui_shortcut_service_destroy name m
        else Some m)"

subsection \<open>The locks of one service\<close>

definition locks :: "bindings \<Rightarrow> nat \<Rightarrow> nat" where
  "locks b i = type_nlocks b ! i"

definition sized :: "bindings \<Rightarrow> bool" where
  "sized b \<longleftrightarrow> length (type_nlocks b) = NUM_TYPES"

lemma block_type_locks:
  assumes "sized b" "t < NUM_TYPES"
  shows "\<exists>b'. kywc_key_binding_block_type t True b = Some b' \<and> sized b' \<and> keysym_bindings_block b' = keysym_bindings_block b \<and>
    locks b' = (locks b)(t := locks b t + 1)"
  using assms by (auto simp: kywc_key_binding_block_type_def sized_def locks_def fun_eq_iff nth_list_update)

lemma unblock_type_locks:
  assumes "sized b" "t < NUM_TYPES" "0 < locks b t"
  shows "\<exists>b'. kywc_key_binding_block_type t False b = Some b' \<and> sized b' \<and> keysym_bindings_block b' = keysym_bindings_block b \<and>
    locks b' = (locks b)(t := locks b t - 1)"
  using assms by (auto simp: kywc_key_binding_block_type_def sized_def locks_def fun_eq_iff nth_list_update Let_def)

lemma mask_bit: "m AND push_bit i 1 = 0 \<longleftrightarrow> \<not> bit (m :: u32) i"
  by (simp add: bit_iff_and_push_bit_not_eq_0)

lemma type_no_lt: "t \<noteq> KEY_BINDING_TYPE_NUM \<Longrightarrow> type_no t < NUM_TYPES"
  by (cases t) (simp_all add: NUM_TYPES_def)

text \<open>The types a list of names blocks, and whether it blocks all.\<close>

fun blocked_types :: "string list \<Rightarrow> nat list" where
  "blocked_types [] = []"
| "blocked_types (n # ns) =
     (let (type, found) = kywc_key_binding_type_by_name n in
      if \<not> found then blocked_types ns else if type = KEY_BINDING_TYPE_NUM then [] else type_no type # blocked_types ns)"

fun blocks_all :: "string list \<Rightarrow> bool" where
  "blocks_all [] = False"
| "blocks_all (n # ns) = (kywc_key_binding_type_by_name n = (KEY_BINDING_TYPE_NUM, True) \<or> blocks_all ns)"

lemma block_loop_locks:
  "sized b \<Longrightarrow> \<exists>sv' b'. block_loop ns sv b = Some (sv', b') \<and> sized b' \<and> white_mask sv' = white_mask sv \<and>
     keysym_bindings_block b' = keysym_bindings_block b + (if blocks_all ns then 1 else 0) \<and>
     sv_block_all sv' = (sv_block_all sv \<or> blocks_all ns) \<and>
     (\<forall>i. locks b' i = locks b i + count_list (blocked_types ns) i) \<and>
     (\<forall>i. bit (black_mask sv') i \<longleftrightarrow> bit (black_mask sv) i \<or> i \<in> set (blocked_types ns))"
proof (induction ns arbitrary: sv b)
  case (Cons n ns)
  obtain type found where tf: "kywc_key_binding_type_by_name n = (type, found)" by fastforce
  consider "\<not> found" | "found" "type = KEY_BINDING_TYPE_NUM" | "found" "type \<noteq> KEY_BINDING_TYPE_NUM" by blast
  then show ?case
  proof cases
    case 1
    then show ?thesis using Cons.IH [OF Cons.prems, of sv] tf by simp
  next
    case 2
    then show ?thesis using Cons.prems tf by (simp add: kywc_key_binding_block_all_def sized_def locks_def)
  next
    case 3
    have t: "type_no type < NUM_TYPES" "type_no type < 32"
      using type_no_lt [OF 3(2)] by (simp_all add: NUM_TYPES_def)
    obtain b1 where b1: "kywc_key_binding_block_type (type_no type) True b = Some b1" "sized b1"
      "keysym_bindings_block b1 = keysym_bindings_block b" "locks b1 = (locks b)(type_no type := locks b (type_no type) + 1)"
      using block_type_locks [OF Cons.prems t(1)] by blast
    show ?thesis
      using Cons.IH [OF b1(2), of "sv\<lparr>black_mask := black_mask sv OR push_bit (type_no type) 1\<rparr>"] tf 3 b1 t
      by (fastforce simp: bit_set_mask)
  qed
qed (simp add: locks_def)

lemma block_others_locks:
  "sized b \<Longrightarrow> set is \<subseteq> {..<NUM_TYPES} \<Longrightarrow> distinct is \<Longrightarrow> \<exists>b'. block_others w is b = Some b' \<and> sized b' \<and>
     keysym_bindings_block b' = keysym_bindings_block b \<and>
     (\<forall>i. locks b' i = locks b i + (if i \<in> set is \<and> \<not> bit w i then 1 else 0))"
proof (induction "is" arbitrary: b)
  case (Cons i "is")
  show ?case
  proof (cases "bit w i")
    case True
    obtain b2 where "block_others w is b = Some b2" "sized b2" "keysym_bindings_block b2 = keysym_bindings_block b"
      "\<forall>j. locks b2 j = locks b j + (if j \<in> set is \<and> \<not> bit w j then 1 else 0)"
      using Cons.IH [OF Cons.prems(1)] Cons.prems by auto
    then show ?thesis using True by (auto simp: mask_bit simp del: push_bit_of_1)
  next
    case False
    obtain b1 where b1: "kywc_key_binding_block_type i True b = Some b1" "sized b1"
      "keysym_bindings_block b1 = keysym_bindings_block b" "locks b1 = (locks b)(i := locks b i + 1)"
      using block_type_locks [of b i] Cons.prems by auto
    obtain b2 where "block_others w is b1 = Some b2" "sized b2" "keysym_bindings_block b2 = keysym_bindings_block b1"
      "\<forall>j. locks b2 j = locks b1 j + (if j \<in> set is \<and> \<not> bit w j then 1 else 0)"
      using Cons.IH [OF b1(2)] Cons.prems by auto
    then show ?thesis using b1 False Cons.prems(3) by (auto simp: mask_bit simp del: push_bit_of_1)
  qed
qed simp

lemma block_others_all:
  "sized b \<Longrightarrow> \<exists>b'. block_others w [0..<NUM_TYPES] b = Some b' \<and> sized b' \<and>
     keysym_bindings_block b' = keysym_bindings_block b \<and>
     (\<forall>i < NUM_TYPES. locks b' i = locks b i + (if bit w i then 0 else 1))"
  using block_others_locks [of b "[0..<NUM_TYPES]" w] by (auto simp: atLeast0LessThan)

definition held :: "shortcut_service \<Rightarrow> nat \<Rightarrow> nat" where
  "held sv i = (if white_mask sv \<noteq> 0 \<and> \<not> bit (white_mask sv) i then 1 else 0) + (if bit (black_mask sv) i then 1 else 0)"

lemma unblock_if:
  assumes "sized b" "i < NUM_TYPES" "c \<longrightarrow> 0 < locks b i"
  shows "\<exists>b'. (if c then kywc_key_binding_block_type i False b else Some b) = Some b' \<and> sized b' \<and>
    keysym_bindings_block b' = keysym_bindings_block b \<and> locks b' = (locks b)(i := locks b i - (if c then 1 else 0))"
  using assms unblock_type_locks [of b i] by auto

lemma recover_loop_locks:
  "sized b \<Longrightarrow> set is \<subseteq> {..<NUM_TYPES} \<Longrightarrow> distinct is \<Longrightarrow> \<forall>i \<in> set is. held sv i \<le> locks b i \<Longrightarrow>
   \<exists>b'. recover_loop sv is b = Some b' \<and> sized b' \<and> keysym_bindings_block b' = keysym_bindings_block b \<and>
     (\<forall>i. locks b' i = locks b i - (if i \<in> set is then held sv i else 0))"
proof (induction "is" arbitrary: b)
  case (Cons i "is")
  let ?w = "white_mask sv \<noteq> 0 \<and> white_mask sv AND push_bit i 1 = 0" and ?k = "\<not> black_mask sv AND push_bit i 1 = 0"
  have held: "held sv i = (if ?w then 1 else 0) + (if ?k then 1 else 0)" by (simp add: held_def mask_bit del: push_bit_of_1)
  have le: "held sv i \<le> locks b i" and i: "i < NUM_TYPES" using Cons.prems by simp_all
  obtain b1 where b1: "(if ?w then kywc_key_binding_block_type i False b else Some b) = Some b1" "sized b1"
    "keysym_bindings_block b1 = keysym_bindings_block b" "locks b1 = (locks b)(i := locks b i - (if ?w then 1 else 0))"
    using unblock_if [OF Cons.prems(1) i, of ?w] le held by (auto split: if_splits)
  obtain b2 where b2: "(if ?k then kywc_key_binding_block_type i False b1 else Some b1) = Some b2" "sized b2"
    "keysym_bindings_block b2 = keysym_bindings_block b1" "locks b2 = (locks b1)(i := locks b1 i - (if ?k then 1 else 0))"
    using unblock_if [OF b1(2) i, of ?k] le held b1(4) by (auto split: if_splits)
  have l2: "locks b2 = (locks b)(i := locks b i - held sv i)"
    unfolding b2(4) b1(4) held by (simp add: fun_eq_iff)
  have "\<forall>j \<in> set is. held sv j \<le> locks b2 j" using Cons.prems by (auto simp: l2)
  then obtain b3 where b3: "recover_loop sv is b2 = Some b3" "sized b3" "keysym_bindings_block b3 = keysym_bindings_block b2"
    "\<forall>j. locks b3 j = locks b2 j - (if j \<in> set is then held sv j else 0)"
    using Cons.IH [OF b2(2)] Cons.prems by auto
  have "recover_loop sv (i # is) b = Some b3"
    using b1(1) b2(1) b3(1) by (simp only: recover_loop.simps bind.simps if_not_P if_P not_not split: if_split) auto
  then show ?case using b1(3) b2(3) b3 l2 Cons.prems(3) by auto
qed simp

lemma blocked_types_lt: "i \<in> set (blocked_types ns) \<Longrightarrow> i < NUM_TYPES"
  by (induction ns) (auto simp: Let_def type_no_lt split: prod.splits if_splits)

text \<open>The life of a service: it appears, answers both questions and disappears.\<close>

definition service_life :: "ptr \<Rightarrow> string \<Rightarrow> string list \<Rightarrow> string list \<Rightarrow> shortcut_manager \<Rightarrow> shortcut_manager option" where
  "service_life p name ns ws m = do {
     let m = ukui_shortcut_service_create p name m;
     m \<leftarrow> block_shortcuts_message_handler p ns m;
     m \<leftarrow> unblock_shortcuts_message_handler p ws m;
     shortcut_service_destroy p m}"

text \<open>A service that appears, answers and disappears never fails an assertion and leaves every type with the
  locks it had, except that a type its answer names n times keeps n - 1 locks for ever: a repeated name leaves
  the type blocked, and nothing else does.\<close>

theorem service_life_locks:
  assumes "length (type_nlocks (sc_bindings m)) = NUM_TYPES" and "p \<noteq> NULL" and "p \<notin> set (services m)"
  shows "\<exists>m'. service_life p name ns ws m = Some m' \<and> services m' = services m \<and>
    keysym_bindings_block (sc_bindings m') = keysym_bindings_block (sc_bindings m) \<and>
    (\<forall>i < NUM_TYPES. type_nlocks (sc_bindings m') ! i =
       type_nlocks (sc_bindings m) ! i + (count_list (blocked_types ns) i - 1))"
proof -
  let ?sv = "\<lparr>sv_name = name, black_mask = 0, white_mask = 0, sv_block_all = False\<rparr>"
  let ?b = "sc_bindings m"
  have sz: "sized ?b" using assms(1) by (simp add: sized_def)
  obtain sv1 b1 where 1: "block_loop ns ?sv ?b = Some (sv1, b1)" "sized b1" "white_mask sv1 = 0"
    "keysym_bindings_block b1 = keysym_bindings_block ?b + (if blocks_all ns then 1 else 0)" "sv_block_all sv1 = blocks_all ns"
    "\<forall>i. locks b1 i = locks ?b i + count_list (blocked_types ns) i" "\<forall>i. bit (black_mask sv1) i \<longleftrightarrow> i \<in> set (blocked_types ns)"
    using block_loop_locks [OF sz, of ns ?sv] by auto
  define sv2 where "sv2 = sv1\<lparr>white_mask := white_loop ws 0\<rparr>"
  obtain b2 where 2: "(if white_mask sv2 \<noteq> 0 then block_others (white_mask sv2) [0..<NUM_TYPES] b1 else Some b1) = Some b2"
    "sized b2" "keysym_bindings_block b2 = keysym_bindings_block b1"
    "\<forall>i < NUM_TYPES. locks b2 i = locks b1 i + (if white_mask sv2 \<noteq> 0 \<and> \<not> bit (white_mask sv2) i then 1 else 0)"
  proof (cases "white_mask sv2 = 0")
    case True
    then show ?thesis using that [of b1] 1(2) by simp
  next
    case False
    then show ?thesis using block_others_all [OF 1(2), of "white_mask sv2"] that by auto
  qed
  have held: "held sv2 i = (if white_mask sv2 \<noteq> 0 \<and> \<not> bit (white_mask sv2) i then 1 else 0) +
      (if i \<in> set (blocked_types ns) then 1 else 0)" for i
    using 1(7) by (simp add: held_def sv2_def)
  have named: "(if i \<in> set (blocked_types ns) then 1 else 0) \<le> count_list (blocked_types ns) i" for i
    using count_list_0_iff [of "blocked_types ns" i] by auto
  have "\<forall>i \<in> set [0..<NUM_TYPES]. held sv2 i \<le> locks b2 i"
  proof
    fix i assume "i \<in> set [0..<NUM_TYPES]"
    then show "held sv2 i \<le> locks b2 i" using 1(6) 2(4) named [of i] unfolding held by simp
  qed
  then obtain b3 where 3: "recover_loop sv2 [0..<NUM_TYPES] b2 = Some b3" "sized b3"
    "keysym_bindings_block b3 = keysym_bindings_block b2" "\<forall>i < NUM_TYPES. locks b3 i = locks b2 i - held sv2 i"
    using recover_loop_locks [OF 2(2), of "[0..<NUM_TYPES]" sv2] by (auto simp: atLeast0LessThan)
  obtain b4 where 4: "(if sv_block_all sv2 then kywc_key_binding_block_all False b3 else Some b3) = Some b4"
    "keysym_bindings_block b4 = keysym_bindings_block ?b" "type_nlocks b4 = type_nlocks b3"
    using 1(4,5) 2(3) 3(3) by (auto simp: kywc_key_binding_block_all_def sv2_def)
  have "locks b3 i = locks ?b i + (count_list (blocked_types ns) i - 1)" if "i < NUM_TYPES" for i
    using 1(6) 2(4) 3(4) that named [of i] held [of i] count_list_0_iff [of "blocked_types ns" i] by (auto split: if_splits)
  then have l: "\<forall>i < NUM_TYPES. type_nlocks b4 ! i = type_nlocks ?b ! i + (count_list (blocked_types ns) i - 1)"
    by (simp add: 4(3) locks_def)
  have f: "filter (\<lambda>q. q \<noteq> p) (services m) = services m" using assms(3) by (induction "services m") (auto simp: filter_id_conv)
  have "\<exists>m'. service_life p name ns ws m = Some m' \<and> services m' = services m \<and> sc_bindings m' = b4"
    using assms(2) 1(1) 1(3) 2(1) 3(1) 4(1) f
    by (simp add: service_life_def ukui_shortcut_service_create_def block_shortcuts_message_handler_def
        unblock_shortcuts_message_handler_def shortcut_service_destroy_def sv2_def Let_def split: if_splits)
  then show ?thesis using 4(2) l by auto
qed

definition some_shortcuts :: shortcut_manager where
  "some_shortcuts = \<lparr>services = [], sv_heap = (\<lambda>_. None), sc_bindings = bindings_create\<rparr>"

theorem service_life_locks_witness:
  "\<exists>m'. service_life 1 ''org.ukui.settingsDaemon.x'' [''WLCOM_WIN_MENU'', ''WLCOM_WIN_MENU''] [] some_shortcuts = Some m' \<and>
     type_nlocks (sc_bindings m') ! 1 = 1"
  using service_life_locks [of some_shortcuts 1 "''org.ukui.settingsDaemon.x''" "[''WLCOM_WIN_MENU'', ''WLCOM_WIN_MENU'']" "[]"]
  by (auto simp: some_shortcuts_def bindings_create_def NUM_TYPES_def kywc_key_binding_type_by_name_def key_binding_table_def)

text \<open>A service that asks to leave all types unblocked, with the name that stands for all of them, blocks every type.\<close>

theorem whitelist_all_blocks_all:
  assumes "length (type_nlocks (sc_bindings m)) = NUM_TYPES" and "sv_heap m p = Some sv" and "white_mask sv = 0"
  shows "\<exists>m'. unblock_shortcuts_message_handler p [''WLCOM_ALL''] m = Some m' \<and>
    (\<forall>i < NUM_TYPES. type_nlocks (sc_bindings m') ! i = type_nlocks (sc_bindings m) ! i + 1)"
proof -
  have w: "kywc_key_binding_type_by_name ''WLCOM_ALL'' = (KEY_BINDING_TYPE_NUM, True)"
    by (simp add: kywc_key_binding_type_by_name_def key_binding_table_def)
  have "sized (sc_bindings m)" using assms(1) by (simp add: sized_def)
  then obtain b where b: "block_others (2 ^ 18) [0..<NUM_TYPES] (sc_bindings m) = Some b"
    "\<forall>i < NUM_TYPES. locks b i = locks (sc_bindings m) i + (if bit (2 ^ 18 :: u32) i then 0 else 1)"
    using block_others_all by blast
  have "\<not> bit (2 ^ 18 :: u32) i" if "i < NUM_TYPES" for i
    using that by (simp add: bit_exp_iff NUM_TYPES_def del: power_numeral)
  then have "\<forall>i < NUM_TYPES. type_nlocks b ! i = type_nlocks (sc_bindings m) ! i + 1" using b(2) unfolding locks_def by simp blast
  moreover have "unblock_shortcuts_message_handler p [''WLCOM_ALL''] m =
      Some (m\<lparr>sv_heap := (sv_heap m)(p \<mapsto> sv\<lparr>white_mask := 2 ^ 18\<rparr>), sc_bindings := b\<rparr>)"
    using assms(2,3) b(1) w by (simp add: unblock_shortcuts_message_handler_def Let_def)
  ultimately show ?thesis by simp
qed

theorem whitelist_all_blocks_all_witness:
  "\<exists>m'. unblock_shortcuts_message_handler 1 [''WLCOM_ALL''] (ukui_shortcut_service_create 1 [] some_shortcuts) = Some m' \<and>
     type_nlocks (sc_bindings m') ! 5 = 1"
  using whitelist_all_blocks_all [of "ukui_shortcut_service_create 1 [] some_shortcuts" 1]
  by (auto simp: ukui_shortcut_service_create_def some_shortcuts_def bindings_create_def NUM_TYPES_def)

end
