(* ===== verification/SessionLock.thy ===== *)
theory SessionLock
  imports Prelude "HOL-Library.Monad_Syntax"
begin

section \<open>The session lock (\<^verbatim>\<open>view/session_lock.c\<close>)\<close>

text \<open>
  A lock client covers every output and takes the keyboard; when it disappears the session stays locked and a
  replacement is asked for. Locks live in a heap, and each handler of the C code is a function on the state.
  What the handlers ask of other parts is recorded in order. \<^term>\<open>None\<close> is a call of \<^verbatim>\<open>abort\<close> or the use of a
  freed lock. Outputs, commit numbers and mapped surfaces belong to wlroots and the output manager and are
  part of the state.
\<close>

subsection \<open>State\<close>

text \<open>A lock output: its output, whether its tree is shown, the surface of the client (\<open>NULL\<close> for none).\<close>

record session_lock_output =
  lo_output :: ptr
  lo_enabled :: bool
  lo_surface :: ptr
  previous_commit_seq :: u32
  lo_presented :: bool

text \<open>\<open>attached\<close> says that the listeners on the protocol object are in place.\<close>

record session_lock =
  protocol_lock :: ptr
  sl_outputs :: "session_lock_output list"
  focused :: ptr
  abandoned :: bool
  locked_sent :: bool
  destroying :: bool
  attached :: bool

datatype lock_effect = SendLocked ptr | FocusSeats ptr | CancelGrabs | ActivateTopmost | DestroyProtocolLock ptr
  | RequestLocker

record session_lock_manager =
  manager_alive :: bool
  lm_lock :: ptr
  recovery_timer :: "nat option"
  recovery_attempts :: nat
  locks :: "ptr \<Rightarrow> session_lock option"
  lw_outputs :: "ptr list"
  lw_enabled :: "ptr \<Rightarrow> bool"
  lw_commit_seq :: "ptr \<Rightarrow> u32"
  surface_mapped :: "ptr \<Rightarrow> bool"
  root_surface :: "ptr \<Rightarrow> ptr"
  effects :: "lock_effect list"

definition LOCK_RECOVERY_INTERVAL_MS :: nat where "LOCK_RECOVERY_INTERVAL_MS = 1000"
definition LOCK_RECOVERY_MAX_ATTEMPTS :: nat where "LOCK_RECOVERY_MAX_ATTEMPTS = 10"

definition effect :: "lock_effect \<Rightarrow> session_lock_manager \<Rightarrow> session_lock_manager" where
  "effect e s = s\<lparr>effects := effects s @ [e]\<rparr>"

definition upd_lock :: "ptr \<Rightarrow> (session_lock \<Rightarrow> session_lock) \<Rightarrow> session_lock_manager \<Rightarrow> session_lock_manager" where
  "upd_lock p f s = s\<lparr>locks := (locks s)(p := map_option f (locks s p))\<rparr>"

definition upd_out :: "ptr \<Rightarrow> (session_lock_output \<Rightarrow> session_lock_output) \<Rightarrow> session_lock \<Rightarrow> session_lock" where
  "upd_out out f l = l\<lparr>sl_outputs := map (\<lambda>lo. if lo_output lo = out then f lo else lo) (sl_outputs l)\<rparr>"

subsection \<open>Queries\<close>

definition session_lock_is_active :: "session_lock_manager \<Rightarrow> bool" where
  "session_lock_is_active s \<longleftrightarrow> manager_alive s \<and> lm_lock s \<noteq> NULL"

definition current_lock :: "session_lock_manager \<Rightarrow> session_lock option" where
  "current_lock s = (if session_lock_is_active s then locks s (lm_lock s) else None)"

definition session_lock_surface_is_allowed :: "session_lock_manager \<Rightarrow> ptr \<Rightarrow> bool" where
  "session_lock_surface_is_allowed s surface =
     (if \<not> session_lock_is_active s \<or> surface = NULL then False
      else case current_lock s of None \<Rightarrow> False
        | Some l \<Rightarrow> list_ex (\<lambda>lo. lo_surface lo \<noteq> NULL \<and> lo_surface lo = root_surface s surface) (sl_outputs l))"

definition session_lock_get_focus_surface :: "session_lock_manager \<Rightarrow> ptr" where
  "session_lock_get_focus_surface s =
     (case current_lock s of None \<Rightarrow> NULL
      | Some l \<Rightarrow>
        if focused l \<noteq> NULL \<and> surface_mapped s (focused l) then focused l
        else case find (\<lambda>lo. lo_surface lo \<noteq> NULL \<and> surface_mapped s (lo_surface lo)) (sl_outputs l) of
          None \<Rightarrow> NULL | Some lo \<Rightarrow> lo_surface lo)"

definition lock_output_from_wlr_output :: "session_lock \<Rightarrow> ptr \<Rightarrow> session_lock_output option" where
  "lock_output_from_wlr_output l out = find (\<lambda>lo. lo_output lo = out) (sl_outputs l)"

subsection \<open>Focus\<close>

text \<open>The surface a seat takes when it is asked to focus one (\<^verbatim>\<open>seat_focus_surface\<close>).\<close>

definition seat_focus_choice :: "session_lock_manager \<Rightarrow> ptr \<Rightarrow> ptr" where
  "seat_focus_choice s surface =
     (if session_lock_is_active s \<and> \<not> session_lock_surface_is_allowed s surface
      then session_lock_get_focus_surface s else surface)"

definition focus_surface :: "ptr \<Rightarrow> ptr \<Rightarrow> session_lock_manager \<Rightarrow> session_lock_manager" where
  "focus_surface p surface s =
     (let s = upd_lock p (\<lambda>l. l\<lparr>focused := surface\<rparr>) s in effect (FocusSeats (seat_focus_choice s surface)) s)"

definition refocus_surface :: "ptr \<Rightarrow> ptr \<Rightarrow> session_lock_manager \<Rightarrow> session_lock_manager option" where
  "refocus_surface p removed s = do {
     l \<leftarrow> locks s p;
     if focused l \<noteq> removed then Some s
     else let s = upd_lock p (\<lambda>l. l\<lparr>focused := NULL\<rparr>) s
          in Some (focus_surface p (session_lock_get_focus_surface s) s)}"

definition lock_surface_click :: "ptr \<Rightarrow> ptr \<Rightarrow> session_lock_manager \<Rightarrow> session_lock_manager option" where
  "lock_surface_click p out s = do {
     l \<leftarrow> locks s p;
     lo \<leftarrow> lock_output_from_wlr_output l out;
     Some (if lo_surface lo \<noteq> NULL \<and> surface_mapped s (lo_surface lo) then focus_surface p (lo_surface lo) s else s)}"

subsection \<open>Outputs\<close>

definition session_lock_try_send_locked :: "ptr \<Rightarrow> session_lock_manager \<Rightarrow> session_lock_manager option" where
  "session_lock_try_send_locked p s = do {
     l \<leftarrow> locks s p;
     if destroying l \<or> locked_sent l \<or> protocol_lock l = NULL then Some s
     else if list_ex (\<lambda>lo. lw_enabled s (lo_output lo) \<and> \<not> lo_presented lo) (sl_outputs l) then Some s
     else Some (effect (SendLocked (protocol_lock l)) (upd_lock p (\<lambda>l. l\<lparr>locked_sent := True\<rparr>) s))}"

definition handle_output_present :: "ptr \<Rightarrow> ptr \<Rightarrow> u32 \<Rightarrow> bool \<Rightarrow> session_lock_manager \<Rightarrow> session_lock_manager option" where
  "handle_output_present p out commit_seq presented s = do {
     l \<leftarrow> locks s p;
     lo \<leftarrow> lock_output_from_wlr_output l out;
     if lo_presented lo \<or> \<not> lw_enabled s out \<or> commit_seq = previous_commit_seq lo then Some s
     else if \<not> presented then Some s
     else session_lock_try_send_locked p (upd_lock p (upd_out out (\<lambda>lo. lo\<lparr>lo_presented := True\<rparr>)) s)}"

definition lock_output_destroy :: "ptr \<Rightarrow> ptr \<Rightarrow> session_lock_manager \<Rightarrow> session_lock_manager option" where
  "lock_output_destroy p out s = do {
     l \<leftarrow> locks s p;
     lo \<leftarrow> lock_output_from_wlr_output l out;
     s \<leftarrow> refocus_surface p (lo_surface lo) (upd_lock p (upd_out out (\<lambda>lo. lo\<lparr>lo_surface := NULL\<rparr>)) s);
     session_lock_try_send_locked p
       (upd_lock p (\<lambda>l. l\<lparr>sl_outputs := filter (\<lambda>lo. lo_output lo \<noteq> out) (sl_outputs l)\<rparr>) s)}"

definition handle_output_disable :: "bool \<Rightarrow> ptr \<Rightarrow> ptr \<Rightarrow> session_lock_manager \<Rightarrow> session_lock_manager option" where
  "handle_output_disable output_destroying p out s =
     (if output_destroying then lock_output_destroy p out s
      else session_lock_try_send_locked p (upd_lock p (upd_out out (\<lambda>lo. lo\<lparr>lo_enabled := False\<rparr>)) s))"

text \<open>\<open>ok\<close> says that memory, scene nodes and the event node could be created.\<close>

definition lock_output_create :: "bool \<Rightarrow> ptr \<Rightarrow> ptr \<Rightarrow> session_lock_manager \<Rightarrow> session_lock_manager option" where
  "lock_output_create ok p out s =
     (if \<not> ok then None
      else Some (upd_lock p (\<lambda>l. l\<lparr>sl_outputs := \<lparr>lo_output = out, lo_enabled = lw_enabled s out, lo_surface = NULL,
        previous_commit_seq = lw_commit_seq s out, lo_presented = False\<rparr> # sl_outputs l\<rparr>) s))"

subsection \<open>Surfaces\<close>

definition handle_surface_map :: "ptr \<Rightarrow> ptr \<Rightarrow> session_lock_manager \<Rightarrow> session_lock_manager option" where
  "handle_surface_map p out s = do {
     l \<leftarrow> locks s p;
     lo \<leftarrow> lock_output_from_wlr_output l out;
     Some (if focused l = NULL then focus_surface p (lo_surface lo) s else s)}"

definition handle_surface_destroy :: "ptr \<Rightarrow> ptr \<Rightarrow> session_lock_manager \<Rightarrow> session_lock_manager option" where
  "handle_surface_destroy p out s = do {
     l \<leftarrow> locks s p;
     lo \<leftarrow> lock_output_from_wlr_output l out;
     refocus_surface p (lo_surface lo) (upd_lock p (upd_out out (\<lambda>lo. lo\<lparr>lo_surface := NULL\<rparr>)) s)}"

definition handle_new_surface :: "bool \<Rightarrow> bool \<Rightarrow> ptr \<Rightarrow> ptr \<Rightarrow> ptr \<Rightarrow> session_lock_manager \<Rightarrow> session_lock_manager option" where
  "handle_new_surface create_ok tree_ok p surface out s = do {
     l \<leftarrow> locks s p;
     s \<leftarrow> (if lock_output_from_wlr_output l out = None then lock_output_create create_ok p out s else Some s);
     l \<leftarrow> locks s p;
     lo \<leftarrow> lock_output_from_wlr_output l out;
     if lo_surface lo \<noteq> NULL then None
     else if \<not> tree_ok then None
     else Some (upd_lock p (upd_out out (\<lambda>lo. lo\<lparr>lo_surface := surface\<rparr>)) s)}"

subsection \<open>The life of a lock\<close>

definition session_lock_detach_protocol :: "ptr \<Rightarrow> session_lock_manager \<Rightarrow> session_lock_manager" where
  "session_lock_detach_protocol p s = upd_lock p (\<lambda>l. l\<lparr>attached := False\<rparr>) s"

fun destroy_outputs :: "ptr \<Rightarrow> ptr list \<Rightarrow> session_lock_manager \<Rightarrow> session_lock_manager option" where
  "destroy_outputs p [] s = Some s"
| "destroy_outputs p (out # outs) s = do {
     s \<leftarrow> lock_output_destroy p out s;
     destroy_outputs p outs s}"

definition session_lock_destroy :: "ptr \<Rightarrow> bool \<Rightarrow> session_lock_manager \<Rightarrow> session_lock_manager option" where
  "session_lock_destroy p restore_focus s = do {
     l \<leftarrow> locks s p;
     let s = session_lock_detach_protocol p (upd_lock p (\<lambda>l. l\<lparr>destroying := True\<rparr>) s);
     let s = (if restore_focus then effect CancelGrabs s else s);
     s \<leftarrow> destroy_outputs p (map lo_output (sl_outputs l)) s;
     let s = (if manager_alive s \<and> lm_lock s = p then s\<lparr>lm_lock := NULL\<rparr> else s);
     let s = s\<lparr>locks := (locks s)(p := None)\<rparr>;
     Some (if restore_focus then effect ActivateTopmost s else s)}"

definition handle_unlock :: "ptr \<Rightarrow> session_lock_manager \<Rightarrow> session_lock_manager option" where
  "handle_unlock p s = session_lock_destroy p True s"

definition handle_lock_abandoned :: "ptr \<Rightarrow> session_lock_manager \<Rightarrow> session_lock_manager option" where
  "handle_lock_abandoned p s = do {
     l \<leftarrow> locks s p;
     if \<not> locked_sent l then session_lock_destroy p True s
     else do {
       let s = session_lock_detach_protocol p s;
       let s = upd_lock p (\<lambda>l. l\<lparr>protocol_lock := NULL, abandoned := True\<rparr>) s;
       let s = focus_surface p NULL s;
       Some (s\<lparr>recovery_attempts := 0, recovery_timer := Some LOCK_RECOVERY_INTERVAL_MS\<rparr>)}}"

definition stop_lock_recovery :: "session_lock_manager \<Rightarrow> session_lock_manager" where
  "stop_lock_recovery s = s\<lparr>recovery_timer := None, recovery_attempts := 0\<rparr>"

text \<open>The timer fires once and is armed again by the handler.\<close>

definition handle_lock_recovery_timer :: "session_lock_manager \<Rightarrow> session_lock_manager" where
  "handle_lock_recovery_timer s =
     (let s = s\<lparr>recovery_timer := None\<rparr> in
      case (if lm_lock s = NULL then None else locks s (lm_lock s)) of
        None \<Rightarrow> s\<lparr>recovery_attempts := 0\<rparr>
      | Some l \<Rightarrow>
        if \<not> abandoned l then s\<lparr>recovery_attempts := 0\<rparr>
        else let s = effect RequestLocker (s\<lparr>recovery_attempts := recovery_attempts s + 1\<rparr>)
             in if recovery_attempts s < LOCK_RECOVERY_MAX_ATTEMPTS
                then s\<lparr>recovery_timer := Some LOCK_RECOVERY_INTERVAL_MS\<rparr> else s)"

text \<open>The loop over the enabled outputs; the result says whether an output could not be covered.\<close>

fun add_lock_outputs :: "(ptr \<Rightarrow> bool) \<Rightarrow> ptr \<Rightarrow> ptr list \<Rightarrow> session_lock_manager \<Rightarrow> bool \<times> session_lock_manager" where
  "add_lock_outputs ok p [] s = (False, s)"
| "add_lock_outputs ok p (out # outs) s =
     (if \<not> lw_enabled s out then add_lock_outputs ok p outs s
      else case lock_output_create (ok out) p out s of
        None \<Rightarrow> (True, s)
      | Some s \<Rightarrow> add_lock_outputs ok p outs s)"

definition new_session_lock :: "ptr \<Rightarrow> session_lock" where
  "new_session_lock protocol = \<lparr>protocol_lock = protocol, sl_outputs = [], focused = NULL, abandoned = False,
     locked_sent = False, destroying = False, attached = True\<rparr>"

text \<open>\<open>p\<close> is the address \<^verbatim>\<open>calloc\<close> returns for the lock.\<close>

definition handle_new_lock :: "(ptr \<Rightarrow> bool) \<Rightarrow> ptr \<Rightarrow> ptr \<Rightarrow> session_lock_manager \<Rightarrow> session_lock_manager option" where
  "handle_new_lock ok p protocol s = do {
     refused \<leftarrow> (if lm_lock s = NULL then Some False
                 else do { l \<leftarrow> locks s (lm_lock s); Some (\<not> abandoned l) });
     if refused then Some (effect (DestroyProtocolLock protocol) s)
     else if p = NULL then Some (effect (DestroyProtocolLock protocol) s)
     else do {
       let abandoned_lock = lm_lock s;
       let s = s\<lparr>locks := (locks s)(p \<mapsto> new_session_lock protocol)\<rparr>;
       let (failed, s) = add_lock_outputs ok p (lw_outputs s) s;
       if failed then do {
         s \<leftarrow> session_lock_destroy p False s;
         Some (effect (DestroyProtocolLock protocol) s)}
       else do {
         s \<leftarrow> (if abandoned_lock \<noteq> NULL then session_lock_destroy abandoned_lock False s else Some s);
         let s = stop_lock_recovery (s\<lparr>lm_lock := p\<rparr>);
         let s = focus_surface p NULL (effect CancelGrabs s);
         session_lock_try_send_locked p s}}}"

definition handle_new_output :: "bool \<Rightarrow> ptr \<Rightarrow> session_lock_manager \<Rightarrow> session_lock_manager option" where
  "handle_new_output ok out s =
     (if lm_lock s = NULL then Some s
      else do {
        l \<leftarrow> locks s (lm_lock s);
        s \<leftarrow> (if lock_output_from_wlr_output l out = None then lock_output_create ok (lm_lock s) out s else Some s);
        Some (upd_lock (lm_lock s) (upd_out out (\<lambda>lo. lo\<lparr>lo_presented := False,
          previous_commit_seq := lw_commit_seq s out, lo_enabled := True\<rparr>)) s)})"

definition session_lock_manager_destroy :: "session_lock_manager \<Rightarrow> session_lock_manager option" where
  "session_lock_manager_destroy s =
     (if \<not> manager_alive s then Some s
      else do {
        s \<leftarrow> (if lm_lock s \<noteq> NULL then session_lock_destroy (lm_lock s) False s else Some s);
        Some (s\<lparr>manager_alive := False, recovery_timer := None\<rparr>)})"

definition session_lock_manager_create ::
  "ptr list \<Rightarrow> (ptr \<Rightarrow> bool) \<Rightarrow> (ptr \<Rightarrow> u32) \<Rightarrow> (ptr \<Rightarrow> ptr) \<Rightarrow> session_lock_manager" where
  "session_lock_manager_create outs enabled seqs root =
     \<lparr>manager_alive = True, lm_lock = NULL, recovery_timer = None, recovery_attempts = 0, locks = (\<lambda>_. None),
      lw_outputs = outs, lw_enabled = enabled, lw_commit_seq = seqs, surface_mapped = (\<lambda>_. False), root_surface = root,
      effects = []\<rparr>"

subsection \<open>Events\<close>

text \<open>
  What can happen: requests and the disappearance of the lock client, changes of outputs, frames, surfaces, the
  timer and the end of the manager. The output manager sets the state of an output before it tells its
  listeners; a listener on a protocol object or an output is called only while it is attached.
\<close>

datatype lock_event = NewLock "ptr \<Rightarrow> bool" ptr ptr | Unlock | LockerGone
  | OutputOn bool ptr | OutputOff ptr | OutputGone ptr | Commit ptr | Present ptr u32 bool
  | NewLockSurface bool bool ptr ptr | SurfaceMap ptr | SurfaceUnmap ptr | SurfaceGone ptr | Click ptr
  | RecoveryTimer | ManagerGone

definition has_lock_output :: "session_lock \<Rightarrow> ptr \<Rightarrow> bool" where
  "has_lock_output l out \<longleftrightarrow> lock_output_from_wlr_output l out \<noteq> None"

text \<open>A handler of the current lock, when the condition on it holds.\<close>

definition on_lock :: "(session_lock \<Rightarrow> bool) \<Rightarrow> (ptr \<Rightarrow> session_lock_manager \<Rightarrow> session_lock_manager option) \<Rightarrow>
    session_lock_manager \<Rightarrow> session_lock_manager option" where
  "on_lock P f s =
     (case current_lock s of None \<Rightarrow> Some s | Some l \<Rightarrow> if P l then f (lm_lock s) s else Some s)"

definition surface_of :: "session_lock \<Rightarrow> ptr \<Rightarrow> ptr" where
  "surface_of l out = (case lock_output_from_wlr_output l out of None \<Rightarrow> NULL | Some lo \<Rightarrow> lo_surface lo)"

definition lock_step :: "lock_event \<Rightarrow> session_lock_manager \<Rightarrow> session_lock_manager option" where
  "lock_step e s =
     (case e of
        NewLock ok p protocol \<Rightarrow>
          if \<not> manager_alive s \<or> locks s p \<noteq> None \<or> protocol = NULL then Some s else handle_new_lock ok p protocol s
      | Unlock \<Rightarrow> on_lock attached handle_unlock s
      | LockerGone \<Rightarrow> on_lock attached handle_lock_abandoned s
      | OutputOn ok out \<Rightarrow>
          let s = s\<lparr>lw_outputs := List.insert out (lw_outputs s), lw_enabled := (lw_enabled s)(out := True)\<rparr>
          in if manager_alive s then handle_new_output ok out s else Some s
      | OutputOff out \<Rightarrow>
          on_lock (\<lambda>l. has_lock_output l out) (\<lambda>p. handle_output_disable False p out)
            (s\<lparr>lw_enabled := (lw_enabled s)(out := False)\<rparr>)
      | OutputGone out \<Rightarrow>
          map_option (\<lambda>s. s\<lparr>lw_outputs := removeAll out (lw_outputs s)\<rparr>)
            (on_lock (\<lambda>l. has_lock_output l out) (\<lambda>p. handle_output_disable True p out) s)
      | Commit out \<Rightarrow> Some (s\<lparr>lw_commit_seq := (lw_commit_seq s)(out := lw_commit_seq s out + 1)\<rparr>)
      | Present out seq ok \<Rightarrow> on_lock (\<lambda>l. has_lock_output l out) (\<lambda>p. handle_output_present p out seq ok) s
      | NewLockSurface ok tree_ok surface out \<Rightarrow>
          if surface = NULL then Some s
          else on_lock attached (\<lambda>p. handle_new_surface ok tree_ok p surface out) s
      | SurfaceMap out \<Rightarrow>
          on_lock (\<lambda>l. surface_of l out \<noteq> NULL) (\<lambda>p s. handle_surface_map p out
            (case current_lock s of None \<Rightarrow> s
             | Some l \<Rightarrow> s\<lparr>surface_mapped := (surface_mapped s)(surface_of l out := True)\<rparr>)) s
      | SurfaceUnmap surface \<Rightarrow> Some (s\<lparr>surface_mapped := (surface_mapped s)(surface := False)\<rparr>)
      | SurfaceGone out \<Rightarrow> on_lock (\<lambda>l. surface_of l out \<noteq> NULL) (\<lambda>p. handle_surface_destroy p out) s
      | Click out \<Rightarrow> on_lock (\<lambda>l. has_lock_output l out) (\<lambda>p. lock_surface_click p out) s
      | RecoveryTimer \<Rightarrow>
          if manager_alive s \<and> recovery_timer s \<noteq> None then Some (handle_lock_recovery_timer s) else Some s
      | ManagerGone \<Rightarrow> session_lock_manager_destroy s)"

fun lock_run :: "lock_event list \<Rightarrow> session_lock_manager \<Rightarrow> session_lock_manager option" where
  "lock_run [] s = Some s"
| "lock_run (e # es) s = do { s \<leftarrow> lock_step e s; lock_run es s }"

end
