(* ===== verification/SessionLockProofs.thy ===== *)
theory SessionLockProofs
  imports SessionLock
begin

section \<open>What the session lock guarantees\<close>

text \<open>
  While the session is locked every enabled output is covered and the keyboard stays with the lock client; the
  client is told that the session is locked only when every output has shown its cover; and the lock ends only
  in three ways, one of which is a replacement that dies early.
\<close>

subsection \<open>Frames\<close>

definition same_env :: "session_lock_manager \<Rightarrow> session_lock_manager \<Rightarrow> bool" where
  "same_env s s' \<longleftrightarrow> manager_alive s' = manager_alive s \<and> lw_outputs s' = lw_outputs s \<and> lw_enabled s' = lw_enabled s"

text \<open>The messages to lock clients, the part of the effects that matters here.\<close>

definition sent_locked :: "session_lock_manager \<Rightarrow> lock_effect list" where
  "sent_locked s = filter (\<lambda>e. \<exists>pr. e = SendLocked pr) (effects s)"

lemma frames [simp]:
  "manager_alive (effect e s) = manager_alive s" "lm_lock (effect e s) = lm_lock s" "locks (effect e s) = locks s"
  "lw_outputs (effect e s) = lw_outputs s" "lw_enabled (effect e s) = lw_enabled s"
  "manager_alive (upd_lock p f s) = manager_alive s" "lm_lock (upd_lock p f s) = lm_lock s"
  "lw_outputs (upd_lock p f s) = lw_outputs s" "lw_enabled (upd_lock p f s) = lw_enabled s"
  "locks (upd_lock p f s) = (locks s)(p := map_option f (locks s p))" "effects (upd_lock p f s) = effects s"
  "sent_locked (upd_lock p f s) = sent_locked s"
  "surface_mapped (upd_lock p f s) = surface_mapped s" "surface_mapped (effect e s) = surface_mapped s"
  by (simp_all add: effect_def upd_lock_def sent_locked_def)

lemma sent_locked_effect [simp]:
  "sent_locked (effect (FocusSeats f) s) = sent_locked s" "sent_locked (effect CancelGrabs s) = sent_locked s"
  "sent_locked (effect ActivateTopmost s) = sent_locked s" "sent_locked (effect (DestroyProtocolLock q) s) = sent_locked s"
  "sent_locked (effect RequestLocker s) = sent_locked s"
  "sent_locked (effect (SendLocked q) s) = sent_locked s @ [SendLocked q]"
  by (simp_all add: sent_locked_def effect_def)

lemma same_env_refl [simp]: "same_env s s" "same_env s (effect e s)" "same_env s (upd_lock p f s)"
  by (simp_all add: same_env_def)

lemma same_env_trans: "same_env s t \<Longrightarrow> same_env t u \<Longrightarrow> same_env s u"
  by (simp add: same_env_def)

lemma upd_out_outputs [simp]: "map lo_output (sl_outputs (upd_out out f l)) = map lo_output (sl_outputs l)"
  if "\<And>lo. lo_output (f lo) = lo_output lo"
  using that by (auto simp: upd_out_def)

lemma upd_out_fields [simp]:
  "destroying (upd_out out f l) = destroying l" "locked_sent (upd_out out f l) = locked_sent l"
  "protocol_lock (upd_out out f l) = protocol_lock l" "focused (upd_out out f l) = focused l"
  "abandoned (upd_out out f l) = abandoned l" "attached (upd_out out f l) = attached l"
  by (simp_all add: upd_out_def)

lemma lock_output_Some:
  "lock_output_from_wlr_output l out = Some lo \<Longrightarrow> lo \<in> set (sl_outputs l) \<and> lo_output lo = out"
  by (auto simp: lock_output_from_wlr_output_def find_Some_iff)

lemma lock_output_ex: "out \<in> lo_output ` set (sl_outputs l) \<Longrightarrow> \<exists>lo. lock_output_from_wlr_output l out = Some lo"
  by (auto simp: lock_output_from_wlr_output_def find_None_iff simp flip: not_None_eq)

subsection \<open>The invariant\<close>

definition covered :: "session_lock_manager \<Rightarrow> session_lock \<Rightarrow> bool" where
  "covered s l \<longleftrightarrow> (\<forall>out \<in> set (lw_outputs s). lw_enabled s out \<longrightarrow>
     (\<exists>lo \<in> set (sl_outputs l). lo_output lo = out \<and> lo_enabled lo))"

definition focus_ok :: "session_lock \<Rightarrow> bool" where
  "focus_ok l \<longleftrightarrow> focused l = NULL \<or> focused l \<in> lo_surface ` set (sl_outputs l)"

definition lock_ok :: "session_lock_manager \<Rightarrow> session_lock \<Rightarrow> bool" where
  "lock_ok s l \<longleftrightarrow> distinct (map lo_output (sl_outputs l)) \<and> \<not> destroying l \<and> covered s l \<and> focus_ok l \<and>
     (abandoned l \<longrightarrow> locked_sent l \<and> \<not> attached l)"

definition lock_inv :: "session_lock_manager \<Rightarrow> bool" where
  "lock_inv s \<longleftrightarrow> distinct (lw_outputs s) \<and> (\<forall>p. locks s p \<noteq> None \<longleftrightarrow> p = lm_lock s \<and> p \<noteq> NULL) \<and> (\<not> manager_alive s \<longrightarrow> lm_lock s = NULL) \<and>
     (\<forall>l. locks s (lm_lock s) = Some l \<longrightarrow> lock_ok s l)"

lemma lock_inv_current: "lock_inv s \<Longrightarrow> current_lock s = locks s (lm_lock s)"
  by (auto simp: lock_inv_def current_lock_def session_lock_is_active_def)

text \<open>What a handler of the current lock may do to the state: it changes only this lock.\<close>

definition updates :: "ptr \<Rightarrow> session_lock \<Rightarrow> session_lock_manager \<Rightarrow> session_lock_manager \<Rightarrow> bool" where
  "updates p l s s' \<longleftrightarrow> same_env s s' \<and> lm_lock s' = lm_lock s \<and> locks s' = (locks s)(p \<mapsto> l)"

lemma lock_inv_updates:
  assumes "lock_inv s" "locks s (lm_lock s) = Some l0" "updates (lm_lock s) l s s'" "lock_ok s l"
  shows "lock_inv s'"
proof -
  have "lock_ok s' l = lock_ok s l" using assms(3) by (simp add: updates_def lock_ok_def covered_def same_env_def)
  then show ?thesis using assms by (auto simp: lock_inv_def updates_def same_env_def split: if_splits) 
qed

lemma try_send_spec:
  assumes "locks s p = Some l"
  obtains s' sent where "session_lock_try_send_locked p s = Some s'" "updates p (l\<lparr>locked_sent := locked_sent l \<or> sent\<rparr>) s s'"
    "sent \<longrightarrow> \<not> destroying l \<and> protocol_lock l \<noteq> NULL \<and> (\<forall>lo \<in> set (sl_outputs l). lw_enabled s (lo_output lo) \<longrightarrow> lo_presented lo)"
    "sent_locked s' = sent_locked s @ (if sent then [SendLocked (protocol_lock l)] else [])"
proof (cases "destroying l \<or> locked_sent l \<or> protocol_lock l = NULL \<or>
    list_ex (\<lambda>lo. lw_enabled s (lo_output lo) \<and> \<not> lo_presented lo) (sl_outputs l)")
  case True
  have "(locks s)(p \<mapsto> l) = locks s" using assms by auto
  moreover have "session_lock_try_send_locked p s = Some s"
    using True assms by (auto simp: session_lock_try_send_locked_def)
  ultimately show ?thesis using that [of s False] by (simp add: updates_def)
next
  case False
  then have "session_lock_try_send_locked p s =
      Some (effect (SendLocked (protocol_lock l)) (upd_lock p (\<lambda>l. l\<lparr>locked_sent := True\<rparr>) s))"
    using assms by (auto simp: session_lock_try_send_locked_def)
  then show ?thesis
    by (rule that [where sent = True]) (use assms False in \<open>auto simp: updates_def same_env_def list_ex_iff\<close>)
qed

lemma focus_surface_spec:
  "locks s p = Some l \<Longrightarrow> updates p (l\<lparr>focused := f\<rparr>) s (focus_surface p f s) \<and> sent_locked (focus_surface p f s) = sent_locked s"
  by (auto simp: focus_surface_def updates_def Let_def same_env_def)

lemma get_focus_surface:
  assumes "current_lock s = Some l" "focused l = NULL"
  shows "session_lock_get_focus_surface s = NULL \<or> session_lock_get_focus_surface s \<in> lo_surface ` set (sl_outputs l)"
  using assms by (auto simp: session_lock_get_focus_surface_def find_Some_iff split: option.split)

lemma refocus_spec:
  assumes "locks s p = Some l"
  obtains s' f where "refocus_surface p r s = Some s'" "updates p (l\<lparr>focused := f\<rparr>) s s'" "sent_locked s' = sent_locked s"
    "focused l \<noteq> r \<longrightarrow> f = focused l"
    "focused l = r \<and> p = lm_lock s \<and> session_lock_is_active s \<longrightarrow> f = NULL \<or> f \<in> lo_surface ` set (sl_outputs l)"
proof (cases "focused l = r")
  case False
  moreover have "(locks s)(p \<mapsto> l) = locks s" using assms by (simp add: fun_upd_idem)
  ultimately show ?thesis
    using assms that [of s "focused l"] by (simp add: refocus_surface_def updates_def)
next
  case True
  let ?s = "upd_lock p (\<lambda>l. l\<lparr>focused := NULL\<rparr>) s" and ?l = "l\<lparr>focused := NULL\<rparr>"
  let ?f = "session_lock_get_focus_surface ?s"
  have "locks ?s p = Some ?l" using assms by simp
  note f = focus_surface_spec [OF this, of ?f]
  have "refocus_surface p r s = Some (focus_surface p ?f ?s)" using True assms by (simp add: refocus_surface_def Let_def)
  moreover have "?f = NULL \<or> ?f \<in> lo_surface ` set (sl_outputs l)" if "p = lm_lock s" "session_lock_is_active s"
    using get_focus_surface [of ?s ?l] that assms by (simp add: current_lock_def session_lock_is_active_def)
  moreover have "updates p (l\<lparr>focused := ?f\<rparr>) s (focus_surface p ?f ?s)"
    using f by (auto simp: updates_def same_env_def)
  ultimately show ?thesis using f that True by (metis frames(12))
qed

lemma surface_cleared_focus:
  assumes "distinct (map lo_output (sl_outputs l))" "lock_output_from_wlr_output l out = Some lo" "focus_ok l" "focused l \<noteq> lo_surface lo"
  shows "focus_ok (upd_out out (\<lambda>lo. lo\<lparr>lo_surface := NULL\<rparr>) l)"
proof (cases "focused l = NULL")
  case False
  then obtain k where k: "k \<in> set (sl_outputs l)" "lo_surface k = focused l" using assms(3) by (auto simp: focus_ok_def)
  have lo: "lo \<in> set (sl_outputs l)" "lo_output lo = out" using lock_output_Some [OF assms(2)] by auto
  have "lo_output k \<noteq> out"
  proof
    assume "lo_output k = out"
    then have "k = lo"
      using assms(1) inj_onD [of lo_output "set (sl_outputs l)" k lo] k(1) lo by (simp add: distinct_map)
    then show False using k(2) assms(4) by simp
  qed
  then have "k \<in> set (sl_outputs (upd_out out (\<lambda>lo. lo\<lparr>lo_surface := NULL\<rparr>) l))"
    using k(1) by (force simp: upd_out_def)
  then show ?thesis using k(2) by (force simp: focus_ok_def)
qed (simp add: focus_ok_def)

lemma sl_outputs_upd_out:
  "sl_outputs (upd_out out f l) = map (\<lambda>lo. if lo_output lo = out then f lo else lo) (sl_outputs l)"
  by (simp add: upd_out_def)

lemma cleared_surface:
  assumes "k \<in> set (sl_outputs (upd_out out (\<lambda>lo. lo\<lparr>lo_surface := NULL\<rparr>) l))" "lo_output k = out"
  shows "lo_surface k = NULL"
proof -
  obtain lo where "k = (if lo_output lo = out then lo\<lparr>lo_surface := NULL\<rparr> else lo)"
    using assms(1) unfolding sl_outputs_upd_out set_map by blast
  then show ?thesis using assms(2) by (cases "lo_output lo = out") simp_all
qed

lemma filter_other:
  "(\<And>lo. lo_output (f lo) = lo_output lo) \<Longrightarrow>
   filter (\<lambda>lo. lo_output lo \<noteq> out) (map (\<lambda>lo. if lo_output lo = out then f lo else lo) xs) = filter (\<lambda>lo. lo_output lo \<noteq> out) xs"
  by (induction xs) simp_all

text \<open>Taking an output out of a lock, for any lock.\<close>

lemma lock_output_destroy_spec:
  assumes l: "locks s p = Some l" and out: "out \<in> lo_output ` set (sl_outputs l)"
  obtains s' l' sent where "lock_output_destroy p out s = Some s'" "updates p l' s s'"
    "map lo_output (sl_outputs l') = filter (\<lambda>q. q \<noteq> out) (map lo_output (sl_outputs l))"
    "set (sl_outputs l') = {lo \<in> set (sl_outputs l). lo_output lo \<noteq> out}"
    "destroying l' = destroying l" "abandoned l' = abandoned l" "attached l' = attached l"
    "locked_sent l' = (locked_sent l \<or> sent)"
    "sent_locked s' = sent_locked s @ (if sent then [SendLocked (protocol_lock l)] else [])"
    "sent \<longrightarrow> \<not> destroying l \<and> (\<forall>lo \<in> set (sl_outputs l'). lw_enabled s (lo_output lo) \<longrightarrow> lo_presented lo)"
    "p = lm_lock s \<and> session_lock_is_active s \<and> distinct (map lo_output (sl_outputs l)) \<and> focus_ok l \<longrightarrow> focus_ok l'"
proof -
  obtain lo where lo: "lock_output_from_wlr_output l out = Some lo" using lock_output_ex [OF out] by blast
  define l1 where "l1 = upd_out out (\<lambda>lo. lo\<lparr>lo_surface := NULL\<rparr>) l"
  let ?s1 = "upd_lock p (upd_out out (\<lambda>lo. lo\<lparr>lo_surface := NULL\<rparr>)) s"
  have 1: "locks ?s1 p = Some l1" using l by (simp add: l1_def)
  obtain s2 f where 2: "refocus_surface p (lo_surface lo) ?s1 = Some s2" "updates p (l1\<lparr>focused := f\<rparr>) ?s1 s2"
    "sent_locked s2 = sent_locked ?s1" "focused l1 \<noteq> lo_surface lo \<longrightarrow> f = focused l1"
    "focused l1 = lo_surface lo \<and> p = lm_lock ?s1 \<and> session_lock_is_active ?s1 \<longrightarrow> f = NULL \<or> f \<in> lo_surface ` set (sl_outputs l1)"
    by (rule refocus_spec [OF 1])
  define l3 where "l3 = l1\<lparr>focused := f, sl_outputs := filter (\<lambda>lo. lo_output lo \<noteq> out) (sl_outputs l1)\<rparr>"
  let ?s3 = "upd_lock p (\<lambda>l. l\<lparr>sl_outputs := filter (\<lambda>lo. lo_output lo \<noteq> out) (sl_outputs l)\<rparr>) s2"
  have 3: "locks ?s3 p = Some l3" using 2(2) by (simp add: updates_def l3_def)
  obtain s4 sent where 4: "session_lock_try_send_locked p ?s3 = Some s4" "updates p (l3\<lparr>locked_sent := locked_sent l3 \<or> sent\<rparr>) ?s3 s4"
    "sent \<longrightarrow> \<not> destroying l3 \<and> protocol_lock l3 \<noteq> NULL \<and> (\<forall>lo \<in> set (sl_outputs l3). lw_enabled ?s3 (lo_output lo) \<longrightarrow> lo_presented lo)"
    "sent_locked s4 = sent_locked ?s3 @ (if sent then [SendLocked (protocol_lock l3)] else [])"
    by (rule try_send_spec [OF 3])
  have outs: "set (sl_outputs l3) = {lo \<in> set (sl_outputs l). lo_output lo \<noteq> out}"
    by (simp add: l3_def l1_def upd_out_def filter_other)
  have names: "map lo_output (sl_outputs l3) = filter (\<lambda>q. q \<noteq> out) (map lo_output (sl_outputs l))"
  proof -
    have "map lo_output (sl_outputs l3) = filter (\<lambda>q. q \<noteq> out) (map lo_output (sl_outputs l1))"
      by (simp add: l3_def filter_map o_def)
    also have "map lo_output (sl_outputs l1) = map lo_output (sl_outputs l)" by (simp add: l1_def)
    finally show ?thesis .
  qed
  have foc: "focus_ok l3" if "p = lm_lock s" "session_lock_is_active s" "distinct (map lo_output (sl_outputs l))" "focus_ok l"
  proof -
    have fin: "f = NULL \<or> f \<in> lo_surface ` set (sl_outputs l1)"
    proof (cases "focused l1 = lo_surface lo")
      case True
      then show ?thesis using 2(5) that by (simp add: session_lock_is_active_def)
    next
      case False
      then show ?thesis
        using 2(4) surface_cleared_focus [OF that(3) lo that(4)] by (simp add: l1_def focus_ok_def)
    qed
    then show ?thesis
    proof
      assume "f \<in> lo_surface ` set (sl_outputs l1)"
      then obtain k where k: "k \<in> set (sl_outputs l1)" "f = lo_surface k" by blast
      then have "f = NULL \<or> lo_output k \<noteq> out" using cleared_surface [of k out l] by (auto simp: l1_def)
      then show ?thesis using k by (auto simp: focus_ok_def l3_def)
    qed (simp add: focus_ok_def l3_def)
  qed
  have "lock_output_destroy p out s = Some s4" using l lo 2(1) 4(1) by (simp add: lock_output_destroy_def)
  moreover have "updates p (l3\<lparr>locked_sent := locked_sent l3 \<or> sent\<rparr>) s s4"
    using 2(2) 4(2) by (auto simp: updates_def same_env_def)
  ultimately show ?thesis
    by (rule that [where sent = sent])
      (use 2 3 4 outs names foc in \<open>auto simp: l3_def l1_def focus_ok_def updates_def same_env_def\<close>)
qed

lemma updates_trans: "updates p l s t \<Longrightarrow> updates p l' t u \<Longrightarrow> updates p l' s u"
  by (auto simp: updates_def same_env_def)

lemma updates_lock [simp]: "updates p l s t \<Longrightarrow> locks t p = Some l"
  by (simp add: updates_def)

lemma destroy_outputs_spec:
  "locks s p = Some l \<Longrightarrow> destroying l \<Longrightarrow> map lo_output (sl_outputs l) = outs \<Longrightarrow> distinct outs \<Longrightarrow>
   \<exists>s' l'. destroy_outputs p outs s = Some s' \<and> updates p l' s s' \<and> sent_locked s' = sent_locked s"
proof (induction outs arbitrary: s l)
  case Nil
  then show ?case by (auto simp: updates_def intro!: exI [of _ l])
next
  case (Cons out outs)
  have "out \<in> lo_output ` set (sl_outputs l)" using Cons.prems(3) by (metis list.set_intros(1) list.set_map)
  then obtain s1 l1 sent where 1: "lock_output_destroy p out s = Some s1" "updates p l1 s s1"
    "map lo_output (sl_outputs l1) = filter (\<lambda>q. q \<noteq> out) (map lo_output (sl_outputs l))" "destroying l1 = destroying l"
    "sent_locked s1 = sent_locked s @ (if sent then [SendLocked (protocol_lock l)] else [])" "sent \<longrightarrow> \<not> destroying l"
    by (rule lock_output_destroy_spec [OF Cons.prems(1)]) blast
  have "map lo_output (sl_outputs l1) = outs" using 1(3) Cons.prems(3,4) by (auto simp: filter_id_conv)
  then obtain s2 l2 where "destroy_outputs p outs s1 = Some s2" "updates p l2 s1 s2" "sent_locked s2 = sent_locked s1"
    using Cons.IH [of s1 l1] 1(2,4) Cons.prems(2,4) by auto
  then show ?case using 1 Cons.prems(2) updates_trans by fastforce
qed

lemma session_lock_destroy_spec:
  assumes "locks s p = Some l" "distinct (map lo_output (sl_outputs l))"
  obtains s' where "session_lock_destroy p r s = Some s'" "same_env s s'"
    "lm_lock s' = (if manager_alive s \<and> lm_lock s = p then NULL else lm_lock s)" "locks s' = (locks s)(p := None)"
    "sent_locked s' = sent_locked s"
proof -
  define s1 where "s1 = (let s = session_lock_detach_protocol p (upd_lock p (\<lambda>l. l\<lparr>destroying := True\<rparr>) s)
    in if r then effect CancelGrabs s else s)"
  have l1: "locks s1 p = Some (l\<lparr>destroying := True, attached := False\<rparr>)"
    using assms(1) by (simp add: s1_def session_lock_detach_protocol_def Let_def)
  have s1: "same_env s s1" "lm_lock s1 = lm_lock s" "\<forall>q. q \<noteq> p \<longrightarrow> locks s1 q = locks s q" "sent_locked s1 = sent_locked s"
    by (simp_all add: s1_def session_lock_detach_protocol_def Let_def same_env_def)
  obtain s2 l2 where 2: "destroy_outputs p (map lo_output (sl_outputs l)) s1 = Some s2" "updates p l2 s1 s2"
    "sent_locked s2 = sent_locked s1"
    using destroy_outputs_spec [OF l1, of "map lo_output (sl_outputs l)"] assms(2) by auto
  let ?s3 = "if manager_alive s2 \<and> lm_lock s2 = p then s2\<lparr>lm_lock := NULL\<rparr> else s2"
  let ?s4 = "?s3\<lparr>locks := (locks ?s3)(p := None)\<rparr>"
  let ?s5 = "if r then effect ActivateTopmost ?s4 else ?s4"
  have a: "session_lock_destroy p r s = Some ?s5"
    using assms(1) 2(1) by (simp add: session_lock_destroy_def s1_def Let_def)
  have b: "locks ?s5 = (locks s)(p := None)"
  proof -
    have "locks ?s5 = (locks s2)(p := None)" by simp
    also have "\<dots> = (locks s1)(p := None)" using 2(2) by (simp add: updates_def)
    also have "\<dots> = (locks s)(p := None)" using s1(3) by (simp add: fun_eq_iff)
    finally show ?thesis .
  qed
  have "sent_locked ?s4 = sent_locked s2" by (simp add: sent_locked_def)
  then have c: "sent_locked ?s5 = sent_locked s" using 2(3) s1(4) by simp
  show ?thesis
    by (rule that [OF a _ _ b c]) (use 2(2) s1(1,2) in \<open>auto simp: updates_def same_env_def\<close>)
qed

lemma add_lock_outputs_spec:
  "locks s p = Some l \<Longrightarrow> distinct (outs @ map lo_output (sl_outputs l)) \<Longrightarrow> add_lock_outputs ok p outs s = (failed, s') \<Longrightarrow>
   \<exists>new. updates p (l\<lparr>sl_outputs := new @ sl_outputs l\<rparr>) s s' \<and> sent_locked s' = sent_locked s \<and>
     distinct (map lo_output (new @ sl_outputs l)) \<and> lo_output ` set new \<subseteq> set outs \<and>
     (\<not> failed \<longrightarrow> (\<forall>out \<in> set outs. lw_enabled s out \<longrightarrow> (\<exists>lo \<in> set new. lo_output lo = out \<and> lo_enabled lo)))"
proof (induction outs arbitrary: s l)
  case Nil
  then show ?case by (auto simp: updates_def intro!: exI [of _ "[]"])
next
  case (Cons out outs)
  consider "\<not> lw_enabled s out" | "lw_enabled s out" "\<not> ok out" | "lw_enabled s out" "ok out" by blast
  then show ?case
  proof cases
    case 1
    then show ?thesis using Cons.IH [OF Cons.prems(1)] Cons.prems(2,3) by fastforce
  next
    case 2
    then show ?thesis
      using Cons.prems by (auto simp: lock_output_create_def updates_def intro!: exI [of _ "[]"])
  next
    case 3
    let ?lo = "\<lparr>lo_output = out, lo_enabled = lw_enabled s out, lo_surface = NULL, previous_commit_seq = lw_commit_seq s out,
      lo_presented = False\<rparr>"
    let ?l = "l\<lparr>sl_outputs := ?lo # sl_outputs l\<rparr>"
    let ?s = "upd_lock p (\<lambda>l. l\<lparr>sl_outputs := ?lo # sl_outputs l\<rparr>) s"
    have "locks ?s p = Some ?l" using Cons.prems(1) by simp
    moreover have "distinct (outs @ map lo_output (sl_outputs ?l))" using Cons.prems(2) by simp
    moreover have "add_lock_outputs ok p outs ?s = (failed, s')"
      using 3 Cons.prems(3) by (simp add: lock_output_create_def)
    ultimately obtain new where n: "updates p (?l\<lparr>sl_outputs := new @ sl_outputs ?l\<rparr>) ?s s'" "sent_locked s' = sent_locked ?s"
      "distinct (map lo_output (new @ sl_outputs ?l))" "lo_output ` set new \<subseteq> set outs"
      "\<not> failed \<longrightarrow> (\<forall>out \<in> set outs. lw_enabled ?s out \<longrightarrow> (\<exists>lo \<in> set new. lo_output lo = out \<and> lo_enabled lo))"
      using Cons.IH by blast
    show ?thesis
    proof (intro exI [of _ "new @ [?lo]"] conjI)
      show "updates p (l\<lparr>sl_outputs := (new @ [?lo]) @ sl_outputs l\<rparr>) s s'"
        using n(1) Cons.prems(1) by (auto simp: updates_def same_env_def)
    qed (use n(2-5) 3 in auto)
  qed
qed

subsection \<open>Steps\<close>

text \<open>What a step that keeps the lock does: only the current lock may change.\<close>

lemma lock_inv_lock: "lock_inv s \<Longrightarrow> current_lock s = Some l \<Longrightarrow> locks s (lm_lock s) = Some l \<and> lock_ok s l \<and> lm_lock s \<noteq> NULL \<and> manager_alive s"
  using lock_inv_current [of s] by (auto simp: lock_inv_def current_lock_def split: if_splits)

lemma lock_inv_no_lock: "lock_inv s \<Longrightarrow> current_lock s = None \<Longrightarrow> lm_lock s = NULL \<and> locks s = (\<lambda>_. None)"
proof -
  assume s: "lock_inv s" "current_lock s = None"
  then have "locks s (lm_lock s) = None" using lock_inv_current [of s] by simp
  moreover have dom: "\<forall>p. locks s p \<noteq> None \<longleftrightarrow> p = lm_lock s \<and> p \<noteq> NULL" using s(1) by (simp add: lock_inv_def)
  ultimately have "lm_lock s = NULL" by blast
  then show ?thesis using dom by (simp add: fun_eq_iff)
qed

lemma lock_inv_env:
  assumes "lock_inv s" "lm_lock s' = lm_lock s" "locks s' = locks s" "manager_alive s' = manager_alive s"
    "set (lw_outputs s') \<subseteq> set (lw_outputs s)" "distinct (lw_outputs s')" "\<forall>out. lw_enabled s' out \<longrightarrow> lw_enabled s out"
  shows "lock_inv s'"
proof -
  have "lock_ok s l \<Longrightarrow> lock_ok s' l" for l using assms(5,7) unfolding lock_ok_def covered_def by blast
  then show ?thesis using assms(1-4,6) by (auto simp: lock_inv_def)
qed

lemma lock_inv_dropped:
  assumes "lock_inv s" "lm_lock s' = NULL" "locks s' = (locks s)(lm_lock s := None)" "distinct (lw_outputs s')"
  shows "lock_inv s'"
proof -
  have "locks s' = (\<lambda>_. None)" using assms(1,3) by (auto simp: lock_inv_def fun_eq_iff)
  then show ?thesis using assms(2,4) by (simp add: lock_inv_def)
qed

lemma in_upd_out: "lo \<in> set (sl_outputs l) \<Longrightarrow> (if lo_output lo = out then f lo else lo) \<in> set (sl_outputs (upd_out out f l))"
  unfolding sl_outputs_upd_out set_map by blast

lemma covered_upd:
  assumes "covered s l" "\<forall>lo. lo_output (f lo) = lo_output lo" "lw_enabled s out \<longrightarrow> (\<forall>lo. lo_enabled lo \<longrightarrow> lo_enabled (f lo))"
  shows "covered s (upd_out out f l)"
  unfolding covered_def
proof (intro ballI impI)
  fix q assume q: "q \<in> set (lw_outputs s)" "lw_enabled s q"
  then obtain lo where lo: "lo \<in> set (sl_outputs l)" "lo_output lo = q" "lo_enabled lo" using assms(1) by (auto simp: covered_def)
  let ?k = "if lo_output lo = out then f lo else lo"
  have "lo_output ?k = q \<and> lo_enabled ?k" using lo q assms(2,3) by auto
  then show "\<exists>lo \<in> set (sl_outputs (upd_out out f l)). lo_output lo = q \<and> lo_enabled lo" using in_upd_out [OF lo(1)] by blast
qed

lemma focus_upd:
  assumes "focus_ok l" "\<forall>lo. lo_surface lo \<noteq> NULL \<longrightarrow> lo_surface (f lo) = lo_surface lo"
  shows "focus_ok (upd_out out f l)"
proof (cases "focused l = NULL")
  case False
  then obtain lo where lo: "lo \<in> set (sl_outputs l)" "lo_surface lo = focused l" using assms(1) by (auto simp: focus_ok_def)
  let ?k = "if lo_output lo = out then f lo else lo"
  have "lo_surface ?k = focused l" using lo(2) assms(2) False by auto
  then have "focused l \<in> lo_surface ` set (sl_outputs (upd_out out f l))" using in_upd_out [OF lo(1)] by (metis imageI)
  then show ?thesis by (simp add: focus_ok_def)
qed (simp add: focus_ok_def)

lemma lock_ok_upd:
  assumes "lock_ok s l" "\<forall>lo. lo_output (f lo) = lo_output lo" "lw_enabled s out \<longrightarrow> (\<forall>lo. lo_enabled lo \<longrightarrow> lo_enabled (f lo))"
    "\<forall>lo. lo_surface lo \<noteq> NULL \<longrightarrow> lo_surface (f lo) = lo_surface lo"
  shows "lock_ok s (upd_out out f l)"
  using assms covered_upd [of s l f out] focus_upd [of l f out] by (simp add: lock_ok_def)

lemma lock_ok_sent [simp]: "lock_ok s (l\<lparr>locked_sent := locked_sent l \<or> b\<rparr>) \<longleftrightarrow> lock_ok s l" if "abandoned l \<longrightarrow> locked_sent l"
  using that by (auto simp: lock_ok_def covered_def focus_ok_def)

lemma lock_ok_focus: "lock_ok s l \<Longrightarrow> f = NULL \<or> f \<in> lo_surface ` set (sl_outputs l) \<Longrightarrow> lock_ok s (l\<lparr>focused := f\<rparr>)"
  by (simp add: lock_ok_def covered_def focus_ok_def)

lemma updates_refl: "locks s p = Some l \<Longrightarrow> updates p l s s"
  unfolding updates_def using fun_upd_idem [of "locks s" p "Some l"] by simp

lemma updates_upd: "locks s p = Some l \<Longrightarrow> updates p (f l) s (upd_lock p f s)"
  by (simp add: updates_def)

text \<open>Changing the current lock to one that is in order and then sending the message if it is due.\<close>

lemma send_inv:
  assumes s: "lock_inv s" "current_lock s = Some l" and u: "updates (lm_lock s) l1 s s1" and ok: "lock_ok s l1"
    and r: "session_lock_try_send_locked (lm_lock s) s1 = Some s'"
  shows "lock_inv s' \<and> lm_lock s' = lm_lock s"
proof -
  obtain s2 sent where 2: "session_lock_try_send_locked (lm_lock s) s1 = Some s2"
    "updates (lm_lock s) (l1\<lparr>locked_sent := locked_sent l1 \<or> sent\<rparr>) s1 s2"
    by (rule try_send_spec [OF updates_lock [OF u]])
  have "lock_ok s (l1\<lparr>locked_sent := locked_sent l1 \<or> sent\<rparr>)" using ok by (simp add: lock_ok_def covered_def focus_ok_def)
  then show ?thesis
    using lock_inv_updates [OF s(1) _ updates_trans [OF u 2(2)]] lock_inv_lock [OF s] 2 r u by (auto simp: updates_def)
qed

lemma focus_inv:
  assumes s: "lock_inv s" "current_lock s = Some l" and f: "f = NULL \<or> f \<in> lo_surface ` set (sl_outputs l)"
  shows "lock_inv (focus_surface (lm_lock s) f s) \<and> lm_lock (focus_surface (lm_lock s) f s) = lm_lock s"
  using lock_inv_updates [OF s(1) _ conjunct1 [OF focus_surface_spec] lock_ok_focus [OF _ f]] lock_inv_lock [OF s]
    focus_surface_spec [of s "lm_lock s" l f] by (auto simp: updates_def)

lemma output_gone_inv:
  assumes s: "lock_inv s" "current_lock s = Some l" and out: "has_lock_output l out"
    and r: "lock_output_destroy (lm_lock s) out s = Some s'"
  shows "lock_inv (s'\<lparr>lw_outputs := removeAll out (lw_outputs s')\<rparr>) \<and> lm_lock s' = lm_lock s"
proof -
  have l: "locks s (lm_lock s) = Some l" "lock_ok s l" "session_lock_is_active s"
    using lock_inv_lock [OF s] by (auto simp: session_lock_is_active_def)
  have "out \<in> lo_output ` set (sl_outputs l)" using out lock_output_Some by (fastforce simp: has_lock_output_def)
  then obtain s1 l1 sent where 1: "lock_output_destroy (lm_lock s) out s = Some s1" "updates (lm_lock s) l1 s s1"
    "map lo_output (sl_outputs l1) = filter (\<lambda>q. q \<noteq> out) (map lo_output (sl_outputs l))"
    "set (sl_outputs l1) = {lo \<in> set (sl_outputs l). lo_output lo \<noteq> out}"
    "destroying l1 = destroying l" "abandoned l1 = abandoned l" "attached l1 = attached l"
    "locked_sent l1 = (locked_sent l \<or> sent)"
    "lm_lock s = lm_lock s \<and> session_lock_is_active s \<and> distinct (map lo_output (sl_outputs l)) \<and> focus_ok l \<longrightarrow> focus_ok l1"
    by (rule lock_output_destroy_spec [OF l(1)]) blast
  have [simp]: "s1 = s'" using 1(1) r by simp
  let ?s = "s'\<lparr>lw_outputs := removeAll out (lw_outputs s')\<rparr>"
  have "covered ?s l1"
    using l(2) 1(2,4) by (auto simp: covered_def lock_ok_def updates_def same_env_def)
  moreover have "distinct (map lo_output (sl_outputs l1))" using 1(3) l(2) by (simp add: lock_ok_def)
  ultimately have "lock_ok ?s l1" using l(2,3) 1(5-9) by (auto simp: lock_ok_def)
  moreover have "locks ?s = (locks s)(lm_lock s \<mapsto> l1)" "lm_lock ?s = lm_lock s" "manager_alive ?s = manager_alive s"
    "lw_outputs ?s = removeAll out (lw_outputs s)"
    using 1(2) by (simp_all add: updates_def same_env_def)
  ultimately show ?thesis using s(1) lock_inv_lock [OF s] by (auto simp: lock_inv_def distinct_removeAll)
qed

lemma surface_gone_inv:
  assumes s: "lock_inv s" "current_lock s = Some l" and r: "handle_surface_destroy (lm_lock s) out s = Some s'"
  shows "lock_inv s' \<and> lm_lock s' = lm_lock s"
proof -
  have l: "locks s (lm_lock s) = Some l" "lock_ok s l" "session_lock_is_active s"
    using lock_inv_lock [OF s] by (auto simp: session_lock_is_active_def)
  obtain lo where lo: "lock_output_from_wlr_output l out = Some lo"
    using r l(1) by (auto simp: handle_surface_destroy_def bind_eq_Some_conv)
  let ?f = "\<lambda>lo. lo\<lparr>lo_surface := NULL\<rparr>"
  define l1 where "l1 = upd_out out ?f l"
  let ?s1 = "upd_lock (lm_lock s) (upd_out out ?f) s"
  have u: "updates (lm_lock s) l1 s ?s1" using updates_upd [OF l(1)] by (simp add: l1_def)
  obtain s2 f where 2: "refocus_surface (lm_lock s) (lo_surface lo) ?s1 = Some s2" "updates (lm_lock s) (l1\<lparr>focused := f\<rparr>) ?s1 s2"
    "focused l1 \<noteq> lo_surface lo \<longrightarrow> f = focused l1"
    "focused l1 = lo_surface lo \<and> lm_lock s = lm_lock ?s1 \<and> session_lock_is_active ?s1 \<longrightarrow> f = NULL \<or> f \<in> lo_surface ` set (sl_outputs l1)"
    by (rule refocus_spec [OF updates_lock [OF u]])
  have c: "covered s l1" unfolding l1_def using l(2) by (intro covered_upd) (simp_all add: lock_ok_def)
  have "focus_ok (l1\<lparr>focused := f\<rparr>)"
  proof (cases "focused l1 = lo_surface lo")
    case True
    then show ?thesis using 2(4) l(3) by (simp add: session_lock_is_active_def focus_ok_def)
  next
    case False
    then have "focus_ok l1"
      unfolding l1_def using l(2) by (intro surface_cleared_focus [OF _ lo]) (simp_all add: lock_ok_def)
    then show ?thesis using 2(3) False by (simp add: focus_ok_def)
  qed
  then have "lock_ok s (l1\<lparr>focused := f\<rparr>)" using l(2) c by (simp add: lock_ok_def covered_def) (simp add: l1_def)
  moreover have "s2 = s'" using r l(1) lo 2(1) by (simp add: handle_surface_destroy_def)
  ultimately show ?thesis
    using lock_inv_updates [OF s(1) l(1) updates_trans [OF u 2(2)]] updates_trans [OF u 2(2)] by (auto simp: updates_def)
qed

lemma new_surface_inv:
  assumes s: "lock_inv s" "current_lock s = Some l" and r: "handle_new_surface ok tree_ok (lm_lock s) surface out s = Some s'"
    and n: "surface \<noteq> NULL"
  shows "lock_inv s' \<and> lm_lock s' = lm_lock s"
proof -
  have l: "locks s (lm_lock s) = Some l" "lock_ok s l" using lock_inv_lock [OF s] by auto
  define l1 where "l1 = (if lock_output_from_wlr_output l out = None then l\<lparr>sl_outputs := \<lparr>lo_output = out, lo_enabled = lw_enabled s out,
    lo_surface = NULL, previous_commit_seq = lw_commit_seq s out, lo_presented = False\<rparr> # sl_outputs l\<rparr> else l)"
  obtain s1 where s1: "(if lock_output_from_wlr_output l out = None then lock_output_create ok (lm_lock s) out s else Some s) = Some s1"
    using r l(1) by (auto simp: handle_new_surface_def bind_eq_Some_conv split: if_splits)
  have u: "updates (lm_lock s) l1 s s1"
  proof (cases "lock_output_from_wlr_output l out = None")
    case True
    then have "s1 = upd_lock (lm_lock s) (\<lambda>l. l\<lparr>sl_outputs := \<lparr>lo_output = out, lo_enabled = lw_enabled s out,
      lo_surface = NULL, previous_commit_seq = lw_commit_seq s out, lo_presented = False\<rparr> # sl_outputs l\<rparr>) s"
      using s1 by (simp add: lock_output_create_def split: if_splits)
    then show ?thesis using True updates_upd [OF l(1)] by (simp add: l1_def)
  next
    case False
    have "s1 = s" using s1 by (simp only: False if_False option.inject)
    moreover have "l1 = l" using False by (simp add: l1_def)
    ultimately show ?thesis using updates_refl [OF l(1)] by (simp only:)
  qed
  have ok1: "lock_ok s l1"
  proof -
    have "out \<notin> lo_output ` set (sl_outputs l)" if "lock_output_from_wlr_output l out = None"
      using that lock_output_ex by fastforce
    then show ?thesis using l(2) by (auto simp: l1_def lock_ok_def covered_def focus_ok_def)
  qed
  obtain lo where lo: "lock_output_from_wlr_output l1 out = Some lo" "lo_surface lo = NULL"
    and s': "s' = upd_lock (lm_lock s) (upd_out out (\<lambda>lo. lo\<lparr>lo_surface := surface\<rparr>)) s1"
    using r l(1) s1 updates_lock [OF u] by (auto simp: handle_new_surface_def bind_eq_Some_conv split: if_splits)
  have 2: "updates (lm_lock s) (upd_out out (\<lambda>lo. lo\<lparr>lo_surface := surface\<rparr>) l1) s1 s'"
    unfolding s' by (rule updates_upd [OF updates_lock [OF u]])
  have "focus_ok (upd_out out (\<lambda>lo. lo\<lparr>lo_surface := surface\<rparr>) l1)"
  proof (cases "focused l1 = NULL")
    case False
    then obtain k where k: "k \<in> set (sl_outputs l1)" "lo_surface k = focused l1" using ok1 by (auto simp: lock_ok_def focus_ok_def)
    have "lo_output k \<noteq> out"
    proof
      assume "lo_output k = out"
      then have "k = lo" using ok1 inj_onD [of lo_output "set (sl_outputs l1)" k lo] k(1) lock_output_Some [OF lo(1)]
        by (simp add: lock_ok_def distinct_map)
      then show False using k(2) lo(2) False by simp
    qed
    then have "k \<in> set (sl_outputs (upd_out out (\<lambda>lo. lo\<lparr>lo_surface := surface\<rparr>) l1))"
      using in_upd_out [OF k(1), of out] by simp
    then show ?thesis using k(2) by (force simp: focus_ok_def)
  qed (simp add: focus_ok_def)
  moreover have "covered s (upd_out out (\<lambda>lo. lo\<lparr>lo_surface := surface\<rparr>) l1)"
    using ok1 by (intro covered_upd) (simp_all add: lock_ok_def)
  ultimately have "lock_ok s (upd_out out (\<lambda>lo. lo\<lparr>lo_surface := surface\<rparr>) l1)" using ok1 by (simp add: lock_ok_def)
  then show ?thesis
    using lock_inv_updates [OF s(1) l(1) updates_trans [OF u 2]] updates_trans [OF u 2] by (auto simp: updates_def)
qed

lemma new_output_inv:
  assumes s0: "lock_inv s0" and s: "s = s0\<lparr>lw_outputs := List.insert out (lw_outputs s0), lw_enabled := (lw_enabled s0)(out := True)\<rparr>"
    and r: "handle_new_output ok out s = Some s'"
  shows "lock_inv s' \<and> lm_lock s' = lm_lock s0"
proof (cases "current_lock s0")
  case None
  then have n: "lm_lock s0 = NULL" "locks s0 = (\<lambda>_. None)" using lock_inv_no_lock [OF s0] by auto
  then have "s' = s" using r by (simp add: handle_new_output_def s)
  then show ?thesis using n s0 by (simp add: lock_inv_def s)
next
  case (Some l)
  then have l: "locks s0 (lm_lock s0) = Some l" "lock_ok s0 l" "lm_lock s0 \<noteq> NULL" using lock_inv_lock [OF s0] by auto
  let ?lo = "\<lparr>lo_output = out, lo_enabled = lw_enabled s out, lo_surface = NULL, previous_commit_seq = lw_commit_seq s out, lo_presented = False\<rparr>"
  let ?f = "\<lambda>lo. lo\<lparr>lo_presented := False, previous_commit_seq := lw_commit_seq s0 out, lo_enabled := True\<rparr>"
  define l1 where "l1 = (if lock_output_from_wlr_output l out = None then l\<lparr>sl_outputs := ?lo # sl_outputs l\<rparr> else l)"
  obtain s1 where s1: "updates (lm_lock s0) l1 s s1" "s' = upd_lock (lm_lock s0) (upd_out out ?f) s1"
  proof (cases "lock_output_from_wlr_output l out = None")
    case True
    let ?g = "\<lambda>l. l\<lparr>sl_outputs := ?lo # sl_outputs l\<rparr>"
    have b: "s' = upd_lock (lm_lock s0) (upd_out out ?f) (upd_lock (lm_lock s0) ?g s)"
      using r True l by (simp add: handle_new_output_def s lock_output_create_def upd_lock_def split: if_splits)
    have "locks s (lm_lock s0) = Some l" using l(1) by (simp add: s)
    from updates_upd [OF this, of ?g] have "updates (lm_lock s0) l1 s (upd_lock (lm_lock s0) ?g s)"
      using True by (simp add: l1_def)
    then show ?thesis using b by (rule that)
  next
    case False
    then have b: "s' = upd_lock (lm_lock s0) (upd_out out ?f) s"
      using r l by (auto simp: handle_new_output_def s)
    have "updates (lm_lock s0) l1 s s" using updates_refl [of s] l(1) False by (simp add: l1_def s)
    then show ?thesis using b by (rule that)
  qed
  have 2: "updates (lm_lock s0) (upd_out out ?f l1) s s'"
    using updates_trans [OF s1(1) updates_upd [OF updates_lock [OF s1(1)], of "upd_out out ?f"]] s1(2) by simp
  have mem: "\<exists>lo \<in> set (sl_outputs l1). lo_output lo = out"
  proof (cases "lock_output_from_wlr_output l out")
    case (Some lo)
    then show ?thesis using lock_output_Some [OF Some] by (auto simp: l1_def)
  qed (simp add: l1_def)
  have ok1: "lock_ok s0 l1"
  proof -
    have "out \<notin> lo_output ` set (sl_outputs l)" if "lock_output_from_wlr_output l out = None"
      using that lock_output_ex by fastforce
    then show ?thesis using l(2) by (auto simp: l1_def lock_ok_def covered_def focus_ok_def)
  qed
  have ok2: "lock_ok s0 (upd_out out ?f l1)" by (rule lock_ok_upd [OF ok1]) simp_all
  have "covered s (upd_out out ?f l1)"
    unfolding covered_def
  proof (intro ballI impI)
    fix q assume q: "q \<in> set (lw_outputs s)" "lw_enabled s q"
    show "\<exists>lo \<in> set (sl_outputs (upd_out out ?f l1)). lo_output lo = q \<and> lo_enabled lo"
    proof (cases "q = out")
      case True
      obtain lo where "lo \<in> set (sl_outputs l1)" "lo_output lo = out" using mem by blast
      then show ?thesis using in_upd_out [of lo l1 out ?f] True by (intro bexI [of _ "?f lo"]) simp_all
    next
      case False
      then show ?thesis using q ok2 by (simp add: s lock_ok_def covered_def)
    qed
  qed
  then have "lock_ok s' (upd_out out ?f l1)"
    using ok2 2 by (simp add: lock_ok_def covered_def updates_def same_env_def)
  moreover have "locks s' = (locks s0)(lm_lock s0 \<mapsto> upd_out out ?f l1)" "lm_lock s' = lm_lock s0" "manager_alive s' = manager_alive s0"
    "lw_outputs s' = List.insert out (lw_outputs s0)"
    using 2 by (simp_all add: updates_def same_env_def s)
  ultimately show ?thesis using s0 lock_inv_lock [OF s0 Some] by (auto simp: lock_inv_def)
qed

lemma new_lock_inv:
  assumes s: "lock_inv s" "manager_alive s" and p: "locks s p = None" and pr: "protocol \<noteq> NULL"
    and r: "handle_new_lock ok p protocol s = Some s'"
  shows "lock_inv s' \<and> (lm_lock s \<noteq> NULL \<longrightarrow> lm_lock s' \<noteq> NULL)"
proof (cases "p = NULL \<or> (\<exists>l. current_lock s = Some l \<and> \<not> abandoned l)")
  case True
  have c: "current_lock s = (if lm_lock s = NULL then None else locks s (lm_lock s))"
    using s(2) by (simp add: current_lock_def session_lock_is_active_def)
  have "s' = effect (DestroyProtocolLock protocol) s"
    using r True c by (auto simp: handle_new_lock_def bind_eq_Some_conv split: if_splits)
  moreover have "lock_inv (effect (DestroyProtocolLock protocol) s)"
    by (rule lock_inv_env [OF s(1)]) (use s(1) in \<open>simp_all add: lock_inv_def\<close>)
  ultimately show ?thesis by simp
next
  case False
  have pN: "p \<noteq> NULL" and ab: "\<And>l. current_lock s = Some l \<Longrightarrow> abandoned l" using False by auto
  have dl: "distinct (lw_outputs s)" using s(1) by (simp add: lock_inv_def)
  let ?s0 = "s\<lparr>locks := (locks s)(p \<mapsto> new_session_lock protocol)\<rparr>"
  obtain failed s1 where a: "add_lock_outputs ok p (lw_outputs ?s0) ?s0 = (failed, s1)" by fastforce
  have "locks ?s0 p = Some (new_session_lock protocol)" by simp
  then obtain new where n: "updates p ((new_session_lock protocol)\<lparr>sl_outputs := new\<rparr>) ?s0 s1" "distinct (map lo_output new)"
    "\<not> failed \<longrightarrow> (\<forall>out \<in> set (lw_outputs s). lw_enabled s out \<longrightarrow> (\<exists>lo \<in> set new. lo_output lo = out \<and> lo_enabled lo))"
    using add_lock_outputs_spec [OF _ _ a, of "new_session_lock protocol"] dl by (auto simp: new_session_lock_def)
  define l1 where "l1 = (new_session_lock protocol)\<lparr>sl_outputs := new\<rparr>"
  have s1: "locks s1 = (locks s)(p \<mapsto> l1)" "lm_lock s1 = lm_lock s" "same_env s s1"
    using n(1) by (simp_all add: updates_def same_env_def l1_def)
  have l1: "locks s1 p = Some l1" "distinct (map lo_output (sl_outputs l1))" using s1(1) n(2) by (simp_all add: l1_def)
  have r': "(if failed then do { s \<leftarrow> session_lock_destroy p False s1; Some (effect (DestroyProtocolLock protocol) s)}
      else do {
        s \<leftarrow> (if lm_lock s \<noteq> NULL then session_lock_destroy (lm_lock s) False s1 else Some s1);
        let s = stop_lock_recovery (s\<lparr>lm_lock := p\<rparr>);
        let s = focus_surface p NULL (effect CancelGrabs s);
        session_lock_try_send_locked p s}) = Some s'"
  proof -
    have "(if lm_lock s = NULL then Some False else do { l \<leftarrow> locks s (lm_lock s); Some (\<not> abandoned l) }) = Some False"
    proof (cases "current_lock s")
      case None
      then show ?thesis using lock_inv_no_lock [OF s(1)] by simp
    next
      case (Some l)
      then show ?thesis using lock_inv_lock [OF s(1)] ab by simp
    qed
    then show ?thesis using r pN a by (simp add: handle_new_lock_def Let_def)
  qed
  have notp: "lm_lock s \<noteq> p" if "lm_lock s \<noteq> NULL" using that p s(1) unfolding lock_inv_def by (metis not_None_eq)
  show ?thesis
  proof (cases failed)
    case True
    obtain s2 where 2: "session_lock_destroy p False s1 = Some s2" "same_env s1 s2"
      "lm_lock s2 = (if manager_alive s1 \<and> lm_lock s1 = p then NULL else lm_lock s1)" "locks s2 = (locks s1)(p := None)"
      by (rule session_lock_destroy_spec [OF l1])
    have "s' = effect (DestroyProtocolLock protocol) s2" using r' True 2(1) by simp
    moreover have "locks s2 = locks s" using 2(4) s1(1) p by (simp add: fun_eq_iff)
    moreover have "lm_lock s2 = lm_lock s" using 2(3) s1(2) notp pN by auto
    ultimately show ?thesis
      using lock_inv_env [OF s(1), of s'] s1(3) 2(2) dl by (simp add: same_env_def)
  next
    case nf: False
    obtain s2 where 2: "(if lm_lock s \<noteq> NULL then session_lock_destroy (lm_lock s) False s1 else Some s1) = Some s2"
      "same_env s1 s2" "locks s2 = (\<lambda>q. if q = p then Some l1 else None)"
    proof (cases "lm_lock s = NULL")
      case True
      have "locks s q = None" for q using s(1) True unfolding lock_inv_def by (metis not_None_eq)
      then show ?thesis using that [of s1] True s1(1) by (simp add: fun_eq_iff)
    next
      case N: False
      then obtain l where l: "current_lock s = Some l" using lock_inv_no_lock [OF s(1)] by (cases "current_lock s") auto
      have ls: "locks s1 (lm_lock s) = Some l" "distinct (map lo_output (sl_outputs l))"
        using lock_inv_lock [OF s(1) l] s1(1) notp [OF N] by (simp_all add: lock_ok_def)
      obtain s2 where d: "session_lock_destroy (lm_lock s) False s1 = Some s2" "same_env s1 s2" "locks s2 = (locks s1)(lm_lock s := None)"
        by (rule session_lock_destroy_spec [OF ls])
      have "locks s q = None" if "q \<noteq> lm_lock s" for q using s(1) that unfolding lock_inv_def by (metis not_None_eq)
      then have "locks s2 = (\<lambda>q. if q = p then Some l1 else None)" using d(3) s1(1) notp [OF N] by (auto simp: fun_eq_iff)
      then show ?thesis using that [of s2] d N by simp
    qed
    let ?s3 = "effect CancelGrabs (stop_lock_recovery (s2\<lparr>lm_lock := p\<rparr>))"
    have s3: "locks ?s3 = (\<lambda>q. if q = p then Some l1 else None)" "lm_lock ?s3 = p" "same_env s ?s3"
      using 2 s1(3) by (simp_all add: stop_lock_recovery_def same_env_def)
    have "covered ?s3 l1" using n(3) nf s3(3) by (simp add: covered_def l1_def same_env_def)
    then have "lock_ok ?s3 l1" using l1(2) by (simp add: lock_ok_def focus_ok_def l1_def new_session_lock_def)
    then have i3: "lock_inv ?s3" using s3 pN s(2) dl by (simp add: lock_inv_def same_env_def)
    have c3: "current_lock ?s3 = Some l1" using s3 pN s(2) by (simp add: current_lock_def session_lock_is_active_def same_env_def)
    have f: "updates p (l1\<lparr>focused := NULL\<rparr>) ?s3 (focus_surface p NULL ?s3)" using focus_surface_spec [of ?s3 p l1] s3(1) by simp
    have "session_lock_try_send_locked p (focus_surface p NULL ?s3) = Some s'" using r' nf 2(1) by (simp add: Let_def)
    then show ?thesis
      using send_inv [OF i3 c3, of _ "focus_surface p NULL ?s3" s'] f lock_ok_focus [OF \<open>lock_ok ?s3 l1\<close>, of NULL] s3(2) pN by simp
  qed
qed

lemma destroy_inv:
  assumes s: "lock_inv s" "current_lock s = Some l" and r: "session_lock_destroy (lm_lock s) b s = Some s'"
  shows "lock_inv s' \<and> same_env s s' \<and> lm_lock s' = NULL"
proof -
  have l: "locks s (lm_lock s) = Some l" "distinct (map lo_output (sl_outputs l))" "manager_alive s"
    using lock_inv_lock [OF s] by (auto simp: lock_ok_def)
  obtain s1 where 1: "session_lock_destroy (lm_lock s) b s = Some s1" "same_env s s1"
    "lm_lock s1 = (if manager_alive s \<and> lm_lock s = lm_lock s then NULL else lm_lock s)" "locks s1 = (locks s)(lm_lock s := None)"
    by (rule session_lock_destroy_spec [OF l(1,2)])
  have "distinct (lw_outputs s1)" using 1(2) s(1) by (simp add: same_env_def lock_inv_def)
  then have "lock_inv s1" using lock_inv_dropped [OF s(1) _ 1(4)] 1(3) l(3) by simp
  then show ?thesis using 1 l(3) r by simp
qed

lemma abandoned_inv:
  assumes s: "lock_inv s" "current_lock s = Some l" and r: "handle_lock_abandoned (lm_lock s) s = Some s'"
  shows "lock_inv s' \<and> (lm_lock s' = lm_lock s \<or> \<not> locked_sent l)"
proof (cases "locked_sent l")
  case False
  then show ?thesis using r lock_inv_lock [OF s] destroy_inv [OF s] by (auto simp: handle_lock_abandoned_def)
next
  case True
  have l: "locks s (lm_lock s) = Some l" "lock_ok s l" using lock_inv_lock [OF s] by auto
  let ?l = "l\<lparr>attached := False, protocol_lock := NULL, abandoned := True\<rparr>"
  let ?s1 = "upd_lock (lm_lock s) (\<lambda>l. l\<lparr>protocol_lock := NULL, abandoned := True\<rparr>) (session_lock_detach_protocol (lm_lock s) s)"
  have u: "updates (lm_lock s) ?l s ?s1" using l(1) by (auto simp: updates_def session_lock_detach_protocol_def same_env_def)
  have "lock_ok s (?l\<lparr>focused := NULL\<rparr>)" using l(2) True by (simp add: lock_ok_def covered_def focus_ok_def)
  moreover have f: "updates (lm_lock s) (?l\<lparr>focused := NULL\<rparr>) s (focus_surface (lm_lock s) NULL ?s1)"
    using updates_trans [OF u] focus_surface_spec [OF updates_lock [OF u], of NULL] by blast
  ultimately have i: "lock_inv (focus_surface (lm_lock s) NULL ?s1)" using lock_inv_updates [OF s(1) l(1)] by blast
  have "s' = (focus_surface (lm_lock s) NULL ?s1)\<lparr>recovery_attempts := 0, recovery_timer := Some LOCK_RECOVERY_INTERVAL_MS\<rparr>"
    using r True l(1) by (simp add: handle_lock_abandoned_def Let_def)
  then show ?thesis using lock_inv_env [OF i, of s'] i f by (simp add: lock_inv_def updates_def)
qed

lemma present_inv:
  assumes s: "lock_inv s" "current_lock s = Some l" and r: "handle_output_present (lm_lock s) out seq b s = Some s'"
  shows "lock_inv s' \<and> lm_lock s' = lm_lock s"
proof (cases "s' = s")
  case False
  have l: "locks s (lm_lock s) = Some l" "lock_ok s l" using lock_inv_lock [OF s] by auto
  let ?f = "\<lambda>lo. lo\<lparr>lo_presented := True\<rparr>"
  have t: "session_lock_try_send_locked (lm_lock s) (upd_lock (lm_lock s) (upd_out out ?f) s) = Some s'"
    using r l(1) False by (auto simp: handle_output_present_def bind_eq_Some_conv split: if_splits)
  show ?thesis
    by (rule send_inv [OF s updates_upd [OF l(1)] _ t]) (rule lock_ok_upd [OF l(2)]; simp)
qed (simp add: s)

lemma disable_inv:
  assumes s: "lock_inv s" "current_lock s = Some l" and out: "\<not> lw_enabled s out"
    and r: "handle_output_disable False (lm_lock s) out s = Some s'"
  shows "lock_inv s' \<and> lm_lock s' = lm_lock s"
proof -
  have l: "locks s (lm_lock s) = Some l" "lock_ok s l" using lock_inv_lock [OF s] by auto
  let ?f = "\<lambda>lo. lo\<lparr>lo_enabled := False\<rparr>"
  have t: "session_lock_try_send_locked (lm_lock s) (upd_lock (lm_lock s) (upd_out out ?f) s) = Some s'"
    using r by (simp add: handle_output_disable_def)
  show ?thesis
    by (rule send_inv [OF s updates_upd [OF l(1)] _ t]) (rule lock_ok_upd [OF l(2)]; simp add: out)
qed

lemma timer_inv:
  assumes "lock_inv s"
  shows "lock_inv (handle_lock_recovery_timer s) \<and> lm_lock (handle_lock_recovery_timer s) = lm_lock s"
proof -
  have e: "lm_lock (handle_lock_recovery_timer s) = lm_lock s" "locks (handle_lock_recovery_timer s) = locks s"
    "manager_alive (handle_lock_recovery_timer s) = manager_alive s" "lw_outputs (handle_lock_recovery_timer s) = lw_outputs s"
    "lw_enabled (handle_lock_recovery_timer s) = lw_enabled s"
    by (simp_all add: handle_lock_recovery_timer_def Let_def split: option.split)
  then show ?thesis using lock_inv_env [OF assms, of "handle_lock_recovery_timer s"] assms by (simp add: lock_inv_def)
qed

lemma map_or_click_inv:
  assumes s: "lock_inv s" "current_lock s = Some l"
    and r: "handle_surface_map (lm_lock s) out s = Some s' \<or> lock_surface_click (lm_lock s) out s = Some s'"
  shows "lock_inv s' \<and> lm_lock s' = lm_lock s"
proof -
  have l: "locks s (lm_lock s) = Some l" using lock_inv_lock [OF s] by auto
  obtain lo where lo: "lock_output_from_wlr_output l out = Some lo" "s' = s \<or> s' = focus_surface (lm_lock s) (lo_surface lo) s"
    using r l by (auto simp: handle_surface_map_def lock_surface_click_def bind_eq_Some_conv split: if_splits)
  then show ?thesis using focus_inv [OF s, of "lo_surface lo"] lock_output_Some [OF lo(1)] s(1) by auto
qed

lemma on_lock_cases:
  assumes "on_lock P f s = Some s'"
  obtains "s' = s" | l where "current_lock s = Some l" "P l" "f (lm_lock s) s = Some s'"
  using assms by (auto simp: on_lock_def split: option.splits if_splits)

text \<open>How a lock can end in one step.\<close>

definition ends_lock :: "lock_event \<Rightarrow> session_lock_manager \<Rightarrow> bool" where
  "ends_lock e s \<longleftrightarrow> e = Unlock \<or> e = ManagerGone \<or> e = LockerGone \<and> (\<forall>l. current_lock s = Some l \<longrightarrow> \<not> locked_sent l)"

lemma manager_gone_inv: "lock_inv s \<Longrightarrow> session_lock_manager_destroy s = Some s' \<Longrightarrow> lock_inv s'"
proof -
  assume s: "lock_inv s" and r: "session_lock_manager_destroy s = Some s'"
  show ?thesis
  proof (cases "current_lock s")
    case None
    then have "lm_lock s = NULL" "locks s = (\<lambda>_. None)" using lock_inv_no_lock [OF s] by auto
    then show ?thesis using s r by (auto simp: session_lock_manager_destroy_def lock_inv_def split: if_splits)
  next
    case (Some l)
    then obtain s1 where 1: "session_lock_destroy (lm_lock s) False s = Some s1" "s' = s1\<lparr>manager_alive := False, recovery_timer := None\<rparr>"
      using r lock_inv_lock [OF s Some] by (auto simp: session_lock_manager_destroy_def bind_eq_Some_conv)
    have i: "lock_inv s1" "lm_lock s1 = NULL" using destroy_inv [OF s Some 1(1)] by auto
    then have "locks s1 = (\<lambda>_. None)" by (auto simp: lock_inv_def fun_eq_iff)
    then show ?thesis using i by (simp add: 1(2) lock_inv_def)
  qed
qed

lemma lock_step_inv:
  assumes s: "lock_inv s" and r: "lock_step e s = Some s'"
  shows "lock_inv s' \<and> (lm_lock s = NULL \<or> lm_lock s' \<noteq> NULL \<or> ends_lock e s)"
proof (cases e)
  case (NewLock ok p protocol)
  then show ?thesis
    using new_lock_inv [OF s] r s by (auto simp: lock_step_def split: if_splits)
next
  case Unlock
  then show ?thesis
    using r destroy_inv [OF s] s by (auto simp: lock_step_def handle_unlock_def ends_lock_def elim!: on_lock_cases)
next
  case LockerGone
  then have "on_lock attached handle_lock_abandoned s = Some s'" using r by (simp add: lock_step_def)
  then show ?thesis
  proof (cases rule: on_lock_cases)
    case 1
    then show ?thesis using s by simp
  next
    case (2 l)
    then show ?thesis using abandoned_inv [OF s 2(1,3)] LockerGone by (auto simp: ends_lock_def)
  qed
next
  case (OutputOn ok out)
  define t where "t = s\<lparr>lw_outputs := List.insert out (lw_outputs s), lw_enabled := (lw_enabled s)(out := True)\<rparr>"
  have "(if manager_alive s then handle_new_output ok out t else Some t) = Some s'"
    using r OutputOn by (cases "manager_alive s") (simp_all add: lock_step_def t_def)
  then show ?thesis
    using new_output_inv [OF s t_def] s by (auto simp: lock_inv_def t_def split: if_splits)
next
  case (OutputOff out)
  define t where "t = s\<lparr>lw_enabled := (lw_enabled s)(out := False)\<rparr>"
  have t: "lock_inv t" "lm_lock t = lm_lock s" "\<not> lw_enabled t out"
    using lock_inv_env [OF s, of t] s by (auto simp: t_def lock_inv_def split: if_splits)
  have "on_lock (\<lambda>l. has_lock_output l out) (\<lambda>p. handle_output_disable False p out) t = Some s'"
    using r OutputOff by (simp add: lock_step_def t_def)
  then show ?thesis using disable_inv [OF t(1) _ t(3)] t by (auto elim!: on_lock_cases)
next
  case (OutputGone out)
  then obtain t where t: "on_lock (\<lambda>l. has_lock_output l out) (\<lambda>p. handle_output_disable True p out) s = Some t"
    "s' = t\<lparr>lw_outputs := removeAll out (lw_outputs t)\<rparr>"
    using r by (auto simp: lock_step_def)
  from t(1) show ?thesis
  proof (cases rule: on_lock_cases)
    case 1
    then show ?thesis using lock_inv_env [OF s, of s'] s t(2) by (auto simp: lock_inv_def distinct_removeAll)
  next
    case (2 l)
    then show ?thesis using output_gone_inv [OF s 2(1)] t(2) by (auto simp: handle_output_disable_def)
  qed
next
  case (Commit out)
  then show ?thesis using r lock_inv_env [OF s, of s'] s by (auto simp: lock_step_def lock_inv_def)
next
  case (Present out seq ok)
  then show ?thesis using r present_inv [OF s] s by (auto simp: lock_step_def elim!: on_lock_cases)
next
  case (NewLockSurface ok tree_ok surface out)
  then show ?thesis using r new_surface_inv [OF s] s by (auto simp: lock_step_def split: if_splits elim!: on_lock_cases)
next
  case (SurfaceMap out)
  have "on_lock (\<lambda>l. surface_of l out \<noteq> NULL) (\<lambda>p s. handle_surface_map p out
      (case current_lock s of None \<Rightarrow> s | Some l \<Rightarrow> s\<lparr>surface_mapped := (surface_mapped s)(surface_of l out := True)\<rparr>)) s = Some s'"
    using r SurfaceMap by (simp add: lock_step_def)
  then show ?thesis
  proof (cases rule: on_lock_cases)
    case (2 l)
    define t where "t = s\<lparr>surface_mapped := (surface_mapped s)(surface_of l out := True)\<rparr>"
    have "lock_inv t" "lm_lock t = lm_lock s" "current_lock t = Some l"
      using lock_inv_env [OF s, of t] s 2(1)
      by (auto simp: t_def lock_inv_def current_lock_def session_lock_is_active_def split: if_splits)
    then show ?thesis using map_or_click_inv [of t l out s'] 2(1,3) by (simp add: t_def)
  qed (use s in simp)
next
  case (SurfaceUnmap surface)
  then show ?thesis using r lock_inv_env [OF s, of s'] s by (auto simp: lock_step_def lock_inv_def)
next
  case (SurfaceGone out)
  then show ?thesis using r surface_gone_inv [OF s] s by (auto simp: lock_step_def elim!: on_lock_cases)
next
  case (Click out)
  then have "on_lock (\<lambda>l. has_lock_output l out) (\<lambda>p. lock_surface_click p out) s = Some s'" using r by (simp add: lock_step_def)
  then show ?thesis
  proof (cases rule: on_lock_cases)
    case (2 l)
    then show ?thesis using map_or_click_inv [OF s 2(1) disjI2 [OF 2(3)]] by auto
  qed (use s in simp)
next
  case RecoveryTimer
  then show ?thesis using r timer_inv [OF s] s by (auto simp: lock_step_def split: if_splits)
next
  case ManagerGone
  then show ?thesis using r manager_gone_inv [OF s] by (simp add: lock_step_def ends_lock_def)
qed

subsection \<open>Properties\<close>

interpretation lock_steps: step_invariant "\<lambda>_. True" "\<lambda>_ s s'. \<exists>e. lock_step e s = Some s'" lock_inv
  by unfold_locales (use lock_step_inv in blast)

lemma lock_run_steps: "lock_run es s = Some s' \<Longrightarrow> (\<lambda>s s'. \<exists>e. lock_step e s = Some s')\<^sup>*\<^sup>* s s'"
proof (induction es arbitrary: s)
  case (Cons e es)
  then obtain t where "lock_step e s = Some t" "lock_run es t = Some s'" by (auto simp: bind_eq_Some_conv)
  then show ?case using Cons.IH by (blast intro: converse_rtranclp_into_rtranclp)
qed simp

lemma lock_inv_create: "distinct outs \<Longrightarrow> lock_inv (session_lock_manager_create outs enabled seqs root)"
  by (simp add: session_lock_manager_create_def lock_inv_def)

lemma lock_run_inv:
  "distinct outs \<Longrightarrow> lock_run es (session_lock_manager_create outs enabled seqs root) = Some s \<Longrightarrow> lock_inv s"
  using lock_steps.steps_keep [OF lock_run_steps TrueI lock_inv_create] by blast

lemma focus_choice_ok:
  assumes "current_lock s = Some l" "focus_ok l"
  shows "seat_focus_choice s surface = NULL \<or> session_lock_surface_is_allowed s (seat_focus_choice s surface) \<or>
    seat_focus_choice s surface \<in> lo_surface ` set (sl_outputs l)"
proof -
  have a: "session_lock_is_active s" using assms(1) by (auto simp: current_lock_def split: if_splits)
  have "session_lock_get_focus_surface s = NULL \<or> session_lock_get_focus_surface s \<in> lo_surface ` set (sl_outputs l)"
    using assms by (auto simp: session_lock_get_focus_surface_def focus_ok_def find_Some_iff split: option.split)
  then show ?thesis using a by (auto simp: seat_focus_choice_def)
qed

text \<open>C13: after any sequence of events, while the session is locked, every enabled output has a lock output that is
  shown, and a seat asked to focus any surface takes no surface, a surface whose root is a lock surface, or a
  lock surface.\<close>

theorem lock_covers_outputs:
  assumes "distinct outs" "lock_run es (session_lock_manager_create outs enabled seqs root) = Some s"
    "session_lock_is_active s"
  shows "\<exists>l. current_lock s = Some l \<and>
    (\<forall>out. out \<in> set (lw_outputs s) \<and> lw_enabled s out \<longrightarrow> (\<exists>lo \<in> set (sl_outputs l). lo_output lo = out \<and> lo_enabled lo)) \<and>
    (\<forall>surface. seat_focus_choice s surface = NULL \<or> session_lock_surface_is_allowed s (seat_focus_choice s surface) \<or>
       seat_focus_choice s surface \<in> lo_surface ` set (sl_outputs l))"
proof -
  have i: "lock_inv s" by (rule lock_run_inv [OF assms(1,2)])
  obtain l where l: "current_lock s = Some l"
    using i assms(3) by (auto simp: lock_inv_def current_lock_def session_lock_is_active_def)
  then have "covered s l" "focus_ok l" using lock_inv_lock [OF i] by (auto simp: lock_ok_def)
  then show ?thesis using l focus_choice_ok [OF l] unfolding covered_def by blast
qed

text \<open>Two outputs, of which one is off; a client locks, puts a surface on the first and the second comes on.\<close>

definition two_outputs :: session_lock_manager where
  "two_outputs = session_lock_manager_create [1, 2] (\<lambda>out. out = 1) (\<lambda>_. 0) (\<lambda>surface. surface)"

lemmas lock_eval = lock_step_def lock_effect.simps session_lock_manager_create_def handle_new_lock_def new_session_lock_def
  lock_output_create_def upd_lock_def upd_out_def effect_def stop_lock_recovery_def focus_surface_def
  seat_focus_choice_def session_lock_is_active_def session_lock_surface_is_allowed_def session_lock_get_focus_surface_def
  current_lock_def on_lock_def lock_output_from_wlr_output_def handle_new_surface_def handle_surface_map_def
  surface_of_def has_lock_output_def handle_new_output_def session_lock_try_send_locked_def handle_output_present_def
  handle_lock_abandoned_def session_lock_detach_protocol_def session_lock_destroy_def lock_output_destroy_def
  refocus_surface_def handle_unlock_def Let_def

lemma lock_run_example:
  "\<exists>s. lock_run [NewLock (\<lambda>_. True) 10 20, NewLockSurface True True 30 1, SurfaceMap 1, OutputOn True 2] two_outputs = Some s \<and>
     session_lock_is_active s \<and> set (lw_outputs s) = {1, 2} \<and> lw_enabled s 1 \<and> lw_enabled s 2"
  by (auto simp: two_outputs_def lock_eval)

theorem lock_covers_outputs_witness:
  "\<exists>s l. lock_run [NewLock (\<lambda>_. True) 10 20, NewLockSurface True True 30 1, SurfaceMap 1, OutputOn True 2] two_outputs = Some s \<and>
     current_lock s = Some l \<and> (\<exists>lo \<in> set (sl_outputs l). lo_output lo = 2 \<and> lo_enabled lo)"
proof -
  obtain s where s: "lock_run [NewLock (\<lambda>_. True) 10 20, NewLockSurface True True 30 1, SurfaceMap 1, OutputOn True 2] two_outputs = Some s"
    "session_lock_is_active s" "set (lw_outputs s) = {1, 2}" "lw_enabled s 2" using lock_run_example by blast
  show ?thesis using lock_covers_outputs [OF _ s(1) [unfolded two_outputs_def] s(2)] s(1,3,4) by auto
qed

subsection \<open>The locked message\<close>

text \<open>The lock was told that the session is locked, and every enabled output it knows shows a frame of it.\<close>

definition announced :: "ptr \<Rightarrow> session_lock_manager \<Rightarrow> bool" where
  "announced p s \<longleftrightarrow> (\<exists>l. locks s p = Some l \<and> locked_sent l \<and>
     (\<forall>lo \<in> set (sl_outputs l). lw_enabled s (lo_output lo) \<longrightarrow> lo_presented lo))"

lemma try_send_announces:
  assumes "session_lock_try_send_locked p s = Some s'"
  shows "sent_locked s' = sent_locked s \<or> announced p s'"
proof -
  obtain l where "locks s p = Some l" using assms by (auto simp: session_lock_try_send_locked_def bind_eq_Some_conv)
  then show ?thesis
    using assms by (auto simp: session_lock_try_send_locked_def announced_def list_ex_iff split: if_splits)
qed

lemma silent [simp]:
  "sent_locked (focus_surface p f s) = sent_locked s" "sent_locked (session_lock_detach_protocol p s) = sent_locked s"
  "sent_locked (s\<lparr>locks := ls\<rparr>) = sent_locked s" "sent_locked (s\<lparr>lm_lock := q\<rparr>) = sent_locked s"
  "sent_locked (stop_lock_recovery s) = sent_locked s"
  by (simp_all add: focus_surface_def session_lock_detach_protocol_def Let_def stop_lock_recovery_def sent_locked_def effect_def upd_lock_def)

lemma refocus_silent: "refocus_surface p r s = Some s' \<Longrightarrow> sent_locked s' = sent_locked s"
  by (auto simp: refocus_surface_def bind_eq_Some_conv Let_def split: if_splits)

lemma locks_focus: "locks (focus_surface p f s) = (locks s)(p := map_option (\<lambda>l. l\<lparr>focused := f\<rparr>) (locks s p))"
  by (simp add: focus_surface_def Let_def)

lemma refocus_destroying:
  assumes "refocus_surface p r s = Some s'" "map_option destroying (locks s p) = Some d"
  shows "map_option destroying (locks s' p) = Some d"
  using assms by (auto simp: refocus_surface_def Let_def locks_focus split: if_splits)

lemma lock_output_destroyE:
  assumes "lock_output_destroy p out s = Some s'"
  obtains lo :: session_lock_output and s1 where
    "refocus_surface p (lo_surface lo) (upd_lock p (upd_out out (\<lambda>lo. lo\<lparr>lo_surface := NULL\<rparr>)) s) = Some s1"
    "session_lock_try_send_locked p
       (upd_lock p (\<lambda>l. l\<lparr>sl_outputs := filter (\<lambda>lo. lo_output lo \<noteq> out) (sl_outputs l)\<rparr>) s1) = Some s'"
  using assms unfolding lock_output_destroy_def bind_eq_Some_conv by blast

lemma lock_output_destroy_announces:
  assumes "lock_output_destroy p out s = Some s'"
  shows "sent_locked s' = sent_locked s \<or> announced p s'"
proof -
  obtain lo :: session_lock_output and s1 where
    1: "refocus_surface p (lo_surface lo) (upd_lock p (upd_out out (\<lambda>lo. lo\<lparr>lo_surface := NULL\<rparr>)) s) = Some s1"
    "session_lock_try_send_locked p
       (upd_lock p (\<lambda>l. l\<lparr>sl_outputs := filter (\<lambda>lo. lo_output lo \<noteq> out) (sl_outputs l)\<rparr>) s1) = Some s'"
    by (rule lock_output_destroyE [OF assms])
  show ?thesis using refocus_silent [OF 1(1)] try_send_announces [OF 1(2)] by simp
qed

lemma lock_output_destroy_destroying:
  assumes "lock_output_destroy p out s = Some s'" "map_option destroying (locks s p) = Some True"
  shows "sent_locked s' = sent_locked s \<and> map_option destroying (locks s' p) = Some True"
proof -
  let ?u = "\<lambda>s. upd_lock p (\<lambda>l. l\<lparr>sl_outputs := filter (\<lambda>lo. lo_output lo \<noteq> out) (sl_outputs l)\<rparr>) s"
  obtain lo :: session_lock_output and s1 where
    1: "refocus_surface p (lo_surface lo) (upd_lock p (upd_out out (\<lambda>lo. lo\<lparr>lo_surface := NULL\<rparr>)) s) = Some s1"
    "session_lock_try_send_locked p (?u s1) = Some s'"
    by (rule lock_output_destroyE [OF assms(1)])
  have "map_option destroying (locks s1 p) = Some True"
    by (rule refocus_destroying [OF 1(1)]) (use assms(2) in auto)
  moreover from this have "s' = ?u s1" using 1(2) by (auto simp: session_lock_try_send_locked_def)
  ultimately show ?thesis using refocus_silent [OF 1(1)] by auto
qed

lemma destroy_outputs_silent:
  "destroy_outputs p outs s = Some s' \<Longrightarrow> map_option destroying (locks s p) = Some True \<Longrightarrow> sent_locked s' = sent_locked s"
proof (induction outs arbitrary: s)
  case (Cons out outs)
  then obtain t where "lock_output_destroy p out s = Some t" "destroy_outputs p outs t = Some s'" by (auto simp: bind_eq_Some_conv)
  then show ?case using Cons.IH lock_output_destroy_destroying [of p out s t] Cons.prems(2) by simp
qed simp

lemma session_lock_destroy_silent:
  assumes "session_lock_destroy p r s = Some s'"
  shows "sent_locked s' = sent_locked s"
proof -
  let ?s1 = "session_lock_detach_protocol p (upd_lock p (\<lambda>l. l\<lparr>destroying := True\<rparr>) s)"
  obtain l t where l: "locks s p = Some l"
    "destroy_outputs p (map lo_output (sl_outputs l)) (if r then effect CancelGrabs ?s1 else ?s1) = Some t"
    "sent_locked s' = sent_locked t"
    using assms by (auto simp: session_lock_destroy_def bind_eq_Some_conv Let_def split: if_splits)
  then show ?thesis using destroy_outputs_silent [OF l(2)] by (simp add: session_lock_detach_protocol_def split: if_splits)
qed

lemma lock_output_create_silent: "lock_output_create ok p out s = Some s' \<Longrightarrow> sent_locked s' = sent_locked s"
  by (auto simp: lock_output_create_def split: if_splits)

lemma add_lock_outputs_silent: "add_lock_outputs ok p outs s = (failed, s') \<Longrightarrow> sent_locked s' = sent_locked s"
  by (induction ok p outs s rule: add_lock_outputs.induct)
    (auto dest: lock_output_create_silent split: if_splits option.splits)

lemma present_announces: "handle_output_present p out seq b s = Some s' \<Longrightarrow> sent_locked s' = sent_locked s \<or> announced p s'"
  using try_send_announces [of p "upd_lock p (upd_out out (\<lambda>lo. lo\<lparr>lo_presented := True\<rparr>)) s" s']
  by (auto simp: handle_output_present_def bind_eq_Some_conv split: if_splits)

lemma disable_announces: "handle_output_disable d p out s = Some s' \<Longrightarrow> sent_locked s' = sent_locked s \<or> announced p s'"
  using try_send_announces [of p "upd_lock p (upd_out out (\<lambda>lo. lo\<lparr>lo_enabled := False\<rparr>)) s" s']
    lock_output_destroy_announces [of p out s s']
  by (auto simp: handle_output_disable_def split: if_splits)

lemma surface_silent:
  "handle_new_surface ok tree_ok p surface out s = Some s' \<Longrightarrow> sent_locked s' = sent_locked s"
  "handle_surface_map p out s = Some s' \<Longrightarrow> sent_locked s' = sent_locked s"
  "handle_surface_destroy p out s = Some s' \<Longrightarrow> sent_locked s' = sent_locked s"
  "lock_surface_click p out s = Some s' \<Longrightarrow> sent_locked s' = sent_locked s"
  by (auto simp: handle_new_surface_def handle_surface_map_def handle_surface_destroy_def lock_surface_click_def
      bind_eq_Some_conv dest: lock_output_create_silent refocus_silent split: if_splits)

lemma lock_end_silent:
  "handle_lock_abandoned p s = Some s' \<Longrightarrow> sent_locked s' = sent_locked s"
  "session_lock_manager_destroy s = Some s' \<Longrightarrow> sent_locked s' = sent_locked s"
proof -
  have "sent_locked (t\<lparr>recovery_attempts := 0, recovery_timer := x\<rparr>) = sent_locked t" for t x by (simp add: sent_locked_def)
  then show "handle_lock_abandoned p s = Some s' \<Longrightarrow> sent_locked s' = sent_locked s"
    by (auto simp: handle_lock_abandoned_def bind_eq_Some_conv Let_def dest: session_lock_destroy_silent split: if_splits)
  have "sent_locked (t\<lparr>manager_alive := False, recovery_timer := None\<rparr>) = sent_locked t" for t by (simp add: sent_locked_def)
  then show "session_lock_manager_destroy s = Some s' \<Longrightarrow> sent_locked s' = sent_locked s"
    by (auto simp: session_lock_manager_destroy_def bind_eq_Some_conv dest: session_lock_destroy_silent split: if_splits)
qed

lemma timer_silent: "sent_locked (handle_lock_recovery_timer s) = sent_locked s"
  by (simp add: handle_lock_recovery_timer_def Let_def sent_locked_def effect_def split: option.split)

lemma new_output_silent: "handle_new_output ok out s = Some s' \<Longrightarrow> sent_locked s' = sent_locked s"
  by (auto simp: handle_new_output_def bind_eq_Some_conv dest: lock_output_create_silent split: if_splits)

lemma new_lock_announces:
  assumes "handle_new_lock ok p protocol s = Some s'"
  shows "sent_locked s' = sent_locked s \<or> announced p s'"
proof -
  obtain failed s1 where 1: "add_lock_outputs ok p (lw_outputs s) (s\<lparr>locks := (locks s)(p \<mapsto> new_session_lock protocol)\<rparr>) = (failed, s1)"
    by fastforce
  have s1: "sent_locked s1 = sent_locked s" using add_lock_outputs_silent [OF 1] by simp
  consider "s' = effect (DestroyProtocolLock protocol) s"
    | s2 where "session_lock_destroy p False s1 = Some s2" "s' = effect (DestroyProtocolLock protocol) s2"
    | s2 where "(if lm_lock s \<noteq> NULL then session_lock_destroy (lm_lock s) False s1 else Some s1) = Some s2"
        "session_lock_try_send_locked p (focus_surface p NULL (effect CancelGrabs (stop_lock_recovery (s2\<lparr>lm_lock := p\<rparr>)))) = Some s'"
    using assms 1 by (auto simp: handle_new_lock_def bind_eq_Some_conv Let_def split: if_splits)
  then show ?thesis
  proof cases
    case 2
    then show ?thesis using session_lock_destroy_silent [OF 2(1)] s1 by simp
  next
    case 3
    then show ?thesis using try_send_announces [OF 3(2)] s1 by (auto dest: session_lock_destroy_silent split: if_splits)
  qed simp
qed

lemma env_silent:
  "sent_locked (s\<lparr>lw_outputs := a, lw_enabled := b\<rparr>) = sent_locked s" "sent_locked (s\<lparr>lw_enabled := b\<rparr>) = sent_locked s"
  "sent_locked (s\<lparr>lw_outputs := a\<rparr>) = sent_locked s" "sent_locked (s\<lparr>lw_commit_seq := c\<rparr>) = sent_locked s"
  "sent_locked (s\<lparr>surface_mapped := d\<rparr>) = sent_locked s" "announced p (s\<lparr>lw_outputs := a\<rparr>) = announced p s"
  by (simp_all add: sent_locked_def announced_def)

lemma lock_step_announces:
  assumes r: "lock_step e s = Some s'"
  shows "sent_locked s' = sent_locked s \<or> (\<exists>p. announced p s')"
proof (cases e)
  case (NewLock ok p protocol)
  then show ?thesis using r by (auto simp: lock_step_def dest!: new_lock_announces split: if_splits)
next
  case (OutputOn ok out)
  then show ?thesis using r by (auto simp: lock_step_def Let_def env_silent dest: new_output_silent split: if_splits)
next
  case (OutputOff out)
  then show ?thesis
    using r disable_announces [of False _ out "s\<lparr>lw_enabled := (lw_enabled s)(out := False)\<rparr>" s']
    by (auto simp: lock_step_def env_silent elim!: on_lock_cases)
next
  case (OutputGone out)
  then obtain t where "on_lock (\<lambda>l. has_lock_output l out) (\<lambda>p. handle_output_disable True p out) s = Some t"
    "s' = t\<lparr>lw_outputs := removeAll out (lw_outputs t)\<rparr>"
    using r by (auto simp: lock_step_def)
  then show ?thesis using disable_announces [of True _ out s t] by (auto simp: env_silent elim!: on_lock_cases)
next
  case (Present out seq ok)
  then show ?thesis using r by (auto simp: lock_step_def elim!: on_lock_cases dest!: present_announces)
next
  case (SurfaceMap out)
  then have "on_lock (\<lambda>l. surface_of l out \<noteq> NULL) (\<lambda>p s. handle_surface_map p out
      (case current_lock s of None \<Rightarrow> s | Some l \<Rightarrow> s\<lparr>surface_mapped := (surface_mapped s)(surface_of l out := True)\<rparr>)) s = Some s'"
    using r by (simp add: lock_step_def)
  then show ?thesis by (cases rule: on_lock_cases) (auto dest!: surface_silent(2) simp: env_silent)
qed (use r in \<open>auto simp: lock_step_def handle_unlock_def env_silent timer_silent elim!: on_lock_cases
      dest: session_lock_destroy_silent lock_end_silent surface_silent split: if_splits\<close>)

text \<open>C14: a client is told that the session is locked only in a state in which its lock is the current one and every
  enabled output has a lock output that is shown and has been presented.\<close>

theorem locked_sent_only_when_covered:
  assumes "distinct outs" "lock_run es (session_lock_manager_create outs enabled seqs root) = Some s"
    "lock_step e s = Some s'" "sent_locked s' \<noteq> sent_locked s"
  shows "\<exists>l. current_lock s' = Some l \<and> locked_sent l \<and>
    (\<forall>out. out \<in> set (lw_outputs s') \<and> lw_enabled s' out \<longrightarrow>
       (\<exists>lo \<in> set (sl_outputs l). lo_output lo = out \<and> lo_enabled lo \<and> lo_presented lo))"
proof -
  have i: "lock_inv s'" using lock_run_inv [OF assms(1,2)] lock_step_inv [OF _ assms(3)] by blast
  obtain p l where l: "locks s' p = Some l" "locked_sent l" "\<And>lo. lo \<in> set (sl_outputs l) \<Longrightarrow> lw_enabled s' (lo_output lo) \<Longrightarrow> lo_presented lo"
    using lock_step_announces [OF assms(3)] assms(4) unfolding announced_def by blast
  have "p = lm_lock s'" using i l(1) unfolding lock_inv_def by (metis option.simps(3))
  then have c: "current_lock s' = Some l" using lock_inv_current [OF i] l(1) by simp
  then have "covered s' l" using lock_inv_lock [OF i] by (auto simp: lock_ok_def)
  then show ?thesis using c l(2,3) unfolding covered_def by blast
qed

definition present_run :: "lock_event list" where
  "present_run = [NewLock (\<lambda>_. True) 10 20, NewLockSurface True True 30 1, SurfaceMap 1, Commit 1]"

lemma present_run_state:
  "\<exists>s s'. lock_run present_run two_outputs = Some s \<and> lock_step (Present 1 1 True) s = Some s' \<and>
     sent_locked s = [] \<and> sent_locked s' = [SendLocked 20]"
  by (simp add: present_run_def two_outputs_def lock_eval sent_locked_def)

theorem locked_sent_only_when_covered_witness:
  "\<exists>s s' l. lock_run present_run two_outputs = Some s \<and> lock_step (Present 1 1 True) s = Some s' \<and>
     sent_locked s' = [SendLocked 20] \<and> current_lock s' = Some l \<and> locked_sent l"
proof -
  obtain s s' where s: "lock_run present_run two_outputs = Some s" "lock_step (Present 1 1 True) s = Some s'"
    "sent_locked s = []" "sent_locked s' = [SendLocked 20]" using present_run_state by blast
  show ?thesis using locked_sent_only_when_covered [OF _ s(1) [unfolded two_outputs_def] s(2)] s by auto
qed

text \<open>C15: in any run, a locked session becomes unlocked in one step only by the unlock request of the lock client, by
  the end of the manager, or by the end of a client whose lock was never told that the session is locked.\<close>

theorem lock_ends_only_by:
  assumes "distinct outs" "lock_run es (session_lock_manager_create outs enabled seqs root) = Some s"
    "lock_step e s = Some s'" "session_lock_is_active s" "\<not> session_lock_is_active s'"
  shows "e = Unlock \<or> e = ManagerGone \<or> e = LockerGone \<and> (\<exists>l. current_lock s = Some l \<and> attached l \<and> \<not> locked_sent l)"
proof -
  have i: "lock_inv s" by (rule lock_run_inv [OF assms(1,2)])
  have i': "lock_inv s'" and e: "lm_lock s = NULL \<or> lm_lock s' \<noteq> NULL \<or> ends_lock e s"
    using lock_step_inv [OF i assms(3)] by auto
  have "lm_lock s \<noteq> NULL" "lm_lock s' = NULL"
    using assms(4,5) i' by (auto simp: session_lock_is_active_def lock_inv_def)
  then have e: "ends_lock e s" using e by simp
  obtain l where l: "current_lock s = Some l"
    using i assms(4) by (auto simp: lock_inv_def current_lock_def session_lock_is_active_def)
  have "attached l" if "e = LockerGone"
  proof (rule ccontr)
    assume "\<not> attached l"
    then have "s' = s" using that assms(3) l by (simp add: lock_step_def on_lock_def)
    then show False using assms(4,5) by simp
  qed
  then show ?thesis using e l by (auto simp: ends_lock_def)
qed

theorem lock_ends_only_by_witness:
  "\<exists>s s'. lock_run [NewLock (\<lambda>_. True) 10 20] two_outputs = Some s \<and> session_lock_is_active s \<and>
     lock_step LockerGone s = Some s' \<and> \<not> session_lock_is_active s' \<and>
     (\<exists>l. current_lock s = Some l \<and> attached l \<and> \<not> locked_sent l)"
proof -
  have "\<exists>s s'. lock_run [NewLock (\<lambda>_. True) 10 20] two_outputs = Some s \<and> session_lock_is_active s \<and>
      lock_step LockerGone s = Some s' \<and> \<not> session_lock_is_active s'"
    by (simp add: two_outputs_def lock_eval)
  then obtain s s' where s: "lock_run [NewLock (\<lambda>_. True) 10 20] two_outputs = Some s" "session_lock_is_active s"
    "lock_step LockerGone s = Some s'" "\<not> session_lock_is_active s'" by blast
  show ?thesis using lock_ends_only_by [OF _ s(1) [unfolded two_outputs_def] s(3,2,4)] s by auto
qed

subsection \<open>A replacement that goes as well\<close>






end
