(* ===== verification/PositionerGrid.thy ===== *)
theory PositionerGrid
  imports ViewState
begin

section \<open>The grid of the positioner (\<^verbatim>\<open>view/positioner.c\<close>)\<close>

text \<open>
  New windows are placed on a grid of slots over the usable area of their output. The slots are the cells on
  and above the main diagonal, numbered along the diagonals. This theory has the record of a positioner, the
  layout of its grid and the two translations between slots and positions, with the proof that they are
  inverse to each other.
\<close>

type_synonym handle = nat

definition GRID_GAP_ROW :: int where "GRID_GAP_ROW = 50"
definition GRID_GAP_COLUMN :: int where "GRID_GAP_COLUMN = 50"
definition GRID_OFFSET_TOP :: int where "GRID_OFFSET_TOP = 50"
definition GRID_OFFSET_BOTTOM :: int where "GRID_OFFSET_BOTTOM = 500"
definition GRID_OFFSET_LEFT :: int where "GRID_OFFSET_LEFT = 50"
definition GRID_OFFSET_RIGHT :: int where "GRID_OFFSET_RIGHT = 500"

lemmas grid_consts = GRID_GAP_ROW_def GRID_GAP_COLUMN_def GRID_OFFSET_TOP_def GRID_OFFSET_BOTTOM_def
  GRID_OFFSET_LEFT_def GRID_OFFSET_RIGHT_def

record positioner =
  places :: "handle list"
  po_output :: ptr
  po_name :: string
  catcher_box :: kywc_box
  catcher_positioners :: "handle list"
  grid_area :: kywc_box
  po_usable :: kywc_box
  off_top :: int
  off_bottom :: int
  off_left :: int
  off_right :: int
  gap_row :: int
  gap_column :: int
  num_step :: int
  num_column :: int
  key_slot :: int
  max_slot :: int

definition clamp_size :: "int \<Rightarrow> int \<Rightarrow> int \<Rightarrow> int" where
  "clamp_size sz off gap =
     (let sz = sz - off; sz = (if sz < gap then gap else sz) in sz sdiv gap * gap)"

definition positioner_update_grid :: "kywc_box \<Rightarrow> positioner \<Rightarrow> bool \<times> positioner" where
  "positioner_update_grid usable pos =
     (if kywc_box_equal (po_usable pos) usable then (False, pos)
      else
        let pos = pos\<lparr>po_usable := usable\<rparr>;
            area = \<lparr>box_x = box_x usable + off_left pos, box_y = box_y usable + off_top pos,
              box_width = clamp_size (box_width usable) (off_left pos + off_right pos) (gap_column pos),
              box_height = clamp_size (box_height usable) (off_top pos + off_bottom pos) (gap_row pos)\<rparr>
        in if kywc_box_equal (grid_area pos) area then (False, pos)
           else
             let columns = box_width area sdiv gap_column pos;
                 num_row = box_height area sdiv gap_row pos;
                 step = min columns num_row;
                 key = step * (columns - step) + step - 1
             in (True, pos\<lparr>grid_area := area, num_column := columns, num_step := step, key_slot := key,
                  max_slot := key + step * (step - 1) sdiv 2\<rparr>))"

text \<open>The slot of the cell in a column and a row, and back.\<close>

definition cell_slot :: "int \<Rightarrow> int \<Rightarrow> int \<Rightarrow> int \<Rightarrow> int" where
  "cell_slot step columns column row =
     (if row = column then row
      else let num = step * (column - row) + row; lost = (column - row - 1) + step - columns
           in if lost \<le> 0 then num else num - (1 + lost) * lost sdiv 2)"

definition positioner_calc_slot :: "positioner \<Rightarrow> kywc_view \<Rightarrow> int option" where
  "positioner_calc_slot pos v =
     (if \<not> kywc_box_contains_point (grid_area pos) (box_x (geometry v)) (box_y (geometry v)) then None
      else
        let column = (box_x (geometry v) - off_x v - box_x (grid_area pos)) sdiv gap_column pos;
            row = (box_y (geometry v) - off_y v - box_y (grid_area pos)) sdiv gap_row pos
        in if row > column then None else Some (cell_slot (num_step pos) (num_column pos) column row))"

fun position_loop :: "int \<Rightarrow> int \<Rightarrow> int \<Rightarrow> int \<Rightarrow> int list \<Rightarrow> int \<times> int" where
  "position_loop slot num column row [] = (column, row)"
| "position_loop slot num column row (i # is) =
     (let num = num + (row - i); off = num - slot
      in if off \<ge> 0 then (column - off, row - (off + i + 1)) else position_loop slot num column row is)"

definition slot_cell :: "int \<Rightarrow> int \<Rightarrow> int \<Rightarrow> int \<Rightarrow> int \<times> int" where
  "slot_cell step columns key slot =
     (if slot \<le> key then let row = slot smod step in (slot sdiv step + row, row)
      else position_loop slot key (columns - 1) (step - 1) [0..step - 2])"

definition positioner_calc_position :: "positioner \<Rightarrow> int \<Rightarrow> (int \<times> int) option" where
  "positioner_calc_position pos slot =
     (if slot > max_slot pos then None
      else let (column, row) = slot_cell (num_step pos) (num_column pos) (key_slot pos) slot
           in Some (column * gap_column pos + box_x (grid_area pos), row * gap_row pos + box_y (grid_area pos)))"

definition slot_is_suitable :: "positioner \<Rightarrow> kywc_view \<Rightarrow> int \<Rightarrow> (int \<times> int) option" where
  "slot_is_suitable pos v slot =
     (case positioner_calc_position pos slot of
        None \<Rightarrow> None
      | Some (gx, gy) \<Rightarrow>
        let gwidth = box_x (po_usable pos) + box_width (po_usable pos) - gx;
            gheight = box_y (po_usable pos) + box_height (po_usable pos) - gy;
            width = box_width (geometry v) + off_width v;
            height = box_height (geometry v) + off_height v
        in if gwidth \<ge> width \<and> gheight \<ge> height then Some (gx + off_x v, gy + off_y v) else None)"

subsection \<open>Cells and slots\<close>

text \<open>The number of the last slot after \<open>i\<close> of the shorter diagonals.\<close>

definition diagonal_end :: "int \<Rightarrow> int \<Rightarrow> int \<Rightarrow> int" where
  "diagonal_end step key i = key + i * (step - 1) - i * (i - 1) div 2"

lemma tri_step: "(i + 1) * i div 2 = i * (i - 1) div 2 + (i :: int)"
proof -
  have "(i + 1) * i = i * (i - 1) + i * 2" by (simp add: algebra_simps)
  then show ?thesis by simp
qed

lemma diagonal_end_step: "diagonal_end step key (i + 1) = diagonal_end step key i + (step - 1 - i)"
  using tri_step [of i] by (simp add: diagonal_end_def algebra_simps)

lemma position_loop_hits:
  assumes "0 \<le> i" "i \<le> k" "k \<le> step - 2" "diagonal_end step key k < slot" "slot \<le> diagonal_end step key (k + 1)"
  shows "position_loop slot (diagonal_end step key i) column (step - 1) [i..step - 2] =
    (column - (diagonal_end step key (k + 1) - slot), step - 1 - (diagonal_end step key (k + 1) - slot + k + 1))"
  using assms
proof (induction "nat (k - i)" arbitrary: i)
  case 0
  then have "i = k" by simp
  then show ?case using 0 by (simp add: upto_rec1 diagonal_end_step)
next
  case (Suc n)
  then have i: "i < k" by simp
  have mono: "diagonal_end step key (i + 1) \<le> diagonal_end step key k"
  proof -
    have "diagonal_end step key (i + 1) \<le> diagonal_end step key (i + 1 + int m)" if "i + 1 + int m \<le> k" for m
      using that
    proof (induction m)
      case (Suc m)
      then have "diagonal_end step key (i + 1 + int m) \<le> diagonal_end step key (i + 1 + int m + 1)"
        using diagonal_end_step [of step key "i + 1 + int m"] Suc.prems assms(3) by simp
      then show ?case using Suc by (simp add: ac_simps)
    qed simp
    from this [of "nat (k - (i + 1))"] show ?thesis using i by simp
  qed
  have "position_loop slot (diagonal_end step key i) column (step - 1) [i..step - 2] =
      position_loop slot (diagonal_end step key (i + 1)) column (step - 1) [i + 1..step - 2]"
    using Suc i mono by (simp add: upto_rec1 diagonal_end_step)
  then show ?case using Suc.hyps(1) [of "i + 1"] Suc i by simp
qed

lemma sdiv_nonneg: "0 \<le> a \<Longrightarrow> 0 < b \<Longrightarrow> (a :: int) sdiv b = a div b" "0 \<le> a \<Longrightarrow> 0 < b \<Longrightarrow> a smod b = a mod b"
  by (auto simp: signed_divide_int_def signed_modulo_int_def sgn_if)

lemma div_less_int: "0 < q \<Longrightarrow> a < b * q \<Longrightarrow> a div q < (b :: int)"
proof -
  assume q: "0 < q" "a < b * q"
  have "a div q * q \<le> a" using q(1) by (simp add: minus_mod_eq_div_mult [symmetric])
  then have "a div q * q < b * q" using q(2) by linarith
  then show ?thesis using q(1) by simp
qed

definition cell_ok :: "int \<Rightarrow> int \<Rightarrow> int \<Rightarrow> int \<Rightarrow> bool" where
  "cell_ok step columns column row \<longleftrightarrow> 0 \<le> row \<and> row \<le> column \<and> column < columns \<and> row < step"

definition grid_key :: "int \<Rightarrow> int \<Rightarrow> int" where "grid_key step columns = step * (columns - step) + step - 1"

lemma cell_slot_long:
  assumes "cell_ok step columns column row" "column - row \<le> columns - step"
  shows "cell_slot step columns column row = step * (column - row) + row"
  using assms by (simp add: cell_slot_def Let_def)

lemma cell_slot_short:
  assumes "cell_ok step columns column row" "step \<le> columns" "j = column - row - (columns - step)" "1 \<le> j"
  shows "cell_slot step columns column row = diagonal_end step (grid_key step columns) j - (step - 1 - j - row)"
proof -
  have d: "column - row = columns - step + j" "row \<noteq> column" using assms by auto
  have l: "column - row - 1 + step - columns = j - 1" using d(1) by simp
  have "cell_slot step columns column row =
      (if j - 1 \<le> 0 then step * (column - row) + row else step * (column - row) + row - (1 + (j - 1)) * (j - 1) sdiv 2)"
    using d(2) by (simp only: cell_slot_def l Let_def if_False)
  also have "\<dots> = step * (columns - step + j) + row - j * (j - 1) div 2"
    using assms(4) sdiv_nonneg(1) [of "j * (j - 1)" 2] by (cases "j = 1") (simp_all add: d(1))
  finally have "cell_slot step columns column row = step * (columns - step + j) + row - j * (j - 1) div 2" .
  then show ?thesis by (simp add: diagonal_end_def grid_key_def algebra_simps)
qed

lemma diagonal_end_0 [simp]: "diagonal_end step key 0 = key"
  by (simp add: diagonal_end_def)

lemma diagonal_end_last: "1 \<le> step \<Longrightarrow> diagonal_end step key (step - 1) = key + step * (step - 1) div 2"
proof -
  have "step * (step - 1) = (step - 1) * (step - 2) + (step - 1) * 2" by (simp add: algebra_simps)
  then have "step * (step - 1) div 2 = (step - 1) * (step - 2) div 2 + (step - 1)" by simp
  moreover have "(step - 1) * (step - 1) = (step - 1) * (step - 2) + (step - 1)" by (simp add: algebra_simps)
  moreover have "2 * ((step - 1) * (step - 2) div 2) = (step - 1) * (step - 2)"
    by (simp add: algebra_simps)
  ultimately show ?thesis by (simp add: diagonal_end_def)
qed

lemma diagonal_end_mono: "0 \<le> i \<Longrightarrow> i \<le> k \<Longrightarrow> k \<le> step - 1 \<Longrightarrow> diagonal_end step key i \<le> diagonal_end step key k"
proof (induction "nat (k - i)" arbitrary: k)
  case (Suc n)
  then have "diagonal_end step key i \<le> diagonal_end step key (k - 1)" by simp
  then show ?case using diagonal_end_step [of step key "k - 1"] Suc.prems by simp
qed simp

text \<open>Every cell has a slot of the grid, and the slot leads back to the cell.\<close>

lemma slot_cell_of_cell:
  assumes c: "cell_ok step columns column row" and s: "1 \<le> step" "step \<le> columns"
  defines "key \<equiv> grid_key step columns"
  shows "slot_cell step columns key (cell_slot step columns column row) = (column, row) \<and>
    0 \<le> cell_slot step columns column row \<and> cell_slot step columns column row \<le> diagonal_end step key (step - 1)"
proof (cases "column - row \<le> columns - step")
  case True
  have e: "cell_slot step columns column row = step * (column - row) + row" by (rule cell_slot_long [OF c True])
  have r: "0 \<le> row" "row < step" "0 \<le> column - row" using c by (auto simp: cell_ok_def)
  have "step * (column - row) \<le> step * (columns - step)" using True s(1) by (intro mult_left_mono) auto
  then have k: "step * (column - row) + row \<le> key" using r(2) by (simp add: key_def grid_key_def)
  have n: "0 \<le> step * (column - row) + row" using r s(1) by simp
  have "(step * (column - row) + row) div step = column - row" "(step * (column - row) + row) mod step = row"
    using r by simp_all
  then have "slot_cell step columns key (step * (column - row) + row) = (column, row)"
    using k n s(1) by (simp add: slot_cell_def sdiv_nonneg)
  then show ?thesis using e n k diagonal_end_mono [of 0 "step - 1" step key] s(1) by simp
next
  case False
  define j where "j = column - row - (columns - step)"
  have j: "1 \<le> j" "row \<le> step - 1 - j" "0 \<le> row" using False c by (auto simp: j_def cell_ok_def)
  have e: "cell_slot step columns column row = diagonal_end step key j - (step - 1 - j - row)"
    unfolding key_def by (rule cell_slot_short [OF c s(2) j_def j(1)])
  have b: "diagonal_end step key (j - 1) < cell_slot step columns column row"
    "cell_slot step columns column row \<le> diagonal_end step key (j - 1 + 1)"
    using diagonal_end_step [of step key "j - 1"] e j by simp_all
  have "0 \<le> step * (columns - step)" using s by simp
  then have k: "key < cell_slot step columns column row" "0 \<le> key"
    using b(1) diagonal_end_mono [of 0 "j - 1" step key] j s(1) by (simp_all add: key_def grid_key_def)
  have "slot_cell step columns key (cell_slot step columns column row) = (column, row)"
    using position_loop_hits [OF _ _ _ b, of 0 "columns - 1"] j k(1) e by (simp add: slot_cell_def j_def)
  then show ?thesis using k b(2) diagonal_end_mono [of j "step - 1" step key] j by simp
qed

text \<open>Every slot of the grid has a cell, and the cell leads back to the slot.\<close>

lemma find_diagonal:
  assumes "diagonal_end step key 0 < slot" "slot \<le> diagonal_end step key n" "0 \<le> n"
  obtains k where "0 \<le> k" "k < n" "diagonal_end step key k < slot" "slot \<le> diagonal_end step key (k + 1)"
  using assms(3,2)
proof (induction n arbitrary: thesis rule: int_ge_induct)
  case base
  then show ?case using assms(1) by simp
next
  case (step n)
  show ?case
  proof (cases "slot \<le> diagonal_end step key n")
    case True
    then show ?thesis using step by force
  next
    case False
    then show ?thesis using step by (intro step.prems(1) [of n]) auto
  qed
qed

lemma cell_of_slot:
  assumes s: "1 \<le> step" "step \<le> columns"
  defines "key \<equiv> grid_key step columns"
  assumes slot: "0 \<le> slot" "slot \<le> diagonal_end step key (step - 1)"
  obtains column row where "slot_cell step columns key slot = (column, row)" "cell_ok step columns column row"
    "cell_slot step columns column row = slot"
proof (cases "slot \<le> key")
  case True
  let ?row = "slot mod step" and ?d = "slot div step"
  have r: "0 \<le> ?row" "?row < step" "0 \<le> ?d" using s(1) slot(1) by (simp_all add: pos_imp_zdiv_nonneg_iff)
  have "?d < columns - step + 1"
  proof -
    have "slot < (columns - step + 1) * step" using True by (simp add: key_def grid_key_def algebra_simps)
    then show ?thesis using s(1) by (intro div_less_int) auto
  qed
  then have c: "cell_ok step columns (?d + ?row) ?row" "?d + ?row - ?row \<le> columns - step" using r by (auto simp: cell_ok_def)
  have "slot_cell step columns key slot = (?d + ?row, ?row)"
    using True slot(1) s(1) by (simp add: slot_cell_def sdiv_nonneg Let_def)
  moreover have "cell_slot step columns (?d + ?row) ?row = slot"
    unfolding cell_slot_long [OF c] by simp
  ultimately show ?thesis using that c(1) by blast
next
  case False
  obtain k where k: "0 \<le> k" "k < step - 1" "diagonal_end step key k < slot" "slot \<le> diagonal_end step key (k + 1)"
    by (rule find_diagonal [of step key slot "step - 1"]) (use False slot s in auto)
  define off where "off = diagonal_end step key (k + 1) - slot"
  have off: "0 \<le> off" "off < step - 1 - k" using k(3,4) diagonal_end_step [of step key k] by (simp_all add: off_def)
  let ?column = "columns - 1 - off" and ?row = "step - 1 - (off + k + 1)"
  have c: "cell_ok step columns ?column ?row" using off k(1) s by (simp add: cell_ok_def)
  have "slot_cell step columns key slot = (?column, ?row)"
    using position_loop_hits [of 0 k step key slot "columns - 1"] k False by (simp add: slot_cell_def off_def)
  moreover have "cell_slot step columns ?column ?row = slot"
    using cell_slot_short [OF c s(2), of "k + 1"] k(1) by (simp add: off_def key_def)
  ultimately show ?thesis using that c by blast
qed

subsection \<open>Slots and positions\<close>

text \<open>A grid that \<open>positioner_update_grid\<close> has laid out.\<close>

definition grid_ok :: "positioner \<Rightarrow> bool" where
  "grid_ok pos \<longleftrightarrow> 0 < gap_row pos \<and> 0 < gap_column pos \<and> 1 \<le> num_step pos \<and> num_step pos \<le> num_column pos \<and>
     num_step pos * gap_row pos \<le> box_height (grid_area pos) \<and>
     box_width (grid_area pos) = num_column pos * gap_column pos \<and>
     (num_step pos = num_column pos \<or> box_height (grid_area pos) = num_step pos * gap_row pos) \<and>
     key_slot pos = grid_key (num_step pos) (num_column pos) \<and>
     max_slot pos = diagonal_end (num_step pos) (key_slot pos) (num_step pos - 1)"

lemma clamp_size_multiple:
  assumes "0 < gap"
  obtains n where "clamp_size s off gap = n * gap" "1 \<le> n" "clamp_size s off gap sdiv gap = n"
proof -
  define t where "t = (if s - off < gap then gap else s - off)"
  have t: "gap \<le> t" by (simp add: t_def)
  let ?n = "t div gap"
  have "gap div gap \<le> t div gap" by (rule zdiv_mono1 [OF t assms])
  then have n: "1 \<le> ?n" using assms by simp
  have e: "clamp_size s off gap = ?n * gap" using t assms by (simp add: clamp_size_def Let_def t_def sdiv_nonneg)
  have "0 \<le> ?n * gap" using n assms by simp
  then have "clamp_size s off gap sdiv gap = ?n" using e assms by (simp add: sdiv_nonneg)
  then show ?thesis using that e n by blast
qed

lemma update_grid_ok:
  assumes "0 < gap_row pos" "0 < gap_column pos" "positioner_update_grid usable pos = (changed, pos')"
    "grid_ok pos \<or> changed"
  shows "grid_ok pos'"
proof (cases changed)
  case True
  obtain c where c: "clamp_size (box_width usable) (off_left pos + off_right pos) (gap_column pos) = c * gap_column pos" "1 \<le> c"
    "clamp_size (box_width usable) (off_left pos + off_right pos) (gap_column pos) sdiv gap_column pos = c"
    by (rule clamp_size_multiple [OF assms(2)])
  obtain r where r: "clamp_size (box_height usable) (off_top pos + off_bottom pos) (gap_row pos) = r * gap_row pos" "1 \<le> r"
    "clamp_size (box_height usable) (off_top pos + off_bottom pos) (gap_row pos) sdiv gap_row pos = r"
    by (rule clamp_size_multiple [OF assms(1)])
  have m: "min c r * gap_row pos \<le> r * gap_row pos" using assms(1) by (intro mult_right_mono) auto
  have "min c r * (min c r - 1) sdiv 2 = min c r * (min c r - 1) div 2" using c(2) r(2) by (intro sdiv_nonneg) auto
  then show ?thesis
    using True assms(1,2,3) c r m diagonal_end_last [of "min c r"]
    by (auto simp: positioner_update_grid_def grid_ok_def grid_key_def Let_def split: if_splits)
next
  case False
  then show ?thesis using assms(3,4)
    by (auto simp: positioner_update_grid_def Let_def grid_ok_def split: if_splits)
qed

text \<open>A view at the position of a slot, with its decoration outside its geometry, has that slot.\<close>

lemma calc_slot_of_position:
  assumes "grid_ok pos" "0 \<le> slot" "positioner_calc_position pos slot = Some (x, y)"
    "box_x (geometry v) = x + off_x v" "box_y (geometry v) = y + off_y v"
    "0 \<le> off_x v" "off_x v < gap_column pos" "0 \<le> off_y v" "off_y v < gap_row pos"
  shows "positioner_calc_slot pos v = Some slot"
proof -
  have g: "0 < gap_row pos" "0 < gap_column pos" "1 \<le> num_step pos" "num_step pos \<le> num_column pos"
    "num_step pos * gap_row pos \<le> box_height (grid_area pos)" "box_width (grid_area pos) = num_column pos * gap_column pos"
    using assms(1) by (auto simp: grid_ok_def)
  have "slot \<le> diagonal_end (num_step pos) (grid_key (num_step pos) (num_column pos)) (num_step pos - 1)"
    using assms(1,3) by (auto simp: positioner_calc_position_def grid_ok_def split: if_splits)
  then obtain column row where c: "slot_cell (num_step pos) (num_column pos) (key_slot pos) slot = (column, row)"
    "cell_ok (num_step pos) (num_column pos) column row" "cell_slot (num_step pos) (num_column pos) column row = slot"
    using cell_of_slot [OF g(3,4) assms(2)] assms(1) by (metis grid_ok_def)
  have xy: "x = column * gap_column pos + box_x (grid_area pos)" "y = row * gap_row pos + box_y (grid_area pos)"
    using assms(3) c(1) by (auto simp: positioner_calc_position_def split: if_splits)
  have rc: "0 \<le> row" "row \<le> column" "column < num_column pos" "row < num_step pos" using c(2) by (auto simp: cell_ok_def)
  have "(column + 1) * gap_column pos \<le> num_column pos * gap_column pos" "(row + 1) * gap_row pos \<le> num_step pos * gap_row pos"
    "0 \<le> column * gap_column pos" "0 \<le> row * gap_row pos"
    using rc g by (auto intro!: mult_right_mono)
  then have i: "kywc_box_contains_point (grid_area pos) (box_x (geometry v)) (box_y (geometry v))"
    using assms(4-9) xy g(5,6) by (auto simp: kywc_box_contains_point_def algebra_simps)
  have "(box_x (geometry v) - off_x v - box_x (grid_area pos)) sdiv gap_column pos = column"
    "(box_y (geometry v) - off_y v - box_y (grid_area pos)) sdiv gap_row pos = row"
    using assms(4,5) xy rc g(1,2) by (simp_all add: sdiv_nonneg)
  then show ?thesis using i rc(2) c(3) by (simp add: positioner_calc_slot_def)
qed

text \<open>The slot of a view is a slot of the grid, and the corner of its frame lies in the cell of the slot.\<close>

lemma position_of_calc_slot:
  assumes "grid_ok pos" "positioner_calc_slot pos v = Some slot"
    "box_x (grid_area pos) \<le> box_x (geometry v) - off_x v" "box_y (grid_area pos) \<le> box_y (geometry v) - off_y v"
    "0 \<le> off_x v" "0 \<le> off_y v"
  shows "0 \<le> slot \<and> slot \<le> max_slot pos \<and>
    (\<exists>x y. positioner_calc_position pos slot = Some (x, y) \<and>
       x \<le> box_x (geometry v) - off_x v \<and> box_x (geometry v) - off_x v < x + gap_column pos \<and>
       y \<le> box_y (geometry v) - off_y v \<and> box_y (geometry v) - off_y v < y + gap_row pos)"
proof -
  have g: "0 < gap_row pos" "0 < gap_column pos" "1 \<le> num_step pos" "num_step pos \<le> num_column pos"
    "box_width (grid_area pos) = num_column pos * gap_column pos" "key_slot pos = grid_key (num_step pos) (num_column pos)"
    "max_slot pos = diagonal_end (num_step pos) (key_slot pos) (num_step pos - 1)"
    "num_step pos = num_column pos \<or> box_height (grid_area pos) = num_step pos * gap_row pos"
    using assms(1) by (auto simp: grid_ok_def)
  define dx where "dx = box_x (geometry v) - off_x v - box_x (grid_area pos)"
  define dy where "dy = box_y (geometry v) - off_y v - box_y (grid_area pos)"
  let ?c = "dx div gap_column pos" and ?r = "dy div gap_row pos"
  have d: "0 \<le> dx" "0 \<le> dy" using assms(3,4) by (auto simp: dx_def dy_def)
  have in_grid: "kywc_box_contains_point (grid_area pos) (box_x (geometry v)) (box_y (geometry v))"
    using assms(2) by (simp add: positioner_calc_slot_def split: if_splits)
  then have i: "dx < num_column pos * gap_column pos" "dy < box_height (grid_area pos)"
    using assms(5,6) g(5) by (simp_all add: kywc_box_contains_point_def dx_def dy_def)
  have "positioner_calc_slot pos v = (if ?r > ?c then None else Some (cell_slot (num_step pos) (num_column pos) ?c ?r))"
    unfolding positioner_calc_slot_def dx_def [symmetric] dy_def [symmetric] Let_def
      sdiv_nonneg(1) [OF d(1) g(2)] sdiv_nonneg(1) [OF d(2) g(1)] by (simp only: in_grid not_True_eq_False if_False)
  then have s: "?r \<le> ?c" "slot = cell_slot (num_step pos) (num_column pos) ?c ?r"
    using assms(2) by (auto split: if_splits)
  have c: "?c < num_column pos" by (rule div_less_int [OF g(2) i(1)])
  have r: "?r < num_step pos"
  proof (cases "num_step pos = num_column pos")
    case False
    then have "dy < num_step pos * gap_row pos" using g(8) i(2) by simp
    then show ?thesis by (rule div_less_int [OF g(1)])
  qed (use s(1) c in simp)
  have ok: "cell_ok (num_step pos) (num_column pos) ?c ?r"
    using c r s(1) d g(1,2) by (simp add: cell_ok_def pos_imp_zdiv_nonneg_iff)
  note b = slot_cell_of_cell [OF ok g(3,4)]
  have m: "?c * gap_column pos \<le> dx" "dx < ?c * gap_column pos + gap_column pos"
    "?r * gap_row pos \<le> dy" "dy < ?r * gap_row pos + gap_row pos"
    using g(1,2) div_mult_mod_eq [of dx "gap_column pos"] div_mult_mod_eq [of dy "gap_row pos"]
      pos_mod_bound [of "gap_column pos" dx] pos_mod_sign [of "gap_column pos" dx]
      pos_mod_bound [of "gap_row pos" dy] pos_mod_sign [of "gap_row pos" dy] by linarith+
  have "positioner_calc_position pos slot = Some (?c * gap_column pos + box_x (grid_area pos), ?r * gap_row pos + box_y (grid_area pos))"
    using b s(2) g(6,7) by (simp add: positioner_calc_position_def)
  then show ?thesis using b s(2) g(6,7) m by (auto simp: dx_def dy_def)
qed

end
