(* ===== verification/Positioner.thy ===== *)
theory Positioner
  imports PositionerGrid "HOL-Library.Monad_Syntax"
begin

section \<open>The positioner (\<^verbatim>\<open>view/positioner.c\<close>)\<close>

text \<open>
  A positioner per output keeps a place per workspace: an array of slots with a count of the views in each and
  a doubly linked list of the free slots below the last one used, linked by indices. Every mapped view has an
  entry that follows its position. Places and positioners are numbered in the order of their allocation; an
  entry is found by its view. \<^term>\<open>None\<close> is the use of a null or freed pointer, an access outside the array, or
  a loop that does not end. The views are those of \<open>ViewState\<close>; the signal of a new position reaches the entry
  when the operation that moved the view is done.
\<close>

subsection \<open>Slots of a place\<close>

record slot =
  sl_prev :: int
  sl_next :: int
  sl_entries :: int

record place =
  pl_workspace :: ptr
  pl_positioner :: handle
  slots :: "slot list"
  pl_entries :: "ptr list"
  last_slot :: int
  free_list :: int

record entry =
  en_place :: "handle option"
  en_slot :: int
  skip_update :: bool
  en_listening :: bool

definition slot_at :: "place \<Rightarrow> int \<Rightarrow> slot" where
  "slot_at p i = slots p ! nat i"

definition upd_slot :: "int \<Rightarrow> (slot \<Rightarrow> slot) \<Rightarrow> place \<Rightarrow> place" where
  "upd_slot i f p = p\<lparr>slots := (slots p)[nat i := f (slots p ! nat i)]\<rparr>"

text \<open>In the operations on a place \<open>m\<close> is \<^verbatim>\<open>pos->max_slot\<close>. The doubling of the array; the size it starts with is positive.\<close>

function grow_alloc :: "int \<Rightarrow> int \<Rightarrow> int" where
  "grow_alloc n slot = (if n \<le> slot \<and> 0 < n then grow_alloc (n * 2) slot else n)"
  by pat_completeness auto
termination by (relation "measure (\<lambda>(n, slot). nat (slot + 1 - n))") auto

declare grow_alloc.simps [simp del]

definition place_find_slot :: "bool \<Rightarrow> int \<Rightarrow> int \<Rightarrow> place \<Rightarrow> place option" where
  "place_find_slot realloc_ok m slot p =
     (if slot < 0 \<or> slot > m then None
      else if int (length (slots p)) > slot then Some p
      else
        let n = (if slots p \<noteq> [] then int (length (slots p)) else 16);
            n = min (grow_alloc n slot) (m + 1)
        in if \<not> realloc_ok then None
           else Some (p\<lparr>slots := slots p @
             replicate (nat n - length (slots p)) \<lparr>sl_prev = 0, sl_next = 0, sl_entries = 0\<rparr>\<rparr>))"

definition place_insert_free_slot :: "bool \<Rightarrow> int \<Rightarrow> int \<Rightarrow> place \<Rightarrow> place option" where
  "place_insert_free_slot realloc_ok m slot p = do {
     p \<leftarrow> place_find_slot realloc_ok m slot p;
     let p = upd_slot slot (\<lambda>s. s\<lparr>sl_entries := 0\<rparr>) p;
     let cur = -1;
     let nxt = free_list p;
     let p = upd_slot slot (\<lambda>s. s\<lparr>sl_prev := cur, sl_next := nxt\<rparr>) p;
     let p = p\<lparr>free_list := slot\<rparr>;
     if nxt < 0 then Some p
     else if nxt < int (length (slots p)) then Some (upd_slot nxt (\<lambda>s. s\<lparr>sl_prev := slot\<rparr>) p)
     else None}"

fun free_skipped :: "bool \<Rightarrow> int \<Rightarrow> int list \<Rightarrow> place \<Rightarrow> place option" where
  "free_skipped realloc_ok m [] p = Some p"
| "free_skipped realloc_ok m (i # is) p = do {
     p \<leftarrow> place_insert_free_slot realloc_ok m i p;
     free_skipped realloc_ok m is p}"

text \<open>Taking a slot out of the free list.\<close>

definition unlink_slot :: "bool \<Rightarrow> int \<Rightarrow> int \<Rightarrow> place \<Rightarrow> place" where
  "unlink_slot realloc_ok m slot p =
     (let s = slot_at p slot;
          p = (if slot = free_list p then p\<lparr>free_list := sl_next s\<rparr> else p);
          p = (case place_find_slot realloc_ok m (sl_prev s) p of None \<Rightarrow> p
               | Some p \<Rightarrow> upd_slot (sl_prev s) (\<lambda>t. t\<lparr>sl_next := sl_next s\<rparr>) p)
      in case place_find_slot realloc_ok m (sl_next s) p of None \<Rightarrow> p
         | Some p \<Rightarrow> upd_slot (sl_next s) (\<lambda>t. t\<lparr>sl_prev := sl_prev s\<rparr>) p)"

definition place_update_slot :: "bool \<Rightarrow> int \<Rightarrow> int \<Rightarrow> place \<Rightarrow> place option" where
  "place_update_slot realloc_ok m slot p = do {
     p \<leftarrow> place_find_slot realloc_ok m slot p;
     p \<leftarrow> (if slot \<ge> last_slot p then do {
             p \<leftarrow> free_skipped realloc_ok m [last_slot p..slot - 1] p;
             Some (p\<lparr>last_slot := slot + 1\<rparr>)}
           else if sl_entries (slot_at p slot) = 0 then Some (unlink_slot realloc_ok m slot p)
           else Some p);
     Some (upd_slot slot (\<lambda>s. s\<lparr>sl_entries := sl_entries s + 1\<rparr>) p)}"

text \<open>An entry comes to a slot, and leaves it.\<close>

definition slot_enter :: "bool \<Rightarrow> int \<Rightarrow> int \<Rightarrow> place \<Rightarrow> place option" where
  "slot_enter realloc_ok m slot p =
     (case place_find_slot realloc_ok m slot p of None \<Rightarrow> Some p
      | Some p \<Rightarrow> place_update_slot realloc_ok m slot p)"

definition slot_leave :: "bool \<Rightarrow> int \<Rightarrow> int \<Rightarrow> place \<Rightarrow> place option" where
  "slot_leave realloc_ok m slot p =
     (case place_find_slot realloc_ok m slot p of None \<Rightarrow> Some p
      | Some p \<Rightarrow>
        let p = upd_slot slot (\<lambda>s. s\<lparr>sl_entries := sl_entries s - 1\<rparr>) p
        in if sl_entries (slot_at p slot) = 0 then place_insert_free_slot realloc_ok m slot p else Some p)"

subsection \<open>State\<close>

record positioner_manager =
  pm_positioners :: "handle list"
  pm_pos :: "handle \<Rightarrow> positioner"
  pm_next_pos :: handle
  pm_places :: "handle \<Rightarrow> place option"
  pm_next_place :: handle
  pm_entries :: "ptr \<Rightarrow> entry option"
  pm_views :: "ptr \<Rightarrow> view"

text \<open>What the positioner reads of other parts: outputs and their names, the workspace of a proxy, whether
  memory could be had, rounding, the implementation of a view and whether it can be moved. One flag stands for all
  calls of \<^verbatim>\<open>calloc\<close> in a handler and one for those of \<^verbatim>\<open>realloc\<close>. That \<^verbatim>\<open>place_find_slot\<close> may move the array is
  not modelled: \<^verbatim>\<open>place_update_slot\<close> holds a pointer to a slot while it looks up others, but those are below that
  slot or linked in the free list, so that the array already has them.\<close>

record positioner_env =
  pe_outputs :: output_env
  pe_name :: "ptr \<Rightarrow> string"
  pe_workspace :: "ptr \<Rightarrow> ptr"
  pe_calloc :: bool
  pe_realloc :: bool
  pe_round :: "int \<Rightarrow> int \<Rightarrow> int \<Rightarrow> int"
  pe_impl :: "ptr \<Rightarrow> configure_impl"
  pe_movable :: "ptr \<Rightarrow> bool"

definition upd_pos :: "handle \<Rightarrow> (positioner \<Rightarrow> positioner) \<Rightarrow> positioner_manager \<Rightarrow> positioner_manager" where
  "upd_pos h f s = s\<lparr>pm_pos := (pm_pos s)(h := f (pm_pos s h))\<rparr>"

definition upd_place :: "handle \<Rightarrow> (place \<Rightarrow> place option) \<Rightarrow> positioner_manager \<Rightarrow> positioner_manager option" where
  "upd_place h f s = do {
     p \<leftarrow> pm_places s h;
     p \<leftarrow> f p;
     Some (s\<lparr>pm_places := (pm_places s)(h \<mapsto> p)\<rparr>)}"

definition upd_entry :: "ptr \<Rightarrow> (entry \<Rightarrow> entry) \<Rightarrow> positioner_manager \<Rightarrow> positioner_manager" where
  "upd_entry v f s = s\<lparr>pm_entries := (pm_entries s)(v := map_option f (pm_entries s v))\<rparr>"

text \<open>The bound of the slots of a place is that of its positioner at the time.\<close>

definition place_max :: "positioner_manager \<Rightarrow> place \<Rightarrow> int" where
  "place_max s p = max_slot (pm_pos s (pl_positioner p))"

definition on_slot :: "(bool \<Rightarrow> int \<Rightarrow> int \<Rightarrow> place \<Rightarrow> place option) \<Rightarrow> positioner_env \<Rightarrow> handle \<Rightarrow> int \<Rightarrow>
    positioner_manager \<Rightarrow> positioner_manager option" where
  "on_slot f env h slot s = upd_place h (\<lambda>p. f (pe_realloc env) (place_max s p) slot p) s"

subsection \<open>Entries\<close>

definition place_insert_entry :: "positioner_env \<Rightarrow> handle option \<Rightarrow> ptr \<Rightarrow> int \<Rightarrow> positioner_manager \<Rightarrow>
    positioner_manager option" where
  "place_insert_entry env place v slot s = do {
     let s = upd_entry v (\<lambda>e. e\<lparr>en_slot := slot, en_place := place\<rparr>) s;
     h \<leftarrow> place;
     s \<leftarrow> upd_place h (\<lambda>p. Some (p\<lparr>pl_entries := v # pl_entries p\<rparr>)) s;
     on_slot slot_enter env h slot s}"

definition place_remove_entry :: "positioner_env \<Rightarrow> handle \<Rightarrow> ptr \<Rightarrow> positioner_manager \<Rightarrow> positioner_manager option" where
  "place_remove_entry env h v s = do {
     e \<leftarrow> pm_entries s v;
     s \<leftarrow> on_slot slot_leave env h (en_slot e) s;
     let s = upd_entry v (\<lambda>e. e\<lparr>en_place := None, en_slot := -1\<rparr>) s;
     upd_place h (\<lambda>p. Some (p\<lparr>pl_entries := removeAll v (pl_entries p)\<rparr>)) s}"

definition place_update_entry :: "positioner_env \<Rightarrow> handle option \<Rightarrow> ptr \<Rightarrow> int \<Rightarrow> positioner_manager \<Rightarrow>
    positioner_manager option" where
  "place_update_entry env place v slot s = do {
     e \<leftarrow> pm_entries s v;
     if place = en_place e \<and> slot = en_slot e then Some s
     else do {
       old \<leftarrow> en_place e;
       s \<leftarrow> on_slot slot_leave env old (en_slot e) s;
       h \<leftarrow> place;
       s \<leftarrow> (if h \<noteq> old then do {
               s \<leftarrow> upd_place old (\<lambda>p. Some (p\<lparr>pl_entries := removeAll v (pl_entries p)\<rparr>)) s;
               s \<leftarrow> upd_place h (\<lambda>p. Some (p\<lparr>pl_entries := v # pl_entries p\<rparr>)) s;
               Some (upd_entry v (\<lambda>e. e\<lparr>en_place := place\<rparr>) s)}
             else Some s);
       on_slot slot_enter env h slot (upd_entry v (\<lambda>e. e\<lparr>en_slot := slot\<rparr>) s)}}"

subsection \<open>Places\<close>

text \<open>The outer option is the use of a null output, the inner one that there is no positioner.\<close>

fun find_positioner :: "positioner_env \<Rightarrow> ptr \<Rightarrow> positioner_manager \<Rightarrow> handle list \<Rightarrow> handle option option" where
  "find_positioner env out s [] = Some None"
| "find_positioner env out s (h # hs) =
     (if po_output (pm_pos s h) = out then Some (Some h)
      else if out = NULL then None
      else if po_name (pm_pos s h) = pe_name env out then Some (Some h)
      else find_positioner env out s hs)"

definition positioner_from_output :: "positioner_env \<Rightarrow> ptr \<Rightarrow> positioner_manager \<Rightarrow> handle option option" where
  "positioner_from_output env out s = find_positioner env out s (pm_positioners s)"

definition new_place :: "ptr \<Rightarrow> handle \<Rightarrow> place" where
  "new_place workspace pos = \<lparr>pl_workspace = workspace, pl_positioner = pos, slots = [], pl_entries = [], last_slot = 0,
     free_list = -1\<rparr>"

definition positioner_get_place :: "positioner_env \<Rightarrow> handle option \<Rightarrow> ptr \<Rightarrow> positioner_manager \<Rightarrow>
    handle option \<times> positioner_manager" where
  "positioner_get_place env pos v s =
     (case pos of None \<Rightarrow> (None, s)
      | Some h \<Rightarrow>
        if current_proxy (pm_views s v) = NULL then (None, s)
        else let workspace = pe_workspace env (current_proxy (pm_views s v)) in
          case find (\<lambda>q. map_option pl_workspace (pm_places s q) = Some workspace) (places (pm_pos s h)) of
            Some q \<Rightarrow> (Some q, s)
          | None \<Rightarrow>
            if \<not> pe_calloc env then (None, s)
            else case place_find_slot (pe_realloc env) (max_slot (pm_pos s h)) (min 31 (max_slot (pm_pos s h) sdiv 4))
                        (new_place workspace h) of
                None \<Rightarrow> (None, s)
              | Some p \<Rightarrow>
                let q = pm_next_place s
                in (Some q, upd_pos h (\<lambda>pos. pos\<lparr>places := q # places pos\<rparr>)
                      (s\<lparr>pm_places := (pm_places s)(q \<mapsto> p), pm_next_place := q + 1\<rparr>)))"

definition place_handle_workspace_destroy :: "handle \<Rightarrow> positioner_manager \<Rightarrow> positioner_manager option" where
  "place_handle_workspace_destroy q s = do {
     p \<leftarrow> pm_places s q;
     Some (upd_pos (pl_positioner p) (\<lambda>pos. pos\<lparr>places := removeAll q (places pos)\<rparr>)
       (s\<lparr>pm_places := (pm_places s)(q := None)\<rparr>))}"

subsection \<open>Signals of views\<close>

definition entry_handle_view_position :: "positioner_env \<Rightarrow> ptr \<Rightarrow> positioner_manager \<Rightarrow> positioner_manager option" where
  "entry_handle_view_position env v s = do {
     e \<leftarrow> pm_entries s v;
     let w = pm_views s v;
     if \<not> mapped (base w) then Some s
     else if skip_update e then Some (upd_entry v (\<lambda>e. e\<lparr>skip_update := False\<rparr>) s)
     else do {
       let lx = box_x (geometry (base w)) - off_x (base w);
       let ly = box_y (geometry (base w)) - off_y (base w);
       let out = (if kywc_box_contains_point (out_geometry (get_output (pe_outputs env) (v_output w))) lx ly
                  then v_output w else output_at_point (pe_outputs env) lx ly);
       pos \<leftarrow> positioner_from_output env out s;
       let (place, s) = positioner_get_place env pos v s;
       h \<leftarrow> pos;
       let slot = (case positioner_calc_slot (pm_pos s h) (base w) of None \<Rightarrow> -1 | Some slot \<Rightarrow> slot);
       place_update_entry env place v slot s}}"

definition entry_handle_view_minimize :: "positioner_env \<Rightarrow> ptr \<Rightarrow> positioner_manager \<Rightarrow> positioner_manager option" where
  "entry_handle_view_minimize env v s = do {
     e \<leftarrow> pm_entries s v;
     let w = pm_views s v;
     if \<not> mapped (base w) then Some s
     else if minimized (base w) then place_update_entry env (en_place e) v (-1) s
     else entry_handle_view_position env v s}"

definition entry_handle_view_unmap :: "positioner_env \<Rightarrow> ptr \<Rightarrow> positioner_manager \<Rightarrow> positioner_manager option" where
  "entry_handle_view_unmap env v s = do {
     e \<leftarrow> pm_entries s v;
     s \<leftarrow> (case en_place e of None \<Rightarrow> Some s | Some h \<Rightarrow> place_remove_entry env h v s);
     Some (s\<lparr>pm_entries := (pm_entries s)(v := None)\<rparr>)}"

definition entry_handle_view_workspace :: "positioner_env \<Rightarrow> ptr \<Rightarrow> positioner_manager \<Rightarrow> positioner_manager option" where
  "entry_handle_view_workspace env v s = do {
     e \<leftarrow> pm_entries s v;
     let w = pm_views s v;
     if current_proxy w = NULL then do {
       let s = upd_entry v (\<lambda>e. e\<lparr>en_listening := False\<rparr>) s;
       (case en_place e of None \<Rightarrow> Some s | Some h \<Rightarrow> place_remove_entry env h v s)}
     else if \<not> mapped (base w) then Some s
     else do {
       s \<leftarrow> (if en_place e = None then do {
               let s = upd_entry v (\<lambda>e. e\<lparr>en_listening := True\<rparr>) s;
               pos \<leftarrow> positioner_from_output env (v_output w) s;
               let (place, s) = positioner_get_place env pos v s;
               place_insert_entry env place v (-1) s}
             else Some s);
       e \<leftarrow> pm_entries s v;
       h \<leftarrow> en_place e;
       p \<leftarrow> pm_places s h;
       let (new, s) = positioner_get_place env (Some (pl_positioner p)) v s;
       place_update_entry env new v (en_slot e) s}}"

text \<open>A view changed by an operation on it, and the signals of a new position it emitted.\<close>

fun deliver :: "positioner_env \<Rightarrow> ptr \<Rightarrow> view_signal list \<Rightarrow> positioner_manager \<Rightarrow> positioner_manager option" where
  "deliver env v [] s = Some s"
| "deliver env v (sig # sigs) s = do {
     s \<leftarrow> (if sig = SigPosition \<and> map_option en_listening (pm_entries s v) = Some True
           then entry_handle_view_position env v s else Some s);
     deliver env v sigs s}"

definition change_view :: "positioner_env \<Rightarrow> ptr \<Rightarrow> (view \<Rightarrow> view option) \<Rightarrow> positioner_manager \<Rightarrow> positioner_manager option" where
  "change_view env v f s = do {
     w \<leftarrow> f (pm_views s v);
     deliver env v (drop (length (emitted (pm_views s v))) (emitted w)) (s\<lparr>pm_views := (pm_views s)(v := w)\<rparr>)}"

subsection \<open>New views\<close>

definition child_view_fix_geometry :: "kywc_box \<Rightarrow> kywc_view \<Rightarrow> int \<Rightarrow> int \<Rightarrow> int \<times> int \<times> kywc_box option" where
  "child_view_fix_geometry usable v lx ly =
     (let x = lx - off_x v; y = ly - off_y v;
          w = box_width (geometry v) + off_width v; h = box_height (geometry v) + off_height v;
          (x, w, resize_x) =
            (if w > box_width usable then (box_x usable, box_width usable, True)
             else if x < box_x usable then (box_x usable, w, False)
             else if x + w > box_x usable + box_width usable then (box_x usable + box_width usable - w, w, False)
             else (x, w, False));
          (y, h, resize_y) =
            (if h > box_height usable then (box_y usable, box_height usable, True)
             else if y < box_y usable then (box_y usable, h, False)
             else if y + h > box_y usable + box_height usable then (box_y usable + box_height usable - h, h, False)
             else (y, h, False));
          x = x + off_x v; y = y + off_y v
      in (x, y, if resize_x \<or> resize_y
                then Some \<lparr>box_x = x, box_y = y, box_width = w - off_width v, box_height = h - off_height v\<rparr> else None))"

text \<open>Where a child goes: the centre of its parent, moved into the usable area.\<close>

definition child_position :: "positioner_env \<Rightarrow> ptr \<Rightarrow> positioner_manager \<Rightarrow> int \<times> int \<times> kywc_box option" where
  "child_position env v s =
     (let w = base (pm_views s v); parent = pm_views s (v_parent (pm_views s v)); g = geometry (base parent);
          center_x = box_x g + box_width g sdiv 2;
          center_y = box_y g + box_height g sdiv 2
      in child_view_fix_geometry (usable_area (get_output (pe_outputs env) (v_output parent))) w
           (center_x - box_width (geometry w) sdiv 2) (center_y - box_height (geometry w) sdiv 2))"

text \<open>The walk along the free list: the first suitable slot with its position, or no slot at the end. A walk that
  leaves the array of slots ends with an error; \<^term>\<open>None\<close> is a walk that does not end.\<close>

datatype search_error = OUTSIDE_SLOTS

partial_function (option) free_search ::
  "positioner \<Rightarrow> kywc_view \<Rightarrow> slot list \<Rightarrow> int \<Rightarrow> (search_error + (int \<times> int \<times> int) option) option" where
  "free_search pos v sls slot =
     (if slot < 0 then Some (Inr None)
      else case slot_is_suitable pos v slot of
        Some (x, y) \<Rightarrow> Some (Inr (Some (slot, x, y)))
      | None \<Rightarrow> if nat slot < length sls then free_search pos v sls (sl_next (sls ! nat slot)) else Some (Inl OUTSIDE_SLOTS))"

declare free_search.simps [code]

fun new_slot_search :: "positioner \<Rightarrow> kywc_view \<Rightarrow> int list \<Rightarrow> (int \<times> int \<times> int) option" where
  "new_slot_search pos v [] = None"
| "new_slot_search pos v (slot # sls) =
     (case slot_is_suitable pos v slot of Some (x, y) \<Rightarrow> Some (slot, x, y) | None \<Rightarrow> new_slot_search pos v sls)"

text \<open>The slot and position of a new view that is no child, and the place with the slot allocated: a slot behind
  the last one, and before that a free one.\<close>

definition choose_new_slot :: "bool \<Rightarrow> positioner \<Rightarrow> kywc_view \<Rightarrow> place \<Rightarrow> int \<Rightarrow> int \<Rightarrow> int \<times> int \<times> int \<times> place" where
  "choose_new_slot realloc_ok pos v p x y =
     (case new_slot_search pos v [last_slot p..max_slot pos] of None \<Rightarrow> (0, x, y, p)
      | Some (slot, x, y) \<Rightarrow>
        (case place_find_slot realloc_ok (max_slot pos) slot p of None \<Rightarrow> (0, x, y, p) | Some p \<Rightarrow> (slot, x, y, p)))"

definition choose_slot :: "bool \<Rightarrow> positioner \<Rightarrow> kywc_view \<Rightarrow> place \<Rightarrow> (int \<times> int \<times> int \<times> place) option" where
  "choose_slot realloc_ok pos v p =
     (if num_step pos = 0 then None
      else case slot_is_suitable pos v 0 of
        None \<Rightarrow> Some (0, box_x (po_usable pos) + off_x v, box_y (po_usable pos) + off_y v, p)
      | Some (x0, y0) \<Rightarrow>
        if last_slot p > max_slot pos \<and> free_list p < 0 then Some (0, x0, y0, p)
        else do {
          found \<leftarrow> free_search pos v (slots p) (free_list p);
          (case found of Inl error \<Rightarrow> None
           | Inr None \<Rightarrow> Some (choose_new_slot realloc_ok pos v p x0 y0)
           | Inr (Some (slot, x, y)) \<Rightarrow>
             (case place_find_slot realloc_ok (max_slot pos) slot p of
                None \<Rightarrow> Some (choose_new_slot realloc_ok pos v p x y)
              | Some p \<Rightarrow> Some (slot, x, y, p)))})"

definition positioner_add_new_view :: "positioner_env \<Rightarrow> ptr \<Rightarrow> positioner_manager \<Rightarrow> positioner_manager option" where
  "positioner_add_new_view env v s = do {
     pos \<leftarrow> positioner_from_output env (v_output (pm_views s v)) s;
     let (place, s) = positioner_get_place env pos v s;
     (case (pos, place) of
        (Some h, Some q) \<Rightarrow>
          if \<not> pe_calloc env then Some s
          else do {
            let s = s\<lparr>pm_entries := (pm_entries s)(v \<mapsto>
              \<lparr>en_place = None, en_slot = 0, skip_update = False, en_listening = True\<rparr>)\<rparr>;
            let w = pm_views s v;
            let b = base w;
            if maximized b \<or> minimized b \<or> fullscreen b \<or> has_initial_position b
            then place_insert_entry env place v (-1) s
            else if v_parent w \<noteq> NULL \<and> mapped (base (pm_views s (v_parent w))) then do {
              let (lx, ly, geo) = child_position env v s;
              s \<leftarrow> (case geo of None \<Rightarrow> Some s
                    | Some geo \<Rightarrow> change_view env v (\<lambda>w. view_do_resize (pe_impl env v) w geo) s);
              s \<leftarrow> change_view env v (\<lambda>w. view_do_move (pe_impl env v) w lx ly) s;
              place_insert_entry env place v (-1) s}
            else do {
              p \<leftarrow> pm_places s q;
              (slot, lx, ly, p) \<leftarrow> choose_slot (pe_realloc env) (pm_pos s h) b p;
              let s = s\<lparr>pm_places := (pm_places s)(q \<mapsto> p)\<rparr>;
              s \<leftarrow> change_view env v (\<lambda>w. view_do_move (pe_impl env v) w lx ly) s;
              place_insert_entry env place v slot s}}
      | _ \<Rightarrow> Some s)}"

subsection \<open>Outputs\<close>

fun move_entries :: "positioner_env \<Rightarrow> kywc_box \<Rightarrow> ptr \<Rightarrow> bool \<Rightarrow> ptr list \<Rightarrow> positioner_manager \<Rightarrow> positioner_manager option" where
  "move_entries env src_box dst skip [] s = Some s"
| "move_entries env src_box dst skip (v # vs) s = do {
     let s = upd_entry v (\<lambda>e. e\<lparr>skip_update := skip\<rparr>) s;
     s \<leftarrow> change_view env v
       (\<lambda>w. view_move_to_output (pe_round env) (pe_outputs env) (pe_impl env v) (pe_movable env v) w (Some src_box) dst) s;
     move_entries env src_box dst skip vs s}"

fun move_places :: "positioner_env \<Rightarrow> kywc_box \<Rightarrow> ptr \<Rightarrow> bool \<Rightarrow> handle list \<Rightarrow> positioner_manager \<Rightarrow> positioner_manager option" where
  "move_places env src_box dst skip [] s = Some s"
| "move_places env src_box dst skip (q # qs) s = do {
     p \<leftarrow> pm_places s q;
     s \<leftarrow> move_entries env src_box dst skip (pl_entries p) s;
     move_places env src_box dst skip qs s}"

definition positioner_move_views :: "positioner_env \<Rightarrow> handle \<Rightarrow> kywc_box \<Rightarrow> handle \<Rightarrow> bool \<Rightarrow> positioner_manager \<Rightarrow>
    positioner_manager option" where
  "positioner_move_views env h src_box dst skip s =
     move_places env src_box (po_output (pm_pos s dst)) skip (places (pm_pos s h)) s"

text \<open>The link of a positioner in the list of the one that catches its views.\<close>

definition catcher_linked :: "positioner_manager \<Rightarrow> handle \<Rightarrow> bool" where
  "catcher_linked s h = list_ex (\<lambda>d. h \<in> set (catcher_positioners (pm_pos s d))) (pm_positioners s)"

definition catcher_unlink :: "handle \<Rightarrow> positioner_manager \<Rightarrow> positioner_manager" where
  "catcher_unlink h s =
     s\<lparr>pm_pos := (\<lambda>d. (pm_pos s d)\<lparr>catcher_positioners := removeAll h (catcher_positioners (pm_pos s d))\<rparr>)\<rparr>"

definition catcher_link :: "handle \<Rightarrow> handle \<Rightarrow> positioner_manager \<Rightarrow> positioner_manager" where
  "catcher_link d h s = upd_pos d (\<lambda>pos. pos\<lparr>catcher_positioners := h # catcher_positioners pos\<rparr>) s"

definition positioner_handle_output_on :: "positioner_env \<Rightarrow> handle \<Rightarrow> positioner_manager \<Rightarrow> positioner_manager option" where
  "positioner_handle_output_on env h s = do {
     let usable = usable_area (get_output (pe_outputs env) (po_output (pm_pos s h)));
     let s = upd_pos h (\<lambda>pos. snd (positioner_update_grid usable pos)) s;
     if catcher_linked s h then do {
       s \<leftarrow> positioner_move_views env h (catcher_box (pm_pos s h)) h False s;
       Some (catcher_unlink h s)}
     else Some s}"

fun pass_on_catched :: "positioner_env \<Rightarrow> kywc_box \<Rightarrow> handle \<Rightarrow> handle list \<Rightarrow> positioner_manager \<Rightarrow> positioner_manager option" where
  "pass_on_catched env src_box dst [] s = Some s"
| "pass_on_catched env src_box dst (h # hs) s = do {
     let s = catcher_link dst h (catcher_unlink h s);
     let s = upd_pos h (\<lambda>pos. pos\<lparr>catcher_box := po_usable (pm_pos s dst)\<rparr>) s;
     s \<leftarrow> positioner_move_views env h src_box dst True s;
     pass_on_catched env src_box dst hs s}"

definition positioner_handle_output_off :: "positioner_env \<Rightarrow> handle \<Rightarrow> positioner_manager \<Rightarrow> positioner_manager option" where
  "positioner_handle_output_off env src s =
     (case find (\<lambda>h. h \<noteq> src \<and> po_output (pm_pos s h) \<noteq> NULL \<and> out_enabled (get_output (pe_outputs env) (po_output (pm_pos s h))))
             (pm_positioners s) of
        None \<Rightarrow> Some s
      | Some dst \<Rightarrow>
        if catcher_linked s src then None
        else do {
          let s = catcher_link dst src s;
          let s = upd_pos src (\<lambda>pos. pos\<lparr>catcher_box := po_usable (pm_pos s dst)\<rparr>) s;
          s \<leftarrow> positioner_move_views env src (po_usable (pm_pos s src)) dst True s;
          pass_on_catched env (po_usable (pm_pos s src)) dst (catcher_positioners (pm_pos s src)) s})"

fun move_catched :: "positioner_env \<Rightarrow> kywc_box \<Rightarrow> handle \<Rightarrow> handle list \<Rightarrow> positioner_manager \<Rightarrow> positioner_manager option" where
  "move_catched env old h [] s = Some s"
| "move_catched env old h (t # ts) s = do {
     let s = upd_pos t (\<lambda>pos. pos\<lparr>catcher_box := po_usable (pm_pos s h)\<rparr>) s;
     s \<leftarrow> positioner_move_views env t old h True s;
     move_catched env old h ts s}"

definition positioner_handle_output_usable_area :: "positioner_env \<Rightarrow> handle \<Rightarrow> positioner_manager \<Rightarrow> positioner_manager option" where
  "positioner_handle_output_usable_area env h s =
     (let usable = usable_area (get_output (pe_outputs env) (po_output (pm_pos s h)));
          old = po_usable (pm_pos s h)
      in if kywc_box_equal old usable then Some s
         else do {
           let s = upd_pos h (\<lambda>pos. snd (positioner_update_grid usable pos)) s;
           s \<leftarrow> positioner_move_views env h old h False s;
           move_catched env old h (catcher_positioners (pm_pos s h)) s})"

definition positioner_handle_output_destroy :: "positioner_env \<Rightarrow> handle \<Rightarrow> positioner_manager \<Rightarrow> positioner_manager option" where
  "positioner_handle_output_destroy env h s = do {
     s \<leftarrow> (if out_enabled (get_output (pe_outputs env) (po_output (pm_pos s h))) then positioner_handle_output_off env h s
           else Some s);
     Some (upd_pos h (\<lambda>pos. pos\<lparr>po_output := NULL\<rparr>) s)}"

definition new_positioner :: "string \<Rightarrow> positioner" where
  "new_positioner name = \<lparr>places = [], po_output = NULL, po_name = name, catcher_box = zero_box, catcher_positioners = [],
     grid_area = zero_box, po_usable = zero_box, off_top = 0, off_bottom = 0, off_left = 0, off_right = 0, gap_row = 0,
     gap_column = 0, num_step = 0, num_column = 0, key_slot = 0, max_slot = 0\<rparr>"

definition positioner_handle_new_output :: "positioner_env \<Rightarrow> ptr \<Rightarrow> positioner_manager \<Rightarrow> positioner_manager option" where
  "positioner_handle_new_output env out s = do {
     found \<leftarrow> positioner_from_output env out s;
     if found = None \<and> \<not> pe_calloc env then Some s
     else do {
       let (h, s) = (case found of Some h \<Rightarrow> (h, s)
         | None \<Rightarrow> (pm_next_pos s, s\<lparr>pm_pos := (pm_pos s)(pm_next_pos s := new_positioner (pe_name env out)),
             pm_positioners := pm_next_pos s # pm_positioners s, pm_next_pos := pm_next_pos s + 1\<rparr>));
       let s = upd_pos h (\<lambda>pos. pos\<lparr>po_output := out, off_top := GRID_OFFSET_TOP, off_bottom := GRID_OFFSET_BOTTOM,
         off_left := GRID_OFFSET_LEFT, off_right := GRID_OFFSET_RIGHT, gap_column := GRID_GAP_COLUMN,
         gap_row := GRID_GAP_ROW\<rparr>) s;
       if out_enabled (get_output (pe_outputs env) out) then do {
         let s = upd_pos h (\<lambda>pos. snd (positioner_update_grid (usable_area (get_output (pe_outputs env) out)) pos)) s;
         positioner_handle_output_on env h s}
       else Some s}}"

definition positioner_manager_create :: "(ptr \<Rightarrow> view) \<Rightarrow> positioner_manager" where
  "positioner_manager_create views = \<lparr>pm_positioners = [], pm_pos = (\<lambda>_. new_positioner []), pm_next_pos = 0,
     pm_places = (\<lambda>_. None), pm_next_place = 0, pm_entries = (\<lambda>_. None), pm_views = views\<rparr>"

end
