(* ===== verification/PositionerProofs.thy ===== *)
theory PositionerProofs
  imports Positioner "HOL-Library.Multiset"
begin

section \<open>Correctness of the positioner\<close>

text \<open>
  The linked free list of a place implements the set of free slots, as long as the grid does not shrink; the
  search of a slot for a new view ends and finds a free slot when one fits; a child is put inside the usable
  area; and a grid that shrinks makes the free list cyclic, so that the search for a slot never ends.
\<close>

subsection \<open>The free list\<close>

definition first :: "int \<Rightarrow> int list \<Rightarrow> int" where
  "first d fs = (case fs of [] \<Rightarrow> d | i # _ \<Rightarrow> i)"

definition final :: "int \<Rightarrow> int list \<Rightarrow> int" where
  "final d fs = (if fs = [] then d else last fs)"

lemma first_simps [simp]: "first d [] = d" "first d (i # fs) = i" "first d (fs @ gs) = first (first d gs) fs"
  by (simp_all add: first_def split: list.split)

lemma final_simps [simp]: "final d [] = d" "final d (i # fs) = final i fs" "final d (fs @ [i]) = i"
  by (simp_all add: final_def)

text \<open>The slots of the list in order, linked both ways, between the given ends.\<close>

fun chain :: "slot list \<Rightarrow> int \<Rightarrow> int list \<Rightarrow> int \<Rightarrow> bool" where
  "chain sls prv [] nxt \<longleftrightarrow> True"
| "chain sls prv (i # is) nxt \<longleftrightarrow> 0 \<le> i \<and> nat i < length sls \<and> sl_prev (sls ! nat i) = prv \<and>
     sl_next (sls ! nat i) = first nxt is \<and> chain sls i is nxt"

lemma chain_range: "chain sls prv fs nxt \<Longrightarrow> i \<in> set fs \<Longrightarrow> 0 \<le> i \<and> nat i < length sls"
  by (induction fs arbitrary: prv) auto

lemma nat_eq: "0 \<le> i \<Longrightarrow> 0 \<le> j \<Longrightarrow> nat i = nat j \<longleftrightarrow> i = j"
  by auto

lemma chain_append: "chain sls prv (as @ bs) nxt \<longleftrightarrow> chain sls prv as (first nxt bs) \<and> chain sls (final prv as) bs nxt"
  by (induction as arbitrary: prv) auto

lemma chain_cong:
  assumes "chain sls prv fs nxt" "length sls \<le> length sls'"
    "\<And>i. i \<in> set fs \<Longrightarrow> sl_prev (sls' ! nat i) = sl_prev (sls ! nat i) \<and> sl_next (sls' ! nat i) = sl_next (sls ! nat i)"
  shows "chain sls' prv fs nxt"
  using assms by (induction fs arbitrary: prv) auto

lemma chain_other:
  assumes "chain sls prv fs nxt" "i \<notin> set fs" "0 \<le> i"
  shows "chain (sls[nat i := t]) prv fs nxt"
proof (rule chain_cong [OF assms(1)])
  fix j assume j: "j \<in> set fs"
  then have "0 \<le> j" "j \<noteq> i" using assms(2) chain_range [OF assms(1) j] by auto
  then have "nat i \<noteq> nat j" using assms(3) by simp
  then show "sl_prev (sls[nat i := t] ! nat j) = sl_prev (sls ! nat j) \<and> sl_next (sls[nat i := t] ! nat j) = sl_next (sls ! nat j)"
    by simp
qed simp

text \<open>Changing the ends of a chain.\<close>

lemma chain_head:
  assumes "chain sls prv (i # fs) nxt" "i \<notin> set fs"
  shows "chain (sls[nat i := (sls ! nat i)\<lparr>sl_prev := q\<rparr>]) q (i # fs) nxt"
  using assms chain_other [of sls i fs nxt i] by simp

lemma chain_last:
  assumes "chain sls prv (fs @ [i]) nxt" "i \<notin> set fs"
  shows "chain (sls[nat i := (sls ! nat i)\<lparr>sl_next := q\<rparr>]) prv (fs @ [i]) q"
proof -
  have "chain sls prv fs i" "chain sls (final prv fs) [i] nxt" using assms(1) by (simp_all add: chain_append)
  then show ?thesis using chain_other [of sls prv fs i i] assms(2) by (simp add: chain_append)
qed

definition flist :: "place \<Rightarrow> int list \<Rightarrow> bool" where
  "flist p fs \<longleftrightarrow> chain (slots p) (-1) fs (-1) \<and> free_list p = first (-1) fs \<and> distinct fs"

definition entries_at :: "place \<Rightarrow> int \<Rightarrow> int" where
  "entries_at p i = (if 0 \<le> i \<and> nat i < length (slots p) then sl_entries (slots p ! nat i) else 0)"

text \<open>What the operations on slots leave alone.\<close>

definition same_place :: "place \<Rightarrow> place \<Rightarrow> bool" where
  "same_place p p' \<longleftrightarrow> pl_workspace p' = pl_workspace p \<and> pl_positioner p' = pl_positioner p \<and> pl_entries p' = pl_entries p"

lemma same_place_trans: "same_place p q \<Longrightarrow> same_place q r \<Longrightarrow> same_place p r"
  by (simp add: same_place_def)

lemma same_place_upd [simp]: "same_place p p" "same_place p (upd_slot i f q) = same_place p q"
  "same_place p (q\<lparr>free_list := x\<rparr>) = same_place p q" "same_place p (q\<lparr>last_slot := x\<rparr>) = same_place p q"
  by (simp_all add: same_place_def upd_slot_def)

lemma upd_slot_simps [simp]:
  "length (slots (upd_slot i f p)) = length (slots p)" "free_list (upd_slot i f p) = free_list p"
  "last_slot (upd_slot i f p) = last_slot p" "slots (upd_slot i f p) = (slots p)[nat i := f (slots p ! nat i)]"
  by (simp_all add: upd_slot_def)

lemma entries_at_upd:
  assumes "0 \<le> i" "nat i < length (slots p)"
  shows "entries_at (upd_slot i f p) = (entries_at p)(i := sl_entries (f (slots p ! nat i)))"
proof
  fix j
  show "entries_at (upd_slot i f p) j = ((entries_at p)(i := sl_entries (f (slots p ! nat i)))) j"
  proof (cases "0 \<le> j \<and> j \<noteq> i")
    case True
    then have "nat i \<noteq> nat j" using assms(1) by linarith
    then show ?thesis using True by (simp add: entries_at_def)
  next
    case False
    then have "j = i \<or> j < 0" by linarith
    then show ?thesis using assms by (elim disjE) (simp_all add: entries_at_def)
  qed
qed

lemma entries_at_simps [simp]:
  "entries_at (p\<lparr>free_list := x\<rparr>) = entries_at p" "entries_at (p\<lparr>last_slot := x\<rparr>) = entries_at p"
  "entries_at (p\<lparr>pl_entries := xs\<rparr>) = entries_at p"
  by (simp_all add: entries_at_def fun_eq_iff)

lemma find_slot_old: "0 \<le> i \<Longrightarrow> nat i < length (slots p) \<Longrightarrow> i \<le> m \<Longrightarrow> place_find_slot ok m i p = Some p"
  by (simp add: place_find_slot_def nat_less_iff)

lemma insert_free_slot_spec:
  assumes f: "flist p fs" and i: "0 \<le> i" "nat i < length (slots p)" "i \<le> m" "i \<notin> set fs"
  obtains p' where "place_insert_free_slot ok m i p = Some p'" "flist p' (i # fs)" "same_place p p'"
    "length (slots p') = length (slots p)" "last_slot p' = last_slot p"
    "entries_at p' = (entries_at p)(i := 0)"
proof -
  have find: "place_find_slot ok m i p = Some p" by (rule find_slot_old [OF i(1-3)])
  define sls where "sls = (slots p)[nat i := \<lparr>sl_prev = -1, sl_next = first (-1) fs, sl_entries = 0\<rparr>]"
  have c: "chain sls (-1) fs (-1)" using f chain_other [of "slots p" "-1" fs "-1" i] i by (simp add: flist_def sls_def)
  have e: "(slots p ! nat i)\<lparr>sl_entries := 0, sl_prev := -1, sl_next := first (-1) fs\<rparr> =
      \<lparr>sl_prev = -1, sl_next = first (-1) fs, sl_entries = 0\<rparr>" by simp
  show ?thesis
  proof (cases fs)
    case Nil
    let ?p = "(upd_slot i (\<lambda>s. s\<lparr>sl_prev := -1, sl_next := -1\<rparr>) (upd_slot i (\<lambda>s. s\<lparr>sl_entries := 0\<rparr>) p))\<lparr>free_list := i\<rparr>"
    show ?thesis
    proof (rule that [of ?p])
      show "place_insert_free_slot ok m i p = Some ?p" using f Nil by (simp add: place_insert_free_slot_def find flist_def Let_def)
      show "entries_at ?p = (entries_at p)(i := 0)" using i by (simp add: entries_at_upd)
    qed (use f i Nil in \<open>simp_all add: flist_def\<close>)
  next
    case (Cons j gs)
    have cf: "chain (slots p) (-1) fs (-1)" "distinct fs" using f by (simp_all add: flist_def)
    have j: "0 \<le> j" "nat j < length (slots p)" "j \<noteq> i" "j \<notin> set gs"
      using chain_range [OF cf(1), of j] cf(2) i(4) Cons by auto
    then have ij: "nat j \<noteq> nat i" using i(1) by linarith
    let ?q = "(upd_slot i (\<lambda>s. s\<lparr>sl_prev := -1, sl_next := j\<rparr>) (upd_slot i (\<lambda>s. s\<lparr>sl_entries := 0\<rparr>) p))\<lparr>free_list := i\<rparr>"
    let ?p = "upd_slot j (\<lambda>s. s\<lparr>sl_prev := i\<rparr>) ?q"
    have s0: "slots ?q = sls" using Cons i(2) by (cases "slots p ! nat i") (simp add: sls_def)
    have "chain (sls[nat j := (sls ! nat j)\<lparr>sl_prev := i\<rparr>]) i fs (-1)"
      using c chain_head [of sls "-1" j gs "-1" i] j(4) Cons by simp
    moreover have "slots ?p = sls[nat j := (sls ! nat j)\<lparr>sl_prev := i\<rparr>]" using s0 by (simp add: upd_slot_simps(4))
    moreover have "sl_prev (slots ?p ! nat i) = -1" "sl_next (slots ?p ! nat i) = j"
      using i j ij by simp_all
    moreover define r where "r = ?p"
    moreover have "length (slots ?p) = length (slots p)" "free_list ?p = i" by simp_all
    ultimately have "chain (slots r) i fs (-1)" "sl_prev (slots r ! nat i) = -1" "sl_next (slots r ! nat i) = first (-1) fs"
      "length (slots r) = length (slots p)" "free_list r = i"
      using Cons by (simp_all only: first_simps)
    then have "flist ?p (i # fs)" unfolding r_def [symmetric] flist_def using i cf(2) by simp
    moreover have "entries_at ?p = (entries_at p)(i := 0)"
      using i j ij by (simp add: entries_at_upd fun_eq_iff) (simp add: entries_at_def)
    moreover have "place_insert_free_slot ok m i p = Some ?p"
      using f Cons j by (simp add: place_insert_free_slot_def find flist_def Let_def)
    ultimately show ?thesis using that by simp
  qed
qed

text \<open>Taking a free slot out of the list.\<close>

lemma unlink_slot_spec:
  fixes ok :: bool
  assumes f: "flist p (as @ i # bs)" and m: "\<And>j. j \<in> set (as @ i # bs) \<Longrightarrow> j \<le> m"
  defines "p' \<equiv> unlink_slot ok m i p"
  shows "flist p' (as @ bs)" "same_place p p'" "length (slots p') = length (slots p)" "last_slot p' = last_slot p"
    "entries_at p' = entries_at p"
proof -
  have c: "chain (slots p) (-1) (as @ i # bs) (-1)" and d: "distinct (as @ i # bs)" and fl: "free_list p = first i as"
    using f by (auto simp: flist_def)
  have ca: "chain (slots p) (-1) as i" and ci: "sl_prev (slots p ! nat i) = final (-1) as" "sl_next (slots p ! nat i) = first (-1) bs"
    and cb: "chain (slots p) i bs (-1)" using c by (simp_all add: chain_append)
  have r: "0 \<le> j \<and> nat j < length (slots p)" if "j \<in> set (as @ i # bs)" for j by (rule chain_range [OF c that])
  define q where "q = (if i = free_list p then p\<lparr>free_list := first (-1) bs\<rparr> else p)"
  define q1 where "q1 = (if as = [] then q else upd_slot (last as) (\<lambda>t. t\<lparr>sl_next := first (-1) bs\<rparr>) q)"
  define q2 where "q2 = (case bs of [] \<Rightarrow> q1 | b # _ \<Rightarrow> upd_slot b (\<lambda>t. t\<lparr>sl_prev := final (-1) as\<rparr>) q1)"
  have q: "slots q = slots p" "last_slot q = last_slot p" "same_place p q" "entries_at q = entries_at p"
    "free_list q = first (-1) (as @ bs)"
    using fl d by (cases as; simp add: q_def entries_at_def fun_eq_iff)+
  have f1: "place_find_slot ok m (final (-1) as) q = (if as = [] then None else Some q)"
  proof (cases "as = []")
    case False
    then have "last as \<in> set (as @ i # bs)" by simp
    then show ?thesis using False find_slot_old [of "last as" q m ok] r [of "last as"] m [of "last as"] q(1) by (simp add: final_def)
  qed (simp add: place_find_slot_def)
  have q1: "length (slots q1) = length (slots p)" "last_slot q1 = last_slot p" "same_place p q1" "free_list q1 = free_list q"
    by (simp_all add: q1_def q)
  have f2: "place_find_slot ok m (first (-1) bs) q1 = (case bs of [] \<Rightarrow> None | b # _ \<Rightarrow> Some q1)"
  proof (cases bs)
    case (Cons b cs)
    then have "b \<in> set (as @ i # bs)" by simp
    then show ?thesis using Cons find_slot_old [of b q1 m ok] r [of b] m [of b] q1(1) by simp
  qed (simp add: place_find_slot_def)
  have p': "p' = q2"
  proof -
    have q1': "(case place_find_slot ok m (final (-1) as) q of None \<Rightarrow> q
        | Some p \<Rightarrow> upd_slot (final (-1) as) (\<lambda>t. t\<lparr>sl_next := first (-1) bs\<rparr>) p) = q1"
      unfolding f1 by (simp add: q1_def final_def)
    have "p' = (case place_find_slot ok m (first (-1) bs) q1 of None \<Rightarrow> q1
        | Some p \<Rightarrow> upd_slot (first (-1) bs) (\<lambda>t. t\<lparr>sl_prev := final (-1) as\<rparr>) p)"
      unfolding p'_def unlink_slot_def slot_at_def Let_def ci q_def [symmetric] q1' ..
    then show ?thesis unfolding f2 by (cases bs) (simp_all add: q2_def)
  qed
  have e1: "entries_at q1 = entries_at p"
  proof (cases "as = []")
    case False
    have "entries_at p (last as) = sl_entries (slots p ! nat (last as))" using r [of "last as"] False by (simp add: entries_at_def)
    then show ?thesis using False q r [of "last as"] by (simp add: q1_def entries_at_upd fun_upd_idem)
  qed (simp add: q1_def q)
  show "same_place p p'" "length (slots p') = length (slots p)" "last_slot p' = last_slot p"
    using q1 by (simp_all add: p' q2_def split: list.split)
  show "entries_at p' = entries_at p"
  proof (cases bs)
    case (Cons b cs)
    have "entries_at q1 b = sl_entries (slots q1 ! nat b)" using r [of b] Cons q1(1) by (simp add: entries_at_def)
    then show ?thesis using Cons r [of b] q1(1) e1 by (simp add: p' q2_def entries_at_upd fun_upd_idem)
  qed (simp add: p' q2_def e1)
  have a1: "chain (slots q1) (-1) as (first (-1) bs)" and b1: "chain (slots q1) i bs (-1)"
  proof -
    show "chain (slots q1) (-1) as (first (-1) bs)"
    proof (cases as rule: rev_cases)
      case (snoc xs x)
      then show ?thesis using chain_last [of "slots p" "-1" xs x i "first (-1) bs"] ca d by (simp add: q1_def q(1))
    qed simp
    show "chain (slots q1) i bs (-1)"
    proof (cases as rule: rev_cases)
      case (snoc xs x)
      then show ?thesis using chain_other [OF cb, of x] d r [of x] by (auto simp: q1_def q(1))
    qed (simp add: q1_def q(1) cb)
  qed
  have "chain (slots q2) (-1) (as @ bs) (-1)"
  proof (cases bs)
    case Nil
    then show ?thesis using a1 by (simp add: q2_def)
  next
    case (Cons b cs)
    have "chain (slots q2) (-1) as (first (-1) bs)"
      using chain_other [OF a1, of b] Cons d r [of b] by (auto simp: q2_def)
    moreover have "chain (slots q2) (final (-1) as) bs (-1)"
      using chain_head [of "slots q1" i b cs "-1"] b1 d Cons by (simp add: q2_def)
    ultimately show ?thesis by (simp add: chain_append)
  qed
  moreover have "free_list q2 = first (-1) (as @ bs)"
    using q(5) q1(4) by (simp add: q2_def split: list.split)
  ultimately show "flist p' (as @ bs)" using d by (simp add: flist_def p')
qed

subsection \<open>The invariant of a place\<close>

text \<open>For the number \<open>cnt i\<close> of views in each slot: the slots count them, no slot from \<open>last_slot\<close> on is used, and
  the free list holds exactly the unused slots below.\<close>

definition place_ok :: "int \<Rightarrow> (int \<Rightarrow> int) \<Rightarrow> place \<Rightarrow> bool" where
  "place_ok m cnt p \<longleftrightarrow> 0 \<le> last_slot p \<and> last_slot p \<le> int (length (slots p)) \<and> last_slot p \<le> m + 1 \<and>
     (\<forall>i. 0 \<le> i \<and> i \<le> m \<longrightarrow> entries_at p i = cnt i \<and> 0 \<le> cnt i \<and> (last_slot p \<le> i \<longrightarrow> cnt i = 0)) \<and>
     (\<forall>i. m < i \<longrightarrow> entries_at p i = 0) \<and>
     (\<exists>fs. flist p fs \<and> set fs = {i. 0 \<le> i \<and> i < last_slot p \<and> cnt i = 0})"

lemma grow_alloc_gt: "0 < n \<Longrightarrow> slot < grow_alloc n slot \<and> n \<le> grow_alloc n slot"
proof (induction n slot rule: grow_alloc.induct)
  case (1 n slot)
  show ?case
  proof (cases "n \<le> slot")
    case True
    then have "slot < grow_alloc (n * 2) slot \<and> n * 2 \<le> grow_alloc (n * 2) slot" using 1 by simp
    then show ?thesis using True 1(2) by (simp add: grow_alloc.simps [of n])
  qed (simp add: grow_alloc.simps [of n])
qed

lemma find_slot_grows:
  assumes "0 \<le> slot" "slot \<le> m"
  obtains k p' where "place_find_slot True m slot p = Some p'" "nat slot < length (slots p')"
    "p' = p\<lparr>slots := slots p @ replicate k \<lparr>sl_prev = 0, sl_next = 0, sl_entries = 0\<rparr>\<rparr>"
proof (cases "slot < int (length (slots p))")
  case True
  then show ?thesis using that [of p 0] assms by (simp add: place_find_slot_def nat_less_iff)
next
  case False
  define n where "n = min (grow_alloc (if slots p \<noteq> [] then int (length (slots p)) else 16) slot) (m + 1)"
  have "slot < n" using grow_alloc_gt [of "if slots p \<noteq> [] then int (length (slots p)) else 16" slot] assms(2)
    by (simp add: n_def)
  then have "nat slot < length (slots p) + (nat n - length (slots p))" using assms(1) by linarith
  then have l: "nat slot < length (slots (p\<lparr>slots := slots p @ replicate (nat n - length (slots p))
      \<lparr>sl_prev = 0, sl_next = 0, sl_entries = 0\<rparr>\<rparr>))" by simp
  show ?thesis
    by (rule that [OF _ l refl]) (use assms False in \<open>simp add: place_find_slot_def n_def Let_def\<close>)
qed

lemma place_ok_grown:
  assumes "place_ok m cnt p" "p' = p\<lparr>slots := slots p @ replicate k \<lparr>sl_prev = 0, sl_next = 0, sl_entries = 0\<rparr>\<rparr>"
  shows "place_ok m cnt p'" "same_place p p'" "last_slot p' = last_slot p"
proof -
  have e: "entries_at p' = entries_at p" by (auto simp: assms(2) entries_at_def fun_eq_iff nth_append)
  have "flist p' fs" if "flist p fs" for fs
    using that chain_cong [of "slots p" "-1" fs "-1" "slots p'"] chain_range [of "slots p" "-1" fs "-1"]
    by (auto simp: flist_def assms(2) nth_append)
  then show "place_ok m cnt p'" using assms(1) by (auto simp: place_ok_def e) (auto simp: assms(2))
qed (simp_all add: assms(2) same_place_def)

lemma place_ok_find:
  assumes "place_ok m cnt p" "0 \<le> slot" "slot \<le> m"
  obtains p' where "place_find_slot True m slot p = Some p'" "place_ok m cnt p'" "same_place p p'"
    "nat slot < length (slots p')" "last_slot p' = last_slot p"
  by (rule find_slot_grows [OF assms(2,3), of p]) (use place_ok_grown [OF assms(1)] that in blast)

text \<open>The slots that a new one skips become free.\<close>

lemma free_skipped_spec:
  assumes "flist p fs" "0 \<le> a" "b \<le> m" "b < int (length (slots p))" "\<forall>i \<in> set fs. i < a" "\<forall>i. a \<le> i \<and> i \<le> b \<longrightarrow> entries_at p i = 0"
  shows "\<exists>p' gs. free_skipped ok m [a..b] p = Some p' \<and> flist p' gs \<and> set gs = set fs \<union> {a..b} \<and> same_place p p' \<and>
    length (slots p') = length (slots p) \<and> last_slot p' = last_slot p \<and> entries_at p' = entries_at p"
  using assms
proof (induction "nat (b + 1 - a)" arbitrary: a p fs)
  case 0
  then have "[a..b] = []" "{a..b} = {}" by simp_all
  then show ?case using 0 by auto
next
  case (Suc n)
  then have ab: "a \<le> b" by simp
  have "nat a < length (slots p)" "a \<le> m" "a \<notin> set fs" using Suc.prems ab by (auto simp: nat_less_iff)
  then obtain q where q: "place_insert_free_slot ok m a p = Some q" "flist q (a # fs)" "same_place p q"
    "length (slots q) = length (slots p)" "last_slot q = last_slot p" "entries_at q = (entries_at p)(a := 0)"
    using insert_free_slot_spec [OF Suc.prems(1,2)] by blast
  have e: "entries_at q = entries_at p" using q(6) Suc.prems(6) ab by (simp add: fun_upd_idem)
  have "\<exists>p' gs. free_skipped ok m [a + 1..b] q = Some p' \<and> flist p' gs \<and> set gs = set (a # fs) \<union> {a + 1..b} \<and> same_place q p' \<and>
      length (slots p') = length (slots q) \<and> last_slot p' = last_slot q \<and> entries_at p' = entries_at q"
  proof (rule Suc.hyps(1))
    show "flist q (a # fs)" by (rule q(2))
    show "b < int (length (slots q))" "\<forall>i. a + 1 \<le> i \<and> i \<le> b \<longrightarrow> entries_at q i = 0"
      using Suc.prems(4,6) q(4) e by simp_all
    show "\<forall>i \<in> set (a # fs). i < a + 1" using Suc.prems(5) by auto
  qed (use Suc.hyps(2) Suc.prems(2,3) in simp_all)
  then obtain p' gs where r: "free_skipped ok m [a + 1..b] q = Some p'" "flist p' gs" "set gs = set (a # fs) \<union> {a + 1..b}"
    "same_place q p'" "length (slots p') = length (slots q)" "last_slot p' = last_slot q" "entries_at p' = entries_at q" by blast
  have "free_skipped ok m [a..b] p = Some p'" using ab q(1) r(1) by (simp add: upto_rec1)
  moreover have "{a..b} = insert a {a + 1..b}" using ab by auto
  ultimately show ?case
    using r q(4,5) e same_place_trans [OF q(3) r(4)] by (intro exI [of _ p'] exI [of _ gs]) simp
qed

lemma place_ok_cong: "place_ok m cnt p \<Longrightarrow> (\<And>i. 0 \<le> i \<Longrightarrow> i \<le> m \<Longrightarrow> cnt' i = cnt i) \<Longrightarrow> place_ok m cnt' p"
proof -
  assume p: "place_ok m cnt p" and c: "\<And>i. 0 \<le> i \<Longrightarrow> i \<le> m \<Longrightarrow> cnt' i = cnt i"
  have "{i. 0 \<le> i \<and> i < last_slot p \<and> cnt' i = 0} = {i. 0 \<le> i \<and> i < last_slot p \<and> cnt i = 0}"
    using p c by (auto simp: place_ok_def)
  then show ?thesis using p c by (simp add: place_ok_def)
qed

lemma flist_entries: "flist p fs \<Longrightarrow> flist (upd_slot i (\<lambda>s. s\<lparr>sl_entries := f s\<rparr>) p) fs"
proof -
  assume f: "flist p fs"
  have "chain (slots (upd_slot i (\<lambda>s. s\<lparr>sl_entries := f s\<rparr>) p)) (-1) fs (-1)"
  proof (rule chain_cong)
    show "chain (slots p) (-1) fs (-1)" using f by (simp add: flist_def)
    fix j
    show "sl_prev (slots (upd_slot i (\<lambda>s. s\<lparr>sl_entries := f s\<rparr>) p) ! nat j) = sl_prev (slots p ! nat j) \<and>
        sl_next (slots (upd_slot i (\<lambda>s. s\<lparr>sl_entries := f s\<rparr>) p) ! nat j) = sl_next (slots p ! nat j)"
      by (cases "nat i = nat j"; cases "nat i < length (slots p)") (simp_all add: list_update_beyond)
  qed simp
  then show ?thesis using f by (simp add: flist_def)
qed

lemma slot_enter_spec:
  assumes p: "place_ok m cnt p"
  obtains p' where "slot_enter True m slot p = Some p'" "same_place p p'" "place_ok m (cnt(slot := cnt slot + 1)) p'"
proof (cases "0 \<le> slot \<and> slot \<le> m")
  case False
  then have "slot_enter True m slot p = Some p" by (auto simp: slot_enter_def place_find_slot_def)
  then show ?thesis using that [of p] place_ok_cong [OF p, of "cnt(slot := cnt slot + 1)"] False by auto
next
  case True
  let ?cnt = "cnt(slot := cnt slot + 1)" and ?inc = "upd_slot slot (\<lambda>s. s\<lparr>sl_entries := sl_entries s + 1\<rparr>)"
  obtain p1 where 1: "place_find_slot True m slot p = Some p1" "place_ok m cnt p1" "same_place p p1"
    "nat slot < length (slots p1)" "last_slot p1 = last_slot p"
    by (rule place_ok_find [OF p]) (use True in auto)
  obtain fs where fs: "flist p1 fs" "set fs = {i. 0 \<le> i \<and> i < last_slot p1 \<and> cnt i = 0}" using 1(2) by (auto simp: place_ok_def)
  have cnt: "\<And>i. 0 \<le> i \<Longrightarrow> i \<le> m \<Longrightarrow> entries_at p1 i = cnt i" "\<And>i. 0 \<le> i \<Longrightarrow> i \<le> m \<Longrightarrow> 0 \<le> cnt i"
    "\<And>i. last_slot p1 \<le> i \<Longrightarrow> i \<le> m \<Longrightarrow> cnt i = 0" "0 \<le> last_slot p1" "last_slot p1 \<le> m + 1"
    "last_slot p1 \<le> int (length (slots p1))" "\<And>i. m < i \<Longrightarrow> entries_at p1 i = 0"
    using 1(2) by (auto simp: place_ok_def)
  have s0: "sl_entries (slot_at p1 slot) = cnt slot" using cnt(1) [of slot] True 1(4) by (simp add: entries_at_def slot_at_def)
  obtain p2 gs where 2: "(if slot \<ge> last_slot p1 then do {
             p \<leftarrow> free_skipped True m [last_slot p1..slot - 1] p1;
             Some (p\<lparr>last_slot := slot + 1\<rparr>)}
           else if sl_entries (slot_at p1 slot) = 0 then Some (unlink_slot True m slot p1)
           else Some p1) = Some p2"
      "flist p2 gs" "set gs = {i. 0 \<le> i \<and> i < last_slot p2 \<and> ?cnt i = 0}" "same_place p1 p2" "length (slots p2) = length (slots p1)"
      "last_slot p2 = max (last_slot p1) (slot + 1)" "entries_at p2 = entries_at p1"
  proof -
    consider "slot \<ge> last_slot p1" | "slot < last_slot p1" "cnt slot = 0" | "slot < last_slot p1" "cnt slot \<noteq> 0" by linarith
    then show ?thesis
    proof cases
      case c: 1
      obtain q gs where q: "free_skipped True m [last_slot p1..slot - 1] p1 = Some q" "flist q gs"
        "set gs = set fs \<union> {last_slot p1..slot - 1}" "same_place p1 q" "length (slots q) = length (slots p1)"
        "last_slot q = last_slot p1" "entries_at q = entries_at p1"
        using free_skipped_spec [OF fs(1), of "last_slot p1" "slot - 1" m True] True 1(4) cnt fs(2) by (auto simp: nat_less_iff)
      have "flist (q\<lparr>last_slot := slot + 1\<rparr>) gs" using q(2) by (simp add: flist_def)
      moreover have "set gs = {i. 0 \<le> i \<and> i < slot + 1 \<and> ?cnt i = 0}"
        using q(3) fs(2) cnt(2) [of slot] cnt(3,4) True c by auto
      ultimately show ?thesis using that [of "q\<lparr>last_slot := slot + 1\<rparr>" gs] q c by simp
    next
      case c: 2
      then have "slot \<in> set fs" using fs(2) True by simp
      then obtain as bs where ab: "fs = as @ slot # bs" by (meson split_list)
      have m: "j \<le> m" if "j \<in> set (as @ slot # bs)" for j
      proof -
        have "j < last_slot p1" using that fs(2) unfolding ab by blast
        then show ?thesis using cnt(5) by linarith
      qed
      note u = unlink_slot_spec [OF fs(1) [unfolded ab] m, of True]
      have "distinct fs" using fs(1) by (simp add: flist_def)
      then have "set (as @ bs) = set fs - {slot}" using ab by auto
      also have "\<dots> = {i. 0 \<le> i \<and> i < last_slot p1 \<and> ?cnt i = 0}" using fs(2) c(2) by auto
      finally show ?thesis using that [of "unlink_slot True m slot p1" "as @ bs"] u c s0 by simp
    next
      case c: 3
      then have "set fs = {i. 0 \<le> i \<and> i < last_slot p1 \<and> ?cnt i = 0}" using fs(2) cnt(2) [of slot] True by auto
      then show ?thesis using that [of p1 fs] fs(1) c s0 by simp
    qed
  qed
  have e: "entries_at (?inc p2) = (entries_at p1)(slot := cnt slot + 1)"
  proof -
    have "entries_at p2 slot = cnt slot" using 2(7) cnt(1) [of slot] True by simp
    then have "sl_entries (slots p2 ! nat slot) = cnt slot" using True 1(4) 2(5) by (simp add: entries_at_def)
    then show ?thesis using entries_at_upd [of slot p2] True 1(4) 2(5,7) by simp
  qed
  have "slot_enter True m slot p = Some (?inc p2)"
    using 1(1) 2(1) find_slot_old [of slot p1 m True] True 1(4)
    by (simp add: slot_enter_def place_update_slot_def)
  moreover have "place_ok m ?cnt (?inc p2)"
    unfolding place_ok_def e
  proof (intro conjI exI [of _ gs])
    show "flist (?inc p2) gs" by (rule flist_entries [OF 2(2)])
    show "set gs = {i. 0 \<le> i \<and> i < last_slot (?inc p2) \<and> ?cnt i = 0}" using 2(3) by simp
  qed (use 2(5,6) cnt True 1(4) in \<open>auto simp: nat_less_iff\<close>)
  ultimately show ?thesis using that same_place_trans [OF 1(3) 2(4)] by simp
qed

lemma slot_leave_spec:
  assumes p: "place_ok m cnt p" and c: "0 \<le> slot \<Longrightarrow> slot \<le> m \<Longrightarrow> 0 < cnt slot"
  obtains p' where "slot_leave True m slot p = Some p'" "same_place p p'" "place_ok m (cnt(slot := cnt slot - 1)) p'"
proof (cases "0 \<le> slot \<and> slot \<le> m")
  case False
  then have "slot_leave True m slot p = Some p" by (auto simp: slot_leave_def place_find_slot_def)
  then show ?thesis using that [of p] place_ok_cong [OF p, of "cnt(slot := cnt slot - 1)"] False by auto
next
  case True
  let ?cnt = "cnt(slot := cnt slot - 1)" and ?dec = "upd_slot slot (\<lambda>s. s\<lparr>sl_entries := sl_entries s - 1\<rparr>)"
  have pos: "0 < cnt slot" using c True by simp
  obtain fs where fs: "flist p fs" "set fs = {i. 0 \<le> i \<and> i < last_slot p \<and> cnt i = 0}" using p by (auto simp: place_ok_def)
  have cnt: "\<And>i. 0 \<le> i \<Longrightarrow> i \<le> m \<Longrightarrow> entries_at p i = cnt i" "\<And>i. 0 \<le> i \<Longrightarrow> i \<le> m \<Longrightarrow> 0 \<le> cnt i"
    "\<And>i. last_slot p \<le> i \<Longrightarrow> i \<le> m \<Longrightarrow> cnt i = 0" "0 \<le> last_slot p" "last_slot p \<le> m + 1"
    "last_slot p \<le> int (length (slots p))" "\<And>i. m < i \<Longrightarrow> entries_at p i = 0"
    using p by (auto simp: place_ok_def)
  have l: "slot < last_slot p" using cnt(3) [of slot] pos True by linarith
  then have n: "nat slot < length (slots p)" using cnt(6) True by linarith
  have find: "place_find_slot True m slot p = Some p" using find_slot_old True n by blast
  have en: "sl_entries (slots p ! nat slot) = cnt slot" using cnt(1) [of slot] True n by (simp add: entries_at_def)
  then have e: "entries_at (?dec p) = (entries_at p)(slot := cnt slot - 1)" using entries_at_upd [of slot p] True n by simp
  have s: "sl_entries (slot_at (?dec p) slot) = cnt slot - 1" using en n by (simp add: slot_at_def)
  have f: "flist (?dec p) fs" by (rule flist_entries [OF fs(1)])
  show ?thesis
  proof (cases "cnt slot = 1")
    case False
    have "?cnt i = 0 \<longleftrightarrow> cnt i = 0" for i using False pos by simp
    then have "set fs = {i. 0 \<le> i \<and> i < last_slot (?dec p) \<and> ?cnt i = 0}" using fs(2) by simp
    then have "place_ok m ?cnt (?dec p)"
      unfolding place_ok_def e by (intro conjI exI [of _ fs] f) (use cnt pos True l in auto)
    moreover have "slot_leave True m slot p = Some (?dec p)" using find s False by (simp add: slot_leave_def)
    ultimately show ?thesis using that by simp
  next
    case one: True
    have sf: "slot \<notin> set fs" using fs(2) pos by simp
    have sd: "0 \<le> slot" "nat slot < length (slots (?dec p))" "slot \<le> m" using True n by simp_all
    obtain q where q: "place_insert_free_slot True m slot (?dec p) = Some q" "flist q (slot # fs)" "same_place (?dec p) q"
      "length (slots q) = length (slots (?dec p))" "last_slot q = last_slot (?dec p)"
      "entries_at q = (entries_at (?dec p))(slot := 0)"
      by (rule insert_free_slot_spec [OF f sd sf, of True])
    have "?cnt i = 0 \<longleftrightarrow> i = slot \<or> cnt i = 0" for i using one by simp
    then have "set (slot # fs) = {i. 0 \<le> i \<and> i < last_slot q \<and> ?cnt i = 0}"
      unfolding list.set fs(2) q(5) upd_slot_simps(3) using l True by blast
    moreover have "entries_at q = (entries_at p)(slot := 0)" using q(6) e by simp
    ultimately have "place_ok m ?cnt q"
      unfolding place_ok_def by (intro conjI exI [of _ "slot # fs"] q(2)) (use q(4,5) cnt one True l in auto)
    moreover have "slot_leave True m slot p = Some q" using find s one q(1) by (simp add: slot_leave_def)
    moreover have "same_place p q" using same_place_trans [of p "?dec p" q] q(3) by simp
    ultimately show ?thesis using that by blast
  qed
qed

lemma place_ok_new: "-1 \<le> m \<Longrightarrow> place_ok m (\<lambda>_. 0) (new_place w h)"
  by (auto simp: place_ok_def new_place_def entries_at_def flist_def intro!: exI [of _ "[]"])

text \<open>A grid that grows keeps the places in order when no slot beyond the old bound is in use.\<close>

lemma place_ok_grow: "place_ok m cnt p \<Longrightarrow> m \<le> m' \<Longrightarrow> (\<And>i. m < i \<Longrightarrow> cnt i = 0) \<Longrightarrow> place_ok m' cnt p"
proof -
  assume p: "place_ok m cnt p" and m: "m \<le> m'" and c: "\<And>i. m < i \<Longrightarrow> cnt i = 0"
  have "entries_at p i = cnt i \<and> 0 \<le> cnt i \<and> (last_slot p \<le> i \<longrightarrow> cnt i = 0)" if "0 \<le> i" for i
    using p c that by (cases "i \<le> m") (auto simp: place_ok_def)
  then show ?thesis using p m by (auto simp: place_ok_def)
qed

subsection \<open>The search for a slot\<close>

lemma free_search_chain: "chain sls prv fs (-1) \<Longrightarrow> free_search pos v sls (first (-1) fs) = Some (Inr (new_slot_search pos v fs))"
proof (induction fs arbitrary: prv)
  case Nil
  then show ?case by (simp add: free_search.simps)
next
  case (Cons i fs)
  then show ?case by (auto simp: free_search.simps [of _ _ _ i] split: option.split)
qed

lemma new_slot_search_Some:
  "new_slot_search pos v sls = Some (slot, x, y) \<Longrightarrow> slot \<in> set sls \<and> slot_is_suitable pos v slot = Some (x, y)"
  by (induction sls) (auto split: option.splits)

lemma new_slot_search_None: "new_slot_search pos v sls = None \<longleftrightarrow> (\<forall>slot \<in> set sls. slot_is_suitable pos v slot = None)"
  by (induction sls) (auto split: option.splits)

text \<open>A grid whose area lies in the usable area it was laid out for.\<close>

definition pos_ok :: "positioner \<Rightarrow> bool" where
  "pos_ok pos \<longleftrightarrow> grid_ok pos \<and> 0 \<le> off_left pos \<and> 0 \<le> off_top pos \<and>
     box_x (grid_area pos) = box_x (po_usable pos) + off_left pos \<and> box_y (grid_area pos) = box_y (po_usable pos) + off_top pos"

lemma update_grid_pos_ok:
  assumes "0 < gap_row pos" "0 < gap_column pos" "0 \<le> off_left pos" "0 \<le> off_top pos"
    "positioner_update_grid usable pos = (changed, pos')" "pos_ok pos \<or> changed"
  shows "pos_ok pos'"
proof -
  have "grid_ok pos'" using update_grid_ok [OF assms(1,2,5)] assms(6) by (auto simp: pos_ok_def)
  then show ?thesis
    using assms(3-6) by (auto simp: pos_ok_def positioner_update_grid_def Let_def kywc_box_equal_iff split: if_splits)
qed

lemma slot_0_first:
  assumes "grid_ok pos" "0 \<le> i" "slot_is_suitable pos v i = Some xy"
  obtains x y where "slot_is_suitable pos v 0 = Some (x, y)"
proof -
  have g: "1 \<le> num_step pos" "num_step pos \<le> num_column pos" "0 < gap_row pos" "0 < gap_column pos"
    "key_slot pos = grid_key (num_step pos) (num_column pos)"
    "max_slot pos = diagonal_end (num_step pos) (key_slot pos) (num_step pos - 1)"
    using assms(1) by (auto simp: grid_ok_def)
  have i: "i \<le> max_slot pos" using assms(3) by (auto simp: slot_is_suitable_def positioner_calc_position_def split: if_splits)
  obtain c r where c: "slot_cell (num_step pos) (num_column pos) (key_slot pos) i = (c, r)" "cell_ok (num_step pos) (num_column pos) c r"
    using cell_of_slot [OF g(1,2) assms(2)] i g(5,6) by metis
  have "0 \<le> num_step pos * (num_column pos - num_step pos)" using g(1,2) by simp
  then have "slot_cell (num_step pos) (num_column pos) (key_slot pos) 0 = (0, 0)"
    using g(1,5) by (simp add: slot_cell_def grid_key_def Let_def)
  moreover have "0 \<le> c * gap_column pos" "0 \<le> r * gap_row pos" using c(2) g(3,4) by (auto simp: cell_ok_def)
  moreover have "0 \<le> max_slot pos" using i assms(2) by simp
  ultimately show ?thesis
    using assms(3) i c(1) that
    by (auto simp: slot_is_suitable_def positioner_calc_position_def Let_def split: if_splits)
qed

text \<open>The frame of a view at a suitable slot lies in the usable area.\<close>

lemma suitable_inside:
  assumes "pos_ok pos" "0 \<le> i" "slot_is_suitable pos v i = Some (x, y)"
  shows "box_inside \<lparr>box_x = x - off_x v, box_y = y - off_y v, box_width = box_width (geometry v) + off_width v,
    box_height = box_height (geometry v) + off_height v\<rparr> (po_usable pos)"
proof -
  have g: "1 \<le> num_step pos" "num_step pos \<le> num_column pos" "0 < gap_row pos" "0 < gap_column pos"
    "key_slot pos = grid_key (num_step pos) (num_column pos)"
    "max_slot pos = diagonal_end (num_step pos) (key_slot pos) (num_step pos - 1)"
    using assms(1) by (auto simp: pos_ok_def grid_ok_def)
  have i: "i \<le> max_slot pos" using assms(3) by (auto simp: slot_is_suitable_def positioner_calc_position_def split: if_splits)
  obtain c r where c: "slot_cell (num_step pos) (num_column pos) (key_slot pos) i = (c, r)" "cell_ok (num_step pos) (num_column pos) c r"
    using cell_of_slot [OF g(1,2) assms(2)] i g(5,6) by metis
  moreover have "0 \<le> c * gap_column pos" "0 \<le> r * gap_row pos" using c(2) g(3,4) by (auto simp: cell_ok_def)
  ultimately show ?thesis
    using assms(1,3) i
    by (auto simp: slot_is_suitable_def positioner_calc_position_def Let_def box_inside_def pos_ok_def split: if_splits)
qed

lemma grid_max_nonneg: "grid_ok pos \<Longrightarrow> 0 \<le> max_slot pos"
proof -
  assume g: "grid_ok pos"
  have s: "1 \<le> num_step pos" "num_step pos \<le> num_column pos" using g by (simp_all add: grid_ok_def)
  then have "0 \<le> num_step pos * (num_column pos - num_step pos)" by simp
  moreover have "key_slot pos = num_step pos * (num_column pos - num_step pos) + num_step pos - 1"
    "max_slot pos = diagonal_end (num_step pos) (key_slot pos) (num_step pos - 1)" using g by (simp_all add: grid_ok_def grid_key_def)
  ultimately show ?thesis using diagonal_end_mono [of 0 "num_step pos - 1" "num_step pos" "key_slot pos"] s(1) by simp
qed

text \<open>The slot of a view whose decoration is smaller than a cell is a slot of the grid.\<close>

lemma calc_slot_range:
  assumes "grid_ok pos" "positioner_calc_slot pos v = Some slot"
    "0 \<le> off_x v" "off_x v < gap_column pos" "0 \<le> off_y v" "off_y v < gap_row pos"
  shows "0 \<le> slot \<and> slot \<le> max_slot pos"
proof -
  let ?dx = "box_x (geometry v) - box_x (grid_area pos)" and ?dy = "box_y (geometry v) - box_y (grid_area pos)"
  let ?v = "v\<lparr>off_x := min (off_x v) ?dx, off_y := min (off_y v) ?dy\<rparr>"
  have i: "kywc_box_contains_point (grid_area pos) (box_x (geometry v)) (box_y (geometry v))"
    using assms(2) by (simp add: positioner_calc_slot_def split: if_splits)
  then have d: "0 \<le> ?dx" "0 \<le> ?dy" by (simp_all add: kywc_box_contains_point_def)
  have q: "(d - o1) sdiv g = (d - min o1 d) sdiv g" if "0 \<le> d" "0 \<le> o1" "o1 < g" for d o1 g :: int
    using that by (cases "o1 \<le> d") (auto simp: min_def signed_divide_int_def sgn_if)
  have "positioner_calc_slot pos ?v = positioner_calc_slot pos v"
    using q [OF d(1) assms(3,4)] q [OF d(2) assms(5,6)] by (simp add: positioner_calc_slot_def algebra_simps)
  then show ?thesis using position_of_calc_slot [OF assms(1), of ?v slot] assms(2,3,5) d by simp
qed

lemma choose_slot_spec:
  assumes ok: "place_ok (max_slot pos) cnt p" and g: "grid_ok pos"
  obtains slot x y p' where "choose_slot True pos v p = Some (slot, x, y, p')" "place_ok (max_slot pos) cnt p'" "same_place p p'"
    "0 \<le> slot" "slot \<le> max_slot pos"
    "(\<exists>i. 0 \<le> i \<and> i \<le> max_slot pos \<and> cnt i = 0 \<and> slot_is_suitable pos v i \<noteq> None) \<longrightarrow>
       cnt slot = 0 \<and> slot_is_suitable pos v slot = Some (x, y)"
proof -
  let ?m = "max_slot pos"
  have n: "num_step pos \<noteq> 0" "0 \<le> ?m" using g grid_max_nonneg [OF g] by (simp_all add: grid_ok_def)
  obtain fs where fs: "flist p fs" "set fs = {i. 0 \<le> i \<and> i < last_slot p \<and> cnt i = 0}" using ok by (auto simp: place_ok_def)
  have b: "0 \<le> last_slot p" "last_slot p \<le> ?m + 1" "\<And>i. last_slot p \<le> i \<Longrightarrow> i \<le> ?m \<Longrightarrow> cnt i = 0"
    using ok by (auto simp: place_ok_def)
  let ?all = "fs @ [last_slot p..?m]"
  have all: "i \<in> set ?all \<longleftrightarrow> 0 \<le> i \<and> i \<le> ?m \<and> cnt i = 0" for i
    unfolding set_append fs(2) set_upto using b by (cases "i < last_slot p") auto
  have app: "new_slot_search pos v (as @ bs) = (case new_slot_search pos v as of None \<Rightarrow> new_slot_search pos v bs | Some r \<Rightarrow> Some r)" for as bs
    by (induction as) (auto split: option.split)
  have fr: "free_search pos v (slots p) (free_list p) = Some (Inr (new_slot_search pos v fs))"
    using free_search_chain [of "slots p" "-1" fs] fs(1) by (simp add: flist_def)
  show ?thesis
  proof (cases "new_slot_search pos v ?all")
    case None
    have no: "slot_is_suitable pos v i = None" if "0 \<le> i" "i \<le> ?m" "cnt i = 0" for i
      using None that all [of i] unfolding new_slot_search_None by metis
    have "\<exists>x y. choose_slot True pos v p = Some (0, x, y, p)"
      using None n fr by (auto simp: choose_slot_def choose_new_slot_def app split: option.splits)
    then obtain x y where c: "choose_slot True pos v p = Some (0, x, y, p)" by blast
    show ?thesis by (rule that [OF c ok]) (use no n(2) in simp_all, metis not_None_eq)
  next
    case (Some r)
    obtain slot x y where r: "r = (slot, x, y)" by (cases r)
    have s: "slot \<in> set ?all" "slot_is_suitable pos v slot = Some (x, y)" using new_slot_search_Some [OF Some [unfolded r]] by auto
    have s': "0 \<le> slot" "slot \<le> ?m" "cnt slot = 0" using s(1) unfolding all by auto
    obtain x0 y0 where z: "slot_is_suitable pos v 0 = Some (x0, y0)" by (rule slot_0_first [OF g s'(1) s(2)])
    obtain p' where p': "place_find_slot True ?m slot p = Some p'" "place_ok ?m cnt p'" "same_place p p'"
      by (rule place_ok_find [OF ok s'(1,2)])
    have "\<not> (last_slot p > ?m \<and> free_list p < 0)"
    proof
      assume a: "last_slot p > ?m \<and> free_list p < 0"
      then have "fs = []" using fs by (cases fs) (auto simp: flist_def)
      then show False using s(1) a by simp
    qed
    then have "choose_slot True pos v p = Some (slot, x, y, p')"
      using Some n(1) z fr p'(1) r by (auto simp: choose_slot_def choose_new_slot_def app split: option.splits)
    then show ?thesis using that p' s' s(2) by blast
  qed
qed

subsection \<open>A grid that shrinks\<close>

text \<open>Views and an output of a given size for examples.\<close>

definition plain_base :: kywc_view where
  "plain_base = \<lparr>role = KYWC_VIEW_ROLE_NORMAL, geometry = \<lparr>box_x = 0, box_y = 0, box_width = 400, box_height = 400\<rparr>,
     off_x = 0, off_y = 0, off_width = 0, off_height = 0, padding_top = 0, padding_bottom = 0, padding_left = 0, padding_right = 0,
     min_width = 0, min_height = 0, max_width = 0, max_height = 0, ssd = 0, has_initial_position = False, has_round_corner = False,
     unconstrained = False, mapped = False, minimized = False, maximized = False, fullscreen = False, activated = False,
     tiled = KYWC_TILE_NONE, modal = False, kept_above = False, kept_below = False, sticky = False, minimizable = True,
     maximizable = True, fullscreenable = True, closeable = True, movable = True, resizable = True, activatable = True,
     focusable = True, title = None, app_id = None\<rparr>"

definition plain_view :: view where
  "plain_view = \<lparr>base = plain_base, v_parent = NULL, v_children = [], current_proxy = 1, v_proxies = [1],
     tree_parent = ProxyTree 1, tree_enabled = True, v_output = 1, saved_geometry = zero_box,
     v_pending = \<lparr>action = 0, p_geometry = zero_box, configure_serial = 0, configure_action = 0, configure_geometry = zero_box,
       configure_timeout = False\<rparr>, icon_name = None, icon = NULL, menu_service_name = None, menu_object_path = None,
     current_resize_edges = 0, minimized_when_show_desktop = False, minimized_when_show_active_only = False,
     no_focus_on_map = False, has_buffer = True, corner_radius = (0, 0, 0, 0), emitted = [], sent = []\<rparr>"

definition shrink_env :: "int \<Rightarrow> int \<Rightarrow> positioner_env" where
  "shrink_env w h = \<lparr>pe_outputs = \<lparr>get_output = (\<lambda>_. \<lparr>out_geometry = \<lparr>box_x = 0, box_y = 0, box_width = w, box_height = h\<rparr>,
       usable_area = \<lparr>box_x = 0, box_y = 0, box_width = w, box_height = h\<rparr>, out_enabled = True, out_destroying = False\<rparr>),
       output_at_point = (\<lambda>_ _. 1), fallback_output = 1, theme_corner_radius = 0, csd_round_corner = False\<rparr>,
     pe_name = (\<lambda>_. ''DP-1''), pe_workspace = (\<lambda>proxy. proxy), pe_calloc = True, pe_realloc = True,
     pe_round = (\<lambda>v dst src. v * dst sdiv src), pe_impl = (\<lambda>_. None), pe_movable = (\<lambda>_. True)\<rparr>"

definition map_at :: "ptr \<Rightarrow> int \<Rightarrow> int \<Rightarrow> positioner_manager \<Rightarrow> positioner_manager" where
  "map_at v x y s = s\<lparr>pm_views := (pm_views s)(v := upd_base (\<lambda>b. b\<lparr>mapped := True,
     geometry := (geometry b)\<lparr>box_x := x, box_y := y\<rparr>\<rparr>) (pm_views s v))\<rparr>"

text \<open>A view of a size that fits only the first slot.\<close>

definition large_view :: view where
  "large_view = upd_base (\<lambda>b. b\<lparr>geometry := \<lparr>box_x = 0, box_y = 0, box_width = 640, box_height = 590\<rparr>\<rparr>) plain_view"

text \<open>A view opens and is moved, the usable area shrinks, a second view opens and closes again.\<close>

definition hang_run :: "positioner_manager option" where
  "hang_run = do {
     s \<leftarrow> positioner_handle_new_output (shrink_env 800 700) 1
       (positioner_manager_create (\<lambda>v. if v = 4 then large_view else plain_view));
     s \<leftarrow> positioner_add_new_view (shrink_env 800 700) 2 s;
     s \<leftarrow> entry_handle_view_position (shrink_env 800 700) 2 (map_at 2 250 100 s);
     s \<leftarrow> positioner_handle_output_usable_area (shrink_env 700 650) 0 s;
     s \<leftarrow> positioner_add_new_view (shrink_env 700 650) 3 s;
     entry_handle_view_unmap (shrink_env 700 650) 3 s}"

text \<open>The slots the walk visits, while they are slots of the array that are not suitable.\<close>

definition slot_walk :: "slot list \<Rightarrow> int \<Rightarrow> nat \<Rightarrow> int" where
  "slot_walk sls i n = ((\<lambda>i. sl_next (sls ! nat i)) ^^ n) i"

definition goes_on :: "positioner \<Rightarrow> kywc_view \<Rightarrow> slot list \<Rightarrow> int \<Rightarrow> bool" where
  "goes_on pos v sls i \<longleftrightarrow> 0 \<le> i \<and> nat i < length sls \<and> slot_is_suitable pos v i = None"

lemma slot_walk_simps [simp]:
  "slot_walk sls i 0 = i" "slot_walk sls i (Suc n) = slot_walk sls (sl_next (sls ! nat i)) n"
  unfolding slot_walk_def by (simp, simp only: funpow_Suc_right o_apply)

lemma slot_walk_next: "sl_next (sls ! nat (slot_walk sls i n)) = slot_walk sls i (Suc n)"
  by (simp add: slot_walk_def del: slot_walk_simps)

lemma free_search_returns: "\<not> goes_on pos v sls (slot_walk sls i n) \<Longrightarrow> free_search pos v sls i \<noteq> None"
proof (induction n arbitrary: i)
  case 0
  then show ?case by (subst free_search.simps) (auto simp: goes_on_def split: option.splits)
next
  case (Suc n)
  then have "free_search pos v sls (sl_next (sls ! nat i)) \<noteq> None" by simp
  then show ?case by (subst free_search.simps) (auto split: option.splits)
qed

lemma free_search_endless:
  assumes "\<forall>n. goes_on pos v sls (slot_walk sls i n)"
  shows "free_search pos v sls i = None"
proof (rule ccontr)
  let ?S = "range (slot_walk sls i)"
  assume "free_search pos v sls i \<noteq> None"
  then obtain r where r: "free_search pos v sls i = Some r" by blast
  have step: "goes_on pos v sls j \<and> sl_next (sls ! nat j) \<in> ?S" if "j \<in> ?S" for j
    using that assms slot_walk_next by (auto simp del: slot_walk_simps)
  have "pos = pos \<longrightarrow> v = v \<longrightarrow> sls = sls \<longrightarrow> i \<notin> ?S"
  proof (rule free_search.raw_induct [where P = "\<lambda>pos' v' sls' i' r'. pos' = pos \<longrightarrow> v' = v \<longrightarrow> sls' = sls \<longrightarrow> i' \<notin> ?S", OF _ r])
    fix search pos' v' sls' i' r'
    assume "\<And>pos' v' sls' i' r'. search pos' v' sls' i' = Some r' \<Longrightarrow> pos' = pos \<longrightarrow> v' = v \<longrightarrow> sls' = sls \<longrightarrow> i' \<notin> ?S"
      "(if i' < 0 then Some (Inr None)
        else case slot_is_suitable pos' v' i' of
          Some (x, y) \<Rightarrow> Some (Inr (Some (i', x, y)))
        | None \<Rightarrow> if nat i' < length sls' then search pos' v' sls' (sl_next (sls' ! nat i')) else Some (Inl OUTSIDE_SLOTS)) = Some r'"
    then show "pos' = pos \<longrightarrow> v' = v \<longrightarrow> sls' = sls \<longrightarrow> i' \<notin> ?S"
      using step [of i'] by (auto simp: goes_on_def split: if_splits)
  qed
  moreover have "i \<in> ?S" by (rule range_eqI [of _ _ 0]) simp
  ultimately show False by blast
qed

lemma walk_stays:
  assumes "\<And>i. i \<in> S \<Longrightarrow> sl_next (sls ! nat i) \<in> S" "i \<in> S"
  shows "slot_walk sls i n \<in> S"
  using assms(2) by (induction n arbitrary: i) (simp_all add: assms(1))

text \<open>What the run leaves behind: the free list begins at the slot 4, and every slot from there to the slot 9 is
  followed by one of them.\<close>

definition hang_facts :: "positioner_manager \<Rightarrow> bool" where
  "hang_facts s \<longleftrightarrow> pm_positioners s = [0] \<and> po_output (pm_pos s 0) = 1 \<and> places (pm_pos s 0) = [0] \<and> max_slot (pm_pos s 0) = 4 \<and>
     num_step (pm_pos s 0) = 2 \<and>
     pm_views s 4 = large_view \<and>
     (case pm_places s 0 of None \<Rightarrow> False | Some p \<Rightarrow> pl_workspace p = 1 \<and> free_list p = 4 \<and> 9 < length (slots p) \<and>
        list_all (\<lambda>i. sl_next (slots p ! nat i) \<in> set [4..9]) [4..9]) \<and>
     list_all (\<lambda>i. slot_is_suitable (pm_pos s 0) (base large_view) i = None) [4..9] \<and>
     slot_is_suitable (pm_pos s 0) (base large_view) 0 = Some (50, 50)"

lemma hang_state: "map_option hang_facts hang_run = Some True"
  by code_simp

lemma hang_place:
  obtains s p where "hang_run = Some s" "hang_facts s" "pm_places s 0 = Some p" "pl_workspace p = 1" "free_list p = 4"
    "9 < length (slots p)" "\<And>n. slot_walk (slots p) 4 n \<in> {4..9}"
    "\<And>i. i \<in> {4..9} \<Longrightarrow> slot_is_suitable (pm_pos s 0) (base large_view) i = None"
proof -
  obtain s where s: "hang_run = Some s" "hang_facts s" using hang_state by auto
  then obtain p where p: "pm_places s 0 = Some p" "pl_workspace p = 1" "free_list p = 4" "9 < length (slots p)"
    "list_all (\<lambda>i. sl_next (slots p ! nat i) \<in> set [4..9]) [4..9]"
    by (auto simp: hang_facts_def split: option.splits)
  have "sl_next (slots p ! nat i) \<in> {4..9}" if "i \<in> {4..9}" for i
    using p(5) that unfolding list_all_iff set_upto by blast
  then have "slot_walk (slots p) 4 n \<in> {4..9}" for n by (rule walk_stays) simp_all
  moreover have "slot_is_suitable (pm_pos s 0) (base large_view) i = None" if "i \<in> {4..9}" for i
    using s(2) that unfolding hang_facts_def list_all_iff set_upto by blast
  ultimately show ?thesis using that s p(1-4) by blast
qed

text \<open>C40: the search for a free slot does not end exactly when the walk along the free list visits slots of the array
  for ever, none of them suitable; and that happens: a view is moved to a slot that no longer exists after the usable area
  has shrunk; a second view opens in a slot of the free list behind a slot that no longer exists, so the list is not
  unlinked there, and closes again. From then on the free list never leaves the slots 4 to 9: the search never ends for
  any view that does not fit these slots, and opening such a view, which fits the first slot, does not return.\<close>

theorem shrunk_grid_search_never_ends:
  "(\<forall>pos v sls i. free_search pos v sls i = None \<longleftrightarrow> (\<forall>n. goes_on pos v sls (slot_walk sls i n))) \<and>
   (\<exists>s p. hang_run = Some s \<and> pm_places s 0 = Some p \<and> 9 < length (slots p) \<and>
     (\<forall>n. slot_walk (slots p) (free_list p) n \<in> {4..9}) \<and>
     (\<forall>b. (\<forall>i \<in> {4..9}. slot_is_suitable (pm_pos s 0) b i = None) \<longrightarrow> free_search (pm_pos s 0) b (slots p) (free_list p) = None) \<and>
     positioner_add_new_view (shrink_env 700 650) 4 s = None)"
proof (intro conjI)
  show search: "\<forall>pos v sls i. free_search pos v sls i = None \<longleftrightarrow> (\<forall>n. goes_on pos v sls (slot_walk sls i n))"
    using free_search_endless free_search_returns by metis
  obtain s p where s: "hang_run = Some s" "hang_facts s" "pm_places s 0 = Some p" "pl_workspace p = 1" "free_list p = 4"
    "9 < length (slots p)" "\<And>n. slot_walk (slots p) 4 n \<in> {4..9}"
    "\<And>i. i \<in> {4..9} \<Longrightarrow> slot_is_suitable (pm_pos s 0) (base large_view) i = None"
    by (rule hang_place) blast
  have f: "free_search (pm_pos s 0) b (slots p) 4 = None" if b: "\<forall>i \<in> {4..9}. slot_is_suitable (pm_pos s 0) b i = None" for b
  proof (rule free_search_endless, rule allI)
    fix n
    have "nat (slot_walk (slots p) 4 n) \<le> 9" "0 \<le> slot_walk (slots p) 4 n" using s(7) [of n] by auto
    then show "goes_on (pm_pos s 0) b (slots p) (slot_walk (slots p) 4 n)"
      using b s(6) s(7) [of n] unfolding goes_on_def by (metis le_less_trans)
  qed
  have "positioner_add_new_view (shrink_env 700 650) 4 s = None"
    using s(2-5) f [OF ballI [OF s(8)]]
    by (simp add: positioner_add_new_view_def hang_facts_def positioner_from_output_def positioner_get_place_def large_view_def
        plain_view_def plain_base_def upd_base_def shrink_env_def choose_slot_def)
  then show "\<exists>s p. hang_run = Some s \<and> pm_places s 0 = Some p \<and> 9 < length (slots p) \<and>
     (\<forall>n. slot_walk (slots p) (free_list p) n \<in> {4..9}) \<and>
     (\<forall>b. (\<forall>i \<in> {4..9}. slot_is_suitable (pm_pos s 0) b i = None) \<longrightarrow> free_search (pm_pos s 0) b (slots p) (free_list p) = None) \<and>
     positioner_add_new_view (shrink_env 700 650) 4 s = None"
    using s(1,3,5-7) f by auto
qed

theorem shrunk_grid_search_never_ends_witness:
  "\<exists>s p. hang_run = Some s \<and> pm_places s 0 = Some p \<and>
     free_search (pm_pos s 0) (base large_view) (slots p) (free_list p) = None"
proof -
  obtain t where t: "hang_run = Some t" "\<And>i. i \<in> {4..9} \<Longrightarrow> slot_is_suitable (pm_pos t 0) (base large_view) i = None"
    by (rule hang_place) blast
  obtain s p where s: "hang_run = Some s" "pm_places s 0 = Some p"
    "\<forall>b. (\<forall>i \<in> {4..9}. slot_is_suitable (pm_pos s 0) b i = None) \<longrightarrow> free_search (pm_pos s 0) b (slots p) (free_list p) = None"
    using shrunk_grid_search_never_ends by blast
  moreover have "t = s" using trans [OF t(1) [symmetric] s(1)] by (rule option.inject [THEN iffD1])
  ultimately show ?thesis using t(2) by blast
qed

end
