(* ===== verification/PositionerInv.thy ===== *)
theory PositionerInv
  imports PositionerProofs
begin

section \<open>The invariant of the positioner\<close>

text \<open>
  Over the handlers of views, workspaces and outputs, as long as no grid shrinks: every slot counts the entries in
  it, the free lists are in order, and every entry is in the list of its place.
\<close>

subsection \<open>Counting entries\<close>

definition count_slots :: "(ptr \<Rightarrow> int option) \<Rightarrow> ptr list \<Rightarrow> int \<Rightarrow> int" where
  "count_slots f vs i = int (length (filter (\<lambda>v. f v = Some i) vs))"

lemma count_slots_nonneg [simp]: "0 \<le> count_slots f vs i"
  by (simp add: count_slots_def)

lemma count_slots_cong: "(\<And>v. v \<in> set vs \<Longrightarrow> g v = f v) \<Longrightarrow> count_slots g vs = count_slots f vs"
  by (auto simp: count_slots_def fun_eq_iff intro!: arg_cong [where f = length] filter_cong)

lemma count_slots_Cons: "f v = Some j \<Longrightarrow> count_slots f (v # vs) = (count_slots f vs)(j := count_slots f vs j + 1)"
  by (auto simp: count_slots_def fun_eq_iff)

lemma count_slots_remove1:
  "distinct vs \<Longrightarrow> v \<in> set vs \<Longrightarrow> f v = Some j \<Longrightarrow>
   count_slots f (removeAll v vs) i = count_slots f vs i - (if i = j then 1 else 0)"
  by (induction vs) (auto simp: count_slots_def)

lemma count_slots_remove:
  assumes "distinct vs" "v \<in> set vs" "f v = Some j"
  shows "count_slots f (removeAll v vs) = (count_slots f vs)(j := count_slots f vs j - 1)"
  using count_slots_remove1 [of vs v f j] assms by (auto simp: fun_eq_iff)

lemma count_slots_pos: "v \<in> set vs \<Longrightarrow> f v = Some j \<Longrightarrow> 0 < count_slots f vs j"
  by (auto simp: count_slots_def filter_empty_conv)

text \<open>Changing the slot of one view.\<close>

lemma count_slots_change:
  assumes "distinct vs" "v \<in> set vs" "f v = Some j" "j \<noteq> k"
  shows "count_slots (f(v := Some k)) vs =
    (count_slots f vs)(j := count_slots f vs j - 1, k := count_slots f vs k + 1)"
proof -
  let ?g = "f(v := Some k)"
  have "count_slots ?g (removeAll v vs) = count_slots f (removeAll v vs)" by (rule count_slots_cong) auto
  then have "(count_slots ?g vs)(k := count_slots ?g vs k - 1) = (count_slots f vs)(j := count_slots f vs j - 1)"
    using count_slots_remove [of vs v ?g k] count_slots_remove [of vs v f j] assms(1-3) by simp
  then have e: "((count_slots ?g vs)(k := count_slots ?g vs k - 1)) i = ((count_slots f vs)(j := count_slots f vs j - 1)) i" for i
    by simp
  show ?thesis
  proof
    fix i
    show "count_slots ?g vs i = ((count_slots f vs)(j := count_slots f vs j - 1, k := count_slots f vs k + 1)) i"
      using e [of i] assms(4) by (cases "i = k") (auto split: if_splits)
  qed
qed

subsection \<open>The invariant\<close>

definition slot_of :: "positioner_manager \<Rightarrow> ptr \<Rightarrow> int option" where
  "slot_of s v = map_option en_slot (pm_entries s v)"

definition place_inv :: "positioner_manager \<Rightarrow> handle \<Rightarrow> place \<Rightarrow> bool" where
  "place_inv s q p \<longleftrightarrow> place_ok (place_max s p) (count_slots (slot_of s) (pl_entries p)) p \<and> distinct (pl_entries p) \<and>
     (\<forall>v \<in> set (pl_entries p). \<exists>e. pm_entries s v = Some e \<and> en_place e = Some q \<and> en_slot e \<le> place_max s p)"

definition pos_inv :: "positioner \<Rightarrow> bool" where
  "pos_inv pos \<longleftrightarrow> pos_ok pos \<or> grid_area pos = zero_box \<and> po_usable pos = zero_box \<and> max_slot pos = 0 \<and> num_step pos = 0"

definition pos_set :: "positioner \<Rightarrow> bool" where
  "pos_set pos \<longleftrightarrow> gap_row pos = 50 \<and> gap_column pos = 50 \<and> off_left pos = 50 \<and> off_top pos = 50"

definition pm_inv :: "positioner_manager \<Rightarrow> bool" where
  "pm_inv s \<longleftrightarrow> (\<forall>q p. pm_places s q = Some p \<longrightarrow> place_inv s q p \<and> q < pm_next_place s) \<and>
     (\<forall>v e q. pm_entries s v = Some e \<longrightarrow> en_place e = Some q \<longrightarrow> (\<exists>p. pm_places s q = Some p \<and> v \<in> set (pl_entries p))) \<and>
     (\<forall>h q. q \<in> set (places (pm_pos s h)) \<longrightarrow> (\<exists>p. pm_places s q = Some p \<and> pl_positioner p = h)) \<and>
     (\<forall>h. pos_inv (pm_pos s h)) \<and> (\<forall>h \<in> set (pm_positioners s). pos_set (pm_pos s h) \<and> h < pm_next_pos s) \<and>
     (\<forall>q p. pm_places s q = Some p \<longrightarrow> pl_positioner p \<in> set (pm_positioners s))"

text \<open>What the operations on entries leave alone.\<close>

definition same_pm :: "positioner_manager \<Rightarrow> positioner_manager \<Rightarrow> bool" where
  "same_pm s t \<longleftrightarrow> pm_positioners t = pm_positioners s \<and> pm_pos t = pm_pos s \<and> pm_next_pos t = pm_next_pos s \<and>
     pm_next_place t = pm_next_place s \<and> pm_views t = pm_views s"

lemma same_pm_trans: "same_pm s t \<Longrightarrow> same_pm t u \<Longrightarrow> same_pm s u"
  by (simp add: same_pm_def)

lemma same_pm_refl [simp]: "same_pm s s" "same_pm s (upd_entry v f s)" "same_pm s (s\<lparr>pm_places := a\<rparr>)" "same_pm s (s\<lparr>pm_entries := b\<rparr>)"
  by (simp_all add: same_pm_def upd_entry_def)

lemma same_pm_max: "same_pm s t \<Longrightarrow> place_max t p = place_max s p"
  by (simp add: same_pm_def place_max_def)

text \<open>The invariant of a place does not depend on the entries of views in other places.\<close>

lemma place_inv_frame:
  assumes "place_inv s q p" "place_max t p = place_max s p" "\<And>v. v \<in> set (pl_entries p) \<Longrightarrow> pm_entries t v = pm_entries s v"
  shows "place_inv t q p"
proof -
  have "count_slots (slot_of t) (pl_entries p) = count_slots (slot_of s) (pl_entries p)"
    by (rule count_slots_cong) (simp add: slot_of_def assms(3))
  then show ?thesis using assms by (simp add: place_inv_def)
qed

text \<open>One place and the entry of one view change.\<close>

lemma pm_inv_change:
  assumes s: "pm_inv s" and t: "same_pm s t" "pm_places t = (pm_places s)(q \<mapsto> p')" "\<And>u. u \<noteq> v \<Longrightarrow> pm_entries t u = pm_entries s u"
    and p: "pm_places s q = Some p" "pl_positioner p' = pl_positioner p" "place_inv t q p'"
    and v: "\<And>r. map_option en_place (pm_entries s v) = Some (Some r) \<Longrightarrow> r = q"
    and e: "\<And>e r. pm_entries t v = Some e \<Longrightarrow> en_place e = Some r \<Longrightarrow> r = q \<and> v \<in> set (pl_entries p')"
    and l: "\<And>u. u \<noteq> v \<Longrightarrow> u \<in> set (pl_entries p') \<longleftrightarrow> u \<in> set (pl_entries p)"
  shows "pm_inv t"
proof -
  have "place_inv t r p1 \<and> r < pm_next_place t" if r: "pm_places t r = Some p1" for r p1
  proof (cases "r = q")
    case True
    then show ?thesis using r p s t by (auto simp: pm_inv_def same_pm_def)
  next
    case False
    then have r': "pm_places s r = Some p1" using r t(2) by simp
    then have i: "place_inv s r p1" "r < pm_next_place s" using s by (auto simp: pm_inv_def)
    have "v \<notin> set (pl_entries p1)" using i(1) v False by (auto simp: place_inv_def)
    then have "place_inv t r p1"
      by (intro place_inv_frame [OF i(1)] same_pm_max [OF t(1)] t(3)) auto
    then show ?thesis using i(2) t(1) by (simp add: same_pm_def)
  qed
  moreover have "\<exists>p1. pm_places t r = Some p1 \<and> u \<in> set (pl_entries p1)" if ue: "pm_entries t u = Some e1" "en_place e1 = Some r" for u e1 r
  proof (cases "u = v")
    case True
    then show ?thesis using e [of e1 r] ue t(2) by simp
  next
    case False
    then have "pm_entries s u = Some e1" using ue(1) t(3) by simp
    then obtain p1 where "pm_places s r = Some p1" "u \<in> set (pl_entries p1)" using ue(2) s unfolding pm_inv_def by blast
    then show ?thesis using t(2) l [OF False] p(1) by (cases "r = q") auto
  qed
  moreover have "\<exists>p1. pm_places t r = Some p1 \<and> pl_positioner p1 = h" if "r \<in> set (places (pm_pos t h))" for h r
  proof -
    have "r \<in> set (places (pm_pos s h))" using that t(1) by (simp add: same_pm_def)
    then obtain p1 where "pm_places s r = Some p1" "pl_positioner p1 = h" using s unfolding pm_inv_def by blast
    then show ?thesis using t(2) p(1,2) by (cases "r = q") auto
  qed
  moreover have "(\<forall>h. pos_inv (pm_pos t h)) \<and> (\<forall>h \<in> set (pm_positioners t). pos_set (pm_pos t h) \<and> h < pm_next_pos t)"
    using s t(1) by (simp add: pm_inv_def same_pm_def)
  moreover have "pl_positioner p1 \<in> set (pm_positioners t)" if "pm_places t r = Some p1" for r p1
    using that s t(1,2) p(1,2) by (cases "r = q") (auto simp: pm_inv_def same_pm_def)
  ultimately show ?thesis unfolding pm_inv_def by blast
qed

subsection \<open>Operations on entries\<close>

lemma place_ok_entries [simp]: "place_ok m cnt (p\<lparr>pl_entries := xs\<rparr>) \<longleftrightarrow> place_ok m cnt p"
  by (simp add: place_ok_def flist_def)

lemma place_max_cong: "pl_positioner p' = pl_positioner p \<Longrightarrow> place_max s p' = place_max s p"
  by (simp add: place_max_def)

lemma on_slot_enter:
  assumes "pm_places s q = Some p" "pe_realloc env" "place_ok (place_max s p) cnt p"
  obtains p' where "on_slot slot_enter env q slot s = Some (s\<lparr>pm_places := (pm_places s)(q \<mapsto> p')\<rparr>)" "same_place p p'"
    "place_ok (place_max s p) (cnt(slot := cnt slot + 1)) p'"
  by (rule slot_enter_spec [OF assms(3), of slot], rule that) (use assms in \<open>auto simp: on_slot_def upd_place_def\<close>)

lemma on_slot_leave:
  assumes "pm_places s q = Some p" "pe_realloc env" "place_ok (place_max s p) cnt p" "0 < cnt slot"
  obtains p' where "on_slot slot_leave env q slot s = Some (s\<lparr>pm_places := (pm_places s)(q \<mapsto> p')\<rparr>)" "same_place p p'"
    "place_ok (place_max s p) (cnt(slot := cnt slot - 1)) p'"
  by (rule slot_leave_spec [OF assms(3), of slot], rule assms(4), rule that)
    (use assms in \<open>auto simp: on_slot_def upd_place_def\<close>)

lemma pm_inv_place:
  assumes "pm_inv s" "pm_places s q = Some p"
  shows "place_ok (place_max s p) (count_slots (slot_of s) (pl_entries p)) p" "distinct (pl_entries p)"
    "\<And>v. v \<in> set (pl_entries p) \<Longrightarrow> \<exists>e. pm_entries s v = Some e \<and> en_place e = Some q \<and> en_slot e \<le> place_max s p"
  using assms by (auto simp: pm_inv_def place_inv_def)

lemma pm_inv_entry:
  assumes "pm_inv s" "pm_entries s v = Some e" "en_place e = Some q"
  obtains p where "pm_places s q = Some p" "v \<in> set (pl_entries p)" "en_slot e \<le> place_max s p"
proof -
  obtain p where p: "pm_places s q = Some p" "v \<in> set (pl_entries p)" using assms unfolding pm_inv_def by blast
  then show ?thesis using that pm_inv_place(3) [OF assms(1) p] assms(2) by auto
qed

definition changed_place :: "handle \<Rightarrow> positioner_manager \<Rightarrow> positioner_manager \<Rightarrow> bool" where
  "changed_place q s t \<longleftrightarrow> (\<exists>p p'. pm_places s q = Some p \<and> pm_places t = (pm_places s)(q \<mapsto> p') \<and>
     pl_positioner p' = pl_positioner p \<and> pl_workspace p' = pl_workspace p)"

lemma changed_placeI:
  "pm_places s q = Some p \<Longrightarrow> pm_places t = (pm_places s)(q \<mapsto> p') \<Longrightarrow> pl_positioner p' = pl_positioner p \<Longrightarrow>
   pl_workspace p' = pl_workspace p \<Longrightarrow> changed_place q s t"
  unfolding changed_place_def by blast

text \<open>Places keep their positioner and workspace.\<close>

definition keeps_places :: "positioner_manager \<Rightarrow> positioner_manager \<Rightarrow> bool" where
  "keeps_places s t \<longleftrightarrow> (\<forall>q p. pm_places s q = Some p \<longrightarrow>
     (\<exists>p'. pm_places t q = Some p' \<and> pl_positioner p' = pl_positioner p \<and> pl_workspace p' = pl_workspace p))"

lemma keeps_places_refl [simp]: "keeps_places s s"
  by (simp add: keeps_places_def)

lemma keeps_places_trans:
  assumes "keeps_places s t" "keeps_places t u"
  shows "keeps_places s u"
  unfolding keeps_places_def
proof (intro allI impI)
  fix q p assume "pm_places s q = Some p"
  then obtain p1 where 1: "pm_places t q = Some p1" "pl_positioner p1 = pl_positioner p" "pl_workspace p1 = pl_workspace p"
    using assms(1) unfolding keeps_places_def by blast
  then obtain p2 where "pm_places u q = Some p2" "pl_positioner p2 = pl_positioner p1" "pl_workspace p2 = pl_workspace p1"
    using assms(2) unfolding keeps_places_def by blast
  then show "\<exists>p'. pm_places u q = Some p' \<and> pl_positioner p' = pl_positioner p \<and> pl_workspace p' = pl_workspace p"
    using 1 by auto
qed

lemma changed_keeps: "changed_place q s t \<Longrightarrow> keeps_places s t"
  by (auto simp: changed_place_def keeps_places_def)

lemma insert_entry_inv:
  assumes s: "pm_inv s" "pe_realloc env" and v: "pm_entries s v = Some e" "en_place e = None"
    and p: "pm_places s q = Some p" "slot \<le> place_max s p"
  obtains t where "place_insert_entry env (Some q) v slot s = Some t" "pm_inv t" "same_pm s t" "changed_place q s t"
    "pm_entries t = (pm_entries s)(v \<mapsto> e\<lparr>en_slot := slot, en_place := Some q\<rparr>)"
proof -
  note i = pm_inv_place [OF s(1) p(1)]
  have nv: "v \<notin> set (pl_entries p)" using i(3) v by fastforce
  let ?s1 = "upd_entry v (\<lambda>e. e\<lparr>en_slot := slot, en_place := Some q\<rparr>) s"
  let ?p1 = "p\<lparr>pl_entries := v # pl_entries p\<rparr>"
  let ?s2 = "?s1\<lparr>pm_places := (pm_places s)(q \<mapsto> ?p1)\<rparr>"
  let ?cnt = "count_slots (slot_of s) (pl_entries p)"
  have e1: "pm_entries ?s1 = (pm_entries s)(v \<mapsto> e\<lparr>en_slot := slot, en_place := Some q\<rparr>)" using v by (simp add: upd_entry_def)
  have ok: "place_ok (place_max ?s2 ?p1) ?cnt ?p1" using i(1) by (simp add: place_max_def upd_entry_def)
  obtain p' where p': "on_slot slot_enter env q slot ?s2 = Some (?s2\<lparr>pm_places := (pm_places ?s2)(q \<mapsto> p')\<rparr>)" "same_place ?p1 p'"
    "place_ok (place_max ?s2 ?p1) (?cnt(slot := ?cnt slot + 1)) p'"
    by (rule on_slot_enter [OF _ s(2) ok, of q slot]) simp_all
  let ?t = "?s1\<lparr>pm_places := (pm_places s)(q \<mapsto> p')\<rparr>"
  have f: "pl_positioner p' = pl_positioner p" "pl_workspace p' = pl_workspace p" "pl_entries p' = v # pl_entries p"
    using p'(2) by (simp_all add: same_place_def)
  have st: "same_pm s ?t" by (simp add: same_pm_def upd_entry_def)
  have sv: "slot_of ?t v = Some slot" "\<And>u. u \<noteq> v \<Longrightarrow> slot_of ?t u = slot_of s u" using e1 by (simp_all add: slot_of_def)
  have "count_slots (slot_of ?t) (pl_entries p) = ?cnt" using nv sv(2) by (intro count_slots_cong) metis
  then have "count_slots (slot_of ?t) (pl_entries p') = ?cnt(slot := ?cnt slot + 1)"
    using count_slots_Cons [of "slot_of ?t" v slot "pl_entries p"] sv(1) f(3) by (simp only:)
  moreover have m: "place_max ?t p' = place_max s p" "place_max ?s2 ?p1 = place_max s p"
    using f(1) by (simp_all add: place_max_def upd_entry_def)
  moreover have "\<exists>e. pm_entries ?t u = Some e \<and> en_place e = Some q \<and> en_slot e \<le> place_max s p" if "u \<in> set (pl_entries p')" for u
    using that i(3) [of u] f(3) e1 p(2) by (cases "u = v") auto
  ultimately have pi: "place_inv ?t q p'" using p'(3) i(2) nv f(3) by (simp add: place_inv_def)
  have "pm_inv ?t"
    by (rule pm_inv_change [where v = v, OF s(1) st _ _ p(1) f(1) pi]) (use v e1 f(3) in \<open>auto split: if_splits\<close>)
  moreover have "place_insert_entry env (Some q) v slot s = Some ?t"
    using p(1) p'(1) by (simp add: place_insert_entry_def upd_place_def upd_entry_def)
  moreover have "changed_place q s ?t" by (rule changed_placeI [OF p(1) _ f(1,2)]) simp
  ultimately show ?thesis using that st e1 by simp
qed

lemma remove_entry_inv:
  assumes s: "pm_inv s" "pe_realloc env" and v: "pm_entries s v = Some e" "en_place e = Some q"
  obtains t where "place_remove_entry env q v s = Some t" "pm_inv t" "same_pm s t" "changed_place q s t"
    "pm_entries t = (pm_entries s)(v \<mapsto> e\<lparr>en_place := None, en_slot := -1\<rparr>)"
proof -
  obtain p where p: "pm_places s q = Some p" "v \<in> set (pl_entries p)" by (rule pm_inv_entry [OF s(1) v])
  note i = pm_inv_place [OF s(1) p(1)]
  let ?cnt = "count_slots (slot_of s) (pl_entries p)"
  have sv: "slot_of s v = Some (en_slot e)" using v(1) by (simp add: slot_of_def)
  obtain p1 where 1: "on_slot slot_leave env q (en_slot e) s = Some (s\<lparr>pm_places := (pm_places s)(q \<mapsto> p1)\<rparr>)" "same_place p p1"
    "place_ok (place_max s p) (?cnt(en_slot e := ?cnt (en_slot e) - 1)) p1"
    by (rule on_slot_leave [OF p(1) s(2) i(1) count_slots_pos [of v "pl_entries p" "slot_of s", OF p(2) sv]])
  let ?p' = "p1\<lparr>pl_entries := removeAll v (pl_entries p1)\<rparr>"
  let ?t = "upd_entry v (\<lambda>e. e\<lparr>en_place := None, en_slot := -1\<rparr>) (s\<lparr>pm_places := (pm_places s)(q \<mapsto> ?p')\<rparr>)"
  have f: "pl_positioner ?p' = pl_positioner p" "pl_workspace ?p' = pl_workspace p" "pl_entries ?p' = removeAll v (pl_entries p)"
    using 1(2) by (simp_all add: same_place_def)
  have e1: "pm_entries ?t = (pm_entries s)(v \<mapsto> e\<lparr>en_place := None, en_slot := -1\<rparr>)" using v by (simp add: upd_entry_def)
  have st: "same_pm s ?t" by (simp add: same_pm_def upd_entry_def)
  have "count_slots (slot_of ?t) (pl_entries ?p') = count_slots (slot_of s) (removeAll v (pl_entries p))"
    unfolding f(3) by (rule count_slots_cong) (use e1 in \<open>simp add: slot_of_def\<close>)
  also have "\<dots> = ?cnt(en_slot e := ?cnt (en_slot e) - 1)" by (rule count_slots_remove [of "pl_entries p" v "slot_of s", OF i(2) p(2) sv])
  finally have "place_ok (place_max ?t ?p') (count_slots (slot_of ?t) (pl_entries ?p')) ?p'"
    using 1(3) place_max_cong [OF f(1), of s] same_pm_max [OF st, of ?p'] by simp
  moreover have "\<exists>e. pm_entries ?t u = Some e \<and> en_place e = Some q \<and> en_slot e \<le> place_max ?t ?p'" if "u \<in> set (pl_entries ?p')" for u
    using that i(3) [of u] f(3) e1 place_max_cong [OF f(1), of s] same_pm_max [OF st, of ?p'] by auto
  ultimately have pi: "place_inv ?t q ?p'" using i(2) f(3) by (simp add: place_inv_def distinct_removeAll)
  have "pm_inv ?t"
    by (rule pm_inv_change [where v = v, OF s(1) st _ _ p(1) f(1) pi])
      (use v e1 f(3) in \<open>auto simp: upd_entry_def split: if_splits\<close>)
  moreover have "place_remove_entry env q v s = Some ?t"
    using v 1(1) by (simp add: place_remove_entry_def upd_place_def upd_entry_def)
  moreover have "changed_place q s ?t" by (rule changed_placeI [OF p(1) _ f(1,2)]) (simp add: upd_entry_def)
  ultimately show ?thesis using that st e1 by blast
qed

text \<open>Moving an entry to another place is taking it out and putting it in.\<close>

lemma update_entry_other:
  assumes "pm_entries s v = Some e" "en_place e = Some q" "h \<noteq> q"
  shows "place_update_entry env (Some h) v slot s =
    Option.bind (place_remove_entry env q v s) (place_insert_entry env (Some h) v slot)"
proof (cases "on_slot slot_leave env q (en_slot e) s")
  case None
  then show ?thesis using assms by (simp add: place_update_entry_def place_remove_entry_def)
next
  case (Some t)
  then obtain p0 p where t: "pm_places s q = Some p0" "t = s\<lparr>pm_places := (pm_places s)(q \<mapsto> p)\<rparr>"
    by (auto simp: on_slot_def upd_place_def bind_eq_Some_conv)
  show ?thesis
    using assms Some t
    by (simp add: place_update_entry_def place_remove_entry_def place_insert_entry_def upd_place_def upd_entry_def
        fun_upd_twist [of h q]) (cases e; cases s; simp)
qed

lemma update_entry_same:
  assumes s: "pm_inv s" "pe_realloc env" and v: "pm_entries s v = Some e" "en_place e = Some q" "slot \<noteq> en_slot e"
    and m: "\<And>p. pm_places s q = Some p \<Longrightarrow> slot \<le> place_max s p"
  obtains t where "place_update_entry env (Some q) v slot s = Some t" "pm_inv t" "same_pm s t" "changed_place q s t"
    "pm_entries t = (pm_entries s)(v \<mapsto> e\<lparr>en_slot := slot\<rparr>)"
proof -
  obtain p where p: "pm_places s q = Some p" "v \<in> set (pl_entries p)" by (rule pm_inv_entry [OF s(1) v(1,2)])
  note i = pm_inv_place [OF s(1) p(1)]
  let ?cnt = "count_slots (slot_of s) (pl_entries p)"
  have sv: "slot_of s v = Some (en_slot e)" using v(1) by (simp add: slot_of_def)
  let ?cnt1 = "?cnt(en_slot e := ?cnt (en_slot e) - 1)"
  obtain p1 where 1: "on_slot slot_leave env q (en_slot e) s = Some (s\<lparr>pm_places := (pm_places s)(q \<mapsto> p1)\<rparr>)" "same_place p p1"
    "place_ok (place_max s p) ?cnt1 p1"
    by (rule on_slot_leave [OF p(1) s(2) i(1) count_slots_pos [of v "pl_entries p" "slot_of s", OF p(2) sv]])
  let ?s2 = "upd_entry v (\<lambda>e. e\<lparr>en_slot := slot\<rparr>) (s\<lparr>pm_places := (pm_places s)(q \<mapsto> p1)\<rparr>)"
  have f1: "pl_positioner p1 = pl_positioner p" "pl_workspace p1 = pl_workspace p" "pl_entries p1 = pl_entries p"
    using 1(2) by (simp_all add: same_place_def)
  have ok: "place_ok (place_max ?s2 p1) ?cnt1 p1" using 1(3) f1(1) by (simp add: place_max_def upd_entry_def)
  obtain p' where p': "on_slot slot_enter env q slot ?s2 = Some (?s2\<lparr>pm_places := (pm_places ?s2)(q \<mapsto> p')\<rparr>)" "same_place p1 p'"
    "place_ok (place_max ?s2 p1) (?cnt1(slot := ?cnt1 slot + 1)) p'"
    by (rule on_slot_enter [OF _ s(2) ok, of q slot]) (simp_all add: upd_entry_def)
  let ?t = "upd_entry v (\<lambda>e. e\<lparr>en_slot := slot\<rparr>) (s\<lparr>pm_places := (pm_places s)(q \<mapsto> p')\<rparr>)"
  have f: "pl_positioner p' = pl_positioner p" "pl_workspace p' = pl_workspace p" "pl_entries p' = pl_entries p"
    using p'(2) f1 by (simp_all add: same_place_def)
  have e1: "pm_entries ?t = (pm_entries s)(v \<mapsto> e\<lparr>en_slot := slot\<rparr>)" using v by (simp add: upd_entry_def)
  have st: "same_pm s ?t" by (simp add: same_pm_def upd_entry_def)
  have mx: "place_max ?t p' = place_max s p" "place_max ?s2 p1 = place_max s p"
    using f(1) f1(1) by (simp_all add: place_max_def upd_entry_def)
  have "slot_of ?t = (slot_of s)(v := Some slot)" using e1 by (auto simp: slot_of_def fun_eq_iff)
  then have "count_slots (slot_of ?t) (pl_entries p') = ?cnt1(slot := ?cnt slot + 1)"
    using count_slots_change [of "pl_entries p" v "slot_of s" "en_slot e" slot] i(2) p(2) sv v(3) f(3) by simp
  then have "place_ok (place_max ?t p') (count_slots (slot_of ?t) (pl_entries p')) p'"
    using p'(3) mx v(3) by simp
  moreover have "\<exists>e. pm_entries ?t u = Some e \<and> en_place e = Some q \<and> en_slot e \<le> place_max s p" if "u \<in> set (pl_entries p')" for u
    using that i(3) [of u] f(3) e1 m [OF p(1)] v by (cases "u = v") auto
  ultimately have pi: "place_inv ?t q p'" using i(2) f(3) mx(1) by (simp add: place_inv_def)
  have "pm_inv ?t"
    by (rule pm_inv_change [where v = v, OF s(1) st _ _ p(1) f(1) pi])
      (use v e1 f(3) p(2) in \<open>auto simp: upd_entry_def split: if_splits\<close>)
  moreover have "place_update_entry env (Some q) v slot s = Some ?t"
    using v 1(1) p'(1) by (simp add: place_update_entry_def upd_place_def upd_entry_def)
  moreover have "changed_place q s ?t" by (rule changed_placeI [OF p(1) _ f(1,2)]) (simp add: upd_entry_def)
  ultimately show ?thesis using that st e1 by blast
qed

lemma update_entry_inv:
  assumes s: "pm_inv s" "pe_realloc env" and v: "pm_entries s v = Some e" "en_place e = Some q"
    and p: "pm_places s h = Some p" "slot \<le> place_max s p"
  obtains t where "place_update_entry env (Some h) v slot s = Some t" "pm_inv t" "same_pm s t" "keeps_places s t"
    "pm_entries t = (pm_entries s)(v \<mapsto> e\<lparr>en_slot := slot, en_place := Some h\<rparr>)"
proof -
  consider "h = q" "slot = en_slot e" | "h = q" "slot \<noteq> en_slot e" | "h \<noteq> q" by blast
  then show ?thesis
  proof cases
    case 1
    have "e\<lparr>en_slot := en_slot e, en_place := Some q\<rparr> = e" using v(2) by simp
    then have "pm_entries s = (pm_entries s)(v \<mapsto> e\<lparr>en_slot := slot, en_place := Some h\<rparr>)" using v(1) 1 by (simp add: fun_upd_idem)
    then show ?thesis using that [of s] s(1) v 1 by (simp add: place_update_entry_def)
  next
    case 2
    obtain t where t: "place_update_entry env (Some q) v slot s = Some t" "pm_inv t" "same_pm s t" "changed_place q s t"
      "pm_entries t = (pm_entries s)(v \<mapsto> e\<lparr>en_slot := slot\<rparr>)"
      by (rule update_entry_same [OF s v 2(2)]) (use p 2(1) in auto)
    have "e\<lparr>en_slot := slot, en_place := Some q\<rparr> = e\<lparr>en_slot := slot\<rparr>" using v(2) by simp
    then show ?thesis using that [of t] t 2(1) changed_keeps by simp
  next
    case 3
    obtain t where t: "place_remove_entry env q v s = Some t" "pm_inv t" "same_pm s t" "changed_place q s t"
      "pm_entries t = (pm_entries s)(v \<mapsto> e\<lparr>en_place := None, en_slot := -1\<rparr>)"
      by (rule remove_entry_inv [OF s v])
    have h: "pm_places t h = Some p" "slot \<le> place_max t p" using t(3,4) 3 p by (auto simp: changed_place_def same_pm_max)
    obtain u where u: "place_insert_entry env (Some h) v slot t = Some u" "pm_inv u" "same_pm t u" "changed_place h t u"
      "pm_entries u = (pm_entries t)(v \<mapsto> (e\<lparr>en_place := None, en_slot := -1\<rparr>)\<lparr>en_slot := slot, en_place := Some h\<rparr>)"
    proof (rule insert_entry_inv [OF t(2) s(2) _ _ h, of v "e\<lparr>en_place := None, en_slot := -1\<rparr>"])
      show "pm_entries t v = Some (e\<lparr>en_place := None, en_slot := -1\<rparr>)" using t(5) by simp
      show "en_place (e\<lparr>en_place := None, en_slot := -1\<rparr>) = None" by (cases e) simp
    qed
    have "(e\<lparr>en_place := None, en_slot := -1\<rparr>)\<lparr>en_slot := slot, en_place := Some h\<rparr> = e\<lparr>en_slot := slot, en_place := Some h\<rparr>"
      by (cases e) simp
    then have eu: "pm_entries u = (pm_entries s)(v \<mapsto> e\<lparr>en_slot := slot, en_place := Some h\<rparr>)" using u(5) t(5) by simp
    show ?thesis
      by (rule that [of u])
        (use update_entry_other [OF v 3] t(1) u(1,2) same_pm_trans [OF t(3) u(3)] eu
          keeps_places_trans [OF changed_keeps [OF t(4)] changed_keeps [OF u(4)]] in simp_all)
  qed
qed

subsection \<open>Places and signals\<close>

lemma pos_inv_max: "pos_inv pos \<Longrightarrow> 0 \<le> max_slot pos"
  using grid_max_nonneg by (auto simp: pos_inv_def pos_ok_def)

lemma pm_inv_pos: "pm_inv s \<Longrightarrow> pos_inv (pm_pos s h)"
  by (simp add: pm_inv_def)

text \<open>What the handlers of views leave alone: of the positioners only the lists of places change.\<close>

definition frame_pm :: "positioner_manager \<Rightarrow> positioner_manager \<Rightarrow> bool" where
  "frame_pm s t \<longleftrightarrow> pm_positioners t = pm_positioners s \<and> pm_next_pos t = pm_next_pos s \<and>
     (\<forall>h. (pm_pos t h)\<lparr>places := []\<rparr> = (pm_pos s h)\<lparr>places := []\<rparr>)"

lemma frame_pm_refl [simp]: "frame_pm s s"
  by (simp add: frame_pm_def)

lemma frame_pm_trans: "frame_pm s t \<Longrightarrow> frame_pm t u \<Longrightarrow> frame_pm s u"
  by (simp add: frame_pm_def)

lemma same_frame: "same_pm s t \<Longrightarrow> frame_pm s t"
  by (simp add: same_pm_def frame_pm_def)

lemma frame_pos:
  assumes "frame_pm s t"
  shows "max_slot (pm_pos t h) = max_slot (pm_pos s h)" "pos_inv (pm_pos t h) = pos_inv (pm_pos s h)"
    "pos_set (pm_pos t h) = pos_set (pm_pos s h)" "po_output (pm_pos t h) = po_output (pm_pos s h)"
    "catcher_positioners (pm_pos t h) = catcher_positioners (pm_pos s h)" "po_usable (pm_pos t h) = po_usable (pm_pos s h)"
proof -
  obtain qs where e: "pm_pos t h = (pm_pos s h)\<lparr>places := qs\<rparr>"
    using assms positioner.surjective [of "pm_pos t h"] positioner.surjective [of "pm_pos s h"]
    unfolding frame_pm_def by (metis positioner.surjective positioner.update_convs(1))
  show "max_slot (pm_pos t h) = max_slot (pm_pos s h)" "pos_inv (pm_pos t h) = pos_inv (pm_pos s h)"
    "pos_set (pm_pos t h) = pos_set (pm_pos s h)" "po_output (pm_pos t h) = po_output (pm_pos s h)"
    "catcher_positioners (pm_pos t h) = catcher_positioners (pm_pos s h)" "po_usable (pm_pos t h) = po_usable (pm_pos s h)"
    by (simp_all add: e pos_inv_def pos_ok_def grid_ok_def pos_set_def)
qed

lemma get_place_inv:
  assumes s: "pm_inv s" "pe_realloc env" and h: "h \<in> set (pm_positioners s)" and r: "positioner_get_place env (Some h) v s = (r, t)"
  shows "pm_inv t" "frame_pm s t" "pm_entries t = pm_entries s" "pm_views t = pm_views s" "keeps_places s t"
    "\<And>q. r = Some q \<Longrightarrow> \<exists>p. pm_places t q = Some p \<and> pl_positioner p = h"
proof -
  let ?ws = "pe_workspace env (current_proxy (pm_views s v))"
  let ?find = "find (\<lambda>q. map_option pl_workspace (pm_places s q) = Some ?ws) (places (pm_pos s h))"
  let ?m = "max_slot (pm_pos s h)"
  have m: "0 \<le> ?m" "0 \<le> min 31 (?m sdiv 4)" "min 31 (?m sdiv 4) \<le> ?m"
    using pos_inv_max [OF pm_inv_pos [OF s(1)], of h] by (auto simp: sdiv_nonneg)
  obtain p where p: "place_find_slot True ?m (min 31 (?m sdiv 4)) (new_place ?ws h) = Some p" "place_ok ?m (\<lambda>_. 0) p"
    "same_place (new_place ?ws h) p"
    by (rule place_ok_find [OF place_ok_new m(2,3)]) (use m(1) in simp)
  let ?q = "pm_next_place s"
  let ?t = "upd_pos h (\<lambda>pos. pos\<lparr>places := ?q # places pos\<rparr>) (s\<lparr>pm_places := (pm_places s)(?q \<mapsto> p), pm_next_place := ?q + 1\<rparr>)"
  have pp: "pl_positioner p = h" "pl_entries p = []" using p(3) by (simp_all add: same_place_def new_place_def)
  consider "t = s" "r = None" | q where "t = s" "?find = Some q" "r = Some q" | "t = ?t" "r = Some ?q"
    using r p(1) s(2)
    by (auto simp: positioner_get_place_def Let_def split: if_splits option.splits)
  then have "pm_inv t \<and> frame_pm s t \<and> pm_entries t = pm_entries s \<and> pm_views t = pm_views s \<and> keeps_places s t \<and>
    (\<forall>q. r = Some q \<longrightarrow> (\<exists>p. pm_places t q = Some p \<and> pl_positioner p = h))"
  proof cases
    case 2
    have "q \<in> set (places (pm_pos s h))" using 2(2) by (auto simp: find_Some_iff)
    then show ?thesis using 2 s(1) by (auto simp: pm_inv_def)
  next
    case 3
    have new: "pm_places s ?q = None" using s(1) unfolding pm_inv_def by (metis less_irrefl not_None_eq)
    have fr: "frame_pm s ?t" by (simp add: frame_pm_def upd_pos_def)
    have mx: "place_max ?t p1 = place_max s p1" for p1 using frame_pos(1) [OF fr] by (simp add: place_max_def)
    have "place_inv ?t q1 p1 \<and> q1 < pm_next_place ?t" if q1: "pm_places ?t q1 = Some p1" for q1 p1
    proof (cases "q1 = ?q")
      case True
      have "count_slots (slot_of ?t) [] = (\<lambda>_. 0)" by (auto simp: count_slots_def)
      then show ?thesis using True q1 p(2) pp mx [of p] by (auto simp: place_inv_def upd_pos_def place_max_def)
    next
      case False
      then have "pm_places s q1 = Some p1" using q1 by (simp add: upd_pos_def)
      then have "place_inv s q1 p1" "q1 < ?q" using s(1) by (auto simp: pm_inv_def)
      then show ?thesis using place_inv_frame [of s q1 p1 ?t] mx by (simp add: upd_pos_def)
    qed
    moreover have "\<exists>p1. pm_places ?t q1 = Some p1 \<and> u \<in> set (pl_entries p1)"
      if ue: "pm_entries ?t u = Some e1" "en_place e1 = Some q1" for u e1 q1
    proof -
      obtain p1 where "pm_places s q1 = Some p1" "u \<in> set (pl_entries p1)"
        using pm_inv_entry [OF s(1), of u e1 q1] ue by (auto simp: upd_pos_def)
      then show ?thesis using new by (intro exI [of _ p1]) (auto simp: upd_pos_def)
    qed
    moreover have "\<exists>p1. pm_places ?t q1 = Some p1 \<and> pl_positioner p1 = h1" if "q1 \<in> set (places (pm_pos ?t h1))" for h1 q1
    proof (cases "q1 = ?q")
      case True
      have "?q \<notin> set (places (pm_pos s h1))" using s(1) new unfolding pm_inv_def by (metis option.distinct(1))
      then show ?thesis using that True pp(1) by (auto simp: upd_pos_def split: if_splits)
    next
      case False
      then have "q1 \<in> set (places (pm_pos s h1))" using that by (auto simp: upd_pos_def split: if_splits)
      then obtain p1 where "pm_places s q1 = Some p1" "pl_positioner p1 = h1" using s(1) unfolding pm_inv_def by blast
      then show ?thesis using False by (simp add: upd_pos_def)
    qed
    moreover have "(\<forall>h. pos_inv (pm_pos ?t h)) \<and> (\<forall>h \<in> set (pm_positioners ?t). pos_set (pm_pos ?t h) \<and> h < pm_next_pos ?t)"
      using s(1) fr frame_pos(2,3) [OF fr] by (simp add: pm_inv_def frame_pm_def)
    moreover have "pl_positioner p1 \<in> set (pm_positioners ?t)" if "pm_places ?t q1 = Some p1" for q1 p1
      using that s(1) h pp(1) by (auto simp: pm_inv_def upd_pos_def split: if_splits)
    ultimately have "pm_inv ?t" unfolding pm_inv_def by blast
    moreover have "keeps_places s ?t" using new by (auto simp: keeps_places_def upd_pos_def)
    ultimately show ?thesis using 3 fr pp(1) by (simp add: upd_pos_def)
  qed (use s(1) in simp)
  then show "pm_inv t" "frame_pm s t" "pm_entries t = pm_entries s" "pm_views t = pm_views s" "keeps_places s t"
    "\<And>q. r = Some q \<Longrightarrow> \<exists>p. pm_places t q = Some p \<and> pl_positioner p = h" by blast+
qed

text \<open>The decoration of a view is smaller than a cell, and the implementation of a view keeps it so.\<close>

definition margins_ok :: "view \<Rightarrow> bool" where
  "margins_ok w \<longleftrightarrow> 0 \<le> off_x (base w) \<and> off_x (base w) < 50 \<and> 0 \<le> off_y (base w) \<and> off_y (base w) < 50"

definition env_ok :: "positioner_env \<Rightarrow> bool" where
  "env_ok env \<longleftrightarrow> pe_realloc env \<and>
     (\<forall>v f w w'. pe_impl env v = Some f \<longrightarrow> f w = Some w' \<longrightarrow> margins_ok w \<longrightarrow> margins_ok w')"

definition pm_good :: "positioner_manager \<Rightarrow> bool" where
  "pm_good s \<longleftrightarrow> pm_inv s \<and> (\<forall>v. margins_ok (pm_views s v))"

text \<open>What a handler of one view may do to the entries.\<close>

definition only_entry :: "ptr \<Rightarrow> positioner_manager \<Rightarrow> positioner_manager \<Rightarrow> bool" where
  "only_entry v s t \<longleftrightarrow> frame_pm s t \<and> (\<forall>u. u \<noteq> v \<longrightarrow> pm_entries t u = pm_entries s u)"

lemma find_positioner_mem: "find_positioner env out s hs = Some (Some h) \<Longrightarrow> h \<in> set hs"
  by (induction hs) (auto split: if_splits)

lemma calc_slot_bound:
  assumes "pm_inv s" "h \<in> set (pm_positioners s)" "margins_ok w"
  shows "(case positioner_calc_slot (pm_pos s h) (base w) of None \<Rightarrow> -1 | Some slot \<Rightarrow> slot) \<le> max_slot (pm_pos s h)"
proof (cases "positioner_calc_slot (pm_pos s h) (base w)")
  case None
  then show ?thesis using pos_inv_max [OF pm_inv_pos [OF assms(1)], of h] by simp
next
  case (Some slot)
  have i: "pos_inv (pm_pos s h)" "pos_set (pm_pos s h)" using assms(1,2) by (auto simp: pm_inv_def)
  have "grid_area (pm_pos s h) \<noteq> zero_box"
    using Some by (auto simp: positioner_calc_slot_def kywc_box_contains_point_def zero_box_def split: if_splits)
  then have "grid_ok (pm_pos s h)" using i(1) by (auto simp: pos_inv_def pos_ok_def)
  then show ?thesis using calc_slot_range [OF _ Some] i(2) assms(3) Some by (simp add: pos_set_def margins_ok_def)
qed

text \<open>The entry of a view that is in no place can change freely as long as it stays in none.\<close>

lemma pm_inv_free_entry:
  assumes s: "pm_inv s" and t: "same_pm s t" "pm_places t = pm_places s" "\<And>u. u \<noteq> v \<Longrightarrow> pm_entries t u = pm_entries s u"
    and v: "\<And>e. pm_entries s v = Some e \<Longrightarrow> en_place e = None" "\<And>e. pm_entries t v = Some e \<Longrightarrow> en_place e = None"
  shows "pm_inv t"
proof -
  have "place_inv t q p" if q: "pm_places s q = Some p" for q p
  proof -
    have i: "place_inv s q p" using s q by (auto simp: pm_inv_def)
    have "v \<notin> set (pl_entries p)" using v(1) pm_inv_place(3) [OF s q, of v] by auto
    then show ?thesis by (intro place_inv_frame [OF i same_pm_max [OF t(1)]] t(3)) auto
  qed
  moreover have "\<exists>p. pm_places s q = Some p \<and> u \<in> set (pl_entries p)" if "pm_entries t u = Some e" "en_place e = Some q" for u e q
  proof -
    have "u \<noteq> v" using that v(2) by force
    then have "pm_entries s u = Some e" using that(1) t(3) by simp
    then show ?thesis using pm_inv_entry [OF s _ that(2)] by blast
  qed
  ultimately show ?thesis using s t(1,2) unfolding pm_inv_def same_pm_def by simp
qed

text \<open>A flag of an entry changes nothing of the invariant.\<close>

lemma pm_inv_flag:
  assumes s: "pm_inv s" and f: "\<And>e. en_place (f e) = en_place e" "\<And>e. en_slot (f e) = en_slot e"
  shows "pm_inv (upd_entry v f s)"
proof -
  let ?t = "upd_entry v f s"
  have e: "map_option en_place (pm_entries ?t u) = map_option en_place (pm_entries s u)" "slot_of ?t u = slot_of s u" for u
    using f by (auto simp: upd_entry_def slot_of_def option.map_comp comp_def)
  have "slot_of ?t = slot_of s" using e(2) by (simp add: fun_eq_iff)
  moreover have "(\<exists>e1. pm_entries ?t u = Some e1 \<and> en_place e1 = q \<and> en_slot e1 \<le> m) =
      (\<exists>e1. pm_entries s u = Some e1 \<and> en_place e1 = q \<and> en_slot e1 \<le> m)" for u q m
    using f by (auto simp: upd_entry_def)
  ultimately have "place_inv ?t q p = place_inv s q p" for q p by (simp add: place_inv_def place_max_def upd_entry_def)
  moreover have "\<exists>p. pm_places s q = Some p \<and> u \<in> set (pl_entries p)" if "pm_entries ?t u = Some e1" "en_place e1 = Some q" for u e1 q
  proof -
    have "\<exists>e2. pm_entries s u = Some e2 \<and> en_place e2 = Some q" using that f by (auto simp: upd_entry_def split: if_splits)
    then show ?thesis using pm_inv_entry [OF s] by blast
  qed
  moreover have "pm_places ?t = pm_places s" "pm_pos ?t = pm_pos s" "pm_positioners ?t = pm_positioners s"
    "pm_next_place ?t = pm_next_place s" "pm_next_pos ?t = pm_next_pos s" by (simp_all add: upd_entry_def)
  ultimately show ?thesis using s unfolding pm_inv_def by simp
qed

lemma position_inv:
  assumes s: "pm_good s" "env_ok env" and r: "entry_handle_view_position env v s = Some t"
  shows "pm_good t \<and> only_entry v s t"
proof -
  obtain e where e: "pm_entries s v = Some e" using r by (auto simp: entry_handle_view_position_def bind_eq_Some_conv)
  let ?w = "pm_views s v"
  have i: "pm_inv s" "pe_realloc env" "margins_ok ?w" using s by (auto simp: pm_good_def env_ok_def)
  show ?thesis
  proof (cases "\<not> mapped (base ?w) \<or> skip_update e")
    case True
    then have "t = s \<or> t = upd_entry v (\<lambda>e. e\<lparr>skip_update := False\<rparr>) s"
      using r e by (auto simp: entry_handle_view_position_def Let_def split: if_splits)
    then show ?thesis
      using s(1) pm_inv_flag [OF i(1), of "\<lambda>e. e\<lparr>skip_update := False\<rparr>" v]
      by (auto simp: pm_good_def only_entry_def frame_pm_def upd_entry_def)
  next
    case False
    define lx ly where "lx = box_x (geometry (base ?w)) - off_x (base ?w)" and "ly = box_y (geometry (base ?w)) - off_y (base ?w)"
    define out where "out = (if kywc_box_contains_point (out_geometry (get_output (pe_outputs env) (v_output ?w))) lx ly
      then v_output ?w else output_at_point (pe_outputs env) lx ly)"
    have r': "Option.bind (positioner_from_output env out s) (\<lambda>pos. let (place, s) = positioner_get_place env pos v s
        in Option.bind pos (\<lambda>h. place_update_entry env place v
          (case positioner_calc_slot (pm_pos s h) (base ?w) of None \<Rightarrow> -1 | Some slot \<Rightarrow> slot) s)) = Some t"
      using r e False unfolding out_def lx_def ly_def by (simp add: entry_handle_view_position_def Let_def split del: if_split)
    then obtain pos where pos: "positioner_from_output env out s = Some pos" by (auto simp: bind_eq_Some_conv)
    obtain place s1 where ps: "positioner_get_place env pos v s = (place, s1)" by fastforce
    obtain h where h: "positioner_from_output env out s = Some (Some h)" "positioner_get_place env (Some h) v s = (place, s1)"
      and u: "place_update_entry env place v (case positioner_calc_slot (pm_pos s1 h) (base ?w) of None \<Rightarrow> -1 | Some slot \<Rightarrow> slot) s1 = Some t"
      using r' pos ps by (cases pos) (simp_all add: Let_def)
    have hm: "h \<in> set (pm_positioners s)" using h(1) find_positioner_mem by (auto simp: positioner_from_output_def)
    note g = get_place_inv [OF i(1,2) hm h(2)]
    let ?slot = "case positioner_calc_slot (pm_pos s1 h) (base ?w) of None \<Rightarrow> -1 | Some slot \<Rightarrow> slot"
    have hm1: "h \<in> set (pm_positioners s1)" using hm g(2) by (simp add: frame_pm_def)
    have sl: "?slot \<le> max_slot (pm_pos s1 h)" by (rule calc_slot_bound [OF g(1) hm1 i(3)])
    have e1: "pm_entries s1 v = Some e" using e g(3) by simp
    show ?thesis
    proof (cases "place = en_place e \<and> ?slot = en_slot e")
      case True
      then have "t = s1" using u e1 by (simp add: place_update_entry_def)
      then show ?thesis using g s(1) by (auto simp: pm_good_def only_entry_def)
    next
      case False
      then obtain old q where q: "en_place e = Some old" "place = Some q"
        using u e1 by (auto simp: place_update_entry_def bind_eq_Some_conv)
      obtain p where p: "pm_places s1 q = Some p" "pl_positioner p = h" using g(6) q(2) by blast
      have "?slot \<le> place_max s1 p" using sl p(2) by (simp add: place_max_def)
      then obtain t' where t': "place_update_entry env (Some q) v ?slot s1 = Some t'" "pm_inv t'" "same_pm s1 t'"
        "pm_entries t' = (pm_entries s1)(v \<mapsto> e\<lparr>en_slot := ?slot, en_place := Some q\<rparr>)"
        by (rule update_entry_inv [OF g(1) i(2) e1 q(1) p(1)]) blast
      then have "t = t'" using u q(2) by simp
      then show ?thesis
        using t' g s(1) frame_pm_trans [OF g(2) same_frame [OF t'(3)]] by (auto simp: pm_good_def only_entry_def same_pm_def)
    qed
  qed
qed

lemma good_parts: "pm_good s \<Longrightarrow> pm_inv s" "env_ok env \<Longrightarrow> pe_realloc env"
  by (simp_all add: pm_good_def env_ok_def)

lemma good_same: "pm_good s \<Longrightarrow> pm_inv t \<Longrightarrow> pm_views t = pm_views s \<Longrightarrow> pm_good t"
  by (simp add: pm_good_def)

lemma minimize_inv:
  assumes s: "pm_good s" "env_ok env" and r: "entry_handle_view_minimize env v s = Some t"
  shows "pm_good t"
proof -
  obtain e where e: "pm_entries s v = Some e" using r by (auto simp: entry_handle_view_minimize_def bind_eq_Some_conv)
  note i = good_parts(1) [OF s(1)] good_parts(2) [OF s(2)]
  consider "t = s" | "place_update_entry env (en_place e) v (-1) s = Some t" | "entry_handle_view_position env v s = Some t"
    using r e
    by (cases "mapped (base (pm_views s v))"; cases "minimized (base (pm_views s v))") (simp_all add: entry_handle_view_minimize_def)
  then show ?thesis
  proof cases
    case 2
    show ?thesis
    proof (cases "en_place e")
      case None
      then have "t = s" using 2 e by (auto simp: place_update_entry_def split: if_splits)
      then show ?thesis using s(1) by simp
    next
      case (Some q)
      obtain p where p: "pm_places s q = Some p" by (rule pm_inv_entry [OF i(1) e Some])
      have "-1 \<le> place_max s p" using pos_inv_max [OF pm_inv_pos [OF i(1)], of "pl_positioner p"] by (simp add: place_max_def)
      then obtain t' where "place_update_entry env (Some q) v (-1) s = Some t'" "pm_inv t'" "same_pm s t'"
        by (rule update_entry_inv [OF i e Some p])
      then show ?thesis using 2 Some good_same [OF s(1), of t'] by (simp add: same_pm_def)
    qed
  next
    case 3
    then show ?thesis using position_inv [OF s] by blast
  qed (use s in simp)
qed

lemma unmap_inv:
  assumes s: "pm_good s" "env_ok env" and r: "entry_handle_view_unmap env v s = Some t"
  shows "pm_good t"
proof -
  obtain e where e: "pm_entries s v = Some e" using r by (auto simp: entry_handle_view_unmap_def bind_eq_Some_conv)
  note i = good_parts(1) [OF s(1)] good_parts(2) [OF s(2)]
  obtain s1 where s1: "(case en_place e of None \<Rightarrow> Some s | Some h \<Rightarrow> place_remove_entry env h v s) = Some s1"
    "t = s1\<lparr>pm_entries := (pm_entries s1)(v := None)\<rparr>"
    using r e by (auto simp: entry_handle_view_unmap_def bind_eq_Some_conv)
  have "pm_inv s1 \<and> same_pm s s1 \<and> (\<forall>e1. pm_entries s1 v = Some e1 \<longrightarrow> en_place e1 = None)"
  proof (cases "en_place e")
    case None
    then show ?thesis using s1 i e by simp
  next
    case (Some q)
    obtain t where t: "place_remove_entry env q v s = Some t" "pm_inv t" "same_pm s t"
      "pm_entries t = (pm_entries s)(v \<mapsto> e\<lparr>en_place := None, en_slot := -1\<rparr>)"
      by (rule remove_entry_inv [OF i e Some])
    have "en_place (e\<lparr>en_place := None, en_slot := -1\<rparr>) = None" by (cases e) simp
    then show ?thesis using t s1(1) Some by simp
  qed
  then have 1: "pm_inv s1" "same_pm s s1" "\<And>e1. pm_entries s1 v = Some e1 \<Longrightarrow> en_place e1 = None" by auto
  have "pm_inv t" by (rule pm_inv_free_entry [OF 1(1), of t v]) (use 1(3) s1(2) in auto)
  then show ?thesis using good_same [OF s(1)] 1(2) s1(2) by (simp add: same_pm_def)
qed

lemma workspace_leave_inv:
  assumes s: "pm_good s" "env_ok env" and e: "pm_entries s v = Some e"
    and r: "(case en_place e of None \<Rightarrow> Some (upd_entry v (\<lambda>e. e\<lparr>en_listening := False\<rparr>) s)
        | Some h \<Rightarrow> place_remove_entry env h v (upd_entry v (\<lambda>e. e\<lparr>en_listening := False\<rparr>) s)) = Some t"
  shows "pm_good t"
proof -
  let ?s1 = "upd_entry v (\<lambda>e. e\<lparr>en_listening := False\<rparr>) s"
  have 1: "pm_inv ?s1" by (rule pm_inv_flag [OF good_parts(1) [OF s(1)]]) simp_all
  show ?thesis
  proof (cases "en_place e")
    case None
    then have "t = ?s1" using r by simp
    then show ?thesis using good_same [OF s(1) 1] by (simp add: upd_entry_def)
  next
    case (Some q)
    obtain t' where t': "place_remove_entry env q v ?s1 = Some t'" "pm_inv t'" "same_pm ?s1 t'"
      by (rule remove_entry_inv [OF 1 good_parts(2) [OF s(2)], of v "e\<lparr>en_listening := False\<rparr>" q]) (use e Some in \<open>auto simp: upd_entry_def\<close>)
    then show ?thesis using r Some good_same [OF s(1), of t'] by (simp add: same_pm_def upd_entry_def)
  qed
qed

text \<open>A view that comes back to a workspace is put into a place, with no slot.\<close>

lemma workspace_enter_inv:
  assumes s: "pm_good s" "env_ok env" and e: "pm_entries s v = Some e" "en_place e = None"
    and r: "positioner_from_output env out (upd_entry v (\<lambda>e. e\<lparr>en_listening := True\<rparr>) s) = Some pos"
      "positioner_get_place env pos v (upd_entry v (\<lambda>e. e\<lparr>en_listening := True\<rparr>) s) = (place, s1)"
      "place_insert_entry env place v (-1) s1 = Some t"
  shows "pm_inv t \<and> pm_views t = pm_views s"
proof -
  let ?s0 = "upd_entry v (\<lambda>e. e\<lparr>en_listening := True\<rparr>) s"
  have i: "pm_inv ?s0" by (rule pm_inv_flag [OF good_parts(1) [OF s(1)]]) simp_all
  have re: "pe_realloc env" by (rule good_parts(2) [OF s(2)])
  obtain q where q: "place = Some q" using r(3) by (cases place) (auto simp: place_insert_entry_def Let_def)
  then obtain h where h: "pos = Some h" using r(2) by (cases pos) (auto simp: positioner_get_place_def)
  have hm: "h \<in> set (pm_positioners ?s0)" using r(1) h find_positioner_mem by (auto simp: positioner_from_output_def)
  note g = get_place_inv [OF i re hm r(2) [unfolded h]]
  obtain p where p: "pm_places s1 q = Some p" "pl_positioner p = h" using g(6) q by blast
  have m: "-1 \<le> place_max s1 p" using pos_inv_max [OF pm_inv_pos [OF g(1)], of "pl_positioner p"] by (simp add: place_max_def)
  have e1: "pm_entries s1 v = Some (e\<lparr>en_listening := True\<rparr>)" "en_place (e\<lparr>en_listening := True\<rparr>) = None"
    using g(3) e by (simp_all add: upd_entry_def)
  obtain t' where "place_insert_entry env (Some q) v (-1) s1 = Some t'" "pm_inv t'" "same_pm s1 t'"
    by (rule insert_entry_inv [OF g(1) re e1 p(1) m])
  then show ?thesis using r(3) q g(4) by (simp add: same_pm_def upd_entry_def)
qed

lemma workspace_inv:
  assumes s: "pm_good s" "env_ok env" and r: "entry_handle_view_workspace env v s = Some t"
  shows "pm_good t"
proof -
  obtain e where e: "pm_entries s v = Some e" using r by (auto simp: entry_handle_view_workspace_def bind_eq_Some_conv)
  let ?w = "pm_views s v"
  let ?s0 = "upd_entry v (\<lambda>e. e\<lparr>en_listening := True\<rparr>) s"
  have re: "pe_realloc env" by (rule good_parts(2) [OF s(2)])
  consider "current_proxy ?w = NULL" | "current_proxy ?w \<noteq> NULL" "\<not> mapped (base ?w)" | "current_proxy ?w \<noteq> NULL" "mapped (base ?w)" by blast
  then show ?thesis
  proof cases
    case 1
    then show ?thesis using workspace_leave_inv [OF s e] r e by (simp add: entry_handle_view_workspace_def Let_def)
  next
    case 2
    then show ?thesis using r e s(1) by (simp add: entry_handle_view_workspace_def Let_def)
  next
    case 3
    have "Option.bind (if en_place e = None then do {
               pos \<leftarrow> positioner_from_output env (v_output ?w) ?s0;
               let (place, s) = positioner_get_place env pos v ?s0;
               place_insert_entry env place v (-1) s}
             else Some s) (\<lambda>s2. do { e \<leftarrow> pm_entries s2 v; h \<leftarrow> en_place e; p \<leftarrow> pm_places s2 h;
        let (new, s) = positioner_get_place env (Some (pl_positioner p)) v s2; place_update_entry env new v (en_slot e) s}) = Some t"
      using r e 3 by (simp add: entry_handle_view_workspace_def Let_def split del: if_split cong: if_cong)
    then obtain s2 where s2: "(if en_place e = None then do {
               pos \<leftarrow> positioner_from_output env (v_output ?w) ?s0;
               let (place, s) = positioner_get_place env pos v ?s0;
               place_insert_entry env place v (-1) s}
             else Some s) = Some s2"
      and r2: "do { e \<leftarrow> pm_entries s2 v; h \<leftarrow> en_place e; p \<leftarrow> pm_places s2 h;
        let (new, s) = positioner_get_place env (Some (pl_positioner p)) v s2; place_update_entry env new v (en_slot e) s} = Some t"
      by (blast dest: bind_eq_Some_conv [THEN iffD1])
    have i2: "pm_inv s2 \<and> pm_views s2 = pm_views s"
    proof (cases "en_place e")
      case None
      then obtain pos where pos: "positioner_from_output env (v_output ?w) ?s0 = Some pos" using s2 by (auto simp: bind_eq_Some_conv)
      obtain place s1 where g: "positioner_get_place env pos v ?s0 = (place, s1)" by fastforce
      have "place_insert_entry env place v (-1) s1 = Some s2" using s2 None pos g by simp
      then show ?thesis using workspace_enter_inv [OF s e None pos g] by simp
    qed (use s2 s(1) in \<open>simp add: pm_good_def\<close>)
    obtain e2 h p where e2: "pm_entries s2 v = Some e2" "en_place e2 = Some h" "pm_places s2 h = Some p"
      using r2 by (auto simp: bind_eq_Some_conv)
    obtain new s3 where g: "positioner_get_place env (Some (pl_positioner p)) v s2 = (new, s3)" by fastforce
    have pm: "pl_positioner p \<in> set (pm_positioners s2)" using i2 e2(3) by (auto simp: pm_inv_def)
    note g' = get_place_inv [OF conjunct1 [OF i2] re pm g]
    have u: "place_update_entry env new v (en_slot e2) s3 = Some t" using r2 e2 g by simp
    have e3: "pm_entries s3 v = Some e2" using e2(1) g'(3) by simp
    show ?thesis
    proof (cases new)
      case None
      then show ?thesis using u e3 e2(2) by (auto simp: place_update_entry_def bind_eq_Some_conv)
    next
      case (Some q)
      obtain p1 where p1: "pm_places s3 q = Some p1" "pl_positioner p1 = pl_positioner p" using g'(6) Some by blast
      have "en_slot e2 \<le> place_max s2 p" using pm_inv_entry [OF conjunct1 [OF i2] e2(1,2)] e2(3) by auto
      then have sl: "en_slot e2 \<le> place_max s3 p1" using p1(2) frame_pos(1) [OF g'(2)] by (simp add: place_max_def)
      obtain t' where "place_update_entry env (Some q) v (en_slot e2) s3 = Some t'" "pm_inv t'" "same_pm s3 t'"
        by (rule update_entry_inv [OF g'(1) re e3 e2(2) p1(1) sl])
      then show ?thesis using u Some good_same [OF s(1), of t'] g'(4) i2 by (simp add: same_pm_def)
    qed
  qed
qed

subsection \<open>Moving views\<close>

lemma slot_of_cong: "pm_entries t = pm_entries s \<Longrightarrow> slot_of t = slot_of s"
  by (simp add: slot_of_def fun_eq_iff)

lemma pm_inv_views [simp]: "pm_inv (s\<lparr>pm_views := f\<rparr>) \<longleftrightarrow> pm_inv s"
  by (simp add: pm_inv_def place_inv_def place_max_def slot_of_cong [of "s\<lparr>pm_views := f\<rparr>" s])

lemma only_entry_refl [simp]: "only_entry v s s"
  by (simp add: only_entry_def)

lemma only_entry_trans: "only_entry v s t \<Longrightarrow> only_entry v t u \<Longrightarrow> only_entry v s u"
  by (auto simp: only_entry_def intro: frame_pm_trans)

lemma deliver_inv:
  assumes "pm_good s" "env_ok env" "deliver env v sigs s = Some t"
  shows "pm_good t \<and> only_entry v s t"
  using assms(1,3)
proof (induction sigs arbitrary: s)
  case (Cons sig sigs)
  obtain s1 where s1: "(if sig = SigPosition \<and> map_option en_listening (pm_entries s v) = Some True
      then entry_handle_view_position env v s else Some s) = Some s1" "deliver env v sigs s1 = Some t"
    using Cons.prems(2) by (auto simp: bind_eq_Some_conv)
  have "pm_good s1 \<and> only_entry v s s1"
    using s1(1) Cons.prems(1) position_inv [OF Cons.prems(1) assms(2)] by (auto split: if_splits)
  then show ?case using Cons.IH [of s1] s1(2) only_entry_trans by blast
qed simp

definition keeps_margins :: "(view \<Rightarrow> view option) \<Rightarrow> bool" where
  "keeps_margins f \<longleftrightarrow> (\<forall>w w'. f w = Some w' \<longrightarrow> margins_ok w \<longrightarrow> margins_ok w')"

lemma change_view_inv:
  assumes s: "pm_good s" "env_ok env" and f: "keeps_margins f" and r: "change_view env v f s = Some t"
  shows "pm_good t \<and> only_entry v s t"
proof -
  obtain w where w: "f (pm_views s v) = Some w"
    "deliver env v (drop (length (emitted (pm_views s v))) (emitted w)) (s\<lparr>pm_views := (pm_views s)(v := w)\<rparr>) = Some t"
    using r by (auto simp: change_view_def bind_eq_Some_conv)
  have "margins_ok w" using w(1) f s(1) by (auto simp: keeps_margins_def pm_good_def)
  then have g: "pm_good (s\<lparr>pm_views := (pm_views s)(v := w)\<rparr>)" using s(1) by (simp add: pm_good_def)
  moreover have "only_entry v s (s\<lparr>pm_views := (pm_views s)(v := w)\<rparr>)" by (simp add: only_entry_def frame_pm_def)
  ultimately show ?thesis using deliver_inv [OF g s(2) w(2)] only_entry_trans by blast
qed

lemma call_configure_margins:
  assumes "env_ok env" "call_configure (pe_impl env v) w = Some w'" "margins_ok w"
  shows "margins_ok w'"
  using assms by (auto simp: call_configure_def env_ok_def split: if_splits option.splits)

lemma margins_upd [simp]:
  "margins_ok (upd_pending f w) = margins_ok w" "margins_ok (add_action a w) = margins_ok w"
  "margins_ok (set_pending_geometry g w) = margins_ok w" "margins_ok (w\<lparr>saved_geometry := g\<rparr>) = margins_ok w"
  by (simp_all add: margins_ok_def upd_pending_def add_action_def set_pending_geometry_def)

lemma view_ops_margins:
  assumes "env_ok env"
  shows "keeps_margins (\<lambda>w. view_do_move (pe_impl env v) w x y)" "keeps_margins (\<lambda>w. view_do_resize (pe_impl env v) w g)"
    "keeps_margins (\<lambda>w. view_move_to_output (pe_round env) (pe_outputs env) (pe_impl env v) (pe_movable env v) w b dst)"
proof -
  show m: "keeps_margins (\<lambda>w. view_do_move (pe_impl env v) w x y)" for x y
    using call_configure_margins [OF assms] by (fastforce simp: keeps_margins_def view_do_move_def)
  show r: "keeps_margins (\<lambda>w. view_do_resize (pe_impl env v) w g)" for g
    using call_configure_margins [OF assms] by (fastforce simp: keeps_margins_def view_do_resize_def)
  have m': "view_do_move (pe_impl env v) w x y = Some w' \<Longrightarrow> margins_ok w \<Longrightarrow> margins_ok w'" for w w' x y
    using m unfolding keeps_margins_def by blast
  have r': "view_do_resize (pe_impl env v) w g = Some w' \<Longrightarrow> margins_ok w \<Longrightarrow> margins_ok w'" for w w' g
    using r unfolding keeps_margins_def by blast
  show "keeps_margins (\<lambda>w. view_move_to_output (pe_round env) (pe_outputs env) (pe_impl env v) (pe_movable env v) w b dst)"
    unfolding keeps_margins_def view_move_to_output_def Let_def by (auto dest!: m' r' split: if_splits)
qed

lemma move_entries_inv:
  assumes "env_ok env"
  shows "pm_good s \<Longrightarrow> move_entries env src dst skip vs s = Some t \<Longrightarrow> pm_good t \<and> frame_pm s t"
proof (induction vs arbitrary: s)
  case (Cons v vs)
  let ?s1 = "upd_entry v (\<lambda>e. e\<lparr>skip_update := skip\<rparr>) s"
  obtain s2 where s2: "change_view env v (\<lambda>w. view_move_to_output (pe_round env) (pe_outputs env) (pe_impl env v) (pe_movable env v) w (Some src) dst) ?s1 = Some s2"
    "move_entries env src dst skip vs s2 = Some t"
    using Cons.prems(2) by (auto simp: Let_def bind_eq_Some_conv)
  have i1: "pm_inv ?s1" by (rule pm_inv_flag [OF good_parts(1) [OF Cons.prems(1)]]) simp_all
  have 1: "pm_good ?s1" by (rule good_same [OF Cons.prems(1) i1]) (simp add: upd_entry_def)
  have f1: "frame_pm s ?s1" by (simp add: frame_pm_def upd_entry_def)
  have 2: "pm_good s2 \<and> only_entry v ?s1 s2" by (rule change_view_inv [OF 1 assms view_ops_margins(3) [OF assms] s2(1)])
  show ?case
    using Cons.IH [OF conjunct1 [OF 2] s2(2)] 2 frame_pm_trans [OF f1, of s2] frame_pm_trans [of s s2 t] by (auto simp: only_entry_def)
qed simp

lemma move_places_inv:
  assumes "env_ok env"
  shows "pm_good s \<Longrightarrow> move_places env src dst skip qs s = Some t \<Longrightarrow> pm_good t \<and> frame_pm s t"
proof (induction qs arbitrary: s)
  case (Cons q qs)
  obtain p :: place and s1 where s1: "move_entries env src dst skip (pl_entries p) s = Some s1"
    "move_places env src dst skip qs s1 = Some t"
    using Cons.prems(2) by (auto simp: bind_eq_Some_conv)
  have 1: "pm_good s1 \<and> frame_pm s s1" by (rule move_entries_inv [OF assms Cons.prems(1) s1(1)])
  show ?case using Cons.IH [OF conjunct1 [OF 1] s1(2)] 1 frame_pm_trans by blast
qed simp

lemma move_views_inv:
  "env_ok env \<Longrightarrow> pm_good s \<Longrightarrow> positioner_move_views env h src dst skip s = Some t \<Longrightarrow> pm_good t \<and> frame_pm s t"
  unfolding positioner_move_views_def by (rule move_places_inv)

subsection \<open>New views\<close>

text \<open>A place whose slots were only allocated.\<close>

lemma pm_inv_place_only:
  assumes s: "pm_inv s" "pm_places s q = Some p"
    and p': "same_place p p'" "place_ok (place_max s p) (count_slots (slot_of s) (pl_entries p)) p'"
  shows "pm_inv (s\<lparr>pm_places := (pm_places s)(q \<mapsto> p')\<rparr>)"
proof -
  let ?t = "s\<lparr>pm_places := (pm_places s)(q \<mapsto> p')\<rparr>"
  have f: "pl_positioner p' = pl_positioner p" "pl_entries p' = pl_entries p" using p'(1) by (simp_all add: same_place_def)
  have pi: "place_inv s q p" using s by (auto simp: pm_inv_def)
  have "slot_of ?t = slot_of s" by (simp add: slot_of_def fun_eq_iff)
  then have pi': "place_inv ?t q p'" using pi p'(2) f by (simp add: place_inv_def place_max_def)
  have "place_inv ?t r p1 \<and> r < pm_next_place ?t" if "pm_places ?t r = Some p1" for r p1
  proof (cases "r = q")
    case False
    then have "place_inv s r p1" "r < pm_next_place s" using that s(1) by (auto simp: pm_inv_def)
    then show ?thesis by (simp add: place_inv_frame [of s r p1] place_max_def)
  qed (use that pi' s in \<open>auto simp: pm_inv_def\<close>)
  moreover have "\<exists>p1. pm_places ?t r = Some p1 \<and> u \<in> set (pl_entries p1)" if ue: "pm_entries ?t u = Some e" "en_place e = Some r" for u e r
  proof -
    have "pm_entries s u = Some e" using ue(1) by simp
    then obtain p1 where "pm_places s r = Some p1" "u \<in> set (pl_entries p1)" using pm_inv_entry [OF s(1) _ ue(2)] by blast
    then show ?thesis using s(2) f(2) by (cases "r = q") auto
  qed
  moreover have "\<exists>p1. pm_places ?t r = Some p1 \<and> pl_positioner p1 = h" if "r \<in> set (places (pm_pos ?t h))" for h r
    using that s f(1) unfolding pm_inv_def by (cases "r = q") (fastforce)+
  moreover have "pl_positioner p1 \<in> set (pm_positioners ?t)" if "pm_places ?t r = Some p1" for r p1
    using that s f(1) by (cases "r = q") (auto simp: pm_inv_def)
  ultimately show ?thesis using s(1) unfolding pm_inv_def by simp
qed

text \<open>An unmapped view only records the move or the new size.\<close>

lemma unmapped_ops:
  assumes "\<not> mapped (base w)"
  shows "view_do_move impl w x y = Some (upd_pending (\<lambda>p. p\<lparr>p_geometry := (p_geometry p)\<lparr>box_x := x, box_y := y\<rparr>\<rparr>) (add_action VIEW_ACTION_MOVE w))"
    "view_do_resize impl w g = Some (set_pending_geometry g (add_action VIEW_ACTION_RESIZE w))"
  using assms
  by (simp_all add: view_do_move_def view_do_resize_def call_configure_def upd_pending_def add_action_def set_pending_geometry_def)

lemma pending_simps [simp]:
  "base (upd_pending f w) = base w" "base (add_action a w) = base w" "base (set_pending_geometry g w) = base w"
  "emitted (upd_pending f w) = emitted w" "emitted (add_action a w) = emitted w" "emitted (set_pending_geometry g w) = emitted w"
  by (simp_all add: upd_pending_def add_action_def set_pending_geometry_def)

definition moved_to :: "int \<Rightarrow> int \<Rightarrow> view \<Rightarrow> view" where
  "moved_to x y w = upd_pending (\<lambda>p. p\<lparr>p_geometry := (p_geometry p)\<lparr>box_x := x, box_y := y\<rparr>\<rparr>) (add_action VIEW_ACTION_MOVE w)"

lemma moved_to_base [simp]: "base (moved_to x y w) = base w"
  by (simp add: moved_to_def)

lemma change_unmapped:
  assumes "\<not> mapped (base (pm_views s v))"
  shows "change_view env v (\<lambda>w. view_do_move impl w x y) s = Some (s\<lparr>pm_views := (pm_views s)(v := moved_to x y (pm_views s v))\<rparr>)"
    "change_view env v (\<lambda>w. view_do_resize impl w g) s =
       Some (s\<lparr>pm_views := (pm_views s)(v := set_pending_geometry g (add_action VIEW_ACTION_RESIZE (pm_views s v)))\<rparr>)"
  using unmapped_ops [OF assms] by (simp_all add: change_view_def moved_to_def)

definition new_entry :: entry where
  "new_entry = \<lparr>en_place = None, en_slot = 0, skip_update = False, en_listening = True\<rparr>"

definition plain_new :: "kywc_view \<Rightarrow> bool" where
  "plain_new b \<longleftrightarrow> maximized b \<or> minimized b \<or> fullscreen b \<or> has_initial_position b"

text \<open>The three ways of a new view when its place is found.\<close>

lemma add_new_view_eq:
  fixes s s1 v w
  defines "w \<equiv> pm_views s v" and "s2 \<equiv> s1\<lparr>pm_entries := (pm_entries s1)(v \<mapsto> new_entry)\<rparr>"
  assumes "positioner_from_output env (v_output w) s = Some (Some h)" "positioner_get_place env (Some h) v s = (Some q, s1)"
    "pm_views s1 = pm_views s" "pm_places s1 q = Some p" "pe_calloc env" "child_position env v s2 = (x, y, geo)"
  shows "positioner_add_new_view env v s =
    (if plain_new (base w) then place_insert_entry env (Some q) v (-1) s2
     else if v_parent w \<noteq> NULL \<and> mapped (base (pm_views s (v_parent w))) then do {
       s \<leftarrow> (case geo of None \<Rightarrow> Some s2 | Some geo \<Rightarrow> change_view env v (\<lambda>w. view_do_resize (pe_impl env v) w geo) s2);
       s \<leftarrow> change_view env v (\<lambda>w. view_do_move (pe_impl env v) w x y) s;
       place_insert_entry env (Some q) v (-1) s}
     else do {
       (slot, lx, ly, p) \<leftarrow> choose_slot (pe_realloc env) (pm_pos s1 h) (base w) p;
       s \<leftarrow> change_view env v (\<lambda>w. view_do_move (pe_impl env v) w lx ly) (s2\<lparr>pm_places := (pm_places s1)(q \<mapsto> p)\<rparr>);
       place_insert_entry env (Some q) v slot s})"
  using assms(3-) unfolding assms(1,2) new_entry_def plain_new_def
  by (simp add: positioner_add_new_view_def Let_def split del: if_split cong: if_cong)

lemma insert_good:
  assumes "pm_good s" "env_ok env" "pm_entries s v = Some e" "en_place e = None" "pm_places s q = Some p" "slot \<le> place_max s p"
  obtains t where "place_insert_entry env (Some q) v slot s = Some t" "pm_good t" "same_pm s t" "changed_place q s t"
    "pm_entries t = (pm_entries s)(v \<mapsto> e\<lparr>en_slot := slot, en_place := Some q\<rparr>)"
proof -
  obtain t where t: "place_insert_entry env (Some q) v slot s = Some t" "pm_inv t" "same_pm s t" "changed_place q s t"
    "pm_entries t = (pm_entries s)(v \<mapsto> e\<lparr>en_slot := slot, en_place := Some q\<rparr>)"
    by (rule insert_entry_inv [OF good_parts(1) [OF assms(1)] good_parts(2) [OF assms(2)] assms(3-6)])
  moreover have "pm_good t" using good_same [OF assms(1) t(2)] t(3) by (simp add: same_pm_def)
  ultimately show ?thesis using that by blast
qed

lemma good_views: "pm_good s \<Longrightarrow> base w = base (pm_views s v) \<Longrightarrow> pm_good (s\<lparr>pm_views := (pm_views s)(v := w)\<rparr>)"
  by (simp add: pm_good_def margins_ok_def)

text \<open>A child is put into a place with no slot.\<close>

lemma child_good:
  assumes s: "pm_good s" "env_ok env" and e: "pm_entries s v = Some new_entry" "pm_places s q = Some p"
    and v: "\<not> mapped (base (pm_views s v))"
    and r: "do { s \<leftarrow> (case geo of None \<Rightarrow> Some s | Some geo \<Rightarrow> change_view env v (\<lambda>w. view_do_resize (pe_impl env v) w geo) s);
       s \<leftarrow> change_view env v (\<lambda>w. view_do_move (pe_impl env v) w x y) s;
       place_insert_entry env (Some q) v (-1) s} = Some t"
  shows "pm_good t"
proof -
  obtain w3 where w3: "(case geo of None \<Rightarrow> Some s | Some geo \<Rightarrow> change_view env v (\<lambda>w. view_do_resize (pe_impl env v) w geo) s) =
      Some (s\<lparr>pm_views := (pm_views s)(v := w3)\<rparr>)" "base w3 = base (pm_views s v)"
  proof (cases geo)
    case None
    then show ?thesis using that [of "pm_views s v"] by simp
  next
    case (Some b)
    then show ?thesis
      using that [of "set_pending_geometry b (add_action VIEW_ACTION_RESIZE (pm_views s v))"] change_unmapped(2) [OF v] by simp
  qed
  let ?s3 = "s\<lparr>pm_views := (pm_views s)(v := w3)\<rparr>"
  let ?s4 = "?s3\<lparr>pm_views := (pm_views ?s3)(v := moved_to x y w3)\<rparr>"
  have "change_view env v (\<lambda>w. view_do_move (pe_impl env v) w x y) ?s3 = Some ?s4"
    using change_unmapped(1) [of ?s3 v] v w3(2) by simp
  then have i: "place_insert_entry env (Some q) v (-1) ?s4 = Some t" using r w3(1) by simp
  have g: "pm_good ?s4" by (intro good_views s(1)) (simp_all add: w3(2))
  have m: "-1 \<le> place_max ?s4 p"
    using pos_inv_max [OF pm_inv_pos [OF good_parts(1) [OF s(1)]], of "pl_positioner p"] by (simp add: place_max_def)
  obtain t' where "place_insert_entry env (Some q) v (-1) ?s4 = Some t'" "pm_good t'"
    by (rule insert_good [OF g s(2), of v new_entry q p "-1"]) (use e m in \<open>simp_all add: new_entry_def\<close>)
  then show ?thesis using i by simp
qed

text \<open>Another view gets a slot: one of its own in which it fits, or there is no such slot.\<close>

lemma choose_good:
  assumes s: "pm_good s" "env_ok env" and e: "pm_entries s v = Some new_entry" "pm_places s q = Some p"
    and v: "\<not> mapped (base (pm_views s v))" and g: "grid_ok (pm_pos s (pl_positioner p))"
  defines "pos \<equiv> pm_pos s (pl_positioner p)" and "b \<equiv> base (pm_views s v)" and "cnt \<equiv> count_slots (slot_of s) (pl_entries p)"
  obtains t slot x y where "do {
       (slot, lx, ly, p) \<leftarrow> choose_slot (pe_realloc env) pos b p;
       s \<leftarrow> change_view env v (\<lambda>w. view_do_move (pe_impl env v) w lx ly) (s\<lparr>pm_places := (pm_places s)(q \<mapsto> p)\<rparr>);
       place_insert_entry env (Some q) v slot s} = Some t" "pm_good t"
    "pm_entries t = (pm_entries s)(v \<mapsto> new_entry\<lparr>en_slot := slot, en_place := Some q\<rparr>)"
    "pm_views t v = moved_to x y (pm_views s v)" "changed_place q s t" "0 \<le> slot"
    "(\<exists>i. 0 \<le> i \<and> i \<le> max_slot pos \<and> cnt i = 0 \<and> slot_is_suitable pos b i \<noteq> None) \<longrightarrow>
       cnt slot = 0 \<and> slot_is_suitable pos b slot = Some (x, y)"
proof -
  note i = good_parts(1) [OF s(1)] good_parts(2) [OF s(2)]
  have ok: "place_ok (max_slot pos) cnt p" using pm_inv_place(1) [OF i(1) e(2)] by (simp add: cnt_def place_max_def pos_def)
  obtain slot x y p' where c: "choose_slot True pos b p = Some (slot, x, y, p')" "place_ok (max_slot pos) cnt p'" "same_place p p'"
    "0 \<le> slot" "slot \<le> max_slot pos"
    "(\<exists>i. 0 \<le> i \<and> i \<le> max_slot pos \<and> cnt i = 0 \<and> slot_is_suitable pos b i \<noteq> None) \<longrightarrow>
       cnt slot = 0 \<and> slot_is_suitable pos b slot = Some (x, y)"
    by (rule choose_slot_spec [OF ok g [folded pos_def], of b])
  let ?s3 = "s\<lparr>pm_places := (pm_places s)(q \<mapsto> p')\<rparr>"
  let ?s4 = "?s3\<lparr>pm_views := (pm_views ?s3)(v := moved_to x y (pm_views s v))\<rparr>"
  have "pm_inv ?s3" by (rule pm_inv_place_only [OF i(1) e(2) c(3)]) (use c(2) in \<open>simp add: cnt_def place_max_def pos_def\<close>)
  then have g4: "pm_good ?s4" by (intro good_views good_same [OF s(1)]) simp_all
  have p': "pl_positioner p' = pl_positioner p" "pl_workspace p' = pl_workspace p" using c(3) by (simp_all add: same_place_def)
  have m: "slot \<le> place_max ?s4 p'" using c(5) p'(1) by (simp add: place_max_def pos_def)
  obtain t where t: "place_insert_entry env (Some q) v slot ?s4 = Some t" "pm_good t" "same_pm ?s4 t" "changed_place q ?s4 t"
    "pm_entries t = (pm_entries ?s4)(v \<mapsto> new_entry\<lparr>en_slot := slot, en_place := Some q\<rparr>)"
    by (rule insert_good [OF g4 s(2), of v new_entry q p' slot]) (use e m in \<open>simp_all add: new_entry_def\<close>)
  have "change_view env v (\<lambda>w. view_do_move (pe_impl env v) w x y) ?s3 = Some ?s4"
    using change_unmapped(1) [of ?s3 v] v by simp
  then have "do {
       (slot, lx, ly, p) \<leftarrow> choose_slot (pe_realloc env) pos b p;
       s \<leftarrow> change_view env v (\<lambda>w. view_do_move (pe_impl env v) w lx ly) (s\<lparr>pm_places := (pm_places s)(q \<mapsto> p)\<rparr>);
       place_insert_entry env (Some q) v slot s} = Some t" using c(1) i(2) t(1) by simp
  moreover have "changed_place q s t" using t(4) e(2) p' by (auto simp: changed_place_def)
  moreover have "pm_views t v = moved_to x y (pm_views s v)" using t(3) by (simp add: same_pm_def)
  ultimately show ?thesis using that t(2,5) c(4,6) by simp
qed

lemma place_of_new_view:
  assumes s: "pm_good s" "env_ok env" and v: "pm_entries s v = None"
    and g: "positioner_from_output env out s = Some (Some h)" "positioner_get_place env (Some h) v s = (Some q, s1)"
  defines "s2 \<equiv> s1\<lparr>pm_entries := (pm_entries s1)(v \<mapsto> new_entry)\<rparr>"
  obtains p where "pm_good s1" "pm_good s2" "pm_places s2 q = Some p" "pl_positioner p = h" "pm_views s1 = pm_views s"
    "frame_pm s s2" "pm_entries s1 = pm_entries s"
proof -
  note i = good_parts(1) [OF s(1)] good_parts(2) [OF s(2)]
  have hm: "h \<in> set (pm_positioners s)" using g(1) find_positioner_mem by (auto simp: positioner_from_output_def)
  note gi = get_place_inv [OF i hm g(2)]
  obtain p where p: "pm_places s1 q = Some p" "pl_positioner p = h" using gi(6) by blast
  have "pm_inv s2" by (rule pm_inv_free_entry [OF gi(1), of s2 v]) (use v gi(3) in \<open>auto simp: s2_def new_entry_def\<close>)
  then have "pm_good s2" using good_same [OF s(1)] gi(4) by (simp add: s2_def)
  moreover have "pm_good s1" using good_same [OF s(1) gi(1,4)] .
  moreover have "frame_pm s s2" using gi(2) by (simp add: frame_pm_def s2_def)
  ultimately show ?thesis using that p gi(3,4) by (simp add: s2_def)
qed

lemma add_new_view_inv:
  assumes s: "pm_good s" "env_ok env" and v: "pm_entries s v = None" "\<not> mapped (base (pm_views s v))"
    and r: "positioner_add_new_view env v s = Some t"
  shows "pm_good t"
proof -
  let ?w = "pm_views s v"
  obtain pos where pos: "positioner_from_output env (v_output ?w) s = Some pos"
    using r by (auto simp: positioner_add_new_view_def bind_eq_Some_conv)
  obtain place s1 where g: "positioner_get_place env pos v s = (place, s1)" by fastforce
  have g1: "pm_good s1"
  proof (cases pos)
    case None
    then show ?thesis using g s(1) by (simp add: positioner_get_place_def)
  next
    case (Some h)
    have "h \<in> set (pm_positioners s)" using pos Some find_positioner_mem by (auto simp: positioner_from_output_def)
    then show ?thesis
      using get_place_inv [OF good_parts(1) [OF s(1)] good_parts(2) [OF s(2)], of h v place s1] g Some good_same [OF s(1), of s1] by simp
  qed
  show ?thesis
  proof (cases "\<exists>h q. pos = Some h \<and> place = Some q \<and> pe_calloc env")
    case False
    then have "t = s1" using r pos g by (cases pos; cases place) (simp_all add: positioner_add_new_view_def)
    then show ?thesis using g1 by simp
  next
    case True
    then obtain h q where hq: "pos = Some h" "place = Some q" "pe_calloc env" by blast
    let ?s2 = "s1\<lparr>pm_entries := (pm_entries s1)(v \<mapsto> new_entry)\<rparr>"
    obtain p where p: "pm_good ?s2" "pm_places ?s2 q = Some p" "pl_positioner p = h" "pm_views s1 = pm_views s"
      by (rule place_of_new_view [OF s v(1) pos [unfolded hq(1)] g [unfolded hq(1,2)]])
    obtain x y geo where cp: "child_position env v ?s2 = (x, y, geo)" by (rule prod_cases3)
    have p1: "pm_places s1 q = Some p" "\<not> mapped (base (pm_views ?s2 v))" using p(2,4) v(2) by simp_all
    note eq = add_new_view_eq [OF pos [unfolded hq(1)] g [unfolded hq(1,2)] p(4) p1(1) hq(3) cp]
    have e2: "pm_entries ?s2 v = Some new_entry" by simp
    consider (plain) "plain_new (base ?w)"
      | (child) "\<not> plain_new (base ?w)" "v_parent ?w \<noteq> NULL \<and> mapped (base (pm_views s (v_parent ?w)))"
      | (normal) "\<not> plain_new (base ?w)" "\<not> (v_parent ?w \<noteq> NULL \<and> mapped (base (pm_views s (v_parent ?w))))" by blast
    then show ?thesis
    proof cases
      case plain
      have m: "-1 \<le> place_max ?s2 p"
        using pos_inv_max [OF pm_inv_pos [OF good_parts(1) [OF p(1)]], of "pl_positioner p"] by (simp add: place_max_def)
      obtain t' where "place_insert_entry env (Some q) v (-1) ?s2 = Some t'" "pm_good t'"
        by (rule insert_good [OF p(1) s(2) e2 _ p(2) m]) (simp add: new_entry_def)
      then show ?thesis using r eq plain by simp
    next
      case child
      have "do { s \<leftarrow> (case geo of None \<Rightarrow> Some ?s2 | Some geo \<Rightarrow> change_view env v (\<lambda>w. view_do_resize (pe_impl env v) w geo) ?s2);
         s \<leftarrow> change_view env v (\<lambda>w. view_do_move (pe_impl env v) w x y) s;
         place_insert_entry env (Some q) v (-1) s} = Some t"
        using r unfolding eq if_not_P [OF child(1)] if_P [OF child(2)] .
      then show ?thesis by (rule child_good [OF p(1) s(2) e2 p(2) p1(2)])
    next
      case normal
      have r': "do {
         (slot, lx, ly, p) \<leftarrow> choose_slot (pe_realloc env) (pm_pos s1 h) (base ?w) p;
         s \<leftarrow> change_view env v (\<lambda>w. view_do_move (pe_impl env v) w lx ly) (?s2\<lparr>pm_places := (pm_places s1)(q \<mapsto> p)\<rparr>);
         place_insert_entry env (Some q) v slot s} = Some t"
        using r unfolding eq if_not_P [OF normal(1)] if_not_P [OF normal(2)] .
      then have "num_step (pm_pos s1 h) \<noteq> 0" by (auto simp: choose_slot_def)
      then have go: "grid_ok (pm_pos ?s2 (pl_positioner p))"
        using pm_inv_pos [OF good_parts(1) [OF p(1)], of h] p(3) by (auto simp: pos_inv_def pos_ok_def)
      show ?thesis
        by (rule choose_good [OF p(1) s(2) e2 p(2) p1(2) go]) (use r' p(3,4) in simp)
    qed
  qed
qed

subsection \<open>Outputs\<close>

text \<open>Positioners change without losing slots.\<close>

lemma pm_good_pos_upd:
  assumes s: "pm_good s"
    and f: "\<And>h. places (f h) = places (pm_pos s h)" "\<And>h. max_slot (pm_pos s h) \<le> max_slot (f h)" "\<And>h. pos_inv (f h)"
      "\<And>h. pos_set (pm_pos s h) \<Longrightarrow> pos_set (f h)"
  shows "pm_good (s\<lparr>pm_pos := f\<rparr>)"
proof -
  let ?t = "s\<lparr>pm_pos := f\<rparr>"
  have i: "pm_inv s" by (rule good_parts(1) [OF s])
  have "place_inv ?t q p" if q: "pm_places s q = Some p" for q p
  proof -
    note pi = pm_inv_place [OF i q]
    have m: "place_max s p \<le> place_max ?t p" using f(2) by (simp add: place_max_def)
    have "count_slots (slot_of s) (pl_entries p) j = 0" if "place_max s p < j" for j
      using pi(3) that by (fastforce simp: count_slots_def slot_of_def filter_empty_conv)
    then have "place_ok (place_max ?t p) (count_slots (slot_of s) (pl_entries p)) p" by (rule place_ok_grow [OF pi(1) m])
    moreover have "slot_of ?t = slot_of s" by (simp add: slot_of_def fun_eq_iff)
    ultimately show ?thesis using pi m by (fastforce simp: place_inv_def)
  qed
  then have "pm_inv ?t" using i f(1,3,4) by (simp add: pm_inv_def)
  then show ?thesis using good_same [OF s] by simp
qed

lemma pos_frame_inv:
  "pos_inv (pos\<lparr>catcher_box := b\<rparr>) = pos_inv pos" "pos_inv (pos\<lparr>catcher_positioners := hs\<rparr>) = pos_inv pos"
  "pos_inv (pos\<lparr>po_output := out\<rparr>) = pos_inv pos"
  "pos_set (pos\<lparr>catcher_box := b\<rparr>) = pos_set pos" "pos_set (pos\<lparr>catcher_positioners := hs\<rparr>) = pos_set pos"
  "pos_set (pos\<lparr>po_output := out\<rparr>) = pos_set pos"
  by (simp_all add: pos_inv_def pos_ok_def grid_ok_def pos_set_def)

text \<open>Only the links and boxes of catchers and the outputs change.\<close>

definition same_grids :: "positioner_manager \<Rightarrow> positioner_manager \<Rightarrow> bool" where
  "same_grids s t \<longleftrightarrow> pm_positioners t = pm_positioners s \<and> (\<forall>h. max_slot (pm_pos t h) = max_slot (pm_pos s h) \<and>
     po_usable (pm_pos t h) = po_usable (pm_pos s h))"

lemma same_grids_refl [simp]: "same_grids s s"
  by (simp add: same_grids_def)

lemma same_grids_trans: "same_grids s t \<Longrightarrow> same_grids t u \<Longrightarrow> same_grids s u"
  by (simp add: same_grids_def)

lemma frame_grids: "frame_pm s t \<Longrightarrow> same_grids s t"
  unfolding same_grids_def by (intro conjI allI frame_pos) (simp_all add: frame_pm_def)

lemma catcher_ops:
  assumes "pm_good s"
  shows "pm_good (catcher_link d h s) \<and> same_grids s (catcher_link d h s)" (is ?link)
    "pm_good (catcher_unlink h s) \<and> same_grids s (catcher_unlink h s)" (is ?unlink)
    "pm_good (upd_pos h (\<lambda>pos. pos\<lparr>catcher_box := b\<rparr>) s) \<and> same_grids s (upd_pos h (\<lambda>pos. pos\<lparr>catcher_box := b\<rparr>) s)" (is ?box)
    "pm_good (upd_pos h (\<lambda>pos. pos\<lparr>po_output := out\<rparr>) s) \<and> same_grids s (upd_pos h (\<lambda>pos. pos\<lparr>po_output := out\<rparr>) s)" (is ?out)
proof -
  have i: "pos_inv (pm_pos s h)" for h by (rule pm_inv_pos [OF good_parts(1) [OF assms]])
  show ?link unfolding catcher_link_def upd_pos_def
    by (intro conjI pm_good_pos_upd [OF assms]) (auto simp: pos_frame_inv i same_grids_def)
  show ?unlink unfolding catcher_unlink_def
    by (intro conjI pm_good_pos_upd [OF assms]) (auto simp: pos_frame_inv i same_grids_def)
  show ?box unfolding upd_pos_def by (intro conjI pm_good_pos_upd [OF assms]) (auto simp: pos_frame_inv i same_grids_def)
  show ?out unfolding upd_pos_def by (intro conjI pm_good_pos_upd [OF assms]) (auto simp: pos_frame_inv i same_grids_def)
qed

lemma pass_on_catched_inv:
  assumes "env_ok env"
  shows "pm_good s \<Longrightarrow> pass_on_catched env src dst hs s = Some t \<Longrightarrow> pm_good t \<and> same_grids s t"
proof (induction hs arbitrary: s)
  case (Cons h hs)
  let ?s1 = "catcher_link dst h (catcher_unlink h s)"
  let ?s2 = "upd_pos h (\<lambda>pos. pos\<lparr>catcher_box := po_usable (pm_pos ?s1 dst)\<rparr>) ?s1"
  obtain s3 where s3: "positioner_move_views env h src dst True ?s2 = Some s3" "pass_on_catched env src dst hs s3 = Some t"
    using Cons.prems(2) by (auto simp: Let_def bind_eq_Some_conv)
  note a = catcher_ops(2) [OF Cons.prems(1), of h]
  note b = catcher_ops(1) [OF conjunct1 [OF a], of dst h]
  note c = catcher_ops(3) [OF conjunct1 [OF b], of h "po_usable (pm_pos ?s1 dst)"]
  note d = move_views_inv [OF assms conjunct1 [OF c] s3(1)]
  show ?case using Cons.IH [OF conjunct1 [OF d] s3(2)] a b c d frame_grids same_grids_trans by metis
qed simp

lemma output_off_inv:
  assumes "env_ok env" "pm_good s" "positioner_handle_output_off env src s = Some t"
  shows "pm_good t \<and> same_grids s t"
proof (cases "t = s")
  case False
  then obtain dst where r: "(let s1 = catcher_link dst src s; s2 = upd_pos src (\<lambda>pos. pos\<lparr>catcher_box := po_usable (pm_pos s1 dst)\<rparr>) s1
      in Option.bind (positioner_move_views env src (po_usable (pm_pos s2 src)) dst True s2)
        (\<lambda>s. pass_on_catched env (po_usable (pm_pos s src)) dst (catcher_positioners (pm_pos s src)) s)) = Some t"
    using assms(3) by (auto simp: positioner_handle_output_off_def Let_def split: option.splits if_splits)
  let ?s1 = "catcher_link dst src s"
  let ?s2 = "upd_pos src (\<lambda>pos. pos\<lparr>catcher_box := po_usable (pm_pos ?s1 dst)\<rparr>) ?s1"
  obtain s3 where s3: "positioner_move_views env src (po_usable (pm_pos ?s2 src)) dst True ?s2 = Some s3"
    "pass_on_catched env (po_usable (pm_pos s3 src)) dst (catcher_positioners (pm_pos s3 src)) s3 = Some t"
    using r by (auto simp: Let_def bind_eq_Some_conv)
  note b = catcher_ops(1) [OF assms(2), of dst src]
  note c = catcher_ops(3) [OF conjunct1 [OF b], of src "po_usable (pm_pos ?s1 dst)"]
  note d = move_views_inv [OF assms(1) conjunct1 [OF c] s3(1)]
  show ?thesis using pass_on_catched_inv [OF assms(1) conjunct1 [OF d] s3(2)] b c d frame_grids same_grids_trans by metis
qed (use assms(2) in simp)

lemma output_destroy_inv:
  assumes "env_ok env" "pm_good s" "positioner_handle_output_destroy env h s = Some t"
  shows "pm_good t \<and> same_grids s t"
proof -
  obtain s1 where s1: "(if out_enabled (get_output (pe_outputs env) (po_output (pm_pos s h))) then positioner_handle_output_off env h s
      else Some s) = Some s1" "t = upd_pos h (\<lambda>pos. pos\<lparr>po_output := NULL\<rparr>) s1"
    using assms(3) by (auto simp: positioner_handle_output_destroy_def bind_eq_Some_conv)
  have 1: "pm_good s1 \<and> same_grids s s1" using s1(1) output_off_inv [OF assms(1,2)] assms(2) by (auto split: if_splits)
  show ?thesis using catcher_ops(4) [OF conjunct1 [OF 1], of h NULL] 1 s1(2) same_grids_trans by metis
qed

text \<open>A new usable area that loses no slot.\<close>

lemma update_grid_good:
  assumes s: "pm_good s" and h: "h \<in> set (pm_positioners s)"
    and m: "max_slot (pm_pos s h) \<le> max_slot (snd (positioner_update_grid usable (pm_pos s h)))"
  shows "pm_good (upd_pos h (\<lambda>pos. snd (positioner_update_grid usable pos)) s)"
proof -
  let ?pos = "pm_pos s h"
  obtain changed pos' where u: "positioner_update_grid usable ?pos = (changed, pos')" by fastforce
  have i: "pm_inv s" by (rule good_parts(1) [OF s])
  have ps: "pos_set ?pos" using i h by (auto simp: pm_inv_def)
  have k: "places pos' = places ?pos" "pos_set pos' = pos_set ?pos"
    using u by (auto simp: positioner_update_grid_def Let_def pos_set_def split: if_splits)
  have pi: "pos_inv pos'"
  proof (cases "pos_ok ?pos \<or> changed")
    case True
    then have "pos_ok pos'" using update_grid_pos_ok [OF _ _ _ _ u] ps by (simp add: pos_set_def)
    then show ?thesis by (simp add: pos_inv_def)
  next
    case False
    then have b: "grid_area ?pos = zero_box" "po_usable ?pos = zero_box" "max_slot ?pos = 0" "num_step ?pos = 0"
      using pm_inv_pos [OF i, of h] by (auto simp: pos_inv_def)
    have "clamp_size a o1 50 \<noteq> 0" for a o1 by (rule clamp_size_multiple [of 50 a o1]) simp_all
    then have "pos' = ?pos" using False u b ps
      by (auto simp: positioner_update_grid_def Let_def pos_set_def kywc_box_equal_def zero_box_def split: if_splits)
    then show ?thesis using pm_inv_pos [OF i, of h] by simp
  qed
  show ?thesis unfolding upd_pos_def
    by (rule pm_good_pos_upd [OF s]) (use u k pi m pm_inv_pos [OF i] in auto)
qed

definition keeps_slots :: "kywc_box \<Rightarrow> positioner \<Rightarrow> bool" where
  "keeps_slots usable pos \<longleftrightarrow> max_slot pos \<le> max_slot (snd (positioner_update_grid usable pos))"

definition out_usable :: "positioner_env \<Rightarrow> ptr \<Rightarrow> kywc_box" where
  "out_usable env out = usable_area (get_output (pe_outputs env) out)"

lemma output_on_inv:
  assumes "env_ok env" "pm_good s" "h \<in> set (pm_positioners s)" "positioner_handle_output_on env h s = Some t"
    "keeps_slots (out_usable env (po_output (pm_pos s h))) (pm_pos s h)"
  shows "pm_good t"
proof -
  define s1 where "s1 = upd_pos h (\<lambda>pos. snd (positioner_update_grid (out_usable env (po_output (pm_pos s h))) pos)) s"
  have 1: "pm_good s1" unfolding s1_def by (rule update_grid_good [OF assms(2,3)]) (use assms(5) in \<open>simp add: keeps_slots_def\<close>)
  have "t = s1 \<or> (\<exists>s2. positioner_move_views env h (catcher_box (pm_pos s1 h)) h False s1 = Some s2 \<and> t = catcher_unlink h s2)"
    using assms(4) by (auto simp: positioner_handle_output_on_def Let_def out_usable_def s1_def bind_eq_Some_conv split: if_splits)
  then show ?thesis using 1 move_views_inv [OF assms(1) 1] catcher_ops(2) by blast
qed

lemma move_catched_inv:
  assumes "env_ok env"
  shows "pm_good s \<Longrightarrow> move_catched env old h ts s = Some t \<Longrightarrow> pm_good t"
proof (induction ts arbitrary: s)
  case (Cons u us)
  let ?s1 = "upd_pos u (\<lambda>pos. pos\<lparr>catcher_box := po_usable (pm_pos s h)\<rparr>) s"
  obtain s2 where s2: "positioner_move_views env u old h True ?s1 = Some s2" "move_catched env old h us s2 = Some t"
    using Cons.prems(2) by (auto simp: Let_def bind_eq_Some_conv)
  have "pm_good s2" using move_views_inv [OF assms conjunct1 [OF catcher_ops(3) [OF Cons.prems(1)]] s2(1)] by blast
  then show ?case using Cons.IH s2(2) by blast
qed simp

lemma usable_area_inv:
  assumes "env_ok env" "pm_good s" "h \<in> set (pm_positioners s)" "positioner_handle_output_usable_area env h s = Some t"
    "keeps_slots (out_usable env (po_output (pm_pos s h))) (pm_pos s h)"
  shows "pm_good t"
proof (cases "t = s")
  case False
  define s1 where "s1 = upd_pos h (\<lambda>pos. snd (positioner_update_grid (out_usable env (po_output (pm_pos s h))) pos)) s"
  have 1: "pm_good s1" unfolding s1_def by (rule update_grid_good [OF assms(2,3)]) (use assms(5) in \<open>simp add: keeps_slots_def\<close>)
  obtain old s2 where s2: "positioner_move_views env h old h False s1 = Some s2"
    "move_catched env old h (catcher_positioners (pm_pos s2 h)) s2 = Some t"
    using assms(4) False
    by (auto simp: positioner_handle_output_usable_area_def Let_def out_usable_def s1_def bind_eq_Some_conv split: if_splits)
  have "pm_good s2" using move_views_inv [OF assms(1) 1 s2(1)] by blast
  then show ?thesis using move_catched_inv [OF assms(1)] s2(2) by blast
qed (use assms(2) in simp)

text \<open>A positioner for a new output.\<close>

definition output_props :: "ptr \<Rightarrow> positioner \<Rightarrow> positioner" where
  "output_props out pos = pos\<lparr>po_output := out, off_top := GRID_OFFSET_TOP, off_bottom := GRID_OFFSET_BOTTOM,
     off_left := GRID_OFFSET_LEFT, off_right := GRID_OFFSET_RIGHT, gap_column := GRID_GAP_COLUMN, gap_row := GRID_GAP_ROW\<rparr>"

lemma output_props_inv: "pos_set pos \<Longrightarrow> pos_inv (output_props out pos) = pos_inv pos" "pos_set (output_props out pos)"
  by (auto simp: output_props_def pos_inv_def pos_ok_def grid_ok_def pos_set_def grid_consts)

lemma new_positioner_good:
  assumes s: "pm_good s"
  defines "n \<equiv> pm_next_pos s"
  shows "pm_good (s\<lparr>pm_pos := (pm_pos s)(n := output_props out (new_positioner name)), pm_positioners := n # pm_positioners s, pm_next_pos := n + 1\<rparr>)"
proof -
  let ?t = "s\<lparr>pm_pos := (pm_pos s)(n := output_props out (new_positioner name)), pm_positioners := n # pm_positioners s, pm_next_pos := n + 1\<rparr>"
  have i: "pm_inv s" by (rule good_parts(1) [OF s])
  have nn: "n \<notin> set (pm_positioners s)" using i by (auto simp: pm_inv_def n_def)
  have pn: "pl_positioner p \<noteq> n" if "pm_places s q = Some p" for q p using i that nn by (auto simp: pm_inv_def)
  have "place_inv ?t q p" if q: "pm_places s q = Some p" for q p
  proof -
    have "place_inv s q p" using i q by (auto simp: pm_inv_def)
    then show ?thesis using pn [OF q] by (simp add: place_inv_frame [of s q p] place_max_def)
  qed
  moreover have "pos_inv (output_props out (new_positioner name))"
    by (simp add: pos_inv_def output_props_def new_positioner_def)
  moreover have "places (output_props out (new_positioner name)) = []" by (simp add: output_props_def new_positioner_def)
  ultimately have "pm_inv ?t" using i output_props_inv(2) by (auto simp: pm_inv_def n_def less_Suc_eq)
  then show ?thesis using good_same [OF s] by simp
qed

lemma pos_new_output_inv:
  assumes e: "env_ok env" and s: "pm_good s" and r: "positioner_handle_new_output env out s = Some t"
    and k: "\<And>h. positioner_from_output env out s = Some (Some h) \<Longrightarrow> keeps_slots (out_usable env out) (output_props out (pm_pos s h))"
  shows "pm_good t"
proof -
  obtain found where f: "positioner_from_output env out s = Some found" using r by (auto simp: positioner_handle_new_output_def bind_eq_Some_conv)
  define n where "n = pm_next_pos s"
  define h where "h = (case found of Some h \<Rightarrow> h | None \<Rightarrow> n)"
  define s1 where "s1 = (case found of
      Some h \<Rightarrow> s\<lparr>pm_pos := (pm_pos s)(h := output_props out (pm_pos s h))\<rparr>
    | None \<Rightarrow> s\<lparr>pm_pos := (pm_pos s)(n := output_props out (new_positioner (pe_name env out))), pm_positioners := n # pm_positioners s,
        pm_next_pos := n + 1\<rparr>)"
  define s2 where "s2 = upd_pos h (\<lambda>pos. snd (positioner_update_grid (out_usable env out) pos)) s1"
  have i: "pm_inv s" by (rule good_parts(1) [OF s])
  have c: "t = s \<or> t = s1 \<or> positioner_handle_output_on env h s2 = Some t"
    using r f by (cases found)
      (auto simp: positioner_handle_new_output_def Let_def h_def n_def s1_def s2_def upd_pos_def output_props_def out_usable_def split: if_splits)
  have 1: "pm_good s1 \<and> h \<in> set (pm_positioners s1) \<and> po_output (pm_pos s1 h) = out \<and> keeps_slots (out_usable env out) (pm_pos s1 h)"
  proof (cases found)
    case None
    have "keeps_slots (out_usable env out) (output_props out (new_positioner (pe_name env out)))"
    proof -
      obtain c p where u: "positioner_update_grid (out_usable env out) (output_props out (new_positioner (pe_name env out))) = (c, p)" by fastforce
      have "0 \<le> max_slot p"
      proof (cases c)
        case True
        then have "grid_ok p" using update_grid_ok [OF _ _ u] by (simp add: output_props_def grid_consts)
        then show ?thesis by (rule grid_max_nonneg)
      next
        case False
        then show ?thesis using u by (auto simp: positioner_update_grid_def Let_def output_props_def new_positioner_def split: if_splits)
      qed
      then show ?thesis using u by (simp add: keeps_slots_def) (simp add: output_props_def new_positioner_def)
    qed
    then show ?thesis using None new_positioner_good [OF s] by (simp add: s1_def h_def n_def) (simp add: output_props_def)
  next
    case (Some h')
    have hm: "h' \<in> set (pm_positioners s)" using f Some find_positioner_mem by (auto simp: positioner_from_output_def)
    then have ps: "pos_set (pm_pos s h')" using i by (auto simp: pm_inv_def)
    have "pm_good (s\<lparr>pm_pos := (pm_pos s)(h' := output_props out (pm_pos s h'))\<rparr>)"
      by (rule pm_good_pos_upd [OF s])
        (use output_props_inv(1) [OF ps] output_props_inv(2) pm_inv_pos [OF i] in \<open>auto simp: fun_upd_def\<close>, simp_all add: output_props_def)
    then show ?thesis using Some hm k [of h'] f by (simp add: s1_def h_def) (simp add: output_props_def)
  qed
  have 2: "pm_good s2" unfolding s2_def by (rule update_grid_good) (use 1 in \<open>auto simp: keeps_slots_def\<close>)
  have "pm_good t" if "positioner_handle_output_on env h s2 = Some t"
  proof (rule output_on_inv [OF e 2 _ that])
    show "h \<in> set (pm_positioners s2)" using 1 by (simp add: s2_def upd_pos_def)
    have "po_usable (pm_pos s2 h) = out_usable env out" "po_output (pm_pos s2 h) = out"
      using 1 by (auto simp: s2_def upd_pos_def positioner_update_grid_def Let_def kywc_box_equal_iff)
    then show "keeps_slots (out_usable env (po_output (pm_pos s2 h))) (pm_pos s2 h)"
      by (simp add: keeps_slots_def positioner_update_grid_def kywc_box_equal_iff)
  qed
  then show ?thesis using c 1 s by blast
qed

end
