(* ===== verification/PositionerRuns.thy ===== *)
theory PositionerRuns
  imports PositionerInv
begin

section \<open>Properties of the positioner\<close>

text \<open>
  The handlers as a step relation over environments that may change from step to step, as long as memory is
  available and no grid loses slots, and the properties of the states it reaches.
\<close>

inductive pos_step :: "positioner_env \<Rightarrow> positioner_manager \<Rightarrow> positioner_manager \<Rightarrow> bool" for env where
  NewOutput: "positioner_handle_new_output env out s = Some t \<Longrightarrow>
    (\<And>h. positioner_from_output env out s = Some (Some h) \<Longrightarrow> keeps_slots (out_usable env out) (output_props out (pm_pos s h))) \<Longrightarrow>
    pos_step env s t"
| OutputOn: "h \<in> set (pm_positioners s) \<Longrightarrow> positioner_handle_output_on env h s = Some t \<Longrightarrow>
    keeps_slots (out_usable env (po_output (pm_pos s h))) (pm_pos s h) \<Longrightarrow> pos_step env s t"
| OutputOff: "h \<in> set (pm_positioners s) \<Longrightarrow> positioner_handle_output_off env h s = Some t \<Longrightarrow> pos_step env s t"
| UsableArea: "h \<in> set (pm_positioners s) \<Longrightarrow> positioner_handle_output_usable_area env h s = Some t \<Longrightarrow>
    keeps_slots (out_usable env (po_output (pm_pos s h))) (pm_pos s h) \<Longrightarrow> pos_step env s t"
| OutputGone: "h \<in> set (pm_positioners s) \<Longrightarrow> positioner_handle_output_destroy env h s = Some t \<Longrightarrow> pos_step env s t"
| AddView: "pm_entries s v = None \<Longrightarrow> \<not> mapped (base (pm_views s v)) \<Longrightarrow> positioner_add_new_view env v s = Some t \<Longrightarrow>
    pos_step env s t"
| Position: "entry_handle_view_position env v s = Some t \<Longrightarrow> pos_step env s t"
| Minimize: "entry_handle_view_minimize env v s = Some t \<Longrightarrow> pos_step env s t"
| Unmap: "entry_handle_view_unmap env v s = Some t \<Longrightarrow> pos_step env s t"
| Workspace: "entry_handle_view_workspace env v s = Some t \<Longrightarrow> pos_step env s t"
| WorkspaceGone: "pm_places s q = Some p \<Longrightarrow> pl_entries p = [] \<Longrightarrow> place_handle_workspace_destroy q s = Some t \<Longrightarrow>
    pos_step env s t"
| ViewChange: "margins_ok w \<Longrightarrow> pos_step env s (s\<lparr>pm_views := (pm_views s)(v := w)\<rparr>)"

lemma workspace_gone_good:
  assumes s: "pm_good s" and q: "pm_places s q = Some p" "pl_entries p = []" and r: "place_handle_workspace_destroy q s = Some t"
  shows "pm_good t"
proof -
  have i: "pm_inv s" by (rule good_parts(1) [OF s])
  have t: "t = upd_pos (pl_positioner p) (\<lambda>pos. pos\<lparr>places := removeAll q (places pos)\<rparr>) (s\<lparr>pm_places := (pm_places s)(q := None)\<rparr>)"
    using r q(1) by (simp add: place_handle_workspace_destroy_def)
  have fr: "frame_pm s t" by (simp add: t frame_pm_def upd_pos_def)
  have "place_inv t r p1 \<and> r < pm_next_place t" if "pm_places t r = Some p1" for r p1
  proof -
    have r: "pm_places s r = Some p1" using that by (simp add: t upd_pos_def split: if_splits)
    then have "place_inv s r p1" "r < pm_next_place s" using i by (auto simp: pm_inv_def)
    moreover have "place_max t p1 = place_max s p1" unfolding place_max_def by (rule frame_pos(1) [OF fr])
    moreover have "pm_entries t = pm_entries s" "pm_next_place t = pm_next_place s" by (simp_all add: t upd_pos_def)
    ultimately show ?thesis using place_inv_frame by metis
  qed
  moreover have "\<exists>p1. pm_places t r = Some p1 \<and> u \<in> set (pl_entries p1)" if ue: "pm_entries t u = Some e" "en_place e = Some r" for u e r
  proof -
    have "pm_entries s u = Some e" using ue(1) by (simp add: t upd_pos_def)
    then obtain p1 where "pm_places s r = Some p1" "u \<in> set (pl_entries p1)" using pm_inv_entry [OF i _ ue(2)] by blast
    then show ?thesis using q by (cases "r = q") (auto simp: t upd_pos_def)
  qed
  moreover have "\<exists>p1. pm_places t r = Some p1 \<and> pl_positioner p1 = h" if rh: "r \<in> set (places (pm_pos t h))" for h r
  proof -
    have "r \<in> set (places (pm_pos s h))" using rh by (auto simp: t upd_pos_def split: if_splits)
    then obtain p1 where p1: "pm_places s r = Some p1" "pl_positioner p1 = h" using i unfolding pm_inv_def by blast
    have "r \<noteq> q" using rh p1 q(1) by (auto simp: t upd_pos_def)
    then show ?thesis using p1 by (simp add: t upd_pos_def)
  qed
  moreover have "(\<forall>h. pos_inv (pm_pos t h)) \<and> (\<forall>h \<in> set (pm_positioners t). pos_set (pm_pos t h) \<and> h < pm_next_pos t)"
    using i fr frame_pos(2,3) [OF fr] by (simp add: pm_inv_def frame_pm_def)
  moreover have "pl_positioner p1 \<in> set (pm_positioners t)" if "pm_places t r = Some p1" for r p1
    using that i by (auto simp: pm_inv_def t upd_pos_def split: if_splits)
  ultimately have "pm_inv t" unfolding pm_inv_def by blast
  then show ?thesis using good_same [OF s] by (simp add: t upd_pos_def)
qed

lemma pos_step_good: "pos_step env s t \<Longrightarrow> env_ok env \<Longrightarrow> pm_good s \<Longrightarrow> pm_good t"
proof (induction rule: pos_step.induct)
  case (NewOutput out s t)
  then show ?case using pos_new_output_inv by blast
next
  case (OutputOn h s t)
  then show ?case using output_on_inv by blast
next
  case (OutputOff h s t)
  then show ?case using output_off_inv by blast
next
  case (UsableArea h s t)
  then show ?case using usable_area_inv by blast
next
  case (OutputGone h s t)
  then show ?case using output_destroy_inv by blast
next
  case (AddView s v t)
  then show ?case using add_new_view_inv by blast
next
  case (Position v s t)
  then show ?case using position_inv by blast
next
  case (Minimize v s t)
  then show ?case using minimize_inv by blast
next
  case (Unmap v s t)
  then show ?case using unmap_inv by blast
next
  case (Workspace v s t)
  then show ?case using workspace_inv by blast
next
  case (WorkspaceGone s q p t)
  then show ?case using workspace_gone_good by blast
next
  case (ViewChange w s v)
  then show ?case by (simp add: pm_good_def)
qed

interpretation pos_steps: step_invariant "\<lambda>_. True" "\<lambda>_ s t. \<exists>env. env_ok env \<and> pos_step env s t" pm_good
  by unfold_locales (use pos_step_good in blast)

text \<open>The states a run from the start reaches.\<close>

definition pos_reachable :: "(ptr \<Rightarrow> view) \<Rightarrow> positioner_manager \<Rightarrow> bool" where
  "pos_reachable views s \<longleftrightarrow> (\<lambda>s t. \<exists>env. env_ok env \<and> pos_step env s t)\<^sup>*\<^sup>* (positioner_manager_create views) s"

lemma create_good: "\<forall>v. margins_ok (views v) \<Longrightarrow> pm_good (positioner_manager_create views)"
  by (simp add: pm_good_def pm_inv_def positioner_manager_create_def new_positioner_def pos_inv_def)

lemma reachable_good: "\<forall>v. margins_ok (views v) \<Longrightarrow> pos_reachable views s \<Longrightarrow> pm_good s"
  unfolding pos_reachable_def using pos_steps.steps_keep [OF _ TrueI create_good] by blast

text \<open>C17: in every state the handlers of views, workspaces and outputs reach while no grid loses slots, the margins of
  the views are below 50 pixels and memory for slots is available, each slot of a
  place counts exactly the views in it, the free list links exactly the unused slots below the last one, both ways
  and without repetition, and every search along it ends.\<close>

theorem slots_count_views:
  assumes "\<forall>v. margins_ok (views v)" "pos_reachable views s" "pm_places s q = Some p"
  shows "(\<forall>i. 0 \<le> i \<and> i \<le> place_max s p \<longrightarrow>
      entries_at p i = int (length (filter (\<lambda>v. map_option en_slot (pm_entries s v) = Some i) (pl_entries p)))) \<and>
    (\<exists>fs. distinct fs \<and> free_list p = first (-1) fs \<and> chain (slots p) (-1) fs (-1) \<and>
      set fs = {i. 0 \<le> i \<and> i < last_slot p \<and> (\<forall>v \<in> set (pl_entries p). map_option en_slot (pm_entries s v) \<noteq> Some i)} \<and>
      (\<forall>pos v. free_search pos v (slots p) (free_list p) = Some (Inr (new_slot_search pos v fs))))"
proof -
  have ok: "place_ok (place_max s p) (count_slots (slot_of s) (pl_entries p)) p"
    by (rule pm_inv_place(1) [OF good_parts(1) [OF reachable_good [OF assms(1,2)]] assms(3)])
  have c: "count_slots (slot_of s) (pl_entries p) i = int (length (filter (\<lambda>v. map_option en_slot (pm_entries s v) = Some i) (pl_entries p)))" for i
    by (simp add: count_slots_def slot_of_def)
  obtain fs where fs: "flist p fs" "set fs = {i. 0 \<le> i \<and> i < last_slot p \<and> count_slots (slot_of s) (pl_entries p) i = 0}"
    using ok by (auto simp: place_ok_def)
  have "free_search pos v (slots p) (free_list p) = Some (Inr (new_slot_search pos v fs))" for pos v
    using free_search_chain [of "slots p" "-1" fs] fs(1) by (simp add: flist_def)
  moreover have "set fs = {i. 0 \<le> i \<and> i < last_slot p \<and> (\<forall>v \<in> set (pl_entries p). map_option en_slot (pm_entries s v) \<noteq> Some i)}"
    using fs(2) by (simp add: c filter_empty_conv)
  moreover have "\<forall>i. 0 \<le> i \<and> i \<le> place_max s p \<longrightarrow> entries_at p i = count_slots (slot_of s) (pl_entries p) i"
    using ok by (auto simp: place_ok_def)
  ultimately show ?thesis using fs(1) c by (auto simp: flist_def)
qed

lemma env_ok_shrink: "env_ok (shrink_env w h)"
  by (simp add: env_ok_def shrink_env_def)

lemma plain_margins: "\<forall>v. margins_ok plain_view"
  by (simp add: margins_ok_def plain_view_def plain_base_def)

definition two_steps :: "positioner_manager option" where
  "two_steps = do {
     s \<leftarrow> positioner_handle_new_output (shrink_env 800 700) 1 (positioner_manager_create (\<lambda>_. plain_view));
     positioner_add_new_view (shrink_env 800 700) 2 s}"

lemma two_steps_state:
  "map_option (\<lambda>s. map_option (\<lambda>p. (entries_at p 0, pl_entries p, place_max s p)) (pm_places s 0)) two_steps = Some (Some (1, [2], 11))"
  "map_option (\<lambda>s. (pm_entries s 2 = None, mapped (base (pm_views s 2)))) (positioner_handle_new_output (shrink_env 800 700) 1
     (positioner_manager_create (\<lambda>_. plain_view))) = Some (True, False)"
  by code_simp+

lemma two_env_steps:
  assumes "env_ok env" "pos_step env (positioner_manager_create views) t" "pos_step env t u"
  shows "pos_reachable views u"
proof -
  let ?R = "\<lambda>s t. \<exists>env. env_ok env \<and> pos_step env s t"
  have "?R (positioner_manager_create views) t" "?R t u" using assms by blast+
  then have "?R\<^sup>*\<^sup>* (positioner_manager_create views) u" by (rule converse_rtranclp_into_rtranclp [OF _ r_into_rtranclp])
  then show ?thesis unfolding pos_reachable_def .
qed

lemma two_steps_reachable:
  assumes "two_steps = Some s"
  shows "pos_reachable (\<lambda>_. plain_view) s"
proof -
  let ?env = "shrink_env 800 700" and ?s0 = "positioner_manager_create (\<lambda>_. plain_view)"
  obtain s1 where s1: "positioner_handle_new_output ?env 1 ?s0 = Some s1" "positioner_add_new_view ?env 2 s1 = Some s"
    using assms by (auto simp: two_steps_def bind_eq_Some_conv)
  have "pos_step ?env ?s0 s1"
    by (rule pos_step.NewOutput [OF s1(1)]) (simp add: positioner_from_output_def positioner_manager_create_def)
  moreover have "pos_step ?env s1 s"
    by (rule pos_step.AddView [of _ 2]) (use two_steps_state(2) s1 in auto)
  ultimately show ?thesis by (rule two_env_steps [OF env_ok_shrink])
qed

theorem slots_count_views_witness:
  "\<exists>s p. pos_reachable (\<lambda>_. plain_view) s \<and> pm_places s 0 = Some p \<and> entries_at p 0 = 1 \<and>
     length (filter (\<lambda>v. map_option en_slot (pm_entries s v) = Some 0) (pl_entries p)) = 1"
proof -
  obtain s p where s: "two_steps = Some s" "pm_places s 0 = Some p" "entries_at p 0 = 1" "place_max s p = 11"
    using two_steps_state(1) by auto
  note r = two_steps_reachable [OF s(1)]
  show ?thesis using slots_count_views [OF plain_margins r s(2)] r s(2-4) by (intro exI [of _ s] exI [of _ p]) auto
qed

lemma grid_of_output:
  assumes "positioner_update_grid usable (output_props out (new_positioner name)) = (True, pos)"
  shows "grid_ok pos" "gap_column pos = 50" "gap_row pos = 50"
proof -
  show "grid_ok pos" by (rule update_grid_ok [OF _ _ assms]) (simp_all add: output_props_def grid_consts)
  show "gap_column pos = 50" "gap_row pos = 50"
    using assms by (auto simp: positioner_update_grid_def Let_def output_props_def grid_consts split: if_splits)
qed

text \<open>C19: the numbering of the slots and the positions are inverse to each other on every grid that is laid out: a view
  with margins below 50 pixels at the position of a slot has that slot, and a view whose frame begins in the grid and
  that has a slot begins in the cell of that slot.\<close>

theorem slot_position_roundtrip:
  assumes "positioner_update_grid usable (output_props out (new_positioner name)) = (True, pos)"
  shows "(\<forall>slot. 0 \<le> slot \<and> slot \<le> max_slot pos \<longrightarrow> (\<exists>x y. positioner_calc_position pos slot = Some (x, y) \<and>
      (\<forall>w. margins_ok w \<and> box_x (geometry (base w)) = x + off_x (base w) \<and> box_y (geometry (base w)) = y + off_y (base w) \<longrightarrow>
         positioner_calc_slot pos (base w) = Some slot))) \<and>
    (\<forall>v k. positioner_calc_slot pos v = Some k \<and> 0 \<le> off_x v \<and> 0 \<le> off_y v \<and>
       box_x (grid_area pos) \<le> box_x (geometry v) - off_x v \<and> box_y (grid_area pos) \<le> box_y (geometry v) - off_y v \<longrightarrow>
       0 \<le> k \<and> k \<le> max_slot pos \<and> (\<exists>x y. positioner_calc_position pos k = Some (x, y) \<and>
         x \<le> box_x (geometry v) - off_x v \<and> box_x (geometry v) - off_x v < x + 50 \<and>
         y \<le> box_y (geometry v) - off_y v \<and> box_y (geometry v) - off_y v < y + 50))"
proof (intro conjI allI impI, elim conjE)
  note g = grid_of_output(1) [OF assms] and gap = grid_of_output(2,3) [OF assms]
  fix slot :: int
  assume slot: "0 \<le> slot" "slot \<le> max_slot pos"
  obtain x y where xy: "positioner_calc_position pos slot = Some (x, y)"
    using slot(2) by (cases "slot_cell (num_step pos) (num_column pos) (key_slot pos) slot") (simp add: positioner_calc_position_def)
  then show "\<exists>x y. positioner_calc_position pos slot = Some (x, y) \<and>
      (\<forall>w. margins_ok w \<and> box_x (geometry (base w)) = x + off_x (base w) \<and> box_y (geometry (base w)) = y + off_y (base w) \<longrightarrow>
         positioner_calc_slot pos (base w) = Some slot)"
    using calc_slot_of_position [OF g slot(1) xy] gap by (auto simp: margins_ok_def)
qed (use position_of_calc_slot grid_of_output [OF assms] in fastforce)+

theorem slot_position_roundtrip_witness:
  "\<exists>pos. positioner_update_grid \<lparr>box_x = 0, box_y = 0, box_width = 800, box_height = 700\<rparr> (output_props 1 (new_positioner [])) = (True, pos) \<and>
     max_slot pos = 11 \<and> (\<exists>x y. positioner_calc_position pos 7 = Some (x, y))"
proof -
  let ?r = "positioner_update_grid \<lparr>box_x = 0, box_y = 0, box_width = 800, box_height = 700\<rparr> (output_props 1 (new_positioner []))"
  have s: "fst ?r" "max_slot (snd ?r) = 11" by code_simp+
  obtain b pos where p: "?r = (b, pos)" by (rule prod.exhaust)
  have r: "?r = (True, pos)" "max_slot pos = 11" using s by (simp_all add: p)
  have "0 \<le> (7::int) \<and> 7 \<le> max_slot pos" using r(2) by simp
  then have "\<exists>x y. positioner_calc_position pos 7 = Some (x, y)" using slot_position_roundtrip [OF r(1)] by blast
  then show ?thesis using r by blast
qed

subsection \<open>Opening a view\<close>

text \<open>The slots of a place that are taken.\<close>

definition in_slot :: "positioner_manager \<Rightarrow> handle \<Rightarrow> int \<Rightarrow> ptr \<Rightarrow> bool" where
  "in_slot s q i u = (case pm_entries s u of None \<Rightarrow> False | Some e \<Rightarrow> en_place e = Some q \<and> en_slot e = i)"

lemma count_zero_iff:
  assumes "pm_inv s" "pm_places s q = Some p"
  shows "count_slots (slot_of s) (pl_entries p) i = 0 \<longleftrightarrow> (\<forall>u. \<not> in_slot s q i u)"
proof
  assume z: "count_slots (slot_of s) (pl_entries p) i = 0"
  show "\<forall>u. \<not> in_slot s q i u"
  proof (intro allI notI)
    fix u
    assume "in_slot s q i u"
    then obtain e where e: "pm_entries s u = Some e" "en_place e = Some q" "en_slot e = i" by (auto simp: in_slot_def split: option.splits)
    obtain p' where "pm_places s q = Some p'" "u \<in> set (pl_entries p')" by (rule pm_inv_entry [OF assms(1) e(1,2)])
    then show False using z assms(2) e by (auto simp: count_slots_def slot_of_def filter_empty_conv)
  qed
next
  assume n: "\<forall>u. \<not> in_slot s q i u"
  have "slot_of s u \<noteq> Some i" if u: "u \<in> set (pl_entries p)" for u
  proof -
    obtain e where "pm_entries s u = Some e" "en_place e = Some q" using pm_inv_place(3) [OF assms u] by blast
    then show ?thesis using n spec [OF n, of u] by (simp add: in_slot_def slot_of_def)
  qed
  then show "count_slots (slot_of s) (pl_entries p) i = 0" by (simp add: count_slots_def filter_empty_conv)
qed

lemma get_place_some:
  assumes "pm_good s" "env_ok env" "pe_calloc env" "current_proxy (pm_views s v) \<noteq> NULL"
  obtains q s1 where "positioner_get_place env (Some h) v s = (Some q, s1)"
    "map_option pl_workspace (pm_places s1 q) = Some (pe_workspace env (current_proxy (pm_views s v)))"
proof -
  let ?ws = "pe_workspace env (current_proxy (pm_views s v))" and ?m = "max_slot (pm_pos s h)"
  have m: "0 \<le> ?m" "0 \<le> min 31 (?m sdiv 4)" "min 31 (?m sdiv 4) \<le> ?m"
    using pos_inv_max [OF pm_inv_pos [OF good_parts(1) [OF assms(1)]], of h] by (auto simp: sdiv_nonneg)
  obtain p where p: "place_find_slot True ?m (min 31 (?m sdiv 4)) (new_place ?ws h) = Some p" "place_ok ?m (\<lambda>_. 0) p"
    "same_place (new_place ?ws h) p"
    by (rule place_ok_find [OF place_ok_new m(2,3)]) (use m(1) in simp)
  have w: "pl_workspace p = ?ws" using p(3) by (simp add: same_place_def new_place_def)
  let ?f = "find (\<lambda>q. map_option pl_workspace (pm_places s q) = Some ?ws) (places (pm_pos s h))"
  show ?thesis
  proof (cases ?f)
    case None
    then show ?thesis
      using that p(1) w good_parts(2) [OF assms(2)] assms(3,4) by (simp add: positioner_get_place_def Let_def upd_pos_def del: map_option_eq_Some)
  next
    case (Some q)
    then have "map_option pl_workspace (pm_places s q) = Some ?ws" by (auto simp: find_Some_iff)
    then show ?thesis using that Some assms(4) by (simp add: positioner_get_place_def Let_def del: map_option_eq_Some)
  qed
qed

lemma frame_suitable:
  assumes "frame_pm s t"
  shows "slot_is_suitable (pm_pos t h) v i = slot_is_suitable (pm_pos s h) v i" "max_slot (pm_pos t h) = max_slot (pm_pos s h)"
    "num_step (pm_pos t h) = num_step (pm_pos s h)" "po_usable (pm_pos t h) = po_usable (pm_pos s h)"
proof -
  have pl: "slot_is_suitable (pos\<lparr>places := []\<rparr>) v i = slot_is_suitable pos v i" for pos :: positioner
    by (cases "slot_cell (num_step pos) (num_column pos) (key_slot pos) i")
      (simp add: slot_is_suitable_def positioner_calc_position_def Let_def)
  have e: "(pm_pos t h)\<lparr>places := []\<rparr> = (pm_pos s h)\<lparr>places := []\<rparr>" using assms by (simp add: frame_pm_def)
  show "slot_is_suitable (pm_pos t h) v i = slot_is_suitable (pm_pos s h) v i" using pl e by metis
  show "max_slot (pm_pos t h) = max_slot (pm_pos s h)" "num_step (pm_pos t h) = num_step (pm_pos s h)"
    "po_usable (pm_pos t h) = po_usable (pm_pos s h)" using e by (cases "pm_pos t h"; cases "pm_pos s h"; simp)+
qed

text \<open>The frame a view asks for: its pending position and its size, with the margins.\<close>

definition pending_frame :: "view \<Rightarrow> kywc_box" where
  "pending_frame w = \<lparr>box_x = box_x (p_geometry (v_pending w)) - off_x (base w), box_y = box_y (p_geometry (v_pending w)) - off_y (base w),
     box_width = box_width (geometry (base w)) + off_width (base w), box_height = box_height (geometry (base w)) + off_height (base w)\<rparr>"

lemma add_new_view_slot:
  assumes s: "pm_good s" "env_ok env" "pe_calloc env" and v: "pm_entries s v = None" "\<not> mapped (base (pm_views s v))"
    "current_proxy (pm_views s v) \<noteq> NULL" "\<not> plain_new (base (pm_views s v))"
    "v_parent (pm_views s v) = NULL \<or> \<not> mapped (base (pm_views s (v_parent (pm_views s v))))"
    and h: "positioner_from_output env (v_output (pm_views s v)) s = Some (Some h)" "num_step (pm_pos s h) \<noteq> 0"
  obtains t e q p where "positioner_add_new_view env v s = Some t" "pm_entries t v = Some e" "en_place e = Some q"
    "pm_places t q = Some p" "pl_positioner p = h" "pl_workspace p = pe_workspace env (current_proxy (pm_views s v))"
    "\<And>i. 0 \<le> i \<Longrightarrow> i \<le> max_slot (pm_pos s h) \<Longrightarrow> \<forall>u. \<not> in_slot s q i u \<Longrightarrow>
        slot_is_suitable (pm_pos s h) (base (pm_views s v)) i \<noteq> None \<Longrightarrow>
        (\<forall>u. u \<noteq> v \<longrightarrow> \<not> in_slot t q (en_slot e) u) \<and> box_inside (pending_frame (pm_views t v)) (po_usable (pm_pos s h))"
proof -
  let ?w = "pm_views s v"
  obtain q s1 where g: "positioner_get_place env (Some h) v s = (Some q, s1)"
    "map_option pl_workspace (pm_places s1 q) = Some (pe_workspace env (current_proxy ?w))"
    by (rule get_place_some [OF s v(3)])
  let ?s2 = "s1\<lparr>pm_entries := (pm_entries s1)(v \<mapsto> new_entry)\<rparr>"
  obtain p where p: "pm_good s1" "pm_good ?s2" "pm_places ?s2 q = Some p" "pl_positioner p = h" "pm_views s1 = pm_views s"
      "frame_pm s ?s2" "pm_entries s1 = pm_entries s"
    by (rule place_of_new_view [OF s(1,2) v(1) h(1) g(1)])
  note fr = frame_suitable [OF p(6)]
  obtain x y geo where cp: "child_position env v ?s2 = (x, y, geo)" by (rule prod_cases3)
  have p1: "pm_places s1 q = Some p" "\<not> mapped (base (pm_views ?s2 v))" "pm_entries ?s2 v = Some new_entry" using p(3,5) v(2) by simp_all
  have po: "pos_ok (pm_pos ?s2 h)"
    using pm_inv_pos [OF good_parts(1) [OF p(2)], of h] h(2) fr(3) [of h] by (auto simp: pos_inv_def)
  then have go: "grid_ok (pm_pos ?s2 (pl_positioner p))" by (simp add: p(4) pos_ok_def)
  let ?b = "base (pm_views ?s2 v)" and ?cnt = "count_slots (slot_of ?s2) (pl_entries p)" and ?pos = "pm_pos ?s2 (pl_positioner p)"
  obtain t slot x y where t: "do {
       (slot, lx, ly, p) \<leftarrow> choose_slot (pe_realloc env) ?pos ?b p;
       s \<leftarrow> change_view env v (\<lambda>w. view_do_move (pe_impl env v) w lx ly) (?s2\<lparr>pm_places := (pm_places ?s2)(q \<mapsto> p)\<rparr>);
       place_insert_entry env (Some q) v slot s} = Some t" "pm_good t"
    "pm_entries t = (pm_entries ?s2)(v \<mapsto> new_entry\<lparr>en_slot := slot, en_place := Some q\<rparr>)"
    "pm_views t v = moved_to x y (pm_views ?s2 v)" "changed_place q ?s2 t" "0 \<le> slot"
    "(\<exists>i. 0 \<le> i \<and> i \<le> max_slot ?pos \<and> ?cnt i = 0 \<and> slot_is_suitable ?pos ?b i \<noteq> None) \<longrightarrow>
       ?cnt slot = 0 \<and> slot_is_suitable ?pos ?b slot = Some (x, y)"
    by (rule choose_good [OF p(2) s(2) p1(3) p(3) p1(2) go])
  have np: "\<not> (v_parent ?w \<noteq> NULL \<and> mapped (base (pm_views s (v_parent ?w))))" using v(5) by blast
  have a: "positioner_add_new_view env v s = Some t"
    unfolding add_new_view_eq [OF h(1) g(1) p(5) p1(1) s(3) cp] if_not_P [OF v(4)] if_not_P [OF np] using t(1) p(4,5) by simp
  obtain p' where p': "pm_places t q = Some p'" "pl_positioner p' = h" "pl_workspace p' = pl_workspace p"
    using t(5) p(3,4) by (auto simp: changed_place_def)
  have "in_slot ?s2 q i u = in_slot s q i u" for i u
    using v(1) p(7) by (cases "u = v") (simp_all add: in_slot_def new_entry_def)
  then have free: "?cnt i = 0 \<longleftrightarrow> (\<forall>u. \<not> in_slot s q i u)" for i
    unfolding count_zero_iff [OF good_parts(1) [OF p(2)] p(3)] by simp
  have "(\<forall>u. u \<noteq> v \<longrightarrow> \<not> in_slot t q slot u) \<and> box_inside (pending_frame (pm_views t v)) (po_usable (pm_pos s h))"
    if i: "0 \<le> i" "i \<le> max_slot (pm_pos s h)" "\<forall>u. \<not> in_slot s q i u" "slot_is_suitable (pm_pos s h) (base ?w) i \<noteq> None" for i
  proof -
    have f: "?cnt slot = 0" "slot_is_suitable ?pos ?b slot = Some (x, y)"
      using t(7) i free [of i] fr(1) [of h "base ?w" i] fr(2) [of h] p(4,5) by auto
    have n: "\<not> in_slot t q slot u" if "u \<noteq> v" for u
      using spec [OF iffD1 [OF free f(1)], of u] that t(3) p(7) by (simp add: in_slot_def)
    have "pending_frame (pm_views t v) = \<lparr>box_x = x - off_x ?b, box_y = y - off_y ?b, box_width = box_width (geometry ?b) + off_width ?b,
        box_height = box_height (geometry ?b) + off_height ?b\<rparr>"
      by (simp add: t(4) pending_frame_def) (simp add: moved_to_def upd_pending_def)
    then show ?thesis using suitable_inside [OF po t(6) f(2) [unfolded p(4)]] fr(4) [of h] n by simp
  qed
  then show ?thesis using that [of t "new_entry\<lparr>en_slot := slot, en_place := Some q\<rparr>" q p'] a t(3) p' g(2) p1(1) by simp
qed

text \<open>C18: in a state of a run in which no grid has lost slots, with memory available and margins below 50 pixels, on an
  output whose grid is laid out, opening a view that is neither a child of a mapped view nor maximised, minimised,
  full screen or placed by its client returns and enters the view in the place of its workspace on its output; when
  some unused slot is large enough for the view, it is alone in its slot and its frame lies inside the usable area.
  After a grid has lost slots the search need not end.\<close>

theorem new_view_gets_free_slot:
  assumes "\<forall>v. margins_ok (views v)" "pos_reachable views s" "env_ok env" "pe_calloc env"
    and "pm_entries s v = None" "w = pm_views s v" "\<not> mapped (base w)" "current_proxy w \<noteq> NULL"
    "\<not> (maximized (base w) \<or> minimized (base w) \<or> fullscreen (base w) \<or> has_initial_position (base w))"
    "v_parent w = NULL \<or> \<not> mapped (base (pm_views s (v_parent w)))"
    and "positioner_from_output env (v_output w) s = Some (Some h)" "num_step (pm_pos s h) \<noteq> 0"
  shows "\<exists>t e q p. positioner_add_new_view env v s = Some t \<and> pm_entries t v = Some e \<and> en_place e = Some q \<and>
    pm_places t q = Some p \<and> pl_positioner p = h \<and> pl_workspace p = pe_workspace env (current_proxy w) \<and>
    ((\<exists>i. 0 \<le> i \<and> i \<le> max_slot (pm_pos s h) \<and> (\<forall>u. \<not> in_slot s q i u) \<and> slot_is_suitable (pm_pos s h) (base w) i \<noteq> None) \<longrightarrow>
      (\<forall>u. u \<noteq> v \<longrightarrow> \<not> in_slot t q (en_slot e) u) \<and> box_inside (pending_frame (pm_views t v)) (po_usable (pm_pos s h)))"
proof -
  note r = assms(5,7-12) [unfolded assms(6), folded plain_new_def]
  show ?thesis
    by (rule add_new_view_slot [OF reachable_good [OF assms(1,2)] assms(3,4) r(1-3)])
      (use r assms(6) in \<open>auto simp: plain_new_def\<close>)
qed

theorem new_view_gets_free_slot_witness:
  "\<exists>s t. positioner_handle_new_output (shrink_env 800 700) 1 (positioner_manager_create (\<lambda>_. plain_view)) = Some s \<and>
     positioner_add_new_view (shrink_env 800 700) 2 s = Some t \<and> pm_entries t 2 \<noteq> None"
proof -
  let ?env = "shrink_env 800 700" and ?s0 = "positioner_manager_create (\<lambda>_. plain_view)"
  have "map_option (\<lambda>s. (pm_entries s 2 = None, num_step (pm_pos s 0) \<noteq> 0, pm_views s 2 = plain_view,
      positioner_from_output ?env (v_output plain_view) s = Some (Some 0))) (positioner_handle_new_output ?env 1 ?s0) =
    Some (True, True, True, True)" by code_simp
  then obtain s where s: "positioner_handle_new_output ?env 1 ?s0 = Some s" "pm_entries s 2 = None" "num_step (pm_pos s 0) \<noteq> 0"
    "pm_views s 2 = plain_view" "positioner_from_output ?env (v_output plain_view) s = Some (Some 0)" by auto
  have st: "pos_step ?env ?s0 s"
    by (rule pos_step.NewOutput [OF s(1)]) (simp add: positioner_from_output_def positioner_manager_create_def)
  have r: "pos_reachable (\<lambda>_. plain_view) s"
    unfolding pos_reachable_def by (rule r_into_rtranclp) (use st env_ok_shrink in blast)
  have p: "\<not> mapped (base plain_view)" "current_proxy plain_view \<noteq> NULL" "v_parent plain_view = NULL"
    "\<not> (maximized (base plain_view) \<or> minimized (base plain_view) \<or> fullscreen (base plain_view) \<or> has_initial_position (base plain_view))"
    "pe_calloc ?env" by code_simp+
  show ?thesis
    using new_view_gets_free_slot [OF plain_margins r env_ok_shrink p(5) s(2) s(4) [symmetric] p(1,2,4) disjI1 [OF p(3)] s(5,3)] s(1) by auto
qed

text \<open>A child is moved, and resized when it has to be, so that its frame lies inside the usable area of the output of
  its parent.\<close>

theorem child_fits_usable_area:
  "case child_view_fix_geometry usable v lx ly of (x, y, resized) \<Rightarrow>
     let geo = (case resized of None \<Rightarrow> \<lparr>box_x = x, box_y = y, box_width = box_width (geometry v), box_height = box_height (geometry v)\<rparr>
       | Some geo \<Rightarrow> geo)
     in box_x geo = x \<and> box_y geo = y \<and>
       box_inside \<lparr>box_x = box_x geo - off_x v, box_y = box_y geo - off_y v, box_width = box_width geo + off_width v,
         box_height = box_height geo + off_height v\<rparr> usable"
  by (simp add: child_view_fix_geometry_def Let_def box_inside_def)

end
