(* ===== verification/Idle.thy ===== *)
theory Idle
  imports Prelude "HOL-Library.Monad_Syntax"
begin

section \<open>Idle timers and inhibitors (\<^verbatim>\<open>input/idle.c\<close>, \<^verbatim>\<open>input/idle_inhibit.c\<close>)\<close>

text \<open>
  Clients and the server ask to be told when a seat has been idle for a time; inhibitors on visible surfaces hold
  the timers back. Timers live in a heap. The calls of the functions of a timer are recorded in order; for a
  client they are the events \<^verbatim>\<open>idled\<close> and \<^verbatim>\<open>resumed\<close>. \<^term>\<open>None\<close> is the use of a null pointer, a second
  insertion of a listener that is in a list, or the removal of one from the list of a view that was freed. An event source of the display is \<^term>\<open>Some None\<close> when it is not armed
  and \<^term>\<open>Some (Some ms)\<close> when it is; it fires once.
\<close>

subsection \<open>Timers\<close>

datatype idle_type = IDLE_FROM_KDE_IDLE | IDLE_FROM_IDLE_NOTIFIER | IDLE_FROM_SERVER

record idle =
  id_type :: idle_type
  timeout_ms :: u32
  id_timer :: "u32 option option"
  idle_state :: bool
  support_inhibit :: bool
  id_seat :: ptr
  has_destroy_func :: bool
  id_data :: nat

datatype idle_call = CallIdle nat | CallResume nat | CallDestroy nat

text \<open>\<open>user_data\<close> maps the resources that are alive to the timer they are for.\<close>

record idle_manager =
  idles :: "nat list"
  idle_heap :: "nat \<Rightarrow> idle option"
  next_idle :: nat
  inhibited :: bool
  user_data :: "nat \<Rightarrow> nat option option"
  idle_calls :: "idle_call list"

definition upd_idle :: "nat \<Rightarrow> (idle \<Rightarrow> idle) \<Rightarrow> idle_manager \<Rightarrow> idle_manager" where
  "upd_idle p f s = s\<lparr>idle_heap := (idle_heap s)(p := map_option f (idle_heap s p))\<rparr>"

definition idle_record :: "idle_call \<Rightarrow> idle_manager \<Rightarrow> idle_manager" where
  "idle_record c s = s\<lparr>idle_calls := idle_calls s @ [c]\<rparr>"

text \<open>Arming an event source. The delay of \<^verbatim>\<open>wl_event_source_timer_update\<close> is an \<^verbatim>\<open>int\<close>: the unsigned time-out is
  converted, and a delay that is not positive disarms the source.\<close>

definition idle_timer_update :: "u32 \<Rightarrow> idle \<Rightarrow> idle" where
  "idle_timer_update ms i = i\<lparr>id_timer := Some (if 0 < sint ms then Some ms else None)\<rparr>"

definition idle_set_idle :: "nat \<Rightarrow> bool \<Rightarrow> idle_manager \<Rightarrow> idle_manager option" where
  "idle_set_idle p state s = do {
     i \<leftarrow> idle_heap s p;
     if idle_state i = state then Some s
     else let s = idle_record (if state then CallIdle p else CallResume p) s
          in Some (upd_idle p (\<lambda>i. i\<lparr>idle_state := state\<rparr>) s)}"

text \<open>The event source is disarmed when it has fired.\<close>

definition idle_handle_timer :: "nat \<Rightarrow> idle_manager \<Rightarrow> idle_manager option" where
  "idle_handle_timer p s = idle_set_idle p True (upd_idle p (\<lambda>i. i\<lparr>id_timer := Some None\<rparr>) s)"

definition idle_destroy :: "nat option \<Rightarrow> idle_manager \<Rightarrow> idle_manager option" where
  "idle_destroy idle s =
     (case idle of None \<Rightarrow> Some s
      | Some p \<Rightarrow> do {
          i \<leftarrow> idle_heap s p;
          let s = (if has_destroy_func i then idle_record (CallDestroy p) s else s);
          let s = s\<lparr>idles := removeAll p (idles s)\<rparr>;
          let s = (if id_type i \<noteq> IDLE_FROM_SERVER then s\<lparr>user_data := (user_data s)(id_data i := Some None)\<rparr> else s);
          Some (s\<lparr>idle_heap := (idle_heap s)(p := None)\<rparr>)})"

definition idle_reset_timer :: "nat \<Rightarrow> idle_manager \<Rightarrow> idle_manager option" where
  "idle_reset_timer p s = do {
     i \<leftarrow> idle_heap s p;
     if inhibited s \<and> support_inhibit i then do {
       s \<leftarrow> idle_set_idle p False s;
       Some (if id_timer i \<noteq> None then upd_idle p (idle_timer_update 0) s else s)}
     else if id_timer i \<noteq> None then Some (upd_idle p (idle_timer_update (timeout_ms i)) s)
     else idle_set_idle p True s}"

text \<open>The seat's signal reaches its timers in the order of their creation.\<close>

fun destroy_idles :: "nat list \<Rightarrow> idle_manager \<Rightarrow> idle_manager option" where
  "destroy_idles [] s = Some s"
| "destroy_idles (p # ps) s = do { s \<leftarrow> idle_destroy (Some p) s; destroy_idles ps s }"

definition idle_handle_seat_destroy :: "ptr \<Rightarrow> idle_manager \<Rightarrow> idle_manager option" where
  "idle_handle_seat_destroy seat s =
     destroy_idles (rev (filter (\<lambda>p. map_option id_seat (idle_heap s p) = Some seat) (idles s))) s"

text \<open>The two flags say whether memory and an event source could be had.\<close>

definition idle_create :: "bool \<Rightarrow> bool \<Rightarrow> idle_type \<Rightarrow> ptr \<Rightarrow> bool \<Rightarrow> u32 \<Rightarrow> bool \<Rightarrow> nat \<Rightarrow> idle_manager \<Rightarrow>
    nat option \<times> idle_manager" where
  "idle_create alloc timer_ok type seat support timeout destroy_func data s =
     (if \<not> alloc then (None, s)
      else if timeout > 0 \<and> \<not> timer_ok then (None, s)
      else
        let p = next_idle s;
            i = \<lparr>id_type = type, timeout_ms = timeout, id_timer = (if timeout > 0 then Some None else None), idle_state = False,
                 support_inhibit = support, id_seat = seat, has_destroy_func = destroy_func, id_data = data\<rparr>
        in (Some p, s\<lparr>idle_heap := (idle_heap s)(p \<mapsto> i), next_idle := p + 1, idles := p # idles s\<rparr>))"

subsection \<open>Requests of clients\<close>

text \<open>What the three requests that create a timer share; \<open>seat\<close> is \<^term>\<open>None\<close> when the seat's resource is inert.\<close>

definition new_timer_resource :: "bool \<Rightarrow> bool \<Rightarrow> idle_type \<Rightarrow> bool \<Rightarrow> nat \<Rightarrow> u32 \<Rightarrow> ptr option \<Rightarrow> idle_manager \<Rightarrow>
    idle_manager option" where
  "new_timer_resource alloc timer_ok type support resource timeout seat s =
     (let s = s\<lparr>user_data := (user_data s)(resource := Some None)\<rparr> in
      case seat of None \<Rightarrow> Some s
      | Some seat \<Rightarrow>
        (case idle_create alloc timer_ok type seat support timeout False resource s of
           (None, s) \<Rightarrow> Some s
         | (Some p, s) \<Rightarrow> idle_reset_timer p (s\<lparr>user_data := (user_data s)(resource := Some (Some p))\<rparr>)))"

definition idle_notifier_get_idle_notification :: "bool \<Rightarrow> bool \<Rightarrow> nat \<Rightarrow> u32 \<Rightarrow> ptr option \<Rightarrow> idle_manager \<Rightarrow> idle_manager option" where
  "idle_notifier_get_idle_notification alloc timer_ok resource timeout seat s =
     new_timer_resource alloc timer_ok IDLE_FROM_IDLE_NOTIFIER True resource timeout seat s"

definition idle_notifier_get_input_idle_notification :: "bool \<Rightarrow> bool \<Rightarrow> nat \<Rightarrow> u32 \<Rightarrow> ptr option \<Rightarrow> idle_manager \<Rightarrow>
    idle_manager option" where
  "idle_notifier_get_input_idle_notification alloc timer_ok resource timeout seat s =
     new_timer_resource alloc timer_ok IDLE_FROM_IDLE_NOTIFIER False resource timeout seat s"

definition kde_idle_get_idle_timeout :: "bool \<Rightarrow> bool \<Rightarrow> nat \<Rightarrow> u32 \<Rightarrow> ptr option \<Rightarrow> idle_manager \<Rightarrow> idle_manager option" where
  "kde_idle_get_idle_timeout alloc timer_ok resource timeout seat s =
     new_timer_resource alloc timer_ok IDLE_FROM_KDE_IDLE True resource timeout seat s"

text \<open>The end of a resource, by the request of its client or with the client; \<^verbatim>\<open>idle_timeout_release\<close> ends the timer
  and leaves the resource alive.\<close>

definition idle_timeout_destroy :: "nat \<Rightarrow> idle_manager \<Rightarrow> idle_manager option" where
  "idle_timeout_destroy resource s = do { d \<leftarrow> user_data s resource; idle_destroy d s }"

definition idle_timeout_release :: "nat \<Rightarrow> idle_manager \<Rightarrow> idle_manager option" where
  "idle_timeout_release resource s = idle_timeout_destroy resource s"

definition idle_notification_destroy :: "nat \<Rightarrow> idle_manager \<Rightarrow> idle_manager option" where
  "idle_notification_destroy resource s = do { d \<leftarrow> user_data s resource; idle_destroy d s }"

definition resource_gone :: "nat \<Rightarrow> idle_manager \<Rightarrow> idle_manager option" where
  "resource_gone resource s = do {
     s \<leftarrow> idle_notification_destroy resource s;
     Some (s\<lparr>user_data := (user_data s)(resource := None)\<rparr>)}"

definition simulate_activity :: "nat \<Rightarrow> idle_manager \<Rightarrow> idle_manager option" where
  "simulate_activity resource s = do {
     d \<leftarrow> user_data s resource;
     p \<leftarrow> d;
     i \<leftarrow> idle_heap s p;
     let s = (if idle_state i then idle_record (CallResume p) (upd_idle p (\<lambda>i. i\<lparr>idle_state := False\<rparr>) s) else s);
     if id_timer i \<noteq> None then Some (upd_idle p (idle_timer_update (timeout_ms i)) s)
     else idle_set_idle p True s}"

subsection \<open>The manager\<close>

definition idle_manager_create :: idle_manager where
  "idle_manager_create = \<lparr>idles = [], idle_heap = (\<lambda>_. None), next_idle = 0, inhibited = False, user_data = (\<lambda>_. None),
     idle_calls = []\<rparr>"

fun reset_supporting :: "nat list \<Rightarrow> idle_manager \<Rightarrow> idle_manager option" where
  "reset_supporting [] s = Some s"
| "reset_supporting (p # ps) s = do {
     i \<leftarrow> idle_heap s p;
     s \<leftarrow> (if support_inhibit i then idle_reset_timer p s else Some s);
     reset_supporting ps s}"

definition idle_manager_set_inhibited :: "bool \<Rightarrow> idle_manager \<Rightarrow> idle_manager option" where
  "idle_manager_set_inhibited inhibit s =
     (if inhibited s = inhibit then Some s else reset_supporting (idles s) (s\<lparr>inhibited := inhibit\<rparr>))"

fun notify_idles :: "ptr \<Rightarrow> nat list \<Rightarrow> idle_manager \<Rightarrow> idle_manager option" where
  "notify_idles seat [] s = Some s"
| "notify_idles seat (p # ps) s = do {
     i \<leftarrow> idle_heap s p;
     s \<leftarrow> (if support_inhibit i \<and> inhibited s then Some s
           else if id_seat i = seat then do { s \<leftarrow> idle_set_idle p False s; idle_reset_timer p s }
           else Some s);
     notify_idles seat ps s}"

definition idle_manager_notify_activity :: "ptr \<Rightarrow> idle_manager \<Rightarrow> idle_manager option" where
  "idle_manager_notify_activity seat s = notify_idles seat (idles s) s"

definition idle_manager_add_idle :: "bool \<Rightarrow> bool \<Rightarrow> ptr \<Rightarrow> bool \<Rightarrow> u32 \<Rightarrow> bool \<Rightarrow> idle_manager \<Rightarrow> idle_manager option" where
  "idle_manager_add_idle alloc timer_ok seat support timeout destroy_func s =
     (case idle_create alloc timer_ok IDLE_FROM_SERVER seat support timeout destroy_func 0 s of
        (None, s) \<Rightarrow> Some s
      | (Some p, s) \<Rightarrow> idle_reset_timer p s)"

subsection \<open>Inhibitors\<close>

text \<open>The flags tell which listeners are in a list, and whether the view whose lists they are in was freed.\<close>

record idle_inhibitor =
  ih_surface :: ptr
  ih_view :: ptr
  visible :: bool
  on_surface_map :: bool
  on_view_map :: bool
  on_view_minimize :: bool
  view_freed :: bool

record idle_inhibit_manager =
  idle_inhibitors :: "nat list"
  inhibitor :: "nat \<Rightarrow> idle_inhibitor option"
  next_inhibitor :: nat
  im :: idle_manager

text \<open>What the inhibitors read of surfaces and views.\<close>

record idle_env =
  ie_mapped :: "ptr \<Rightarrow> bool"
  ie_view :: "ptr \<Rightarrow> ptr"
  ie_view_mapped :: "ptr \<Rightarrow> bool"
  ie_minimized :: "ptr \<Rightarrow> bool"

definition upd_inhibitor :: "nat \<Rightarrow> (idle_inhibitor \<Rightarrow> idle_inhibitor) \<Rightarrow> idle_inhibit_manager \<Rightarrow> idle_inhibit_manager" where
  "upd_inhibitor p f s = s\<lparr>inhibitor := (inhibitor s)(p := map_option f (inhibitor s p))\<rparr>"

definition set_inhibited :: "bool \<Rightarrow> idle_inhibit_manager \<Rightarrow> idle_inhibit_manager option" where
  "set_inhibited b s = do { m \<leftarrow> idle_manager_set_inhibited b (im s); Some (s\<lparr>im := m\<rparr>) }"

definition visible_at :: "idle_inhibit_manager \<Rightarrow> nat \<Rightarrow> bool" where
  "visible_at s p = (case inhibitor s p of None \<Rightarrow> False | Some i \<Rightarrow> visible i)"

definition idle_inhibitor_set_inhibit :: "nat \<Rightarrow> idle_inhibit_manager \<Rightarrow> idle_inhibit_manager option" where
  "idle_inhibitor_set_inhibit p s =
     (if visible_at s p then set_inhibited True s
      else if list_ex (visible_at s) (idle_inhibitors s) then set_inhibited True s
      else set_inhibited False s)"

definition handle_view_map :: "idle_env \<Rightarrow> nat \<Rightarrow> idle_inhibit_manager \<Rightarrow> idle_inhibit_manager option" where
  "handle_view_map env p s = do {
     i \<leftarrow> inhibitor s p;
     idle_inhibitor_set_inhibit p (upd_inhibitor p (\<lambda>i. i\<lparr>visible := \<not> ie_minimized env (ih_view i)\<rparr>) s)}"

definition handle_view_minimize :: "idle_env \<Rightarrow> nat \<Rightarrow> idle_inhibit_manager \<Rightarrow> idle_inhibit_manager option" where
  "handle_view_minimize env p s = do {
     i \<leftarrow> inhibitor s p;
     idle_inhibitor_set_inhibit p (upd_inhibitor p (\<lambda>i. i\<lparr>visible := \<not> ie_minimized env (ih_view i)\<rparr>) s)}"

text \<open>A link that is initialised or inserted while it is in a list destroys that list. A link that was left in the
  list of a freed view is overwritten.\<close>

definition inhibitor_handle_surface_map :: "idle_env \<Rightarrow> nat \<Rightarrow> idle_inhibit_manager \<Rightarrow> idle_inhibit_manager option" where
  "inhibitor_handle_surface_map env p s = do {
     i \<leftarrow> inhibitor s p;
     let linked = ((on_view_map i \<or> on_view_minimize i) \<and> \<not> view_freed i);
     let s = (if view_freed i
              then upd_inhibitor p (\<lambda>i. i\<lparr>on_view_map := False, on_view_minimize := False, view_freed := False\<rparr>) s else s);
     let view = ie_view env (ih_surface i);
     if view = NULL then
       if linked then None
       else idle_inhibitor_set_inhibit p (upd_inhibitor p (\<lambda>i. i\<lparr>visible := True\<rparr>) s)
     else do {
       let s = upd_inhibitor p (\<lambda>i. i\<lparr>ih_view := view\<rparr>) s;
       s \<leftarrow> (if ie_view_mapped env view then handle_view_map env p s
             else Some (upd_inhibitor p (\<lambda>i. i\<lparr>on_view_map := True\<rparr>) s));
       if linked then None
       else Some (upd_inhibitor p (\<lambda>i. i\<lparr>on_view_minimize := True\<rparr>) s)}}"

definition inhibitor_handle_surface_unmap :: "nat \<Rightarrow> idle_inhibit_manager \<Rightarrow> idle_inhibit_manager option" where
  "inhibitor_handle_surface_unmap p s = do {
     i \<leftarrow> inhibitor s p;
     idle_inhibitor_set_inhibit p (upd_inhibitor p (\<lambda>i. i\<lparr>visible := False\<rparr>) s)}"

definition handle_inhibitor_destroy :: "nat \<Rightarrow> idle_inhibit_manager \<Rightarrow> idle_inhibit_manager option" where
  "handle_inhibitor_destroy p s = do {
     i \<leftarrow> inhibitor s p;
     if view_freed i then None
     else do {
       let s = s\<lparr>idle_inhibitors := removeAll p (idle_inhibitors s)\<rparr>;
       s \<leftarrow> (if visible i then idle_inhibitor_set_inhibit p (upd_inhibitor p (\<lambda>i. i\<lparr>visible := False\<rparr>) s) else Some s);
       Some (s\<lparr>inhibitor := (inhibitor s)(p := None)\<rparr>)}}"

text \<open>The end of a view: its memory is freed, with the heads of its lists, while the listeners of the inhibitors are
  still in them.\<close>

definition view_memory_freed :: "ptr \<Rightarrow> idle_inhibit_manager \<Rightarrow> idle_inhibit_manager" where
  "view_memory_freed view s = s\<lparr>inhibitor := (\<lambda>p. map_option (\<lambda>i.
     if ih_view i = view \<and> (on_view_map i \<or> on_view_minimize i) then i\<lparr>view_freed := True\<rparr> else i) (inhibitor s p))\<rparr>"

definition handle_new_idle_inhibitor :: "idle_env \<Rightarrow> bool \<Rightarrow> ptr \<Rightarrow> idle_inhibit_manager \<Rightarrow> idle_inhibit_manager option" where
  "handle_new_idle_inhibitor env alloc surface s =
     (if \<not> alloc then Some s
      else
        let p = next_inhibitor s;
            i = \<lparr>ih_surface = surface, ih_view = NULL, visible = False, on_surface_map = False, on_view_map = False,
                 on_view_minimize = False, view_freed = False\<rparr>;
            s = s\<lparr>inhibitor := (inhibitor s)(p \<mapsto> i), next_inhibitor := p + 1, idle_inhibitors := p # idle_inhibitors s\<rparr>
        in if ie_mapped env surface then inhibitor_handle_surface_map env p s
           else Some (upd_inhibitor p (\<lambda>i. i\<lparr>on_surface_map := True\<rparr>) s))"

definition idle_inhibit_manager_create :: idle_inhibit_manager where
  "idle_inhibit_manager_create = \<lparr>idle_inhibitors = [], inhibitor = (\<lambda>_. None), next_inhibitor = 0, im = idle_manager_create\<rparr>"

subsection \<open>Runs\<close>

datatype idle_event =
    GetNotification bool bool nat u32 "ptr option" | GetInputNotification bool bool nat u32 "ptr option"
  | GetTimeout bool bool nat u32 "ptr option" | AddIdle bool bool ptr bool u32 bool
  | TimerFires nat | SeatGone ptr | Activity ptr | Release nat | ResourceGone nat | Simulate nat
  | NewInhibitor idle_env bool ptr | SurfaceMapped idle_env nat | SurfaceUnmapped nat | ViewMapped idle_env nat
  | ViewMinimized idle_env nat | InhibitorGone nat | ViewFreed ptr

definition on_im :: "(idle_manager \<Rightarrow> idle_manager option) \<Rightarrow> idle_inhibit_manager \<Rightarrow> idle_inhibit_manager option" where
  "on_im f s = do { m \<leftarrow> f (im s); Some (s\<lparr>im := m\<rparr>) }"

text \<open>When an event can come: a new resource has an unused name, a request names a resource that is alive, an event
  source fires when it is armed, and a listener is called when it is in a list of a view or surface that is alive.\<close>

definition listening :: "(idle_inhibitor \<Rightarrow> bool) \<Rightarrow> nat \<Rightarrow> idle_inhibit_manager \<Rightarrow> bool" where
  "listening f p s \<longleftrightarrow> p \<in> set (idle_inhibitors s) \<and> (case inhibitor s p of None \<Rightarrow> False | Some i \<Rightarrow> f i)"

fun idle_possible :: "idle_event \<Rightarrow> idle_inhibit_manager \<Rightarrow> bool" where
  "idle_possible (GetNotification _ _ r _ _) s = (user_data (im s) r = None)"
| "idle_possible (GetInputNotification _ _ r _ _) s = (user_data (im s) r = None)"
| "idle_possible (GetTimeout _ _ r _ _) s = (user_data (im s) r = None)"
| "idle_possible (TimerFires p) s =
     (p \<in> set (idles (im s)) \<and> (case idle_heap (im s) p of None \<Rightarrow> False
       | Some i \<Rightarrow> (case id_timer i of Some (Some ms) \<Rightarrow> True | _ \<Rightarrow> False)))"
| "idle_possible (Release r) s = (user_data (im s) r \<noteq> None)"
| "idle_possible (ResourceGone r) s = (user_data (im s) r \<noteq> None)"
| "idle_possible (Simulate r) s = (user_data (im s) r \<noteq> None)"
| "idle_possible (SurfaceMapped _ p) s = listening on_surface_map p s"
| "idle_possible (SurfaceUnmapped p) s = listening (\<lambda>_. True) p s"
| "idle_possible (ViewMapped _ p) s = listening (\<lambda>i. on_view_map i \<and> \<not> view_freed i) p s"
| "idle_possible (ViewMinimized _ p) s = listening (\<lambda>i. on_view_minimize i \<and> \<not> view_freed i) p s"
| "idle_possible (InhibitorGone p) s = listening (\<lambda>_. True) p s"
| "idle_possible (ViewFreed view) s = (view \<noteq> NULL)"
| "idle_possible _ s = True"

fun idle_handle :: "idle_event \<Rightarrow> idle_inhibit_manager \<Rightarrow> idle_inhibit_manager option" where
  "idle_handle (GetNotification a t r ms seat) s = on_im (idle_notifier_get_idle_notification a t r ms seat) s"
| "idle_handle (GetInputNotification a t r ms seat) s = on_im (idle_notifier_get_input_idle_notification a t r ms seat) s"
| "idle_handle (GetTimeout a t r ms seat) s = on_im (kde_idle_get_idle_timeout a t r ms seat) s"
| "idle_handle (AddIdle a t seat inhibitable ms d) s = on_im (idle_manager_add_idle a t seat inhibitable ms d) s"
| "idle_handle (TimerFires p) s = on_im (idle_handle_timer p) s"
| "idle_handle (SeatGone seat) s = on_im (idle_handle_seat_destroy seat) s"
| "idle_handle (Activity seat) s = on_im (idle_manager_notify_activity seat) s"
| "idle_handle (Release r) s = on_im (idle_timeout_release r) s"
| "idle_handle (ResourceGone r) s = on_im (resource_gone r) s"
| "idle_handle (Simulate r) s = on_im (simulate_activity r) s"
| "idle_handle (NewInhibitor env a surface) s = handle_new_idle_inhibitor env a surface s"
| "idle_handle (SurfaceMapped env p) s = inhibitor_handle_surface_map env p s"
| "idle_handle (SurfaceUnmapped p) s = inhibitor_handle_surface_unmap p s"
| "idle_handle (ViewMapped env p) s = handle_view_map env p s"
| "idle_handle (ViewMinimized env p) s = handle_view_minimize env p s"
| "idle_handle (InhibitorGone p) s = handle_inhibitor_destroy p s"
| "idle_handle (ViewFreed view) s = Some (view_memory_freed view s)"

text \<open>A run: every event is possible, and no handler fails.\<close>

inductive idle_run :: "idle_inhibit_manager \<Rightarrow> idle_event list \<Rightarrow> idle_inhibit_manager \<Rightarrow> bool" where
  Start: "idle_run s [] s"
| Event: "idle_run s es t \<Longrightarrow> idle_possible e t \<Longrightarrow> idle_handle e t = Some u \<Longrightarrow> idle_run s (es @ [e]) u"

end
