(* ===== verification/IdleProofs.thy ===== *)
theory IdleProofs
  imports Idle
begin

section \<open>Properties of idle timers\<close>

text \<open>
  The invariant of the timers, which every operation keeps: the calls of a timer alternate, a timer that is not held
  back runs or has told that the seat is idle, and the resources and the timers refer to each other. The last part
  has the properties of whole runs.
\<close>

subsection \<open>One timer\<close>

text \<open>What a timer was told: \<^term>\<open>True\<close> for idle, \<^term>\<open>False\<close> for resumed.\<close>

definition told :: "nat \<Rightarrow> idle_call list \<Rightarrow> bool list" where
  "told p cs = map (\<lambda>c. c = CallIdle p) (filter (\<lambda>c. c = CallIdle p \<or> c = CallResume p) cs)"

lemma told_simps [simp]:
  "told p (cs @ [CallIdle q]) = told p cs @ (if p = q then [True] else [])"
  "told p (cs @ [CallResume q]) = told p cs @ (if p = q then [False] else [])"
  "told p (cs @ [CallDestroy q]) = told p cs"
  "told p [] = []"
  by (auto simp: told_def)

definition log_ok :: "idle_call list \<Rightarrow> nat \<Rightarrow> idle \<Rightarrow> bool" where
  "log_ok cs p i \<longleftrightarrow> (\<exists>n. told p cs = map even [0..<n] \<and> idle_state i = odd n)"

definition source_ok :: "idle \<Rightarrow> bool" where
  "source_ok i \<longleftrightarrow> (id_timer i = None \<longleftrightarrow> timeout_ms i = 0) \<and>
     (sint (timeout_ms i) < 0 \<longrightarrow> id_timer i = Some None \<and> \<not> idle_state i)"

definition live_ok :: "bool \<Rightarrow> idle \<Rightarrow> bool" where
  "live_ok inh i \<longleftrightarrow> (\<not> (inh \<and> support_inhibit i) \<longrightarrow> sint (timeout_ms i) < 0 \<or> idle_state i \<or> id_timer i = Some (Some (timeout_ms i)))"

definition held_ok :: "bool \<Rightarrow> idle \<Rightarrow> bool" where
  "held_ok inh i \<longleftrightarrow> (inh \<and> support_inhibit i \<longrightarrow> \<not> idle_state i \<and> (id_timer i = None \<or> id_timer i = Some None))"

lemmas idle_oks = source_ok_def live_ok_def held_ok_def

definition same_idle :: "idle \<Rightarrow> idle \<Rightarrow> bool" where
  "same_idle i j \<longleftrightarrow> id_type j = id_type i \<and> timeout_ms j = timeout_ms i \<and> support_inhibit j = support_inhibit i \<and>
     id_seat j = id_seat i \<and> has_destroy_func j = has_destroy_func i \<and> id_data j = id_data i"

text \<open>The second state differs from the first in one timer.\<close>

definition touches :: "nat \<Rightarrow> idle \<Rightarrow> idle \<Rightarrow> idle_manager \<Rightarrow> idle_manager \<Rightarrow> bool" where
  "touches p i j m m' \<longleftrightarrow> idles m' = idles m \<and> next_idle m' = next_idle m \<and> inhibited m' = inhibited m \<and>
     user_data m' = user_data m \<and> idle_heap m p = Some i \<and> idle_heap m' = (idle_heap m)(p \<mapsto> j) \<and> same_idle i j \<and>
     (\<forall>q. q \<noteq> p \<longrightarrow> told q (idle_calls m') = told q (idle_calls m))"

lemma touches_trans: "touches p i j m m' \<Longrightarrow> touches p j k m' m'' \<Longrightarrow> touches p i k m m''"
  by (auto simp: touches_def same_idle_def)

lemma log_ok_cong: "idle_state j = idle_state i \<Longrightarrow> log_ok cs p j = log_ok cs p i"
  by (simp add: log_ok_def)

lemma touches_refl: "idle_heap m p = Some i \<Longrightarrow> touches p i i m m"
  by (auto simp: touches_def same_idle_def)

lemma told_add:
  assumes "log_ok cs p i" "idle_state i \<noteq> b"
  shows "log_ok (cs @ [if b then CallIdle p else CallResume p]) p (i\<lparr>idle_state := b\<rparr>)"
proof -
  obtain n where n: "told p cs = map even [0..<n]" "idle_state i = odd n" using assms(1) by (auto simp: log_ok_def)
  have "told p (cs @ [if b then CallIdle p else CallResume p]) = map even [0..<Suc n]" using n assms(2) by simp
  then show ?thesis unfolding log_ok_def using n(2) assms(2) by (intro exI [of _ "Suc n"]) simp
qed

lemma set_idle_spec:
  assumes "idle_heap m p = Some i" "log_ok (idle_calls m) p i"
  obtains m' where "idle_set_idle p b m = Some m'" "touches p i (i\<lparr>idle_state := b\<rparr>) m m'"
    "log_ok (idle_calls m') p (i\<lparr>idle_state := b\<rparr>)"
proof (cases "idle_state i = b")
  case True
  then have "idle_set_idle p b m = Some m" "i\<lparr>idle_state := b\<rparr> = i" using assms(1) by (simp_all add: idle_set_idle_def)
  then show ?thesis using that touches_refl [OF assms(1)] assms(2) by simp
next
  case False
  let ?m = "upd_idle p (\<lambda>i. i\<lparr>idle_state := b\<rparr>) (idle_record (if b then CallIdle p else CallResume p) m)"
  have "idle_set_idle p b m = Some ?m" using assms(1) False by (simp add: idle_set_idle_def)
  moreover have "touches p i (i\<lparr>idle_state := b\<rparr>) m ?m"
    using assms(1) by (auto simp: touches_def same_idle_def upd_idle_def idle_record_def)
  moreover have "log_ok (idle_calls ?m) p (i\<lparr>idle_state := b\<rparr>)"
    using told_add [OF assms(2) False] by (simp add: upd_idle_def idle_record_def)
  ultimately show ?thesis by (rule that)
qed

lemma upd_touches:
  assumes "idle_heap m p = Some i" "same_idle i (f i)"
  shows "touches p i (f i) m (upd_idle p f m)" "idle_calls (upd_idle p f m) = idle_calls m"
  using assms by (simp_all add: touches_def upd_idle_def)

lemma idle_timer_update_same [simp]: "same_idle i (idle_timer_update ms i)" "idle_state (idle_timer_update ms i) = idle_state i"
    "timeout_ms (idle_timer_update ms i) = timeout_ms i" "support_inhibit (idle_timer_update ms i) = support_inhibit i"
    "id_timer (idle_timer_update ms i) = Some (if 0 < sint ms then Some ms else None)"
  by (simp_all add: idle_timer_update_def same_idle_def)

text \<open>Arming a timer that has an event source.\<close>

lemma sint_sign: "sint (w :: u32) < 0 \<longleftrightarrow> \<not> w < 2 ^ 31" "\<not> sint w < 0 \<Longrightarrow> w \<noteq> 0 \<Longrightarrow> 0 < sint w"
proof -
  have "unat w < 2 * 2147483648" using unsigned_less [of w, where ?'a = nat] by simp
  then have d: "unat w div 2147483648 = 0 \<or> unat w div 2147483648 = 1" using less_mult_imp_div_less by fastforce
  have "sint w < 0 \<longleftrightarrow> bit w 31" using bit_last_iff [of w] by simp
  also have "\<dots> \<longleftrightarrow> bit (unat w) 31" by (simp add: bit_unsigned_iff)
  also have "\<dots> \<longleftrightarrow> odd (unat w div 2147483648)" by (simp add: bit_iff_odd)
  also have "\<dots> \<longleftrightarrow> \<not> unat w < 2147483648" using d by (auto simp: div_eq_0_iff)
  also have "unat w < 2147483648 \<longleftrightarrow> w < 2 ^ 31" by (simp add: word_less_nat_alt)
  finally show "sint w < 0 \<longleftrightarrow> \<not> w < 2 ^ 31" .
  show "\<not> sint w < 0 \<Longrightarrow> w \<noteq> 0 \<Longrightarrow> 0 < sint w" by (metis linorder_neqE signed_eq_0_iff)
qed

lemma armed_ok:
  assumes "source_ok i" "id_timer i \<noteq> None"
  shows "source_ok (idle_timer_update (timeout_ms i) i)" "live_ok b (idle_timer_update (timeout_ms i) i)"
    "source_ok (idle_timer_update 0 i)"
  using assms sint_sign(2) [of "timeout_ms i"] by (auto simp: source_ok_def live_ok_def)

text \<open>Whatever a timer's state, after a reset it runs, or is idle, or is held back.\<close>

lemma reset_timer_spec:
  assumes h: "idle_heap m p = Some i" and l: "log_ok (idle_calls m) p i" and s: "source_ok i"
  obtains m' j where "idle_reset_timer p m = Some m'" "touches p i j m m'" "log_ok (idle_calls m') p j" "source_ok j"
    "live_ok (inhibited m) j" "held_ok (inhibited m) j"
proof (cases "inhibited m \<and> support_inhibit i")
  case True
  obtain m1 where m1: "idle_set_idle p False m = Some m1" "touches p i (i\<lparr>idle_state := False\<rparr>) m m1"
      "log_ok (idle_calls m1) p (i\<lparr>idle_state := False\<rparr>)"
    by (rule set_idle_spec [OF h l])
  show ?thesis
  proof (cases "id_timer i")
    case None
    then show ?thesis using that [of m1] True h m1 s by (simp add: idle_reset_timer_def idle_oks)
  next
    case (Some t)
    let ?j = "idle_timer_update 0 (i\<lparr>idle_state := False\<rparr>)" and ?m = "upd_idle p (idle_timer_update 0) m1"
    have h1: "idle_heap m1 p = Some (i\<lparr>idle_state := False\<rparr>)" using m1(2) by (simp add: touches_def)
    have r: "idle_reset_timer p m = Some ?m" using True h m1(1) Some by (simp add: idle_reset_timer_def)
    have t: "touches p i ?j m ?m" by (rule touches_trans [OF m1(2) upd_touches(1) [OF h1]]) simp
    have "idle_calls ?m = idle_calls m1" by (rule upd_touches(2) [OF h1]) simp
    then show ?thesis using that [OF r t] m1(3) s Some True by (simp add: log_ok_def idle_oks)
  qed
next
  case False
  show ?thesis
  proof (cases "id_timer i")
    case None
    obtain m1 where m1: "idle_set_idle p True m = Some m1" "touches p i (i\<lparr>idle_state := True\<rparr>) m m1"
        "log_ok (idle_calls m1) p (i\<lparr>idle_state := True\<rparr>)"
      by (rule set_idle_spec [OF h l])
    then show ?thesis using that [of m1] False h None s by (simp add: idle_reset_timer_def idle_oks)
  next
    case (Some t)
    let ?j = "idle_timer_update (timeout_ms i) i" and ?m = "upd_idle p (idle_timer_update (timeout_ms i)) m"
    have r: "idle_reset_timer p m = Some ?m" using False h Some by (auto simp: idle_reset_timer_def)
    have "touches p i ?j m ?m" "idle_calls ?m = idle_calls m" by (simp_all add: upd_touches [OF h])
    moreover have "log_ok (idle_calls m) p ?j" using l by (simp add: log_ok_def)
    moreover have "held_ok (inhibited m) ?j" using False by (auto simp: held_ok_def)
    ultimately show ?thesis using that [OF r] armed_ok [OF s] Some by simp
  qed
qed

subsection \<open>All timers\<close>

definition refers :: "idle_manager \<Rightarrow> nat \<Rightarrow> nat \<Rightarrow> bool" where
  "refers m p r \<longleftrightarrow> (case idle_heap m p of None \<Rightarrow> False | Some i \<Rightarrow> id_data i = r \<and> id_type i \<noteq> IDLE_FROM_SERVER)"

definition refs_ok :: "idle_manager \<Rightarrow> bool" where
  "refs_ok m \<longleftrightarrow> (\<forall>r p. user_data m r = Some (Some p) \<longleftrightarrow> refers m p r)"

definition timers_ok :: "idle_manager \<Rightarrow> bool" where
  "timers_ok m \<longleftrightarrow> distinct (idles m) \<and> (\<forall>p. p \<in> set (idles m) \<longleftrightarrow> idle_heap m p \<noteq> None) \<and>
     (\<forall>p i. idle_heap m p = Some i \<longrightarrow> p < next_idle m \<and> log_ok (idle_calls m) p i \<and> source_ok i) \<and>
     (\<forall>p \<ge> next_idle m. told p (idle_calls m) = []) \<and> refs_ok m"

definition all_idles :: "(idle \<Rightarrow> bool) \<Rightarrow> idle_manager \<Rightarrow> bool" where
  "all_idles P m \<longleftrightarrow> (\<forall>p i. idle_heap m p = Some i \<longrightarrow> P i)"

lemma timers_okD:
  "timers_ok m \<Longrightarrow> idle_heap m p = Some i \<Longrightarrow> p < next_idle m \<and> log_ok (idle_calls m) p i \<and> source_ok i"
  "timers_ok m \<Longrightarrow> p \<in> set (idles m) \<longleftrightarrow> idle_heap m p \<noteq> None"
  by (auto simp: timers_ok_def)

lemma refs_touch:
  assumes "touches p i j m m'" "refs_ok m"
  shows "refs_ok m'"
proof -
  have "refers m' q r = refers m q r" for q r using assms(1) by (auto simp: touches_def same_idle_def refers_def)
  then show ?thesis using assms by (simp add: touches_def refs_ok_def)
qed

lemma timers_touch:
  assumes m: "timers_ok m" and t: "touches p i j m m'" and j: "log_ok (idle_calls m') p j" "source_ok j"
  shows "timers_ok m'"
proof -
  have f: "idles m' = idles m" "next_idle m' = next_idle m" "idle_heap m p = Some i" "idle_heap m' = (idle_heap m)(p \<mapsto> j)"
    and c: "\<And>q. q \<noteq> p \<Longrightarrow> told q (idle_calls m') = told q (idle_calls m)" using t by (auto simp: touches_def)
  have "refs_ok m'" using refs_touch [OF t] m by (simp add: timers_ok_def)
  moreover have "q < next_idle m' \<and> log_ok (idle_calls m') q k \<and> source_ok k" if "idle_heap m' q = Some k" for q k
    using timers_okD(1) [OF m, of q] timers_okD(1) [OF m f(3)] that f j c [of q] by (cases "q = p") (auto simp: log_ok_def)
  moreover have "told q (idle_calls m') = []" if "next_idle m' \<le> q" for q
    using timers_okD(1) [OF m f(3)] that f(2) c [of q] m by (cases "q = p") (auto simp: timers_ok_def)
  ultimately show ?thesis using m f by (auto simp: timers_ok_def)
qed

lemma all_touch: "all_idles P m \<Longrightarrow> touches p i j m m' \<Longrightarrow> P j \<Longrightarrow> all_idles P m'"
  by (auto simp: all_idles_def touches_def)

text \<open>What the loops over the timers leave alone.\<close>

definition idle_frame :: "idle_manager \<Rightarrow> idle_manager \<Rightarrow> bool" where
  "idle_frame m m' \<longleftrightarrow> idles m' = idles m \<and> inhibited m' = inhibited m \<and> user_data m' = user_data m"

lemma touches_frame: "touches p i j m m' \<Longrightarrow> idle_frame m m'"
  by (simp add: touches_def idle_frame_def)

text \<open>A timer is reset when every other one is in order.\<close>

lemma reset_timers:
  assumes "timers_ok m" "p \<in> set (idles m)"
  obtains m' i j where "idle_reset_timer p m = Some m'" "timers_ok m'" "touches p i j m m'"
    "live_ok (inhibited m) j" "held_ok (inhibited m) j"
proof -
  obtain i where i: "idle_heap m p = Some i" using timers_okD(2) [OF assms(1)] assms(2) by blast
  note d = timers_okD(1) [OF assms(1) i]
  obtain m' j where "idle_reset_timer p m = Some m'" "touches p i j m m'" "log_ok (idle_calls m') p j" "source_ok j"
    "live_ok (inhibited m) j" "held_ok (inhibited m) j"
    by (rule reset_timer_spec [OF i]) (use d in auto)
  then show ?thesis using that timers_touch [OF assms(1)] by blast
qed

text \<open>The invariant; the flag says that no activity was simulated, so that a timer that is held back is quiet.\<close>

definition idle_good :: "bool \<Rightarrow> idle_manager \<Rightarrow> bool" where
  "idle_good quiet m \<longleftrightarrow> timers_ok m \<and> all_idles (live_ok (inhibited m)) m \<and> (quiet \<longrightarrow> all_idles (held_ok (inhibited m)) m)"

lemma good_touch:
  assumes "idle_good quiet m" "touches p i j m m'" "log_ok (idle_calls m') p j" "source_ok j"
    "live_ok (inhibited m) j" "quiet \<longrightarrow> held_ok (inhibited m) j"
  shows "idle_good quiet m'"
proof -
  have "inhibited m' = inhibited m" using assms(2) by (simp add: touches_def)
  then show ?thesis
    using assms timers_touch [OF _ assms(2-4)] all_touch [OF _ assms(2), of "live_ok (inhibited m)"]
      all_touch [OF _ assms(2), of "held_ok (inhibited m)"] by (auto simp: idle_good_def)
qed

lemma reset_supporting_good:
  assumes "timers_ok m" "set ps \<subseteq> set (idles m)"
    "\<And>p i. idle_heap m p = Some i \<Longrightarrow> p \<notin> set ps \<or> \<not> support_inhibit i \<Longrightarrow>
       live_ok (inhibited m) i \<and> (quiet \<longrightarrow> held_ok (inhibited m) i)"
  shows "\<exists>m'. reset_supporting ps m = Some m' \<and> idle_good quiet m' \<and> idle_frame m m'"
  using assms
proof (induction ps arbitrary: m)
  case Nil
  then show ?case by (auto simp: idle_good_def all_idles_def idle_frame_def)
next
  case (Cons p ps)
  have p: "p \<in> set (idles m)" and ps: "set ps \<subseteq> set (idles m)" using Cons.prems(2) by auto
  obtain i where i: "idle_heap m p = Some i" using timers_okD(2) [OF Cons.prems(1)] p by blast
  show ?case
  proof (cases "support_inhibit i")
    case False
    have "\<exists>m'. reset_supporting ps m = Some m' \<and> idle_good quiet m' \<and> idle_frame m m'"
      by (rule Cons.IH [OF Cons.prems(1) ps]) (use Cons.prems(3) i False in fastforce)
    then show ?thesis using i False by simp
  next
    case True
    obtain m1 k j where m1: "idle_reset_timer p m = Some m1" "timers_ok m1" "touches p k j m m1"
      "live_ok (inhibited m) j" "held_ok (inhibited m) j"
      by (rule reset_timers [OF Cons.prems(1) p])
    have f: "idles m1 = idles m" "inhibited m1 = inhibited m" "idle_heap m1 = (idle_heap m)(p \<mapsto> j)" "idle_frame m m1"
      using m1(3) touches_frame [OF m1(3)] by (simp_all add: touches_def)
    have "\<exists>m'. reset_supporting ps m1 = Some m' \<and> idle_good quiet m' \<and> idle_frame m1 m'"
    proof (rule Cons.IH [OF m1(2)])
      show "set ps \<subseteq> set (idles m1)" using ps f(1) by simp
      show "live_ok (inhibited m1) a \<and> (quiet \<longrightarrow> held_ok (inhibited m1) a)"
        if "idle_heap m1 q = Some a" "q \<notin> set ps \<or> \<not> support_inhibit a" for q a
        using that f(2,3) m1(4,5) Cons.prems(3) [of q a] by (cases "q = p") auto
    qed
    then show ?thesis using i True m1(1) f(4) by (auto simp: idle_frame_def)
  qed
qed

lemma set_inhibited_good:
  assumes "idle_good quiet m"
  obtains m' where "idle_manager_set_inhibited b m = Some m'" "idle_good quiet m'" "inhibited m' = b" "user_data m' = user_data m"
proof (cases "inhibited m = b")
  case True
  then show ?thesis using that assms by (simp add: idle_manager_set_inhibited_def)
next
  case False
  let ?m = "m\<lparr>inhibited := b\<rparr>"
  have t: "timers_ok ?m" using assms by (simp add: idle_good_def timers_ok_def refs_ok_def refers_def)
  have "live_ok (inhibited ?m) i \<and> (quiet \<longrightarrow> held_ok (inhibited ?m) i)"
    if "idle_heap ?m p = Some i" "p \<notin> set (idles ?m) \<or> \<not> support_inhibit i" for p i
  proof -
    have "\<not> support_inhibit i" using that timers_okD(2) [OF t, of p] by auto
    then show ?thesis using that(1) assms by (auto simp: idle_good_def all_idles_def live_ok_def held_ok_def)
  qed
  then obtain m' where "reset_supporting (idles ?m) ?m = Some m'" "idle_good quiet m'" "idle_frame ?m m'"
    using reset_supporting_good [OF t, of "idles ?m" quiet] by blast
  then show ?thesis using that False by (simp add: idle_manager_set_inhibited_def idle_frame_def)
qed

lemma notify_good:
  "idle_good quiet m \<Longrightarrow> set ps \<subseteq> set (idles m) \<Longrightarrow>
   \<exists>m'. notify_idles seat ps m = Some m' \<and> idle_good quiet m' \<and> idle_frame m m'"
proof (induction ps arbitrary: m)
  case Nil
  then show ?case by (simp add: idle_frame_def)
next
  case (Cons p ps)
  have t: "timers_ok m" using Cons.prems(1) by (simp add: idle_good_def)
  have p: "p \<in> set (idles m)" and ps: "set ps \<subseteq> set (idles m)" using Cons.prems(2) by auto
  obtain i where i: "idle_heap m p = Some i" using timers_okD(2) [OF t] p by blast
  have rest: "\<exists>m'. notify_idles seat ps m = Some m' \<and> idle_good quiet m' \<and> idle_frame m m'" by (rule Cons.IH [OF Cons.prems(1) ps])
  show ?case
  proof (cases "support_inhibit i \<and> inhibited m \<or> id_seat i \<noteq> seat")
    case True
    then show ?thesis using rest i by auto
  next
    case False
    have il: "log_ok (idle_calls m) p i" "source_ok i" using timers_okD(1) [OF t i] by auto
    obtain m1 where m1: "idle_set_idle p False m = Some m1" "touches p i (i\<lparr>idle_state := False\<rparr>) m m1"
        "log_ok (idle_calls m1) p (i\<lparr>idle_state := False\<rparr>)"
      by (rule set_idle_spec [OF i il(1)])
    have h1: "idle_heap m1 p = Some (i\<lparr>idle_state := False\<rparr>)" "inhibited m1 = inhibited m" using m1(2) by (simp_all add: touches_def)
    obtain m2 j where m2: "idle_reset_timer p m1 = Some m2" "touches p (i\<lparr>idle_state := False\<rparr>) j m1 m2" "log_ok (idle_calls m2) p j"
        "source_ok j" "live_ok (inhibited m1) j" "held_ok (inhibited m1) j"
      by (rule reset_timer_spec [OF h1(1) m1(3)]) (use il(2) in \<open>simp add: source_ok_def\<close>)
    note t2 = touches_trans [OF m1(2) m2(2)]
    have g: "idle_good quiet m2" by (rule good_touch [OF Cons.prems(1) t2 m2(3,4)]) (use m2(5,6) h1(2) in simp_all)
    have f: "idles m2 = idles m" "idle_frame m m2" using t2 touches_frame [OF t2] by (simp_all add: touches_def)
    have "\<exists>m'. notify_idles seat ps m2 = Some m' \<and> idle_good quiet m' \<and> idle_frame m2 m'"
      by (rule Cons.IH [OF g]) (use ps f(1) in simp)
    then show ?thesis using i False m1(1) m2(1) f(2) by (auto simp: idle_frame_def)
  qed
qed

lemma timer_good:
  assumes g: "idle_good quiet m" and p: "idle_heap m p = Some i" "id_timer i = Some (Some ms)"
  obtains m' where "idle_handle_timer p m = Some m'" "idle_good quiet m'" "idle_frame m m'"
    "map_option idle_state (idle_heap m' p) = Some True"
proof -
  let ?i = "i\<lparr>id_timer := Some None\<rparr>" and ?m = "upd_idle p (\<lambda>i. i\<lparr>id_timer := Some None\<rparr>) m"
  have t: "timers_ok m" using g by (simp add: idle_good_def)
  have il: "log_ok (idle_calls m) p i" "source_ok i" using timers_okD(1) [OF t p(1)] by auto
  have "quiet \<longrightarrow> held_ok (inhibited m) i" using g p(1) by (auto simp: idle_good_def all_idles_def)
  then have q: "quiet \<longrightarrow> \<not> (inhibited m \<and> support_inhibit i)" using p(2) by (auto simp: held_ok_def)
  have tm: "touches p i ?i m ?m" "idle_calls ?m = idle_calls m"
    using upd_touches [OF p(1), of "\<lambda>i. i\<lparr>id_timer := Some None\<rparr>"] by (simp_all add: same_idle_def)
  have h: "idle_heap ?m p = Some ?i" using p(1) by (simp add: upd_idle_def)
  have l: "log_ok (idle_calls ?m) p ?i" using il(1) tm(2) by (simp add: log_ok_def)
  obtain m' where m': "idle_set_idle p True ?m = Some m'" "touches p ?i (?i\<lparr>idle_state := True\<rparr>) ?m m'"
      "log_ok (idle_calls m') p (?i\<lparr>idle_state := True\<rparr>)"
    by (rule set_idle_spec [OF h l])
  note t2 = touches_trans [OF tm(1) m'(2)]
  have "idle_good quiet m'"
    by (rule good_touch [OF g t2 m'(3)]) (use il(2) p(2) q in \<open>auto simp: idle_oks\<close>)
  then show ?thesis using that m'(1) touches_frame [OF t2] t2 by (simp add: idle_handle_timer_def touches_def)
qed

subsection \<open>Creation and destruction\<close>

lemma destroy_good:
  assumes g: "idle_good quiet m" and p: "idle_heap m p = Some i"
  obtains m' where "idle_destroy (Some p) m = Some m'" "idle_good quiet m'" "idle_heap m' = (idle_heap m)(p := None)"
    "inhibited m' = inhibited m"
    "user_data m' = (if id_type i = IDLE_FROM_SERVER then user_data m else (user_data m)(id_data i := Some None))"
proof -
  let ?c = "if has_destroy_func i then idle_calls m @ [CallDestroy p] else idle_calls m"
  let ?u = "if id_type i = IDLE_FROM_SERVER then user_data m else (user_data m)(id_data i := Some None)"
  let ?m = "m\<lparr>idle_calls := ?c, idles := removeAll p (idles m), user_data := ?u, idle_heap := (idle_heap m)(p := None)\<rparr>"
  have d: "idle_destroy (Some p) m = Some ?m" using p by (simp add: idle_destroy_def idle_record_def Let_def)
  have t: "timers_ok m" using g by (simp add: idle_good_def)
  have told: "told q ?c = told q (idle_calls m)" for q by simp
  have refs: "user_data m r = Some (Some q) \<longleftrightarrow> refers m q r" for q r using t by (simp add: timers_ok_def refs_ok_def)
  have "(?u r = Some (Some q)) \<longleftrightarrow> refers ?m q r" for q r
  proof (cases "q = p")
    case True
    then show ?thesis using refs [of r p] p by (auto simp: refers_def)
  next
    case False
    have "\<not> refers m q (id_data i)" if "id_type i \<noteq> IDLE_FROM_SERVER"
      using refs [of "id_data i" q] refs [of "id_data i" p] p that False by (auto simp: refers_def)
    then show ?thesis using refs [of r q] False by (auto simp: refers_def)
  qed
  then have "refs_ok ?m" by (simp add: refs_ok_def)
  moreover have "p \<in> set (idles ?m) \<longleftrightarrow> idle_heap ?m p \<noteq> None" for p using timers_okD(2) [OF t, of p] by simp
  moreover have "q < next_idle ?m \<and> log_ok (idle_calls ?m) q k \<and> source_ok k" if "idle_heap ?m q = Some k" for q k
    using timers_okD(1) [OF t, of q k] that told [of q] by (auto simp: log_ok_def split: if_splits)
  ultimately have "timers_ok ?m" using t told by (auto simp: timers_ok_def distinct_removeAll)
  then have "idle_good quiet ?m" using g by (auto simp: idle_good_def all_idles_def)
  then show ?thesis using that [OF d] by simp
qed

lemma destroy_idles_good:
  "idle_good quiet m \<Longrightarrow> set ps \<subseteq> set (idles m) \<Longrightarrow> distinct ps \<Longrightarrow>
   \<exists>m'. destroy_idles ps m = Some m' \<and> idle_good quiet m' \<and> inhibited m' = inhibited m"
proof (induction ps arbitrary: m)
  case (Cons p ps)
  have t: "timers_ok m" using Cons.prems(1) by (simp add: idle_good_def)
  obtain i where i: "idle_heap m p = Some i" using timers_okD(2) [OF t, of p] Cons.prems(2) by auto
  obtain m1 where m1: "idle_destroy (Some p) m = Some m1" "idle_good quiet m1" "idle_heap m1 = (idle_heap m)(p := None)"
      "inhibited m1 = inhibited m"
    by (rule destroy_good [OF Cons.prems(1) i])
  have t1: "timers_ok m1" using m1(2) by (simp add: idle_good_def)
  have "q \<in> set (idles m1)" if "q \<in> set ps" for q
    using that Cons.prems(2,3) timers_okD(2) [OF t, of q] timers_okD(2) [OF t1, of q] m1(3) by auto
  then have "\<exists>m'. destroy_idles ps m1 = Some m' \<and> idle_good quiet m' \<and> inhibited m' = inhibited m1"
    using Cons.IH [OF m1(2)] Cons.prems(3) by auto
  then show ?case using m1(1,4) by auto
qed simp

lemma user_data_good:
  assumes "idle_good quiet m" "\<And>s q. u s = Some (Some q) \<longleftrightarrow> refers m q s"
  shows "idle_good quiet (m\<lparr>user_data := u\<rparr>)"
  using assms by (auto simp: idle_good_def timers_ok_def refs_ok_def refers_def all_idles_def)

lemma idle_create_good:
  assumes g: "timers_ok m" and r: "type = IDLE_FROM_SERVER \<or> (\<forall>p. \<not> refers m p r)" and u: "user_data m r = Some None \<or> type = IDLE_FROM_SERVER"
    and c: "idle_create alloc timer_ok type seat support timeout df r m = (Some p, m1)"
  defines "m2 \<equiv> (if type = IDLE_FROM_SERVER then m1 else m1\<lparr>user_data := (user_data m1)(r := Some (Some p))\<rparr>)"
  shows "timers_ok m2" "p = next_idle m" "idles m2 = p # idles m" "inhibited m2 = inhibited m"
    "\<And>q. q \<noteq> p \<Longrightarrow> idle_heap m2 q = idle_heap m q"
    "user_data m2 = (if type = IDLE_FROM_SERVER then user_data m else (user_data m)(r := Some (Some p)))"
proof -
  let ?i = "\<lparr>id_type = type, timeout_ms = timeout, id_timer = (if timeout > 0 then Some None else None), idle_state = False,
    support_inhibit = support, id_seat = seat, has_destroy_func = df, id_data = r\<rparr>"
  have e: "p = next_idle m" "m1 = m\<lparr>idle_heap := (idle_heap m)(next_idle m \<mapsto> ?i), next_idle := next_idle m + 1, idles := next_idle m # idles m\<rparr>"
    using c by (auto simp: idle_create_def Let_def split: if_splits)
  show pp: "p = next_idle m" by (rule e(1))
  show f: "idles m2 = p # idles m" "inhibited m2 = inhibited m"
      "user_data m2 = (if type = IDLE_FROM_SERVER then user_data m else (user_data m)(r := Some (Some p)))"
    using e by (simp_all add: m2_def)
  show "idle_heap m2 q = idle_heap m q" if "q \<noteq> p" for q using e that by (simp add: m2_def)
  have f2: "idle_heap m2 = (idle_heap m)(p \<mapsto> ?i)" "next_idle m2 = p + 1" "idle_calls m2 = idle_calls m" using e by (simp_all add: m2_def)
  have new: "idle_heap m p = None" "told p (idle_calls m) = []" "p \<notin> set (idles m)"
    using timers_okD [OF g, of p] g pp by (cases "idle_heap m p"; auto simp: timers_ok_def)+
  have refs: "user_data m s = Some (Some q) \<longleftrightarrow> refers m q s" for q s using g by (simp add: timers_ok_def refs_ok_def)
  have "user_data m2 s = Some (Some q) \<longleftrightarrow> refers m2 q s" for q s
    using refs [of s q] r u new(1) f2(1) e by (cases "q = p"; cases "s = r") (auto simp: refers_def m2_def)
  moreover have "log_ok (idle_calls m2) p ?i" using new(2) f2(3) by (auto simp: log_ok_def)
  moreover have "source_ok ?i" by (simp add: source_ok_def word_gt_0)
  ultimately show "timers_ok m2" using g new f2 e timers_okD(1) [OF g]
    by (auto simp: timers_ok_def refs_ok_def m2_def less_Suc_eq)
qed

text \<open>A new timer of any kind.\<close>

lemma new_reset_good:
  assumes g: "idle_good quiet m" and m: "timers_ok m2" "idles m2 = p # idles m" "inhibited m2 = inhibited m"
    "\<And>q. q \<noteq> p \<Longrightarrow> idle_heap m2 q = idle_heap m q"
  obtains m' where "idle_reset_timer p m2 = Some m'" "idle_good quiet m'" "idle_frame m2 m'"
proof -
  have p: "p \<in> set (idles m2)" using m(2) by simp
  obtain m' k j where r: "idle_reset_timer p m2 = Some m'" "timers_ok m'" "touches p k j m2 m'"
    "live_ok (inhibited m2) j" "held_ok (inhibited m2) j"
    by (rule reset_timers [OF m(1) p])
  have h: "idle_heap m' q = (if q = p then Some j else idle_heap m q)" for q using r(3) m(4) by (simp add: touches_def)
  have "idle_good quiet m'"
    using g r(2,4,5) h r(3) m(3) by (auto simp: idle_good_def all_idles_def touches_def split: if_splits)
  then show ?thesis using that r(1) touches_frame [OF r(3)] by blast
qed

lemma resource_good:
  assumes g: "idle_good quiet m" and r: "user_data m r = None" and ty: "type \<noteq> IDLE_FROM_SERVER"
  obtains m' where "new_timer_resource alloc timer_ok type support r timeout seat m = Some m'" "idle_good quiet m'"
    "inhibited m' = inhibited m"
proof -
  let ?m = "m\<lparr>user_data := (user_data m)(r := Some None)\<rparr>"
  have refs: "user_data m s = Some (Some q) \<longleftrightarrow> refers m q s" for q s using g by (simp add: idle_good_def timers_ok_def refs_ok_def)
  have no: "\<not> refers ?m p r" for p using refs [of r p] r by (simp add: refers_def)
  have g1: "idle_good quiet ?m" by (rule user_data_good [OF g]) (use refs refs [of r] r in auto)
  then have t: "timers_ok ?m" by (simp add: idle_good_def)
  show ?thesis
  proof (cases seat)
    case None
    then show ?thesis using that g1 by (simp add: new_timer_resource_def)
  next
    case (Some st)
    obtain po m1 where c: "idle_create alloc timer_ok type st support timeout False r ?m = (po, m1)" by fastforce
    show ?thesis
    proof (cases po)
      case None
      then have "m1 = ?m" using c by (auto simp: idle_create_def Let_def split: if_splits)
      then show ?thesis using that g1 Some None c by (simp add: new_timer_resource_def)
    next
      case po: (Some p)
      let ?m2 = "m1\<lparr>user_data := (user_data m1)(r := Some (Some p))\<rparr>"
      have n: "type = IDLE_FROM_SERVER \<or> (\<forall>p. \<not> refers ?m p r)" "user_data ?m r = Some None \<or> type = IDLE_FROM_SERVER" using no by simp_all
      note cg = idle_create_good [OF t n c [unfolded po], unfolded if_not_P [OF ty]]
      obtain m' where "idle_reset_timer p ?m2 = Some m'" "idle_good quiet m'" "idle_frame ?m2 m'"
        by (rule new_reset_good [OF g1 cg(1,3,4,5)])
      then show ?thesis using that c po Some cg(4) by (simp add: new_timer_resource_def idle_frame_def)
    qed
  qed
qed

lemma add_idle_good:
  assumes g: "idle_good quiet m"
  obtains m' where "idle_manager_add_idle alloc timer_ok seat support timeout df m = Some m'" "idle_good quiet m'"
    "inhibited m' = inhibited m"
proof -
  obtain po m1 where c: "idle_create alloc timer_ok IDLE_FROM_SERVER seat support timeout df 0 m = (po, m1)" by fastforce
  show ?thesis
  proof (cases po)
    case None
    then have "m1 = m" using c by (auto simp: idle_create_def Let_def split: if_splits)
    then show ?thesis using that g None c by (simp add: idle_manager_add_idle_def)
  next
    case (Some p)
    have t: "timers_ok m" using g by (simp add: idle_good_def)
    note cg = idle_create_good [OF t disjI1 [OF refl] disjI2 [OF refl] c [unfolded Some], unfolded if_P [OF refl]]
    obtain m' where "idle_reset_timer p m1 = Some m'" "idle_good quiet m'" "idle_frame m1 m'"
      by (rule new_reset_good [OF g cg(1,3,4,5)])
    then show ?thesis using that c Some cg(4) by (simp add: idle_manager_add_idle_def idle_frame_def)
  qed
qed

lemma release_good:
  assumes g: "idle_good quiet m" and r: "user_data m r \<noteq> None"
  obtains m' where "idle_timeout_release r m = Some m'" "idle_notification_destroy r m = Some m'" "idle_good quiet m'"
    "inhibited m' = inhibited m" "user_data m' r = Some None"
proof -
  obtain d where d: "user_data m r = Some d" using r by blast
  show ?thesis
  proof (cases d)
    case None
    then show ?thesis using that d g
      by (simp add: idle_timeout_release_def idle_timeout_destroy_def idle_notification_destroy_def idle_destroy_def)
  next
    case (Some p)
    have "refers m p r" using g d Some by (simp add: idle_good_def timers_ok_def refs_ok_def)
    then obtain i where i: "idle_heap m p = Some i" "id_data i = r" "id_type i \<noteq> IDLE_FROM_SERVER"
      by (auto simp: refers_def split: option.splits)
    obtain m' where "idle_destroy (Some p) m = Some m'" "idle_good quiet m'" "inhibited m' = inhibited m"
        "user_data m' = (if id_type i = IDLE_FROM_SERVER then user_data m else (user_data m)(id_data i := Some None))"
      by (rule destroy_good [OF g i(1)])
    then show ?thesis using that d Some i
      by (simp add: idle_timeout_release_def idle_timeout_destroy_def idle_notification_destroy_def)
  qed
qed

lemma resource_gone_good:
  assumes g: "idle_good quiet m" and r: "user_data m r \<noteq> None"
  obtains m' where "resource_gone r m = Some m'" "idle_good quiet m'" "inhibited m' = inhibited m"
proof -
  obtain m1 where m1: "idle_notification_destroy r m = Some m1" "idle_good quiet m1" "inhibited m1 = inhibited m" "user_data m1 r = Some None"
    by (rule release_good [OF assms])
  have refs: "user_data m1 s = Some (Some q) \<longleftrightarrow> refers m1 q s" for q s using m1(2) by (simp add: idle_good_def timers_ok_def refs_ok_def)
  have "idle_good quiet (m1\<lparr>user_data := (user_data m1)(r := None)\<rparr>)"
    by (rule user_data_good [OF m1(2)]) (use refs refs [of r] m1(4) in auto)
  then show ?thesis using that m1(1,3) by (simp add: resource_gone_def)
qed

text \<open>Simulated activity arms a timer even when it is held back.\<close>

lemma simulate_good:
  assumes g: "idle_good quiet m" and r: "user_data m r = Some (Some p)"
  obtains m' where "simulate_activity r m = Some m'" "idle_good False m'" "inhibited m' = inhibited m"
proof -
  have "refers m p r" using g r by (simp add: idle_good_def timers_ok_def refs_ok_def)
  then obtain i where i: "idle_heap m p = Some i" by (auto simp: refers_def split: option.splits)
  have t: "timers_ok m" and g1: "idle_good False m" using g by (simp_all add: idle_good_def)
  have il: "log_ok (idle_calls m) p i" "source_ok i" using timers_okD(1) [OF t i] by auto
  obtain m1 where m1: "idle_set_idle p False m = Some m1" "touches p i (i\<lparr>idle_state := False\<rparr>) m m1"
      "log_ok (idle_calls m1) p (i\<lparr>idle_state := False\<rparr>)"
    by (rule set_idle_spec [OF i il(1)])
  have h1: "idle_heap m1 p = Some (i\<lparr>idle_state := False\<rparr>)" using m1(2) by (simp add: touches_def)
  have e: "(if idle_state i then idle_record (CallResume p) (upd_idle p (\<lambda>i. i\<lparr>idle_state := False\<rparr>) m) else m) = m1"
    using m1(1) i by (auto simp: idle_set_idle_def upd_idle_def idle_record_def)
  have s: "simulate_activity r m = (if id_timer i \<noteq> None then Some (upd_idle p (idle_timer_update (timeout_ms i)) m1) else idle_set_idle p True m1)"
    using r i e by (simp add: simulate_activity_def Let_def)
  show ?thesis
  proof (cases "id_timer i")
    case None
    obtain m2 where m2: "idle_set_idle p True m1 = Some m2" "touches p (i\<lparr>idle_state := False\<rparr>) (i\<lparr>idle_state := False, idle_state := True\<rparr>) m1 m2"
        "log_ok (idle_calls m2) p (i\<lparr>idle_state := False, idle_state := True\<rparr>)"
      by (rule set_idle_spec [OF h1 m1(3)])
    note t2 = touches_trans [OF m1(2) m2(2)]
    have "\<not> sint (timeout_ms i) < 0" using il(2) None by (auto simp: source_ok_def)
    then have "idle_good False m2" by (intro good_touch [OF g1 t2 m2(3)]) (use il(2) in \<open>simp_all add: idle_oks\<close>)
    then show ?thesis using that s None m2(1) t2 by (simp add: touches_def)
  next
    case (Some ms)
    let ?j = "idle_timer_update (timeout_ms i) (i\<lparr>idle_state := False\<rparr>)" and ?m = "upd_idle p (idle_timer_update (timeout_ms i)) m1"
    have t2: "touches p i ?j m ?m" by (rule touches_trans [OF m1(2) upd_touches(1) [OF h1]]) simp
    have "idle_calls ?m = idle_calls m1" by (simp add: upd_idle_def)
    then have "idle_good False ?m"
      by (intro good_touch [OF g1 t2]) (use m1(3) il(2) Some sint_sign(2) [of "timeout_ms i"] in \<open>auto simp: log_ok_def idle_oks\<close>)
    then show ?thesis using that s Some t2 by (simp add: touches_def)
  qed
qed

subsection \<open>Inhibitors\<close>

definition inhibitors_ok :: "idle_inhibit_manager \<Rightarrow> bool" where
  "inhibitors_ok s \<longleftrightarrow> (\<forall>p. p \<in> set (idle_inhibitors s) \<longleftrightarrow> inhibitor s p \<noteq> None) \<and> (\<forall>p \<in> set (idle_inhibitors s). p < next_inhibitor s)"

definition sys_good :: "bool \<Rightarrow> idle_inhibit_manager \<Rightarrow> bool" where
  "sys_good quiet s \<longleftrightarrow> inhibitors_ok s \<and> idle_good quiet (im s) \<and>
     inhibited (im s) = (\<exists>p \<in> set (idle_inhibitors s). visible_at s p)"

lemma visible_at_upd [simp]:
  "visible_at (upd_inhibitor p f s) q = (if q = p then (case inhibitor s p of None \<Rightarrow> False | Some i \<Rightarrow> visible (f i)) else visible_at s q)"
  "visible_at (s\<lparr>im := m\<rparr>) q = visible_at s q"
  "visible_at (s\<lparr>idle_inhibitors := ps\<rparr>) q = visible_at s q"
  by (auto simp: visible_at_def upd_inhibitor_def split: option.splits)

lemma upd_inhibitor_simps [simp]:
  "idle_inhibitors (upd_inhibitor p f s) = idle_inhibitors s" "im (upd_inhibitor p f s) = im s"
  "next_inhibitor (upd_inhibitor p f s) = next_inhibitor s"
  "inhibitors_ok (upd_inhibitor p f s) = inhibitors_ok s"
  "inhibitors_ok (s\<lparr>im := m\<rparr>) = inhibitors_ok s"
  by (auto simp: upd_inhibitor_def inhibitors_ok_def)

text \<open>Whatever the flag of the manager was, after an inhibitor in the list has changed it is right again.\<close>

lemma set_inhibit_good:
  assumes "inhibitors_ok s" "idle_good quiet (im s)" "\<not> visible_at s p \<or> p \<in> set (idle_inhibitors s)"
  obtains t where "idle_inhibitor_set_inhibit p s = Some t" "sys_good quiet t" "\<exists>m. t = s\<lparr>im := m\<rparr>"
proof -
  let ?b = "\<exists>q \<in> set (idle_inhibitors s). visible_at s q"
  obtain m where m: "idle_manager_set_inhibited ?b (im s) = Some m" "idle_good quiet m" "inhibited m = ?b"
    by (rule set_inhibited_good [OF assms(2)])
  have "idle_inhibitor_set_inhibit p s = Some (s\<lparr>im := m\<rparr>)"
    using m(1) assms(3) by (cases ?b) (auto simp: idle_inhibitor_set_inhibit_def set_inhibited_def list_ex_iff)
  moreover have "sys_good quiet (s\<lparr>im := m\<rparr>)" using assms(1) m(2,3) by (simp add: sys_good_def)
  ultimately show ?thesis using that by blast
qed

lemma view_change_good:
  assumes "sys_good quiet s" "listening P p s"
  obtains t where "idle_inhibitor_set_inhibit p (upd_inhibitor p f s) = Some t" "sys_good quiet t"
    "\<exists>m. t = (upd_inhibitor p f s)\<lparr>im := m\<rparr>"
  by (rule set_inhibit_good [of "upd_inhibitor p f s" quiet p]) (use assms in \<open>auto simp: sys_good_def listening_def\<close>)

lemma flag_good:
  assumes "sys_good quiet s" "\<And>i. visible (f i) = visible i"
  shows "sys_good quiet (upd_inhibitor p f s)"
proof -
  have "visible_at (upd_inhibitor p f s) q = visible_at s q" for q
    using assms(2) by (auto simp: visible_at_def upd_inhibitor_def split: option.splits)
  then show ?thesis using assms(1) by (simp add: sys_good_def)
qed

text \<open>A mapped surface: the handler fails exactly when a listener is in a list of a view that is alive.\<close>

lemma surface_map_good:
  assumes g: "sys_good quiet s" and p: "p \<in> set (idle_inhibitors s)" "inhibitor s p = Some i"
  shows "if (on_view_map i \<or> on_view_minimize i) \<and> \<not> view_freed i then inhibitor_handle_surface_map env p s = None
    else \<exists>t. inhibitor_handle_surface_map env p s = Some t \<and> sys_good quiet t"
proof -
  let ?view = "ie_view env (ih_surface i)"
  define s0 where "s0 = (if view_freed i
    then upd_inhibitor p (\<lambda>i. i\<lparr>on_view_map := False, on_view_minimize := False, view_freed := False\<rparr>) s else s)"
  have g0: "sys_good quiet s0" using g by (simp add: s0_def flag_good)
  obtain j where j: "inhibitor s0 p = Some j" using p(2) by (cases "view_freed i") (simp_all add: s0_def upd_inhibitor_def)
  have p0: "p \<in> set (idle_inhibitors s0)" using p(1) by (simp add: s0_def)
  then have l: "listening (\<lambda>_. True) p s0" using j by (simp add: listening_def)
  show ?thesis
  proof (cases "?view = NULL")
    case True
    obtain t where "idle_inhibitor_set_inhibit p (upd_inhibitor p (\<lambda>i. i\<lparr>visible := True\<rparr>) s0) = Some t" "sys_good quiet t"
      by (rule view_change_good [OF g0 l])
    then show ?thesis using True p(2) by (simp add: inhibitor_handle_surface_map_def flip: s0_def)
  next
    case False
    let ?s = "upd_inhibitor p (\<lambda>i. i\<lparr>ih_view := ?view\<rparr>) s0"
    have g1: "sys_good quiet ?s" by (rule flag_good [OF g0]) simp
    have h1: "inhibitor ?s p = Some (j\<lparr>ih_view := ?view\<rparr>)" using j by (simp add: upd_inhibitor_def)
    have l1: "listening (\<lambda>_. True) p ?s" using p0 h1 by (simp add: listening_def)
    obtain t where t: "(if ie_view_mapped env ?view then handle_view_map env p ?s
        else Some (upd_inhibitor p (\<lambda>i. i\<lparr>on_view_map := True\<rparr>) ?s)) = Some t" "sys_good quiet t"
    proof (cases "ie_view_mapped env ?view")
      case True
      obtain t where "idle_inhibitor_set_inhibit p (upd_inhibitor p (\<lambda>i. i\<lparr>visible := \<not> ie_minimized env (ih_view i)\<rparr>) ?s) = Some t"
          "sys_good quiet t"
        by (rule view_change_good [OF g1 l1])
      then show ?thesis using that True h1 by (simp add: handle_view_map_def)
    next
      case False
      then show ?thesis using that flag_good [OF g1, of "\<lambda>i. i\<lparr>on_view_map := True\<rparr>" p] by simp
    qed
    have "sys_good quiet (upd_inhibitor p (\<lambda>i. i\<lparr>on_view_minimize := True\<rparr>) t)" by (rule flag_good [OF t(2)]) simp
    then show ?thesis using False p(2) t(1) by (simp add: inhibitor_handle_surface_map_def flip: s0_def)
  qed
qed

lemma inhibitor_gone_good:
  assumes g: "sys_good quiet s" and p: "inhibitor s p = Some i" "\<not> view_freed i"
  obtains t where "handle_inhibitor_destroy p s = Some t" "sys_good quiet t"
proof -
  let ?s = "s\<lparr>idle_inhibitors := removeAll p (idle_inhibitors s)\<rparr>"
  let ?u = "upd_inhibitor p (\<lambda>i. i\<lparr>visible := False\<rparr>) ?s"
  have ok: "inhibitors_ok s" and v: "visible_at s p = visible i" using g p(1) by (simp_all add: sys_good_def visible_at_def)
  obtain m where m: "(if visible i then idle_inhibitor_set_inhibit p ?u else Some ?s) =
      Some ((if visible i then ?u else ?s)\<lparr>im := m\<rparr>)" "idle_good quiet m"
      "inhibited m = (\<exists>q \<in> set (idle_inhibitors ?s). visible_at s q)"
  proof (cases "visible i")
    case True
    let ?b = "\<exists>q \<in> set (idle_inhibitors ?s). visible_at s q"
    have ig: "idle_good quiet (im s)" using g by (simp add: sys_good_def)
    obtain m where m: "idle_manager_set_inhibited ?b (im s) = Some m" "idle_good quiet m" "inhibited m = ?b"
      by (rule set_inhibited_good [OF ig])
    have vu: "visible_at ?u p = False" "list_ex (visible_at ?u) (idle_inhibitors ?u) = ?b"
      using p(1) by (auto simp: list_ex_iff)
    have "idle_inhibitor_set_inhibit p ?u = Some (?u\<lparr>im := m\<rparr>)"
      unfolding idle_inhibitor_set_inhibit_def vu using m(1) by (cases ?b) (simp_all add: set_inhibited_def)
    then show ?thesis using that [of m] m True by simp
  next
    case False
    then have "(\<exists>q \<in> set (idle_inhibitors ?s). visible_at s q) = (\<exists>q \<in> set (idle_inhibitors s). visible_at s q)"
      using v by auto
    then show ?thesis using that [of "im s"] False g by (simp add: sys_good_def)
  qed
  let ?t = "((if visible i then ?u else ?s)\<lparr>im := m\<rparr>)"
  let ?t' = "?t\<lparr>inhibitor := (inhibitor ?t)(p := None)\<rparr>"
  have h: "inhibitor ?t' q = (if q = p then None else inhibitor s q)" for q by (auto simp: upd_inhibitor_def)
  have f: "idle_inhibitors ?t' = removeAll p (idle_inhibitors s)" "im ?t' = m" "next_inhibitor ?t' = next_inhibitor s" by simp_all
  have "visible_at ?t' q = visible_at s q" if "q \<noteq> p" for q using h [of q] that by (simp add: visible_at_def)
  then have "sys_good quiet ?t'" using ok m(2,3) h f by (auto simp: sys_good_def inhibitors_ok_def)
  moreover have "handle_inhibitor_destroy p s = Some ?t'" using p m(1) by (simp add: handle_inhibitor_destroy_def Let_def)
  ultimately show ?thesis using that by blast
qed

lemma new_inhibitor_good:
  assumes g: "sys_good quiet s"
  obtains t where "handle_new_idle_inhibitor env alloc surface s = Some t" "sys_good quiet t"
proof (cases alloc)
  case False
  then show ?thesis using that g by (simp add: handle_new_idle_inhibitor_def)
next
  case True
  let ?p = "next_inhibitor s"
  let ?i = "\<lparr>ih_surface = surface, ih_view = NULL, visible = False, on_surface_map = False, on_view_map = False, on_view_minimize = False,
    view_freed = False\<rparr>"
  let ?s = "s\<lparr>inhibitor := (inhibitor s)(?p \<mapsto> ?i), next_inhibitor := ?p + 1, idle_inhibitors := ?p # idle_inhibitors s\<rparr>"
  have ok: "inhibitors_ok s" using g by (simp add: sys_good_def)
  then have "?p \<notin> set (idle_inhibitors s)" by (auto simp: inhibitors_ok_def)
  moreover have "visible_at ?s q = (q \<noteq> ?p \<and> visible_at s q)" for q by (simp add: visible_at_def)
  ultimately have "(\<exists>q \<in> set (idle_inhibitors ?s). visible_at ?s q) = (\<exists>q \<in> set (idle_inhibitors s). visible_at s q)" by auto
  then have g1: "sys_good quiet ?s" using g ok by (auto simp: sys_good_def inhibitors_ok_def)
  show ?thesis
  proof (cases "ie_mapped env surface")
    case True
    then show ?thesis using that surface_map_good [OF g1, of ?p ?i env] \<open>alloc\<close> by (auto simp: handle_new_idle_inhibitor_def Let_def)
  next
    case False
    then show ?thesis using that flag_good [OF g1, of "\<lambda>i. i\<lparr>on_surface_map := True\<rparr>" ?p] \<open>alloc\<close>
      by (simp add: handle_new_idle_inhibitor_def Let_def)
  qed
qed

subsection \<open>Runs\<close>

lemma on_im_good:
  assumes "sys_good quiet s" "f (im s) = Some m" "idle_good quiet' m" "inhibited m = inhibited (im s)"
  shows "\<exists>t. on_im f s = Some t \<and> sys_good quiet' t"
  using assms by (simp add: on_im_def sys_good_def)

lemma weaken_quiet: "sys_good quiet s \<Longrightarrow> sys_good False s"
  unfolding sys_good_def idle_good_def by blast

lemma view_freed_good: "sys_good quiet s \<Longrightarrow> sys_good quiet (view_memory_freed view s)"
proof -
  assume g: "sys_good quiet s"
  have "visible_at (view_memory_freed view s) q = visible_at s q" for q
    by (simp add: visible_at_def view_memory_freed_def split: option.split)
  then show ?thesis using g by (simp add: sys_good_def inhibitors_ok_def) (simp add: view_memory_freed_def)
qed

text \<open>The three ways a handler fails.\<close>

definition idle_fault :: "idle_event \<Rightarrow> idle_inhibit_manager \<Rightarrow> bool" where
  "idle_fault e s \<longleftrightarrow> (\<exists>r. e = Simulate r \<and> user_data (im s) r = Some None) \<or>
     (\<exists>env p. e = SurfaceMapped env p \<and> listening (\<lambda>i. (on_view_map i \<or> on_view_minimize i) \<and> \<not> view_freed i) p s) \<or>
     (\<exists>p. e = InhibitorGone p \<and> listening view_freed p s)"

definition is_simulate :: "idle_event \<Rightarrow> bool" where
  "is_simulate e = (case e of Simulate _ \<Rightarrow> True | _ \<Rightarrow> False)"

lemma manager_event_good:
  assumes g: "sys_good quiet s" and p: "idle_possible e s" and n: "\<not> idle_fault e s"
    and e: "\<And>env a sf. e \<noteq> NewInhibitor env a sf" "\<And>env p. e \<noteq> SurfaceMapped env p" "\<And>p. e \<noteq> SurfaceUnmapped p"
      "\<And>env p. e \<noteq> ViewMapped env p" "\<And>env p. e \<noteq> ViewMinimized env p" "\<And>p. e \<noteq> InhibitorGone p"
      "\<And>v. e \<noteq> ViewFreed v"
  shows "\<exists>t. idle_handle e s = Some t \<and> sys_good (quiet \<and> \<not> is_simulate e) t"
proof -
  have i: "idle_good quiet (im s)" "timers_ok (im s)" using g unfolding sys_good_def idle_good_def by blast+
  note on = on_im_good [OF g]
  show ?thesis
  proof (cases e)
    case (GetNotification a t r ms seat)
    then show ?thesis
      using resource_good [OF i(1), of r IDLE_FROM_IDLE_NOTIFIER a t True ms seat] p
      by (simp add: is_simulate_def idle_notifier_get_idle_notification_def) (metis on idle_notifier_get_idle_notification_def)
  next
    case (GetInputNotification a t r ms seat)
    then show ?thesis
      using resource_good [OF i(1), of r IDLE_FROM_IDLE_NOTIFIER a t False ms seat] p
      by (simp add: is_simulate_def) (metis on idle_notifier_get_input_idle_notification_def)
  next
    case (GetTimeout a t r ms seat)
    then show ?thesis
      using resource_good [OF i(1), of r IDLE_FROM_KDE_IDLE a t True ms seat] p
      by (simp add: is_simulate_def) (metis on kde_idle_get_idle_timeout_def)
  next
    case (AddIdle a t seat su ms d)
    obtain m where "idle_manager_add_idle a t seat su ms d (im s) = Some m" "idle_good quiet m" "inhibited m = inhibited (im s)"
      by (rule add_idle_good [OF i(1)])
    then show ?thesis using on AddIdle by (simp add: is_simulate_def)
  next
    case (TimerFires q)
    then obtain k ms where k: "idle_heap (im s) q = Some k" "id_timer k = Some (Some ms)" using p by (auto split: option.splits)
    obtain m where "idle_handle_timer q (im s) = Some m" "idle_good quiet m" "idle_frame (im s) m"
      by (rule timer_good [OF i(1) k])
    then show ?thesis using on TimerFires by (simp add: is_simulate_def idle_frame_def)
  next
    case (SeatGone seat)
    have "\<exists>m. idle_handle_seat_destroy seat (im s) = Some m \<and> idle_good quiet m \<and> inhibited m = inhibited (im s)"
      unfolding idle_handle_seat_destroy_def by (rule destroy_idles_good [OF i(1)]) (use i(2) in \<open>auto simp: timers_ok_def\<close>)
    then show ?thesis using on SeatGone by (auto simp: is_simulate_def)
  next
    case (Activity seat)
    have "\<exists>m. idle_manager_notify_activity seat (im s) = Some m \<and> idle_good quiet m \<and> idle_frame (im s) m"
      unfolding idle_manager_notify_activity_def by (rule notify_good [OF i(1) order.refl])
    then show ?thesis using on Activity by (auto simp: is_simulate_def idle_frame_def)
  next
    case (Release r)
    then have r: "user_data (im s) r \<noteq> None" using p by simp
    obtain m where "idle_timeout_release r (im s) = Some m" "idle_good quiet m" "inhibited m = inhibited (im s)"
      by (rule release_good [OF i(1) r])
    then show ?thesis using on Release by (simp add: is_simulate_def)
  next
    case (ResourceGone r)
    then have r: "user_data (im s) r \<noteq> None" using p by simp
    obtain m where "resource_gone r (im s) = Some m" "idle_good quiet m" "inhibited m = inhibited (im s)"
      by (rule resource_gone_good [OF i(1) r])
    then show ?thesis using on ResourceGone by (simp add: is_simulate_def)
  next
    case (Simulate r)
    then obtain q where r: "user_data (im s) r = Some (Some q)" using p n by (auto simp: idle_fault_def)
    obtain m where "simulate_activity r (im s) = Some m" "idle_good False m" "inhibited m = inhibited (im s)"
      by (rule simulate_good [OF i(1) r])
    then show ?thesis using on Simulate by (simp add: is_simulate_def)
  qed (use e in simp_all)
qed

lemma idle_event_good:
  assumes g: "sys_good quiet s" and p: "idle_possible e s" and n: "\<not> idle_fault e s"
  shows "\<exists>t. idle_handle e s = Some t \<and> sys_good (quiet \<and> \<not> is_simulate e) t"
proof -
  note vc = view_change_good [OF g]
  show ?thesis
  proof (cases e)
    case (NewInhibitor env a sf)
    obtain t where "handle_new_idle_inhibitor env a sf s = Some t" "sys_good quiet t" by (rule new_inhibitor_good [OF g])
    then show ?thesis using NewInhibitor by (simp add: is_simulate_def)
  next
    case (SurfaceMapped env q)
    then obtain i where "q \<in> set (idle_inhibitors s)" "inhibitor s q = Some i" "\<not> ((on_view_map i \<or> on_view_minimize i) \<and> \<not> view_freed i)"
      using p n by (auto simp: listening_def idle_fault_def split: option.splits)
    then show ?thesis using surface_map_good [OF g, of q i env] SurfaceMapped by (simp add: is_simulate_def)
  next
    case (SurfaceUnmapped q)
    then have l: "listening (\<lambda>_. True) q s" using p by simp
    obtain t where "idle_inhibitor_set_inhibit q (upd_inhibitor q (\<lambda>i. i\<lparr>visible := False\<rparr>) s) = Some t" "sys_good quiet t"
      by (rule vc [OF l])
    then show ?thesis using SurfaceUnmapped l by (auto simp: is_simulate_def inhibitor_handle_surface_unmap_def listening_def split: option.splits)
  next
    case (ViewMapped env q)
    then have l: "listening (\<lambda>i. on_view_map i \<and> \<not> view_freed i) q s" using p by simp
    obtain t where "idle_inhibitor_set_inhibit q (upd_inhibitor q (\<lambda>i. i\<lparr>visible := \<not> ie_minimized env (ih_view i)\<rparr>) s) = Some t"
      "sys_good quiet t" by (rule vc [OF l])
    then show ?thesis using ViewMapped l by (auto simp: is_simulate_def handle_view_map_def listening_def split: option.splits)
  next
    case (ViewMinimized env q)
    then have l: "listening (\<lambda>i. on_view_minimize i \<and> \<not> view_freed i) q s" using p by simp
    obtain t where "idle_inhibitor_set_inhibit q (upd_inhibitor q (\<lambda>i. i\<lparr>visible := \<not> ie_minimized env (ih_view i)\<rparr>) s) = Some t"
      "sys_good quiet t" by (rule vc [OF l])
    then show ?thesis using ViewMinimized l by (auto simp: is_simulate_def handle_view_minimize_def listening_def split: option.splits)
  next
    case (InhibitorGone q)
    then obtain i where i: "inhibitor s q = Some i" "\<not> view_freed i"
      using p n by (auto simp: idle_fault_def listening_def split: option.splits)
    obtain t where "handle_inhibitor_destroy q s = Some t" "sys_good quiet t" by (rule inhibitor_gone_good [OF g i])
    then show ?thesis using InhibitorGone by (simp add: is_simulate_def)
  next
    case (ViewFreed view)
    then show ?thesis using view_freed_good [OF g] by (simp add: is_simulate_def)
  qed (rule manager_event_good [OF g p n]; simp)+
qed

lemma idle_fault_fails:
  assumes g: "sys_good quiet s" and f: "idle_fault e s"
  shows "idle_handle e s = None"
proof -
  consider r where "e = Simulate r" "user_data (im s) r = Some None"
    | env p where "e = SurfaceMapped env p" "listening (\<lambda>i. (on_view_map i \<or> on_view_minimize i) \<and> \<not> view_freed i) p s"
    | p where "e = InhibitorGone p" "listening view_freed p s"
    using f by (auto simp: idle_fault_def)
  then show ?thesis
  proof cases
    case 1
    then show ?thesis by (simp add: on_im_def simulate_activity_def)
  next
    case 2
    then obtain i where "p \<in> set (idle_inhibitors s)" "inhibitor s p = Some i" "(on_view_map i \<or> on_view_minimize i) \<and> \<not> view_freed i"
      by (auto simp: listening_def split: option.splits)
    then show ?thesis using surface_map_good [OF g, of p i env] 2(1) by auto
  next
    case 3
    then show ?thesis by (auto simp: listening_def handle_inhibitor_destroy_def split: option.splits)
  qed
qed

interpretation idle_steps: step_invariant "\<lambda>_. True" "\<lambda>_ s t. \<exists>e. idle_possible e s \<and> idle_handle e s = Some t" "sys_good False"
proof unfold_locales
  fix s t
  assume "\<exists>e. idle_possible e s \<and> idle_handle e s = Some t" and g: "sys_good False s"
  then obtain e where e: "idle_possible e s" "idle_handle e s = Some t" by blast
  have "\<not> idle_fault e s" using idle_fault_fails [OF g] e(2) by auto
  then show "sys_good False t" using idle_event_good [OF g e(1)] e(2) by (auto dest: weaken_quiet)
qed

interpretation quiet_steps: step_invariant "\<lambda>_. True"
  "\<lambda>_ s t. \<exists>e. \<not> is_simulate e \<and> idle_possible e s \<and> idle_handle e s = Some t" "sys_good True"
proof unfold_locales
  fix s t
  assume "\<exists>e. \<not> is_simulate e \<and> idle_possible e s \<and> idle_handle e s = Some t" and g: "sys_good True s"
  then obtain e where e: "\<not> is_simulate e" "idle_possible e s" "idle_handle e s = Some t" by blast
  have "\<not> idle_fault e s" using idle_fault_fails [OF g] e(3) by auto
  then show "sys_good True t" using idle_event_good [OF g e(2)] e(1,3) by auto
qed

lemma create_sys_good: "sys_good quiet idle_inhibit_manager_create"
  by (simp add: idle_inhibit_manager_create_def idle_manager_create_def sys_good_def inhibitors_ok_def idle_good_def timers_ok_def
    refs_ok_def refers_def all_idles_def)

lemma run_steps:
  assumes "idle_run s es t"
  shows "(\<lambda>s t. \<exists>e. idle_possible e s \<and> idle_handle e s = Some t)\<^sup>*\<^sup>* s t"
    "\<forall>e \<in> set es. \<not> is_simulate e \<Longrightarrow> (\<lambda>s t. \<exists>e. \<not> is_simulate e \<and> idle_possible e s \<and> idle_handle e s = Some t)\<^sup>*\<^sup>* s t"
  using assms by (induction rule: idle_run.induct) (auto intro: rtranclp.rtrancl_into_rtrancl)

lemma run_good:
  assumes "idle_run idle_inhibit_manager_create es s"
  shows "sys_good False s" "\<forall>e \<in> set es. \<not> is_simulate e \<Longrightarrow> sys_good True s"
  using idle_steps.steps_keep [OF run_steps(1) [OF assms] TrueI create_sys_good]
    quiet_steps.steps_keep [OF run_steps(2) [OF assms] TrueI create_sys_good] by auto

text \<open>A run of given events, for examples.\<close>

fun idle_exec :: "idle_event list \<Rightarrow> idle_inhibit_manager \<Rightarrow> idle_inhibit_manager option" where
  "idle_exec [] s = Some s"
| "idle_exec (e # es) s = (if idle_possible e s then do { s \<leftarrow> idle_handle e s; idle_exec es s } else None)"

lemma run_trans: "idle_run t fs u \<Longrightarrow> idle_run s es t \<Longrightarrow> idle_run s (es @ fs) u"
  by (induction rule: idle_run.induct) (auto intro: idle_run.intros simp flip: append_assoc)

lemma exec_run: "idle_exec es s = Some t \<Longrightarrow> idle_run s es t"
proof (induction es arbitrary: s)
  case (Cons e es)
  then obtain u where u: "idle_possible e s" "idle_handle e s = Some u" "idle_exec es u = Some t"
    by (auto simp: bind_eq_Some_conv split: if_splits)
  have "idle_run s ([] @ [e]) u" by (rule idle_run.Event [OF idle_run.Start u(1,2)])
  then show ?case using run_trans [OF Cons.IH [OF u(3)], of s "[e]"] by simp
qed (auto intro: idle_run.Start)

text \<open>Surfaces that are mapped or not, with the view 7 or none.\<close>

definition example_env :: "bool \<Rightarrow> ptr \<Rightarrow> idle_env" where
  "example_env mapped view = \<lparr>ie_mapped = (\<lambda>_. mapped), ie_view = (\<lambda>_. view), ie_view_mapped = (\<lambda>_. True), ie_minimized = (\<lambda>_. False)\<rparr>"

text \<open>C20: in every run the timers are held back exactly while some inhibitor is visible; each timer is told idle and resumed
  in turn, beginning with idle; a timer that is not held back and whose time-out is less than \<open>2\<^sup>3\<^sup>1\<close> milliseconds has
  told idle or its event source is armed with its time-out, so that idleness is not missed; a timer with a larger
  time-out, which is negative as an \<^verbatim>\<open>int\<close>, is never armed and never idle; and as long as no client simulates
  activity, a timer that is held back neither is idle nor can become so.\<close>

theorem idle_timers_kept:
  assumes "idle_run idle_inhibit_manager_create es s"
  shows "(inhibited (im s) \<longleftrightarrow> (\<exists>p \<in> set (idle_inhibitors s). visible_at s p)) \<and>
    (\<forall>p \<in> set (idles (im s)). \<exists>i. idle_heap (im s) p = Some i \<and>
       (\<exists>n. told p (idle_calls (im s)) = map even [0..<n] \<and> idle_state i = odd n) \<and>
       (if timeout_ms i < 2 ^ 31
        then \<not> (inhibited (im s) \<and> support_inhibit i) \<longrightarrow> idle_state i \<or> id_timer i = Some (Some (timeout_ms i))
        else id_timer i = Some None \<and> \<not> idle_state i) \<and>
       ((\<forall>e \<in> set es. \<not> is_simulate e) \<and> inhibited (im s) \<and> support_inhibit i \<longrightarrow>
          \<not> idle_state i \<and> (id_timer i = None \<or> id_timer i = Some None)))"
proof (intro conjI ballI)
  note g = run_good [OF assms]
  have t: "timers_ok (im s)" "all_idles (live_ok (inhibited (im s))) (im s)" using g(1) unfolding sys_good_def idle_good_def by blast+
  show "inhibited (im s) \<longleftrightarrow> (\<exists>p \<in> set (idle_inhibitors s). visible_at s p)" using g(1) by (simp add: sys_good_def)
  fix p
  assume "p \<in> set (idles (im s))"
  then obtain i where i: "idle_heap (im s) p = Some i" using timers_okD(2) [OF t(1)] by blast
  have "held_ok (inhibited (im s)) i" if "\<forall>e \<in> set es. \<not> is_simulate e"
    using g(2) [OF that] i unfolding sys_good_def idle_good_def all_idles_def by blast
  moreover have "live_ok (inhibited (im s)) i" using t(2) i by (auto simp: all_idles_def)
  moreover have "if timeout_ms i < 2 ^ 31
      then \<not> (inhibited (im s) \<and> support_inhibit i) \<longrightarrow> idle_state i \<or> id_timer i = Some (Some (timeout_ms i))
      else id_timer i = Some None \<and> \<not> idle_state i"
    using calculation(2) timers_okD(1) [OF t(1) i] sint_sign(1) [of "timeout_ms i"] by (simp add: live_ok_def source_ok_def)
  ultimately show "\<exists>i. idle_heap (im s) p = Some i \<and>
       (\<exists>n. told p (idle_calls (im s)) = map even [0..<n] \<and> idle_state i = odd n) \<and>
       (if timeout_ms i < 2 ^ 31
        then \<not> (inhibited (im s) \<and> support_inhibit i) \<longrightarrow> idle_state i \<or> id_timer i = Some (Some (timeout_ms i))
        else id_timer i = Some None \<and> \<not> idle_state i) \<and>
       ((\<forall>e \<in> set es. \<not> is_simulate e) \<and> inhibited (im s) \<and> support_inhibit i \<longrightarrow>
          \<not> idle_state i \<and> (id_timer i = None \<or> id_timer i = Some None))"
    using timers_okD(1) [OF t(1) i] i by (simp only: log_ok_def held_ok_def) blast
qed

theorem idle_timers_kept_witness:
  "\<exists>s i. idle_run idle_inhibit_manager_create [GetNotification True True 0 500 (Some 3), TimerFires 0, NewInhibitor (example_env True NULL) True 9] s \<and>
     idle_heap (im s) 0 = Some i \<and> inhibited (im s) \<and> \<not> idle_state i \<and> told 0 (idle_calls (im s)) = [True, False]"
proof -
  let ?es = "[GetNotification True True 0 500 (Some 3), TimerFires 0, NewInhibitor (example_env True NULL) True 9]"
  have "map_option (\<lambda>s. (idles (im s), inhibited (im s), map_option support_inhibit (idle_heap (im s) 0), told 0 (idle_calls (im s))))
      (idle_exec ?es idle_inhibit_manager_create) = Some ([0], True, Some True, [True, False])" by code_simp
  then obtain s where s: "idle_exec ?es idle_inhibit_manager_create = Some s" "idles (im s) = [0]" "inhibited (im s)"
    "map_option support_inhibit (idle_heap (im s) 0) = Some True" "told 0 (idle_calls (im s)) = [True, False]" by auto
  note r = exec_run [OF s(1)]
  have ns: "\<forall>e \<in> set ?es. \<not> is_simulate e" by (simp add: is_simulate_def)
  have z: "0 \<in> set (idles (im s))" using s(2) by simp
  show ?thesis using bspec [OF conjunct2 [OF idle_timers_kept [OF r]] z] ns s r by auto
qed

text \<open>C21: the handlers fail in three cases only. A client that simulates activity on a time-out whose timer is gone, with its
  seat or by its release, makes the compositor use a null pointer; a surface with an inhibitor that is mapped a
  second time while its view is alive inserts a listener into a list it is in; and an inhibitor that ends after the
  view of its surface was freed removes its listeners from lists whose heads were in the freed memory.\<close>

theorem idle_handlers_fail_iff:
  assumes "idle_run idle_inhibit_manager_create es s" "idle_possible e s"
  shows "idle_handle e s = None \<longleftrightarrow> (\<exists>r. e = Simulate r \<and> user_data (im s) r = Some None) \<or>
    (\<exists>env p i. e = SurfaceMapped env p \<and> inhibitor s p = Some i \<and> (on_view_map i \<or> on_view_minimize i) \<and> \<not> view_freed i) \<or>
    (\<exists>p i. e = InhibitorGone p \<and> inhibitor s p = Some i \<and> view_freed i)"
proof -
  note g = run_good(1) [OF assms(1)]
  have "idle_handle e s = None \<longleftrightarrow> idle_fault e s" using idle_fault_fails [OF g] idle_event_good [OF g assms(2)] by fastforce
  also have "idle_fault e s \<longleftrightarrow> (\<exists>r. e = Simulate r \<and> user_data (im s) r = Some None) \<or>
      (\<exists>env p i. e = SurfaceMapped env p \<and> inhibitor s p = Some i \<and> (on_view_map i \<or> on_view_minimize i) \<and> \<not> view_freed i) \<or>
      (\<exists>p i. e = InhibitorGone p \<and> inhibitor s p = Some i \<and> view_freed i)"
  proof (cases e)
    case (SurfaceMapped env p)
    then show ?thesis using assms(2) by (cases "inhibitor s p") (simp_all add: idle_fault_def listening_def)
  next
    case (InhibitorGone p)
    then show ?thesis using assms(2) by (cases "inhibitor s p") (simp_all add: idle_fault_def listening_def)
  qed (auto simp: idle_fault_def)
  finally show ?thesis .
qed

theorem idle_handlers_fail_iff_witness:
  "(\<exists>s. idle_run idle_inhibit_manager_create [GetTimeout True True 0 500 (Some 3), Release 0] s \<and> idle_possible (Simulate 0) s \<and>
      idle_handle (Simulate 0) s = None) \<and>
   (\<exists>s. idle_run idle_inhibit_manager_create
        [NewInhibitor (example_env False 7) True 9, SurfaceMapped (example_env True 7) 0, SurfaceUnmapped 0] s \<and>
      idle_possible (SurfaceMapped (example_env True 7) 0) s \<and> idle_handle (SurfaceMapped (example_env True 7) 0) s = None) \<and>
   (\<exists>s. idle_run idle_inhibit_manager_create [NewInhibitor (example_env True 7) True 9, SurfaceUnmapped 0, ViewFreed 7] s \<and>
      idle_possible (InhibitorGone 0) s \<and> idle_handle (InhibitorGone 0) s = None)"
proof (intro conjI)
  let ?es = "[GetTimeout True True 0 500 (Some 3), Release 0]"
  have "map_option (\<lambda>s. (idle_possible (Simulate 0) s, user_data (im s) 0)) (idle_exec ?es idle_inhibit_manager_create) = Some (True, Some None)"
    by code_simp
  then obtain s where s: "idle_exec ?es idle_inhibit_manager_create = Some s" "idle_possible (Simulate 0) s" "user_data (im s) 0 = Some None"
    by auto
  note r = exec_run [OF s(1)]
  show "\<exists>s. idle_run idle_inhibit_manager_create ?es s \<and> idle_possible (Simulate 0) s \<and> idle_handle (Simulate 0) s = None"
    using idle_handlers_fail_iff [OF r s(2)] s(2,3) r by blast
next
  let ?e = "SurfaceMapped (example_env True 7) 0"
  let ?es = "[NewInhibitor (example_env False 7) True 9, ?e, SurfaceUnmapped 0]"
  have "map_option (\<lambda>s. (idle_possible ?e s, map_option (\<lambda>i. (on_view_minimize i, view_freed i)) (inhibitor s 0)))
      (idle_exec ?es idle_inhibit_manager_create) = Some (True, Some (True, False))" by code_simp
  then obtain s i where s: "idle_exec ?es idle_inhibit_manager_create = Some s" "idle_possible ?e s" "inhibitor s 0 = Some i"
    "on_view_minimize i" "\<not> view_freed i" by auto
  note r = exec_run [OF s(1)]
  show "\<exists>s. idle_run idle_inhibit_manager_create ?es s \<and> idle_possible ?e s \<and> idle_handle ?e s = None"
    using idle_handlers_fail_iff [OF r s(2)] s(2-5) r by blast
next
  let ?es = "[NewInhibitor (example_env True 7) True 9, SurfaceUnmapped 0, ViewFreed 7]"
  have "map_option (\<lambda>s. (idle_possible (InhibitorGone 0) s, map_option view_freed (inhibitor s 0)))
      (idle_exec ?es idle_inhibit_manager_create) = Some (True, Some True)" by code_simp
  then obtain s i where s: "idle_exec ?es idle_inhibit_manager_create = Some s" "idle_possible (InhibitorGone 0) s"
    "inhibitor s 0 = Some i" "view_freed i" by auto
  note r = exec_run [OF s(1)]
  show "\<exists>s. idle_run idle_inhibit_manager_create ?es s \<and> idle_possible (InhibitorGone 0) s \<and> idle_handle (InhibitorGone 0) s = None"
    using idle_handlers_fail_iff [OF r s(2)] s(2,3,4) r by blast
qed

text \<open>A client of the older protocol that simulates activity arms its timer although an inhibitor is visible, and is
  then told that the seat is idle.\<close>

theorem simulated_activity_defeats_inhibitor:
  "\<exists>s i. idle_run idle_inhibit_manager_create
       [NewInhibitor (example_env True NULL) True 9, GetTimeout True True 0 500 (Some 3), Simulate 0, TimerFires 0] s \<and>
     (\<exists>p \<in> set (idle_inhibitors s). visible_at s p) \<and> idle_heap (im s) 0 = Some i \<and> support_inhibit i \<and> idle_state i"
proof -
  let ?es = "[NewInhibitor (example_env True NULL) True 9, GetTimeout True True 0 500 (Some 3), Simulate 0, TimerFires 0]"
  have "map_option (\<lambda>s. (list_ex (visible_at s) (idle_inhibitors s), map_option (\<lambda>i. (support_inhibit i, idle_state i)) (idle_heap (im s) 0)))
      (idle_exec ?es idle_inhibit_manager_create) = Some (True, Some (True, True))" by code_simp
  then obtain s where s: "idle_exec ?es idle_inhibit_manager_create = Some s" "list_ex (visible_at s) (idle_inhibitors s)"
    "map_option (\<lambda>i. (support_inhibit i, idle_state i)) (idle_heap (im s) 0) = Some (True, True)" by auto
  then show ?thesis using exec_run [OF s(1)] by (auto simp: list_ex_iff)
qed

end
