(* ===== verification/Outputs.thy ===== *)
theory Outputs
  imports Complex_Main Boxes "HOL-Library.Monad_Syntax"
begin

section \<open>Outputs (\<^verbatim>\<open>output/output.c\<close>)\<close>

text \<open>
  The manager's list of outputs in the order of the layout, their states, the pending configurations and the primary
  output. What wlroots and the backend decide is an argument: the modes of an output, whether a request passes the test
  and the commit, what the output reports afterwards, and what it reports of its own. So are the listeners that reserve
  parts of an output for panels (\<open>oe_update\<close>, \<open>oe_update_late\<close>). Signals are recorded in order. A scale is a rational
  number. \<^term>\<open>None\<close> is a write through a pointer that points at no element of a list. The scene's outputs are left out.
\<close>

subsection \<open>State\<close>

record kywc_output_state =
  enabled :: bool
  st_power :: bool
  st_width :: int
  st_height :: int
  refresh :: int
  transform :: int
  vrr_policy :: int
  scale :: rat
  st_lx :: int
  st_ly :: int
  brightness :: int
  color_temp :: int
  st_primary :: bool

record kywc_output_mode =
  mode_width :: int
  mode_height :: int
  mode_refresh :: int
  preferred :: bool

definition KYWC_OUTPUT_CAPABILITY_POWER :: u32 where "KYWC_OUTPUT_CAPABILITY_POWER = 1"
definition KYWC_OUTPUT_CAPABILITY_BRIGHTNESS :: u32 where "KYWC_OUTPUT_CAPABILITY_BRIGHTNESS = 2"
definition KYWC_OUTPUT_CAPABILITY_COLOR_TEMP :: u32 where "KYWC_OUTPUT_CAPABILITY_COLOR_TEMP = 4"

record kywc_output =
  o_state :: kywc_output_state
  o_name :: string
  o_uuid :: string
  o_modes :: "kywc_output_mode list"
  capabilities :: u32
  o_destroying :: bool
  o_geometry :: kywc_box
  o_usable_area :: kywc_box
  initialized :: bool
  o_brightness :: int
  o_color_temp :: int
  o_vrr_policy :: int
  gamma_changed :: bool
  scene_commit :: bool
  has_pending :: bool
  o_pending_state :: kywc_output_state

datatype configure_type = CONFIGURE_TYPE_NONE | CONFIGURE_TYPE_REMAIN | CONFIGURE_TYPE_UPDATE

datatype out_signal = OutOn ptr | OutOff ptr | OutDisable ptr | OutNewEnabled ptr | OutGeometry ptr | OutUsableArea ptr | OutPower ptr
  | OutBrightness ptr | OutColorTemp ptr | OutMode ptr | OutTransform ptr | OutScale ptr | OutPosition ptr | OutDestroy ptr
  | PrimaryOutput ptr | Configured configure_type

record output_manager =
  om_outputs :: "ptr list"
  om_output :: "ptr \<Rightarrow> kywc_output"
  output_configs :: "(ptr \<times> kywc_output_state) list"
  om_fallback :: ptr
  primary_output :: ptr
  pending_primary :: ptr
  terminate :: bool
  out_signals :: "out_signal list"

text \<open>What an output of wlroots reports; its modes are objects with an address; what a commit asks for: a fixed or a custom
  mode, the transform and the scale are set or not; and what is asked of the layout.\<close>

record wlr_readback =
  rb_enabled :: bool
  rb_width :: int
  rb_height :: int
  rb_refresh :: int
  rb_transform :: int
  rb_scale :: rat
  rb_position :: "(int \<times> int) option"

record wlr_mode = kywc_output_mode +
  mode_ptr :: ptr

datatype mode_request = FixedMode wlr_mode | CustomMode int int int

record wlr_output_state =
  ws_enabled :: bool
  ws_mode :: "mode_request option"
  ws_transform :: "int option"
  ws_scale :: "rat option"

datatype layout_request = LayoutRemove | LayoutAddAuto | LayoutAdd int int

record out_env =
  oe_now :: "ptr \<Rightarrow> wlr_readback"
  oe_is_drm :: "ptr \<Rightarrow> bool"
  oe_modes :: "ptr \<Rightarrow> wlr_mode list"
  oe_preferred_mode :: "ptr \<Rightarrow> wlr_mode option"
  oe_test :: "ptr \<Rightarrow> wlr_output_state \<Rightarrow> bool"
  oe_commit :: "ptr \<Rightarrow> wlr_output_state \<Rightarrow> bool"
  oe_after :: "ptr \<Rightarrow> wlr_output_state option \<Rightarrow> layout_request \<Rightarrow> wlr_readback"
  oe_update :: "ptr \<Rightarrow> kywc_box \<Rightarrow> kywc_box"
  oe_update_late :: "ptr \<Rightarrow> kywc_box \<Rightarrow> kywc_box"

definition upd_out_node :: "ptr \<Rightarrow> (kywc_output \<Rightarrow> kywc_output) \<Rightarrow> output_manager \<Rightarrow> output_manager" where
  "upd_out_node p f m = m\<lparr>om_output := (om_output m)(p := f (om_output m p))\<rparr>"

definition out_emit :: "out_signal \<Rightarrow> output_manager \<Rightarrow> output_manager" where
  "out_emit sig m = m\<lparr>out_signals := out_signals m @ [sig]\<rparr>"

definition out_state :: "output_manager \<Rightarrow> ptr \<Rightarrow> kywc_output_state" where
  "out_state m p = o_state (om_output m p)"

subsection \<open>Modes\<close>

definition kywc_output_preferred_mode :: "kywc_output_mode list \<Rightarrow> kywc_output_mode option" where
  "kywc_output_preferred_mode modes =
     (case find preferred modes of Some m \<Rightarrow> Some m | None \<Rightarrow> if modes = [] then None else Some (last modes))"

fun output_find_best_mode :: "int \<Rightarrow> int \<Rightarrow> int \<Rightarrow> 'a kywc_output_mode_scheme list \<Rightarrow> 'a kywc_output_mode_scheme option \<Rightarrow> 'a kywc_output_mode_scheme option" where
  "output_find_best_mode width height r [] best = best"
| "output_find_best_mode width height r (m # ms) best =
     (if width \<noteq> mode_width m \<or> height \<noteq> mode_height m then output_find_best_mode width height r ms best
      else if r = mode_refresh m then Some m
      else output_find_best_mode width height r ms
        (case best of None \<Rightarrow> Some m | Some b \<Rightarrow> if mode_refresh m > mode_refresh b then Some m else best))"

definition output_mode_changed :: "kywc_output_state \<Rightarrow> kywc_output_state \<Rightarrow> bool" where
  "output_mode_changed current st \<longleftrightarrow> st_width current \<noteq> st_width st \<or> st_height current \<noteq> st_height st \<or> refresh current \<noteq> refresh st"

subsection \<open>Geometry and usable area\<close>

text \<open>Dividing an integer by a scale drops the fraction.\<close>

definition div_scale :: "int \<Rightarrow> rat \<Rightarrow> int" where
  "div_scale n s = (let q = of_int n / s in if q < 0 then \<lceil>q\<rceil> else \<lfloor>q\<rfloor>)"

definition output_update_geometry :: "kywc_output_state \<Rightarrow> kywc_box" where
  "output_update_geometry st =
     (let (w, h) = (if transform st smod 2 = 0 then (st_width st, st_height st) else (st_height st, st_width st))
      in \<lparr>box_x = st_lx st, box_y = st_ly st, box_width = div_scale w (scale st), box_height = div_scale h (scale st)\<rparr>)"

definition positive_size :: "kywc_box \<Rightarrow> kywc_box" where
  "positive_size b = b\<lparr>box_width := (if box_width b > 0 then box_width b else 0), box_height := (if box_height b > 0 then box_height b else 0)\<rparr>"

definition output_do_update_usable_area :: "(kywc_box \<Rightarrow> kywc_box) \<Rightarrow> (kywc_box \<Rightarrow> kywc_box) \<Rightarrow> kywc_box \<Rightarrow> kywc_box" where
  "output_do_update_usable_area update late geo = positive_size (late (positive_size (update geo)))"

definition output_emit_usable_area :: "ptr \<Rightarrow> output_manager \<Rightarrow> output_manager" where
  "output_emit_usable_area p = out_emit (OutUsableArea p)"

definition output_update_usable_area :: "out_env \<Rightarrow> ptr \<Rightarrow> output_manager \<Rightarrow> output_manager" where
  "output_update_usable_area env p m =
     (if p = NULL \<or> o_destroying (om_output m p) \<or> \<not> enabled (out_state m p) then m
      else let area = output_do_update_usable_area (oe_update env p) (oe_update_late env p) (o_geometry (om_output m p))
           in if kywc_box_equal (o_usable_area (om_output m p)) area then m
              else output_emit_usable_area p (upd_out_node p (\<lambda>o1. o1\<lparr>o_usable_area := area\<rparr>) m))"

subsection \<open>Order of the outputs\<close>

fun sorted_from :: "(ptr \<Rightarrow> kywc_box) \<Rightarrow> int \<Rightarrow> int \<Rightarrow> ptr list \<Rightarrow> bool" where
  "sorted_from geo x y [] = True"
| "sorted_from geo x y (p # ps) =
     (let dx = box_x (geo p) - x; dy = box_y (geo p) - y
      in if dx < 0 \<or> (dx = 0 \<and> dy < 0) then False else sorted_from geo (box_x (geo p)) (box_y (geo p)) ps)"

definition output_manager_is_sorted :: "(ptr \<Rightarrow> kywc_box) \<Rightarrow> ptr list \<Rightarrow> bool" where
  "output_manager_is_sorted geo ps = sorted_from geo 0 0 ps"

text \<open>An output goes back from the end of the outputs before it, which are given last to first.\<close>

fun insert_back :: "(ptr \<Rightarrow> kywc_box) \<Rightarrow> ptr \<Rightarrow> ptr list \<Rightarrow> ptr list" where
  "insert_back geo p [] = [p]"
| "insert_back geo p (q # qs) =
     (let dx = box_x (geo p) - box_x (geo q); dy = box_y (geo p) - box_y (geo q)
      in if dx < 0 \<or> (dx = 0 \<and> dy < 0) then q # insert_back geo p qs
         else if dx > 0 \<or> (dx = 0 \<and> dy > 0) then p # q # qs
         else q # insert_back geo p qs)"

fun sort_loop :: "(ptr \<Rightarrow> kywc_box) \<Rightarrow> ptr list \<Rightarrow> ptr list \<Rightarrow> ptr list" where
  "sort_loop geo before [] = rev before"
| "sort_loop geo before (p # ps) = sort_loop geo (insert_back geo p before) ps"

definition output_manager_sort_outputs :: "output_manager \<Rightarrow> output_manager" where
  "output_manager_sort_outputs m =
     (let geo = (\<lambda>p. o_geometry (om_output m p))
      in if output_manager_is_sorted geo (om_outputs m) then m else m\<lparr>om_outputs := sort_loop geo [] (om_outputs m)\<rparr>)"

subsection \<open>Setting the state of an output\<close>

text \<open>When the test rejects the request, the other modes are tried in turn; the last one stays when all are rejected.\<close>

fun ensure_loop :: "(wlr_output_state \<Rightarrow> bool) \<Rightarrow> wlr_mode option \<Rightarrow> wlr_mode list \<Rightarrow> wlr_output_state \<Rightarrow> wlr_output_state" where
  "ensure_loop test md [] ws = ws"
| "ensure_loop test md (x # xs) ws =
     (if map_option mode_ptr md = Some (mode_ptr x) then ensure_loop test md xs ws
      else let ws = ws\<lparr>ws_mode := Some (FixedMode x)\<rparr> in if test ws then ws else ensure_loop test md xs ws)"

definition output_ensure_mode :: "out_env \<Rightarrow> ptr \<Rightarrow> wlr_mode option \<Rightarrow> wlr_output_state \<Rightarrow> wlr_output_state" where
  "output_ensure_mode env p md ws = (if oe_test env p ws then ws else ensure_loop (oe_test env p) md (oe_modes env p) ws)"

definition output_gamma_changed :: "kywc_output_state \<Rightarrow> kywc_output_state \<Rightarrow> bool" where
  "output_gamma_changed current st \<longleftrightarrow> color_temp current \<noteq> color_temp st \<or> brightness current \<noteq> brightness st"

definition output_compare_state :: "kywc_output_state \<Rightarrow> kywc_output_state \<Rightarrow> bool" where
  "output_compare_state current st \<longleftrightarrow> enabled current \<noteq> enabled st \<or> st_power current \<noteq> st_power st \<or> output_mode_changed current st \<or>
     transform current \<noteq> transform st \<or> vrr_policy current \<noteq> vrr_policy st \<or> scale current \<noteq> scale st"

text \<open>The mode to ask for; the other parts of the request of an output that is on; and whether a commit has to wait for a
  page flip.\<close>

definition request_mode :: "out_env \<Rightarrow> ptr \<Rightarrow> kywc_output_state \<Rightarrow> wlr_output_state \<Rightarrow> wlr_output_state" where
  "request_mode env p st ws =
     (let best = (if st_width st \<le> 0 \<or> st_height st \<le> 0 then oe_preferred_mode env p
                  else output_find_best_mode (st_width st) (st_height st) (refresh st) (oe_modes env p) None);
          ws = ws\<lparr>ws_mode := Some (case best of Some b \<Rightarrow> FixedMode b | None \<Rightarrow> CustomMode (st_width st) (st_height st) (refresh st))\<rparr>
      in output_ensure_mode env p best ws)"

definition build_request :: "out_env \<Rightarrow> ptr \<Rightarrow> kywc_output_state \<Rightarrow> kywc_output_state \<Rightarrow> wlr_output_state" where
  "build_request env p current st =
     (let on = enabled st \<and> st_power st;
          ws = \<lparr>ws_enabled = on, ws_mode = None, ws_transform = None, ws_scale = None\<rparr>
      in if \<not> on then ws
         else (if output_mode_changed current st then request_mode env p st ws else ws)\<lparr>ws_transform := Some (transform st), ws_scale := Some (scale st)\<rparr>)"

definition waits_for_flip :: "out_env \<Rightarrow> ptr \<Rightarrow> kywc_output \<Rightarrow> kywc_output_state \<Rightarrow> bool" where
  "waits_for_flip env p o1 st \<longleftrightarrow> (enabled st \<and> st_power st) \<and> \<not> output_mode_changed (o_state o1) st \<and> rb_enabled (oe_now env p) \<and>
     oe_is_drm env p \<and> rb_width (oe_now env p) = st_width st \<and> rb_height (oe_now env p) = st_height st \<and> scene_commit o1 \<and> initialized o1"

text \<open>What the output keeps of the request, and what is asked of the layout.\<close>

definition keep_request :: "kywc_output_state \<Rightarrow> kywc_output \<Rightarrow> kywc_output" where
  "keep_request st o1 =
     (let old = o_state o1;
          o1 = o1\<lparr>o_color_temp := color_temp st, o_brightness := brightness st, o_vrr_policy := vrr_policy st\<rparr>
      in if (enabled st \<and> st_power st) \<and> (output_gamma_changed old st \<or> \<not> enabled old \<or> \<not> st_power old) then o1\<lparr>gamma_changed := True\<rparr> else o1)"

definition layout_change :: "kywc_output_state \<Rightarrow> layout_request" where
  "layout_change st = (if \<not> enabled st then LayoutRemove else if st_lx st = -1 \<or> st_ly st = -1 then LayoutAddAuto
     else LayoutAdd (st_lx st) (st_ly st))"

text \<open>With the new state goes what the output reports then; \<^term>\<open>None\<close> is a failed commit.\<close>

definition output_set_state :: "out_env \<Rightarrow> ptr \<Rightarrow> kywc_output_state \<Rightarrow> output_manager \<Rightarrow> (wlr_readback \<times> output_manager) option" where
  "output_set_state env p st m =
     (let o1 = om_output m p; changed = (\<not> initialized o1 \<or> output_compare_state (o_state o1) st) in
      if changed \<and> waits_for_flip env p o1 st
      then Some (oe_now env p, upd_out_node p (\<lambda>o1. o1\<lparr>o_pending_state := st, has_pending := True\<rparr>) m)
      else
        let req = (if changed then Some (build_request env p (o_state o1) st) else None)
        in if req \<noteq> None \<and> \<not> oe_commit env p (the req) then None
           else Some (oe_after env p req (layout_change st), upd_out_node p (keep_request st) m))"

definition output_get_state :: "wlr_readback \<Rightarrow> kywc_output \<Rightarrow> kywc_output_state" where
  "output_get_state rb o1 =
     (let (x, y) = (case rb_position rb of Some xy \<Rightarrow> xy | None \<Rightarrow> (-1, -1))
      in \<lparr>enabled = rb_enabled rb, st_power = rb_enabled rb, st_width = rb_width rb, st_height = rb_height rb, refresh = rb_refresh rb,
          transform = rb_transform rb, vrr_policy = o_vrr_policy o1, scale = rb_scale rb, st_lx = x, st_ly = y,
          brightness = o_brightness o1, color_temp = o_color_temp o1, st_primary = st_primary (o_state o1)\<rparr>)"

definition has_capability :: "u32 \<Rightarrow> u32 \<Rightarrow> bool" where
  "has_capability caps c \<longleftrightarrow> and caps c \<noteq> 0"

definition emit_if :: "bool \<Rightarrow> out_signal \<Rightarrow> output_manager \<Rightarrow> output_manager" where
  "emit_if b sig m = (if b then out_emit sig m else m)"

definition output_sync_committed_state :: "out_env \<Rightarrow> wlr_readback \<Rightarrow> ptr \<Rightarrow> bool \<Rightarrow> output_manager \<Rightarrow> output_manager" where
  "output_sync_committed_state env rb p en m =
     (let o1 = om_output m p; old = o_state o1;
          current = (output_get_state rb o1)\<lparr>enabled := en\<rparr>;
          geo = (if en then output_update_geometry current else o_geometry o1);
          geometry_changed = (en \<and> \<not> kywc_box_equal (o_geometry o1) geo);
          area = (if en \<and> (\<not> enabled old \<or> geometry_changed)
                  then output_do_update_usable_area (oe_update env p) (oe_update_late env p) geo else o_usable_area o1);
          usable_area_changed = (\<not> kywc_box_equal area (o_usable_area o1));
          m = upd_out_node p (\<lambda>o1. o1\<lparr>o_state := current, o_geometry := geo, o_usable_area := area\<rparr>) m;
          m = (if geometry_changed \<or> st_width current \<noteq> st_width old \<or> st_height current \<noteq> st_height old \<or>
                  transform current \<noteq> transform old \<or> scale current \<noteq> scale old \<or> st_lx current \<noteq> st_lx old \<or> st_ly current \<noteq> st_ly old
               then output_manager_sort_outputs m else m)
      in if \<not> initialized o1 then m
         else if enabled current \<noteq> enabled old \<and> \<not> enabled current then out_emit (OutDisable p) (out_emit (OutOff p) m)
         else
           let m = emit_if (enabled current \<noteq> enabled old) (OutNewEnabled p) (emit_if (enabled current \<noteq> enabled old) (OutOn p) m);
               m = emit_if geometry_changed (OutGeometry p) m;
               m = (if usable_area_changed then output_emit_usable_area p m else m);
               m = emit_if (has_capability (capabilities o1) KYWC_OUTPUT_CAPABILITY_POWER \<and> st_power current \<noteq> st_power old) (OutPower p) m;
               m = emit_if (has_capability (capabilities o1) KYWC_OUTPUT_CAPABILITY_BRIGHTNESS \<and> brightness current \<noteq> brightness old) (OutBrightness p) m;
               m = emit_if (has_capability (capabilities o1) KYWC_OUTPUT_CAPABILITY_COLOR_TEMP \<and> color_temp current \<noteq> color_temp old) (OutColorTemp p) m;
               m = emit_if (output_mode_changed current old) (OutMode p) m;
               m = emit_if (transform current \<noteq> transform old) (OutTransform p) m;
               m = emit_if (scale current \<noteq> scale old) (OutScale p) m
           in emit_if (st_lx current \<noteq> st_lx old \<or> st_ly current \<noteq> st_ly old) (OutPosition p) m)"

text \<open>The first component says whether the state could be set.\<close>

definition kywc_output_set_state :: "out_env \<Rightarrow> ptr \<Rightarrow> kywc_output_state \<Rightarrow> output_manager \<Rightarrow> bool \<times> output_manager" where
  "kywc_output_set_state env p st m =
     (case output_set_state env p st m of None \<Rightarrow> (False, m)
      | Some (rb, m) \<Rightarrow> (True, output_sync_committed_state env rb p (enabled st) m))"

text \<open>Listeners of an output: a frame was shown, the backend changed the output, a frame is wanted. \<open>drawn\<close> says that the
  scene was committed.\<close>

definition output_handle_present :: "out_env \<Rightarrow> ptr \<Rightarrow> output_manager \<Rightarrow> output_manager" where
  "output_handle_present env p m =
     (let m = upd_out_node p (\<lambda>o1. o1\<lparr>scene_commit := False\<rparr>) m in
      if \<not> has_pending (om_output m p) then m
      else case kywc_output_set_state env p (o_pending_state (om_output m p)) m of (ok, m) \<Rightarrow>
        if ok then out_emit (Configured CONFIGURE_TYPE_UPDATE) m else upd_out_node p (\<lambda>o1. o1\<lparr>has_pending := False\<rparr>) m)"

definition output_handle_commit :: "out_env \<Rightarrow> wlr_readback \<Rightarrow> bool \<Rightarrow> ptr \<Rightarrow> output_manager \<Rightarrow> output_manager" where
  "output_handle_commit env rb geometry_state p m =
     (if \<not> geometry_state then m
      else out_emit (Configured CONFIGURE_TYPE_UPDATE) (output_sync_committed_state env rb p (rb_enabled rb) m))"

definition output_handle_frame :: "bool \<Rightarrow> bool \<Rightarrow> ptr \<Rightarrow> output_manager \<Rightarrow> output_manager" where
  "output_handle_frame active drawn p m =
     (if \<not> active then m
      else if has_pending (om_output m p) then upd_out_node p (\<lambda>o1. o1\<lparr>has_pending := False\<rparr>) m
      else upd_out_node p (\<lambda>o1. o1\<lparr>scene_commit := drawn\<rparr>) m)"

subsection \<open>The primary output and the fallback\<close>

definition output_manager_has_enabled_outputs :: "output_manager \<Rightarrow> bool" where
  "output_manager_has_enabled_outputs m \<longleftrightarrow> list_ex (\<lambda>p. p \<noteq> om_fallback m \<and> enabled (out_state m p)) (om_outputs m)"

definition output_manager_has_actual_outputs :: "output_manager \<Rightarrow> bool" where
  "output_manager_has_actual_outputs m \<longleftrightarrow> list_ex (\<lambda>p. p \<noteq> om_fallback m) (om_outputs m)"

definition output_set_pending_primary :: "ptr \<Rightarrow> output_manager \<Rightarrow> output_manager" where
  "output_set_pending_primary p m = (if pending_primary m = p then m else m\<lparr>pending_primary := p\<rparr>)"

fun update_primary_loop :: "ptr list \<Rightarrow> output_manager \<Rightarrow> output_manager" where
  "update_primary_loop [] m = m"
| "update_primary_loop (p # ps) m =
     update_primary_loop ps (upd_out_node p (\<lambda>o1. o1\<lparr>o_state := (o_state o1)\<lparr>st_primary := (primary_output m = p)\<rparr>\<rparr>) m)"

definition output_manager_update_primary_state :: "output_manager \<Rightarrow> output_manager" where
  "output_manager_update_primary_state m = update_primary_loop (om_outputs m) m"

definition kywc_output_set_primary :: "ptr \<Rightarrow> output_manager \<Rightarrow> output_manager" where
  "kywc_output_set_primary p m =
     (if primary_output m = p then m
      else out_emit (PrimaryOutput p) (output_manager_update_primary_state (m\<lparr>primary_output := p\<rparr>)))"

text \<open>\<^term>\<open>None\<close>: the output has no mode, and the code reads the size of the mode through a null pointer.\<close>

definition fallback_output_set_state :: "out_env \<Rightarrow> ptr \<Rightarrow> bool \<Rightarrow> ptr \<Rightarrow> output_manager \<Rightarrow> output_manager option" where
  "fallback_output_set_state env p en mirror m =
     (if \<not> enabled (out_state m p) \<and> \<not> en then Some m
      else do {
        let st = (out_state m p)\<lparr>enabled := en\<rparr>;
        st \<leftarrow> (if \<not> en then Some st
              else
                let st = st\<lparr>st_power := True, st_lx := 0, st_ly := 0\<rparr> in
                if mirror \<noteq> NULL then
                  let mi = out_state m mirror
                  in Some (st\<lparr>scale := scale mi, transform := transform mi, st_width := st_width mi, st_height := st_height mi, refresh := refresh mi\<rparr>)
                else do {
                  mode \<leftarrow> kywc_output_preferred_mode (o_modes (om_output m p));
                  Some (st\<lparr>scale := 1, transform := 0, st_width := mode_width mode, st_height := mode_height mode, refresh := mode_refresh mode\<rparr>)});
        Some (snd (kywc_output_set_state env p st m))})"

subsection \<open>Pending configurations\<close>

definition get_output_pending_config :: "output_manager \<Rightarrow> ptr \<Rightarrow> kywc_output_state option" where
  "get_output_pending_config m p = map_of (output_configs m) p"

definition output_manager_add_output_pending_state :: "bool \<Rightarrow> ptr \<Rightarrow> kywc_output_state \<Rightarrow> output_manager \<Rightarrow> output_manager" where
  "output_manager_add_output_pending_state alloc p st m =
     (if p \<in> fst ` set (output_configs m)
      then m\<lparr>output_configs := map (\<lambda>(q, s1). (q, if q = p then st else s1)) (output_configs m)\<rparr>
      else if \<not> alloc then m
      else m\<lparr>output_configs := (p, st) # output_configs m\<rparr>)"

text \<open>The check of the configurations: whether an output will be enabled, whether one will be at the origin, whether the
  primary output still has to be chosen, and the configuration looked at last, \<^term>\<open>None\<close> when the pointer is
  behind the end of the list.\<close>

record config_check =
  have_enabled_output :: bool
  have_zero_coord :: bool
  need_fix_primary :: bool
  last_config :: "ptr option"

fun check_loop :: "bool \<Rightarrow> ptr list \<Rightarrow> config_check \<Rightarrow> output_manager \<Rightarrow> config_check \<times> output_manager" where
  "check_loop actual [] c m = (c, m)"
| "check_loop actual (p # ps) c m =
     (if actual \<and> p = om_fallback m then check_loop actual ps c m
      else
        let config = get_output_pending_config m p;
            st = (case config of Some st \<Rightarrow> st | None \<Rightarrow> out_state m p);
            c = (if config \<noteq> None then c\<lparr>last_config := Some p\<rparr> else c);
            c = c\<lparr>have_enabled_output := have_enabled_output c \<or> enabled st,
                   have_zero_coord := have_zero_coord c \<or> (enabled st \<and> st_lx st = 0 \<and> st_ly st = 0)\<rparr>;
            fix_it = (have_enabled_output c \<and> need_fix_primary c);
            m = (if fix_it then output_set_pending_primary p m else m);
            c = (if fix_it then c\<lparr>need_fix_primary := False\<rparr> else c)
        in if have_enabled_output c \<and> have_zero_coord c then (c, m) else check_loop actual ps c m)"

fun set_states :: "out_env \<Rightarrow> bool \<Rightarrow> (ptr \<times> kywc_output_state) list \<Rightarrow> output_manager \<Rightarrow> bool \<times> output_manager" where
  "set_states env en [] m = (True, m)"
| "set_states env en ((p, st) # cs) m =
     (if enabled st \<noteq> en then set_states env en cs m
      else case kywc_output_set_state env p st m of (ok, m) \<Rightarrow> if ok then set_states env en cs m else (False, m))"

definition clear_configs :: "output_manager \<Rightarrow> output_manager" where
  "clear_configs m = m\<lparr>pending_primary := NULL, output_configs := []\<rparr>"

definition output_manager_emit_configured :: "configure_type \<Rightarrow> output_manager \<Rightarrow> output_manager" where
  "output_manager_emit_configured t = out_emit (Configured t)"

text \<open>The first part of the configuration: what the check finds, with the primary output and the origin corrected.\<close>

definition zero_config :: "ptr \<Rightarrow> output_manager \<Rightarrow> output_manager" where
  "zero_config p m = m\<lparr>output_configs := map (\<lambda>(q, st). (q, if q = p then st\<lparr>st_lx := 0, st_ly := 0\<rparr> else st)) (output_configs m)\<rparr>"

definition check_configs :: "output_manager \<Rightarrow> (bool \<times> output_manager) option" where
  "check_configs m =
     (let m = (if pending_primary m = NULL \<and> primary_output m \<noteq> NULL \<and> primary_output m \<noteq> om_fallback m
               then m\<lparr>pending_primary := primary_output m\<rparr> else m);
          disabled = list_ex (\<lambda>(p, st). p = pending_primary m \<and> \<not> enabled st) (output_configs m);
          c0 = \<lparr>have_enabled_output = False, have_zero_coord = False, need_fix_primary = pending_primary m = NULL \<or> disabled,
                last_config = (if disabled then Some (pending_primary m) else None)\<rparr>;
          actual = output_manager_has_actual_outputs m;
          (c, m) = check_loop actual (om_outputs m) c0 m;
          n = length (om_outputs m)
      in if \<not> have_zero_coord c \<and> (n = 1 \<or> (n = 2 \<and> actual \<and> om_fallback m \<noteq> NULL))
         then (case last_config c of None \<Rightarrow> None | Some p \<Rightarrow> Some (have_enabled_output c, zero_config p m))
         else Some (have_enabled_output c, m))"

text \<open>The second part: first the outputs to enable, then the primary output, then the outputs to disable.\<close>

definition apply_configs :: "out_env \<Rightarrow> output_manager \<Rightarrow> (bool \<times> output_manager) option" where
  "apply_configs env m =
     (case set_states env True (output_configs m) m of (ok, m) \<Rightarrow>
        if \<not> ok then Some (False, m)
        else case set_states env False (output_configs m) (kywc_output_set_primary (pending_primary m) m) of (ok, m) \<Rightarrow>
          if \<not> ok then Some (False, m)
          else map_option (Pair True)
            (if om_fallback m \<noteq> NULL \<and> output_manager_has_enabled_outputs m
             then fallback_output_set_state env (om_fallback m) False NULL m else Some m))"

definition output_manager_configure_outputs :: "out_env \<Rightarrow> output_manager \<Rightarrow> (bool \<times> output_manager) option" where
  "output_manager_configure_outputs env m =
     (if output_configs m = [] then Some (False, m)
      else if terminate m then Some (False, clear_configs m)
      else do {
        (have_enabled, m) \<leftarrow> check_configs m;
        if \<not> have_enabled then Some (False, clear_configs m)
        else do {
          (ret, m) \<leftarrow> apply_configs env m;
          Some (ret, clear_configs (output_manager_emit_configured CONFIGURE_TYPE_UPDATE m))}})"

subsection \<open>The end of an output\<close>

fun primary_loop :: "ptr list \<Rightarrow> output_manager \<Rightarrow> output_manager" where
  "primary_loop [] m = m"
| "primary_loop (p # ps) m = primary_loop ps (if enabled (out_state m p) then kywc_output_set_primary p m else m)"

text \<open>\<open>layout\<close> are the configurations the layout manager adds.\<close>

definition output_destroy :: "out_env \<Rightarrow> (ptr \<times> kywc_output_state) list \<Rightarrow> ptr \<Rightarrow> output_manager \<Rightarrow> output_manager option" where
  "output_destroy env layout p m = do {
     let m = upd_out_node p (\<lambda>o1. o1\<lparr>o_destroying := True\<rparr>) m;
     let m = out_emit (OutDestroy p) (out_emit (OutDisable p) m);
     let m = m\<lparr>om_outputs := removeAll p (om_outputs m)\<rparr>;
     let m = fold (\<lambda>(q, st). output_manager_add_output_pending_state True q st) layout m;
     let m = m\<lparr>output_configs := map (\<lambda>(q, st). (q, st\<lparr>brightness := brightness (out_state m q), color_temp := color_temp (out_state m q)\<rparr>)) (output_configs m)\<rparr>;
     let m = (if primary_output m = p
              then let m = m\<lparr>primary_output := NULL\<rparr>
                   in if output_configs m = [] \<and> om_outputs m \<noteq> [] then primary_loop (om_outputs m) m else m
              else m);
     (ret, m) \<leftarrow> output_manager_configure_outputs env m;
     if \<not> terminate m \<and> om_fallback m \<noteq> NULL \<and> \<not> output_manager_has_enabled_outputs m
     then do {
       let fallback = om_fallback m;
       m \<leftarrow> fallback_output_set_state env fallback True p m;
       Some (output_manager_emit_configured CONFIGURE_TYPE_UPDATE (kywc_output_set_primary fallback m))}
     else Some m}"

subsection \<open>Power, scale and neighbours\<close>

fun power_loop :: "out_env \<Rightarrow> bool \<Rightarrow> ptr list \<Rightarrow> output_manager \<Rightarrow> output_manager" where
  "power_loop env on [] m = m"
| "power_loop env on (p # ps) m =
     (if \<not> enabled (out_state m p) \<or> st_power (out_state m p) = on then power_loop env on ps m
      else power_loop env on ps (output_manager_emit_configured CONFIGURE_TYPE_NONE
             (snd (kywc_output_set_state env p ((out_state m p)\<lparr>st_power := on\<rparr>) m))))"

definition output_manager_power_outputs :: "out_env \<Rightarrow> bool \<Rightarrow> output_manager \<Rightarrow> output_manager" where
  "output_manager_power_outputs env on m = power_loop env on (om_outputs m) m"

fun scale_loop :: "output_manager \<Rightarrow> ptr list \<Rightarrow> rat \<Rightarrow> rat" where
  "scale_loop m [] s = s"
| "scale_loop m (p # ps) s =
     scale_loop m ps (if enabled (out_state m p) \<and> scale (out_state m p) > s then scale (out_state m p) else s)"

definition output_manager_get_scale :: "output_manager \<Rightarrow> rat" where
  "output_manager_get_scale m = scale_loop m (om_outputs m) 1"

datatype layout_edge = LAYOUT_EDGE_TOP | LAYOUT_EDGE_BOTTOM | LAYOUT_EDGE_LEFT | LAYOUT_EDGE_RIGHT

definition output_edge_position :: "kywc_box \<Rightarrow> layout_edge \<Rightarrow> int \<times> int" where
  "output_edge_position geo edge =
     (case edge of
        LAYOUT_EDGE_TOP \<Rightarrow> (box_x geo + box_width geo sdiv 2, box_y geo - 1)
      | LAYOUT_EDGE_BOTTOM \<Rightarrow> (box_x geo + box_width geo sdiv 2, box_y geo + box_height geo)
      | LAYOUT_EDGE_LEFT \<Rightarrow> (box_x geo - 1, box_y geo + box_height geo sdiv 2)
      | LAYOUT_EDGE_RIGHT \<Rightarrow> (box_x geo + box_width geo, box_y geo + box_height geo sdiv 2))"

text \<open>The list is circular, so the search goes on at the other end; it stops at the output itself.\<close>

definition output_get_next_usable_output :: "output_manager \<Rightarrow> ptr \<Rightarrow> ptr option" where
  "output_get_next_usable_output m p =
     (let before = takeWhile (\<lambda>q. q \<noteq> p) (om_outputs m); after = tl (dropWhile (\<lambda>q. q \<noteq> p) (om_outputs m))
      in find (\<lambda>q. enabled (out_state m q)) (after @ before))"

definition output_get_prve_usable_output :: "output_manager \<Rightarrow> ptr \<Rightarrow> ptr option" where
  "output_get_prve_usable_output m p =
     (let before = takeWhile (\<lambda>q. q \<noteq> p) (om_outputs m); after = tl (dropWhile (\<lambda>q. q \<noteq> p) (om_outputs m))
      in find (\<lambda>q. enabled (out_state m q)) (rev before @ rev after))"

definition output_find_specified_output :: "output_manager \<Rightarrow> ptr \<Rightarrow> layout_edge \<Rightarrow> ptr option" where
  "output_find_specified_output m p edge =
     (case edge of LAYOUT_EDGE_LEFT \<Rightarrow> output_get_prve_usable_output m p
      | LAYOUT_EDGE_RIGHT \<Rightarrow> output_get_next_usable_output m p
      | _ \<Rightarrow> None)"

text \<open>The work area of the layout, whose box comes from the output layout: left, right, top and bottom edge.\<close>

record edges =
  e_left :: int
  e_right :: int
  e_top :: int
  e_bottom :: int

definition workarea_adjust :: "edges \<Rightarrow> kywc_box \<Rightarrow> kywc_box \<Rightarrow> edges \<Rightarrow> edges" where
  "workarea_adjust layout g u w =
     \<lparr>e_left = (if box_x g = e_left layout then max (e_left w) (box_x u) else e_left w),
      e_right = (if box_x g + box_width g = e_right layout then min (e_right w) (box_x u + box_width u) else e_right w),
      e_top = (if box_y g = e_top layout then max (e_top w) (box_y u) else e_top w),
      e_bottom = (if box_y g + box_height g = e_bottom layout then min (e_bottom w) (box_y u + box_height u) else e_bottom w)\<rparr>"

fun workarea_loop :: "output_manager \<Rightarrow> edges \<Rightarrow> ptr list \<Rightarrow> edges \<Rightarrow> edges" where
  "workarea_loop m layout [] w = w"
| "workarea_loop m layout (p # ps) w =
     workarea_loop m layout ps
       (if \<not> enabled (out_state m p) then w
        else workarea_adjust layout (o_geometry (om_output m p)) (o_usable_area (om_output m p)) w)"

definition output_layout_get_workarea :: "kywc_box \<Rightarrow> output_manager \<Rightarrow> kywc_box" where
  "output_layout_get_workarea box m =
     (let layout = \<lparr>e_left = max 0 (box_x box), e_right = max 0 (box_x box + box_width box), e_top = max 0 (box_y box),
            e_bottom = max 0 (box_y box + box_height box)\<rparr>;
          w = workarea_loop m layout (om_outputs m) layout
      in \<lparr>box_x = e_left w, box_y = e_top w, box_width = e_right w - e_left w, box_height = e_bottom w - e_top w\<rparr>)"

definition kywc_output_by_name :: "string \<Rightarrow> output_manager \<Rightarrow> ptr" where
  "kywc_output_by_name name m = (case find (\<lambda>p. o_name (om_output m p) = name) (om_outputs m) of None \<Rightarrow> NULL | Some p \<Rightarrow> p)"

definition kywc_output_by_uuid :: "string \<Rightarrow> output_manager \<Rightarrow> ptr" where
  "kywc_output_by_uuid uuid m = (case find (\<lambda>p. o_uuid (om_output m p) = uuid) (om_outputs m) of None \<Rightarrow> NULL | Some p \<Rightarrow> p)"

end
