(* ===== verification/OutputProofs.thy ===== *)
theory OutputProofs
  imports Outputs "HOL-Library.Multiset"
begin

section \<open>Properties of outputs\<close>

text \<open>
  The order of the outputs, the choice of a mode, the work area, and what a configuration of the outputs leaves.
\<close>

subsection \<open>Order\<close>

definition out_before :: "(ptr \<Rightarrow> kywc_box) \<Rightarrow> ptr \<Rightarrow> ptr \<Rightarrow> bool" where
  "out_before geo p q \<longleftrightarrow> box_x (geo p) < box_x (geo q) \<or> box_x (geo p) = box_x (geo q) \<and> box_y (geo p) \<le> box_y (geo q)"

lemma out_before_trans: "out_before geo p q \<Longrightarrow> out_before geo q r \<Longrightarrow> out_before geo p r"
  by (auto simp: out_before_def)

lemma insert_back_mset: "mset (insert_back geo p qs) = add_mset p (mset qs)"
  by (induction qs) (auto simp: Let_def)

lemma insert_back_sorted:
  "sorted_wrt (\<lambda>a b. out_before geo b a) qs \<Longrightarrow> sorted_wrt (\<lambda>a b. out_before geo b a) (insert_back geo p qs)"
proof (induction qs)
  case (Cons q qs)
  have s: "set (insert_back geo p qs) = insert p (set qs)" using insert_back_mset [of geo p qs] by (metis set_mset_add_mset_insert set_mset_mset)
  show ?case
  proof (cases "box_x (geo p) - box_x (geo q) > 0 \<or> box_x (geo p) - box_x (geo q) = 0 \<and> box_y (geo p) - box_y (geo q) > 0")
    case True
    then have q: "out_before geo q p" "insert_back geo p (q # qs) = p # q # qs" by (auto simp: out_before_def Let_def)
    have "out_before geo r p" if "r \<in> set qs" for r using that Cons.prems by (auto intro: out_before_trans [OF _ q(1)])
    then show ?thesis using q Cons.prems by auto
  next
    case False
    then have "out_before geo p q" "insert_back geo p (q # qs) = q # insert_back geo p qs" by (auto simp: out_before_def Let_def)
    then show ?thesis using Cons s by auto
  qed
qed simp

lemma sort_loop_sorted:
  "sorted_wrt (\<lambda>a b. out_before geo b a) before \<Longrightarrow>
   sorted_wrt (out_before geo) (sort_loop geo before ps) \<and> mset (sort_loop geo before ps) = mset before + mset ps"
  by (induction ps arbitrary: before) (simp_all add: sorted_wrt_rev insert_back_sorted insert_back_mset)

lemma sorted_from_sorted:
  "sorted_from geo x y ps \<Longrightarrow> sorted_wrt (out_before geo) ps \<and> (\<forall>p \<in> set ps. x < box_x (geo p) \<or> x = box_x (geo p) \<and> y \<le> box_y (geo p))"
proof (induction ps arbitrary: x y)
  case (Cons p ps)
  have s: "sorted_from geo (box_x (geo p)) (box_y (geo p)) ps" and
    b: "x < box_x (geo p) \<or> x = box_x (geo p) \<and> y \<le> box_y (geo p)" using Cons.prems by (auto simp: Let_def split: if_splits)
  show ?case using Cons.IH [OF s] b by (force simp: out_before_def)
qed simp

text \<open>C26: sorting the outputs gives the same outputs, ordered by column and within a column from top to bottom.\<close>

theorem outputs_sorted:
  "mset (om_outputs (output_manager_sort_outputs m)) = mset (om_outputs m) \<and>
   sorted_wrt (out_before (\<lambda>p. o_geometry (om_output m p))) (om_outputs (output_manager_sort_outputs m))"
  using sort_loop_sorted [of "\<lambda>p. o_geometry (om_output m p)" "[]" "om_outputs m"]
    sorted_from_sorted [of "\<lambda>p. o_geometry (om_output m p)" 0 0 "om_outputs m"]
  by (auto simp: output_manager_sort_outputs_def output_manager_is_sorted_def Let_def)

lemma sort_outputs_simps [simp]:
  "om_output (output_manager_sort_outputs m) = om_output m" "output_configs (output_manager_sort_outputs m) = output_configs m"
  "om_fallback (output_manager_sort_outputs m) = om_fallback m" "primary_output (output_manager_sort_outputs m) = primary_output m"
  "pending_primary (output_manager_sort_outputs m) = pending_primary m" "terminate (output_manager_sort_outputs m) = terminate m"
  by (simp_all add: output_manager_sort_outputs_def Let_def)

lemma sort_outputs_set [simp]: "set (om_outputs (output_manager_sort_outputs m)) = set (om_outputs m)"
proof -
  have "mset (om_outputs (output_manager_sort_outputs m)) = mset (om_outputs m)"
    using sort_loop_sorted [of "\<lambda>p. o_geometry (om_output m p)" "[]" "om_outputs m"]
    by (simp add: output_manager_sort_outputs_def Let_def)
  then show ?thesis by (metis set_mset_mset)
qed

subsection \<open>Modes\<close>

lemma best_mode_none: "output_find_best_mode w h r ms best = None \<longleftrightarrow>
    best = None \<and> (\<forall>m \<in> set ms. \<not> (mode_width m = w \<and> mode_height m = h))"
  by (induction ms arbitrary: best) (auto split: option.splits)

lemma best_mode_some:
  "output_find_best_mode w h r ms best = Some b \<Longrightarrow>
   (Some b = best \<or> b \<in> set ms \<and> mode_width b = w \<and> mode_height b = h) \<and>
   ((\<exists>m \<in> set ms. mode_width m = w \<and> mode_height m = h \<and> mode_refresh m = r) \<longrightarrow> mode_refresh b = r) \<and>
   (mode_refresh b \<noteq> r \<longrightarrow> (\<forall>m. m \<in> set ms \<and> mode_width m = w \<and> mode_height m = h \<or> Some m = best \<longrightarrow> mode_refresh m \<le> mode_refresh b))"
proof (induction ms arbitrary: best)
  case (Cons m ms)
  show ?case
  proof (cases "w \<noteq> mode_width m \<or> h \<noteq> mode_height m")
    case True
    then show ?thesis using Cons.IH [of best] Cons.prems by auto
  next
    case False
    show ?thesis
    proof (cases "r = mode_refresh m")
      case True
      then show ?thesis using False Cons.prems by auto
    next
      case ne: False
      let ?best = "case best of None \<Rightarrow> Some m | Some b \<Rightarrow> if mode_refresh m > mode_refresh b then Some m else best"
      have "output_find_best_mode w h r ms ?best = Some b" using Cons.prems False ne by simp
      note ih = Cons.IH [OF this]
      show ?thesis
      proof (cases best)
        case None
        then show ?thesis using ih False ne by auto
      next
        case (Some c)
        then show ?thesis using ih False ne by (cases "mode_refresh m > mode_refresh c") (auto intro: order.trans less_imp_le)
      qed
    qed
  qed
qed auto

text \<open>The mode chosen for a requested size has that size, its refresh rate is the requested one when some mode of the
  size has it and the highest of that size otherwise; no mode is chosen exactly when none has the size.\<close>

theorem best_mode_correct:
  "case output_find_best_mode w h r ms None of
     None \<Rightarrow> \<forall>m \<in> set ms. \<not> (mode_width m = w \<and> mode_height m = h)
   | Some b \<Rightarrow> b \<in> set ms \<and> mode_width b = w \<and> mode_height b = h \<and>
       (if \<exists>m \<in> set ms. mode_width m = w \<and> mode_height m = h \<and> mode_refresh m = r then mode_refresh b = r
        else \<forall>m \<in> set ms. mode_width m = w \<and> mode_height m = h \<longrightarrow> mode_refresh m \<le> mode_refresh b)"
proof (cases "output_find_best_mode w h r ms None")
  case None
  then show ?thesis using best_mode_none [of w h r ms None] by simp
next
  case (Some b)
  note s = best_mode_some [OF Some]
  have "mode_refresh b \<noteq> r" if "\<not> (\<exists>m \<in> set ms. mode_width m = w \<and> mode_height m = h \<and> mode_refresh m = r)"
    using s that by auto
  then show ?thesis using Some s by auto
qed

subsection \<open>The work area\<close>

definition edges_inside :: "edges \<Rightarrow> edges \<Rightarrow> bool" where
  "edges_inside a b \<longleftrightarrow> e_left b \<le> e_left a \<and> e_right a \<le> e_right b \<and> e_top b \<le> e_top a \<and> e_bottom a \<le> e_bottom b"

lemma edges_inside_trans: "edges_inside a b \<Longrightarrow> edges_inside b c \<Longrightarrow> edges_inside a c"
  by (auto simp: edges_inside_def)

lemma workarea_adjust_inside: "edges_inside (workarea_adjust l g u w) w"
  by (simp add: workarea_adjust_def edges_inside_def)

lemma workarea_loop_inside: "edges_inside (workarea_loop m l ps w) w"
proof (induction ps arbitrary: w)
  case (Cons p ps)
  let ?w = "if \<not> enabled (out_state m p) then w else workarea_adjust l (o_geometry (om_output m p)) (o_usable_area (om_output m p)) w"
  have "edges_inside ?w w" using workarea_adjust_inside by (simp add: edges_inside_def)
  then show ?case using edges_inside_trans [OF Cons.IH [of ?w]] by simp
qed (simp add: edges_inside_def)

lemma workarea_loop_adjusted:
  "p \<in> set ps \<Longrightarrow> enabled (out_state m p) \<Longrightarrow>
   \<exists>w'. edges_inside (workarea_loop m l ps w) (workarea_adjust l (o_geometry (om_output m p)) (o_usable_area (om_output m p)) w')"
proof (induction ps arbitrary: w)
  case (Cons q ps)
  show ?case
  proof (cases "q = p")
    case True
    show ?thesis by (rule exI [of _ w]) (use True workarea_loop_inside Cons.prems(2) in simp)
  next
    case False
    then show ?thesis using Cons.IH [OF _ Cons.prems(2)] Cons.prems(1) by auto
  qed
qed simp

text \<open>The work area of a layout lies inside the layout and, for every enabled output, beyond the panels at the edges
  that the output shares with the layout.\<close>

theorem workarea_excludes_panels:
  assumes "0 \<le> box_x box" "0 \<le> box_y box" "0 \<le> box_width box" "0 \<le> box_height box"
  shows "let w = output_layout_get_workarea box m in box_inside w box \<and>
    (\<forall>p \<in> set (om_outputs m). enabled (out_state m p) \<longrightarrow>
      (let g = o_geometry (om_output m p); u = o_usable_area (om_output m p) in
        (box_x g = box_x box \<longrightarrow> box_x u \<le> box_x w) \<and>
        (box_x g + box_width g = box_x box + box_width box \<longrightarrow> box_x w + box_width w \<le> box_x u + box_width u) \<and>
        (box_y g = box_y box \<longrightarrow> box_y u \<le> box_y w) \<and>
        (box_y g + box_height g = box_y box + box_height box \<longrightarrow> box_y w + box_height w \<le> box_y u + box_height u)))"
proof -
  let ?l = "\<lparr>e_left = box_x box, e_right = box_x box + box_width box, e_top = box_y box, e_bottom = box_y box + box_height box\<rparr>"
  let ?w = "workarea_loop m ?l (om_outputs m) ?l"
  have w: "output_layout_get_workarea box m = \<lparr>box_x = e_left ?w, box_y = e_top ?w, box_width = e_right ?w - e_left ?w, box_height = e_bottom ?w - e_top ?w\<rparr>"
    using assms by (simp add: output_layout_get_workarea_def Let_def max_def)
  have "edges_inside ?w ?l" by (rule workarea_loop_inside)
  moreover have "\<exists>w'. edges_inside ?w (workarea_adjust ?l (o_geometry (om_output m p)) (o_usable_area (om_output m p)) w')"
    if "p \<in> set (om_outputs m)" "enabled (out_state m p)" for p using that by (rule workarea_loop_adjusted)
  ultimately show ?thesis
    unfolding w Let_def by (fastforce simp: edges_inside_def workarea_adjust_def box_inside_def)
qed

subsection \<open>Setting states\<close>

text \<open>What setting the state of one output leaves alone.\<close>

definition out_frame :: "output_manager \<Rightarrow> output_manager \<Rightarrow> bool" where
  "out_frame m m' \<longleftrightarrow> set (om_outputs m') = set (om_outputs m) \<and> output_configs m' = output_configs m \<and> om_fallback m' = om_fallback m \<and>
     primary_output m' = primary_output m \<and> pending_primary m' = pending_primary m \<and> terminate m' = terminate m"

lemma out_frame_refl [simp]: "out_frame m m"
  by (simp add: out_frame_def)

lemma out_frame_trans: "out_frame a b \<Longrightarrow> out_frame b c \<Longrightarrow> out_frame a c"
  by (simp add: out_frame_def)

lemma emit_frame [simp]:
  "out_frame m (out_emit sig m') = out_frame m m'" "out_frame m (emit_if b sig m') = out_frame m m'"
  "out_state (out_emit sig m') q = out_state m' q" "out_state (emit_if b sig m') q = out_state m' q"
  by (simp_all add: out_emit_def emit_if_def out_frame_def out_state_def)

lemma upd_out_frame [simp]: "out_frame m (upd_out_node p f m') = out_frame m m'"
  by (simp add: upd_out_node_def out_frame_def)

lemma sort_frame [simp]: "out_frame m (output_manager_sort_outputs m') = out_frame m m'"
    "out_state (output_manager_sort_outputs m') q = out_state m' q"
  by (simp_all add: out_frame_def out_state_def)

lemma sync_result:
  "out_frame m (output_sync_committed_state env rb p en m) \<and>
   enabled (out_state (output_sync_committed_state env rb p en m) q) = (if q = p then en else enabled (out_state m q))"
  by (simp add: output_sync_committed_state_def Let_def output_emit_usable_area_def del: sort_outputs_set)
    (auto simp: out_state_def upd_out_node_def)

lemma set_state_result:
  assumes "kywc_output_set_state env p st m = (True, m')"
  shows "out_frame m m'" "enabled (out_state m' q) = (if q = p then enabled st else enabled (out_state m q))"
proof -
  obtain rb m1 where o: "output_set_state env p st m = Some (rb, m1)" "m' = output_sync_committed_state env rb p (enabled st) m1"
    using assms by (auto simp: kywc_output_set_state_def split: option.splits prod.splits)
  have "out_frame m m1" "enabled (out_state m1 q) = enabled (out_state m q)" for q
    using o(1) by (auto simp: output_set_state_def out_state_def upd_out_node_def out_frame_def keep_request_def Let_def split: if_splits)
  then show "out_frame m m'" "enabled (out_state m' q) = (if q = p then enabled st else enabled (out_state m q))"
    using sync_result [of m1 env rb p "enabled st" q] o(2) out_frame_trans by auto
qed

lemma set_states_result:
  "set_states env en cs m = (True, m') \<Longrightarrow> distinct (map fst cs) \<Longrightarrow>
   out_frame m m' \<and> (\<forall>q. enabled (out_state m' q) = (case map_of cs q of Some st \<Rightarrow> if enabled st = en then en else enabled (out_state m q)
     | None \<Rightarrow> enabled (out_state m q)))"
proof (induction cs arbitrary: m)
  case (Cons c cs)
  obtain p st where c: "c = (p, st)" by (cases c)
  have n: "map_of cs p = None" using Cons.prems(2) c by (simp add: map_of_eq_None_iff)
  show ?case
  proof (cases "enabled st = en")
    case False
    then show ?thesis using Cons c n by (auto split: option.splits)
  next
    case True
    obtain m1 where m1: "kywc_output_set_state env p st m = (True, m1)" "set_states env en cs m1 = (True, m')"
      using Cons.prems(1) c True by (auto split: prod.splits if_splits)
    have ih: "out_frame m1 m'" "\<And>q. enabled (out_state m' q) = (case map_of cs q of Some st \<Rightarrow> if enabled st = en then en else enabled (out_state m1 q)
     | None \<Rightarrow> enabled (out_state m1 q))" using Cons.IH [OF m1(2)] Cons.prems(2) by auto
    show ?thesis using out_frame_trans [OF set_state_result(1) [OF m1(1)] ih(1)] ih(2) set_state_result(2) [OF m1(1)] c n True
      by (auto split: option.splits)
  qed
qed simp

subsection \<open>Configurations\<close>

text \<open>Whether an output will be enabled, and which outputs count.\<close>

definition will_be :: "output_manager \<Rightarrow> ptr \<Rightarrow> bool" where
  "will_be m p = (case get_output_pending_config m p of Some st \<Rightarrow> enabled st | None \<Rightarrow> enabled (out_state m p))"

definition counts :: "output_manager \<Rightarrow> ptr \<Rightarrow> bool" where
  "counts m p \<longleftrightarrow> p \<in> set (om_outputs m) \<and> (output_manager_has_actual_outputs m \<longrightarrow> p \<noteq> om_fallback m)"

definition check_outcome :: "bool \<Rightarrow> ptr list \<Rightarrow> config_check \<Rightarrow> config_check \<Rightarrow> output_manager \<Rightarrow> ptr \<Rightarrow> bool" where
  "check_outcome actual ps c c' m pp \<longleftrightarrow>
    have_enabled_output c' = (have_enabled_output c \<or> (\<exists>p \<in> set ps. \<not> (actual \<and> p = om_fallback m) \<and> will_be m p)) \<and>
    (need_fix_primary c \<and> \<not> have_enabled_output c \<and> have_enabled_output c' \<longrightarrow>
       pp \<in> set ps \<and> \<not> (actual \<and> pp = om_fallback m) \<and> will_be m pp) \<and>
    (\<not> need_fix_primary c \<or> \<not> have_enabled_output c' \<longrightarrow> pp = pending_primary m)"

lemma check_loop_result:
  assumes "check_loop actual ps c m = (c', m')"
  shows "\<exists>pp. m' = m\<lparr>pending_primary := pp\<rparr> \<and> check_outcome actual ps c c' m pp"
  using assms
proof (induction ps arbitrary: c m)
  case Nil
  then show ?case by (intro exI [of _ "pending_primary m"]) (auto simp: check_outcome_def)
next
  case (Cons p ps)
  show ?case
  proof (cases "actual \<and> p = om_fallback m")
    case True
    then have "check_loop actual ps c m = (c', m')" using Cons.prems by simp
    then show ?thesis using Cons.IH [of c m] True by (auto simp: check_outcome_def)
  next
    case False
    define st where "st = (case get_output_pending_config m p of Some st \<Rightarrow> st | None \<Rightarrow> out_state m p)"
    define c1 where "c1 = (if get_output_pending_config m p \<noteq> None then c\<lparr>last_config := Some p\<rparr> else c)
      \<lparr>have_enabled_output := have_enabled_output c \<or> enabled st, have_zero_coord := have_zero_coord c \<or> (enabled st \<and> st_lx st = 0 \<and> st_ly st = 0)\<rparr>"
    define fx where "fx \<longleftrightarrow> have_enabled_output c1 \<and> need_fix_primary c1"
    define m1 where "m1 = (if fx then output_set_pending_primary p m else m)"
    define c2 where "c2 = (if fx then c1\<lparr>need_fix_primary := False\<rparr> else c1)"
    have w: "enabled st = will_be m p" by (simp add: st_def will_be_def split: option.split)
    have c1: "have_enabled_output c1 = (have_enabled_output c \<or> will_be m p)" "need_fix_primary c1 = need_fix_primary c"
      by (simp_all add: c1_def w)
    have m1: "m1 = m\<lparr>pending_primary := (if fx then p else pending_primary m)\<rparr>" by (simp add: m1_def output_set_pending_primary_def)
    have c2: "have_enabled_output c2 = have_enabled_output c1" "need_fix_primary c2 = (need_fix_primary c \<and> \<not> fx)"
      by (auto simp: c2_def c1(2))
    have r: "check_loop actual (p # ps) c m = (if have_enabled_output c2 \<and> have_zero_coord c2 then (c2, m1) else check_loop actual ps c2 m1)"
      using False unfolding check_loop.simps Let_def m1_def c2_def fx_def c1_def st_def by (simp only: if_False cong: if_cong) auto
    have wm: "will_be m1 q = will_be m q" "om_fallback m1 = om_fallback m" for q
      by (simp_all add: m1 will_be_def get_output_pending_config_def out_state_def split: option.split)
    show ?thesis
    proof (cases "have_enabled_output c2 \<and> have_zero_coord c2")
      case True
      then have "c' = c2" "m' = m1" using r Cons.prems by auto
      then show ?thesis using True c1 c2 m1 False
        by (intro exI [of _ "if fx then p else pending_primary m"]) (auto simp: fx_def check_outcome_def)
    next
      case nb: False
      have "check_loop actual ps c2 m1 = (c', m')" using r Cons.prems nb by auto
      then obtain pp where pp: "m' = m1\<lparr>pending_primary := pp\<rparr>" "check_outcome actual ps c2 c' m1 pp" using Cons.IH [of c2 m1] by blast
      have "check_outcome actual (p # ps) c c' m pp"
        using pp(2) c1 c2 m1 False unfolding check_outcome_def wm by (cases fx) (auto simp: fx_def)
      then show ?thesis using pp(1) m1 by (intro exI [of _ pp]) simp
    qed
  qed
qed

lemma zero_config_enabled: "map (\<lambda>(q, st). (q, enabled st)) (output_configs (zero_config p m)) = map (\<lambda>(q, st). (q, enabled st)) (output_configs m)"
  by (auto simp: zero_config_def split: if_splits)

text \<open>The output that is to be the primary one: the requested one, or the present one when there is no request. It is
  replaced when there is none or when its configuration disables it.\<close>

definition asked_primary :: "output_manager \<Rightarrow> ptr" where
  "asked_primary m = (if pending_primary m = NULL \<and> primary_output m \<noteq> om_fallback m then primary_output m else pending_primary m)"

definition replaced_primary :: "output_manager \<Rightarrow> bool" where
  "replaced_primary m \<longleftrightarrow> asked_primary m = NULL \<or>
     (case get_output_pending_config m (asked_primary m) of None \<Rightarrow> False | Some st \<Rightarrow> \<not> enabled st)"

lemma disabled_config:
  "distinct (map fst cs) \<Longrightarrow>
   list_ex (\<lambda>(p, st). p = q \<and> \<not> enabled st) cs \<longleftrightarrow> (case map_of cs q of None \<Rightarrow> False | Some st \<Rightarrow> \<not> enabled st)"
  by (induction cs) (auto split: option.splits dest: map_of_SomeD intro: rev_image_eqI)

text \<open>The configuration of an output decides, whatever else changes.\<close>

lemma check_configs_result:
  assumes c: "check_configs m = Some (he, m1)"
    and d: "distinct (map fst (output_configs m))"
  shows "he = (\<exists>p. counts m p \<and> will_be m p)"
    "he \<Longrightarrow> replaced_primary m \<Longrightarrow> counts m (pending_primary m1) \<and> will_be m (pending_primary m1)"
    "\<not> replaced_primary m \<Longrightarrow> pending_primary m1 = asked_primary m"
    "om_outputs m1 = om_outputs m" "om_output m1 = om_output m" "om_fallback m1 = om_fallback m" "primary_output m1 = primary_output m"
    "map (\<lambda>(q, st). (q, enabled st)) (output_configs m1) = map (\<lambda>(q, st). (q, enabled st)) (output_configs m)"
proof -
  let ?m = "if pending_primary m = NULL \<and> primary_output m \<noteq> NULL \<and> primary_output m \<noteq> om_fallback m
    then m\<lparr>pending_primary := primary_output m\<rparr> else m"
  let ?dis = "list_ex (\<lambda>(p, st). p = pending_primary ?m \<and> \<not> enabled st) (output_configs ?m)"
  let ?c0 = "\<lparr>have_enabled_output = False, have_zero_coord = False, need_fix_primary = pending_primary ?m = NULL \<or> ?dis,
    last_config = (if ?dis then Some (pending_primary ?m) else None)\<rparr>"
  let ?a = "output_manager_has_actual_outputs m"
  have mm: "om_outputs ?m = om_outputs m" "om_fallback ?m = om_fallback m" "output_configs ?m = output_configs m" "om_output ?m = om_output m"
    "primary_output ?m = primary_output m" "output_manager_has_actual_outputs ?m = ?a"
    by (simp_all add: output_manager_has_actual_outputs_def)
  have wm: "will_be ?m q = will_be m q" for q by (simp add: will_be_def get_output_pending_config_def out_state_def split: option.split)
  obtain c' m' where cl: "check_loop ?a (om_outputs m) ?c0 ?m = (c', m')" by fastforce
  obtain pp where pp0: "m' = ?m\<lparr>pending_primary := pp\<rparr>" "check_outcome ?a (om_outputs m) ?c0 c' ?m pp"
    using check_loop_result [OF cl] by blast
  have pp: "m' = ?m\<lparr>pending_primary := pp\<rparr>"
    "have_enabled_output c' = (\<exists>p \<in> set (om_outputs m). \<not> (?a \<and> p = om_fallback m) \<and> will_be m p)"
    "pending_primary ?m = NULL \<or> ?dis \<Longrightarrow> have_enabled_output c' \<Longrightarrow> pp \<in> set (om_outputs m) \<and> \<not> (?a \<and> pp = om_fallback m) \<and> will_be m pp"
    "\<not> (pending_primary ?m = NULL \<or> ?dis) \<Longrightarrow> pp = pending_primary ?m"
    using pp0 unfolding check_outcome_def wm mm(2) by simp_all
  have r: "he = have_enabled_output c'" "m1 = m' \<or> (\<exists>p. m1 = zero_config p m')"
    using c cl mm(1,6) unfolding check_configs_def Let_def by (auto simp: mm split: if_splits option.splits)
  have cnt: "counts m p \<longleftrightarrow> p \<in> set (om_outputs m) \<and> \<not> (?a \<and> p = om_fallback m)" for p by (auto simp: counts_def)
  show he: "he = (\<exists>p. counts m p \<and> will_be m p)" using r(1) pp(2) cnt by auto
  have p1: "pending_primary m1 = pp" using r(2) pp(1) by (auto simp: zero_config_def)
  have "?dis \<longleftrightarrow> (case get_output_pending_config m (pending_primary ?m) of None \<Rightarrow> False | Some st \<Rightarrow> \<not> enabled st)"
    unfolding get_output_pending_config_def mm(3) using d by (rule disabled_config)
  moreover have "pending_primary ?m = asked_primary m" by (simp add: asked_primary_def)
  ultimately have rp: "replaced_primary m \<longleftrightarrow> pending_primary ?m = NULL \<or> ?dis" by (simp add: replaced_primary_def)
  show "counts m (pending_primary m1) \<and> will_be m (pending_primary m1)" if he "replaced_primary m"
    using pp(3) that r(1) rp cnt p1 by blast
  show "pending_primary m1 = asked_primary m" if "\<not> replaced_primary m"
    using pp(4) that rp p1 by (simp add: asked_primary_def)
  show "om_outputs m1 = om_outputs m" "om_output m1 = om_output m" "om_fallback m1 = om_fallback m" "primary_output m1 = primary_output m"
    using r(2) pp(1) mm by (auto simp: zero_config_def)
  have "output_configs m' = output_configs m" using pp(1) mm(3) by simp
  then show "map (\<lambda>(q, st). (q, enabled st)) (output_configs m1) = map (\<lambda>(q, st). (q, enabled st)) (output_configs m)"
    using r(2) by (elim disjE exE) (simp_all add: zero_config_enabled)
qed

lemma map_of_enabled:
  "map (\<lambda>(q, st). (q, enabled st)) cs = map (\<lambda>(q, st). (q, enabled st)) ds \<Longrightarrow>
   map_option enabled (map_of cs q) = map_option enabled (map_of ds q) \<and> map fst cs = map fst ds"
proof (induction cs arbitrary: ds)
  case (Cons c cs)
  then obtain d ds' where "ds = d # ds'" by (cases ds) auto
  then show ?case using Cons by (cases c; cases d) auto
qed simp

lemma set_primary_simps [simp]:
  "om_outputs (kywc_output_set_primary p m) = om_outputs m" "output_configs (kywc_output_set_primary p m) = output_configs m"
  "om_fallback (kywc_output_set_primary p m) = om_fallback m" "primary_output (kywc_output_set_primary p m) = p"
  "enabled (out_state (kywc_output_set_primary p m) q) = enabled (out_state m q)"
proof -
  have l: "om_outputs (update_primary_loop ps m) = om_outputs m \<and> output_configs (update_primary_loop ps m) = output_configs m \<and>
      om_fallback (update_primary_loop ps m) = om_fallback m \<and> primary_output (update_primary_loop ps m) = primary_output m \<and>
      enabled (out_state (update_primary_loop ps m) q) = enabled (out_state m q)" for ps m q
    by (induction ps arbitrary: m) (auto simp: upd_out_node_def out_state_def)
  show "om_outputs (kywc_output_set_primary p m) = om_outputs m" "output_configs (kywc_output_set_primary p m) = output_configs m"
    "om_fallback (kywc_output_set_primary p m) = om_fallback m" "primary_output (kywc_output_set_primary p m) = p"
    "enabled (out_state (kywc_output_set_primary p m) q) = enabled (out_state m q)"
    using l by (auto simp: kywc_output_set_primary_def output_manager_update_primary_state_def out_state_def out_emit_def)
qed

lemma fallback_off_result:
  obtains m' where "fallback_output_set_state env (om_fallback m) False NULL m = Some m'"
    "set (om_outputs m') = set (om_outputs m)" "primary_output m' = primary_output m"
    "\<And>q. om_fallback m \<noteq> q \<Longrightarrow> enabled (out_state m' q) = enabled (out_state m q)"
proof -
  obtain ok m' where k: "kywc_output_set_state env (om_fallback m) ((out_state m (om_fallback m))\<lparr>enabled := False\<rparr>) m = (ok, m')" by fastforce
  have "out_frame m m'" "om_fallback m \<noteq> q \<Longrightarrow> enabled (out_state m' q) = enabled (out_state m q)" for q
    using set_state_result [of env "om_fallback m" _ m m'] k
    by (cases ok; auto simp: kywc_output_set_state_def split: option.splits prod.splits)+
  moreover have "fallback_output_set_state env (om_fallback m) False NULL m =
      Some (if enabled (out_state m (om_fallback m)) then m' else m)"
    using k by (simp add: fallback_output_set_state_def Let_def)
  ultimately show ?thesis using that by (auto simp: out_frame_def split: if_splits)
qed

lemma apply_configs_result:
  assumes a: "apply_configs env m = Some (True, m')" and d: "distinct (map fst (output_configs m))"
  shows "set (om_outputs m') = set (om_outputs m)" "primary_output m' = pending_primary m"
    "q \<noteq> om_fallback m \<or> \<not> output_manager_has_actual_outputs m \<Longrightarrow> enabled (out_state m' q) = will_be m q"
proof -
  obtain m1 where m1: "set_states env True (output_configs m) m = (True, m1)"
    using a by (auto simp: apply_configs_def split: prod.splits if_splits)
  note s1 = set_states_result [OF m1 d]
  have f1: "set (om_outputs m1) = set (om_outputs m)" "output_configs m1 = output_configs m" "pending_primary m1 = pending_primary m"
    "om_fallback m1 = om_fallback m" using s1 by (auto simp: out_frame_def)
  let ?m2 = "kywc_output_set_primary (pending_primary m1) m1"
  obtain m3 where m3: "set_states env False (output_configs m1) ?m2 = (True, m3)"
    "(if om_fallback m3 \<noteq> NULL \<and> output_manager_has_enabled_outputs m3 then fallback_output_set_state env (om_fallback m3) False NULL m3
      else Some m3) = Some m'"
    using a m1 by (auto simp: apply_configs_def split: prod.splits if_splits)
  note s3 = set_states_result [OF m3(1) d [folded f1(2)]]
  have f3: "set (om_outputs m3) = set (om_outputs m)" "primary_output m3 = pending_primary m" "om_fallback m3 = om_fallback m"
    using s3 f1 by (auto simp: out_frame_def)
  have e3: "enabled (out_state m3 q) = will_be m q" for q
    using s3 s1 f1(2) by (auto simp: will_be_def get_output_pending_config_def split: option.splits)
  obtain m4 where m4: "fallback_output_set_state env (om_fallback m3) False NULL m3 = Some m4"
    "set (om_outputs m4) = set (om_outputs m3)" "primary_output m4 = primary_output m3"
    "\<And>q. om_fallback m3 \<noteq> q \<Longrightarrow> enabled (out_state m4 q) = enabled (out_state m3 q)"
    by (rule fallback_off_result [of env m3]) blast
  show "set (om_outputs m') = set (om_outputs m)" "primary_output m' = pending_primary m"
    using m3(2) f3 m4 by (auto split: if_splits)
  show "enabled (out_state m' q) = will_be m q" if h: "q \<noteq> om_fallback m \<or> \<not> output_manager_has_actual_outputs m"
  proof (cases "q = om_fallback m")
    case False
    then show ?thesis using m3(2) e3 [of q] m4(1,4) f3(3) by (auto split: if_splits)
  next
    case True
    then have "\<not> output_manager_has_enabled_outputs m3"
      using h f3(1,3) by (auto simp: output_manager_has_enabled_outputs_def output_manager_has_actual_outputs_def list_ex_iff)
    then show ?thesis using m3(2) e3 [of q] by simp
  qed
qed

text \<open>C25: when a configuration of the outputs succeeds, every output that counts is enabled exactly as its configuration
  says, or as before when it has none. If no primary output is asked for and there is none, or if the configuration
  disables the one that is, the new primary output is one that is enabled. Otherwise it is the one asked for, and it
  is enabled just when it has a configuration or was enabled before: an output that is disabled and has no
  configuration becomes the primary output when a client asks for it. A configuration that leaves no output enabled is
  rejected and changes no output.\<close>

theorem configure_outputs_primary:
  assumes "output_manager_configure_outputs env m = Some (ret, m')" "output_configs m \<noteq> []" "distinct (map fst (output_configs m))"
  shows "(ret \<longrightarrow> (\<forall>p. counts m p \<longrightarrow> enabled (out_state m' p) = will_be m p) \<and>
      (if replaced_primary m then counts m (primary_output m') \<and> enabled (out_state m' (primary_output m'))
       else primary_output m' = asked_primary m \<and>
         (counts m (asked_primary m) \<longrightarrow> enabled (out_state m' (primary_output m')) =
            (get_output_pending_config m (asked_primary m) \<noteq> None \<or> enabled (out_state m (asked_primary m)))))) \<and>
    (\<not> (\<exists>p. counts m p \<and> will_be m p) \<longrightarrow> \<not> ret \<and> om_output m' = om_output m) \<and>
    output_configs m' = [] \<and> pending_primary m' = NULL"
proof (cases "terminate m")
  case True
  then show ?thesis using assms(1,2) by (auto simp: output_manager_configure_outputs_def clear_configs_def)
next
  case False
  obtain he m1 where c: "check_configs m = Some (he, m1)"
    using assms(1,2) False by (auto simp: output_manager_configure_outputs_def bind_eq_Some_conv)
  note ck = check_configs_result [OF c assms(3)]
  note mo = map_of_enabled [OF ck(8)]
  have d1: "distinct (map fst (output_configs m1))" using mo assms(3) by simp
  have w1: "will_be m1 p = will_be m p" for p
    using conjunct1 [OF mo, of p] ck(5) by (auto simp: will_be_def get_output_pending_config_def out_state_def split: option.splits)
  have a1: "output_manager_has_actual_outputs m1 = output_manager_has_actual_outputs m" using ck(4,6) by (simp add: output_manager_has_actual_outputs_def)
  show ?thesis
  proof (cases he)
    case he: False
    then have "ret = False" "m' = clear_configs m1"
      using assms(1,2) False c by (auto simp: output_manager_configure_outputs_def)
    then show ?thesis using ck(5) by (simp add: clear_configs_def)
  next
    case he: True
    obtain m2 where a: "apply_configs env m1 = Some (ret, m2)" "m' = clear_configs (output_manager_emit_configured CONFIGURE_TYPE_UPDATE m2)"
      using assms(1,2) False c he by (auto simp: output_manager_configure_outputs_def bind_eq_Some_conv)
    have m': "out_state m' p = out_state m2 p" "primary_output m' = primary_output m2" "output_configs m' = []" "pending_primary m' = NULL" for p
      by (simp_all add: a(2) clear_configs_def output_manager_emit_configured_def out_emit_def out_state_def)
    have "(\<forall>p. counts m p \<longrightarrow> enabled (out_state m' p) = will_be m p) \<and>
        primary_output m' = pending_primary m1" if ret
    proof -
      note ap = apply_configs_result [OF a(1) [unfolded eqTrueI [OF that]] d1]
      have "enabled (out_state m' p) = will_be m p" if "counts m p" for p
        using ap(3) [of p] that w1 m'(1) a1 ck(6) by (auto simp: counts_def)
      then show ?thesis using ap(2) m'(2) by simp
    qed
    moreover have "will_be m (asked_primary m) = (get_output_pending_config m (asked_primary m) \<noteq> None \<or>
        enabled (out_state m (asked_primary m)))" if "\<not> replaced_primary m"
      using that by (auto simp: will_be_def replaced_primary_def split: option.splits)
    ultimately have "ret \<longrightarrow> (\<forall>p. counts m p \<longrightarrow> enabled (out_state m' p) = will_be m p) \<and>
        (if replaced_primary m then counts m (primary_output m') \<and> enabled (out_state m' (primary_output m'))
         else primary_output m' = asked_primary m \<and>
           (counts m (asked_primary m) \<longrightarrow> enabled (out_state m' (primary_output m')) =
              (get_output_pending_config m (asked_primary m) \<noteq> None \<or> enabled (out_state m (asked_primary m)))))"
      using ck(2) [OF he] ck(3) by auto
    then show ?thesis using ck(1) he m' by auto
  qed
qed

text \<open>Two outputs, one of them to be disabled: the other one becomes the primary output.\<close>

definition example_state :: "bool \<Rightarrow> int \<Rightarrow> kywc_output_state" where
  "example_state en x = \<lparr>enabled = en, st_power = en, st_width = 800, st_height = 600, refresh = 60000, transform = 0, vrr_policy = 0,
     scale = 1, st_lx = x, st_ly = 0, brightness = 100, color_temp = 6500, st_primary = False\<rparr>"

definition example_output :: "int \<Rightarrow> kywc_output" where
  "example_output x = \<lparr>o_state = example_state True x, o_name = [], o_uuid = [], o_modes = [], capabilities = 0, o_destroying = False,
     o_geometry = zero_box, o_usable_area = zero_box, initialized = True, o_brightness = 100, o_color_temp = 6500, o_vrr_policy = 0,
     gamma_changed = False, scene_commit = False, has_pending = False, o_pending_state = example_state True x\<rparr>"

definition example_outputs :: output_manager where
  "example_outputs = \<lparr>om_outputs = [1, 2], om_output = (\<lambda>p. if p = 1 then example_output 0 else example_output 800),
     output_configs = [(1, example_state False 0)], om_fallback = NULL, primary_output = 1, pending_primary = NULL, terminate = False, out_signals = []\<rparr>"

definition example_out_env :: out_env where
  "example_out_env = (let now = (\<lambda>p. \<lparr>rb_enabled = True, rb_width = 800, rb_height = 600, rb_refresh = 60000, rb_transform = 0, rb_scale = 1,
       rb_position = Some (if p = 1 then 0 else 800, 0)\<rparr>)
     in \<lparr>oe_now = now, oe_is_drm = (\<lambda>_. False), oe_modes = (\<lambda>_. []), oe_preferred_mode = (\<lambda>_. None), oe_test = (\<lambda>_ _. True), oe_commit = (\<lambda>_ _. True),
       oe_after = (\<lambda>p ws l. case ws of None \<Rightarrow> now p | Some ws \<Rightarrow> (now p)\<lparr>rb_enabled := ws_enabled ws\<rparr>),
       oe_update = (\<lambda>_ b. b), oe_update_late = (\<lambda>_ b. b)\<rparr>)"

theorem configure_outputs_primary_witness:
  "\<exists>m'. output_manager_configure_outputs example_out_env example_outputs = Some (True, m') \<and> primary_output m' = 2 \<and> enabled (out_state m' 2)"
proof -
  have "map_option (\<lambda>(r, m). (r, primary_output m)) (output_manager_configure_outputs example_out_env example_outputs) = Some (True, 2)"
    by code_simp
  then obtain m' where c: "output_manager_configure_outputs example_out_env example_outputs = Some (True, m')" "primary_output m' = 2"
    by (auto split: prod.splits)
  have n: "output_configs example_outputs \<noteq> []" "distinct (map fst (output_configs example_outputs))" by (simp_all add: example_outputs_def)
  have "replaced_primary example_outputs" by code_simp
  then show ?thesis using configure_outputs_primary [OF c(1) n] c by auto
qed

text \<open>The first output is configured as it is, and a client asks for the second one, which is disabled: the configuration
  succeeds with a primary output that is disabled.\<close>

lemma disabled_output_becomes_primary:
  "map_option (\<lambda>(r, m). (r, primary_output m, enabled (out_state m 2)))
     (output_manager_configure_outputs example_out_env
       (example_outputs\<lparr>om_output := (\<lambda>p. if p = 1 then example_output 0 else (example_output 800)\<lparr>o_state := example_state False 800\<rparr>),
          output_configs := [(1, example_state True 0)], pending_primary := 2\<rparr>)) = Some (True, 2, False)"
  by code_simp

theorem workarea_excludes_panels_witness:
  "box_inside (output_layout_get_workarea \<lparr>box_x = 0, box_y = 0, box_width = 1600, box_height = 600\<rparr> example_outputs)
     \<lparr>box_x = 0, box_y = 0, box_width = 1600, box_height = 600\<rparr>"
  using workarea_excludes_panels [of "\<lparr>box_x = 0, box_y = 0, box_width = 1600, box_height = 600\<rparr>" example_outputs] by (simp add: Let_def)

end
