(* ===== verification/LayerShell.thy ===== *)
theory LayerShell
  imports Outputs
begin

section \<open>The layer shell (\<^verbatim>\<open>view/wlr_layer_shell.c\<close>)\<close>

text \<open>
  Panels, docks and backgrounds of one output: surfaces in four layers, each placed in the output or in the area that
  the panels leave free. A surface with a positive exclusive zone reserves a strip for itself. The state is that of one
  output, as outputs do not share surfaces: its geometry, its usable area as \<^verbatim>\<open>output/output.c\<close> keeps it, the
  surfaces, and where each was placed last. wlroots changes the state of a surface before it tells the compositor.
\<close>

subsection \<open>State\<close>

definition ANCHOR_TOP :: u32 where "ANCHOR_TOP = 1"
definition ANCHOR_BOTTOM :: u32 where "ANCHOR_BOTTOM = 2"
definition ANCHOR_LEFT :: u32 where "ANCHOR_LEFT = 4"
definition ANCHOR_RIGHT :: u32 where "ANCHOR_RIGHT = 8"

record layer_surface_state =
  anchor :: u32
  exclusive_zone :: int
  margin_top :: int
  margin_bottom :: int
  margin_left :: int
  margin_right :: int
  desired_width :: int
  desired_height :: int
  ls_layer :: nat

text \<open>A placement asked for through the shell of the desktop: at the cursor with an offset, or at a position.\<close>

datatype dde_placement = DdeCursor int | DdePosition int int

text \<open>\<open>tree_layer\<close> is the layer whose tree holds the surface, \<open>sh_box\<close> what it was configured to last.\<close>

record layer_shell =
  sh_state :: layer_surface_state
  sh_mapped :: bool
  tree_layer :: nat
  sh_dde :: "dde_placement option"
  sh_box :: "kywc_box option"

record layer_output =
  lo_geometry :: kywc_box
  lo_usable :: kywc_box
  shells :: "nat list list"
  shell :: "nat \<Rightarrow> layer_shell option"
  next_shell :: nat
  lo_update :: "kywc_box \<Rightarrow> kywc_box"
  lo_cursor :: "int \<times> int"

definition all_shells :: "layer_output \<Rightarrow> nat list" where
  "all_shells s = concat (shells s)"

definition upd_shell :: "nat \<Rightarrow> (layer_shell \<Rightarrow> layer_shell) \<Rightarrow> layer_output \<Rightarrow> layer_output" where
  "upd_shell p f s = s\<lparr>shell := (shell s)(p := map_option f (shell s p))\<rparr>"

subsection \<open>Exclusive zones\<close>

definition bounded_exclusive_zone :: "int \<Rightarrow> int \<Rightarrow> int \<Rightarrow> int" where
  "bounded_exclusive_zone zone margin available =
     (let amount = zone + margin
      in if available \<le> 0 \<or> amount \<le> 0 then 0 else if amount < available then amount else available)"

definition layer_surface_exclusive_zone :: "layer_surface_state \<Rightarrow> kywc_box \<Rightarrow> kywc_box" where
  "layer_surface_exclusive_zone st b =
     (let zone = exclusive_zone st; a = anchor st in
      if a = ANCHOR_TOP \<or> a = or ANCHOR_TOP (or ANCHOR_LEFT ANCHOR_RIGHT) then
        let n = bounded_exclusive_zone zone (margin_top st) (box_height b)
        in b\<lparr>box_y := box_y b + n, box_height := box_height b - n\<rparr>
      else if a = ANCHOR_BOTTOM \<or> a = or ANCHOR_BOTTOM (or ANCHOR_LEFT ANCHOR_RIGHT) then
        b\<lparr>box_height := box_height b - bounded_exclusive_zone zone (margin_bottom st) (box_height b)\<rparr>
      else if a = ANCHOR_LEFT \<or> a = or ANCHOR_TOP (or ANCHOR_BOTTOM ANCHOR_LEFT) then
        let n = bounded_exclusive_zone zone (margin_left st) (box_width b)
        in b\<lparr>box_x := box_x b + n, box_width := box_width b - n\<rparr>
      else if a = ANCHOR_RIGHT \<or> a = or ANCHOR_TOP (or ANCHOR_BOTTOM ANCHOR_RIGHT) then
        b\<lparr>box_width := box_width b - bounded_exclusive_zone zone (margin_right st) (box_width b)\<rparr>
      else b)"

subsection \<open>Placing a surface\<close>

text \<open>Position and size on one axis: the desired size, whether the surface is anchored to the low and the high end, the
  margins, and the bounds.\<close>

definition place_axis :: "int \<Rightarrow> bool \<Rightarrow> bool \<Rightarrow> int \<Rightarrow> int \<Rightarrow> int \<Rightarrow> int \<Rightarrow> int \<times> int" where
  "place_axis desired low high margin_low margin_high start len =
     (if desired = 0 then (start + margin_low, len - (margin_low + margin_high))
      else if low \<and> high then (start + len sdiv 2 - desired sdiv 2, desired)
      else if low then (start + margin_low, desired)
      else if high then (start + len - desired - margin_high, desired)
      else (start + len sdiv 2 - desired sdiv 2, desired))"

definition has_anchor :: "layer_surface_state \<Rightarrow> u32 \<Rightarrow> bool" where
  "has_anchor st a \<longleftrightarrow> and (anchor st) a \<noteq> 0"

definition place_surface :: "layer_surface_state \<Rightarrow> kywc_box \<Rightarrow> kywc_box \<Rightarrow> kywc_box" where
  "place_surface st full_area usable_area =
     (let bounds = (if exclusive_zone st = -1 then full_area else usable_area);
          (x, w) = place_axis (desired_width st) (has_anchor st ANCHOR_LEFT) (has_anchor st ANCHOR_RIGHT) (margin_left st) (margin_right st)
            (box_x bounds) (box_width bounds);
          (y, h) = place_axis (desired_height st) (has_anchor st ANCHOR_TOP) (has_anchor st ANCHOR_BOTTOM) (margin_top st) (margin_bottom st)
            (box_y bounds) (box_height bounds)
      in \<lparr>box_x = x, box_y = y, box_width = w, box_height = h\<rparr>)"

text \<open>A placement of the desktop shell, kept inside the output.\<close>

definition dde_place :: "int \<times> int \<Rightarrow> dde_placement \<Rightarrow> kywc_box \<Rightarrow> kywc_box \<Rightarrow> kywc_box" where
  "dde_place cursor d full b =
     (let (x, y) = (case d of DdeCursor off \<Rightarrow> (fst cursor, snd cursor + off) | DdePosition x y \<Rightarrow> (x, y));
          x = (if x + box_width b > box_x full + box_width full then box_x full + box_width full - box_width b else x);
          y = (if y + box_height b > box_y full + box_height full then box_y full + box_height full - box_height b else y);
          x = (if x < box_x full then box_x full else x);
          y = (if y < box_y full then box_y full else y)
      in b\<lparr>box_x := x, box_y := y\<rparr>)"

text \<open>The result has the area with the zone of the surface taken off.\<close>

definition layer_shell_configure_surface :: "nat \<Rightarrow> kywc_box \<Rightarrow> layer_output \<Rightarrow> kywc_box \<times> layer_output" where
  "layer_shell_configure_surface p usable_area s =
     (case shell s p of None \<Rightarrow> (usable_area, s)
      | Some sh \<Rightarrow>
        let st = sh_state sh;
            b = place_surface st (lo_geometry s) usable_area;
            b = (case sh_dde sh of None \<Rightarrow> b | Some d \<Rightarrow> dde_place (lo_cursor s) d (lo_geometry s) b)
        in (if sh_mapped sh \<and> exclusive_zone st > 0 then layer_surface_exclusive_zone st usable_area else usable_area,
            upd_shell p (\<lambda>sh. sh\<lparr>sh_box := Some b\<rparr>) s))"

subsection \<open>Signals of the output\<close>

text \<open>The surfaces with one kind of exclusive zone are placed; the area is an accumulator.\<close>

fun configure_loop :: "(int \<Rightarrow> bool) \<Rightarrow> nat list \<Rightarrow> kywc_box \<Rightarrow> layer_output \<Rightarrow> kywc_box \<times> layer_output" where
  "configure_loop P [] area s = (area, s)"
| "configure_loop P (p # ps) area s =
     (if map_option (\<lambda>sh. P (exclusive_zone (sh_state sh))) (shell s p) = Some True
      then (case layer_shell_configure_surface p area s of (area, s) \<Rightarrow> configure_loop P ps area s)
      else configure_loop P ps area s)"

definition handle_output_geometry :: "layer_output \<Rightarrow> layer_output" where
  "handle_output_geometry s =
     (case configure_loop (\<lambda>z. z < 0) (all_shells s) (lo_usable s) s of (area, s) \<Rightarrow> s\<lparr>lo_usable := area\<rparr>)"

definition handle_output_usable_area :: "layer_output \<Rightarrow> layer_output" where
  "handle_output_usable_area s =
     (case configure_loop (\<lambda>z. z = 0) (all_shells s) (lo_usable s) s of (area, s) \<Rightarrow> s\<lparr>lo_usable := area\<rparr>)"

definition handle_output_update_usable_area :: "kywc_box \<Rightarrow> layer_output \<Rightarrow> kywc_box \<times> layer_output" where
  "handle_output_update_usable_area area s = configure_loop (\<lambda>z. z > 0) (all_shells s) area s"

text \<open>The recomputation of the usable area with this listener, and what follows when it changed. The output is
  enabled and not being destroyed: for another one the function returns at once.\<close>

definition do_update_usable_area :: "layer_output \<Rightarrow> kywc_box \<times> layer_output" where
  "do_update_usable_area s =
     (case handle_output_update_usable_area (positive_size (lo_update s (lo_geometry s))) s of (area, s) \<Rightarrow> (positive_size area, s))"

definition layer_update_usable_area :: "layer_output \<Rightarrow> layer_output" where
  "layer_update_usable_area s =
     (case do_update_usable_area s of (area, s) \<Rightarrow>
        if kywc_box_equal (lo_usable s) area then s else handle_output_usable_area (s\<lparr>lo_usable := area\<rparr>))"

text \<open>A new geometry, as \<^verbatim>\<open>output_sync_committed_state\<close> handles it.\<close>

definition layer_new_geometry :: "kywc_box \<Rightarrow> layer_output \<Rightarrow> layer_output" where
  "layer_new_geometry geo s =
     (if kywc_box_equal (lo_geometry s) geo then s
      else case do_update_usable_area (s\<lparr>lo_geometry := geo\<rparr>) of (area, s) \<Rightarrow>
        if kywc_box_equal (lo_usable s) area then handle_output_geometry s
        else handle_output_usable_area (handle_output_geometry (s\<lparr>lo_usable := area\<rparr>)))"

subsection \<open>Surfaces\<close>

definition unlink_shell :: "nat \<Rightarrow> layer_output \<Rightarrow> layer_output" where
  "unlink_shell p s = s\<lparr>shells := map (removeAll p) (shells s)\<rparr>"

definition link_shell :: "nat \<Rightarrow> nat \<Rightarrow> layer_output \<Rightarrow> layer_output" where
  "link_shell layer p s = s\<lparr>shells := (shells s)[layer := p # shells s ! layer]\<rparr>"

definition layer_shell_update_layer :: "nat \<Rightarrow> layer_output \<Rightarrow> layer_output" where
  "layer_shell_update_layer p s =
     (case shell s p of None \<Rightarrow> s
      | Some sh \<Rightarrow>
        let layer = ls_layer (sh_state sh)
        in if tree_layer sh = layer then s
           else upd_shell p (\<lambda>sh. sh\<lparr>tree_layer := layer\<rparr>) (link_shell layer p (unlink_shell p s)))"

text \<open>\<open>committed\<close> says that the commit changed more than the keyboard interactivity.\<close>

definition layer_shell_handle_commit :: "bool \<Rightarrow> nat \<Rightarrow> layer_output \<Rightarrow> layer_output" where
  "layer_shell_handle_commit committed p s =
     (let s = layer_shell_update_layer p s in
      case shell s p of None \<Rightarrow> s
      | Some sh \<Rightarrow>
        if \<not> sh_mapped sh then (case layer_shell_configure_surface p (lo_usable s) s of (area, s) \<Rightarrow> s\<lparr>lo_usable := area\<rparr>)
        else if committed then layer_update_usable_area (snd (layer_shell_configure_surface p (lo_usable s) s))
        else s)"

definition layer_shell_handle_map :: "nat \<Rightarrow> layer_output \<Rightarrow> layer_output" where
  "layer_shell_handle_map p s =
     (let s = layer_shell_update_layer p s in
      case shell s p of None \<Rightarrow> s
      | Some sh \<Rightarrow>
        if exclusive_zone (sh_state sh) > 0 then layer_update_usable_area s
        else case layer_shell_configure_surface p (lo_usable s) s of (area, s) \<Rightarrow> s\<lparr>lo_usable := area\<rparr>)"

definition layer_shell_handle_unmap :: "nat \<Rightarrow> layer_output \<Rightarrow> layer_output" where
  "layer_shell_handle_unmap p s =
     (case shell s p of None \<Rightarrow> s
      | Some sh \<Rightarrow> if exclusive_zone (sh_state sh) > 0 then layer_update_usable_area s else s)"

definition layer_shell_handle_destroy :: "nat \<Rightarrow> layer_output \<Rightarrow> layer_output" where
  "layer_shell_handle_destroy p s =
     (case shell s p of None \<Rightarrow> s
      | Some sh \<Rightarrow>
        let s = (unlink_shell p s)\<lparr>shell := (shell s)(p := None)\<rparr>
        in if exclusive_zone (sh_state sh) > 0 \<and> sh_mapped sh then layer_update_usable_area s else s)"

definition handle_new_layer_surface :: "layer_surface_state \<Rightarrow> layer_output \<Rightarrow> layer_output" where
  "handle_new_layer_surface st s =
     (let p = next_shell s;
          sh = \<lparr>sh_state = st, sh_mapped = False, tree_layer = ls_layer st, sh_dde = None, sh_box = None\<rparr>
      in link_shell (ls_layer st) p (s\<lparr>shell := (shell s)(p \<mapsto> sh), next_shell := p + 1\<rparr>))"

definition wlr_layer_shell_reconfigure_surface :: "nat \<Rightarrow> layer_output \<Rightarrow> layer_output" where
  "wlr_layer_shell_reconfigure_surface p s =
     (case shell s p of None \<Rightarrow> s
      | Some sh \<Rightarrow> if \<not> sh_mapped sh then s else snd (layer_shell_configure_surface p (lo_usable s) s))"

text \<open>A new output, with the usable area its geometry has.\<close>

definition layer_handle_new_output :: "kywc_box \<Rightarrow> layer_output" where
  "layer_handle_new_output geo = \<lparr>lo_geometry = geo, lo_usable = positive_size (positive_size geo), shells = [[], [], [], []], shell = (\<lambda>_. None),
     next_shell = 0, lo_update = (\<lambda>b. b), lo_cursor = (0, 0)\<rparr>"

subsection \<open>Runs\<close>

datatype layer_event = NewSurface layer_surface_state | Commit nat bool layer_surface_state | MapSurface nat layer_surface_state
  | UnmapSurface nat | DestroySurface nat | NewGeometry kywc_box | Place nat dde_placement
  | OtherPanels "kywc_box \<Rightarrow> kywc_box" | CursorMoved int int

text \<open>A commit that changes nothing but the keyboard interactivity keeps the state; a surface is mapped when it is not,
  and unmapped when it is; layers are numbered from 0 to 3.\<close>

fun layer_possible :: "layer_event \<Rightarrow> layer_output \<Rightarrow> bool" where
  "layer_possible (NewSurface st) s = (ls_layer st < 4)"
| "layer_possible (Commit p c st) s = (ls_layer st < 4 \<and> (\<not> c \<longrightarrow> map_option sh_state (shell s p) = Some st \<or> map_option sh_mapped (shell s p) = Some False))"
| "layer_possible (MapSurface p st) s = (ls_layer st < 4 \<and> map_option sh_mapped (shell s p) = Some False)"
| "layer_possible (UnmapSurface p) s = (map_option sh_mapped (shell s p) = Some True)"
| "layer_possible _ s = True"

fun layer_handle :: "layer_event \<Rightarrow> layer_output \<Rightarrow> layer_output" where
  "layer_handle (NewSurface st) s = handle_new_layer_surface st s"
| "layer_handle (Commit p c st) s = layer_shell_handle_commit c p (upd_shell p (\<lambda>sh. sh\<lparr>sh_state := st\<rparr>) s)"
| "layer_handle (MapSurface p st) s = layer_shell_handle_map p (upd_shell p (\<lambda>sh. sh\<lparr>sh_state := st, sh_mapped := True\<rparr>) s)"
| "layer_handle (UnmapSurface p) s = layer_shell_handle_unmap p (upd_shell p (\<lambda>sh. sh\<lparr>sh_mapped := False\<rparr>) s)"
| "layer_handle (DestroySurface p) s = layer_shell_handle_destroy p s"
| "layer_handle (NewGeometry geo) s = layer_new_geometry geo s"
| "layer_handle (Place p d) s = wlr_layer_shell_reconfigure_surface p (upd_shell p (\<lambda>sh. sh\<lparr>sh_dde := Some d\<rparr>) s)"
| "layer_handle (OtherPanels f) s = layer_update_usable_area (s\<lparr>lo_update := f\<rparr>)"
| "layer_handle (CursorMoved x y) s = s\<lparr>lo_cursor := (x, y)\<rparr>"

inductive layer_run :: "kywc_box \<Rightarrow> layer_output \<Rightarrow> bool" for geo where
  Start: "layer_run geo (layer_handle_new_output geo)"
| Event: "layer_run geo s \<Longrightarrow> layer_possible e s \<Longrightarrow> layer_run geo (layer_handle e s)"

end
