(* ===== verification/LayerShellProofs.thy ===== *)
theory LayerShellProofs
  imports LayerShell
begin

section \<open>Properties of the layer shell\<close>

text \<open>
  After every event the usable area is what the panels leave of the output, and every mapped surface is placed in the
  area it belongs to.
\<close>

subsection \<open>The area that is left\<close>

text \<open>What counts of a surface: its state and whether it is mapped.\<close>

definition core :: "layer_output \<Rightarrow> nat \<Rightarrow> (layer_surface_state \<times> bool) option" where
  "core s p = map_option (\<lambda>sh. (sh_state sh, sh_mapped sh)) (shell s p)"

definition take_zone :: "(layer_surface_state \<times> bool) option \<Rightarrow> kywc_box \<Rightarrow> kywc_box" where
  "take_zone c a = (case c of None \<Rightarrow> a
     | Some (st, mapped) \<Rightarrow> if mapped \<and> exclusive_zone st > 0 then layer_surface_exclusive_zone st a else a)"

fun area_after :: "(nat \<Rightarrow> (layer_surface_state \<times> bool) option) \<Rightarrow> nat list \<Rightarrow> kywc_box \<Rightarrow> kywc_box" where
  "area_after c [] a = a"
| "area_after c (p # ps) a = area_after c ps (take_zone (c p) a)"

lemma area_after_cong: "(\<And>p. p \<in> set ps \<Longrightarrow> take_zone (c p) = take_zone (d p)) \<Longrightarrow> area_after c ps a = area_after d ps a"
  by (induction ps arbitrary: a) auto

lemma take_zone_nonpos: "\<not> exclusive_zone st > 0 \<Longrightarrow> take_zone (Some (st, m)) = (\<lambda>a. a)"
  by (auto simp: take_zone_def)

text \<open>A shell with its box, as \<^verbatim>\<open>layer_shell_configure_surface\<close> leaves it.\<close>

definition boxed :: "layer_output \<Rightarrow> kywc_box \<Rightarrow> layer_shell \<Rightarrow> layer_shell" where
  "boxed s a sh = (let b = place_surface (sh_state sh) (lo_geometry s) a
     in sh\<lparr>sh_box := Some (case sh_dde sh of None \<Rightarrow> b | Some d \<Rightarrow> dde_place (lo_cursor s) d (lo_geometry s) b)\<rparr>)"

lemma configure_surface_eq:
  "layer_shell_configure_surface p a s = (take_zone (core s p) a, upd_shell p (boxed s a) s)"
  by (cases "shell s p") (auto simp: layer_shell_configure_surface_def take_zone_def core_def upd_shell_def boxed_def Let_def fun_upd_idem)

lemma boxed_simps [simp]: "sh_state (boxed s a sh) = sh_state sh" "sh_mapped (boxed s a sh) = sh_mapped sh" "sh_dde (boxed s a sh) = sh_dde sh"
    "tree_layer (boxed s a sh) = tree_layer sh"
  by (simp_all add: boxed_def Let_def)

lemma upd_shell_simps [simp]:
  "lo_geometry (upd_shell p f s) = lo_geometry s" "lo_usable (upd_shell p f s) = lo_usable s" "shells (upd_shell p f s) = shells s"
  "all_shells (upd_shell p f s) = all_shells s" "lo_update (upd_shell p f s) = lo_update s" "lo_cursor (upd_shell p f s) = lo_cursor s"
  "next_shell (upd_shell p f s) = next_shell s"
  "shell (upd_shell p f s) q = (if q = p then map_option f (shell s p) else shell s q)"
  by (simp_all add: upd_shell_def all_shells_def)

text \<open>A loop over surfaces: those with the given kind of zone get a box, in the area left before them.\<close>

definition zone_is :: "(int \<Rightarrow> bool) \<Rightarrow> layer_shell \<Rightarrow> bool" where
  "zone_is P sh = P (exclusive_zone (sh_state sh))"

definition loop_core :: "(int \<Rightarrow> bool) \<Rightarrow> layer_output \<Rightarrow> nat \<Rightarrow> (layer_surface_state \<times> bool) option" where
  "loop_core P s p = (if map_option (zone_is P) (shell s p) = Some True then core s p else None)"

definition loop_shell :: "(int \<Rightarrow> bool) \<Rightarrow> nat list \<Rightarrow> kywc_box \<Rightarrow> layer_output \<Rightarrow> nat \<Rightarrow> layer_shell option" where
  "loop_shell P ps a s q =
     (if q \<in> set ps then map_option (\<lambda>sh. if zone_is P sh then boxed s (area_after (loop_core P s) (takeWhile (\<lambda>r. r \<noteq> q) ps) a) sh else sh) (shell s q)
      else shell s q)"

lemma take_zone_None [simp]: "take_zone None = (\<lambda>a. a)"
  by (auto simp: take_zone_def)

lemma configure_loop_eq:
  "distinct ps \<Longrightarrow> configure_loop P ps a s = (area_after (loop_core P s) ps a, s\<lparr>shell := loop_shell P ps a s\<rparr>)"
proof (induction ps arbitrary: a s)
  case Nil
  have "loop_shell P [] a s = shell s" by (simp add: loop_shell_def fun_eq_iff)
  then show ?case by simp
next
  case (Cons p ps)
  have d: "p \<notin> set ps" "distinct ps" using Cons.prems by auto
  show ?case
  proof (cases "map_option (zone_is P) (shell s p) = Some True")
    case False
    then have f: "loop_core P s p = None" by (auto simp: loop_core_def)
    have "loop_shell P (p # ps) a s q = loop_shell P ps a s q" for q
      using False d(1) f by (cases "q = p"; cases "shell s q") (auto simp: loop_shell_def)
    then have "loop_shell P (p # ps) a s = loop_shell P ps a s" by blast
    moreover have "configure_loop P (p # ps) a s = configure_loop P ps a s" using False by (auto simp: zone_is_def)
    ultimately show ?thesis using Cons.IH [OF d(2), of a s] f by simp
  next
    case True
    let ?s = "upd_shell p (boxed s a) s" and ?a = "take_zone (core s p) a"
    have lc: "loop_core P s p = core s p" using True by (simp add: loop_core_def)
    have c: "loop_core P ?s q = loop_core P s q" if "q \<noteq> p" for q using that by (auto simp: loop_core_def core_def)
    have bx: "boxed ?s b = boxed s b" for b by (simp add: boxed_def fun_eq_iff Let_def split: option.split)
    have aft: "area_after (loop_core P ?s) qs b = area_after (loop_core P s) qs b" if "p \<notin> set qs" for qs b
      by (rule area_after_cong) (use that c in metis)
    have sh: "loop_shell P ps ?a ?s q = loop_shell P (p # ps) a s q" for q
    proof (cases "q = p")
      case True
      then show ?thesis using d(1) \<open>map_option (zone_is P) (shell s p) = Some True\<close> by (auto simp: loop_shell_def zone_is_def)
    next
      case False
      have "p \<notin> set (takeWhile (\<lambda>r. r \<noteq> q) ps)" using d(1) by (auto dest: set_takeWhileD)
      then show ?thesis using False aft lc by (simp add: loop_shell_def bx cong: if_cong)
    qed
    then have "?s\<lparr>shell := loop_shell P ps ?a ?s\<rparr> = s\<lparr>shell := loop_shell P (p # ps) a s\<rparr>" by (simp add: upd_shell_def fun_eq_iff)
    moreover have "configure_loop P (p # ps) a s = configure_loop P ps ?a ?s" using True by (simp add: zone_is_def [abs_def] configure_surface_eq)
    ultimately show ?thesis using Cons.IH [OF d(2), of ?a ?s] aft [OF d(1)] lc by simp
  qed
qed

lemma area_after_idle: "(\<And>p. p \<in> set ps \<Longrightarrow> take_zone (c p) = (\<lambda>a. a)) \<Longrightarrow> area_after c ps a = a"
  by (induction ps arbitrary: a) auto

text \<open>The three loops: over panels the area shrinks, over other surfaces it stays.\<close>

lemma loop_area_pos: "area_after (loop_core (\<lambda>z. z > 0) s) ps a = area_after (core s) ps a"
proof (rule area_after_cong)
  fix p
  show "take_zone (loop_core (\<lambda>z. 0 < z) s p) = take_zone (core s p)"
    by (cases "shell s p") (auto simp: loop_core_def core_def zone_is_def take_zone_nonpos)
qed

lemma loop_area_nonpos:
  assumes "\<And>z. P z \<Longrightarrow> z \<le> 0"
  shows "area_after (loop_core P s) ps a = a"
proof (rule area_after_idle)
  fix p
  show "take_zone (loop_core P s p) = (\<lambda>a. a)"
    using assms by (cases "shell s p") (auto simp: loop_core_def core_def zone_is_def take_zone_nonpos leD)
qed

subsection \<open>The invariant\<close>

definition shells_ok :: "layer_output \<Rightarrow> bool" where
  "shells_ok s \<longleftrightarrow> length (shells s) = 4 \<and> distinct (all_shells s) \<and> (\<forall>p. p \<in> set (all_shells s) \<longleftrightarrow> shell s p \<noteq> None) \<and>
     (\<forall>p \<in> set (all_shells s). p < next_shell s)"

definition left_area :: "layer_output \<Rightarrow> nat list \<Rightarrow> kywc_box" where
  "left_area s ps = area_after (core s) ps (positive_size (lo_update s (lo_geometry s)))"

text \<open>The area a surface belongs to.\<close>

definition own_area :: "layer_output \<Rightarrow> nat \<Rightarrow> layer_surface_state \<Rightarrow> kywc_box" where
  "own_area s p st = (if exclusive_zone st > 0 then left_area s (takeWhile (\<lambda>q. q \<noteq> p) (all_shells s)) else lo_usable s)"

definition placed :: "(int \<Rightarrow> bool) \<Rightarrow> layer_output \<Rightarrow> nat \<Rightarrow> bool" where
  "placed P s p \<longleftrightarrow> (\<forall>sh. shell s p = Some sh \<longrightarrow> sh_mapped sh \<longrightarrow> sh_dde sh = None \<longrightarrow> -1 \<le> exclusive_zone (sh_state sh) \<longrightarrow>
     zone_is P sh \<longrightarrow> sh_box sh = Some (place_surface (sh_state sh) (lo_geometry s) (own_area s p (sh_state sh))))"

definition layer_inv :: "layer_output \<Rightarrow> bool" where
  "layer_inv s \<longleftrightarrow> shells_ok s \<and> lo_usable s = positive_size (left_area s (all_shells s)) \<and> (\<forall>p. placed (\<lambda>_. True) s p)"

text \<open>What the loops leave alone.\<close>

definition same_layout :: "layer_output \<Rightarrow> layer_output \<Rightarrow> bool" where
  "same_layout s t \<longleftrightarrow> lo_geometry t = lo_geometry s \<and> shells t = shells s \<and> next_shell t = next_shell s \<and> lo_update t = lo_update s \<and>
     core t = core s \<and> (\<forall>p. map_option (\<lambda>sh. (sh_dde sh, tree_layer sh)) (shell t p) = map_option (\<lambda>sh. (sh_dde sh, tree_layer sh)) (shell s p))"

lemma same_layout_simps:
  assumes "same_layout s t"
  shows "all_shells t = all_shells s" "left_area t ps = left_area s ps" "lo_geometry t = lo_geometry s" "shells_ok t = shells_ok s"
proof -
  show a: "all_shells t = all_shells s" using assms by (simp add: same_layout_def all_shells_def)
  show "left_area t ps = left_area s ps" "lo_geometry t = lo_geometry s" using assms by (simp_all add: same_layout_def left_area_def)
  have "(shell t p = None) = (shell s p = None)" for p
  proof -
    have "core t p = core s p" using assms by (simp add: same_layout_def)
    then show ?thesis by (cases "shell t p"; cases "shell s p") (auto simp: core_def)
  qed
  then show "shells_ok t = shells_ok s" using assms a by (auto simp: shells_ok_def same_layout_def)
qed

lemma same_layout_trans: "same_layout s t \<Longrightarrow> same_layout t u \<Longrightarrow> same_layout s u"
  by (simp add: same_layout_def)

lemma loop_same: "same_layout s (s\<lparr>shell := loop_shell P ps a s\<rparr>)"
proof -
  have "core (s\<lparr>shell := loop_shell P ps a s\<rparr>) q = core s q \<and>
      map_option (\<lambda>sh. (sh_dde sh, tree_layer sh)) (loop_shell P ps a s q) = map_option (\<lambda>sh. (sh_dde sh, tree_layer sh)) (shell s q)" for q
    by (cases "shell s q") (auto simp: core_def loop_shell_def)
  then show ?thesis by (simp add: same_layout_def fun_eq_iff)
qed

lemma placed_loop:
  assumes "shells_ok s" "zone_is P sh" "loop_shell P (all_shells s) a s p = Some sh" "sh_dde sh = None"
  shows "sh_box sh = Some (place_surface (sh_state sh) (lo_geometry s) (area_after (loop_core P s) (takeWhile (\<lambda>r. r \<noteq> p) (all_shells s)) a))"
proof -
  obtain sh0 where s0: "shell s p = Some sh0" using assms(3) by (auto simp: loop_shell_def split: if_splits)
  then have "p \<in> set (all_shells s)" using assms(1) by (auto simp: shells_ok_def)
  then have "sh = (if zone_is P sh0 then boxed s (area_after (loop_core P s) (takeWhile (\<lambda>r. r \<noteq> p) (all_shells s)) a) sh0 else sh0)"
    using assms(3) s0 by (simp add: loop_shell_def)
  then show ?thesis using assms(2,4) by (auto simp: boxed_def Let_def zone_is_def split: if_splits)
qed

lemma loop_shell_other: "loop_shell P ps a s p = Some sh \<Longrightarrow> \<not> zone_is P sh \<Longrightarrow> shell s p = Some sh"
  by (auto simp: loop_shell_def zone_is_def split: if_splits)

lemma panels_placed:
  assumes "shells_ok s"
  obtains t where "do_update_usable_area s = (positive_size (left_area s (all_shells s)), t)" "same_layout s t" "lo_usable t = lo_usable s"
    "\<And>p. placed (\<lambda>z. z > 0) t p" "\<And>p sh. shell t p = Some sh \<Longrightarrow> \<not> exclusive_zone (sh_state sh) > 0 \<Longrightarrow> shell s p = Some sh"
proof -
  let ?a = "positive_size (lo_update s (lo_geometry s))"
  let ?t = "s\<lparr>shell := loop_shell (\<lambda>z. z > 0) (all_shells s) ?a s\<rparr>"
  have d: "distinct (all_shells s)" using assms by (simp add: shells_ok_def)
  have r: "do_update_usable_area s = (positive_size (left_area s (all_shells s)), ?t)"
    by (simp add: do_update_usable_area_def handle_output_update_usable_area_def configure_loop_eq [OF d] loop_area_pos left_area_def)
  have t: "same_layout s ?t" by (rule loop_same)
  have "placed (\<lambda>z. z > 0) ?t p" for p
  proof (unfold placed_def, intro allI impI)
    fix sh
    assume sh: "shell ?t p = Some sh" "sh_dde sh = None" "zone_is (\<lambda>z. z > 0) sh"
    have "own_area ?t p (sh_state sh) = area_after (core s) (takeWhile (\<lambda>r. r \<noteq> p) (all_shells s)) ?a"
      using sh(3) same_layout_simps(1,2) [OF t] by (simp add: own_area_def zone_is_def left_area_def)
    then show "sh_box sh = Some (place_surface (sh_state sh) (lo_geometry ?t) (own_area ?t p (sh_state sh)))"
      using placed_loop [OF assms sh(3) _ sh(2), of ?a p] sh(1) by (simp add: loop_area_pos)
  qed
  moreover have "shell s p = Some sh" if "shell ?t p = Some sh" "\<not> exclusive_zone (sh_state sh) > 0" for p sh
    using loop_shell_other [of "\<lambda>z. z > 0" "all_shells s" ?a s p sh] that by (simp add: zone_is_def)
  ultimately show ?thesis using that [OF r t] by simp
qed

definition relayout :: "(int \<Rightarrow> bool) \<Rightarrow> layer_output \<Rightarrow> layer_output" where
  "relayout P s = (case configure_loop P (all_shells s) (lo_usable s) s of (area, s) \<Rightarrow> s\<lparr>lo_usable := area\<rparr>)"

lemma others_placed:
  assumes ok: "shells_ok s" and P: "\<And>z. P z \<Longrightarrow> z \<le> 0"
  shows "same_layout s (relayout P s)" "lo_usable (relayout P s) = lo_usable s" "placed P (relayout P s) p"
    "\<And>p sh. shell (relayout P s) p = Some sh \<Longrightarrow> \<not> zone_is P sh \<Longrightarrow> shell s p = Some sh"
proof -
  let ?t = "s\<lparr>shell := loop_shell P (all_shells s) (lo_usable s) s\<rparr>"
  have d: "distinct (all_shells s)" using ok by (simp add: shells_ok_def)
  have r: "relayout P s = ?t" using loop_area_nonpos [OF P] by (simp add: configure_loop_eq [OF d] relayout_def)
  show "same_layout s (relayout P s)" unfolding r by (rule loop_same)
  show "placed P (relayout P s) p"
  proof (unfold placed_def r, intro allI impI)
    fix sh
    assume sh: "shell ?t p = Some sh" "sh_dde sh = None" "zone_is P sh"
    have "own_area ?t p (sh_state sh) = lo_usable s" using sh(3) P by (force simp: own_area_def zone_is_def)
    then show "sh_box sh = Some (place_surface (sh_state sh) (lo_geometry ?t) (own_area ?t p (sh_state sh)))"
      using placed_loop [OF ok sh(3) _ sh(2), of "lo_usable s" p] sh(1) loop_area_nonpos [OF P] by simp
  qed
  show "lo_usable (relayout P s) = lo_usable s" "\<And>p sh. shell (relayout P s) p = Some sh \<Longrightarrow> \<not> zone_is P sh \<Longrightarrow> shell s p = Some sh"
    using loop_shell_other [of P "all_shells s" "lo_usable s" s] by (simp_all add: r)
qed

lemma place_full: "exclusive_zone st = -1 \<Longrightarrow> place_surface st g a = place_surface st g b"
  by (simp add: place_surface_def)

lemma place_usable: "exclusive_zone st \<noteq> -1 \<Longrightarrow> place_surface st g a = place_surface st h a"
  by (simp add: place_surface_def)

text \<open>Surfaces that a step leaves as they are stay placed, when their area stays.\<close>

lemma placed_keep:
  assumes "placed P s p" "\<And>sh. shell t p = Some sh \<Longrightarrow> zone_is P sh \<Longrightarrow> shell s p = Some sh" "lo_geometry t = lo_geometry s"
    "\<And>sh. shell t p = Some sh \<Longrightarrow> zone_is P sh \<Longrightarrow> -1 \<le> exclusive_zone (sh_state sh) \<Longrightarrow> exclusive_zone (sh_state sh) \<noteq> -1 \<Longrightarrow>
       own_area t p (sh_state sh) = own_area s p (sh_state sh)"
  shows "placed P t p"
proof (unfold placed_def, intro allI impI)
  fix sh
  assume sh: "shell t p = Some sh" "sh_mapped sh" "sh_dde sh = None" "-1 \<le> exclusive_zone (sh_state sh)" "zone_is P sh"
  have "sh_box sh = Some (place_surface (sh_state sh) (lo_geometry s) (own_area s p (sh_state sh)))"
    using assms(1) assms(2) [OF sh(1,5)] sh by (auto simp: placed_def)
  then show "sh_box sh = Some (place_surface (sh_state sh) (lo_geometry t) (own_area t p (sh_state sh)))"
    using assms(3) assms(4) [OF sh(1,5,4)] place_full [of "sh_state sh"] by (cases "exclusive_zone (sh_state sh) = -1") auto
qed

lemma placed_cases:
  assumes "placed (\<lambda>z. z > 0) s p" "placed (\<lambda>z. z = 0) s p" "placed (\<lambda>z. z < 0) s p"
  shows "placed (\<lambda>_. True) s p"
proof (unfold placed_def, intro allI impI)
  fix sh
  assume sh: "shell s p = Some sh" "sh_mapped sh" "sh_dde sh = None" "-1 \<le> exclusive_zone (sh_state sh)"
  consider "exclusive_zone (sh_state sh) > 0" | "exclusive_zone (sh_state sh) = 0" | "exclusive_zone (sh_state sh) < 0" by linarith
  then show "sh_box sh = Some (place_surface (sh_state sh) (lo_geometry s) (own_area s p (sh_state sh)))"
    using assms sh unfolding placed_def zone_is_def by cases blast+
qed

lemma zero_nonpos: "z = 0 \<Longrightarrow> z \<le> (0 :: int)" and neg_nonpos: "z < 0 \<Longrightarrow> z \<le> (0 :: int)"
  by simp_all

text \<open>The recomputation restores the invariant when the surfaces that are no panels are placed as before.\<close>

lemma update_usable_inv:
  assumes ok: "shells_ok s" and pl: "\<And>p. placed (\<lambda>z. z \<le> 0) s p"
  shows "layer_inv (layer_update_usable_area s)" "same_layout s (layer_update_usable_area s)"
proof -
  let ?a = "positive_size (left_area s (all_shells s))"
  obtain t where t: "do_update_usable_area s = (?a, t)" "same_layout s t" "lo_usable t = lo_usable s" "\<And>p. placed (\<lambda>z. z > 0) t p"
      "\<And>p sh. shell t p = Some sh \<Longrightarrow> \<not> exclusive_zone (sh_state sh) > 0 \<Longrightarrow> shell s p = Some sh"
    by (rule panels_placed [OF ok]) blast
  note f = same_layout_simps [OF t(2)]
  have nonpos: "placed (\<lambda>z. z \<le> 0) t p" for p
    by (rule placed_keep [OF pl]) (use t(5,3) f(3) in \<open>auto simp: zone_is_def own_area_def not_less\<close>)
  have low: "placed (\<lambda>z. z = 0) t p" "placed (\<lambda>z. z < 0) t p" for p using nonpos by (auto simp: placed_def zone_is_def)
  have "layer_inv (layer_update_usable_area s) \<and> same_layout s (layer_update_usable_area s)"
  proof (cases "lo_usable s = ?a")
    case True
    then have "layer_update_usable_area s = t" using t(1,3) by (simp add: layer_update_usable_area_def kywc_box_equal_iff)
    then show ?thesis using placed_cases [OF t(4) low] ok f True t(2,3) by (simp add: layer_inv_def)
  next
    case False
    let ?u = "t\<lparr>lo_usable := ?a\<rparr>"
    have su: "same_layout t ?u" by (auto simp: same_layout_def core_def fun_eq_iff)
    have oku: "shells_ok ?u" using same_layout_simps(4) [OF su] f(4) ok by simp
    let ?v = "relayout (\<lambda>z. z = 0) ?u"
    note v = others_placed [OF oku zero_nonpos]
    have r: "layer_update_usable_area s = ?v"
      using False t(1,3) by (simp add: layer_update_usable_area_def kywc_box_equal_iff handle_output_usable_area_def relayout_def)
    have sv: "same_layout t ?v" by (rule same_layout_trans [OF su v(1)])
    note g = same_layout_simps [OF sv]
    have "placed (\<lambda>z. z > 0) ?v p" for p
      by (rule placed_keep [OF t(4)]) (use v(4) g(1-3) in \<open>auto simp: zone_is_def own_area_def\<close>)
    moreover have "placed (\<lambda>z. z < 0) ?v p" for p
      by (rule placed_keep [OF low(2)]) (use v(4) g(1-3) in \<open>auto simp: zone_is_def\<close>)
    ultimately have "placed (\<lambda>_. True) ?v p" for p using placed_cases [OF _ v(3)] by blast
    then show ?thesis using ok f g v(2) same_layout_trans [OF t(2) sv] by (simp add: r layer_inv_def)
  qed
  then show "layer_inv (layer_update_usable_area s)" "same_layout s (layer_update_usable_area s)" by blast+
qed

subsection \<open>Surfaces that reserve nothing\<close>

definition reserves :: "layer_output \<Rightarrow> nat \<Rightarrow> bool" where
  "reserves s p = (case core s p of None \<Rightarrow> False | Some (st, m) \<Rightarrow> m \<and> exclusive_zone st > 0)"

lemma take_zone_idle: "\<not> reserves s p \<Longrightarrow> take_zone (core s p) = (\<lambda>a. a)"
  by (auto simp: reserves_def take_zone_def split: option.splits)

lemma area_after_filter: "area_after (core s) ps a = area_after (core s) (filter (reserves s) ps) a"
  by (induction ps arbitrary: a) (auto simp: take_zone_idle)

lemma takeWhile_filter_comm:
  "Q p \<Longrightarrow> filter Q (takeWhile (\<lambda>q. q \<noteq> p) xs) = takeWhile (\<lambda>q. q \<noteq> p) (filter Q xs)"
  by (induction xs) auto

text \<open>Two states with the same panels in the same order.\<close>

definition same_panels :: "layer_output \<Rightarrow> layer_output \<Rightarrow> bool" where
  "same_panels s t \<longleftrightarrow> lo_geometry t = lo_geometry s \<and> lo_update t = lo_update s \<and>
     filter (reserves t) (all_shells t) = filter (reserves s) (all_shells s) \<and> (\<forall>p. reserves t p \<longrightarrow> core t p = core s p)"

lemma same_panels_area:
  assumes "same_panels s t"
  shows "left_area t (all_shells t) = left_area s (all_shells s)"
    "reserves t p \<Longrightarrow> reserves s p \<Longrightarrow>
       left_area t (takeWhile (\<lambda>q. q \<noteq> p) (all_shells t)) = left_area s (takeWhile (\<lambda>q. q \<noteq> p) (all_shells s))"
proof -
  have g: "lo_geometry t = lo_geometry s" "lo_update t = lo_update s"
    and f: "filter (reserves t) (all_shells t) = filter (reserves s) (all_shells s)"
    and c: "\<And>p. reserves t p \<Longrightarrow> core t p = core s p" using assms by (auto simp: same_panels_def)
  have e: "area_after (core t) ps a = area_after (core s) ps a" if "\<forall>p \<in> set ps. reserves t p" for ps a
    by (rule area_after_cong) (use that c in auto)
  show "left_area t (all_shells t) = left_area s (all_shells s)"
    unfolding left_area_def g area_after_filter [of t "all_shells t"] area_after_filter [of s "all_shells s"] f [symmetric] by (rule e) simp
  show "left_area t (takeWhile (\<lambda>q. q \<noteq> p) (all_shells t)) = left_area s (takeWhile (\<lambda>q. q \<noteq> p) (all_shells s))"
    if "reserves t p" "reserves s p"
  proof -
    let ?a = "positive_size (lo_update s (lo_geometry s))" and ?w = "\<lambda>xs. takeWhile (\<lambda>q. q \<noteq> p) xs"
    have "area_after (core t) (?w (all_shells t)) ?a = area_after (core t) (?w (filter (reserves t) (all_shells t))) ?a"
      by (subst area_after_filter) (simp only: takeWhile_filter_comm [of "reserves t" p, OF that(1)])
    also have "\<dots> = area_after (core s) (?w (filter (reserves s) (all_shells s))) ?a"
      unfolding f [symmetric] by (rule e) (auto dest: set_takeWhileD)
    also have "\<dots> = area_after (core s) (?w (all_shells s)) ?a"
      by (subst (2) area_after_filter) (simp only: takeWhile_filter_comm [of "reserves s" p, OF that(2)])
    finally show ?thesis by (simp add: left_area_def g)
  qed
qed

text \<open>A surface of the new state is as it was, or it was placed just now and is no panel.\<close>

definition kept_or_placed :: "(int \<Rightarrow> bool) \<Rightarrow> layer_output \<Rightarrow> layer_output \<Rightarrow> bool" where
  "kept_or_placed P s t \<longleftrightarrow> lo_usable t = lo_usable s \<and> lo_geometry t = lo_geometry s \<and>
     (\<forall>p sh. shell t p = Some sh \<longrightarrow> sh_mapped sh \<longrightarrow> sh_dde sh = None \<longrightarrow> -1 \<le> exclusive_zone (sh_state sh) \<longrightarrow> zone_is P sh \<longrightarrow>
        (\<exists>sh0. shell s p = Some sh0 \<and> sh_mapped sh0 \<and> sh_dde sh0 = None \<and> sh_state sh0 = sh_state sh \<and> sh_box sh0 = sh_box sh) \<or>
        exclusive_zone (sh_state sh) \<le> 0 \<and> sh_box sh = Some (place_surface (sh_state sh) (lo_geometry s) (lo_usable s)))"

lemma kept_placed:
  assumes k: "kept_or_placed P s t" and pl: "\<And>p. placed (\<lambda>_. True) s p"
    and a: "\<And>p st. P (exclusive_zone st) \<Longrightarrow> exclusive_zone st > 0 \<Longrightarrow> core t p = Some (st, True) \<Longrightarrow> core s p = Some (st, True) \<Longrightarrow>
       own_area t p st = own_area s p st"
    and n: "\<And>p st. P (exclusive_zone st) \<Longrightarrow> exclusive_zone st > 0 \<Longrightarrow> core t p = Some (st, True) \<Longrightarrow> core s p = Some (st, True)"
  shows "placed P t p"
proof (unfold placed_def, intro allI impI)
  fix sh
  assume sh: "shell t p = Some sh" "sh_mapped sh" "sh_dde sh = None" "-1 \<le> exclusive_zone (sh_state sh)" "zone_is P sh"
  have g: "lo_geometry t = lo_geometry s" "lo_usable t = lo_usable s" using k by (auto simp: kept_or_placed_def)
  have ct: "core t p = Some (sh_state sh, True)" using sh by (simp add: core_def)
  have z: "own_area t p (sh_state sh) = own_area s p (sh_state sh)"
    using a [OF _ _ ct n] ct sh(5) g by (cases "exclusive_zone (sh_state sh) > 0") (auto simp: own_area_def zone_is_def)
  consider sh0 where "shell s p = Some sh0" "sh_mapped sh0" "sh_dde sh0 = None" "sh_state sh0 = sh_state sh" "sh_box sh0 = sh_box sh"
    | "exclusive_zone (sh_state sh) \<le> 0" "sh_box sh = Some (place_surface (sh_state sh) (lo_geometry s) (lo_usable s))"
    using k sh unfolding kept_or_placed_def by blast
  then show "sh_box sh = Some (place_surface (sh_state sh) (lo_geometry t) (own_area t p (sh_state sh)))"
  proof cases
    case 1
    have "sh_box sh0 = Some (place_surface (sh_state sh0) (lo_geometry s) (own_area s p (sh_state sh0)))"
      using pl [of p] 1 sh(4) unfolding placed_def zone_is_def by simp
    then show ?thesis using 1 g z by simp
  next
    case 2
    then show ?thesis using g by (simp add: own_area_def)
  qed
qed

definition tree_ok :: "layer_output \<Rightarrow> bool" where
  "tree_ok s \<longleftrightarrow> (\<forall>p sh. shell s p = Some sh \<longrightarrow> tree_layer sh = ls_layer (sh_state sh))"

definition layer_good :: "layer_output \<Rightarrow> bool" where
  "layer_good s \<longleftrightarrow> layer_inv s \<and> tree_ok s"

lemma tree_same: "same_layout s t \<Longrightarrow> tree_ok s \<Longrightarrow> tree_ok t"
proof (unfold tree_ok_def, intro allI impI)
  fix p sh
  assume s: "same_layout s t" "\<forall>p sh. shell s p = Some sh \<longrightarrow> tree_layer sh = ls_layer (sh_state sh)" "shell t p = Some sh"
  have "core t p = core s p" "map_option (\<lambda>sh. (sh_dde sh, tree_layer sh)) (shell t p) = map_option (\<lambda>sh. (sh_dde sh, tree_layer sh)) (shell s p)"
    using s(1) by (simp_all add: same_layout_def)
  then show "tree_layer sh = ls_layer (sh_state sh)" using s(2,3) by (cases "shell s p") (auto simp: core_def)
qed

text \<open>Steps that leave the panels, and steps after which the area is recomputed.\<close>

lemma good_same_panels:
  assumes s: "layer_good s" and t: "shells_ok t" "tree_ok t" and p: "same_panels s t" and k: "kept_or_placed (\<lambda>_. True) s t"
  shows "layer_good t"
proof -
  have i: "lo_usable s = positive_size (left_area s (all_shells s))" "\<And>p. placed (\<lambda>_. True) s p"
    using s by (auto simp: layer_good_def layer_inv_def)
  have c: "core s p = Some (st, True)" if "exclusive_zone st > 0" "core t p = Some (st, True)" for p st
    using p that by (auto simp: same_panels_def reserves_def)
  have "placed (\<lambda>_. True) t q" for q
  proof (rule kept_placed [OF k i(2)])
    show "own_area t p st = own_area s p st" if "exclusive_zone st > 0" "core t p = Some (st, True)" "core s p = Some (st, True)" for p st
      using same_panels_area(2) [OF p, of p] that by (simp add: own_area_def reserves_def)
  qed (use c in blast)
  then show ?thesis using t i(1) same_panels_area(1) [OF p] k by (simp add: layer_good_def layer_inv_def kept_or_placed_def)
qed

lemma good_update:
  assumes s: "layer_good s" and t: "shells_ok t" "tree_ok t" and k: "kept_or_placed (\<lambda>z. z \<le> 0) s t"
  shows "layer_good (layer_update_usable_area t)"
proof -
  have i: "\<And>p. placed (\<lambda>_. True) s p" using s by (auto simp: layer_good_def layer_inv_def)
  have "placed (\<lambda>z. z \<le> 0) t q" for q by (rule kept_placed [OF k i]) auto
  note u = update_usable_inv [OF t(1) this]
  show ?thesis using u(1) tree_same [OF u(2) t(2)] by (simp add: layer_good_def)
qed

subsection \<open>Moving a surface between layers\<close>

lemma concat_removeAll: "concat (map (removeAll p) xss) = removeAll p (concat xss)"
  by (induction xss) auto

lemma concat_link:
  assumes "i < length xss"
  shows "concat (xss[i := p # xss ! i]) = concat (take i xss) @ p # concat (drop i xss)"
proof -
  have "concat (drop i xss) = xss ! i @ concat (drop (Suc i) xss)" using assms by (simp add: Cons_nth_drop_Suc [symmetric])
  then show ?thesis using assms by (simp add: upd_conv_take_nth_drop)
qed

lemma link_facts:
  assumes "i < length xss"
  shows "set (concat (xss[i := p # xss ! i])) = insert p (set (concat xss))"
    "distinct (concat (xss[i := p # xss ! i])) \<longleftrightarrow> p \<notin> set (concat xss) \<and> distinct (concat xss)"
    "\<not> Q p \<Longrightarrow> filter Q (concat (xss[i := p # xss ! i])) = filter Q (concat xss)"
proof -
  have c: "concat xss = concat (take i xss) @ concat (drop i xss)" by (metis append_take_drop_id concat_append)
  show "set (concat (xss[i := p # xss ! i])) = insert p (set (concat xss))" unfolding concat_link [OF assms] by (subst c) auto
  show "distinct (concat (xss[i := p # xss ! i])) \<longleftrightarrow> p \<notin> set (concat xss) \<and> distinct (concat xss)"
    unfolding concat_link [OF assms] c by auto
  show "filter Q (concat (xss[i := p # xss ! i])) = filter Q (concat xss)" if "\<not> Q p"
    unfolding concat_link [OF assms] by (subst c) (use that in simp)
qed

lemma filter_removeAll_other: "\<not> Q p \<Longrightarrow> filter Q (removeAll p xs) = filter Q xs"
  by (induction xs) auto

definition relayer :: "layer_shell \<Rightarrow> layer_shell" where
  "relayer sh = sh\<lparr>tree_layer := ls_layer (sh_state sh)\<rparr>"

lemma relayer_simps [simp]: "sh_state (relayer sh) = sh_state sh" "sh_mapped (relayer sh) = sh_mapped sh" "sh_dde (relayer sh) = sh_dde sh"
    "sh_box (relayer sh) = sh_box sh" "tree_layer (relayer sh) = ls_layer (sh_state sh)"
  by (simp_all add: relayer_def)

lemma link_shell_simps [simp]:
  "lo_geometry (link_shell i p s) = lo_geometry s" "lo_usable (link_shell i p s) = lo_usable s" "lo_update (link_shell i p s) = lo_update s"
  "lo_cursor (link_shell i p s) = lo_cursor s" "next_shell (link_shell i p s) = next_shell s" "shell (link_shell i p s) = shell s"
  "length (shells (link_shell i p s)) = length (shells s)"
  by (simp_all add: link_shell_def)

lemma unlink_shell_simps [simp]:
  "lo_geometry (unlink_shell p s) = lo_geometry s" "lo_usable (unlink_shell p s) = lo_usable s" "lo_update (unlink_shell p s) = lo_update s"
  "lo_cursor (unlink_shell p s) = lo_cursor s" "next_shell (unlink_shell p s) = next_shell s" "shell (unlink_shell p s) = shell s"
  "length (shells (unlink_shell p s)) = length (shells s)" "all_shells (unlink_shell p s) = removeAll p (all_shells s)"
  by (simp_all add: unlink_shell_def all_shells_def concat_removeAll)

lemma all_shells_link:
  assumes "i < length (shells s)"
  shows "set (all_shells (link_shell i p s)) = insert p (set (all_shells s))"
    "distinct (all_shells (link_shell i p s)) \<longleftrightarrow> p \<notin> set (all_shells s) \<and> distinct (all_shells s)"
    "\<not> Q p \<Longrightarrow> filter Q (all_shells (link_shell i p s)) = filter Q (all_shells s)"
  using link_facts [OF assms, where p = p] by (simp_all add: all_shells_def link_shell_def)

lemma update_layer_facts:
  assumes ok: "shells_ok s" and l: "\<And>sh. shell s p = Some sh \<Longrightarrow> ls_layer (sh_state sh) < 4"
  defines "t \<equiv> layer_shell_update_layer p s"
  shows "shells_ok t" "shell t q = (if q = p then map_option relayer (shell s p) else shell s q)"
    "lo_geometry t = lo_geometry s" "lo_usable t = lo_usable s" "lo_update t = lo_update s" "lo_cursor t = lo_cursor s"
    "\<not> Q p \<Longrightarrow> filter Q (all_shells t) = filter Q (all_shells s)"
proof -
  have "shells_ok t \<and> (shell t q = (if q = p then map_option relayer (shell s p) else shell s q)) \<and> lo_geometry t = lo_geometry s \<and>
      lo_usable t = lo_usable s \<and> lo_update t = lo_update s \<and> lo_cursor t = lo_cursor s \<and>
      (\<not> Q p \<longrightarrow> filter Q (all_shells t) = filter Q (all_shells s))"
  proof (cases "\<exists>sh. shell s p = Some sh \<and> tree_layer sh \<noteq> ls_layer (sh_state sh)")
    case False
    have "map_option relayer (shell s p) = shell s p" using False by (cases "shell s p") (auto simp: relayer_def)
    moreover have "t = s" using False by (auto simp: t_def layer_shell_update_layer_def Let_def split: option.split)
    ultimately show ?thesis using ok by simp
  next
    case True
    then obtain sh where sh: "shell s p = Some sh" "tree_layer sh \<noteq> ls_layer (sh_state sh)" by blast
    let ?i = "ls_layer (sh_state sh)" and ?u = "unlink_shell p s"
    have t: "t = upd_shell p (\<lambda>sh. sh\<lparr>tree_layer := ?i\<rparr>) (link_shell ?i p ?u)"
      using sh by (simp add: t_def layer_shell_update_layer_def Let_def)
    have i: "?i < length (shells ?u)" using l [OF sh(1)] ok by (simp add: shells_ok_def)
    note f = all_shells_link [OF i, where p = p]
    have "shells_ok t" using ok sh(1) f(1,2) by (auto simp: t shells_ok_def distinct_removeAll)
    moreover have "filter Q (all_shells t) = filter Q (all_shells s)" if "\<not> Q p"
      using f(3) [of Q, OF that] that by (simp add: t filter_removeAll_other)
    ultimately show ?thesis using sh(1) by (simp add: t relayer_def)
  qed
  then show "shells_ok t" "shell t q = (if q = p then map_option relayer (shell s p) else shell s q)" "lo_geometry t = lo_geometry s"
    "lo_usable t = lo_usable s" "lo_update t = lo_update s" "lo_cursor t = lo_cursor s"
    "\<not> Q p \<Longrightarrow> filter Q (all_shells t) = filter Q (all_shells s)" by blast+
qed

subsection \<open>Events\<close>

lemma layer_good_parts: "layer_good s \<Longrightarrow> shells_ok s" "layer_good s \<Longrightarrow> tree_ok s"
  by (simp_all add: layer_good_def layer_inv_def)

text \<open>A step that changes one surface: the rest is kept.\<close>

lemma kept_one:
  assumes "lo_usable t = lo_usable s" "lo_geometry t = lo_geometry s" "\<And>q. q \<noteq> p \<Longrightarrow> shell t q = shell s q \<or> shell t q = None"
    and "\<And>sh. shell t p = Some sh \<Longrightarrow> sh_mapped sh \<Longrightarrow> sh_dde sh = None \<Longrightarrow> -1 \<le> exclusive_zone (sh_state sh) \<Longrightarrow> zone_is P sh \<Longrightarrow>
      exclusive_zone (sh_state sh) \<le> 0 \<and> sh_box sh = Some (place_surface (sh_state sh) (lo_geometry s) (lo_usable s))"
  shows "kept_or_placed P s t"
proof (unfold kept_or_placed_def, intro conjI allI impI)
  fix q sh
  assume sh: "shell t q = Some sh" "sh_mapped sh" "sh_dde sh = None" "-1 \<le> exclusive_zone (sh_state sh)" "zone_is P sh"
  show "(\<exists>sh0. shell s q = Some sh0 \<and> sh_mapped sh0 \<and> sh_dde sh0 = None \<and> sh_state sh0 = sh_state sh \<and> sh_box sh0 = sh_box sh) \<or>
      exclusive_zone (sh_state sh) \<le> 0 \<and> sh_box sh = Some (place_surface (sh_state sh) (lo_geometry s) (lo_usable s))"
  proof (cases "q = p")
    case True
    then show ?thesis using assms(4) sh by blast
  next
    case False
    then have "shell s q = Some sh" using assms(3) [of q] sh(1) by auto
    then show ?thesis using sh by blast
  qed
qed (use assms(1,2) in simp_all)

text \<open>A step that changes one surface which reserves nothing, before and after.\<close>

lemma same_panels_one:
  assumes "lo_geometry t = lo_geometry s" "lo_update t = lo_update s" "\<And>q. q \<noteq> p \<Longrightarrow> shell t q = shell s q"
    "\<not> reserves s p" "\<not> reserves t p" "\<And>Q. \<not> Q p \<Longrightarrow> filter Q (all_shells t) = filter Q (all_shells s)"
  shows "same_panels s t"
proof -
  have c: "core t q = core s q" if "q \<noteq> p" for q using assms(3) that by (simp add: core_def)
  have "reserves t q = reserves s q" for q using c [of q] assms(4,5) by (cases "q = p") (simp_all add: reserves_def)
  then have r: "reserves t = reserves s" by blast
  have "core t q = core s q" if "reserves t q" for q using c [of q] that assms(5) by (cases "q = p") auto
  then show ?thesis using assms(1,2) assms(6) [of "reserves s"] assms(4) r by (simp add: same_panels_def)
qed

lemma new_surface_good:
  assumes "layer_good s" "ls_layer st < 4"
  shows "layer_good (handle_new_layer_surface st s)"
proof -
  let ?p = "next_shell s"
  let ?sh = "\<lparr>sh_state = st, sh_mapped = False, tree_layer = ls_layer st, sh_dde = None, sh_box = None\<rparr>"
  let ?u = "s\<lparr>shell := (shell s)(?p \<mapsto> ?sh), next_shell := ?p + 1\<rparr>"
  let ?t = "handle_new_layer_surface st s"
  have t: "?t = link_shell (ls_layer st) ?p ?u" by (simp add: handle_new_layer_surface_def Let_def)
  note ok = layer_good_parts [OF assms(1)]
  have as: "all_shells ?u = all_shells s" by (simp add: all_shells_def)
  have new: "?p \<notin> set (all_shells s)" using ok(1) by (auto simp: shells_ok_def)
  then have none: "shell s ?p = None" using ok(1) by (auto simp: shells_ok_def)
  have i: "ls_layer st < length (shells ?u)" using assms(2) ok(1) by (simp add: shells_ok_def)
  note f = all_shells_link [OF i, where p = ?p]
  have "shells_ok ?t" using ok(1) new f(1,2) as by (auto simp: t shells_ok_def)
  moreover have "tree_ok ?t" using ok(2) by (auto simp: t tree_ok_def)
  moreover have "same_panels s ?t"
    by (rule same_panels_one [where p = ?p]) (use f(3) as none in \<open>simp_all add: t reserves_def core_def\<close>)
  moreover have "kept_or_placed (\<lambda>_. True) s ?t" by (rule kept_one [where p = ?p]) (auto simp: t)
  ultimately show ?thesis using good_same_panels [OF assms(1)] by blast
qed

lemma layer_destroy_good:
  assumes "layer_good s"
  shows "layer_good (layer_shell_handle_destroy p s)"
proof (cases "shell s p")
  case None
  then show ?thesis using assms by (simp add: layer_shell_handle_destroy_def)
next
  case (Some sh)
  let ?t = "(unlink_shell p s)\<lparr>shell := (shell s)(p := None)\<rparr>"
  note ok = layer_good_parts [OF assms]
  have as: "all_shells ?t = removeAll p (all_shells s)" by (simp add: all_shells_def unlink_shell_def concat_removeAll)
  have t: "shells_ok ?t" "tree_ok ?t" using ok by (auto simp: shells_ok_def as distinct_removeAll tree_ok_def)
  have k: "kept_or_placed P s ?t" for P by (rule kept_one [where p = p]) auto
  show ?thesis
  proof (cases "exclusive_zone (sh_state sh) > 0 \<and> sh_mapped sh")
    case True
    then show ?thesis using good_update [OF assms t k] Some by (simp add: layer_shell_handle_destroy_def Let_def)
  next
    case False
    then have "same_panels s ?t"
      by (intro same_panels_one [where p = p]) (use Some as in \<open>auto simp: reserves_def core_def filter_removeAll_other\<close>)
    then show ?thesis using good_same_panels [OF assms t _ k] False Some by (auto simp: layer_shell_handle_destroy_def Let_def)
  qed
qed

lemma unmap_good:
  assumes "layer_good s"
  shows "layer_good (layer_handle (UnmapSurface p) s)"
proof (cases "shell s p")
  case None
  then have "upd_shell p (\<lambda>sh. sh\<lparr>sh_mapped := False\<rparr>) s = s" by (simp add: upd_shell_def fun_upd_idem)
  then show ?thesis using assms None by (simp add: layer_shell_handle_unmap_def)
next
  case (Some sh)
  let ?t = "upd_shell p (\<lambda>sh. sh\<lparr>sh_mapped := False\<rparr>) s"
  note ok = layer_good_parts [OF assms]
  have t: "shells_ok ?t" "tree_ok ?t" using ok Some by (auto simp: shells_ok_def tree_ok_def)
  have k: "kept_or_placed P s ?t" for P by (rule kept_one [where p = p]) (auto simp: Some)
  show ?thesis
  proof (cases "exclusive_zone (sh_state sh) > 0")
    case True
    then show ?thesis using good_update [OF assms t k] Some by (simp add: layer_shell_handle_unmap_def)
  next
    case False
    then have "same_panels s ?t"
      by (intro same_panels_one [where p = p]) (use Some in \<open>auto simp: reserves_def core_def\<close>)
    then show ?thesis using good_same_panels [OF assms t _ k] False Some by (simp add: layer_shell_handle_unmap_def)
  qed
qed

text \<open>A new state of a surface, its move to its layer, and what \<^verbatim>\<open>layer_shell_configure_surface\<close> does then.\<close>

lemma moved_facts:
  fixes p :: nat
  assumes s: "layer_good s" and l: "\<And>sh. ls_layer (sh_state (g sh)) < 4"
  defines "u \<equiv> layer_shell_update_layer p (upd_shell p g s)"
  shows "shells_ok u" "tree_ok u" "shell u q = (if q = p then map_option (\<lambda>sh. relayer (g sh)) (shell s p) else shell s q)"
    "lo_geometry u = lo_geometry s" "lo_usable u = lo_usable s" "lo_update u = lo_update s"
    "\<not> Q p \<Longrightarrow> filter Q (all_shells u) = filter Q (all_shells s)"
proof -
  note ok = layer_good_parts [OF s]
  let ?v = "upd_shell p g s"
  have v: "shells_ok ?v" using ok(1) by (simp add: shells_ok_def)
  have lv: "\<And>sh. shell ?v p = Some sh \<Longrightarrow> ls_layer (sh_state sh) < 4" using l by auto
  note f = update_layer_facts [where p = p, OF v lv, folded u_def]
  show sh: "shell u q = (if q = p then map_option (\<lambda>sh. relayer (g sh)) (shell s p) else shell s q)" for q
    using f(2) [where q = q] by (simp add: option.map_comp comp_def)
  show "tree_ok u" using ok(2) by (auto simp: tree_ok_def sh)
  show "shells_ok u" using f(1) by simp
  show "lo_geometry u = lo_geometry s" "lo_usable u = lo_usable s" "lo_update u = lo_update s" using f(3-5) by simp_all
  show "filter Q (all_shells u) = filter Q (all_shells s)" if "\<not> Q p" using f(7) [of Q] that by simp
qed

lemma configured_ok: "shells_ok (upd_shell p (boxed u a) t) = shells_ok t" "tree_ok t \<Longrightarrow> tree_ok (upd_shell p (boxed u a) t)"
    "core (upd_shell p (boxed u a) t) = core t"
  by (auto simp: shells_ok_def tree_ok_def core_def fun_eq_iff option.map_comp comp_def)

lemma boxed_plain: "sh_dde sh = None \<Longrightarrow> sh_box (boxed u a sh) = Some (place_surface (sh_state sh) (lo_geometry u) a)"
  by (simp add: boxed_def Let_def)

text \<open>A surface that is no panel of the output gets a new state and a place.\<close>

lemma configured_good:
  fixes p :: nat
  assumes s: "layer_good s" and l: "\<And>sh. ls_layer (sh_state (g sh)) < 4"
  defines "u \<equiv> layer_shell_update_layer p (upd_shell p g s)"
  assumes n: "\<not> reserves s p" "\<not> reserves u p"
  shows "layer_good (upd_shell p (boxed u (lo_usable u)) u)"
proof -
  let ?t = "upd_shell p (boxed u (lo_usable u)) u"
  note f = moved_facts [where s = s and g = g and p = p, OF s l, folded u_def]
  have r: "reserves ?t q = reserves u q" for q by (simp add: reserves_def configured_ok(3))
  have "same_panels s ?t"
    by (rule same_panels_one [where p = p]) (use f(3-7) n r in simp_all)
  moreover have "kept_or_placed (\<lambda>_. True) s ?t"
  proof (rule kept_one [where p = p])
    show "exclusive_zone (sh_state sh) \<le> 0 \<and> sh_box sh = Some (place_surface (sh_state sh) (lo_geometry s) (lo_usable s))"
      if a: "shell ?t p = Some sh" "sh_mapped sh" "sh_dde sh = None" for sh
    proof -
      obtain sh0 where u: "shell u p = Some sh0" "sh = boxed u (lo_usable u) sh0" using a(1) by auto
      then have "exclusive_zone (sh_state sh) \<le> 0" using n(2) a(2) by (simp add: reserves_def core_def)
      then show ?thesis using u(2) a(3) boxed_plain [of sh0 u "lo_usable u"] f(4,5) by simp
    qed
  qed (use f(3-5) in simp_all)
  ultimately show ?thesis using good_same_panels [OF s] configured_ok(1,2) f(1,2) by blast
qed

lemma commit_good:
  assumes s: "layer_good s" and c: "layer_possible (Commit p c st) s"
  shows "layer_good (layer_handle (Commit p c st) s)"
proof (cases "shell s p")
  case None
  then have "upd_shell p (\<lambda>sh. sh\<lparr>sh_state := st\<rparr>) s = s" by (simp add: upd_shell_def fun_upd_idem)
  then show ?thesis using s None by (simp add: layer_shell_handle_commit_def layer_shell_update_layer_def)
next
  case (Some sh)
  let ?g = "\<lambda>sh. sh\<lparr>sh_state := st\<rparr>"
  let ?u = "layer_shell_update_layer p (upd_shell p ?g s)"
  let ?t = "upd_shell p (boxed ?u (lo_usable ?u)) ?u"
  have l: "\<And>sh. ls_layer (sh_state (?g sh)) < 4" using c by simp
  note f = moved_facts [where s = s and g = ?g and p = p, OF s l]
  have u: "shell ?u p = Some (relayer (?g sh))" using f(3) [where q = p] Some by simp
  show ?thesis
  proof (cases "sh_mapped sh")
    case False
    have "\<not> reserves s p" "\<not> reserves ?u p" using False Some u by (simp_all add: reserves_def core_def)
    then have "layer_good ?t" by (rule configured_good [of s ?g p, OF s l])
    moreover have "core ?u p = Some (st, False)" using u False by (simp add: core_def)
    then have "take_zone (core ?u p) (lo_usable ?u) = lo_usable ?u" by (simp add: take_zone_def)
    then have "layer_handle (Commit p c st) s = ?t"
      using u False by (simp add: layer_shell_handle_commit_def configure_surface_eq Let_def)
    ultimately show ?thesis by simp
  next
    case True
    show ?thesis
    proof (cases c)
      case True
      have "kept_or_placed (\<lambda>z. z \<le> 0) s ?t"
      proof (rule kept_one [where p = p])
        show "exclusive_zone (sh_state sh') \<le> 0 \<and> sh_box sh' = Some (place_surface (sh_state sh') (lo_geometry s) (lo_usable s))"
          if a: "shell ?t p = Some sh'" "sh_dde sh' = None" "zone_is (\<lambda>z. z \<le> 0) sh'" for sh'
        proof -
          have "sh' = boxed ?u (lo_usable ?u) (relayer (?g sh))" using a(1) u by simp
          then show ?thesis using a(2,3) boxed_plain [of "relayer (?g sh)" ?u "lo_usable ?u"] f(4,5) by (simp add: zone_is_def)
        qed
      qed (use f(3-5) in simp_all)
      then have "layer_good (layer_update_usable_area ?t)" using good_update [OF s] configured_ok(1,2) f(1,2) by blast
      moreover have "layer_handle (Commit p c st) s = layer_update_usable_area ?t"
        using True u \<open>sh_mapped sh\<close> by (simp add: layer_shell_handle_commit_def configure_surface_eq Let_def)
      ultimately show ?thesis by simp
    next
      case False
      then have "sh_state sh = st" using c Some \<open>sh_mapped sh\<close> by simp
      then have v: "upd_shell p ?g s = s" using Some by (auto simp: upd_shell_def fun_upd_idem)
      have "?u = s" using layer_good_parts(2) [OF s] Some by (simp add: v layer_shell_update_layer_def tree_ok_def Let_def)
      then show ?thesis using False s Some \<open>sh_mapped sh\<close> by (simp add: layer_shell_handle_commit_def Let_def)
    qed
  qed
qed

lemma map_good:
  assumes s: "layer_good s" and c: "layer_possible (MapSurface p st) s"
  shows "layer_good (layer_handle (MapSurface p st) s)"
proof -
  obtain sh where sh: "shell s p = Some sh" "\<not> sh_mapped sh" using c by auto
  let ?g = "\<lambda>sh. sh\<lparr>sh_state := st, sh_mapped := True\<rparr>"
  let ?u = "layer_shell_update_layer p (upd_shell p ?g s)"
  have l: "\<And>sh. ls_layer (sh_state (?g sh)) < 4" using c by simp
  note f = moved_facts [where s = s and g = ?g and p = p, OF s l]
  have u: "shell ?u p = Some (relayer (?g sh))" using f(3) [where q = p] sh(1) by simp
  show ?thesis
  proof (cases "exclusive_zone st > 0")
    case True
    have "kept_or_placed (\<lambda>z. z \<le> 0) s ?u" by (rule kept_one [where p = p]) (use f(3-5) u True in \<open>auto simp: zone_is_def\<close>)
    then have "layer_good (layer_update_usable_area ?u)" using good_update [OF s f(1,2)] by blast
    then show ?thesis using u True by (simp add: layer_shell_handle_map_def Let_def)
  next
    case False
    let ?t = "upd_shell p (boxed ?u (lo_usable ?u)) ?u"
    have "\<not> reserves s p" "\<not> reserves ?u p" using False sh u by (simp_all add: reserves_def core_def)
    then have "layer_good ?t" by (rule configured_good [of s ?g p, OF s l])
    moreover have "core ?u p = Some (st, True)" using u by (simp add: core_def)
    then have "take_zone (core ?u p) (lo_usable ?u) = lo_usable ?u" using False by (simp add: take_zone_def)
    then have "layer_handle (MapSurface p st) s = ?t"
      using u False by (simp add: layer_shell_handle_map_def configure_surface_eq Let_def)
    ultimately show ?thesis by simp
  qed
qed

lemma place_good:
  assumes s: "layer_good s"
  shows "layer_good (layer_handle (Place p d) s)"
proof -
  let ?v = "upd_shell p (\<lambda>sh. sh\<lparr>sh_dde := Some d\<rparr>) s"
  let ?t = "layer_handle (Place p d) s"
  have "?t = ?v \<or> ?t = upd_shell p (boxed ?v (lo_usable ?v)) ?v"
    by (simp add: wlr_layer_shell_reconfigure_surface_def configure_surface_eq split: option.split)
  then obtain g where g: "?t = upd_shell p g s" "\<And>sh. sh_dde (g sh) = Some d" "\<And>sh. sh_state (g sh) = sh_state sh"
      "\<And>sh. sh_mapped (g sh) = sh_mapped sh" "\<And>sh. tree_layer (g sh) = tree_layer sh"
  proof
    assume "?t = ?v"
    then show ?thesis by (intro that [of "\<lambda>sh. sh\<lparr>sh_dde := Some d\<rparr>"]) simp_all
  next
    assume "?t = upd_shell p (boxed ?v (lo_usable ?v)) ?v"
    moreover have "upd_shell p h (upd_shell p k s) = upd_shell p (\<lambda>sh. h (k sh)) s" for h k
      by (simp add: upd_shell_def option.map_comp comp_def)
    ultimately show ?thesis by (intro that [of "\<lambda>sh. boxed ?v (lo_usable ?v) (sh\<lparr>sh_dde := Some d\<rparr>)"]) simp_all
  qed
  note ok = layer_good_parts [OF s]
  have "core (upd_shell p g s) = core s" using g(3,4) by (auto simp: core_def fun_eq_iff option.map_comp comp_def)
  then have "same_panels s (upd_shell p g s)" by (simp add: same_panels_def reserves_def [abs_def])
  moreover have "kept_or_placed (\<lambda>_. True) s (upd_shell p g s)" by (rule kept_one [where p = p]) (use g(2) in auto)
  moreover have "shells_ok (upd_shell p g s)" "tree_ok (upd_shell p g s)" using ok g(3,5) by (auto simp: shells_ok_def tree_ok_def)
  ultimately show ?thesis unfolding g(1) using good_same_panels [OF s] by blast
qed

lemma other_panels_good:
  assumes s: "layer_good s"
  shows "layer_good (layer_handle (OtherPanels f) s)"
proof -
  let ?t = "s\<lparr>lo_update := f\<rparr>"
  have as: "all_shells ?t = all_shells s" by (simp add: all_shells_def)
  have "shells_ok ?t" "tree_ok ?t" using layer_good_parts [OF s] as by (simp_all add: shells_ok_def tree_ok_def)
  moreover have "kept_or_placed (\<lambda>z. z \<le> 0) s ?t" by (auto simp: kept_or_placed_def)
  ultimately show ?thesis using good_update [OF s] by simp
qed

lemma cursor_good: "layer_good s \<Longrightarrow> layer_good (layer_handle (CursorMoved x y) s)"
proof -
  assume s: "layer_good s"
  let ?t = "s\<lparr>lo_cursor := (x, y)\<rparr>"
  have "shells_ok ?t" "tree_ok ?t" using layer_good_parts [OF s] by (simp_all add: shells_ok_def tree_ok_def all_shells_def)
  moreover have "same_panels s ?t" by (simp add: same_panels_def reserves_def [abs_def] core_def all_shells_def)
  moreover have "kept_or_placed (\<lambda>_. True) s ?t" by (auto simp: kept_or_placed_def)
  ultimately show ?thesis using good_same_panels [OF s] by simp
qed

text \<open>A new geometry: panels are placed first, then the surfaces that cover the output, then those in the usable area.\<close>

lemma geometry_good:
  assumes s: "layer_good s"
  shows "layer_good (layer_new_geometry geo s)"
proof (cases "lo_geometry s = geo")
  case True
  then show ?thesis using s by (simp add: layer_new_geometry_def kywc_box_equal_iff)
next
  case False
  let ?g = "s\<lparr>lo_geometry := geo\<rparr>"
  note ok = layer_good_parts [OF s]
  have g: "shells_ok ?g" "tree_ok ?g" using ok by (simp_all add: shells_ok_def tree_ok_def all_shells_def)
  let ?a = "positive_size (left_area ?g (all_shells ?g))"
  obtain t where t: "do_update_usable_area ?g = (?a, t)" "same_layout ?g t" "lo_usable t = lo_usable ?g" "\<And>p. placed (\<lambda>z. z > 0) t p"
      "\<And>p sh. shell t p = Some sh \<Longrightarrow> \<not> exclusive_zone (sh_state sh) > 0 \<Longrightarrow> shell ?g p = Some sh"
    by (rule panels_placed [OF g(1)]) blast
  let ?w = "t\<lparr>lo_usable := ?a\<rparr>"
  let ?n = "relayout (\<lambda>z. z < 0) ?w"
  have sw: "same_layout t ?w" by (auto simp: same_layout_def core_def fun_eq_iff)
  have okw: "shells_ok ?w" using same_layout_simps(4) [OF sw] same_layout_simps(4) [OF t(2)] g(1) by simp
  note n = others_placed [where P = "\<lambda>z. z < 0", OF okw neg_nonpos]
  have sn: "same_layout t ?n" by (rule same_layout_trans [OF sw n(1)])
  note fn = same_layout_simps [OF sn]
  have okn: "shells_ok ?n" using fn(4) same_layout_simps(4) [OF t(2)] g(1) by simp
  have pos: "placed (\<lambda>z. z > 0) ?n p" for p
    by (rule placed_keep [OF t(4)]) (use n(4) fn(1-3) in \<open>auto simp: zone_is_def own_area_def\<close>)
  have i: "\<And>p. placed (\<lambda>_. True) s p" using s by (auto simp: layer_good_def layer_inv_def)
  have fin: "layer_good v" if v: "same_layout ?n v" "lo_usable v = ?a" "\<And>p. placed (\<lambda>_. True) v p" for v
  proof -
    have gv: "same_layout ?g v" by (rule same_layout_trans [OF t(2) same_layout_trans [OF sn v(1)]])
    show ?thesis using v(2,3) same_layout_simps [OF gv] tree_same [OF gv g(2)] g(1) by (simp add: layer_good_def layer_inv_def)
  qed
  show ?thesis
  proof (cases "lo_usable s = ?a")
    case True
    then have w: "?w = t" using t(3) by simp
    have "layer_new_geometry geo s = relayout (\<lambda>z. z < 0) t"
      using False True t(1,3) by (simp add: layer_new_geometry_def kywc_box_equal_iff handle_output_geometry_def relayout_def)
    then have r: "layer_new_geometry geo s = ?n" by (simp only: w)
    have "placed (\<lambda>z. z = 0) ?n p" for p
    proof (unfold placed_def, intro allI impI)
      fix sh
      assume sh: "shell ?n p = Some sh" "sh_mapped sh" "sh_dde sh = None" "zone_is (\<lambda>z. z = 0) sh"
      have "shell s p = Some sh" using n(4) [OF _ sh(1)] t(5) [of p sh] sh(4) by (simp add: zone_is_def)
      then have "sh_box sh = Some (place_surface (sh_state sh) (lo_geometry s) (lo_usable s))"
        using i [of p] sh(2-4) by (simp add: placed_def zone_is_def own_area_def)
      moreover have "place_surface (sh_state sh) (lo_geometry s) (lo_usable s) = place_surface (sh_state sh) (lo_geometry ?n) (lo_usable s)"
        by (rule place_usable) (use sh(4) in \<open>simp add: zone_is_def\<close>)
      ultimately show "sh_box sh = Some (place_surface (sh_state sh) (lo_geometry ?n) (own_area ?n p (sh_state sh)))"
        using sh(4) n(2) True by (simp add: zone_is_def own_area_def)
    qed
    then have "placed (\<lambda>_. True) ?n p" for p using placed_cases [OF pos _ n(3)] by blast
    then show ?thesis unfolding r by (intro fin) (use n(2) in \<open>auto simp: same_layout_def\<close>)
  next
    case False
    let ?v = "relayout (\<lambda>z. z = 0) ?n"
    note v = others_placed [where P = "\<lambda>z. z = 0", OF okn zero_nonpos]
    have r: "layer_new_geometry geo s = ?v" using False \<open>lo_geometry s \<noteq> geo\<close> t(1,3)
      by (simp add: layer_new_geometry_def kywc_box_equal_iff handle_output_geometry_def handle_output_usable_area_def relayout_def)
    note fv = same_layout_simps [OF v(1)]
    have "placed (\<lambda>z. z > 0) ?v p" for p
      by (rule placed_keep [OF pos]) (use v(4) fv(1-3) in \<open>auto simp: zone_is_def own_area_def\<close>)
    moreover have "placed (\<lambda>z. z < 0) ?v p" for p
      by (rule placed_keep [OF n(3)]) (use v(4) fv(1-3) in \<open>auto simp: zone_is_def\<close>)
    ultimately have "placed (\<lambda>_. True) ?v p" for p using placed_cases [OF _ v(3)] by blast
    then show ?thesis unfolding r by (intro fin) (use v n(2) in auto)
  qed
qed

subsection \<open>Every run\<close>

lemma new_output_good: "layer_good (layer_handle_new_output geo)"
  by (simp add: layer_good_def layer_inv_def tree_ok_def shells_ok_def layer_handle_new_output_def all_shells_def left_area_def placed_def)

lemma event_good:
  assumes "layer_good s" "layer_possible e s"
  shows "layer_good (layer_handle e s)"
proof (cases e)
  case (Commit p c st)
  then show ?thesis using commit_good assms by blast
next
  case (MapSurface p st)
  then show ?thesis using map_good assms by blast
next
  case (UnmapSurface p)
  then show ?thesis using unmap_good assms(1) by blast
next
  case (Place p d)
  then show ?thesis using place_good assms(1) by blast
next
  case (OtherPanels f)
  then show ?thesis using other_panels_good assms(1) by blast
next
  case (CursorMoved x y)
  then show ?thesis using cursor_good assms(1) by blast
qed (use assms in \<open>auto intro: new_surface_good layer_destroy_good geometry_good\<close>)

interpretation layer_steps: step_invariant "\<lambda>_. True" "\<lambda>_ s t. \<exists>e. layer_possible e s \<and> t = layer_handle e s" layer_good
  by unfold_locales (auto intro: event_good)

lemma layer_run_steps: "layer_run geo s \<Longrightarrow> (\<lambda>s t. \<exists>e. layer_possible e s \<and> t = layer_handle e s)\<^sup>*\<^sup>* (layer_handle_new_output geo) s"
  by (induction rule: layer_run.induct) (auto intro: rtranclp.rtrancl_into_rtrancl)

lemma layer_run_good: "layer_run geo s \<Longrightarrow> layer_good s"
  by (rule layer_steps.steps_keep [OF layer_run_steps TrueI new_output_good])

text \<open>C22: after every run of events of the layer shell on an enabled output, the usable area of the output is what a fresh pass over the mapped
  panels leaves of it, and each mapped surface with no placement of the desktop shell and an exclusive zone of at least
  -1 sits where a fresh layout would put it: a panel in the area the panels before it leave, another surface in the
  usable area or, with zone -1, in the whole output.\<close>

theorem layers_always_arranged:
  assumes "layer_run geo s"
  shows "lo_usable s = positive_size (left_area s (all_shells s)) \<and>
    (\<forall>p sh. shell s p = Some sh \<longrightarrow> sh_mapped sh \<longrightarrow> sh_dde sh = None \<longrightarrow> -1 \<le> exclusive_zone (sh_state sh) \<longrightarrow>
      sh_box sh = Some (place_surface (sh_state sh) (lo_geometry s) (own_area s p (sh_state sh))))"
  using layer_run_good [OF assms] by (auto simp: layer_good_def layer_inv_def placed_def zone_is_def)

subsection \<open>Panels and the usable area\<close>

lemma bounded_zone_range: "0 \<le> h \<Longrightarrow> 0 \<le> bounded_exclusive_zone z m h \<and> bounded_exclusive_zone z m h \<le> h"
    "0 \<le> h \<Longrightarrow> bounded_exclusive_zone z m h = h \<or> z + m \<le> bounded_exclusive_zone z m h"
  by (auto simp: bounded_exclusive_zone_def Let_def)

definition flat :: "kywc_box \<Rightarrow> bool" where
  "flat b \<longleftrightarrow> 0 \<le> box_width b \<and> 0 \<le> box_height b"

lemma zone_inside: "flat b \<Longrightarrow> box_inside (layer_surface_exclusive_zone st b) b \<and> flat (layer_surface_exclusive_zone st b)"
  using bounded_zone_range by (auto simp: flat_def layer_surface_exclusive_zone_def box_inside_def Let_def)

lemma box_inside_trans: "box_inside a b \<Longrightarrow> box_inside b c \<Longrightarrow> box_inside a c"
  by (auto simp: box_inside_def)

lemma take_zone_inside: "flat b \<Longrightarrow> box_inside (take_zone c b) b \<and> flat (take_zone c b)"
  using zone_inside by (auto simp: take_zone_def box_inside_def split: option.split)

lemma area_after_inside: "flat b \<Longrightarrow> box_inside (area_after c ps b) b \<and> flat (area_after c ps b)"
proof (induction ps arbitrary: b)
  case Nil
  then show ?case by (simp add: box_inside_def)
next
  case (Cons p ps)
  have "box_inside (area_after c ps (take_zone (c p) b)) (take_zone (c p) b) \<and> flat (area_after c ps (take_zone (c p) b))"
    using Cons take_zone_inside by blast
  then show ?case using take_zone_inside [OF Cons.prems] box_inside_trans by auto
qed

lemma area_after_append: "area_after c (ps @ qs) a = area_after c qs (area_after c ps a)"
  by (induction ps arbitrary: a) auto

lemma flat_positive: "flat (positive_size b)" "flat b \<Longrightarrow> positive_size b = b"
  by (auto simp: flat_def positive_size_def)

text \<open>A panel at one edge that is no thicker than the zone it asks for.\<close>

definition edge_panel :: "layer_surface_state \<Rightarrow> bool" where
  "edge_panel st \<longleftrightarrow> 0 < exclusive_zone st \<and>
     (anchor st \<in> {ANCHOR_TOP, or ANCHOR_TOP (or ANCHOR_LEFT ANCHOR_RIGHT), ANCHOR_BOTTOM, or ANCHOR_BOTTOM (or ANCHOR_LEFT ANCHOR_RIGHT)} \<and>
        0 < desired_height st \<and> desired_height st \<le> exclusive_zone st \<or>
      anchor st \<in> {ANCHOR_LEFT, or ANCHOR_TOP (or ANCHOR_BOTTOM ANCHOR_LEFT), ANCHOR_RIGHT, or ANCHOR_TOP (or ANCHOR_BOTTOM ANCHOR_RIGHT)} \<and>
        0 < desired_width st \<and> desired_width st \<le> exclusive_zone st)"

lemmas anchor_defs = ANCHOR_TOP_def ANCHOR_BOTTOM_def ANCHOR_LEFT_def ANCHOR_RIGHT_def

lemma place_surface_simps:
  assumes "exclusive_zone st \<noteq> -1"
  shows "box_y (place_surface st g a) = fst (place_axis (desired_height st) (has_anchor st ANCHOR_TOP) (has_anchor st ANCHOR_BOTTOM) (margin_top st) (margin_bottom st) (box_y a) (box_height a))"
    "box_height (place_surface st g a) = snd (place_axis (desired_height st) (has_anchor st ANCHOR_TOP) (has_anchor st ANCHOR_BOTTOM) (margin_top st) (margin_bottom st) (box_y a) (box_height a))"
    "box_x (place_surface st g a) = fst (place_axis (desired_width st) (has_anchor st ANCHOR_LEFT) (has_anchor st ANCHOR_RIGHT) (margin_left st) (margin_right st) (box_x a) (box_width a))"
    "box_width (place_surface st g a) = snd (place_axis (desired_width st) (has_anchor st ANCHOR_LEFT) (has_anchor st ANCHOR_RIGHT) (margin_left st) (margin_right st) (box_x a) (box_width a))"
  using assms by (simp_all add: place_surface_def Let_def split: prod.split)

lemma boxes_apart:
  assumes "box_y b + box_height b \<le> box_y c \<or> box_y c + box_height c \<le> box_y b \<or> box_x b + box_width b \<le> box_x c \<or>
    box_x c + box_width c \<le> box_x b \<or> box_height c \<le> 0 \<or> box_width c \<le> 0"
  shows "box_points b \<inter> box_points c = {}"
  using assms by (auto simp: box_points_def kywc_box_contains_point_def)

lemma panel_clear:
  assumes "edge_panel st" "flat a"
  shows "box_points (place_surface st g a) \<inter> box_points (layer_surface_exclusive_zone st a) = {}"
proof (rule boxes_apart)
  let ?b = "place_surface st g a" and ?c = "layer_surface_exclusive_zone st a"
  have z: "exclusive_zone st \<noteq> -1" using assms(1) by (simp add: edge_panel_def)
  have r: "bounded_exclusive_zone (exclusive_zone st) m h = h \<or> exclusive_zone st + m \<le> bounded_exclusive_zone (exclusive_zone st) m h"
    if "0 \<le> h" for m h using bounded_zone_range(2) that by blast
  have h: "0 \<le> box_height a" "0 \<le> box_width a" using assms(2) by (simp_all add: flat_def)
  note s = place_surface_simps [OF z]
  consider "anchor st = ANCHOR_TOP \<or> anchor st = or ANCHOR_TOP (or ANCHOR_LEFT ANCHOR_RIGHT)" "0 < desired_height st" "desired_height st \<le> exclusive_zone st"
    | "anchor st = ANCHOR_BOTTOM \<or> anchor st = or ANCHOR_BOTTOM (or ANCHOR_LEFT ANCHOR_RIGHT)" "0 < desired_height st" "desired_height st \<le> exclusive_zone st"
    | "anchor st = ANCHOR_LEFT \<or> anchor st = or ANCHOR_TOP (or ANCHOR_BOTTOM ANCHOR_LEFT)" "0 < desired_width st" "desired_width st \<le> exclusive_zone st"
    | "anchor st = ANCHOR_RIGHT \<or> anchor st = or ANCHOR_TOP (or ANCHOR_BOTTOM ANCHOR_RIGHT)" "0 < desired_width st" "desired_width st \<le> exclusive_zone st"
    using assms(1) unfolding edge_panel_def by blast
  then show "box_y ?b + box_height ?b \<le> box_y ?c \<or> box_y ?c + box_height ?c \<le> box_y ?b \<or> box_x ?b + box_width ?b \<le> box_x ?c \<or>
    box_x ?c + box_width ?c \<le> box_x ?b \<or> box_height ?c \<le> 0 \<or> box_width ?c \<le> 0"
  proof cases
    case 1
    have "has_anchor st ANCHOR_TOP" "\<not> has_anchor st ANCHOR_BOTTOM" using 1(1) by (auto simp: has_anchor_def anchor_defs)
    then have "box_y ?b = box_y a + margin_top st" "box_height ?b = desired_height st" using 1(2) by (simp_all add: s place_axis_def)
    moreover have "?c = a\<lparr>box_y := box_y a + bounded_exclusive_zone (exclusive_zone st) (margin_top st) (box_height a),
        box_height := box_height a - bounded_exclusive_zone (exclusive_zone st) (margin_top st) (box_height a)\<rparr>"
      using 1(1) by (simp add: layer_surface_exclusive_zone_def Let_def)
    ultimately show ?thesis using r [OF h(1), of "margin_top st"] 1(3) by auto
  next
    case 2
    have "\<not> has_anchor st ANCHOR_TOP" "has_anchor st ANCHOR_BOTTOM" using 2(1) by (auto simp: has_anchor_def anchor_defs)
    then have "box_y ?b = box_y a + box_height a - desired_height st - margin_bottom st" using 2(2) by (simp add: s place_axis_def)
    moreover have "?c = a\<lparr>box_height := box_height a - bounded_exclusive_zone (exclusive_zone st) (margin_bottom st) (box_height a)\<rparr>"
      using 2(1) by (auto simp: layer_surface_exclusive_zone_def Let_def anchor_defs)
    ultimately show ?thesis using r [OF h(1), of "margin_bottom st"] 2(3) by auto
  next
    case 3
    have "has_anchor st ANCHOR_LEFT" "\<not> has_anchor st ANCHOR_RIGHT" using 3(1) by (auto simp: has_anchor_def anchor_defs)
    then have "box_x ?b = box_x a + margin_left st" "box_width ?b = desired_width st" using 3(2) by (simp_all add: s place_axis_def)
    moreover have "?c = a\<lparr>box_x := box_x a + bounded_exclusive_zone (exclusive_zone st) (margin_left st) (box_width a),
        box_width := box_width a - bounded_exclusive_zone (exclusive_zone st) (margin_left st) (box_width a)\<rparr>"
      using 3(1) by (auto simp: layer_surface_exclusive_zone_def Let_def anchor_defs)
    ultimately show ?thesis using r [OF h(2), of "margin_left st"] 3(3) by auto
  next
    case 4
    have "\<not> has_anchor st ANCHOR_LEFT" "has_anchor st ANCHOR_RIGHT" using 4(1) by (auto simp: has_anchor_def anchor_defs)
    then have "box_x ?b = box_x a + box_width a - desired_width st - margin_right st" using 4(2) by (simp add: s place_axis_def)
    moreover have "?c = a\<lparr>box_width := box_width a - bounded_exclusive_zone (exclusive_zone st) (margin_right st) (box_width a)\<rparr>"
      using 4(1) by (auto simp: layer_surface_exclusive_zone_def Let_def anchor_defs)
    ultimately show ?thesis using r [OF h(2), of "margin_right st"] 4(3) by auto
  qed
qed

lemma usable_after_panel:
  assumes "layer_good s" "shell s p = Some sh" "sh_mapped sh" "exclusive_zone (sh_state sh) > 0"
  shows "box_inside (lo_usable s) (layer_surface_exclusive_zone (sh_state sh) (own_area s p (sh_state sh)))" "flat (own_area s p (sh_state sh))"
proof -
  have i: "shells_ok s" "lo_usable s = positive_size (left_area s (all_shells s))" using assms(1) by (auto simp: layer_good_def layer_inv_def)
  have "p \<in> set (all_shells s)" using i(1) assms(2) by (simp add: shells_ok_def)
  then obtain ys qs where y: "all_shells s = ys @ p # qs" "p \<notin> set ys" by (blast dest: split_list_first)
  have "takeWhile (\<lambda>q. q \<noteq> p) (ys @ p # qs) = ys @ takeWhile (\<lambda>q. q \<noteq> p) (p # qs)" by (rule takeWhile_append2) (use y(2) in auto)
  then have qs: "all_shells s = takeWhile (\<lambda>q. q \<noteq> p) (all_shells s) @ p # qs" using y(1) by simp
  let ?b = "positive_size (lo_update s (lo_geometry s))" and ?o = "own_area s p (sh_state sh)"
  have o: "?o = area_after (core s) (takeWhile (\<lambda>q. q \<noteq> p) (all_shells s)) ?b" using assms(4) by (simp add: own_area_def left_area_def)
  show f: "flat ?o" unfolding o using area_after_inside [OF flat_positive(1)] by blast
  have c: "take_zone (core s p) = layer_surface_exclusive_zone (sh_state sh)" using assms(2-4) by (auto simp: take_zone_def core_def)
  have "left_area s (all_shells s) = area_after (core s) qs (layer_surface_exclusive_zone (sh_state sh) ?o)"
    unfolding left_area_def by (subst qs) (simp add: area_after_append c o)
  then show "box_inside (lo_usable s) (layer_surface_exclusive_zone (sh_state sh) ?o)"
    using area_after_inside [of "layer_surface_exclusive_zone (sh_state sh) ?o" "core s" qs] zone_inside [OF f] by (simp add: i(2) flat_positive(2))
qed

text \<open>C23: in every run, a mapped panel at an edge that is no thicker than its exclusive zone and that the desktop shell
  has not placed never covers a part of the usable area, whatever margins it asks for, however many panels there are and however little of the output is left.\<close>

theorem panels_clear_of_usable_area:
  assumes "layer_run geo s" "shell s p = Some sh" "sh_mapped sh" "sh_dde sh = None" "edge_panel (sh_state sh)"
  shows "\<exists>b. sh_box sh = Some b \<and> box_points b \<inter> box_points (lo_usable s) = {}"
proof -
  have g: "layer_good s" by (rule layer_run_good [OF assms(1)])
  have z: "exclusive_zone (sh_state sh) > 0" using assms(5) by (simp add: edge_panel_def)
  note u = usable_after_panel [OF g assms(2,3) z]
  have "placed (\<lambda>_. True) s p" using g by (simp add: layer_good_def layer_inv_def)
  then have "sh_box sh = Some (place_surface (sh_state sh) (lo_geometry s) (own_area s p (sh_state sh)))"
    using assms(2-4) z by (simp add: placed_def zone_is_def)
  then show ?thesis using panel_clear [OF assms(5) u(2), of "lo_geometry s"] box_inside_points [OF u(1)] by auto
qed

subsection \<open>An example run\<close>

text \<open>A screen with a dock at the bottom, forty pixels high.\<close>

definition dock_state :: layer_surface_state where
  "dock_state = \<lparr>anchor = or ANCHOR_BOTTOM (or ANCHOR_LEFT ANCHOR_RIGHT), exclusive_zone = 40, margin_top = 0, margin_bottom = 0, margin_left = 0,
     margin_right = 0, desired_width = 0, desired_height = 40, ls_layer = 2\<rparr>"

definition example_screen :: kywc_box where
  "example_screen = \<lparr>box_x = 0, box_y = 0, box_width = 1920, box_height = 1080\<rparr>"

definition example_layers :: layer_output where
  "example_layers = layer_handle (MapSurface 0 dock_state) (layer_handle (NewSurface dock_state) (layer_handle_new_output example_screen))"

lemma example_layers_run: "layer_run example_screen example_layers"
proof -
  let ?s = "layer_handle (NewSurface dock_state) (layer_handle_new_output example_screen)"
  have "layer_possible (NewSurface dock_state) (layer_handle_new_output example_screen)" by (simp add: dock_state_def)
  then have "layer_run example_screen ?s" by (intro layer_run.intros)
  moreover have "layer_possible (MapSurface 0 dock_state) ?s"
    by (simp add: dock_state_def handle_new_layer_surface_def Let_def layer_handle_new_output_def)
  ultimately show ?thesis unfolding example_layers_def by (rule layer_run.Event)
qed

lemma example_layers_dock:
  "shell example_layers 0 = Some \<lparr>sh_state = dock_state, sh_mapped = True, tree_layer = 2, sh_dde = None,
     sh_box = Some \<lparr>box_x = 0, box_y = 1040, box_width = 1920, box_height = 40\<rparr>\<rparr>"
  "lo_usable example_layers = \<lparr>box_x = 0, box_y = 0, box_width = 1920, box_height = 1040\<rparr>"
  by code_simp+

theorem layers_always_arranged_witness:
  "lo_usable example_layers = positive_size (left_area example_layers (all_shells example_layers)) \<and>
   sh_box (the (shell example_layers 0)) = Some (place_surface dock_state (lo_geometry example_layers) (own_area example_layers 0 dock_state))"
proof -
  have z: "-1 \<le> exclusive_zone dock_state" by (simp add: dock_state_def)
  note a = layers_always_arranged [OF example_layers_run]
  have "sh_box sh = Some (place_surface (sh_state sh) (lo_geometry example_layers) (own_area example_layers 0 (sh_state sh)))"
    if "shell example_layers 0 = Some sh" "sh_mapped sh" "sh_dde sh = None" "-1 \<le> exclusive_zone (sh_state sh)" for sh
    using conjunct2 [OF a] that by blast
  from this [OF example_layers_dock(1)] show ?thesis using conjunct1 [OF a] example_layers_dock(1) z by simp
qed

theorem panels_clear_of_usable_area_witness:
  "box_points \<lparr>box_x = 0, box_y = 1040, box_width = 1920, box_height = 40\<rparr> \<inter> box_points (lo_usable example_layers) = {}"
  using panels_clear_of_usable_area [OF example_layers_run example_layers_dock(1)]
  by (simp add: dock_state_def edge_panel_def anchor_defs)

subsection \<open>The lists of the layers\<close>

text \<open>A surface is linked in the list of the layer whose tree holds it.\<close>

definition linked :: "layer_output \<Rightarrow> bool" where
  "linked s \<longleftrightarrow> (\<forall>p sh. shell s p = Some sh \<longrightarrow> tree_layer sh < length (shells s) \<and> p \<in> set (shells s ! tree_layer sh))"

lemma linked_keep:
  assumes "linked s" "shells t = shells s" "\<And>p sh. shell t p = Some sh \<Longrightarrow> \<exists>sh0. shell s p = Some sh0 \<and> tree_layer sh0 = tree_layer sh"
  shows "linked t"
proof (unfold linked_def, intro allI impI)
  fix p sh
  assume "shell t p = Some sh"
  then obtain sh0 where sh0: "shell s p = Some sh0" "tree_layer sh0 = tree_layer sh" using assms(3) by blast
  then have "tree_layer sh0 < length (shells s) \<and> p \<in> set (shells s ! tree_layer sh0)" using assms(1) unfolding linked_def by blast
  then show "tree_layer sh < length (shells t) \<and> p \<in> set (shells t ! tree_layer sh)" using sh0(2) assms(2) by simp
qed

lemma linked_upd: "linked s \<Longrightarrow> (\<And>sh. tree_layer (g sh) = tree_layer sh) \<Longrightarrow> linked (upd_shell p g s)"
  by (rule linked_keep) (auto split: if_splits)

lemma linked_same:
  assumes "linked s" "same_layout s t"
  shows "linked t"
proof (rule linked_keep [OF assms(1)])
  show "shells t = shells s" using assms(2) by (simp add: same_layout_def)
  fix p sh
  assume "shell t p = Some sh"
  moreover have "map_option (\<lambda>sh. (sh_dde sh, tree_layer sh)) (shell t p) = map_option (\<lambda>sh. (sh_dde sh, tree_layer sh)) (shell s p)"
    using assms(2) by (simp add: same_layout_def)
  ultimately show "\<exists>sh0. shell s p = Some sh0 \<and> tree_layer sh0 = tree_layer sh" by (cases "shell s p") auto
qed

lemma loop_linked: "distinct (all_shells s) \<Longrightarrow> linked s \<Longrightarrow> linked (snd (configure_loop P (all_shells s) a s))"
  using linked_same [OF _ loop_same] by (simp add: configure_loop_eq)

lemma loop_shells: "distinct ps \<Longrightarrow> shells (snd (configure_loop P ps a s)) = shells s"
  by (simp add: configure_loop_eq)

text \<open>Every loop keeps the lists, and so does what is made of them.\<close>

definition layer_lists_ok :: "layer_output \<Rightarrow> bool" where
  "layer_lists_ok s \<longleftrightarrow> distinct (all_shells s) \<and> linked s"

lemma layer_lists_ok_cong: "shells t = shells s \<Longrightarrow> shell t = shell s \<Longrightarrow> layer_lists_ok t = layer_lists_ok s"
  by (simp add: layer_lists_ok_def linked_def all_shells_def)

lemma lists_usable [simp]: "layer_lists_ok (s\<lparr>lo_usable := a\<rparr>) = layer_lists_ok s" "layer_lists_ok (s\<lparr>lo_geometry := g\<rparr>) = layer_lists_ok s"
    "layer_lists_ok (s\<lparr>lo_update := f\<rparr>) = layer_lists_ok s" "layer_lists_ok (s\<lparr>lo_cursor := c\<rparr>) = layer_lists_ok s"
  by (simp_all add: layer_lists_ok_def linked_def all_shells_def)

lemma lists_loop: "layer_lists_ok s \<Longrightarrow> layer_lists_ok (snd (configure_loop P (all_shells s) a s))"
  using loop_linked loop_shells by (simp add: layer_lists_ok_def all_shells_def)

lemma lists_relayout: "layer_lists_ok s \<Longrightarrow> layer_lists_ok (handle_output_geometry s)" "layer_lists_ok s \<Longrightarrow> layer_lists_ok (handle_output_usable_area s)"
    "layer_lists_ok s \<Longrightarrow> layer_lists_ok (snd (do_update_usable_area s))"
  using lists_loop [of s] by (simp_all add: handle_output_geometry_def handle_output_usable_area_def do_update_usable_area_def
    handle_output_update_usable_area_def split_beta)

lemma lists_update: "layer_lists_ok s \<Longrightarrow> layer_lists_ok (layer_update_usable_area s)"
  using lists_relayout(3) [of s] by (simp add: layer_update_usable_area_def lists_relayout(2) split_beta)

lemma lists_geometry: "layer_lists_ok s \<Longrightarrow> layer_lists_ok (layer_new_geometry geo s)"
  using lists_relayout(3) [of "s\<lparr>lo_geometry := geo\<rparr>"] by (simp add: layer_new_geometry_def lists_relayout(1,2) split_beta)

lemma lists_upd: "layer_lists_ok s \<Longrightarrow> (\<And>sh. tree_layer (g sh) = tree_layer sh) \<Longrightarrow> layer_lists_ok (upd_shell p g s)"
  using linked_upd by (simp add: layer_lists_ok_def)

lemma lists_configure: "layer_lists_ok s \<Longrightarrow> layer_lists_ok (snd (layer_shell_configure_surface p a s))"
  by (simp add: configure_surface_eq lists_upd)

text \<open>Linking a surface that is in no list, and moving it.\<close>

lemma linked_link:
  assumes s: "linked s" "i < length (shells s)" and t: "shells t = (shells s)[i := p # shells s ! i]"
    "\<And>q. q \<noteq> p \<Longrightarrow> shell t q = shell s q" "\<And>sh. shell t p = Some sh \<Longrightarrow> tree_layer sh = i"
  shows "linked t"
proof (unfold linked_def, intro allI impI)
  fix q sh
  assume sh: "shell t q = Some sh"
  show "tree_layer sh < length (shells t) \<and> q \<in> set (shells t ! tree_layer sh)"
  proof (cases "q = p")
    case True
    then show ?thesis using t(3) [of sh] sh s(2) by (simp add: t(1))
  next
    case False
    then have "shell s q = Some sh" using t(2) sh by simp
    then have "tree_layer sh < length (shells s)" "q \<in> set (shells s ! tree_layer sh)" using s(1) unfolding linked_def by blast+
    then show ?thesis by (cases "tree_layer sh = i") (simp_all add: t(1))
  qed
qed

lemma linked_unlink: "linked s \<Longrightarrow> linked ((unlink_shell p s)\<lparr>shell := (shell s)(p := None)\<rparr>)"
  by (auto simp: linked_def unlink_shell_def)

lemma lists_move:
  assumes ok: "shells_ok s" and li: "layer_lists_ok s" and l: "\<And>sh. shell s p = Some sh \<Longrightarrow> ls_layer (sh_state sh) < 4"
  shows "layer_lists_ok (layer_shell_update_layer p s)"
proof (cases "\<exists>sh. shell s p = Some sh \<and> tree_layer sh \<noteq> ls_layer (sh_state sh)")
  case False
  then have "layer_shell_update_layer p s = s" by (auto simp: layer_shell_update_layer_def Let_def split: option.split)
  then show ?thesis using li by simp
next
  case True
  then obtain sh where sh: "shell s p = Some sh" "tree_layer sh \<noteq> ls_layer (sh_state sh)" by blast
  let ?i = "ls_layer (sh_state sh)" and ?u = "(unlink_shell p s)\<lparr>shell := (shell s)(p := None)\<rparr>" and ?t = "layer_shell_update_layer p s"
  have t: "?t = upd_shell p (\<lambda>sh. sh\<lparr>tree_layer := ?i\<rparr>) (link_shell ?i p (unlink_shell p s))"
    using sh by (simp add: layer_shell_update_layer_def Let_def)
  have "linked ?u" using li linked_unlink by (simp add: layer_lists_ok_def)
  then have "linked ?t"
    by (rule linked_link [where i = ?i and p = p]) (use l [OF sh(1)] ok sh(1) in \<open>auto simp: t link_shell_def unlink_shell_def shells_ok_def\<close>)
  moreover have "distinct (all_shells ?t)" using update_layer_facts(1) [where p = p, OF ok l] by (simp add: shells_ok_def)
  ultimately show ?thesis by (simp add: layer_lists_ok_def)
qed

lemma lists_moved:
  assumes s: "layer_good s" "layer_lists_ok s" and g: "\<And>sh. ls_layer (sh_state (g sh)) < 4" "\<And>sh. tree_layer (g sh) = tree_layer sh"
  shows "layer_lists_ok (layer_shell_update_layer p (upd_shell p g s))"
proof (rule lists_move)
  show "shells_ok (upd_shell p g s)" using layer_good_parts(1) [OF s(1)] by (simp add: shells_ok_def)
  show "layer_lists_ok (upd_shell p g s)" using s(2) g(2) by (rule lists_upd)
qed (use g(1) in auto)

lemma lists_new:
  assumes "layer_good s" "layer_lists_ok s" "ls_layer st < 4"
  shows "layer_lists_ok (handle_new_layer_surface st s)"
proof -
  have "linked (handle_new_layer_surface st s)"
    by (rule linked_link [where s = s and i = "ls_layer st" and p = "next_shell s"])
      (use assms layer_good_parts(1) [OF assms(1)] in \<open>auto simp: handle_new_layer_surface_def Let_def link_shell_def layer_lists_ok_def shells_ok_def\<close>)
  moreover have "shells_ok (handle_new_layer_surface st s)" using layer_good_parts(1) new_surface_good assms(1,3) by blast
  ultimately show ?thesis by (simp add: layer_lists_ok_def shells_ok_def)
qed

lemma lists_destroy:
  assumes "layer_lists_ok s"
  shows "layer_lists_ok (layer_shell_handle_destroy p s)"
proof -
  let ?t = "(unlink_shell p s)\<lparr>shell := (shell s)(p := None)\<rparr>"
  have "all_shells ?t = removeAll p (all_shells s)" by (simp add: all_shells_def unlink_shell_def concat_removeAll)
  then have "layer_lists_ok ?t" using assms linked_unlink by (simp add: layer_lists_ok_def distinct_removeAll)
  then show ?thesis using assms lists_update by (auto simp: layer_shell_handle_destroy_def Let_def split: option.split)
qed

lemma event_lists:
  assumes s: "layer_good s" "layer_lists_ok s" and e: "layer_possible e s"
  shows "layer_lists_ok (layer_handle e s)"
proof (cases e)
  case (Commit p c st)
  have "layer_lists_ok (layer_shell_update_layer p (upd_shell p (\<lambda>sh. sh\<lparr>sh_state := st\<rparr>) s))" using lists_moved [OF s] e Commit by simp
  then show ?thesis using lists_configure lists_update
    by (auto simp: Commit layer_shell_handle_commit_def Let_def split_beta split: option.split)
next
  case (MapSurface p st)
  have "layer_lists_ok (layer_shell_update_layer p (upd_shell p (\<lambda>sh. sh\<lparr>sh_state := st, sh_mapped := True\<rparr>) s))"
    using lists_moved [OF s] e MapSurface by simp
  then show ?thesis using lists_configure lists_update
    by (auto simp: MapSurface layer_shell_handle_map_def Let_def split_beta split: option.split)
next
  case (UnmapSurface p)
  have "layer_lists_ok (upd_shell p (\<lambda>sh. sh\<lparr>sh_mapped := False\<rparr>) s)" using s(2) by (simp add: lists_upd)
  then show ?thesis using lists_update by (auto simp: UnmapSurface layer_shell_handle_unmap_def split: option.split)
next
  case (Place p d)
  have "layer_lists_ok (upd_shell p (\<lambda>sh. sh\<lparr>sh_dde := Some d\<rparr>) s)" using s(2) by (simp add: lists_upd)
  then show ?thesis using lists_configure by (auto simp: Place wlr_layer_shell_reconfigure_surface_def split: option.split)
qed (use s e in \<open>auto simp: lists_new lists_destroy lists_geometry lists_update\<close>)

interpretation layer_list_steps: step_invariant "\<lambda>_. True" "\<lambda>_ s t. \<exists>e. layer_possible e s \<and> t = layer_handle e s" "\<lambda>s. layer_good s \<and> layer_lists_ok s"
  by unfold_locales (auto intro: event_good event_lists)

lemma layer_run_lists:
  assumes "layer_run geo s"
  shows "layer_lists_ok s"
proof -
  have "layer_lists_ok (layer_handle_new_output geo)" by (simp add: layer_lists_ok_def linked_def layer_handle_new_output_def all_shells_def)
  then show ?thesis using layer_list_steps.steps_keep [OF layer_run_steps [OF assms] TrueI] new_output_good by blast
qed

lemma distinct_concat_unique:
  assumes "distinct (concat xss)" "i < length xss" "j < length xss" "x \<in> set (xss ! i)" "x \<in> set (xss ! j)"
  shows "i = j"
  using assms
proof (induction xss arbitrary: i j)
  case (Cons ys xss)
  then show ?case by (cases i; cases j) (auto dest!: nth_mem)
qed simp

text \<open>C24: in every run the four lists of an output hold each surface once, and a surface is in the list of a layer exactly
  when it exists and that layer is the one of its state.\<close>

theorem layer_lists_well_formed:
  assumes "layer_run geo s"
  shows "length (shells s) = 4 \<and> distinct (concat (shells s)) \<and>
    (\<forall>i < 4. \<forall>p. p \<in> set (shells s ! i) \<longleftrightarrow> (\<exists>sh. shell s p = Some sh \<and> ls_layer (sh_state sh) = i))"
proof -
  have ok: "shells_ok s" "tree_ok s" and l: "layer_lists_ok s" using layer_good_parts [OF layer_run_good [OF assms]] layer_run_lists [OF assms] by auto
  have n: "length (shells s) = 4" and d: "distinct (concat (shells s))" using ok(1) by (simp_all add: shells_ok_def all_shells_def)
  have w: "tree_layer sh < 4 \<and> p \<in> set (shells s ! ls_layer (sh_state sh)) \<and> tree_layer sh = ls_layer (sh_state sh)" if "shell s p = Some sh" for p sh
    using l ok(2) that n unfolding layer_lists_ok_def linked_def tree_ok_def by metis
  have "ls_layer (sh_state sh) = i" if i: "i < 4" and p: "p \<in> set (shells s ! i)" and sh: "shell s p = Some sh" for i p sh
    using distinct_concat_unique [OF d _ _ p, of "ls_layer (sh_state sh)"] w [OF sh] i n by simp
  moreover have "\<exists>sh. shell s p = Some sh" if "i < 4" "p \<in> set (shells s ! i)" for i p
  proof -
    have "p \<in> set (all_shells s)" using that n nth_mem [of i "shells s"] by (auto simp: all_shells_def)
    then show ?thesis using ok(1) by (auto simp: shells_ok_def)
  qed
  ultimately show ?thesis using n d w by blast
qed

theorem layer_lists_well_formed_witness: "0 \<in> set (shells example_layers ! 2) \<and> distinct (concat (shells example_layers))"
proof -
  have "(0 \<in> set (shells example_layers ! 2)) = (\<exists>sh. shell example_layers 0 = Some sh \<and> ls_layer (sh_state sh) = 2)"
    using layer_lists_well_formed [OF example_layers_run] by force
  then show ?thesis using layer_lists_well_formed [OF example_layers_run] example_layers_dock(1) by (simp add: dock_state_def)
qed

end
