(* ===== verification/Interactive.thy ===== *)
theory Interactive
  imports ViewState Outputs
begin

section \<open>Interactive move, resize and tiling (\<^verbatim>\<open>view/interactive.c\<close>)\<close>

text \<open>
  Where a view goes when it is dragged or resized with the pointer, how its edges stick to other windows and to the
  edges of the screen, which tile the pointer asks for, and the tile states that the arrow keys walk through. The
  operations compute what is then asked of the view manager. Coordinates of the pointer are rational numbers, converted
  to integers as C does.
\<close>

subsection \<open>Constants and state\<close>

definition VIEW_EDGE_GAP :: int where "VIEW_EDGE_GAP = 20"
definition VIEW_TOP_GAP :: int where "VIEW_TOP_GAP = 5"
definition VIEW_BOTTOM_GAP :: int where "VIEW_BOTTOM_GAP = 100"
definition VIEW_LEFT_GAP :: int where "VIEW_LEFT_GAP = 100"
definition VIEW_RIGHT_GAP :: int where "VIEW_RIGHT_GAP = 100"
definition VIEW_MIN_WIDTH :: int where "VIEW_MIN_WIDTH = 200"
definition VIEW_MIN_HEIGHT :: int where "VIEW_MIN_HEIGHT = 100"
definition EDGE_OFFSET :: int where "EDGE_OFFSET = 10"

definition VIEW_ADSORPTION_WINDOW_EDGES :: u32 where "VIEW_ADSORPTION_WINDOW_EDGES = 1"
definition VIEW_ADSORPTION_SCREEN_EDGES :: u32 where "VIEW_ADSORPTION_SCREEN_EDGES = 2"

datatype interactive_mode = INTERACTIVE_MODE_NONE | INTERACTIVE_MODE_MOVE | INTERACTIVE_MODE_RESIZE | INTERACTIVE_MODE_TILE
  | INTERACTIVE_MODE_TILE_HALF_SCREEN

datatype tile_state = TILE_NONE | TILE_TOP | TILE_BOTTOM | TILE_LEFT | TILE_RIGHT | TILE_TOP_LEFT | TILE_BOTTOM_LEFT
  | TILE_TOP_RIGHT | TILE_BOTTOM_RIGHT | TILE_MINIMIZE | TILE_MAXIMIZE

datatype arrow_key = KEY_UP | KEY_DOWN | KEY_LEFT | KEY_RIGHT

record interactive_grab =
  g_output :: ptr
  g_mode :: interactive_mode
  ongoing :: bool
  cursor_x :: rat
  cursor_y :: rat
  g_geo :: kywc_box
  resize_edges :: u32
  g_current :: tile_state
  save_x_ratio :: rat
  save_y_ratio :: rat

text \<open>What the operations read: the outputs, which points the layout of wlroots contains and how large it is, the kinds of
  adsorption, and the views of the current workspace in the order of its list.\<close>

record grab_env =
  ge_outputs :: output_manager
  ge_contains :: "int \<Rightarrow> int \<Rightarrow> bool"
  ge_layout_size :: "int \<times> int"
  ge_adsorption :: u32
  ge_views :: "(ptr \<times> kywc_view) list"

definition usable_of :: "grab_env \<Rightarrow> ptr \<Rightarrow> kywc_box" where
  "usable_of env p = o_usable_area (om_output (ge_outputs env) p)"

definition output_at_layout_edge :: "grab_env \<Rightarrow> ptr \<Rightarrow> layout_edge \<Rightarrow> bool" where
  "output_at_layout_edge env p edge =
     (case output_edge_position (o_geometry (om_output (ge_outputs env) p)) edge of (lx, ly) \<Rightarrow> \<not> ge_contains env lx ly)"

definition has_edge :: "u32 \<Rightarrow> u32 \<Rightarrow> bool" where
  "has_edge edges e \<longleftrightarrow> and edges e \<noteq> 0"

definition to_int :: "rat \<Rightarrow> int" where
  "to_int r = (if 0 \<le> r then \<lfloor>r\<rfloor> else \<lceil>r\<rceil>)"

subsection \<open>The tile under the pointer\<close>

definition get_kywc_tile_mode :: "kywc_box \<Rightarrow> rat \<Rightarrow> rat \<Rightarrow> kywc_tile" where
  "get_kywc_tile_mode usable cur_x cur_y =
     (let y1 = to_int (cur_y - of_int (box_y usable));
          corner = of_int (box_height usable) * (1 / 4);
          upper = of_int y1 < corner; lower = of_int y1 > of_int (box_height usable) - corner
      in if cur_x - of_int (box_x usable) < of_int VIEW_EDGE_GAP
         then if upper then KYWC_TILE_TOP_LEFT else if lower then KYWC_TILE_BOTTOM_LEFT else KYWC_TILE_LEFT
         else if of_int (box_x usable + box_width usable) - cur_x < of_int VIEW_EDGE_GAP
         then if upper then KYWC_TILE_TOP_RIGHT else if lower then KYWC_TILE_BOTTOM_RIGHT else KYWC_TILE_RIGHT
         else if y1 < VIEW_TOP_GAP then KYWC_TILE_ALL else KYWC_TILE_NONE)"

subsection \<open>Adsorption\<close>

text \<open>The box and the distance below which an edge sticks; the distance shrinks with every edge that did.\<close>

definition window_adsorption_top_or_bottom :: "interactive_mode \<Rightarrow> kywc_box \<Rightarrow> kywc_box \<times> int \<Rightarrow> kywc_box \<times> int" where
  "window_adsorption_top_or_bottom mode l so =
     (case so of (s, off) \<Rightarrow>
        let sx1 = box_x s; sy1 = box_y s; sx2 = box_x s + box_width s; sy2 = box_y s + box_height s;
            lx1 = box_x l; ly1 = box_y l; lx2 = box_x l + box_width l; ly2 = box_y l + box_height l
        in if sx1 > lx2 \<or> sx2 < lx1 then (s, off)
           else if \<bar>ly2 - sy1\<bar> < off
           then (if mode = INTERACTIVE_MODE_RESIZE then s\<lparr>box_y := ly2, box_height := sy2 - ly2\<rparr> else s\<lparr>box_y := ly2\<rparr>, \<bar>ly2 - sy1\<bar>)
           else if \<bar>ly1 - sy2\<bar> < off
           then (if mode = INTERACTIVE_MODE_MOVE then s\<lparr>box_y := ly1 - (sy2 - sy1)\<rparr>
                 else if mode = INTERACTIVE_MODE_RESIZE then s\<lparr>box_height := box_height s + \<bar>ly1 - sy2\<bar>\<rparr> else s, \<bar>ly1 - sy2\<bar>)
           else (s, off))"

definition window_adsorption_left_or_right :: "interactive_mode \<Rightarrow> kywc_box \<Rightarrow> kywc_box \<times> int \<Rightarrow> kywc_box \<times> int" where
  "window_adsorption_left_or_right mode l so =
     (case so of (s, off) \<Rightarrow>
        let sx1 = box_x s; sy1 = box_y s; sx2 = box_x s + box_width s; sy2 = box_y s + box_height s;
            lx1 = box_x l; ly1 = box_y l; lx2 = box_x l + box_width l; ly2 = box_y l + box_height l
        in if sy1 > ly2 \<or> sy2 < ly1 then (s, off)
           else if \<bar>lx2 - sx1\<bar> < off
           then (if mode = INTERACTIVE_MODE_RESIZE then s\<lparr>box_x := lx2, box_width := sx2 - lx2\<rparr> else s\<lparr>box_x := lx2\<rparr>, \<bar>lx2 - sx1\<bar>)
           else if \<bar>lx1 - sx2\<bar> < off
           then (if mode = INTERACTIVE_MODE_MOVE then s\<lparr>box_x := lx1 - (sx2 - sx1)\<rparr>
                 else if mode = INTERACTIVE_MODE_RESIZE then s\<lparr>box_width := box_width s + \<bar>lx1 - sx2\<bar>\<rparr> else s, \<bar>lx1 - sx2\<bar>)
           else (s, off))"

text \<open>The box of a view with its decoration.\<close>

definition outer_box :: "kywc_view \<Rightarrow> kywc_box \<Rightarrow> kywc_box" where
  "outer_box v b = \<lparr>box_x = box_x b - off_x v, box_y = box_y b - off_y v, box_width = box_width b + off_width v, box_height = box_height b + off_height v\<rparr>"

fun adsorb_loop :: "ptr \<Rightarrow> u32 \<Rightarrow> interactive_mode \<Rightarrow> (ptr \<times> kywc_view) list \<Rightarrow> kywc_box \<times> int \<times> int \<Rightarrow> kywc_box \<times> int \<times> int" where
  "adsorb_loop self edges mode [] s = s"
| "adsorb_loop self edges mode ((q, w) # ws) (s, gap_x, gap_y) =
     (if \<not> mapped w \<or> q = self \<or> minimized w \<or> maximized w \<or> fullscreen w then adsorb_loop self edges mode ws (s, gap_x, gap_y)
      else
        let l = outer_box w (geometry w);
            (s, gap_x) = (if has_edge edges KYWC_EDGE_LEFT \<or> has_edge edges KYWC_EDGE_RIGHT
                          then window_adsorption_left_or_right mode l (s, gap_x) else (s, gap_x));
            (s, gap_y) = (if has_edge edges KYWC_EDGE_TOP \<or> has_edge edges KYWC_EDGE_BOTTOM
                          then window_adsorption_top_or_bottom mode l (s, gap_y) else (s, gap_y))
        in adsorb_loop self edges mode ws (s, gap_x, gap_y))"

definition window_adsorb_window_constraints ::
  "grab_env \<Rightarrow> ptr \<Rightarrow> kywc_view \<Rightarrow> u32 \<Rightarrow> interactive_mode \<Rightarrow> kywc_box \<times> int \<times> int \<Rightarrow> kywc_box \<times> int \<times> int" where
  "window_adsorb_window_constraints env self v edges mode pgg =
     (case pgg of (pending, gap_x, gap_y) \<Rightarrow>
        if and (ge_adsorption env) VIEW_ADSORPTION_WINDOW_EDGES = 0 then (pending, gap_x, gap_y)
        else case adsorb_loop self edges mode (ge_views env) (outer_box v pending, gap_x, gap_y) of (s, gap_x, gap_y) \<Rightarrow>
          let pending = pending\<lparr>box_x := box_x s + off_x v, box_y := box_y s + off_y v\<rparr>
          in (if mode = INTERACTIVE_MODE_RESIZE
              then pending\<lparr>box_width := box_width s - off_width v, box_height := box_height s - off_height v\<rparr> else pending, gap_x, gap_y))"

definition window_adsorb_edges_constraints :: "grab_env \<Rightarrow> kywc_view \<Rightarrow> ptr \<Rightarrow> int \<Rightarrow> int \<Rightarrow> kywc_box \<Rightarrow> kywc_box" where
  "window_adsorb_edges_constraints env v out gap_x gap_y pending =
     (if and (ge_adsorption env) VIEW_ADSORPTION_SCREEN_EDGES = 0 then pending
      else
        let usable = usable_of env out; current = geometry v; s = outer_box v pending;
            x1 = box_x s; y1 = box_y s; x2 = box_x s + box_width s; y2 = box_y s + box_height s;
            ux1 = box_x usable; uy1 = box_y usable; ux2 = ux1 + box_width usable; uy2 = uy1 + box_height usable;
            pending = (if \<bar>ux1 - x1\<bar> < gap_x then pending\<lparr>box_x := ux1 + off_x v\<rparr>
                       else if \<bar>x2 - ux2\<bar> < gap_x then pending\<lparr>box_x := ux2 - box_width current - off_width v + off_x v\<rparr> else pending)
        in if \<bar>uy1 - y1\<bar> < gap_y then pending\<lparr>box_y := uy1 + off_y v\<rparr>
           else if \<bar>y2 - uy2\<bar> < gap_y then pending\<lparr>box_y := uy2 - box_height current - off_height v + off_y v\<rparr> else pending)"

subsection \<open>Moving\<close>

definition move_edges :: "kywc_view \<Rightarrow> int \<Rightarrow> int \<Rightarrow> u32" where
  "move_edges v x y = or (if x \<noteq> box_x (geometry v) then or KYWC_EDGE_LEFT KYWC_EDGE_RIGHT else 0)
     (if y \<noteq> box_y (geometry v) then or KYWC_EDGE_TOP KYWC_EDGE_BOTTOM else 0)"

definition window_move_constraints :: "grab_env \<Rightarrow> ptr \<Rightarrow> kywc_view \<Rightarrow> ptr \<Rightarrow> int \<times> int \<Rightarrow> int \<times> int" where
  "window_move_constraints env self v out xy =
     (if unconstrained v then xy
      else
        let (x, y) = xy; usable = usable_of env out; current = geometry v;
            x1 = x - off_x v; y1 = y - off_y v; x2 = x1 + box_width current + off_width v;
            pending = \<lparr>box_x = x, box_y = y, box_width = box_width current, box_height = box_height current\<rparr>;
            (pending, gap_x, gap_y) =
              window_adsorb_window_constraints env self v (move_edges v x y) INTERACTIVE_MODE_MOVE (pending, EDGE_OFFSET, EDGE_OFFSET);
            gap_x = (if gap_x < EDGE_OFFSET then gap_x else VIEW_EDGE_GAP);
            gap_y = (if gap_y < EDGE_OFFSET then gap_y else VIEW_EDGE_GAP);
            pending = window_adsorb_edges_constraints env v out gap_x gap_y pending;
            ux2 = box_x usable + box_width usable; uy2 = box_y usable + box_height usable;
            y = (if output_at_layout_edge env out LAYOUT_EDGE_TOP \<and> y1 < box_y usable then box_y usable + off_y v
                 else if output_at_layout_edge env out LAYOUT_EDGE_BOTTOM \<and> uy2 - y1 < VIEW_BOTTOM_GAP then uy2 - VIEW_BOTTOM_GAP + off_y v
                 else box_y pending);
            x = (if output_at_layout_edge env out LAYOUT_EDGE_LEFT \<and> x2 < VIEW_LEFT_GAP
                 then VIEW_LEFT_GAP - box_width current - (off_width v - off_x v)
                 else if output_at_layout_edge env out LAYOUT_EDGE_RIGHT \<and> ux2 - x1 < VIEW_RIGHT_GAP then ux2 - VIEW_RIGHT_GAP + off_y v
                 else box_x pending)
        in (x, y))"

text \<open>The position the pointer asks for.\<close>

definition interactive_move_target :: "grab_env \<Rightarrow> ptr \<Rightarrow> kywc_view \<Rightarrow> interactive_grab \<Rightarrow> rat \<Rightarrow> rat \<Rightarrow> int \<times> int" where
  "interactive_move_target env self v grab x y =
     window_move_constraints env self v (g_output grab)
       (to_int (of_int (box_x (g_geo grab)) + x - cursor_x grab), to_int (of_int (box_y (g_geo grab)) + y - cursor_y grab))"

subsection \<open>Resizing\<close>

definition resize_vertical :: "grab_env \<Rightarrow> interactive_grab \<Rightarrow> kywc_view \<Rightarrow> kywc_box \<Rightarrow> int \<Rightarrow> int \<Rightarrow> kywc_box \<Rightarrow> kywc_box" where
  "resize_vertical env grab v usable y1 y2 box =
     (let current = geometry v; uy2 = box_y usable + box_height usable;
          at_top = output_at_layout_edge env (g_output grab) LAYOUT_EDGE_TOP; at_bottom = output_at_layout_edge env (g_output grab) LAYOUT_EDGE_BOTTOM
      in if has_edge (resize_edges grab) KYWC_EDGE_TOP then
           if at_top \<and> y1 < box_y usable
           then let y = box_y usable + off_y v in box\<lparr>box_y := y, box_height := box_height current + box_y current - y\<rparr>
           else if at_bottom \<and> y1 > uy2 - off_y v - VIEW_EDGE_GAP
           then let y = uy2 - VIEW_EDGE_GAP in box\<lparr>box_y := y, box_height := y2 - y - (off_height v - off_y v)\<rparr>
           else box
         else if has_edge (resize_edges grab) KYWC_EDGE_BOTTOM then
           if at_top \<and> y2 < box_y usable + VIEW_EDGE_GAP then box\<lparr>box_height := box_y usable + VIEW_EDGE_GAP - y1 - off_height v\<rparr>
           else if at_bottom \<and> y2 > uy2 then box\<lparr>box_height := uy2 - y1 - off_height v\<rparr>
           else box
         else box)"

definition resize_horizontal :: "grab_env \<Rightarrow> interactive_grab \<Rightarrow> kywc_view \<Rightarrow> kywc_box \<Rightarrow> int \<Rightarrow> int \<Rightarrow> kywc_box \<Rightarrow> kywc_box" where
  "resize_horizontal env grab v usable x1 x2 box =
     (let current = geometry v; ux2 = box_x usable + box_width usable;
          at_left = output_at_layout_edge env (g_output grab) LAYOUT_EDGE_LEFT; at_right = output_at_layout_edge env (g_output grab) LAYOUT_EDGE_RIGHT
      in if has_edge (resize_edges grab) KYWC_EDGE_LEFT then
           if at_left \<and> x1 < box_x usable
           then let x = box_x usable + off_x v in box\<lparr>box_x := x, box_width := box_width current + box_x current - x\<rparr>
           else if at_right \<and> x1 > ux2 - VIEW_EDGE_GAP
           then let x = ux2 - VIEW_EDGE_GAP + off_x v in box\<lparr>box_x := x, box_width := x2 - x - (off_width v - off_x v)\<rparr>
           else box
         else if has_edge (resize_edges grab) KYWC_EDGE_RIGHT then
           if at_left \<and> x2 < box_x usable + VIEW_EDGE_GAP then box\<lparr>box_width := box_x usable + VIEW_EDGE_GAP - x1 - off_width v\<rparr>
           else if at_right \<and> x2 > ux2 then box\<lparr>box_width := ux2 - x1 - off_width v\<rparr>
           else box
         else box)"

text \<open>\<open>out\<close> is the output of the view, which counts when the view lies outside the output of the grab.\<close>

definition interactive_resize_constraints :: "grab_env \<Rightarrow> ptr \<Rightarrow> kywc_view \<Rightarrow> ptr \<Rightarrow> interactive_grab \<Rightarrow> kywc_box \<Rightarrow> kywc_box" where
  "interactive_resize_constraints env self v out grab box =
     (if unconstrained v then box
      else
        let s = outer_box v box;
            x1 = box_x s; y1 = box_y s; x2 = x1 + box_width s; y2 = y1 + box_height s;
            (box, _, _) = window_adsorb_window_constraints env self v (resize_edges grab) INTERACTIVE_MODE_RESIZE (box, EDGE_OFFSET, EDGE_OFFSET);
            usable = usable_of env (g_output grab);
            usable = (if x1 > box_x usable + box_width usable \<or> x2 < box_x usable \<or> y1 > box_y usable + box_height usable \<or> y2 < box_y usable
                      then usable_of env out else usable)
        in resize_horizontal env grab v usable x1 x2 (resize_vertical env grab v usable y1 y2 box))"

definition clamp :: "int \<Rightarrow> int \<Rightarrow> int \<Rightarrow> int" where
  "clamp x lo hi = (if x < lo then lo else if x > hi then hi else x)"

definition size_limits :: "int \<Rightarrow> int \<Rightarrow> int \<Rightarrow> int \<Rightarrow> bool \<Rightarrow> int \<Rightarrow> int \<times> int" where
  "size_limits lo hi least margin free layout =
     (if free then lo else if lo > least then lo else least,
      if hi \<le> 0 \<or> hi > layout - margin then layout - margin else hi)"

definition interactive_resize_target :: "grab_env \<Rightarrow> ptr \<Rightarrow> kywc_view \<Rightarrow> ptr \<Rightarrow> interactive_grab \<Rightarrow> rat \<Rightarrow> rat \<Rightarrow> kywc_box" where
  "interactive_resize_target env self v out grab x y =
     (let (min_w, max_w) = size_limits (min_width v) (max_width v) VIEW_MIN_WIDTH (off_width v) (unconstrained v) (fst (ge_layout_size env));
          (min_h, max_h) = size_limits (min_height v) (max_height v) VIEW_MIN_HEIGHT (off_height v) (unconstrained v) (snd (ge_layout_size env));
          pending = geometry v; geo = g_geo grab; dx = x - cursor_x grab; dy = y - cursor_y grab; e = resize_edges grab;
          h = (if has_edge e KYWC_EDGE_TOP then to_int (of_int (box_height geo) - dy)
               else if has_edge e KYWC_EDGE_BOTTOM then to_int (of_int (box_height geo) + dy) else box_height pending);
          h = clamp h min_h max_h;
          w = (if has_edge e KYWC_EDGE_LEFT then to_int (of_int (box_width geo) - dx)
               else if has_edge e KYWC_EDGE_RIGHT then to_int (of_int (box_width geo) + dx) else box_width pending);
          w = clamp w min_w max_w;
          pending = pending\<lparr>box_width := w, box_height := h\<rparr>;
          pending = (if has_edge e KYWC_EDGE_TOP then pending\<lparr>box_y := box_y geo + box_height geo - h\<rparr> else pending);
          pending = (if has_edge e KYWC_EDGE_LEFT then pending\<lparr>box_x := box_x geo + box_width geo - w\<rparr> else pending)
      in interactive_resize_constraints env self v out grab pending)"

subsection \<open>Tiling with the arrow keys\<close>

text \<open>The next state for up, down, left and right.\<close>

fun tile_states :: "tile_state \<Rightarrow> tile_state \<times> tile_state \<times> tile_state \<times> tile_state" where
  "tile_states TILE_NONE = (TILE_MAXIMIZE, TILE_MINIMIZE, TILE_LEFT, TILE_RIGHT)"
| "tile_states TILE_TOP = (TILE_TOP, TILE_NONE, TILE_TOP_LEFT, TILE_TOP_RIGHT)"
| "tile_states TILE_BOTTOM = (TILE_NONE, TILE_MINIMIZE, TILE_BOTTOM_LEFT, TILE_BOTTOM_RIGHT)"
| "tile_states TILE_LEFT = (TILE_TOP_LEFT, TILE_BOTTOM_LEFT, TILE_RIGHT, TILE_NONE)"
| "tile_states TILE_RIGHT = (TILE_TOP_RIGHT, TILE_BOTTOM_RIGHT, TILE_NONE, TILE_LEFT)"
| "tile_states TILE_TOP_LEFT = (TILE_MAXIMIZE, TILE_LEFT, TILE_TOP_RIGHT, TILE_TOP_RIGHT)"
| "tile_states TILE_BOTTOM_LEFT = (TILE_LEFT, TILE_MINIMIZE, TILE_BOTTOM_RIGHT, TILE_BOTTOM_RIGHT)"
| "tile_states TILE_TOP_RIGHT = (TILE_MAXIMIZE, TILE_RIGHT, TILE_TOP_LEFT, TILE_TOP_LEFT)"
| "tile_states TILE_BOTTOM_RIGHT = (TILE_RIGHT, TILE_MINIMIZE, TILE_BOTTOM_LEFT, TILE_BOTTOM_LEFT)"
| "tile_states TILE_MINIMIZE = (TILE_NONE, TILE_MINIMIZE, TILE_MINIMIZE, TILE_MINIMIZE)"
| "tile_states TILE_MAXIMIZE = (TILE_TOP, TILE_NONE, TILE_LEFT, TILE_RIGHT)"

definition next_tile_state :: "arrow_key \<Rightarrow> tile_state \<Rightarrow> tile_state" where
  "next_tile_state key t = (case tile_states t of (u, d, l, r) \<Rightarrow> case key of KEY_UP \<Rightarrow> u | KEY_DOWN \<Rightarrow> d | KEY_LEFT \<Rightarrow> l | KEY_RIGHT \<Rightarrow> r)"

definition interactive_get_tile_state :: "kywc_view \<Rightarrow> tile_state" where
  "interactive_get_tile_state v =
     (if maximized v then TILE_MAXIMIZE else if minimized v then TILE_MINIMIZE
      else case tiled v of KYWC_TILE_TOP \<Rightarrow> TILE_TOP | KYWC_TILE_BOTTOM \<Rightarrow> TILE_BOTTOM | KYWC_TILE_LEFT \<Rightarrow> TILE_LEFT
        | KYWC_TILE_RIGHT \<Rightarrow> TILE_RIGHT | KYWC_TILE_TOP_LEFT \<Rightarrow> TILE_TOP_LEFT | KYWC_TILE_BOTTOM_LEFT \<Rightarrow> TILE_BOTTOM_LEFT
        | KYWC_TILE_TOP_RIGHT \<Rightarrow> TILE_TOP_RIGHT | KYWC_TILE_BOTTOM_RIGHT \<Rightarrow> TILE_BOTTOM_RIGHT | _ \<Rightarrow> TILE_NONE)"

definition interactive_tile_output_update :: "grab_env \<Rightarrow> ptr \<Rightarrow> arrow_key \<Rightarrow> interactive_grab \<Rightarrow> interactive_grab" where
  "interactive_tile_output_update env out key grab =
     (let grab = grab\<lparr>g_output := out\<rparr>;
          edge = (if key = KEY_LEFT \<and> g_current grab \<in> {TILE_LEFT, TILE_TOP_LEFT, TILE_BOTTOM_LEFT} then LAYOUT_EDGE_LEFT
                  else if key = KEY_RIGHT \<and> g_current grab \<in> {TILE_RIGHT, TILE_TOP_RIGHT, TILE_BOTTOM_RIGHT} then LAYOUT_EDGE_RIGHT
                  else LAYOUT_EDGE_TOP)
      in if edge = LAYOUT_EDGE_TOP then grab
         else case output_find_specified_output (ge_outputs env) (g_output grab) edge of None \<Rightarrow> grab | Some q \<Rightarrow> grab\<lparr>g_output := q\<rparr>)"

text \<open>The geometry to restore later, moved to the usable area of the output when it does not lie in it.\<close>

definition tile_saved_geometry :: "interactive_grab \<Rightarrow> kywc_box \<Rightarrow> kywc_view \<Rightarrow> kywc_box \<Rightarrow> kywc_box" where
  "tile_saved_geometry grab u v saved =
     (let s = outer_box v saved; x1 = box_x s; y1 = box_y s; x2 = x1 + box_width s; y2 = y1 + box_height s;
          ux2 = box_x u + box_width u; uy2 = box_y u + box_height u;
          saved = (if x2 < box_x u \<or> y2 < box_y u \<or> x1 > ux2 \<or> y1 > uy2
                   then saved\<lparr>box_x := to_int (of_int (box_x u) + save_x_ratio grab * of_int (box_width u)),
                              box_y := to_int (of_int (box_y u) + save_y_ratio grab * of_int (box_height u))\<rparr>
                   else saved\<lparr>box_x := (if x2 > ux2 \<or> x1 < box_x u then box_x u + off_x v else box_x saved),
                              box_y := (if y2 > uy2 \<or> y1 < box_y u then box_y u + off_y v else box_y saved)\<rparr>)
      in saved\<lparr>box_width := (if box_width saved + off_width v > box_width u then box_width u - off_width v else box_width saved),
               box_height := (if box_height saved + off_height v > box_height u then box_height u - off_height v else box_height saved)\<rparr>)"

text \<open>What is asked of the view manager.\<close>

datatype view_request = SetMinimized | SetMaximized bool | SetTiledOn kywc_tile ptr | ActivateView

fun tile_of_state :: "tile_state \<Rightarrow> kywc_tile" where
  "tile_of_state TILE_TOP = KYWC_TILE_TOP"
| "tile_of_state TILE_BOTTOM = KYWC_TILE_BOTTOM"
| "tile_of_state TILE_LEFT = KYWC_TILE_LEFT"
| "tile_of_state TILE_RIGHT = KYWC_TILE_RIGHT"
| "tile_of_state TILE_TOP_LEFT = KYWC_TILE_TOP_LEFT"
| "tile_of_state TILE_BOTTOM_LEFT = KYWC_TILE_BOTTOM_LEFT"
| "tile_of_state TILE_TOP_RIGHT = KYWC_TILE_TOP_RIGHT"
| "tile_of_state TILE_BOTTOM_RIGHT = KYWC_TILE_BOTTOM_RIGHT"
| "tile_of_state _ = KYWC_TILE_NONE"

definition interactive_tile_update :: "grab_env \<Rightarrow> interactive_grab \<Rightarrow> kywc_view \<Rightarrow> ptr \<Rightarrow> tile_state \<Rightarrow> kywc_box \<Rightarrow> view_request \<times> kywc_box" where
  "interactive_tile_update env grab v out t saved =
     (if t = TILE_MINIMIZE then (SetMinimized, saved)
      else if t = TILE_MAXIMIZE then (SetMaximized True, saved)
      else
        let saved = tile_saved_geometry grab (usable_of env out) v saved
        in (if maximized v \<and> t = TILE_NONE then SetMaximized False
            else if minimized v then ActivateView
            else SetTiledOn (tile_of_state t) out, saved))"

definition interactive_process_tile :: "grab_env \<Rightarrow> arrow_key \<Rightarrow> view \<Rightarrow> interactive_grab \<Rightarrow> view_request \<times> kywc_box \<times> interactive_grab" where
  "interactive_process_tile env key vw grab =
     (let grab = grab\<lparr>g_current := interactive_get_tile_state (base vw)\<rparr>;
          pending_state = next_tile_state key (g_current grab);
          grab = interactive_tile_output_update env (v_output vw) key grab
      in case interactive_tile_update env grab (base vw) (g_output grab) pending_state (saved_geometry vw) of (req, saved) \<Rightarrow> (req, saved, grab))"

definition half_screen_tile :: "arrow_key \<Rightarrow> kywc_tile" where
  "half_screen_tile key = (case key of KEY_UP \<Rightarrow> KYWC_TILE_TOP | KEY_DOWN \<Rightarrow> KYWC_TILE_BOTTOM | KEY_LEFT \<Rightarrow> KYWC_TILE_LEFT | KEY_RIGHT \<Rightarrow> KYWC_TILE_RIGHT)"

definition interactive_process_tile_half_screen :: "grab_env \<Rightarrow> arrow_key \<Rightarrow> view \<Rightarrow> interactive_grab \<Rightarrow> view_request option \<times> interactive_grab" where
  "interactive_process_tile_half_screen env key vw grab =
     (let grab = grab\<lparr>g_current := interactive_get_tile_state (base vw)\<rparr> in
      if g_current grab = TILE_MINIMIZE then (None, grab)
      else
        let grab = grab\<lparr>g_output := v_output vw\<rparr>; tile = half_screen_tile key
        in if tiled (base vw) \<noteq> tile then (Some (SetTiledOn tile (v_output vw)), grab)
           else if tile = KYWC_TILE_TOP \<or> tile = KYWC_TILE_BOTTOM then (None, grab)
           else case output_find_specified_output (ge_outputs env) (g_output grab) (if tile = KYWC_TILE_LEFT then LAYOUT_EDGE_LEFT else LAYOUT_EDGE_RIGHT) of
               None \<Rightarrow> (None, grab)
             | Some q \<Rightarrow> (Some (SetTiledOn (if tile = KYWC_TILE_LEFT then KYWC_TILE_RIGHT else KYWC_TILE_LEFT) q), grab\<lparr>g_output := q\<rparr>))"

text \<open>The ratio is taken of the output of the grab, \<^term>\<open>None\<close> when there is none.\<close>

definition interactive_tiled_record_view_ratio :: "grab_env \<Rightarrow> view \<Rightarrow> interactive_grab \<Rightarrow> interactive_grab option" where
  "interactive_tiled_record_view_ratio env vw grab =
     (if g_output grab = NULL then None
      else let u = usable_of env (g_output grab)
           in Some (grab\<lparr>save_x_ratio := of_int (box_x (saved_geometry vw) - box_x u) / of_int (box_width u),
                         save_y_ratio := of_int (box_y (saved_geometry vw) - box_y u) / of_int (box_height u)\<rparr>))"

end
