(* ===== verification/InteractiveProofs.thy ===== *)
theory InteractiveProofs
  imports Interactive
begin

section \<open>Properties of interactive moves and resizes\<close>

text \<open>
  However a view is dragged, a part of it stays on the screen that can be reached, and a resize leaves the edge opposite
  to the dragged one where it was. Sticking to other windows moves a view by little, as the distance at which edges
  stick shrinks with every window.
\<close>

subsection \<open>How far adsorption moves a view\<close>

text \<open>The sum of the distances below one.\<close>

definition reach :: "int \<Rightarrow> int" where
  "reach g = g * (g - 1) div 2"

lemma reach_step:
  assumes "0 \<le> t" "t < g"
  shows "reach t + t \<le> reach g" "0 \<le> reach t"
proof -
  obtain n where g: "g = t + 1 + int n" using assms(2) zless_iff_Suc_zadd [of t g] by auto
  have even: "2 dvd x * (x - 1)" for x :: int by simp
  have "2 * reach g = g * (g - 1)" "2 * reach t = t * (t - 1)" unfolding reach_def using even by (metis dvd_mult_div_cancel)+
  moreover have "g * (g - 1) = t * (t - 1) + 2 * t + int n * (2 * t + 1 + int n)" unfolding g by (simp add: algebra_simps)
  moreover have "0 \<le> int n * (2 * t + 1 + int n)" using assms(1) by simp
  moreover have "0 \<le> t * (t - 1)" using assms(1) by (cases "t = 0") simp_all
  ultimately show "reach t + t \<le> reach g" "0 \<le> reach t" by linarith+
qed

lemma reach_10 [simp]: "reach 10 = 45"
  by (simp add: reach_def)

text \<open>The distances left after a step account for the way the box went.\<close>

definition stuck :: "int \<Rightarrow> int \<Rightarrow> int \<Rightarrow> int \<Rightarrow> bool" where
  "stuck x g x' g' \<longleftrightarrow> 0 \<le> g' \<and> g' \<le> g \<and> \<bar>x' - x\<bar> + reach g' \<le> reach g"

lemma stuck_refl [simp]: "0 \<le> g \<Longrightarrow> stuck x g x g"
  by (simp add: stuck_def)

lemma stuck_trans: "stuck x g x' g' \<Longrightarrow> stuck x' g' x'' g'' \<Longrightarrow> stuck x g x'' g''"
  by (auto simp: stuck_def)

lemma stuck_step: "\<bar>d\<bar> < g \<Longrightarrow> stuck x g (x + d) \<bar>d\<bar>"
  using reach_step(1) [of "\<bar>d\<bar>" g] by (auto simp: stuck_def)

lemma adsorb_x:
  assumes "window_adsorption_left_or_right INTERACTIVE_MODE_MOVE l (s, g) = (s', g')" "0 \<le> g"
  shows "stuck (box_x s) g (box_x s') g'" "box_y s' = box_y s" "box_width s' = box_width s" "box_height s' = box_height s"
  using assms stuck_step [of "box_x l + box_width l - box_x s" g "box_x s"] stuck_step [of "box_x l - (box_x s + box_width s)" g "box_x s"]
  by (auto simp: window_adsorption_left_or_right_def Let_def algebra_simps split: if_splits)

lemma adsorb_y:
  assumes "window_adsorption_top_or_bottom INTERACTIVE_MODE_MOVE l (s, g) = (s', g')" "0 \<le> g"
  shows "stuck (box_y s) g (box_y s') g'" "box_x s' = box_x s" "box_width s' = box_width s" "box_height s' = box_height s"
  using assms stuck_step [of "box_y l + box_height l - box_y s" g "box_y s"] stuck_step [of "box_y l - (box_y s + box_height s)" g "box_y s"]
  by (auto simp: window_adsorption_top_or_bottom_def Let_def algebra_simps split: if_splits)

definition moved_little :: "kywc_box \<times> int \<times> int \<Rightarrow> kywc_box \<times> int \<times> int \<Rightarrow> bool" where
  "moved_little a b \<longleftrightarrow> (case a of (s, gx, gy) \<Rightarrow> case b of (s', gx', gy') \<Rightarrow>
     stuck (box_x s) gx (box_x s') gx' \<and> stuck (box_y s) gy (box_y s') gy' \<and> box_width s' = box_width s \<and> box_height s' = box_height s)"

lemma moved_little_trans: "moved_little a b \<Longrightarrow> moved_little b c \<Longrightarrow> moved_little a c"
  by (auto simp: moved_little_def split: prod.splits intro: stuck_trans)

lemma adsorb_loop_little:
  "0 \<le> gx \<Longrightarrow> 0 \<le> gy \<Longrightarrow> moved_little (s, gx, gy) (adsorb_loop self edges INTERACTIVE_MODE_MOVE ws (s, gx, gy))"
proof (induction ws arbitrary: s gx gy)
  case Nil
  then show ?case by (simp add: moved_little_def)
next
  case (Cons w ws)
  obtain q v where w: "w = (q, v)" by (cases w)
  let ?l = "outer_box v (geometry v)"
  let ?r1 = "if has_edge edges KYWC_EDGE_LEFT \<or> has_edge edges KYWC_EDGE_RIGHT then window_adsorption_left_or_right INTERACTIVE_MODE_MOVE ?l (s, gx) else (s, gx)"
  obtain s1 gx1 where r1: "?r1 = (s1, gx1)" by fastforce
  let ?r2 = "if has_edge edges KYWC_EDGE_TOP \<or> has_edge edges KYWC_EDGE_BOTTOM then window_adsorption_top_or_bottom INTERACTIVE_MODE_MOVE ?l (s1, gy) else (s1, gy)"
  obtain s2 gy2 where r2: "?r2 = (s2, gy2)" by fastforce
  show ?case
  proof (cases "\<not> mapped v \<or> q = self \<or> minimized v \<or> maximized v \<or> fullscreen v")
    case True
    then show ?thesis using Cons w by simp
  next
    case False
    have 1: "stuck (box_x s) gx (box_x s1) gx1" "box_y s1 = box_y s" "box_width s1 = box_width s" "box_height s1 = box_height s"
      using adsorb_x [of ?l s gx s1 gx1] r1 Cons.prems(1) by (auto split: if_splits)
    have 2: "stuck (box_y s1) gy (box_y s2) gy2" "box_x s2 = box_x s1" "box_width s2 = box_width s1" "box_height s2 = box_height s1"
      using adsorb_y [of ?l s1 gy s2 gy2] r2 Cons.prems(2) by (auto split: if_splits)
    have m1: "moved_little (s, gx, gy) (s2, gx1, gy2)" using 1 2 by (simp add: moved_little_def)
    have m2: "moved_little (s2, gx1, gy2) (adsorb_loop self edges INTERACTIVE_MODE_MOVE ws (s2, gx1, gy2))"
      using Cons.IH 1(1) 2(1) by (simp add: stuck_def)
    have eq: "adsorb_loop self edges INTERACTIVE_MODE_MOVE (w # ws) (s, gx, gy) = adsorb_loop self edges INTERACTIVE_MODE_MOVE ws (s2, gx1, gy2)"
      using False r1 r2 unfolding w adsorb_loop.simps(2) Let_def by simp
    show ?thesis unfolding eq by (rule moved_little_trans [OF m1 m2])
  qed
qed

lemma window_constraints_little:
  assumes "window_adsorb_window_constraints env self v edges INTERACTIVE_MODE_MOVE (p, gx, gy) = (p', gx', gy')" "0 \<le> gx" "0 \<le> gy"
  shows "stuck (box_x p) gx (box_x p') gx'" "stuck (box_y p) gy (box_y p') gy'" "box_width p' = box_width p" "box_height p' = box_height p"
proof -
  have "stuck (box_x p) gx (box_x p') gx' \<and> stuck (box_y p) gy (box_y p') gy' \<and> box_width p' = box_width p \<and> box_height p' = box_height p"
  proof (cases "and (ge_adsorption env) VIEW_ADSORPTION_WINDOW_EDGES = 0")
    case True
    then show ?thesis using assms by (auto simp: window_adsorb_window_constraints_def)
  next
    case False
    obtain s gx1 gy1 where a: "adsorb_loop self edges INTERACTIVE_MODE_MOVE (ge_views env) (outer_box v p, gx, gy) = (s, gx1, gy1)"
      by (metis prod_cases3)
    then have "moved_little (outer_box v p, gx, gy) (s, gx1, gy1)" using adsorb_loop_little [OF assms(2,3), of "outer_box v p"] by metis
    then show ?thesis using assms(1) False a by (auto simp: window_adsorb_window_constraints_def Let_def moved_little_def outer_box_def stuck_def)
  qed
  then show "stuck (box_x p) gx (box_x p') gx'" "stuck (box_y p) gy (box_y p') gy'" "box_width p' = box_width p" "box_height p' = box_height p" by blast+
qed

lemma edges_little:
  assumes "box_width p = box_width (geometry v)" "box_height p = box_height (geometry v)"
    and "p' = window_adsorb_edges_constraints env v out gx gy p"
  shows "box_x p' = box_x p \<or> \<bar>box_x p' - box_x p\<bar> < gx" "box_y p' = box_y p \<or> \<bar>box_y p' - box_y p\<bar> < gy"
  using assms by (auto simp: window_adsorb_edges_constraints_def Let_def outer_box_def)

lemma stuck_then_edge:
  assumes "stuck x 10 x' g" "x'' = x' \<or> \<bar>x'' - x'\<bar> < (if g < 10 then g else 20)"
  shows "\<bar>x'' - x\<bar> \<le> 45"
proof -
  have s: "0 \<le> g" "g \<le> 10" "\<bar>x' - x\<bar> + reach g \<le> 45" using assms(1) by (simp_all add: stuck_def)
  show ?thesis
  proof (cases "g < 10")
    case True
    have "\<bar>x'' - x'\<bar> \<le> reach g"
      using assms(2) True reach_step [of "\<bar>x'' - x'\<bar>" g] reach_step(2) [of g "g + 1"] s(1) by auto
    then show ?thesis using s(3) by linarith
  next
    case False
    then have "g = 10" using s(2) by simp
    then show ?thesis using assms(2) s(3) by auto
  qed
qed

subsection \<open>Dragging\<close>

text \<open>The pieces of the move: the position after adsorption is near the one asked for.\<close>

lemma move_near:
  assumes "\<not> unconstrained v"
  obtains x' y' where "\<bar>x' - x\<bar> \<le> 45" "\<bar>y' - y\<bar> \<le> 45"
    "window_move_constraints env self v out (x, y) =
      (let u = usable_of env out; x1 = x - off_x v; y1 = y - off_y v; x2 = x1 + box_width (geometry v) + off_width v;
           ux2 = box_x u + box_width u; uy2 = box_y u + box_height u in
       (if output_at_layout_edge env out LAYOUT_EDGE_LEFT \<and> x2 < 100 then 100 - box_width (geometry v) - (off_width v - off_x v)
        else if output_at_layout_edge env out LAYOUT_EDGE_RIGHT \<and> ux2 - x1 < 100 then ux2 - 100 + off_y v else x',
        if output_at_layout_edge env out LAYOUT_EDGE_TOP \<and> y1 < box_y u then box_y u + off_y v
        else if output_at_layout_edge env out LAYOUT_EDGE_BOTTOM \<and> uy2 - y1 < 100 then uy2 - 100 + off_y v else y'))"
proof -
  let ?p = "\<lparr>box_x = x, box_y = y, box_width = box_width (geometry v), box_height = box_height (geometry v)\<rparr>"
  obtain p gx gy where w: "window_adsorb_window_constraints env self v (move_edges v x y) INTERACTIVE_MODE_MOVE (?p, 10, 10) = (p, gx, gy)"
    by (metis prod_cases3)
  note l = window_constraints_little [OF w]
  let ?q = "window_adsorb_edges_constraints env v out (if gx < 10 then gx else 20) (if gy < 10 then gy else 20) p"
  have e: "box_x ?q = box_x p \<or> \<bar>box_x ?q - box_x p\<bar> < (if gx < 10 then gx else 20)"
      "box_y ?q = box_y p \<or> \<bar>box_y ?q - box_y p\<bar> < (if gy < 10 then gy else 20)"
    using edges_little [of p v ?q env out "if gx < 10 then gx else 20" "if gy < 10 then gy else 20"] l(3,4) by simp_all
  have "\<bar>box_x ?q - x\<bar> \<le> 45" "\<bar>box_y ?q - y\<bar> \<le> 45"
    using stuck_then_edge [OF _ e(1), of x] stuck_then_edge [OF _ e(2), of y] l(1,2) by simp_all
  then show ?thesis
    by (rule that) (use assms w in \<open>simp add: window_move_constraints_def Let_def EDGE_OFFSET_def VIEW_EDGE_GAP_def VIEW_LEFT_GAP_def
      VIEW_RIGHT_GAP_def VIEW_BOTTOM_GAP_def split: prod.split\<close>)
qed

text \<open>C27: where a dragged view ends up, sticking to windows and screen edges included. An unconstrained view goes where the
  pointer asks. Any other view, with its decoration, is bounded on each side on which its output ends the layout: its
  upper edge is at most 45 pixels above the usable area; its upper edge is at least 55 pixels above the lower end of the
  usable area; its right edge is at least 55 pixels right of the coordinate 0, wherever the usable area begins; and its
  left edge is at least 55 pixels left of the right end of the usable area, or 100 pixels less the difference of the
  upper and the left margin, whichever is further right.\<close>

theorem dragged_view_bounds:
  assumes "window_move_constraints env self v out (x, y) = (nx, ny)"
    and "usable_of env out = u" "100 \<le> box_height u" "100 \<le> box_x u + box_width u"
    and "200 \<le> box_width (geometry v) + off_width v" "off_x v \<le> off_y v"
  shows "if unconstrained v then nx = x \<and> ny = y
    else (output_at_layout_edge env out LAYOUT_EDGE_TOP \<longrightarrow> box_y u - 45 \<le> ny - off_y v) \<and>
      (output_at_layout_edge env out LAYOUT_EDGE_BOTTOM \<longrightarrow> ny - off_y v \<le> box_y u + box_height u - 55) \<and>
      (output_at_layout_edge env out LAYOUT_EDGE_LEFT \<longrightarrow> 55 \<le> nx - off_x v + box_width (geometry v) + off_width v) \<and>
      (output_at_layout_edge env out LAYOUT_EDGE_RIGHT \<longrightarrow>
        nx - off_x v \<le> max (box_x u + box_width u - 55) (box_x u + box_width u - 100 + (off_y v - off_x v)))"
proof (cases "unconstrained v")
  case True
  then show ?thesis using assms(1) by (simp add: window_move_constraints_def Let_def)
next
  case False
  obtain x' y' where n: "\<bar>x' - x\<bar> \<le> 45" "\<bar>y' - y\<bar> \<le> 45" and r: "window_move_constraints env self v out (x, y) =
      (let u = usable_of env out; x1 = x - off_x v; y1 = y - off_y v; x2 = x1 + box_width (geometry v) + off_width v;
           ux2 = box_x u + box_width u; uy2 = box_y u + box_height u in
       (if output_at_layout_edge env out LAYOUT_EDGE_LEFT \<and> x2 < 100 then 100 - box_width (geometry v) - (off_width v - off_x v)
        else if output_at_layout_edge env out LAYOUT_EDGE_RIGHT \<and> ux2 - x1 < 100 then ux2 - 100 + off_y v else x',
        if output_at_layout_edge env out LAYOUT_EDGE_TOP \<and> y1 < box_y u then box_y u + off_y v
        else if output_at_layout_edge env out LAYOUT_EDGE_BOTTOM \<and> uy2 - y1 < 100 then uy2 - 100 + off_y v else y'))"
    by (rule move_near [OF False]) blast
  let ?left = "output_at_layout_edge env out LAYOUT_EDGE_LEFT" and ?right = "output_at_layout_edge env out LAYOUT_EDGE_RIGHT"
  let ?top = "output_at_layout_edge env out LAYOUT_EDGE_TOP" and ?bottom = "output_at_layout_edge env out LAYOUT_EDGE_BOTTOM"
  have nx: "nx = (if ?left \<and> x - off_x v + box_width (geometry v) + off_width v < 100 then 100 - box_width (geometry v) - (off_width v - off_x v)
      else if ?right \<and> box_x u + box_width u - (x - off_x v) < 100 then box_x u + box_width u - 100 + off_y v else x')"
    and ny: "ny = (if ?top \<and> y - off_y v < box_y u then box_y u + off_y v
      else if ?bottom \<and> box_y u + box_height u - (y - off_y v) < 100 then box_y u + box_height u - 100 + off_y v else y')"
    using r assms(1,2) by (simp_all add: Let_def)
  have "?top \<Longrightarrow> box_y u - 45 \<le> ny - off_y v" "?bottom \<Longrightarrow> ny - off_y v \<le> box_y u + box_height u - 55"
    unfolding ny using n(2) assms(3) by auto
  moreover have "?left \<Longrightarrow> 55 \<le> nx - off_x v + box_width (geometry v) + off_width v"
    "?right \<Longrightarrow> nx - off_x v \<le> max (box_x u + box_width u - 55) (box_x u + box_width u - 100 + (off_y v - off_x v))"
    unfolding nx using n(1) assms(4-6) by auto
  ultimately show ?thesis using False by simp
qed

subsection \<open>Resizing\<close>

lemma resize_vertical_x: "box_x (resize_vertical env grab v u y1 y2 b) = box_x b" "box_width (resize_vertical env grab v u y1 y2 b) = box_width b"
  by (simp_all add: resize_vertical_def Let_def)

lemma resize_horizontal_y: "box_y (resize_horizontal env grab v u x1 x2 b) = box_y b" "box_height (resize_horizontal env grab v u x1 x2 b) = box_height b"
  by (simp_all add: resize_horizontal_def Let_def)

lemma resize_vertical_top:
  assumes "has_edge (resize_edges grab) KYWC_EDGE_TOP" "box_y b + box_height b = bottom" "box_y (geometry v) + box_height (geometry v) = bottom"
    "y2 = box_y b - off_y v + box_height b + off_height v"
  shows "box_y (resize_vertical env grab v u y1 y2 b) + box_height (resize_vertical env grab v u y1 y2 b) = bottom"
  using assms by (auto simp: resize_vertical_def Let_def)

lemma resize_vertical_other:
  "\<not> has_edge (resize_edges grab) KYWC_EDGE_TOP \<Longrightarrow> box_y (resize_vertical env grab v u y1 y2 b) = box_y b"
  by (simp add: resize_vertical_def Let_def)

lemma resize_horizontal_left:
  assumes "has_edge (resize_edges grab) KYWC_EDGE_LEFT" "box_x b + box_width b = right" "box_x (geometry v) + box_width (geometry v) = right"
    "x2 = box_x b - off_x v + box_width b + off_width v"
  shows "box_x (resize_horizontal env grab v u x1 x2 b) + box_width (resize_horizontal env grab v u x1 x2 b) = right"
  using assms by (auto simp: resize_horizontal_def Let_def)

lemma resize_horizontal_other:
  "\<not> has_edge (resize_edges grab) KYWC_EDGE_LEFT \<Longrightarrow> box_x (resize_horizontal env grab v u x1 x2 b) = box_x b"
  by (simp add: resize_horizontal_def Let_def)

text \<open>Without adsorption to windows the constraints keep the opposite edges.\<close>

lemma resize_constraints_eq:
  assumes "and (ge_adsorption env) VIEW_ADSORPTION_WINDOW_EDGES = 0" "\<not> unconstrained v"
  shows "\<exists>u. interactive_resize_constraints env self v out grab b =
    resize_horizontal env grab v u (box_x b - off_x v) (box_x b - off_x v + box_width b + off_width v)
      (resize_vertical env grab v u (box_y b - off_y v) (box_y b - off_y v + box_height b + off_height v) b)"
proof -
  have "window_adsorb_window_constraints env self v e mode pgg = pgg" for e mode pgg
    using assms(1) by (simp add: window_adsorb_window_constraints_def split: prod.split)
  then show ?thesis using assms(2) by (auto simp: interactive_resize_constraints_def Let_def outer_box_def add.assoc)
qed

lemma resize_constraints_keep:
  assumes "and (ge_adsorption env) VIEW_ADSORPTION_WINDOW_EDGES = 0" "c = interactive_resize_constraints env self v out grab b"
  shows "has_edge (resize_edges grab) KYWC_EDGE_LEFT \<Longrightarrow> box_x b + box_width b = right \<Longrightarrow> box_x (geometry v) + box_width (geometry v) = right \<Longrightarrow>
      box_x c + box_width c = right"
    "has_edge (resize_edges grab) KYWC_EDGE_TOP \<Longrightarrow> box_y b + box_height b = bottom \<Longrightarrow> box_y (geometry v) + box_height (geometry v) = bottom \<Longrightarrow>
      box_y c + box_height c = bottom"
    "\<not> has_edge (resize_edges grab) KYWC_EDGE_LEFT \<Longrightarrow> box_x c = box_x b" "\<not> has_edge (resize_edges grab) KYWC_EDGE_TOP \<Longrightarrow> box_y c = box_y b"
proof -
  have "unconstrained v \<Longrightarrow> c = b" using assms(2) by (simp add: interactive_resize_constraints_def)
  then obtain u x1 x2 y1 y2 where c: "c = b \<or> c = resize_horizontal env grab v u x1 x2 (resize_vertical env grab v u y1 y2 b)"
      "x2 = box_x b - off_x v + box_width b + off_width v" "y2 = box_y b - off_y v + box_height b + off_height v"
    using assms(2) resize_constraints_eq [OF assms(1), of v self out grab b] by metis
  show "box_x c + box_width c = right" if "has_edge (resize_edges grab) KYWC_EDGE_LEFT" "box_x b + box_width b = right"
      "box_x (geometry v) + box_width (geometry v) = right"
    using c(1) resize_horizontal_left [of grab "resize_vertical env grab v u y1 y2 b" right v x2 env u x1] that c(2) by (auto simp: resize_vertical_x)
  show "box_y c + box_height c = bottom" if "has_edge (resize_edges grab) KYWC_EDGE_TOP" "box_y b + box_height b = bottom"
      "box_y (geometry v) + box_height (geometry v) = bottom"
    using c(1) resize_vertical_top [of grab b bottom v y2 env u y1] that c(3) by (auto simp: resize_horizontal_y)
  show "box_x c = box_x b" if "\<not> has_edge (resize_edges grab) KYWC_EDGE_LEFT"
    using c(1) that by (auto simp: resize_horizontal_other resize_vertical_x)
  show "box_y c = box_y b" if "\<not> has_edge (resize_edges grab) KYWC_EDGE_TOP"
    using c(1) that by (auto simp: resize_vertical_other resize_horizontal_y)
qed

text \<open>The box before the constraints.\<close>

lemma resize_target_cases:
  obtains b where "interactive_resize_target env self v out grab x y = interactive_resize_constraints env self v out grab b"
    "has_edge (resize_edges grab) KYWC_EDGE_LEFT \<Longrightarrow> box_x b + box_width b = box_x (g_geo grab) + box_width (g_geo grab)"
    "has_edge (resize_edges grab) KYWC_EDGE_TOP \<Longrightarrow> box_y b + box_height b = box_y (g_geo grab) + box_height (g_geo grab)"
    "\<not> has_edge (resize_edges grab) KYWC_EDGE_LEFT \<Longrightarrow> box_x b = box_x (geometry v)"
    "\<not> has_edge (resize_edges grab) KYWC_EDGE_TOP \<Longrightarrow> box_y b = box_y (geometry v)"
  by (rule that [OF interactive_resize_target_def [unfolded Let_def split_beta]]) simp_all

text \<open>C28: as long as edges do not stick to windows, a resize leaves the edge opposite to the dragged one where it was when
  the resize began, for every pair of edges and wherever the pointer goes; an axis without a dragged edge keeps its
  position. The view must still have that edge there.\<close>

theorem resize_keeps_opposite_edges:
  assumes "and (ge_adsorption env) VIEW_ADSORPTION_WINDOW_EDGES = 0"
    and "has_edge (resize_edges grab) KYWC_EDGE_LEFT \<longrightarrow>
      box_x (geometry v) + box_width (geometry v) = box_x (g_geo grab) + box_width (g_geo grab)"
    and "has_edge (resize_edges grab) KYWC_EDGE_TOP \<longrightarrow>
      box_y (geometry v) + box_height (geometry v) = box_y (g_geo grab) + box_height (g_geo grab)"
  shows "let b = interactive_resize_target env self v out grab x y in
    (if has_edge (resize_edges grab) KYWC_EDGE_LEFT then box_x b + box_width b = box_x (g_geo grab) + box_width (g_geo grab)
     else box_x b = box_x (geometry v)) \<and>
    (if has_edge (resize_edges grab) KYWC_EDGE_TOP then box_y b + box_height b = box_y (g_geo grab) + box_height (g_geo grab)
     else box_y b = box_y (geometry v))"
proof -
  obtain b where b: "interactive_resize_target env self v out grab x y = interactive_resize_constraints env self v out grab b"
    "has_edge (resize_edges grab) KYWC_EDGE_LEFT \<Longrightarrow> box_x b + box_width b = box_x (g_geo grab) + box_width (g_geo grab)"
    "has_edge (resize_edges grab) KYWC_EDGE_TOP \<Longrightarrow> box_y b + box_height b = box_y (g_geo grab) + box_height (g_geo grab)"
    "\<not> has_edge (resize_edges grab) KYWC_EDGE_LEFT \<Longrightarrow> box_x b = box_x (geometry v)"
    "\<not> has_edge (resize_edges grab) KYWC_EDGE_TOP \<Longrightarrow> box_y b = box_y (geometry v)"
    using resize_target_cases [of env self v out grab x y] by metis
  note k = resize_constraints_keep [OF assms(1) refl, where grab = grab and b = b and v = v and self = self and out = out]
  show ?thesis unfolding Let_def b(1)
    using k(1) [OF _ b(2)] k(2) [OF _ b(3)] k(3) b(4) k(4) b(5) assms(2,3) by simp
qed

subsection \<open>Examples\<close>

text \<open>One screen with a view in the middle, as a layout of one output.\<close>

definition example_view :: kywc_view where
  "example_view = \<lparr>role = KYWC_VIEW_ROLE_NORMAL, geometry = \<lparr>box_x = 400, box_y = 300, box_width = 400, box_height = 300\<rparr>,
     off_x = 5, off_y = 30, off_width = 10, off_height = 35, padding_top = 0, padding_bottom = 0, padding_left = 0, padding_right = 0,
     min_width = 0, min_height = 0, max_width = 0, max_height = 0, ssd = 0, has_initial_position = False, has_round_corner = False,
     unconstrained = False, mapped = True, minimized = False, maximized = False, fullscreen = False, activated = False,
     tiled = KYWC_TILE_NONE, modal = False, kept_above = False, kept_below = False, sticky = False, minimizable = True, maximizable = True,
     fullscreenable = True, closeable = True, movable = True, resizable = True, activatable = True, focusable = True, title = None, app_id = None\<rparr>"

definition example_area :: kywc_box where
  "example_area = \<lparr>box_x = 0, box_y = 0, box_width = 1920, box_height = 1080\<rparr>"

definition example_grab_env :: "u32 \<Rightarrow> (ptr \<times> kywc_view) list \<Rightarrow> grab_env" where
  "example_grab_env ads views = (let st = \<lparr>enabled = True, st_power = True, st_width = 1920, st_height = 1080, refresh = 60000, transform = 0,
       vrr_policy = 0, scale = 1, st_lx = 0, st_ly = 0, brightness = 100, color_temp = 6500, st_primary = True\<rparr>;
     o1 = \<lparr>o_state = st, o_name = [], o_uuid = [], o_modes = [], capabilities = 0, o_destroying = False,
       o_geometry = example_area, o_usable_area = example_area, initialized = True, o_brightness = 100, o_color_temp = 6500, o_vrr_policy = 0,
       gamma_changed = False, scene_commit = False, has_pending = False, o_pending_state = st\<rparr>
     in \<lparr>ge_outputs = \<lparr>om_outputs = [1], om_output = (\<lambda>_. o1), output_configs = [], om_fallback = NULL, primary_output = 1, pending_primary = NULL,
           terminate = False, out_signals = []\<rparr>,
         ge_contains = kywc_box_contains_point example_area, ge_layout_size = (1920, 1080), ge_adsorption = ads, ge_views = views\<rparr>)"

lemma example_at_edges: "output_at_layout_edge (example_grab_env ads views) 1 e"
proof -
  have "box_width example_area sdiv 2 = 960" "box_height example_area sdiv 2 = 540" by (code_simp)+
  then show ?thesis by (cases e) (simp_all add: output_at_layout_edge_def example_grab_env_def output_edge_position_def Let_def
    kywc_box_contains_point_def example_area_def)
qed

theorem dragged_view_bounds_witness:
  "let (nx, ny) = window_move_constraints (example_grab_env 3 [(1, example_view)]) 2 example_view 1 (3000, -700)
   in nx - 5 \<le> 1920 - 55 \<and> -45 \<le> ny - 30"
proof -
  let ?env = "example_grab_env 3 [(1, example_view)]"
  have r: "window_move_constraints ?env 2 example_view 1 (3000, -700) = (1850, 30)" by code_simp
  have "usable_of ?env 1 = example_area" by (simp add: usable_of_def example_grab_env_def Let_def)
  from dragged_view_bounds [OF r this] show ?thesis
    by (simp add: r [unfolded example_view_def] example_view_def example_area_def example_at_edges)
qed

definition example_resize :: interactive_grab where
  "example_resize = \<lparr>g_output = 1, g_mode = INTERACTIVE_MODE_RESIZE, ongoing = True, cursor_x = 400, cursor_y = 450,
     g_geo = geometry example_view, resize_edges = KYWC_EDGE_LEFT, g_current = TILE_NONE, save_x_ratio = 0, save_y_ratio = 0\<rparr>"

theorem resize_keeps_opposite_edges_witness:
  "let b = interactive_resize_target (example_grab_env 0 []) 2 example_view 1 example_resize 350 450 in box_x b + box_width b = 800"
  using resize_keeps_opposite_edges [of "example_grab_env 0 []" example_resize example_view 2 1 350 450]
  by (simp add: example_resize_def example_grab_env_def has_edge_def KYWC_EDGE_LEFT_def KYWC_EDGE_TOP_def Let_def example_view_def)

text \<open>With a window three pixels right of the view, dragging the left edge moves the right edge, away from the window when
  they overlap.\<close>

lemma sticking_moves_the_other_edge:
  "interactive_resize_target (example_grab_env 1 [(3, example_view\<lparr>geometry := \<lparr>box_x = 813, box_y = 300, box_width = 400, box_height = 300\<rparr>\<rparr>)]) 2
     example_view 1 example_resize 350 450 = \<lparr>box_x = 350, box_y = 300, box_width = 453, box_height = 300\<rparr>"
  "interactive_resize_target (example_grab_env 1 [(3, example_view\<lparr>geometry := \<lparr>box_x = 807, box_y = 300, box_width = 400, box_height = 300\<rparr>\<rparr>)]) 2
     example_view 1 example_resize 350 450 = \<lparr>box_x = 350, box_y = 300, box_width = 453, box_height = 300\<rparr>"
  by code_simp+

end
