(* ===== verification/Spec2Isabelle.thy ===== *)
theory Spec2Isabelle
  imports HashMap JobQueueProofs ViewProofs WorkspaceProofs ActivationProofs
    StringProofs KeyFeedProofs GestureProofs Shortcuts SessionLockProofs PositionerRuns
    IdleProofs OutputProofs LayerShellProofs InteractiveProofs
begin

text \<open>
  \<^bold>\<open>A model of the flake-wm Wayland compositor\<close>

  flake-wm is a Wayland compositor in C. Its own code lies in \<^verbatim>\<open>src/src\<close> and \<^verbatim>\<open>src/include\<close>: utilities, the
  management of views (windows), workspaces and stacking order, input with its bindings and gestures, outputs,
  scene graph and rendering, effects, and the protocols that expose all this to clients. Below it lie wlroots,
  libxkbcommon and other libraries (\<^verbatim>\<open>src/libs\<close>), which are not modelled.

  \<^bold>\<open>Conventions.\<close> Integers of the program are words of their width where an operation can wrap, and integers or
  natural numbers elsewhere. A pointer is a 64-bit word with \<open>NULL\<close> the zero word; objects that alias one another
  live in maps from pointers. A result \<^term>\<open>None\<close> is a failed assertion, an access outside an array or the use of
  freed memory; an outcome of \<^verbatim>\<open>calloc\<close> and everything a library decides is an argument. Definitions keep the
  names of the C functions; loops are recursive functions named after the function they belong to.

  \<^bold>\<open>Utilities.\<close>
  \<^item> \<open>HashTable\<close> is \<^verbatim>\<open>util/hash_table.c\<close>: open addressing with double hashing, deleted slots and growth through a
    table of sizes, with the remainder by a magic number. \<open>HashSizes\<close> checks the sizes, \<open>HashProofs\<close> and
    \<open>HashRehash\<close> hold the invariant of the probe sequences and its preservation, \<open>HashMap\<close> the contract of a
    store of keys as a locale, its interpretations for pointer, integer and string keys and the theorems: the
    table refines a finite map, growth and rehashing lose nothing, and the two ways entries do get lost.
  \<^item> \<open>JobQueue\<close> is \<^verbatim>\<open>util/queue.c\<close>: the ring buffer of jobs, the fences, and clients, worker threads and the
    shutdown as rules of a step relation whose steps are the sections under the lock; dropping a job is one such
    section followed by a signal or a wait. \<open>JobQueueProofs\<close> shows the queue implements the contract of a FIFO, that
    the n-th job taken is the n-th accepted one or the empty job left by a drop, which jobs a shutdown signals, and
    that a signalled fence is idle as long as clients reuse only idle fences, a rule the queue does not check
    (\<open>reuses_idle_fences\<close>; without it a fence is signalled early, \<open>reused_fence_signalled_early\<close>).
  \<^item> \<open>Strings\<close> and \<open>StringProofs\<close> are \<^verbatim>\<open>util/string.c\<close> and \<^verbatim>\<open>util/identifier.c\<close>: stripping, splitting, paths
    and identifiers; splitting undoes joining, what can be freed, what a UUID keeps of its random bytes.

  \<^bold>\<open>Views.\<close>
  \<^item> \<open>Boxes\<close> is \<^verbatim>\<open>kywc/boxes.h\<close>. \<open>ViewState\<close> holds the record of a view from \<^verbatim>\<open>kywc/view.h\<close> and \<^verbatim>\<open>view/view.h\<close> and
    the operations of \<^verbatim>\<open>view/view.c\<close> and \<^verbatim>\<open>view/xdg_shell.c\<close> that move, resize, tile, maximize, map, unmap and
    configure it; the client's answer to a configure and the timeout are operations too. Of showing a view full
    screen, minimizing, activating, mapping and unmapping it, \<open>ViewState\<close> has the effect on the view itself. \<open>ViewProofs\<close>
    shows that no order of these requests, commits and timeouts fails an assertion, that a floating geometry is
    restored, and where tiles lie.
  \<^item> \<open>ViewTree\<close> holds proxies of views in workspaces, layers, parents and the stacking order; \<open>ViewManager\<close> the
    capabilities, activation, minimizing, show-desktop and the stack mode; \<open>Workspaces\<close> is \<^verbatim>\<open>view/workspace.c\<close>.
    The operations of the manager call one another through signals: they are one function over call values with a
    bound on the depth of calls, and \<^term>\<open>None\<close> also stands for an exceeded bound.
  \<^item> \<open>WorkspaceArray\<close> and \<open>WorkspaceProofs\<close> show that creating, moving and destroying workspaces acts on the array as
    list insertion and deletion and returns, that a destroyed workspace is left empty unless it is the last one, and
    where names and proxies go wrong. What the operations on views leave of the workspaces and their lists is the
    contract \<open>view_frame\<close>. \<open>ActivationProofs\<close> shows that over all operations at most one view is activated.

  \<^item> \<open>SessionLock\<close> is \<^verbatim>\<open>view/session_lock.c\<close>: locks in a heap, one handler per listener, and a step function over
    the events of clients, outputs, surfaces and the recovery timer. \<open>SessionLockProofs\<close> shows that a locked session
    stays covered and takes no foreign focus, when a client is told that the session is locked, how a lock can end,
    and that the death of a replacement client unlocks the session if an output is enabled.

  \<^item> \<open>PositionerGrid\<close> and \<open>Positioner\<close> are \<^verbatim>\<open>view/positioner.c\<close>: the numbering of the slots of an output's grid, the
    slots of a workspace with a doubly linked free list in an array, and the handlers of views, workspaces and outputs.
    The search along the free list tells an index outside the slots (\<open>OUTSIDE_SLOTS\<close>) from a search that does not end
    (\<^term>\<open>None\<close>).
    \<open>PositionerProofs\<close> has the invariant of one place and the run in which a shrunk grid makes the list cyclic,
    \<open>PositionerInv\<close> the invariant of the whole state and that every handler keeps it, \<open>PositionerRuns\<close> the step
    relation and the theorems: slots count their views, a new view gets a free slot, numbering and positions are
    inverse to each other, and children lie in the usable area.

  \<^item> \<open>Interactive\<close> is the computation in \<^verbatim>\<open>view/interactive.c\<close>: where a dragged or resized view goes, how its edges stick to
    windows and to the screen, the tile under the pointer and tiling with the arrow keys. \<open>InteractiveProofs\<close> shows
    how far a dragged view can go and that a resize keeps the opposite edge, except when edges stick to windows.

  \<^bold>\<open>Outputs.\<close>
  \<^item> \<open>Outputs\<close> is the core of \<^verbatim>\<open>output/output.c\<close>: the choice of a mode, the request that a new state becomes, what is
    read back of it with its signals, the order of the outputs, pending configurations with the primary and the
    fallback output, and the work area of the layout. What wlroots and the backend answer is an argument of the
    operations (\<open>out_env\<close>), and the theorems hold for every answer. \<open>OutputProofs\<close> shows that outputs are sorted, that
    an accepted configuration enables what it asks for, which output is then the primary one and when it is enabled,
    that the best mode is chosen and that the work area excludes the panels. A fallback output without a mode, where
    the code uses a null pointer, is \<^term>\<open>None\<close>.
  \<^item> \<open>LayerShell\<close> is \<^verbatim>\<open>view/wlr_layer_shell.c\<close> for one output: the surfaces of four layers, their placement, the exclusive
    zones, and the signals by which they and the usable area of the output change each other, as a step function over
    events. \<open>LayerShellProofs\<close> shows that the incremental layout always agrees with a fresh one, that panels stay clear
    of the usable area, and that the lists of the layers are well formed.

  \<^bold>\<open>Input.\<close>
  \<^item> \<open>Keyboard\<close> is the part of \<^verbatim>\<open>input/keyboard.c\<close> that keeps modifiers and pressed symbols; it refines a list.
  \<^item> \<open>Bindings\<close> and \<open>Gestures\<close> are \<^verbatim>\<open>input/binding.c\<close> and \<^verbatim>\<open>input/gesture.c\<close>: key and gesture bindings, their
    registration and blocking, and the state machine of a gesture. \<open>BindingProofs\<close> shows that registered bindings
    are unique and that a key runs its binding, \<open>GestureProofs\<close> the order of the calls of a swipe.
  \<^item> \<open>KeyFeed\<close> is the way of a key in \<^verbatim>\<open>input/keyboard.c\<close> and the capture of shortcuts in \<^verbatim>\<open>input/action.c\<close>;
    \<open>KeyFeedProofs\<close> shows that a locked session runs no binding and that captured shortcuts can be registered.
  \<^item> \<open>Shortcuts\<close> is \<^verbatim>\<open>config/ukui_shortcut.c\<close>, services that block types of bindings, with the account of locks.
  \<^item> \<open>Idle\<close> is \<^verbatim>\<open>input/idle.c\<close> and \<^verbatim>\<open>input/idle_inhibit.c\<close>: timers in a heap, the requests of two protocols, activity and
    inhibitors, as a step function over events. A time-out becomes an \<^verbatim>\<open>int\<close> when the timer is armed, and the end of
    a view leaves listeners in freed memory. \<open>IdleProofs\<close> shows that no idleness is missed for time-outs below
    \<open>2\<^sup>3\<^sup>1\<close> and that clients are told in turn, exactly when a handler fails, and that simulated activity defeats an
    inhibitor.

  \<open>Prelude\<close> holds what all share: words, decimal numbers, arithmetic modulo a size, and the contract of a step
  relation with an invariant, interpreted for the window manager, the bindings, the session lock, the positioner, the idle
  timers and the layer shell.

  \<^bold>\<open>Bounds.\<close> The theorems on the hash table hold for the first twenty sizes, up to \<open>2 ^ 19\<close> operations on a new
  table. Depths of the window manager's calls and of the tree of views are arguments, and the theorems that
  claim a result name a depth that suffices.

  \<^bold>\<open>Not modelled.\<close> Rendering, scene graph, decorations, effects and themes, where the program draws; the backends,
  D-Bus, configuration files, Xwayland and plugins, which are glue to other software; protocol objects that only
  forward requests; of the modelled files the creation and destruction of protocol objects and the listeners
  without state of their own. Of outputs, their creation, hotplug, EDID data, gamma and damage and the files that
  remember layouts are left out, and of the layer shell keyboard grabs, popups and the end of an output. Cursor,
  touch and tablet input mostly call wlroots and are not modelled. The rounding of floating-point numbers is
  not modelled: distances of gestures are real numbers, scales of outputs and coordinates of the pointer rational ones.
\<close>

end
